(* ===== verification/Prelude.thy ===== *)
theory Prelude
  imports Main "HOL-Library.Word" "HOL-Library.Multiset"
begin

unbundle bit_operations_syntax

section \<open>Shared vocabulary of the development\<close>

text \<open>
  Facts about power-of-two masks, triangular probing and lists that several components
  share, and the named collections they feed. Nothing here models code except
  \<open>round_up_pow2\<close>, the doubling loop that four of the containers of
  \<open>bootstrap/cell.c\<close> run to round a capacity up to a power of two.
\<close>

named_theorems wf_rules \<open>well-formedness of a state is kept by an operation\<close>
named_theorems abs_simps \<open>an operation, seen through the abstraction function\<close>

type_synonym u8 = "8 word"
type_synonym u16 = "16 word"
type_synonym u32 = "32 word"
type_synonym u64 = "64 word"

text \<open>The bytes of a C string, without the terminating NUL.\<close>

definition string_bytes :: "string \<Rightarrow> u8 list" where
  "string_bytes s = map of_char s"

subsection \<open>Masks\<close>

lemma and_pow2_minus_one [simp]:
  fixes x :: nat
  shows "x AND (2 ^ k - Suc 0) = x mod 2 ^ k"
  by (metis One_nat_def mask_eq_exp_minus_1 take_bit_eq_mask take_bit_eq_mod)

definition is_pow2 :: "nat \<Rightarrow> bool" where
  "is_pow2 n \<longleftrightarrow> (\<exists>k. n = 2 ^ k)"

lemma is_pow2_pos: "is_pow2 n \<Longrightarrow> 0 < n"
  by (auto simp: is_pow2_def)

lemma is_pow2_double [intro]: "is_pow2 n \<Longrightarrow> is_pow2 (2 * n)"
  unfolding is_pow2_def by (metis power_Suc)

lemma is_pow2_one [intro, simp]: "is_pow2 1" "is_pow2 (Suc 0)"
  unfolding is_pow2_def by (auto intro: exI [of _ 0])

lemma is_pow2_numerals [intro, simp]: "is_pow2 8" "is_pow2 16" "is_pow2 64"
  unfolding is_pow2_def
  by (auto intro: exI [of _ 3] exI [of _ 4] exI [of _ 6])

lemma and_mask_lt: "is_pow2 n \<Longrightarrow> (x :: nat) AND (n - 1) < n"
  by (auto simp: is_pow2_def)

lemma and_mask_mod: "is_pow2 n \<Longrightarrow> (x :: nat) AND (n - 1) = x mod n"
  by (auto simp: is_pow2_def)

lemma mod_add_inj:
  fixes h i j c :: nat
  assumes "i < c" "j < c" "(h + i) mod c = (h + j) mod c"
  shows "i = j"
proof -
  have "int (h + i) mod int c = int (h + j) mod int c"
    using assms(3) by (metis zmod_int)
  then have "int i mod int c = int j mod int c"
    by (simp add: mod_eq_dvd_iff)
  with assms show ?thesis by simp
qed

lemma unat_and_mask_word:
  fixes w c :: "'a :: len word"
  assumes "unat c = 2 ^ k"
  shows "unat (w AND (c - 1)) = unat w mod 2 ^ k"
proof -
  have "c \<noteq> 0" using assms by auto
  then have "unat (c - 1) = 2 ^ k - 1"
    using assms by (simp add: unat_minus_one)
  then show ?thesis by (simp add: unsigned_and_eq)
qed

lemma div_mod_fields:
  fixes e f K :: nat
  assumes "f < K"
  shows "(e * K + f) div K = e" "(e * K + f) mod K = f"
  using assms by simp_all

text \<open>\<open>uint32_t\<close> arithmetic on fields that are kept as natural numbers.\<close>

definition mul32 :: "nat \<Rightarrow> nat \<Rightarrow> nat" where
  "mul32 a b = (a * b) mod 2 ^ 32"

definition sub32 :: "nat \<Rightarrow> nat \<Rightarrow> nat" where
  "sub32 a b = (a + 2 ^ 32 - b) mod 2 ^ 32"

lemma mul32_exact: "a * b < 2 ^ 32 \<Longrightarrow> mul32 a b = a * b"
  by (simp add: mul32_def)

lemma sub32_exact:
  assumes "b \<le> a" "a < 2 ^ 32"
  shows "sub32 a b = a - b"
proof -
  have k: "(a + K - b) mod K = a - b" if "a < K" for K
  proof -
    have "a + K - b = (a - b) + K" using assms(1) by simp
    then have "(a + K - b) mod K = ((a - b) + K) mod K" by (rule arg_cong)
    also have "\<dots> = a - b" using that by simp
    finally show ?thesis .
  qed
  show ?thesis unfolding sub32_def by (rule k [OF assms(2)])
qed

lemma unat_of_nat_u32: "n < 2 ^ 32 \<Longrightarrow> unat (of_nat n :: u32) = n"
  by (simp add: unat_of_nat)

subsection \<open>Rounding a capacity up to a power of two\<close>

text \<open>
  \<^verbatim>\<open>while (cap < want) cap <<= 1;\<close> as every constructor of \<open>cell.c\<close> runs it. The start
  is a positive constant there; a start of 0 would never grow, so it is returned as is.
\<close>

function round_up_pow2 :: "nat \<Rightarrow> nat \<Rightarrow> nat" where
  "round_up_pow2 cap want =
     (if cap < want \<and> 0 < cap then round_up_pow2 (2 * cap) want else cap)"
  by pat_completeness auto
termination
  by (relation "measure (\<lambda>(cap, want). want - cap)") auto

declare round_up_pow2.simps [simp del]

lemma round_up_pow2_ge: "0 < cap \<Longrightarrow> want \<le> round_up_pow2 cap want \<and> cap \<le> round_up_pow2 cap want"
proof (induction cap want rule: round_up_pow2.induct)
  case (1 cap want)
  then show ?case
    by (cases "cap < want") (auto simp: round_up_pow2.simps [of cap want])
qed

lemma round_up_pow2_is_pow2: "is_pow2 cap \<Longrightarrow> is_pow2 (round_up_pow2 cap want)"
proof (induction cap want rule: round_up_pow2.induct)
  case (1 cap want)
  then show ?case
    by (cases "cap < want \<and> 0 < cap") (auto simp: round_up_pow2.simps [of cap want])
qed

lemma round_up_pow2_tight: "0 < cap \<Longrightarrow> cap < want \<Longrightarrow> round_up_pow2 cap want < 2 * want"
proof (induction cap want rule: round_up_pow2.induct)
  case (1 cap want)
  then show ?case
    by (cases "2 * cap < want")
      (auto simp: round_up_pow2.simps [of cap want] round_up_pow2.simps [of "2 * cap" want])
qed

lemma round_up_pow2_le: "is_pow2 cap \<Longrightarrow> cap \<le> 2 ^ k \<Longrightarrow> want \<le> 2 ^ k \<Longrightarrow> round_up_pow2 cap want \<le> 2 ^ k"
proof (induction cap want rule: round_up_pow2.induct)
  case (1 cap want)
  show ?case
  proof (cases "cap < want \<and> 0 < cap")
    case True
    obtain j where j: "cap = 2 ^ j" using "1.prems"(1) by (auto simp: is_pow2_def)
    have lt: "(2 :: nat) ^ j < 2 ^ k" using True "1.prems"(3) j by linarith
    have "j < k" by (rule power_less_imp_less_exp [OF _ lt]) simp
    then have "(2 :: nat) ^ Suc j \<le> 2 ^ k" by (intro power_increasing) simp_all
    then have "round_up_pow2 (2 * cap) want \<le> 2 ^ k"
      using "1.IH" [OF True] "1.prems" j by auto
    then show ?thesis using True by (simp add: round_up_pow2.simps [of cap want])
  next
    case False
    then have "round_up_pow2 cap want = cap" by (subst round_up_pow2.simps) (simp only: if_False)
    with "1.prems" show ?thesis by simp
  qed
qed

subsection \<open>Triangular probing\<close>

text \<open>
  The two hash tables of \<open>cell.c\<close> probe groups at offsets 0, 1, 3, 6, ... from the home
  group (\<^verbatim>\<open>probe_step++; probe_offset += probe_step;\<close>), reduced by the group mask. Over a
  power-of-two number of groups this visits every group once in the first \<open>n\<close> probes.
\<close>

definition tri :: "nat \<Rightarrow> nat" where
  "tri i = i * (i + 1) div 2"

lemma tri_0 [simp]: "tri 0 = 0"
  by (simp add: tri_def)

lemma two_tri: "2 * tri i = i * (i + 1)"
  unfolding tri_def by simp

lemma tri_Suc: "tri (Suc i) = tri i + Suc i"
  using two_tri [of i] two_tri [of "Suc i"] by (simp add: algebra_simps)

lemma odd_pow2_dvd_prod:
  fixes a b :: nat
  assumes "odd (a + b)" and "2 ^ k dvd a * b"
  shows "2 ^ k dvd a \<or> 2 ^ k dvd b"
proof (cases "even a")
  case True
  with assms(1) have "coprime (2 ^ k) b" by simp
  with assms(2) show ?thesis
    using coprime_dvd_mult_left_iff by blast
next
  case False
  then have "coprime (2 ^ k) a" by simp
  with assms(2) show ?thesis
    using coprime_dvd_mult_right_iff by blast
qed

lemma tri_mod_inj_aux:
  fixes i j :: nat
  assumes ij: "i < j" "j < 2 ^ k"
    and eq: "(g + tri i) mod 2 ^ k = (g + tri j) mod 2 ^ k"
  shows False
proof -
  define d where "d = j - i"
  have j: "j = i + d" and d: "0 < d" "d < 2 ^ k"
    using ij by (auto simp: d_def)
  have le: "tri i \<le> tri j"
    unfolding tri_def using ij(1) by (intro div_le_mono mult_le_mono) auto
  have "(2 ^ k :: nat) dvd (g + tri j) - (g + tri i)"
    using eq le by (metis add_le_cancel_left mod_eq_dvd_iff_nat)
  then have "2 ^ k dvd tri j - tri i" by simp
  then have "2 * 2 ^ k dvd 2 * (tri j - tri i)" by simp
  also have "2 * (tri j - tri i) = d * (2 * i + d + 1)"
    unfolding diff_mult_distrib2 two_tri by (simp add: j algebra_simps)
  finally have "2 ^ Suc k dvd d * (2 * i + d + 1)" by simp
  moreover have "odd (d + (2 * i + d + 1))" by simp
  ultimately have "2 ^ Suc k dvd d \<or> 2 ^ Suc k dvd (2 * i + d + 1)"
    by (intro odd_pow2_dvd_prod)
  moreover have "d < 2 ^ Suc k" and "2 * i + d + 1 < 2 ^ Suc k" 
    using ij d j by auto
  ultimately show False
    using d(1) by (auto dest: dvd_imp_le)
qed

lemma tri_mod_inj: "inj_on (\<lambda>i. (g + tri i) mod 2 ^ k) {..<2 ^ k}"
proof (rule inj_onI)
  fix i j :: nat
  assume "i \<in> {..<2 ^ k}" "j \<in> {..<2 ^ k}" "(g + tri i) mod 2 ^ k = (g + tri j) mod 2 ^ k"
  then show "i = j"
    using tri_mod_inj_aux [of i j k g] tri_mod_inj_aux [of j i k g]
    by (metis lessThan_iff linorder_neqE_nat)
qed

lemma tri_probe_surj:
  assumes "is_pow2 n" and "t < n"
  shows "\<exists>i < n. (g + tri i) AND (n - 1) = t"
proof -
  from assms(1) obtain k where n: "n = 2 ^ k" by (auto simp: is_pow2_def)
  let ?f = "\<lambda>i. (g + tri i) mod 2 ^ k"
  have "?f ` {..<2 ^ k} \<subseteq> {..<2 ^ k}" by auto
  moreover have "card (?f ` {..<2 ^ k}) = card {..<(2 :: nat) ^ k}"
    by (rule card_image [OF tri_mod_inj])
  ultimately have "?f ` {..<2 ^ k} = {..<2 ^ k}"
    by (intro card_subset_eq) auto
  with assms(2) n have "t \<in> ?f ` {..<2 ^ k}" by simp
  then show ?thesis by (auto simp: n)
qed

subsection \<open>Lists\<close>

lemma nth_list_update_if:
  "i < length xs \<Longrightarrow> xs[j := x] ! i = (if i = j then x else xs ! i)"
  by (simp add: nth_list_update)

lemma map_nth_upt_take: "n \<le> length xs \<Longrightarrow> map ((!) xs) [0..<n] = take n xs"
  by (simp add: list_eq_iff_nth_eq)

text \<open>
  \<^verbatim>\<open>memcpy(dst + di, src + si, n * sizeof(elem))\<close> on arrays held as lists, for the calls whose
  source and destination lie inside the two arrays.
\<close>

definition memcpy :: "'a list \<Rightarrow> nat \<Rightarrow> 'a list \<Rightarrow> nat \<Rightarrow> nat \<Rightarrow> 'a list" where
  "memcpy dst di src si n = take di dst @ take n (drop si src) @ drop (di + n) dst"

lemma length_memcpy [simp]:
  "di + n \<le> length dst \<Longrightarrow> si + n \<le> length src \<Longrightarrow> length (memcpy dst di src si n) = length dst"
  by (simp add: memcpy_def)

lemma nth_memcpy:
  "di + n \<le> length dst \<Longrightarrow> si + n \<le> length src \<Longrightarrow> i < length dst \<Longrightarrow>
    memcpy dst di src si n ! i = (if di \<le> i \<and> i < di + n then src ! (si + (i - di)) else dst ! i)"
  unfolding memcpy_def by (auto simp: nth_append min_absorb1 min_absorb2)

lemma memcpy_0: "n \<le> length dst \<Longrightarrow> memcpy dst 0 src si n = take n (drop si src) @ drop n dst"
  by (simp add: memcpy_def)

lemma unwrap_ring: "h < length B \<Longrightarrow> drop h B @ take h B = rotate h B"
  by (simp add: rotate_drop_take)

lemma find_append: "List.find P (xs @ ys) = (case List.find P xs of None \<Rightarrow> List.find P ys | Some x \<Rightarrow> Some x)"
  by (induction xs) auto

lemma find_cong_set: "(\<And>x. x \<in> set xs \<Longrightarrow> P x = Q x) \<Longrightarrow> List.find P xs = List.find Q xs"
  by (induction xs) auto


subsection \<open>Loops that may not return\<close>

text \<open>A C \<open>for\<close> loop over a list of indices whose body may fail to return.\<close>

primrec ofold :: "('a \<Rightarrow> 's \<Rightarrow> 's option) \<Rightarrow> 'a list \<Rightarrow> 's \<Rightarrow> 's option" where
  "ofold f [] s = Some s"
| "ofold f (x # xs) s = Option.bind (f x s) (ofold f xs)"

lemma ofold_append: "ofold f (xs @ ys) s = Option.bind (ofold f xs s) (ofold f ys)"
  by (induction xs arbitrary: s) (auto split: Option.bind_splits)

lemma ofold_rule:
  assumes "I 0 s"
    and "\<And>i s. i < length xs \<Longrightarrow> I i s \<Longrightarrow> \<exists>s'. f (xs ! i) s = Some s' \<and> I (Suc i) s'"
  shows "\<exists>s'. ofold f xs s = Some s' \<and> I (length xs) s'"
  using assms
proof (induction xs arbitrary: s I)
  case (Cons x xs)
  obtain s1 where s1: "f x s = Some s1" "I 1 s1"
    using Cons.prems(2) [of 0 s] Cons.prems(1) by auto
  have "\<exists>s'. ofold f xs s1 = Some s' \<and> I (Suc (length xs)) s'"
    using Cons.IH [of "\<lambda>i. I (Suc i)" s1] s1 Cons.prems(2) by fastforce
  with s1 show ?case by simp
qed simp

text \<open>The least index from \<open>i\<close> on at which a loop stops.\<close>

lemma least_from:
  fixes i :: nat
  assumes "\<exists>j. i \<le> j \<and> P j"
  obtains n where "i \<le> n" "P n" "\<And>j. i \<le> j \<Longrightarrow> j < n \<Longrightarrow> \<not> P j"
  using assms that LeastI_ex [of "\<lambda>j. i \<le> j \<and> P j"] not_less_Least [of _ "\<lambda>j. i \<le> j \<and> P j"]
  by blast

subsection \<open>The probe sequence in 32-bit arithmetic\<close>

text \<open>
  \<^verbatim>\<open>(group_idx + probe_offset) & group_mask\<close> after \<open>i\<close> steps: the offset has wrapped to 32 bits,
  the masked sum has not lost anything because the mask is below a power of two.
\<close>

lemma probe_group:
  fixes g :: u32
  assumes "is_pow2 ng" "ng < 2 ^ 32"
  shows "unat ((g + of_nat (tri i)) AND (of_nat ng - 1)) = (unat g + tri i) mod ng"
proof -
  from assms obtain k where k: "ng = 2 ^ k" "k < 32"
    by (metis is_pow2_def less_exp one_less_numeral_iff power_strict_increasing_iff semiring_norm(76))
  have "unat (of_nat ng :: u32) = ng"
    using assms(2) by (simp add: unat_of_nat)
  also note k(1)
  finally have "unat (of_nat ng :: u32) = 2 ^ k" .
  then have "unat ((g + of_nat (tri i)) AND (of_nat ng - 1)) = unat (g + of_nat (tri i)) mod 2 ^ k"
    by (rule unat_and_mask_word)
  also have "unat (g + of_nat (tri i)) = (unat g + tri i) mod 2 ^ 32"
    by (simp add: unat_word_ariths unat_of_nat mod_simps)
  also have "\<dots> mod 2 ^ k = (unat g + tri i) mod 2 ^ k"
    using k(2) by (intro mod_mod_cancel le_imp_power_dvd) simp
  finally show ?thesis by (simp add: k)
qed

lemma tri_word_Suc: "of_nat (tri i) + of_nat (Suc i) = (of_nat (tri (Suc i)) :: 'a :: len word)"
  by (simp add: tri_Suc)

lemma of_nat_Suc_word: "(of_nat i :: 'a :: len word) + 1 = of_nat (Suc i)"
  by simp

lemma probe_visits:
  assumes "is_pow2 ng" "t < ng"
  shows "\<exists>i. (g + tri i) mod ng = t"
  using tri_probe_surj [OF assms, of g] and_mask_mod [OF assms(1)] by auto

end
