(* ===== verification/Contracts.thy ===== *)
theory Contracts
  imports Prelude "HOL-Library.Multiset"
begin

section \<open>The contracts of the containers\<close>

text \<open>
  What the primitives of the language rely on when they use a container, stated once as
  locales over an invariant and an abstraction function: a stack and a deque hold a list,
  a set holds a set up to key equality, a map holds a partial function up to key equality,
  a priority queue holds a multiset of prioritised values. The theories of the containers
  interpret them on the code's operations. The lemmas proved inside the locales are the
  client side: what a sequence of calls returns.
\<close>

text \<open>Popping \<open>n\<close> times and collecting what comes out.\<close>

fun drain :: "('d \<Rightarrow> 'r \<times> 'd) \<Rightarrow> nat \<Rightarrow> 'd \<Rightarrow> 'r list" where
  "drain pop 0 d = []"
| "drain pop (Suc n) d = (case pop d of (r, d') \<Rightarrow> r # drain pop n d')"

definition push_all :: "('d \<Rightarrow> 'a \<Rightarrow> 'd) \<Rightarrow> 'a list \<Rightarrow> 'd \<Rightarrow> 'd" where
  "push_all push xs d = foldl push d xs"

subsection \<open>Stacks and deques\<close>

locale stack_contract =
  fixes invar :: "'d \<Rightarrow> bool"
    and content :: "'d \<Rightarrow> 'a list"
    and room :: nat
    and push :: "'d \<Rightarrow> 'a \<Rightarrow> 'd"
    and pop :: "'d \<Rightarrow> 'a option \<times> 'd"
  assumes push_invar: "invar d \<Longrightarrow> length (content d) < room \<Longrightarrow> invar (push d x)"
    and push_content: "invar d \<Longrightarrow> length (content d) < room \<Longrightarrow> content (push d x) = content d @ [x]"
    and pop_invar: "invar d \<Longrightarrow> content d \<noteq> [] \<Longrightarrow> invar (snd (pop d))"
    and pop_content: "invar d \<Longrightarrow> content d \<noteq> [] \<Longrightarrow> content (snd (pop d)) = butlast (content d)"
    and pop_result: "invar d \<Longrightarrow> content d \<noteq> [] \<Longrightarrow> fst (pop d) = Some (last (content d))"
    and pop_empty: "invar d \<Longrightarrow> content d = [] \<Longrightarrow> pop d = (None, d)"
begin

lemma push_all_content:
  "invar d \<Longrightarrow> length (content d) + length xs \<le> room \<Longrightarrow>
    invar (push_all push xs d) \<and> content (push_all push xs d) = content d @ xs"
proof (induction xs arbitrary: d)
  case (Cons x xs)
  then have "invar (push d x)" "content (push d x) = content d @ [x]"
    using push_invar push_content by auto
  with Cons show ?case by (simp add: push_all_def)
qed (simp add: push_all_def)

lemma drain_content:
  "invar d \<Longrightarrow> n \<le> length (content d) \<Longrightarrow>
    drain pop n d = map Some (take n (rev (content d)))"
proof (induction n arbitrary: d)
  case (Suc n)
  then obtain xs x where xs: "content d = xs @ [x]" by (cases "content d" rule: rev_cases) auto
  then have ne: "content d \<noteq> []" by simp
  have "drain pop n (snd (pop d)) = map Some (take n (rev xs))"
    using Suc xs pop_invar [OF _ ne] pop_content [OF _ ne] by simp
  then show ?case
    using pop_result [OF Suc.prems(1) ne] xs by (simp add: case_prod_beta)
qed simp

text \<open>Last in, first out: what was pushed comes back in reverse, then what was there before.\<close>

lemma lifo:
  assumes "invar d" "length (content d) + length xs \<le> room"
  shows "drain pop (length xs) (push_all push xs d) = map Some (rev xs)"
  using push_all_content [OF assms] drain_content [of "push_all push xs d" "length xs"] by simp

end

locale deque_contract = stack_contract invar content room push pop
  for invar :: "'d \<Rightarrow> bool" and content :: "'d \<Rightarrow> 'a list" and room :: nat
    and push :: "'d \<Rightarrow> 'a \<Rightarrow> 'd" and pop :: "'d \<Rightarrow> 'a option \<times> 'd" +
  fixes push_front :: "'d \<Rightarrow> 'a \<Rightarrow> 'd"
    and pop_front :: "'d \<Rightarrow> 'a option \<times> 'd"
  assumes push_front_invar: "invar d \<Longrightarrow> length (content d) < room \<Longrightarrow> invar (push_front d x)"
    and push_front_content:
      "invar d \<Longrightarrow> length (content d) < room \<Longrightarrow> content (push_front d x) = x # content d"
    and pop_front_invar: "invar d \<Longrightarrow> content d \<noteq> [] \<Longrightarrow> invar (snd (pop_front d))"
    and pop_front_content:
      "invar d \<Longrightarrow> content d \<noteq> [] \<Longrightarrow> content (snd (pop_front d)) = tl (content d)"
    and pop_front_result:
      "invar d \<Longrightarrow> content d \<noteq> [] \<Longrightarrow> fst (pop_front d) = Some (hd (content d))"
    and pop_front_empty: "invar d \<Longrightarrow> content d = [] \<Longrightarrow> pop_front d = (None, d)"
begin

lemma drain_front_content:
  "invar d \<Longrightarrow> n \<le> length (content d) \<Longrightarrow>
    drain pop_front n d = map Some (take n (content d))"
proof (induction n arbitrary: d)
  case (Suc n)
  then obtain x xs where xs: "content d = x # xs" by (cases "content d") auto
  then have ne: "content d \<noteq> []" by simp
  have "drain pop_front n (snd (pop_front d)) = map Some (take n xs)"
    using Suc xs pop_front_invar [OF _ ne] pop_front_content [OF _ ne] by simp
  then show ?case
    using pop_front_result [OF Suc.prems(1) ne] xs by (simp add: case_prod_beta)
qed simp

text \<open>First in, first out: elements pushed at the back leave at the front in the same order,
  after the ones that were there.\<close>

lemma fifo:
  assumes "invar d" "length (content d) + length xs \<le> room"
  shows "drain pop_front (length (content d) + length xs) (push_all push xs d) =
      map Some (content d @ xs)"
  using push_all_content [OF assms]
    drain_front_content [of "push_all push xs d" "length (content d) + length xs"] by simp

end


subsection \<open>Keys of the hash tables\<close>

text \<open>
  The two hash tables are correct on a set of keys on which the equality test is an
  equivalence that the hash function respects.
\<close>

locale hash_keys =
  fixes K :: "'k set"
    and eq :: "'k \<Rightarrow> 'k \<Rightarrow> bool"
    and h :: "'k \<Rightarrow> u64"
  assumes eq_refl: "k \<in> K \<Longrightarrow> eq k k"
    and eq_sym: "j \<in> K \<Longrightarrow> k \<in> K \<Longrightarrow> eq j k \<Longrightarrow> eq k j"
    and eq_trans: "i \<in> K \<Longrightarrow> j \<in> K \<Longrightarrow> k \<in> K \<Longrightarrow> eq i j \<Longrightarrow> eq j k \<Longrightarrow> eq i k"
    and eq_hash: "j \<in> K \<Longrightarrow> k \<in> K \<Longrightarrow> eq j k \<Longrightarrow> h j = h k"
begin

lemma eq_iff: "i \<in> K \<Longrightarrow> j \<in> K \<Longrightarrow> k \<in> K \<Longrightarrow> eq i j \<Longrightarrow> eq i k = eq j k"
  by (meson eq_sym eq_trans)

lemma eq_iff_right: "i \<in> K \<Longrightarrow> j \<in> K \<Longrightarrow> k \<in> K \<Longrightarrow> eq i j \<Longrightarrow> eq k i = eq k j"
  by (meson eq_sym eq_trans)

end


subsection \<open>Maps\<close>

definition put_list :: "('m \<Rightarrow> 'k \<Rightarrow> 'v \<Rightarrow> ('v option \<times> 'm) option) \<Rightarrow> ('k \<times> 'v) list \<Rightarrow> 'm \<Rightarrow> 'm option" where
  "put_list put kvs m = ofold (\<lambda>(k, v) m. map_option snd (put m k v)) kvs m"

text \<open>The last entry of the list for the key wins.\<close>

definition list_lookup :: "('k \<Rightarrow> 'k \<Rightarrow> bool) \<Rightarrow> ('k \<times> 'v) list \<Rightarrow> 'k \<Rightarrow> 'v option" where
  "list_lookup eq kvs j = map_option snd (List.find (\<lambda>(k, v). eq k j) (rev kvs))"

text \<open>
  A map up to key equality. \<open>room m n\<close> says that \<open>n\<close> more insertions keep the map within the
  sizes its arithmetic is exact for.
\<close>

locale map_contract = hash_keys K eq h
  for K :: "'k set" and eq :: "'k \<Rightarrow> 'k \<Rightarrow> bool" and h :: "'k \<Rightarrow> u64" +
  fixes invar :: "'m \<Rightarrow> bool"
    and room :: "'m \<Rightarrow> nat \<Rightarrow> bool"
    and lookup :: "'m \<Rightarrow> 'k \<Rightarrow> 'v option"
    and put :: "'m \<Rightarrow> 'k \<Rightarrow> 'v \<Rightarrow> ('v option \<times> 'm) option"
    and get :: "'m \<Rightarrow> 'k \<Rightarrow> 'v option option"
  assumes put_ok: "invar m \<Longrightarrow> room m (Suc n) \<Longrightarrow> k \<in> K \<Longrightarrow>
      \<exists>m'. put m k v = Some (lookup m k, m') \<and> invar m' \<and> room m' n \<and>
        (\<forall>j \<in> K. lookup m' j = (if eq k j then Some v else lookup m j))"
    and get_ok: "invar m \<Longrightarrow> k \<in> K \<Longrightarrow> get m k = Some (lookup m k)"
begin

lemma put_list_lookup:
  "invar m \<Longrightarrow> room m (length kvs + n) \<Longrightarrow> fst ` set kvs \<subseteq> K \<Longrightarrow>
    \<exists>m'. put_list put kvs m = Some m' \<and> invar m' \<and> room m' n \<and>
      (\<forall>j \<in> K. get m' j = Some (case list_lookup eq kvs j of Some v \<Rightarrow> Some v | None \<Rightarrow> lookup m j))"
proof (induction kvs arbitrary: m)
  case Nil
  then show ?case using get_ok by (auto simp: put_list_def list_lookup_def)
next
  case (Cons kv kvs)
  obtain k v where kv: "kv = (k, v)" by (cases kv)
  from Cons.prems kv have "room m (Suc (length kvs + n))" "k \<in> K" by simp_all
  with put_ok [OF Cons.prems(1)] obtain m1 where m1: "put m k v = Some (lookup m k, m1)" "invar m1"
    "room m1 (length kvs + n)" "\<forall>j \<in> K. lookup m1 j = (if eq k j then Some v else lookup m j)"
    by blast
  obtain m' where m': "put_list put kvs m1 = Some m'" "invar m'" "room m' n"
    "\<forall>j \<in> K. get m' j = Some (case list_lookup eq kvs j of Some v \<Rightarrow> Some v | None \<Rightarrow> lookup m1 j)"
    using Cons.IH [OF m1(2,3)] Cons.prems(3) by auto
  have "list_lookup eq (kv # kvs) j =
      (case list_lookup eq kvs j of Some v \<Rightarrow> Some v | None \<Rightarrow> if eq k j then Some v else None)" for j
    by (auto simp: list_lookup_def kv find_append split: option.splits)
  with m1(4) m' show ?case
    by (auto simp: put_list_def kv m1(1) split: option.splits)
qed

end

subsection \<open>Sets\<close>

definition add_all :: "('s \<Rightarrow> 'k \<Rightarrow> (bool \<times> 's) option) \<Rightarrow> 'k list \<Rightarrow> 's \<Rightarrow> 's option" where
  "add_all add xs s = ofold (\<lambda>x s. map_option snd (add s x)) xs s"

text \<open>
  A set up to key equality; \<open>add\<close> tells whether the key is new, \<open>room\<close> is as for maps.
\<close>

locale set_contract = hash_keys K eq h
  for K :: "'k set" and eq :: "'k \<Rightarrow> 'k \<Rightarrow> bool" and h :: "'k \<Rightarrow> u64" +
  fixes invar :: "'s \<Rightarrow> bool"
    and room :: "'s \<Rightarrow> nat \<Rightarrow> bool"
    and mem :: "'s \<Rightarrow> 'k \<Rightarrow> bool"
    and add :: "'s \<Rightarrow> 'k \<Rightarrow> (bool \<times> 's) option"
    and has :: "'s \<Rightarrow> 'k \<Rightarrow> bool option"
  assumes add_ok: "invar s \<Longrightarrow> x \<in> K \<Longrightarrow> room s (Suc n) \<Longrightarrow>
      \<exists>s'. add s x = Some (\<not> mem s x, s') \<and> invar s' \<and> room s' n \<and>
        (\<forall>y \<in> K. mem s' y \<longleftrightarrow> eq x y \<or> mem s y)"
    and has_ok: "invar s \<Longrightarrow> x \<in> K \<Longrightarrow> has s x = Some (mem s x)"
begin

lemma add_all_mem:
  "invar s \<Longrightarrow> room s (length xs + n) \<Longrightarrow> set xs \<subseteq> K \<Longrightarrow>
    \<exists>s'. add_all add xs s = Some s' \<and> invar s' \<and> room s' n \<and>
      (\<forall>y \<in> K. has s' y = Some ((\<exists>x \<in> set xs. eq x y) \<or> mem s y)) \<and>
      (\<forall>y \<in> K. mem s' y \<longleftrightarrow> (\<exists>x \<in> set xs. eq x y) \<or> mem s y)"
proof (induction xs arbitrary: s)
  case Nil
  then show ?case using has_ok by (auto simp: add_all_def)
next
  case (Cons x xs)
  from Cons.prems have "room s (Suc (length xs + n))" "x \<in> K" by simp_all
  with add_ok [OF Cons.prems(1)] obtain s1 where s1: "add s x = Some (\<not> mem s x, s1)" "invar s1"
    "room s1 (length xs + n)" "\<forall>y \<in> K. mem s1 y \<longleftrightarrow> eq x y \<or> mem s y"
    by blast
  obtain s' where "add_all add xs s1 = Some s'" "invar s'" "room s' n"
    "\<forall>y \<in> K. has s' y = Some ((\<exists>x \<in> set xs. eq x y) \<or> mem s1 y)"
    "\<forall>y \<in> K. mem s' y \<longleftrightarrow> (\<exists>x \<in> set xs. eq x y) \<or> mem s1 y"
    using Cons.IH [OF s1(2,3)] Cons.prems(3) by auto
  with s1 show ?case by (auto simp: add_all_def)
qed

end

subsection \<open>Priority queues\<close>

text \<open>Popping \<open>n\<close> times from a queue whose pop may fail, and pushing a list of entries.\<close>

primrec pop_many :: "('q \<Rightarrow> ('e option \<times> 'q) option) \<Rightarrow> nat \<Rightarrow> 'q \<Rightarrow> 'e option list option" where
  "pop_many pop 0 q = Some []"
| "pop_many pop (Suc n) q =
     Option.bind (pop q) (\<lambda>(e, q'). map_option (\<lambda>es. e # es) (pop_many pop n q'))"

definition push_entries :: "('q \<Rightarrow> 'k \<Rightarrow> 'v \<Rightarrow> 'q) \<Rightarrow> ('k \<times> 'v) list \<Rightarrow> 'q \<Rightarrow> 'q" where
  "push_entries push es q = foldl (\<lambda>q (k, v). push q k v) q es"

text \<open>
  A queue of entries with a rank for its valid keys: it holds a multiset, and what is popped has
  the least rank. Below \<open>room\<close> entries a push succeeds.
\<close>

locale pq_contract =
  fixes invar :: "'q \<Rightarrow> bool"
    and valid :: "'k \<Rightarrow> bool"
    and rank :: "'k \<Rightarrow> int"
    and content :: "'q \<Rightarrow> ('k \<times> 'v) multiset"
    and room :: nat
    and push :: "'q \<Rightarrow> 'k \<Rightarrow> 'v \<Rightarrow> 'q"
    and pop :: "'q \<Rightarrow> (('k \<times> 'v) option \<times> 'q) option"
  assumes push_ok: "invar q \<Longrightarrow> size (content q) < room \<Longrightarrow> valid k \<Longrightarrow>
      invar (push q k v) \<and> content (push q k v) = add_mset (k, v) (content q)"
    and pop_ok: "invar q \<Longrightarrow> content q \<noteq> {#} \<Longrightarrow>
      \<exists>k v q'. pop q = Some (Some (k, v), q') \<and> invar q' \<and> content q = add_mset (k, v) (content q') \<and>
        (\<forall>e \<in># content q'. rank k \<le> rank (fst e))"
    and pop_none: "invar q \<Longrightarrow> content q = {#} \<Longrightarrow> pop q = Some (None, q)"
begin

lemma push_entries_ok:
  "invar q \<Longrightarrow> size (content q) + length es \<le> room \<Longrightarrow> (\<forall>e \<in> set es. valid (fst e)) \<Longrightarrow>
    invar (push_entries push es q) \<and> content (push_entries push es q) = mset es + content q"
proof (induction es arbitrary: q)
  case (Cons e es)
  obtain k v where e: "e = (k, v)" by (cases e)
  with Cons.prems have "invar (push q k v)" "content (push q k v) = add_mset (k, v) (content q)"
    using push_ok [of q k v] by auto
  with Cons e show ?case by (auto simp: push_entries_def)
qed (simp add: push_entries_def)

text \<open>Popping everything sorts: the ranks come out in order, and nothing is lost.\<close>

lemma pop_many_sorts:
  "invar q \<Longrightarrow> size (content q) = n \<Longrightarrow>
    \<exists>es. pop_many pop n q = Some (map Some es) \<and> mset es = content q \<and> sorted (map (rank \<circ> fst) es)"
proof (induction n arbitrary: q)
  case (Suc n)
  then have "content q \<noteq> {#}" by auto
  with pop_ok [OF Suc.prems(1)] obtain k v q' where q': "pop q = Some (Some (k, v), q')" "invar q'"
    "content q = add_mset (k, v) (content q')" "\<forall>e \<in># content q'. rank k \<le> rank (fst e)"
    by blast
  with Suc obtain es where es: "pop_many pop n q' = Some (map Some es)" "mset es = content q'"
    "sorted (map (rank \<circ> fst) es)"
    by fastforce
  then have "\<forall>e \<in> set es. rank k \<le> rank (fst e)" using q'(4) by (metis set_mset_mset)
  with q' es show ?case by (intro exI [of _ "(k, v) # es"]) (simp add: comp_def)
qed simp

end

end
