(* ===== verification/Deque.thy ===== *)
theory Deque
  imports Contracts
begin

section \<open>The double-ended queue of bootstrap/cell.c\<close>

text \<open>
  \<open>cell_deque_*\<close>: a circular buffer of power-of-two capacity addressed by two virtual
  indices that only ever count up or down and wrap around at 32 bits. The state is the
  struct \<open>data.deque\<close> of \<open>cell.h\<close>; a slot is \<open>None\<close> where the C buffer holds \<open>NULL\<close>.
  Reference counts of the elements are not part of this state. The last subsection states
  the contract of a deque as a locale over the list it holds, proves that the code meets
  it and derives the queue and stack disciplines.
\<close>

record 'a deque =
  buffer :: "'a option list"
  head :: u32
  tail :: u32
  capacity :: u32

definition DEQUE_MIN_CAP :: u32 where
  "DEQUE_MIN_CAP = 8"

definition DEQUE_IDX :: "u32 \<Rightarrow> u32 \<Rightarrow> nat" where
  "DEQUE_IDX virt cap = unat (virt AND (cap - 1))"

definition cell_deque_new :: "u32 \<Rightarrow> 'a deque" where
  "cell_deque_new initial_cap =
     (let initial_cap = (if initial_cap < DEQUE_MIN_CAP then DEQUE_MIN_CAP else initial_cap);
          cap = round_up_pow2 (unat DEQUE_MIN_CAP) (unat initial_cap)
      in \<lparr>buffer = replicate cap None, head = 0, tail = 0, capacity = of_nat cap\<rparr>)"

definition cell_deque_size :: "'a deque \<Rightarrow> u32" where
  "cell_deque_size d = tail d - head d"

definition deque_grow :: "'a deque \<Rightarrow> 'a deque" where
  "deque_grow d =
     (let old_cap = capacity d;
          new_cap = old_cap * 2;
          size = tail d - head d;
          new_buf = replicate (unat new_cap) None;
          head_idx = DEQUE_IDX (head d) old_cap;
          tail_idx = DEQUE_IDX (tail d) old_cap;
          new_buf =
            (if size = 0 then new_buf
             else if head_idx < tail_idx then
               memcpy new_buf 0 (buffer d) head_idx (unat size)
             else
               (let first_chunk = unat old_cap - head_idx
                in memcpy (memcpy new_buf 0 (buffer d) head_idx first_chunk)
                     first_chunk (buffer d) 0 tail_idx))
      in d\<lparr>buffer := new_buf, capacity := new_cap, head := 0, tail := size\<rparr>)"

definition cell_deque_push_front :: "'a deque \<Rightarrow> 'a \<Rightarrow> 'a deque" where
  "cell_deque_push_front d val =
     (let size = tail d - head d;
          d = (if size = capacity d then deque_grow d else d);
          d = d\<lparr>head := head d - 1\<rparr>;
          idx = DEQUE_IDX (head d) (capacity d)
      in d\<lparr>buffer := (buffer d)[idx := Some val]\<rparr>)"

definition cell_deque_push_back :: "'a deque \<Rightarrow> 'a \<Rightarrow> 'a deque" where
  "cell_deque_push_back d val =
     (let size = tail d - head d;
          d = (if size = capacity d then deque_grow d else d);
          idx = DEQUE_IDX (tail d) (capacity d);
          d = d\<lparr>buffer := (buffer d)[idx := Some val]\<rparr>
      in d\<lparr>tail := tail d + 1\<rparr>)"

definition cell_deque_pop_front :: "'a deque \<Rightarrow> 'a option \<times> 'a deque" where
  "cell_deque_pop_front d =
     (let size = tail d - head d
      in if size = 0 then (None, d)
         else
           (let idx = DEQUE_IDX (head d) (capacity d);
                val = buffer d ! idx
            in (val, d\<lparr>buffer := (buffer d)[idx := None], head := head d + 1\<rparr>)))"

definition cell_deque_pop_back :: "'a deque \<Rightarrow> 'a option \<times> 'a deque" where
  "cell_deque_pop_back d =
     (let size = tail d - head d
      in if size = 0 then (None, d)
         else
           (let d = d\<lparr>tail := tail d - 1\<rparr>;
                idx = DEQUE_IDX (tail d) (capacity d);
                val = buffer d ! idx
            in (val, d\<lparr>buffer := (buffer d)[idx := None]\<rparr>)))"

definition cell_deque_peek_front :: "'a deque \<Rightarrow> 'a option" where
  "cell_deque_peek_front d =
     (let size = tail d - head d
      in if size = 0 then None else buffer d ! DEQUE_IDX (head d) (capacity d))"

definition cell_deque_peek_back :: "'a deque \<Rightarrow> 'a option" where
  "cell_deque_peek_back d =
     (let size = tail d - head d
      in if size = 0 then None else buffer d ! DEQUE_IDX (tail d - 1) (capacity d))"

text \<open>The loop of \<open>cell_deque_to_list\<close> conses from the last element to the first.\<close>

fun deque_to_list_loop :: "'a deque \<Rightarrow> nat \<Rightarrow> 'a option list \<Rightarrow> 'a option list" where
  "deque_to_list_loop d 0 result = result"
| "deque_to_list_loop d (Suc i) result =
     deque_to_list_loop d i
       (buffer d ! DEQUE_IDX (head d + of_nat (Suc i) - 1) (capacity d) # result)"

definition cell_deque_to_list :: "'a deque \<Rightarrow> 'a option list" where
  "cell_deque_to_list d = deque_to_list_loop d (unat (tail d - head d)) []"

subsection \<open>Invariant and abstraction\<close>

text \<open>Slot of the \<open>i\<close>-th element, with the wrap-around of the virtual index resolved.\<close>

definition dq_pos :: "'a deque \<Rightarrow> nat \<Rightarrow> nat" where
  "dq_pos d i = (unat (head d) + i) mod unat (capacity d)"

definition dq_size :: "'a deque \<Rightarrow> nat" where
  "dq_size d = unat (tail d - head d)"

definition dq_inv :: "'a deque \<Rightarrow> bool" where
  "dq_inv d \<longleftrightarrow>
     (\<exists>k. unat (capacity d) = 2 ^ k) \<and>
     length (buffer d) = unat (capacity d) \<and>
     dq_size d \<le> unat (capacity d) \<and>
     (\<forall>i < unat (capacity d). (buffer d ! dq_pos d i = None) = (dq_size d \<le> i))"

definition dq_list :: "'a deque \<Rightarrow> 'a list" where
  "dq_list d = map (\<lambda>i. the (buffer d ! dq_pos d i)) [0..<dq_size d]"

lemma length_dq_list [simp]: "length (dq_list d) = dq_size d"
  by (simp add: dq_list_def)

lemma unat_add_mod_pow2:
  fixes h :: u32
  assumes "unat c = 2 ^ k"
  shows "unat ((h + of_nat i) AND (c - 1)) = (unat h + i) mod 2 ^ k"
proof -
  have "k < 32"
    using assms unsigned_less [of c, where ?'a = nat] power_less_imp_less_exp [of "2 :: nat" k 32]
    by simp
  then have "(2 :: nat) ^ k dvd 2 ^ 32" using le_imp_power_dvd [of k 32 "2 :: nat"] by simp
  then have "unat (h + of_nat i) mod 2 ^ k = (unat h + i) mod 2 ^ k"
    by (simp add: unat_word_ariths unat_of_nat mod_mod_cancel mod_add_right_eq)
  then show ?thesis using assms by (simp add: unat_and_mask_word)
qed

lemma DEQUE_IDX_add:
  assumes "unat cap = 2 ^ k"
  shows "DEQUE_IDX (h + of_nat i) cap = (unat h + i) mod unat cap"
  using unat_add_mod_pow2 [OF assms] assms by (simp add: DEQUE_IDX_def)

lemma dq_invE:
  assumes "dq_inv d"
  obtains k where "unat (capacity d) = 2 ^ k" "length (buffer d) = unat (capacity d)"
    "dq_size d \<le> unat (capacity d)"
    "\<And>i. i < unat (capacity d) \<Longrightarrow> (buffer d ! dq_pos d i = None) = (dq_size d \<le> i)"
  using assms unfolding dq_inv_def by blast

lemma DEQUE_IDX_pos:
  assumes "dq_inv d"
  shows "DEQUE_IDX (head d + of_nat i) (capacity d) = dq_pos d i"
proof -
  from assms obtain k where "unat (capacity d) = 2 ^ k" by (rule dq_invE)
  then show ?thesis by (simp add: DEQUE_IDX_add dq_pos_def)
qed

lemma dq_pos_less [simp]: "dq_inv d \<Longrightarrow> dq_pos d i < unat (capacity d)"
  by (auto elim!: dq_invE simp: dq_pos_def)

lemma dq_pos_inj:
  "dq_inv d \<Longrightarrow> i < unat (capacity d) \<Longrightarrow> j < unat (capacity d) \<Longrightarrow>
    dq_pos d i = dq_pos d j \<longleftrightarrow> i = j"
  unfolding dq_pos_def using mod_add_inj by blast

lemma dq_pos_eqD:
  "dq_pos d i = dq_pos d j \<Longrightarrow> i < unat (capacity d) \<Longrightarrow> j < unat (capacity d) \<Longrightarrow> i = j"
  unfolding dq_pos_def using mod_add_inj by blast

lemma tail_eq: "tail d = head d + of_nat (dq_size d)"
  by (simp add: dq_size_def)

lemma nth_dq_list:
  assumes "dq_inv d" "i < dq_size d"
  shows "buffer d ! dq_pos d i = Some (dq_list d ! i)"
  using assms by (auto elim!: dq_invE simp: dq_list_def)

text \<open>A deque is characterised by its list: the slots in order, then \<open>NULL\<close>.\<close>

lemma dq_invI:
  assumes "unat (capacity d) = 2 ^ k" "length (buffer d) = unat (capacity d)"
    and "dq_size d = length xs" "length xs \<le> unat (capacity d)"
    and "\<And>i. i < unat (capacity d) \<Longrightarrow>
      buffer d ! dq_pos d i = (if i < length xs then Some (xs ! i) else None)"
  shows "dq_inv d \<and> dq_list d = xs"
proof
  show "dq_inv d" unfolding dq_inv_def using assms by auto
  show "dq_list d = xs"
    using assms by (intro nth_equalityI) (auto simp: dq_list_def)
qed

lemma buffer_dq_pos:
  assumes "dq_inv d" "i < unat (capacity d)"
  shows "buffer d ! dq_pos d i = (if i < dq_size d then Some (dq_list d ! i) else None)"
  using assms by (auto simp: nth_dq_list elim!: dq_invE)

subsection \<open>The operations on the abstraction\<close>

lemma dq_new:
  assumes "initial_cap \<le> 2 ^ 31"
  shows "dq_inv (cell_deque_new initial_cap :: 'a deque)"
    and "dq_list (cell_deque_new initial_cap :: 'a deque) = []"
proof -
  define ic where "ic = (if initial_cap < DEQUE_MIN_CAP then DEQUE_MIN_CAP else initial_cap)"
  define cap where "cap = round_up_pow2 8 (unat ic)"
  have "is_pow2 cap"
    unfolding cap_def by (rule round_up_pow2_is_pow2) simp
  then obtain k where k: "cap = 2 ^ k" by (auto simp: is_pow2_def)
  have "unat ic \<le> 2 ^ 31"
    using assms by (auto simp: ic_def DEQUE_MIN_CAP_def word_le_nat_alt)
  then have "cap < 2 ^ 32"
    using round_up_pow2_tight [of 8 "unat ic"]
    by (cases "8 < unat ic") (auto simp: cap_def round_up_pow2.simps [of 8])
  then have cap: "unat (of_nat cap :: u32) = cap" by (simp add: unat_of_nat)
  let ?d = "cell_deque_new initial_cap :: 'a deque"
  have new: "?d = \<lparr>buffer = replicate cap None, head = 0, tail = 0, capacity = of_nat cap\<rparr>"
    by (simp add: cell_deque_new_def Let_def cap_def ic_def DEQUE_MIN_CAP_def)
  have "dq_inv ?d \<and> dq_list ?d = []"
    using k cap by (intro dq_invI [where k = k]) (auto simp: new dq_size_def dq_pos_def)
  then show "dq_inv ?d" "dq_list ?d = []" by auto
qed

text \<open>
  Growing: the first half of the new buffer is the old ring unwrapped, whichever way the
  two copies of the code do it.
\<close>

lemma dq_grow:
  assumes inv: "dq_inv d" and full: "dq_size d = unat (capacity d)"
    and room: "unat (capacity d) < 2 ^ 31"
  shows "dq_inv (deque_grow d) \<and> dq_list (deque_grow d) = dq_list d"
    and "unat (capacity (deque_grow d)) = 2 * unat (capacity d)"
    and "dq_size (deque_grow d) = dq_size d"
proof -
  from inv obtain k where k: "unat (capacity d) = 2 ^ k"
    and len: "length (buffer d) = unat (capacity d)" by (rule dq_invE)
  let ?c = "unat (capacity d)" and ?h = "unat (head d) mod unat (capacity d)"
  have cpos: "0 < ?c" using k by simp
  show cap: "unat (capacity (deque_grow d)) = 2 * ?c"
    using room by (simp add: deque_grow_def Let_def unat_word_ariths)
  have h: "DEQUE_IDX (head d) (capacity d) = ?h"
    using DEQUE_IDX_add [OF k, of "head d" 0] by simp
  have t: "DEQUE_IDX (tail d) (capacity d) = ?h"
    using DEQUE_IDX_add [OF k, of "head d" "dq_size d"] full
    unfolding tail_eq [symmetric] by simp
  have sz: "tail d - head d = capacity d" using full by (simp add: dq_size_def word_unat_eq_iff)
  have hc: "?h < ?c" using cpos by simp
  have nz: "capacity d \<noteq> 0" using cpos by auto
  have new_cap: "unat (capacity d * 2) = 2 * ?c"
    using room by (simp add: unat_word_ariths)
  have "buffer (deque_grow d) = (drop ?h (buffer d) @ take ?h (buffer d)) @ replicate ?c None"
    using len hc nz by (simp add: deque_grow_def Let_def h t sz new_cap memcpy_def)
  also have "drop ?h (buffer d) @ take ?h (buffer d) = rotate ?h (buffer d)"
    using len hc by (intro unwrap_ring) simp
  finally have buf: "buffer (deque_grow d) = rotate ?h (buffer d) @ replicate ?c None" .
  show size: "dq_size (deque_grow d) = dq_size d"
    by (simp add: deque_grow_def Let_def dq_size_def)
  have head: "head (deque_grow d) = 0" by (simp add: deque_grow_def Let_def)
  show "dq_inv (deque_grow d) \<and> dq_list (deque_grow d) = dq_list d"
  proof (rule dq_invI)
    show "unat (capacity (deque_grow d)) = 2 ^ Suc k" using cap k by simp
    show "length (buffer (deque_grow d)) = unat (capacity (deque_grow d))"
      unfolding buf cap using len hc by simp
    show "dq_size (deque_grow d) = length (dq_list d)" using size by simp
    show "length (dq_list d) \<le> unat (capacity (deque_grow d))"
      unfolding cap using full by simp
    fix i assume "i < unat (capacity (deque_grow d))"
    then have i: "i < 2 * ?c" using cap by simp
    have pos: "dq_pos (deque_grow d) i = i" using i by (simp add: dq_pos_def head cap)
    show "buffer (deque_grow d) ! dq_pos (deque_grow d) i =
        (if i < length (dq_list d) then Some (dq_list d ! i) else None)"
    proof (cases "i < ?c")
      case True
      have "buffer (deque_grow d) ! i = buffer d ! ((?h + i) mod ?c)"
        using len True by (simp add: buf nth_append nth_rotate)
      also have "(?h + i) mod ?c = dq_pos d i"
        by (simp add: dq_pos_def mod_add_left_eq)
      finally show ?thesis using True full inv by (simp add: pos nth_dq_list)
    next
      case False
      with i len hc full show ?thesis by (simp add: pos buf nth_append)
    qed
  qed
qed

definition dq_ensure :: "'a deque \<Rightarrow> 'a deque" where
  "dq_ensure d = (if tail d - head d = capacity d then deque_grow d else d)"

lemma dq_ensure:
  assumes inv: "dq_inv d" and room: "dq_size d < 2 ^ 31"
  shows "dq_inv (dq_ensure d)" and "dq_list (dq_ensure d) = dq_list d"
    and "dq_size (dq_ensure d) = dq_size d" and "dq_size (dq_ensure d) < unat (capacity (dq_ensure d))"
proof -
  have le: "dq_size d \<le> unat (capacity d)" using inv by (rule dq_invE)
  have pos: "0 < unat (capacity d)" using inv by (rule dq_invE) simp
  have full: "tail d - head d = capacity d \<longleftrightarrow> dq_size d = unat (capacity d)"
    by (simp add: dq_size_def word_unat_eq_iff)
  show "dq_inv (dq_ensure d)" "dq_list (dq_ensure d) = dq_list d" "dq_size (dq_ensure d) = dq_size d"
    using dq_grow [OF inv] room full by (auto simp: dq_ensure_def inv)
  show "dq_size (dq_ensure d) < unat (capacity (dq_ensure d))"
    using dq_grow [OF inv] room full le pos by (auto simp: dq_ensure_def)
qed

lemma size_le_pow2:
  assumes "dq_inv d" shows "dq_size d < 2 ^ 32"
  using unsigned_less [of "tail d - head d", where ?'a = nat] by (simp add: dq_size_def)

lemma dq_push_back:
  assumes inv: "dq_inv d" and room: "dq_size d < 2 ^ 31"
  shows "dq_inv (cell_deque_push_back d x) \<and> dq_list (cell_deque_push_back d x) = dq_list d @ [x]"
proof -
  define e where "e = dq_ensure d"
  note e = dq_ensure [OF inv room, folded e_def]
  from e(1) obtain k where k: "unat (capacity e) = 2 ^ k"
    and len: "length (buffer e) = unat (capacity e)" by (rule dq_invE)
  let ?p = "dq_pos e (dq_size e)"
  have idx: "DEQUE_IDX (tail e) (capacity e) = ?p"
    by (subst tail_eq) (rule DEQUE_IDX_pos [OF e(1)])
  have push: "cell_deque_push_back d x = e\<lparr>buffer := (buffer e)[?p := Some x], tail := tail e + 1\<rparr>"
    unfolding idx [symmetric] by (simp add: cell_deque_push_back_def Let_def e_def dq_ensure_def)
  have size: "dq_size (cell_deque_push_back d x) = Suc (dq_size e)"
  proof -
    have "dq_size (cell_deque_push_back d x) = unat (tail e - head e + 1)"
      by (simp add: push dq_size_def algebra_simps)
    also have "\<dots> = Suc (unat (tail e - head e))"
      using room e(3) unfolding unat_word_ariths by (simp add: dq_size_def)
    finally show ?thesis by (simp add: dq_size_def)
  qed
  have pos: "dq_pos (cell_deque_push_back d x) i = dq_pos e i" for i
    by (simp add: push dq_pos_def)
  have "dq_inv (cell_deque_push_back d x) \<and> dq_list (cell_deque_push_back d x) = dq_list e @ [x]"
  proof (rule dq_invI)
    show "unat (capacity (cell_deque_push_back d x)) = 2 ^ k" using k by (simp add: push)
    fix i assume "i < unat (capacity (cell_deque_push_back d x))"
    then have i: "i < unat (capacity e)" by (simp add: push)
    then show "buffer (cell_deque_push_back d x) ! dq_pos (cell_deque_push_back d x) i =
        (if i < length (dq_list e @ [x]) then Some ((dq_list e @ [x]) ! i) else None)"
      using e(1,4) dq_pos_less [OF e(1)] len
      by (auto simp: pos) (auto simp: push buffer_dq_pos dq_pos_inj nth_list_update nth_append)
  qed (use len size e(4) in \<open>auto simp: push\<close>)
  then show ?thesis by (simp add: e(2))
qed

lemma dq_pos_head_dec:
  assumes "unat (capacity d) = 2 ^ k"
  shows "dq_pos (d\<lparr>head := head d - 1, buffer := b\<rparr>) (Suc i) = dq_pos d i"
proof -
  have "dq_pos (d\<lparr>head := head d - 1, buffer := b\<rparr>) (Suc i) =
      DEQUE_IDX (head d - 1 + of_nat (Suc i)) (capacity d)"
    by (simp add: dq_pos_def DEQUE_IDX_add [OF assms] del: of_nat_Suc)
  also have "head d - 1 + of_nat (Suc i) = head d + of_nat i" by simp
  finally show ?thesis by (simp add: dq_pos_def DEQUE_IDX_add [OF assms])
qed

lemma dq_pos_head_inc:
  assumes "unat (capacity d) = 2 ^ k"
  shows "dq_pos (d\<lparr>buffer := b, head := head d + 1\<rparr>) i = dq_pos d (Suc i)"
proof -
  have "dq_pos (d\<lparr>buffer := b, head := head d + 1\<rparr>) i = DEQUE_IDX (head d + 1 + of_nat i) (capacity d)"
    by (simp add: dq_pos_def DEQUE_IDX_add [OF assms])
  also have "head d + 1 + of_nat i = head d + of_nat (Suc i)" by simp
  finally show ?thesis by (simp add: dq_pos_def DEQUE_IDX_add [OF assms] del: of_nat_Suc)
qed

lemma dq_push_front:
  assumes inv: "dq_inv d" and room: "dq_size d < 2 ^ 31"
  shows "dq_inv (cell_deque_push_front d x) \<and> dq_list (cell_deque_push_front d x) = x # dq_list d"
proof -
  define e where "e = dq_ensure d"
  note e = dq_ensure [OF inv room, folded e_def]
  from e(1) obtain k where k: "unat (capacity e) = 2 ^ k"
    and len: "length (buffer e) = unat (capacity e)" by (rule dq_invE)
  define p where "p = DEQUE_IDX (head e - 1) (capacity e)"
  let ?d = "e\<lparr>head := head e - 1, buffer := (buffer e)[p := Some x]\<rparr>"
  have push: "cell_deque_push_front d x = ?d"
    by (simp add: cell_deque_push_front_def Let_def e_def dq_ensure_def p_def)
  have size: "dq_size ?d = Suc (dq_size e)"
  proof -
    have "dq_size ?d = unat (tail e - head e + 1)" by (simp add: dq_size_def algebra_simps)
    also have "\<dots> = Suc (unat (tail e - head e))"
      using room e(3) unfolding unat_word_ariths by (simp add: dq_size_def)
    finally show ?thesis by (simp add: dq_size_def)
  qed
  have pos0: "dq_pos ?d 0 = p"
    using DEQUE_IDX_add [OF k, of "head e - 1" 0] by (simp add: dq_pos_def p_def)
  have posS: "dq_pos ?d (Suc i) = dq_pos e i" for i by (rule dq_pos_head_dec [OF k])
  have neq: "p \<noteq> dq_pos e i" if "Suc i < unat (capacity e)" for i
  proof
    assume "p = dq_pos e i"
    then have "dq_pos ?d 0 = dq_pos ?d (Suc i)" unfolding pos0 posS .
    then have "0 = Suc i" by (rule dq_pos_eqD) (use that in auto)
    then show False by simp
  qed
  have p: "p < unat (capacity e)" using k by (simp add: p_def DEQUE_IDX_def unat_and_mask_word)
  have "dq_inv ?d \<and> dq_list ?d = x # dq_list e"
  proof (rule dq_invI)
    fix i assume "i < unat (capacity ?d)"
    then have i: "i < unat (capacity e)" by simp
    show "buffer ?d ! dq_pos ?d i = (if i < length (x # dq_list e) then Some ((x # dq_list e) ! i) else None)"
    proof (cases i)
      case 0
      with p len show ?thesis by (simp add: pos0)
    next
      case (Suc j)
      with i neq [of j] dq_pos_less [OF e(1)] len show ?thesis
        by (simp add: posS buffer_dq_pos [OF e(1)])
    qed
  qed (use len size e(4) k in auto)
  then show ?thesis by (simp add: push e(2))
qed

lemma dq_pop_front:
  assumes inv: "dq_inv d" and ne: "dq_list d \<noteq> []"
  shows "fst (cell_deque_pop_front d) = Some (hd (dq_list d))"
    and "dq_inv (snd (cell_deque_pop_front d)) \<and> dq_list (snd (cell_deque_pop_front d)) = tl (dq_list d)"
proof -
  from inv obtain k where k: "unat (capacity d) = 2 ^ k"
    and len: "length (buffer d) = unat (capacity d)" by (rule dq_invE)
  have n: "0 < dq_size d" using ne by (metis length_dq_list length_greater_0_conv)
  have le: "dq_size d \<le> unat (capacity d)" using inv by (rule dq_invE)
  let ?p = "dq_pos d 0"
  let ?d = "d\<lparr>buffer := (buffer d)[?p := None], head := head d + 1\<rparr>"
  have idx: "DEQUE_IDX (head d) (capacity d) = ?p"
    using DEQUE_IDX_pos [OF inv, of 0] by simp
  have nz: "tail d - head d \<noteq> 0" using n by (auto simp: dq_size_def)
  have pop: "cell_deque_pop_front d = (buffer d ! ?p, ?d)"
    using nz by (simp add: cell_deque_pop_front_def Let_def idx)
  show "fst (cell_deque_pop_front d) = Some (hd (dq_list d))"
    using nth_dq_list [OF inv n] ne by (simp add: pop hd_conv_nth)
  have size: "dq_size ?d = dq_size d - 1"
  proof -
    have "dq_size ?d = unat (tail d - head d - 1)" by (simp add: dq_size_def algebra_simps)
    with nz show ?thesis by (simp add: unat_minus_one dq_size_def)
  qed
  have pos: "dq_pos ?d i = dq_pos d (Suc i)" for i by (rule dq_pos_head_inc [OF k])
  have wrap: "dq_pos d (unat (capacity d)) = ?p" by (simp add: dq_pos_def)
  have "dq_inv ?d \<and> dq_list ?d = tl (dq_list d)"
  proof (rule dq_invI)
    fix i assume "i < unat (capacity ?d)"
    then have i: "i < unat (capacity d)" by simp
    show "buffer ?d ! dq_pos ?d i = (if i < length (tl (dq_list d)) then Some (tl (dq_list d) ! i) else None)"
    proof (cases "Suc i = unat (capacity d)")
      case True
      with le dq_pos_less [OF inv, of 0] len show ?thesis by (auto simp: pos wrap)
    next
      case False
      with i have "Suc i < unat (capacity d)" by simp
      with dq_pos_less [OF inv] len n k show ?thesis
        by (auto simp: pos buffer_dq_pos [OF inv] dq_pos_inj [OF inv] nth_tl)
    qed
  qed (use len size k le in auto)
  then show "dq_inv (snd (cell_deque_pop_front d)) \<and> dq_list (snd (cell_deque_pop_front d)) = tl (dq_list d)"
    by (simp add: pop)
qed

lemma dq_pop_back:
  assumes inv: "dq_inv d" and ne: "dq_list d \<noteq> []"
  shows "fst (cell_deque_pop_back d) = Some (last (dq_list d))"
    and "dq_inv (snd (cell_deque_pop_back d)) \<and> dq_list (snd (cell_deque_pop_back d)) = butlast (dq_list d)"
proof -
  from inv obtain k where k: "unat (capacity d) = 2 ^ k"
    and len: "length (buffer d) = unat (capacity d)" by (rule dq_invE)
  have n: "0 < dq_size d" using ne by (metis length_dq_list length_greater_0_conv)
  have le: "dq_size d \<le> unat (capacity d)" using inv by (rule dq_invE)
  let ?p = "dq_pos d (dq_size d - 1)"
  let ?d = "d\<lparr>tail := tail d - 1, buffer := (buffer d)[?p := None]\<rparr>"
  have "tail d - 1 = head d + of_nat (dq_size d) - 1" by (simp flip: tail_eq)
  also have "\<dots> = head d + of_nat (dq_size d - 1)" using n by simp
  finally have idx: "DEQUE_IDX (tail d - 1) (capacity d) = ?p"
    using DEQUE_IDX_pos [OF inv] by simp
  have nz: "tail d - head d \<noteq> 0" using n by (auto simp: dq_size_def)
  have pop: "cell_deque_pop_back d = (buffer d ! ?p, ?d)"
    using nz by (simp add: cell_deque_pop_back_def Let_def idx)
  show "fst (cell_deque_pop_back d) = Some (last (dq_list d))"
    using nth_dq_list [OF inv, of "dq_size d - 1"] n ne by (simp add: pop last_conv_nth)
  have size: "dq_size ?d = dq_size d - 1"
  proof -
    have "dq_size ?d = unat (tail d - head d - 1)" by (simp add: dq_size_def algebra_simps)
    with nz show ?thesis by (simp add: unat_minus_one dq_size_def)
  qed
  have pos: "dq_pos (d\<lparr>tail := t, buffer := b\<rparr>) i = dq_pos d i" for t b i by (simp add: dq_pos_def)
  have "dq_inv ?d \<and> dq_list ?d = butlast (dq_list d)"
  proof (rule dq_invI)
    fix i assume "i < unat (capacity ?d)"
    then have i: "i < unat (capacity d)" by simp
    show "buffer ?d ! dq_pos ?d i =
        (if i < length (butlast (dq_list d)) then Some (butlast (dq_list d) ! i) else None)"
      using i dq_pos_less [OF inv] len n le
      by (auto simp: pos buffer_dq_pos [OF inv] dq_pos_inj [OF inv] nth_butlast nth_list_update)
  qed (use len size k le in auto)
  then show "dq_inv (snd (cell_deque_pop_back d)) \<and> dq_list (snd (cell_deque_pop_back d)) = butlast (dq_list d)"
    by (simp add: pop)
qed

lemma dq_empty_iff: "tail d = head d \<longleftrightarrow> dq_list d = []"
  by (metis dq_size_def eq_iff_diff_eq_0 length_0_conv length_dq_list unat_eq_zero)

lemma dq_pop_empty:
  assumes "dq_list d = []"
  shows "cell_deque_pop_front d = (None, d)" "cell_deque_pop_back d = (None, d)"
  using assms by (simp_all add: cell_deque_pop_front_def cell_deque_pop_back_def dq_empty_iff)

lemma dq_peek_front: "dq_inv d \<Longrightarrow> cell_deque_peek_front d = (case dq_list d of [] \<Rightarrow> None | x # _ \<Rightarrow> Some x)"
  using dq_pop_front(1) [of d]
  by (auto simp: cell_deque_peek_front_def cell_deque_pop_front_def Let_def dq_empty_iff
      split: list.splits)

lemma dq_peek_back: "dq_inv d \<Longrightarrow> cell_deque_peek_back d = (if dq_list d = [] then None else Some (last (dq_list d)))"
  using dq_pop_back(1) [of d]
  by (auto simp: cell_deque_peek_back_def cell_deque_pop_back_def Let_def dq_empty_iff)

lemma deque_to_list_loop:
  assumes "dq_inv d" "i \<le> dq_size d"
  shows "deque_to_list_loop d i acc = map Some (take i (dq_list d)) @ acc"
  using assms(2)
proof (induction i arbitrary: acc)
  case (Suc i)
  have eq: "head d + of_nat (Suc i) - 1 = head d + of_nat i" by simp
  have "buffer d ! DEQUE_IDX (head d + of_nat (Suc i) - 1) (capacity d) = Some (dq_list d ! i)"
    unfolding eq DEQUE_IDX_pos [OF assms(1)] using Suc.prems by (intro nth_dq_list assms) simp
  with Suc show ?case by (simp add: take_Suc_conv_app_nth del: of_nat_Suc)
qed simp

lemma dq_to_list: "dq_inv d \<Longrightarrow> cell_deque_to_list d = map Some (dq_list d)"
  using deque_to_list_loop [of d "dq_size d" "[]"]
  by (simp add: cell_deque_to_list_def flip: dq_size_def length_dq_list)

lemma dq_size_list: "cell_deque_size d = of_nat (length (dq_list d))"
  by (simp add: cell_deque_size_def dq_size_def)

subsection \<open>The contract\<close>

text \<open>
  Room for \<open>2 ^ 31\<close> elements: a full buffer of that many slots cannot double its 32-bit
  capacity.
\<close>

interpretation dq: deque_contract dq_inv dq_list "2 ^ 31" cell_deque_push_back cell_deque_pop_back
  cell_deque_push_front cell_deque_pop_front
  by unfold_locales
    (simp_all add: dq_push_back dq_push_front dq_pop_back dq_pop_front dq_pop_empty)

subsection \<open>Properties\<close>

text \<open>
  C7. The circular buffer implements the list it abstracts to. As long as fewer than
  \<open>2 ^ 31\<close> elements are held, a push at either end keeps the invariant (power-of-two
  capacity, exactly the slots of the live range non-NULL) and adds the element at that end
  of the list, whether or not the buffer had to grow and however often the 32-bit virtual
  indices have wrapped; and \<open>to_list\<close> returns the list in order.
\<close>

theorem deque_push_refines_list:
  assumes "dq_inv d" and "length (dq_list d) < 2 ^ 31"
  shows "dq_inv (cell_deque_push_front d x) \<and> dq_list (cell_deque_push_front d x) = x # dq_list d \<and>
    dq_inv (cell_deque_push_back d x) \<and> dq_list (cell_deque_push_back d x) = dq_list d @ [x] \<and>
    cell_deque_to_list (cell_deque_push_back d x) = map Some (dq_list d @ [x])"
  using assms dq_push_front [of d x] dq_push_back [of d x]
    dq_to_list [of "cell_deque_push_back d x"] by simp

text \<open>A deque whose head index has wrapped below zero, in the last of its eight slots.\<close>

definition dq_example :: "nat deque" where
  "dq_example = cell_deque_push_front (cell_deque_new 0) 7"

lemma cell_deque_new_0:
  "cell_deque_new 0 = \<lparr>buffer = replicate 8 None, head = 0, tail = 0, capacity = 8\<rparr>"
  by (simp add: cell_deque_new_def DEQUE_MIN_CAP_def round_up_pow2.simps)

lemma dq_example: "dq_inv dq_example" "dq_list dq_example = [7]" "head dq_example = - 1"
proof -
  show "dq_inv dq_example" "dq_list dq_example = [7]"
    using dq_push_front [of "cell_deque_new 0 :: nat deque" 7] dq_new [of 0, where 'a = nat]
    by (simp_all add: dq_example_def flip: length_dq_list)
  show "head dq_example = - 1"
    by (simp add: dq_example_def cell_deque_new_0 cell_deque_push_front_def Let_def)
qed

theorem deque_push_refines_list_witness:
  "dq_inv dq_example \<and> length (dq_list dq_example) < 2 ^ 31 \<and> head dq_example = - 1 \<and>
    dq_list (cell_deque_push_back dq_example 8) = [7, 8]"
  using deque_push_refines_list [of dq_example 8] dq_example by simp

text \<open>
  C8. Queue discipline: whatever the deque holds, elements pushed at the back come out of
  repeated \<open>pop_front\<close> in the order they went in, after the earlier contents and with
  none lost, duplicated or NULL; pushed at the back and popped at the back they come out
  reversed.
\<close>

theorem deque_fifo_lifo:
  assumes "dq_inv d" and "length (dq_list d) + length xs \<le> 2 ^ 31"
  shows "drain cell_deque_pop_front (length (dq_list d) + length xs)
      (push_all cell_deque_push_back xs d) = map Some (dq_list d @ xs) \<and>
    drain cell_deque_pop_back (length xs) (push_all cell_deque_push_back xs d) = map Some (rev xs)"
  using dq.fifo [OF assms] dq.lifo [OF assms] by simp

theorem deque_fifo_lifo_witness:
  "dq_inv dq_example \<and> length (dq_list dq_example) + length [1, 2, 3 :: nat] \<le> 2 ^ 31 \<and>
    drain cell_deque_pop_front 4 (push_all cell_deque_push_back [1, 2, 3] dq_example) =
      [Some 7, Some 1, Some 2, Some 3]"
proof -
  have h: "dq_inv dq_example" "length (dq_list dq_example) + length [1, 2, 3 :: nat] \<le> 2 ^ 31"
    using dq_example by simp_all
  have n: "length (dq_list dq_example) + length [1, 2, 3 :: nat] = 4"
    by (simp add: dq_example)
  show ?thesis
    using deque_fifo_lifo [OF h] h unfolding n by (simp add: dq_example del: drain.simps)
qed

end
