(* ===== verification/Vec.thy ===== *)
theory Vec
  imports Contracts
begin

section \<open>The dynamic array of bootstrap/cell.c\<close>

text \<open>
  \<open>cell_vector_*\<close>: four inline slots, then a heap buffer that grows by half. The C union of
  the inline array and the heap pointer is two fields here, of which \<open>vec_buf\<close> reads the one
  the capacity selects; after the transition the inline field is dead. Sizes and capacities
  are natural numbers, exact below \<open>2 ^ 32\<close>; the byte size handed to the allocator is
  computed in 64-bit words because its mask is only 32 bits wide in the source.
\<close>

record 'a vector =
  sbo :: "'a option list"
  heap :: "'a option list"
  size :: nat
  capacity :: nat

definition VEC_SBO_CAP :: nat where
  "VEC_SBO_CAP = 4"

definition VEC_INITIAL_HEAP_CAP :: nat where
  "VEC_INITIAL_HEAP_CAP = 8"

text \<open>
  \<^verbatim>\<open>(((cap) * sizeof(Cell*) + 63u) & ~63u)\<close>: the sum is a 64-bit \<open>size_t\<close>, but \<open>~63u\<close> is the
  32-bit unsigned \<open>0xFFFFFFC0\<close>, widened with zeros.
\<close>

definition VEC_ALLOC_SIZE :: "nat \<Rightarrow> nat" where
  "VEC_ALLOC_SIZE cap = unat (((of_nat cap * 8 + 63) :: u64) AND 0xFFFFFFC0)"

text \<open>An allocated, zeroed buffer for \<open>cap\<close> pointers of eight bytes.\<close>

definition vec_alloc :: "nat \<Rightarrow> 'a option list" where
  "vec_alloc cap = replicate (VEC_ALLOC_SIZE cap div 8) None"

definition vec_buf :: "'a vector \<Rightarrow> 'a option list" where
  "vec_buf v = (if capacity v \<le> VEC_SBO_CAP then sbo v else heap v)"

definition vec_buf_update :: "('a option list \<Rightarrow> 'a option list) \<Rightarrow> 'a vector \<Rightarrow> 'a vector" where
  "vec_buf_update f v =
     (if capacity v \<le> VEC_SBO_CAP then v\<lparr>sbo := f (sbo v)\<rparr> else v\<lparr>heap := f (heap v)\<rparr>)"

definition vec_next_cap :: "nat \<Rightarrow> nat" where
  "vec_next_cap old = old + drop_bit 1 old"

definition vector_grow :: "'a vector \<Rightarrow> 'a vector" where
  "vector_grow v =
     (let old_cap = capacity v; sz = size v
      in if old_cap \<le> VEC_SBO_CAP then
           (let new_cap = VEC_INITIAL_HEAP_CAP;
                new_buf = memcpy (vec_alloc new_cap) 0 (sbo v) 0 sz
            in v\<lparr>heap := new_buf, capacity := new_cap\<rparr>)
         else
           (let new_cap = vec_next_cap old_cap;
                new_buf = memcpy (vec_alloc new_cap) 0 (heap v) 0 sz
            in v\<lparr>heap := new_buf, capacity := new_cap\<rparr>))"

text \<open>\<^verbatim>\<open>while (cap < initial_cap) cap = vec_next_cap(cap);\<close> from a capacity above 1.\<close>

function vec_cap_from :: "nat \<Rightarrow> nat \<Rightarrow> nat" where
  "vec_cap_from cap initial_cap =
     (if cap < initial_cap \<and> 1 < cap then vec_cap_from (vec_next_cap cap) initial_cap else cap)"
  by pat_completeness auto
termination
  by (relation "measure (\<lambda>(cap, initial_cap). initial_cap - cap)")
    (auto simp: vec_next_cap_def drop_bit_Suc)

declare vec_cap_from.simps [simp del]

definition cell_vector_new :: "nat \<Rightarrow> 'a vector" where
  "cell_vector_new initial_cap =
     (if initial_cap \<le> VEC_SBO_CAP
      then \<lparr>sbo = replicate VEC_SBO_CAP None, heap = [], size = 0, capacity = VEC_SBO_CAP\<rparr>
      else (let cap = vec_cap_from VEC_INITIAL_HEAP_CAP initial_cap
            in \<lparr>sbo = [], heap = vec_alloc cap, size = 0, capacity = cap\<rparr>))"

definition cell_vector_get :: "'a vector \<Rightarrow> nat \<Rightarrow> 'a option" where
  "cell_vector_get v idx = (if size v \<le> idx then None else vec_buf v ! idx)"

definition cell_vector_set :: "'a vector \<Rightarrow> nat \<Rightarrow> 'a \<Rightarrow> 'a option \<times> 'a vector" where
  "cell_vector_set v idx val =
     (if size v \<le> idx then (None, v)
      else (vec_buf v ! idx, vec_buf_update (\<lambda>buf. buf[idx := Some val]) v))"

definition cell_vector_push :: "'a vector \<Rightarrow> 'a \<Rightarrow> 'a vector" where
  "cell_vector_push v val =
     (let v = (if size v = capacity v then vector_grow v else v);
          idx = size v;
          v = vec_buf_update (\<lambda>buf. buf[idx := Some val]) v
      in v\<lparr>size := size v + 1\<rparr>)"

definition cell_vector_pop :: "'a vector \<Rightarrow> 'a option \<times> 'a vector" where
  "cell_vector_pop v =
     (if size v = 0 then (None, v)
      else (let v = v\<lparr>size := size v - 1\<rparr>;
                val = vec_buf v ! size v
            in (val, vec_buf_update (\<lambda>buf. buf[size v := None]) v)))"

definition cell_vector_size :: "'a vector \<Rightarrow> nat" where
  "cell_vector_size v = size v"

fun vector_to_list_loop :: "'a option list \<Rightarrow> nat \<Rightarrow> 'a option list \<Rightarrow> 'a option list" where
  "vector_to_list_loop buf 0 result = result"
| "vector_to_list_loop buf (Suc i) result = vector_to_list_loop buf i (buf ! i # result)"

definition cell_vector_to_list :: "'a vector \<Rightarrow> 'a option list" where
  "cell_vector_to_list v = vector_to_list_loop (vec_buf v) (size v) []"

text \<open>The copy loop of a slice: \<open>i\<close> counts up to \<open>len\<close>.\<close>

function vector_slice_loop :: "'a option list \<Rightarrow> 'a option list \<Rightarrow> nat \<Rightarrow> nat \<Rightarrow> nat \<Rightarrow> 'a option list" where
  "vector_slice_loop src dst start len i =
     (if i < len then vector_slice_loop src (dst[i := src ! (start + i)]) start len (i + 1) else dst)"
  by pat_completeness auto
termination
  by (relation "measure (\<lambda>(src, dst, start, len, i). len - i)") auto

declare vector_slice_loop.simps [simp del]

definition cell_vector_slice :: "'a vector \<Rightarrow> nat \<Rightarrow> nat \<Rightarrow> 'a vector" where
  "cell_vector_slice v start end' =
     (let start = (if size v < start then size v else start);
          end' = (if size v < end' then size v else end');
          end' = (if end' < start then start else end');
          len = end' - start;
          result = cell_vector_new len;
          src = vec_buf v;
          result = vec_buf_update (\<lambda>dst. vector_slice_loop src dst start len 0) result
      in result\<lparr>size := len\<rparr>)"

subsection \<open>Invariant and abstraction\<close>

definition vec_inv :: "'a vector \<Rightarrow> bool" where
  "vec_inv v \<longleftrightarrow>
     VEC_SBO_CAP \<le> capacity v \<and> size v \<le> capacity v \<and> capacity v \<le> length (vec_buf v) \<and>
     (\<forall>i < size v. vec_buf v ! i \<noteq> None)"

definition vec_list :: "'a vector \<Rightarrow> 'a list" where
  "vec_list v = map the (take (size v) (vec_buf v))"

lemmas vec_defs = VEC_SBO_CAP_def VEC_INITIAL_HEAP_CAP_def vec_buf_def vec_buf_update_def

lemma VEC_ALLOC_SIZE_mod:
  assumes "cap * 8 + 63 < 2 ^ 64"
  shows "VEC_ALLOC_SIZE cap = (cap * 8 + 63) mod 2 ^ 32 div 64 * 64"
proof -
  let ?x = "of_nat cap * 8 + 63 :: u64"
  have x: "unat ?x = cap * 8 + 63"
    using assms by (simp add: unat_word_ariths unat_of_nat)
  have m: "(0xFFFFFFC0 :: u64) = mask 32 AND NOT (mask 6)"
    by (simp add: mask_eq_exp_minus_1)
  have "?x AND 0xFFFFFFC0 = take_bit 32 ?x AND NOT (mask 6)"
    unfolding m by (simp add: and.assoc take_bit_eq_mask)
  also have "\<dots> = push_bit 6 (drop_bit 6 (take_bit 32 ?x))"
    by (rule bit_eqI) (auto simp: bit_simps)
  finally have "VEC_ALLOC_SIZE cap = unat (push_bit 6 (drop_bit 6 (take_bit 32 ?x)))"
    by (simp add: VEC_ALLOC_SIZE_def)
  also have "\<dots> = take_bit 64 (push_bit 6 (drop_bit 6 (take_bit 32 (unat ?x))))"
    by (simp add: unsigned_push_bit_eq unat_drop_bit_eq unsigned_take_bit_eq)
  also have "\<dots> = (cap * 8 + 63) mod 2 ^ 32 div 64 * 64"
    unfolding x push_bit_eq_mult drop_bit_eq_div take_bit_eq_mod
  proof -
    let ?y = "(cap * 8 + 63) mod 2 ^ 32"
    have "?y div 2 ^ 6 * 2 ^ 6 \<le> ?y" by (rule div_times_less_eq_dividend)
    moreover have "?y < 2 ^ 32" by simp
    moreover have "(2 :: nat) ^ 32 < 2 ^ 64" by simp
    ultimately have "?y div 2 ^ 6 * 2 ^ 6 < 2 ^ 64" by linarith
    then show "?y div 2 ^ 6 * 2 ^ 6 mod 2 ^ 64 = ?y div 64 * 64" by simp
  qed
  finally show ?thesis .
qed

lemma VEC_ALLOC_SIZE_eq:
  "cap * 8 + 63 < 2 ^ 32 \<Longrightarrow> VEC_ALLOC_SIZE cap = (cap * 8 + 63) div 64 * 64"
  by (simp add: VEC_ALLOC_SIZE_mod)

lemma length_vec_alloc: "cap * 8 + 63 < 2 ^ 32 \<Longrightarrow> cap \<le> length (vec_alloc cap)"
  by (simp add: vec_alloc_def VEC_ALLOC_SIZE_eq)

lemma vec_next_cap: "vec_next_cap cap = cap + cap div 2"
  by (simp add: vec_next_cap_def drop_bit_Suc)

lemma vec_cap_from_ge: "1 < cap \<Longrightarrow> want \<le> vec_cap_from cap want \<and> cap \<le> vec_cap_from cap want"
proof (induction cap want rule: vec_cap_from.induct)
  case (1 cap want)
  then show ?case
    by (cases "cap < want") (auto simp: vec_cap_from.simps [of cap want] vec_next_cap)
qed

lemma vec_cap_from_tight: "1 < cap \<Longrightarrow> cap < want \<Longrightarrow> 2 * vec_cap_from cap want < 3 * want"
proof (induction cap want rule: vec_cap_from.induct)
  case (1 cap want)
  let ?next = "vec_next_cap cap"
  have step: "vec_cap_from cap want = vec_cap_from ?next want"
    using "1.prems" by (subst vec_cap_from.simps) simp
  show ?case
  proof (cases "?next < want")
    case True
    with 1 show ?thesis by (simp add: step) (simp add: vec_next_cap)
  next
    case False
    then have "vec_cap_from ?next want = ?next" by (subst vec_cap_from.simps) simp
    with "1.prems" show ?thesis unfolding step by (simp add: vec_next_cap)
  qed
qed

lemma length_vec_list [simp]: "vec_inv v \<Longrightarrow> length (vec_list v) = size v"
  by (auto simp: vec_list_def vec_inv_def min_def)

text \<open>A vector is characterised by the elements in its first \<open>size\<close> slots.\<close>

lemma vec_invI:
  assumes "VEC_SBO_CAP \<le> capacity v" "length xs \<le> capacity v" "capacity v \<le> length (vec_buf v)"
    and "size v = length xs" "\<And>i. i < length xs \<Longrightarrow> vec_buf v ! i = Some (xs ! i)"
  shows "vec_inv v \<and> vec_list v = xs"
  using assms by (auto simp: vec_inv_def vec_list_def intro!: nth_equalityI)

lemma vec_invD:
  assumes "vec_inv v"
  shows "VEC_SBO_CAP \<le> capacity v" "size v \<le> capacity v" "capacity v \<le> length (vec_buf v)"
  using assms by (auto simp: vec_inv_def)

lemma nth_vec_buf: "vec_inv v \<Longrightarrow> i < size v \<Longrightarrow> vec_buf v ! i = Some (vec_list v ! i)"
  by (auto simp: vec_inv_def vec_list_def)

lemma vec_buf_upd [simp]:
  "vec_buf (vec_buf_update f v) = f (vec_buf v)"
  "capacity (vec_buf_update f v) = capacity v"
  "size (vec_buf_update f v) = size v"
  "vec_buf (v\<lparr>size := n\<rparr>) = vec_buf v"
  by (auto simp: vec_defs)

subsection \<open>The operations on the abstraction\<close>

lemma vec_new:
  assumes "n < 2 ^ 28"
  shows "vec_inv (cell_vector_new n :: 'a vector) \<and> vec_list (cell_vector_new n :: 'a vector) = []"
    and "n \<le> capacity (cell_vector_new n :: 'a vector)"
proof -
  have c: "n \<le> vec_cap_from 8 n" "8 \<le> vec_cap_from 8 n"
    using vec_cap_from_ge [of 8 n] by auto
  have "vec_cap_from 8 n * 8 + 63 < 2 ^ 32"
    using assms vec_cap_from_tight [of 8 n] by (cases "8 < n") (auto simp: vec_cap_from.simps [of 8 n])
  then have "vec_cap_from 8 n \<le> length (vec_alloc (vec_cap_from 8 n) :: 'a option list)"
    by (rule length_vec_alloc)
  with c show "vec_inv (cell_vector_new n :: 'a vector) \<and> vec_list (cell_vector_new n :: 'a vector) = []"
    by (intro vec_invI) (auto simp: cell_vector_new_def vec_defs Let_def)
  show "n \<le> capacity (cell_vector_new n :: 'a vector)"
    using c by (auto simp: cell_vector_new_def vec_defs Let_def)
qed

lemma vec_grow:
  assumes inv: "vec_inv v" and full: "size v = capacity v" and room: "size v < 2 ^ 28"
  shows "vec_inv (vector_grow v) \<and> vec_list (vector_grow v) = vec_list v"
    and "size (vector_grow v) = size v" and "size v < capacity (vector_grow v)"
proof -
  note d = vec_invD [OF inv]
  let ?c = "if capacity v \<le> 4 then 8 else vec_next_cap (capacity v)"
  have c: "size v < ?c" "?c * 8 + 63 < 2 ^ 32" "4 < ?c"
    using full room d by (auto simp: vec_next_cap VEC_SBO_CAP_def)
  have len: "?c \<le> length (vec_alloc ?c :: 'a option list)"
    using c(2) by (rule length_vec_alloc)
  have cap: "capacity (vector_grow v) = ?c"
    by (simp add: vector_grow_def Let_def vec_defs)
  have buf: "vec_buf (vector_grow v) = memcpy (vec_alloc ?c) 0 (vec_buf v) 0 (size v)"
    using c(3) by (auto simp: vector_grow_def Let_def vec_defs)
  show sz: "size (vector_grow v) = size v"
    by (simp add: vector_grow_def Let_def)
  show "size v < capacity (vector_grow v)" using c cap by simp
  show "vec_inv (vector_grow v) \<and> vec_list (vector_grow v) = vec_list v"
    using c len d inv
    by (intro vec_invI) (auto simp: cap buf sz nth_memcpy nth_vec_buf VEC_SBO_CAP_def)
qed

definition vec_ensure :: "'a vector \<Rightarrow> 'a vector" where
  "vec_ensure v = (if size v = capacity v then vector_grow v else v)"

lemma vec_ensure:
  assumes "vec_inv v" "size v < 2 ^ 28"
  shows "vec_inv (vec_ensure v)" "vec_list (vec_ensure v) = vec_list v"
    "size (vec_ensure v) = size v" "size v < capacity (vec_ensure v)"
  using vec_grow [of v] vec_invD [of v] assms by (auto simp: vec_ensure_def)

lemma vec_push:
  assumes "vec_inv v" "length (vec_list v) < 2 ^ 28"
  shows "vec_inv (cell_vector_push v x) \<and> vec_list (cell_vector_push v x) = vec_list v @ [x]"
proof -
  have "size v < 2 ^ 28" using assms by simp
  note e = vec_ensure [OF assms(1) this]
  let ?v = "vec_ensure v"
  have push: "cell_vector_push v x =
      (vec_buf_update (\<lambda>buf. buf[size v := Some x]) ?v)\<lparr>size := size v + 1\<rparr>"
    using e(3) by (simp add: cell_vector_push_def Let_def vec_ensure_def)
  show ?thesis
    using e vec_invD [OF e(1)] nth_vec_buf [OF e(1)] assms(1)
    by (intro vec_invI) (auto simp: push nth_append nth_list_update less_Suc_eq)
qed

lemma vec_pop:
  assumes inv: "vec_inv v" and ne: "vec_list v \<noteq> []"
  shows "fst (cell_vector_pop v) = Some (last (vec_list v))"
    and "vec_inv (snd (cell_vector_pop v)) \<and> vec_list (snd (cell_vector_pop v)) = butlast (vec_list v)"
proof -
  have n: "0 < size v" using ne inv by (metis length_greater_0_conv length_vec_list)
  have pop: "cell_vector_pop v = (vec_buf v ! (size v - 1),
      vec_buf_update (\<lambda>buf. buf[size v - 1 := None]) (v\<lparr>size := size v - 1\<rparr>))"
    using n by (simp add: cell_vector_pop_def Let_def)
  show "fst (cell_vector_pop v) = Some (last (vec_list v))"
    using nth_vec_buf [OF inv, of "size v - 1"] n ne inv by (simp add: pop last_conv_nth)
  show "vec_inv (snd (cell_vector_pop v)) \<and> vec_list (snd (cell_vector_pop v)) = butlast (vec_list v)"
    using vec_invD [OF inv] nth_vec_buf [OF inv] n inv
    by (intro vec_invI) (auto simp: pop nth_butlast)
qed

lemma vec_pop_empty: "vec_inv v \<Longrightarrow> vec_list v = [] \<Longrightarrow> cell_vector_pop v = (None, v)"
  by (metis cell_vector_pop_def length_vec_list list.size(3))

lemma vec_get:
  "vec_inv v \<Longrightarrow> cell_vector_get v i = (if i < length (vec_list v) then Some (vec_list v ! i) else None)"
  by (auto simp: cell_vector_get_def nth_vec_buf)

lemma vec_set:
  assumes "vec_inv v"
  shows "fst (cell_vector_set v i x) = cell_vector_get v i"
    and "vec_inv (snd (cell_vector_set v i x)) \<and>
      vec_list (snd (cell_vector_set v i x)) = (vec_list v)[i := x]"
proof -
  show "fst (cell_vector_set v i x) = cell_vector_get v i"
    by (auto simp: cell_vector_set_def cell_vector_get_def)
  show "vec_inv (snd (cell_vector_set v i x)) \<and>
      vec_list (snd (cell_vector_set v i x)) = (vec_list v)[i := x]"
  proof (cases "size v \<le> i")
    case True
    with assms show ?thesis by (simp add: cell_vector_set_def list_update_beyond)
  next
    case False
    with assms vec_invD [OF assms] nth_vec_buf [OF assms] show ?thesis
      by (intro vec_invI) (auto simp: cell_vector_set_def nth_list_update)
  qed
qed

lemma vector_to_list_loop: "vector_to_list_loop buf i acc = map ((!) buf) [0..<i] @ acc"
  by (induction i arbitrary: acc) auto

lemma vec_to_list: "vec_inv v \<Longrightarrow> cell_vector_to_list v = map Some (vec_list v)"
  by (auto simp: cell_vector_to_list_def vector_to_list_loop nth_vec_buf intro!: nth_equalityI)

lemma vector_slice_loop:
  "len \<le> length dst \<Longrightarrow> i \<le> len \<Longrightarrow>
    length (vector_slice_loop src dst start len i) = length dst \<and>
    (\<forall>j < length dst. vector_slice_loop src dst start len i ! j =
      (if i \<le> j \<and> j < len then src ! (start + j) else dst ! j))"
proof (induction src dst start len i rule: vector_slice_loop.induct)
  case (1 src dst start len i)
  show ?case
  proof (cases "i < len")
    case True
    let ?d = "dst[i := src ! (start + i)]"
    have unf: "vector_slice_loop src dst start len i = vector_slice_loop src ?d start len (Suc i)"
      using True by (subst vector_slice_loop.simps) simp
    have IH: "length (vector_slice_loop src ?d start len (Suc i)) = length dst"
      "\<And>j. j < length dst \<Longrightarrow> vector_slice_loop src ?d start len (Suc i) ! j =
        (if Suc i \<le> j \<and> j < len then src ! (start + j) else ?d ! j)"
      using 1 True by auto
    show ?thesis
      unfolding unf using IH(1) True by (auto simp: IH(2) nth_list_update not_less_eq_eq le_antisym)
  qed (auto simp: vector_slice_loop.simps [of src dst start len i])
qed

lemma vec_slice:
  assumes inv: "vec_inv v" and bound: "length (vec_list v) < 2 ^ 28"
  shows "vec_inv (cell_vector_slice v s e) \<and>
    vec_list (cell_vector_slice v s e) = take (e - s) (drop s (vec_list v))"
proof -
  define s' where "s' = min s (size v)"
  define n where "n = max s' (min e (size v)) - s'"
  let ?new = "cell_vector_new n :: 'a vector"
  let ?r = "vec_buf_update (\<lambda>dst. vector_slice_loop (vec_buf v) dst s' n 0) ?new"
  have slice: "cell_vector_slice v s e = ?r\<lparr>size := n\<rparr>"
    by (simp add: cell_vector_slice_def Let_def min_def max_def s'_def n_def)
  have sn: "s' + n \<le> size v" by (auto simp: s'_def n_def)
  then have "n < 2 ^ 28" using bound inv by simp
  note new = vec_new [OF this, where 'a = 'a]
  have len: "n \<le> length (vec_buf ?new)"
    using new vec_invD(3) [of ?new] by simp
  have lst: "take (e - s) (drop s (vec_list v)) = take n (drop s' (vec_list v))"
    using inv by (cases "s \<le> size v"; cases "e \<le> size v") (auto simp: s'_def n_def min_def max_def)
  have "vec_inv (?r\<lparr>size := n\<rparr>) \<and> vec_list (?r\<lparr>size := n\<rparr>) = take n (drop s' (vec_list v))"
  proof (rule vec_invI)
    fix i assume "i < length (take n (drop s' (vec_list v)))"
    then have i: "i < n" by simp
    have "vec_buf (?r\<lparr>size := n\<rparr>) ! i = vec_buf v ! (s' + i)"
      using vector_slice_loop [OF len, of 0 "vec_buf v" s'] i len by simp
    also have "\<dots> = Some (vec_list v ! (s' + i))"
      using i sn by (intro nth_vec_buf inv) auto
    finally show "vec_buf (?r\<lparr>size := n\<rparr>) ! i = Some (take n (drop s' (vec_list v)) ! i)"
      using i inv sn by (simp add: nth_drop)
  qed (use new vec_invD [of ?new] vector_slice_loop [OF len, of 0 "vec_buf v" s'] sn inv in auto)
  then show ?thesis by (simp add: slice lst)
qed

interpretation vec: stack_contract vec_inv vec_list "2 ^ 28" cell_vector_push cell_vector_pop
  by unfold_locales (simp_all add: vec_push vec_pop vec_pop_empty)

subsection \<open>Properties\<close>

text \<open>
  C9. The vector implements a list: below \<open>2 ^ 28\<close> elements a push appends (also across the
  move from the inline slots to the heap and across every growth by half), a pop returns and
  removes the last element or returns NULL from an empty vector, reads and writes
  by index act on that list position and return NULL out of range without changing the
  vector, and a slice is the sublist between the two bounds clamped to the length.
\<close>

theorem vector_refines_list:
  assumes "vec_inv v" and "length (vec_list v) < 2 ^ 28"
  shows "vec_inv (cell_vector_push v x) \<and> vec_list (cell_vector_push v x) = vec_list v @ [x] \<and>
    (if vec_list v = [] then cell_vector_pop v = (None, v)
     else fst (cell_vector_pop v) = Some (last (vec_list v)) \<and> vec_inv (snd (cell_vector_pop v)) \<and>
       vec_list (snd (cell_vector_pop v)) = butlast (vec_list v)) \<and>
    cell_vector_get v i = (if i < length (vec_list v) then Some (vec_list v ! i) else None) \<and>
    vec_inv (snd (cell_vector_set v i x)) \<and> vec_list (snd (cell_vector_set v i x)) = (vec_list v)[i := x] \<and>
    fst (cell_vector_set v i x) = cell_vector_get v i \<and>
    vec_list (cell_vector_slice v s e) = take (e - s) (drop s (vec_list v)) \<and>
    cell_vector_to_list v = map Some (vec_list v)"
  using vec_push [OF assms, of x] vec_pop [OF assms(1)] vec_pop_empty [OF assms(1)] vec_get [OF assms(1), of i] vec_set [OF assms(1), of i x]
    vec_slice [OF assms, of s e] vec_to_list [OF assms(1)]
  by (auto split: if_splits)

text \<open>A vector of five elements, on the heap.\<close>

definition vec_example :: "nat vector" where
  "vec_example = push_all cell_vector_push [10, 20, 30, 40, 50] (cell_vector_new 0)"

lemma vec_example: "vec_inv vec_example" "vec_list vec_example = [10, 20, 30, 40, 50]"
  using vec.push_all_content [of "cell_vector_new 0" "[10, 20, 30, 40, 50 :: nat]"]
    vec_new(1) [of 0, where 'a = nat] by (simp_all add: vec_example_def)

theorem vector_refines_list_witness:
  "vec_inv vec_example \<and> length (vec_list vec_example) < 2 ^ 28 \<and>
    vec_list (cell_vector_push vec_example 60) = [10, 20, 30, 40, 50, 60] \<and>
    fst (cell_vector_pop vec_example) = Some 50 \<and> vec_list (snd (cell_vector_pop vec_example)) = [10, 20, 30, 40] \<and>
    cell_vector_get vec_example 4 = Some 50 \<and> cell_vector_get vec_example 5 = None \<and>
    vec_list (cell_vector_slice vec_example 1 3) = [20, 30]"
  using vector_refines_list [of vec_example 60 4 1 3] vector_refines_list [of vec_example 60 5 1 3]
    vec_example by simp

text \<open>
  C10. The byte size requested for a heap buffer covers the capacity exactly as long as that is at
  most \<open>2 ^ 29 - 8\<close> elements: then it is the next multiple of 64. Beyond, for every capacity whose
  size fits 64 bits, it is too small, since the mask \<^verbatim>\<open>~63u\<close> is a 32-bit constant; from
  \<open>2 ^ 29 - 7\<close> to \<open>2 ^ 29\<close> elements the code asks the allocator for zero bytes.
\<close>

theorem vector_alloc_size:
  assumes "cap < 2 ^ 60"
  shows "(if cap \<le> 2 ^ 29 - 8 then cap * 8 \<le> VEC_ALLOC_SIZE cap \<and> VEC_ALLOC_SIZE cap < cap * 8 + 64 \<and> VEC_ALLOC_SIZE cap mod 64 = 0
     else VEC_ALLOC_SIZE cap < cap * 8) \<and>
    (2 ^ 29 - 8 < cap \<and> cap \<le> 2 ^ 29 \<longrightarrow> VEC_ALLOC_SIZE cap = 0)"
proof -
  have size: "VEC_ALLOC_SIZE cap = (cap * 8 + 63) mod 2 ^ 32 div 64 * 64"
    using assms by (intro VEC_ALLOC_SIZE_mod) simp
  have zero: "VEC_ALLOC_SIZE cap = 0" if "2 ^ 29 - 8 < cap" "cap \<le> 2 ^ 29"
  proof -
    have "(cap * 8 + 63) mod 2 ^ 32 = cap * 8 + 63 - 2 ^ 32"
      using that by (simp add: le_mod_geq)
    then show ?thesis using that by (simp add: size)
  qed
  show ?thesis
  proof (cases "cap \<le> 2 ^ 29 - 8")
    case True
    then have "cap * 8 + 63 < 2 ^ 32" by simp
    moreover have "cap * 8 \<le> (cap * 8 + 63) div 64 * 64 \<and> (cap * 8 + 63) div 64 * 64 < cap * 8 + 64"
      using div_mult_mod_eq [of "cap * 8 + 63" 64] mod_less_divisor [of 64 "cap * 8 + 63"] by linarith
    ultimately show ?thesis using True by (simp add: VEC_ALLOC_SIZE_eq)
  next
    case False
    have "VEC_ALLOC_SIZE cap < cap * 8" if "2 ^ 29 < cap"
    proof -
      have "VEC_ALLOC_SIZE cap \<le> (cap * 8 + 63) mod 2 ^ 32" unfolding size by (rule div_times_less_eq_dividend)
      also have "\<dots> < 2 ^ 32" by simp
      also have "\<dots> < cap * 8" using that by simp
      finally show ?thesis .
    qed
    with False zero show ?thesis by (cases "cap \<le> 2 ^ 29") auto
  qed
qed

theorem vector_alloc_size_witness:
  "100 * 8 \<le> VEC_ALLOC_SIZE 100 \<and> VEC_ALLOC_SIZE 100 mod 64 = 0 \<and> VEC_ALLOC_SIZE (2 ^ 29 - 7) = 0"
  using vector_alloc_size [of 100] vector_alloc_size [of "2 ^ 29 - 7"] by simp

end
