(* ===== verification/Doubles.thy ===== *)
theory Doubles
  imports Prelude
begin

section \<open>C doubles\<close>

text \<open>
  Numbers of the language are C \<open>double\<close>s. A double is kept as its IEEE 754 bit pattern, so
  that what the code does with the bits (hashing them, turning them into sort keys) and what
  it does with the value (comparisons, conversions) are both definable. The comparisons
  order the patterns as sign and magnitude, which is the IEEE order; every comparison with a
  NaN is false and the two zeros are equal. Of the arithmetic only the conversions between
  integers and doubles are needed by the components modelled here.
\<close>

type_synonym double = u64

definition double_exp :: "double \<Rightarrow> nat" where
  "double_exp d = (unat d div 2 ^ 52) mod 2 ^ 11"

definition double_frac :: "double \<Rightarrow> nat" where
  "double_frac d = unat d mod 2 ^ 52"

definition double_neg :: "double \<Rightarrow> bool" where
  "double_neg d \<longleftrightarrow> 2 ^ 63 \<le> unat d"

definition double_is_nan :: "double \<Rightarrow> bool" where
  "double_is_nan d \<longleftrightarrow> double_exp d = 2047 \<and> double_frac d \<noteq> 0"

text \<open>Magnitude bits with the sign: equal for \<open>0.0\<close> and \<open>-0.0\<close>, ordered as the values.\<close>

definition double_key :: "double \<Rightarrow> int" where
  "double_key d = (if double_neg d then 2 ^ 63 - uint d else uint d)"

definition double_lt :: "double \<Rightarrow> double \<Rightarrow> bool" where
  "double_lt a b \<longleftrightarrow> \<not> double_is_nan a \<and> \<not> double_is_nan b \<and> double_key a < double_key b"

definition double_le :: "double \<Rightarrow> double \<Rightarrow> bool" where
  "double_le a b \<longleftrightarrow> \<not> double_is_nan a \<and> \<not> double_is_nan b \<and> double_key a \<le> double_key b"

definition double_eq :: "double \<Rightarrow> double \<Rightarrow> bool" where
  "double_eq a b \<longleftrightarrow> \<not> double_is_nan a \<and> \<not> double_is_nan b \<and> double_key a = double_key b"

subsection \<open>Conversions\<close>

fun nat_log2 :: "nat \<Rightarrow> nat" where
  "nat_log2 n = (if n < 2 then 0 else Suc (nat_log2 (n div 2)))"

declare nat_log2.simps [simp del]

text \<open>The nearest double of a natural number, ties to even; a carry moves to the exponent.\<close>

definition double_of_nat :: "nat \<Rightarrow> nat" where
  "double_of_nat m =
     (if m = 0 then 0
      else (let e = nat_log2 m
            in if e \<le> 52 then (e + 1023) * 2 ^ 52 + (m * 2 ^ (52 - e) - 2 ^ 52)
               else (let s = e - 52;
                         q = m div 2 ^ s;
                         r = m mod 2 ^ s;
                         q = (if 2 ^ (s - 1) < r \<or> (r = 2 ^ (s - 1) \<and> odd q) then q + 1 else q)
                     in (e + 1023) * 2 ^ 52 + (q - 2 ^ 52))))"

text \<open>\<^verbatim>\<open>(double)n\<close> for an \<open>int64_t\<close>.\<close>

definition double_of_int :: "int \<Rightarrow> double" where
  "double_of_int i = of_nat ((if i < 0 then 2 ^ 63 else 0) + double_of_nat (nat \<bar>i\<bar>))"

text \<open>
  \<^verbatim>\<open>(int64_t)d\<close>: truncation towards zero, \<open>None\<close> where C leaves the result undefined
  (a NaN, an infinity or a value outside the range of \<open>int64_t\<close>).
\<close>

definition double_trunc :: "double \<Rightarrow> nat" where
  "double_trunc d =
     (let e = double_exp d; m = 2 ^ 52 + double_frac d
      in if e < 1023 then 0 else if e \<le> 1075 then m div 2 ^ (1075 - e) else m * 2 ^ (e - 1075))"

definition double_to_int :: "double \<Rightarrow> int option" where
  "double_to_int d =
     (if double_exp d = 2047 then None
      else (let i = (if double_neg d then - int (double_trunc d) else int (double_trunc d))
            in if - (2 ^ 63) \<le> i \<and> i < 2 ^ 63 then Some i else None))"

text \<open>\<open>double_to_sortkey\<close> of \<open>btree_simd.h\<close>: flip all bits of a negative, the sign bit of a positive.\<close>

definition double_to_sortkey :: "double \<Rightarrow> u64" where
  "double_to_sortkey d =
     (let bits = d;
          mask = (- (drop_bit 63 bits)) OR 0x8000000000000000
      in bits XOR mask)"

subsection \<open>Comparisons\<close>

lemma double_lt_irrefl [simp]: "\<not> double_lt a a"
  by (simp add: double_lt_def)

lemma double_eq_refl [simp]: "double_eq a a \<longleftrightarrow> \<not> double_is_nan a"
  by (simp add: double_eq_def)

lemma double_neg_uint: "double_neg d \<longleftrightarrow> 2 ^ 63 \<le> uint d"
  proof -
  have "(2 ^ 63 \<le> unat d) = (int (2 ^ 63) \<le> int (unat d))" by (rule zle_int [symmetric])
  then show ?thesis by (simp add: double_neg_def)
qed
lemma uint_u64: "0 \<le> uint (d :: u64)" "uint (d :: u64) < 2 ^ 64"
  using uint_bounded [of d] by simp_all
lemma double_key_bounds: "\<bar>double_key d\<bar> < 2 ^ 63"
  using uint_u64 [of d] by (auto simp: double_key_def double_neg_uint)
lemma double_key_inj:
  assumes "double_key a = double_key b" "double_key a \<noteq> 0"
  shows "a = b"
proof -
  have "uint a = uint b"
    using uint_u64(1) [of a] uint_u64(1) [of b] uint_u64(2) [of a] uint_u64(2) [of b] assms
    unfolding double_key_def double_neg_uint by (simp split: if_splits; linarith)
  then show ?thesis by (metis word_uint_eq_iff)
qed

subsection \<open>Integers survive the round trip up to 2^53\<close>

lemma nat_log2_bounds: "0 < n \<Longrightarrow> 2 ^ nat_log2 n \<le> n \<and> n < 2 ^ Suc (nat_log2 n)"
proof (induction n rule: nat_log2.induct)
  case (1 n)
  show ?case
  proof (cases "n < 2")
    case True
    with 1 show ?thesis by (simp add: nat_log2.simps [of n])
  next
    case False
    then have unf: "nat_log2 n = Suc (nat_log2 (n div 2))" by (subst nat_log2.simps) simp
    obtain p where p: "p = (2 :: nat) ^ nat_log2 (n div 2)" by simp
    have "p \<le> n div 2" "n div 2 < 2 * p" using 1 False by (simp_all add: p)
    then have "2 * p \<le> n" "n < 2 * (2 * p)" by linarith+
    then show ?thesis by (simp add: unf p)
  qed
qed

lemma nat_log2_less: "0 < n \<Longrightarrow> n < 2 ^ k \<Longrightarrow> nat_log2 n < k"
  using nat_log2_bounds [of n] power_less_imp_less_exp [of "2 :: nat" "nat_log2 n" k] by linarith

lemma nat_log2_unique:
  assumes "2 ^ k \<le> n" "n < 2 ^ Suc k"
  shows "nat_log2 n = k"
proof -
  have n: "0 < n" using assms(1) by (cases n) simp_all
  note b = nat_log2_bounds [OF n]
  have p: "2 ^ k < (2 :: nat) ^ Suc (nat_log2 n)" "2 ^ nat_log2 n < (2 :: nat) ^ Suc k"
    using b assms by (meson le_less_trans)+
  have "1 < (2 :: nat)" by simp
  note p [THEN power_less_imp_less_exp [OF this]]
  then show ?thesis by simp
qed

lemma double_of_nat_fields:
  assumes "0 < m" "m < 2 ^ 53"
  defines "e \<equiv> nat_log2 m"
  shows "double_of_nat m div 2 ^ 52 = e + 1023" "double_of_nat m mod 2 ^ 52 = m * 2 ^ (52 - e) - 2 ^ 52"
    and "2 ^ 52 \<le> m * 2 ^ (52 - e)" "e \<le> 52"
proof -
  have b: "2 ^ e \<le> m" "m < 2 ^ Suc e"
    using nat_log2_bounds [OF assms(1)] by (simp_all add: e_def)
  show e: "e \<le> 52"
    using nat_log2_less [OF assms(1,2)] by (simp add: e_def)
  have p: "(2 :: nat) ^ e * 2 ^ (52 - e) = 2 ^ 52"
    using e by (simp flip: power_add)
  show lo: "2 ^ 52 \<le> m * 2 ^ (52 - e)"
    using mult_le_mono1 [OF b(1), of "2 ^ (52 - e)"] p by simp
  have "m * 2 ^ (52 - e) < 2 ^ Suc e * 2 ^ (52 - e)" using b(2) by simp
  also have "\<dots> = 2 * 2 ^ 52" using p by simp
  finally have hi: "m * 2 ^ (52 - e) - 2 ^ 52 < 2 ^ 52" by simp
  have d: "double_of_nat m = (e + 1023) * 2 ^ 52 + (m * 2 ^ (52 - e) - 2 ^ 52)"
    using assms(1) e by (simp add: double_of_nat_def Let_def e_def)
  show "double_of_nat m div 2 ^ 52 = e + 1023" "double_of_nat m mod 2 ^ 52 = m * 2 ^ (52 - e) - 2 ^ 52"
    unfolding d by (rule div_mod_fields [OF hi])+
qed

lemma unat_double_of_int:
  assumes "\<bar>i\<bar> < 2 ^ 53"
  shows "unat (double_of_int i) = (if i < 0 then 2 ^ 63 else 0) + double_of_nat (nat \<bar>i\<bar>)"
    and "double_of_nat (nat \<bar>i\<bar>) < 2 ^ 63"
proof -
  have lt: "double_of_nat m < 2 ^ 63" if m: "m < 2 ^ 53" for m
  proof (cases "m = 0")
    case False
    then have f: "double_of_nat m div 2 ^ 52 = nat_log2 m + 1023" "nat_log2 m \<le> 52"
      using double_of_nat_fields [of m] m by auto
    have "double_of_nat m div 2 ^ 52 < 2 ^ 11" using f by simp
    then show ?thesis by (simp add: div_less_iff_less_mult)
  qed (simp add: double_of_nat_def)
  show l: "double_of_nat (nat \<bar>i\<bar>) < 2 ^ 63" using assms by (intro lt) simp
  then show "unat (double_of_int i) = (if i < 0 then 2 ^ 63 else 0) + double_of_nat (nat \<bar>i\<bar>)"
  proof -
    obtain b where b: "b = double_of_nat (nat \<bar>i\<bar>)" by simp
    have "b < 2 ^ 63" using l by (simp add: b)
    then show ?thesis unfolding double_of_int_def unat_of_nat b [symmetric] by simp
  qed
qed

lemma double_of_int_fields:
  assumes "\<bar>i\<bar> < 2 ^ 53"
  shows "double_neg (double_of_int i) \<longleftrightarrow> i < 0"
    and "double_exp (double_of_int i) = double_of_nat (nat \<bar>i\<bar>) div 2 ^ 52"
    and "double_frac (double_of_int i) = double_of_nat (nat \<bar>i\<bar>) mod 2 ^ 52"
proof -
  obtain b where b: "b = double_of_nat (nat \<bar>i\<bar>)" by simp
  note u = unat_double_of_int [OF assms, folded b]
  have d: "b div 2 ^ 52 < 2 ^ 11" using u(2) by (simp add: div_less_iff_less_mult)
  show "double_neg (double_of_int i) \<longleftrightarrow> i < 0"
    using u by (simp add: double_neg_def)
  obtain e f where ef: "e = b div 2 ^ 52" "f = b mod 2 ^ 52" by simp
  have f: "f < 2 ^ 52" and beq: "b = e * 2 ^ 52 + f" by (simp_all add: ef)
  have "(if i < 0 then 2 ^ 63 else 0) + b = ((if i < 0 then 2 ^ 11 else 0) + e) * 2 ^ 52 + f"
    by (simp add: beq)
  note q = div_mod_fields [OF f, of "(if i < 0 then 2 ^ 11 else 0) + e", folded this]
  have e: "((if i < 0 then 2 ^ 11 else 0) + e) mod 2 ^ 11 = e"
    using d by (simp add: ef)
  show "double_exp (double_of_int i) = double_of_nat (nat \<bar>i\<bar>) div 2 ^ 52"
    unfolding double_exp_def u(1) b [symmetric] q e by (simp add: ef)
  show "double_frac (double_of_int i) = double_of_nat (nat \<bar>i\<bar>) mod 2 ^ 52"
    unfolding double_frac_def u(1) b [symmetric] q by (simp add: ef)
qed

lemma double_of_int_roundtrip:
  assumes "\<bar>i\<bar> < 2 ^ 53"
  shows "double_to_int (double_of_int i) = Some i"
proof -
  define m where "m = nat \<bar>i\<bar>"
  have m: "m < 2 ^ 53" using assms by (simp add: m_def)
  note f = double_of_int_fields [OF assms, folded m_def]
  have "double_exp (double_of_int i) < 2047 \<and> double_trunc (double_of_int i) = m"
  proof (cases "m = 0")
    case True
    then show ?thesis unfolding double_trunc_def f by (simp add: double_of_nat_def)
  next
    case False
    then have p: "0 < m" by simp
    note g = double_of_nat_fields [OF p m]
    have "2 ^ 52 + (m * 2 ^ (52 - nat_log2 m) - 2 ^ 52) = m * 2 ^ (52 - nat_log2 m)"
      using g(3) by simp
    with g show ?thesis
      unfolding double_trunc_def f g(1,2) Let_def by simp
  qed
  then have t: "(if i < 0 then - int (double_trunc (double_of_int i)) else int (double_trunc (double_of_int i))) = i"
    and e: "double_exp (double_of_int i) \<noteq> 2047"
    by (auto simp: m_def)
  have r: "- (2 ^ 63) \<le> i \<and> i < 2 ^ 63" using assms by simp linarith
  show ?thesis
    unfolding double_to_int_def f(1) Let_def t by (simp only: e r if_False if_True simp_thms)
qed

lemma double_of_int_not_nan: "\<bar>i\<bar> < 2 ^ 53 \<Longrightarrow> \<not> double_is_nan (double_of_int i)"
  using double_of_int_roundtrip [of i] by (auto simp: double_is_nan_def double_to_int_def)

lemma double_eq_sym: "double_eq a b \<Longrightarrow> double_eq b a"
  by (simp add: double_eq_def)

lemma double_eq_trans: "double_eq a b \<Longrightarrow> double_eq b c \<Longrightarrow> double_eq a c"
  by (simp add: double_eq_def)

lemma double_key_0_iff: "double_key d = 0 \<longleftrightarrow> d = 0 \<or> d = 2 ^ 63"
proof
  assume "double_key d = 0"
  then have "uint d = 0 \<or> uint d = 2 ^ 63" by (auto simp: double_key_def split: if_splits)
  then have "uint d = uint (0 :: u64) \<or> uint d = uint (2 ^ 63 :: u64)" by simp
  then show "d = 0 \<or> d = 2 ^ 63" by (metis word_uint_eq_iff)
next
  assume "d = 0 \<or> d = 2 ^ 63"
  then show "double_key d = 0" by (auto simp: double_key_def double_neg_uint)
qed

lemma zero_to_int: "double_to_int 0 = Some 0" "double_to_int (2 ^ 63) = Some 0"
  by (simp_all add: double_to_int_def double_exp_def double_trunc_def Let_def)

lemma double_of_int_0 [simp]: "double_of_int 0 = 0"
  by (simp add: double_of_int_def double_of_nat_def)

lemma double_eq_nonzero: "double_eq a b \<Longrightarrow> double_key a \<noteq> 0 \<Longrightarrow> a = b"
  using double_key_inj by (auto simp: double_eq_def)

lemma double_eq_of_int:
  assumes e: "double_eq d (double_of_int i)" and i: "\<bar>i\<bar> < 2 ^ 53"
  shows "double_to_int d = Some i"
proof (cases "double_key d = 0")
  case True
  then have "double_to_int d = Some 0" using zero_to_int by (auto simp: double_key_0_iff)
  moreover have "double_key (double_of_int i) = 0" using True e by (simp add: double_eq_def)
  then have "double_to_int (double_of_int i) = Some 0" using zero_to_int by (auto simp: double_key_0_iff)
  ultimately show ?thesis using double_of_int_roundtrip [OF i] by simp
next
  case False
  then show ?thesis using double_eq_nonzero [OF e] double_of_int_roundtrip [OF i] by simp
qed

lemma double_of_int_eq_iff:
  assumes "\<bar>i\<bar> < 2 ^ 53" "\<bar>j\<bar> < 2 ^ 53"
  shows "double_eq (double_of_int i) (double_of_int j) \<longleftrightarrow> i = j"
  using double_eq_of_int [of "double_of_int i" j] double_of_int_roundtrip [of i] assms
    double_of_int_not_nan [of i] by auto

lemma double_zero_integral:
  "double_to_int d = Some i \<Longrightarrow> \<not> double_eq d (double_of_int i) \<Longrightarrow> double_key d \<noteq> 0"
proof
  assume i: "double_to_int d = Some i" and ne: "\<not> double_eq d (double_of_int i)" and z: "double_key d = 0"
  then have "i = 0" "\<not> double_is_nan d"
    using zero_to_int by (auto simp: double_key_0_iff double_is_nan_def double_exp_def double_frac_def)
  moreover have "double_key 0 = 0" "\<not> double_is_nan 0"
    by (simp_all add: double_key_0_iff double_is_nan_def double_exp_def)
  ultimately show False using ne z by (simp add: double_eq_def)
qed

lemma int64_limits:
  "double_of_int (- (2 ^ 63)) = 0xC3E0000000000000" "double_of_int (2 ^ 63 - 1) = 0x43E0000000000000"
proof -
  have "nat_log2 (2 ^ 63) = 63" "nat_log2 (2 ^ 63 - 1) = 62"
    by (rule nat_log2_unique; simp)+
  then have "double_of_nat (2 ^ 63) = 1086 * 2 ^ 52" "double_of_nat (2 ^ 63 - 1) = 1086 * 2 ^ 52"
    by (simp_all add: double_of_nat_def Let_def)
  moreover have "nat \<bar>- (2 ^ 63) :: int\<bar> = 2 ^ 63" "nat \<bar>2 ^ 63 - 1 :: int\<bar> = 2 ^ 63 - 1" by simp_all
  ultimately show "double_of_int (- (2 ^ 63)) = 0xC3E0000000000000" "double_of_int (2 ^ 63 - 1) = 0x43E0000000000000"
    unfolding double_of_int_def by simp_all
qed

lemma double_of_nat_bound:
  assumes "m < 2 ^ 53"
  shows "double_of_nat m < 1076 * 2 ^ 52"
proof (cases "m = 0")
  case False
  then have "double_of_nat m div 2 ^ 52 < 1076"
    using double_of_nat_fields(1,4) [OF _ assms] by simp
  then show ?thesis by (simp add: div_less_iff_less_mult)
qed (simp add: double_of_nat_def)

lemma double_of_int_range:
  assumes "\<bar>i\<bar> < 2 ^ 53"
  shows "\<not> double_is_nan (double_of_int (- (2 ^ 63)))" "\<not> double_is_nan (double_of_int (2 ^ 63 - 1))"
    and "double_key (double_of_int (- (2 ^ 63))) \<le> double_key (double_of_int i)"
    and "double_key (double_of_int i) \<le> double_key (double_of_int (2 ^ 63 - 1))"
proof -
  have k: "double_key (double_of_int (- (2 ^ 63))) = - 0x43E0000000000000"
    "double_key (double_of_int (2 ^ 63 - 1)) = 0x43E0000000000000"
    unfolding int64_limits by (simp_all add: double_key_def double_neg_uint)
  show "\<not> double_is_nan (double_of_int (- (2 ^ 63)))" "\<not> double_is_nan (double_of_int (2 ^ 63 - 1))"
    unfolding int64_limits by (simp_all add: double_is_nan_def double_exp_def)
  have b: "double_of_nat (nat \<bar>i\<bar>) < 1076 * 2 ^ 52"
    using assms by (intro double_of_nat_bound) simp
  have "uint (double_of_int i) = (if i < 0 then 2 ^ 63 else 0) + int (double_of_nat (nat \<bar>i\<bar>))"
    using unat_double_of_int(1) [OF assms] by (simp add: uint_nat)
  then have "\<bar>double_key (double_of_int i)\<bar> \<le> int (double_of_nat (nat \<bar>i\<bar>))"
    unfolding double_key_def double_of_int_fields(1) [OF assms] by simp
  also have "\<dots> < 0x43E0000000000000" using b by simp
  finally show "double_key (double_of_int (- (2 ^ 63))) \<le> double_key (double_of_int i)"
    "double_key (double_of_int i) \<le> double_key (double_of_int (2 ^ 63 - 1))"
    unfolding k by simp_all
qed

subsection \<open>Sort keys\<close>

lemma uint_double_to_sortkey:
  "uint (double_to_sortkey d) = 2 ^ 63 + double_key d - (if double_neg d then 1 else 0)"
proof (cases "double_neg d")
  case True
  have "drop_bit 63 d = 1"
  proof -
    have "unat d div 2 ^ 63 = 1"
      using True unsigned_less [of d, where ?'a = nat] by (simp add: double_neg_def div_nat_eqI)
    then have "unat (drop_bit 63 d) = unat (1 :: u64)"
      by (subst unat_drop_bit_eq) (simp only: drop_bit_eq_div unsigned_1)
    then show ?thesis by (simp only: word_unat_eq_iff)
  qed
  then have "double_to_sortkey d = NOT d" by (simp add: double_to_sortkey_def)
  also have "\<dots> = - 1 - d" by (simp add: not_eq_complement)
  finally have "uint (double_to_sortkey d) = (2 ^ 64 - 1 - uint d) mod 2 ^ 64"
    by (simp add: uint_word_ariths uint_word_of_int_eq take_bit_eq_mod)
  also have "\<dots> = 2 ^ 64 - 1 - uint d"
  proof -
    obtain x where x: "x = uint d" by simp
    have "0 \<le> x" "x < 2 ^ 64" using uint_u64 [of d] by (simp_all add: x)
    then show ?thesis unfolding x [symmetric] by simp
  qed
  finally have "uint (double_to_sortkey d) = 2 ^ 64 - 1 - uint d" .
  with True show ?thesis by (simp add: double_key_def)
next
  case False
  have "drop_bit 63 d = 0"
  proof -
    have "unat d div 2 ^ 63 = 0" using False by (simp add: double_neg_def)
    then have "unat (drop_bit 63 d) = unat (0 :: u64)"
      by (subst unat_drop_bit_eq) (simp only: drop_bit_eq_div unsigned_0)
    then show ?thesis by (simp only: word_unat_eq_iff)
  qed
  then have "double_to_sortkey d = d XOR 2 ^ 63" by (simp add: double_to_sortkey_def)
  also have "\<dots> = d + 2 ^ 63"
  proof -
    have "bit (drop_bit 63 d) 0 = bit d 63" by (simp only: bit_drop_bit_eq comp_def add_0_right)
    then have nb: "\<not> bit d 63" unfolding \<open>drop_bit 63 d = 0\<close> by simp
    have "d AND 2 ^ 63 = 0" unfolding and_exp_eq_0_iff_not_bit by (rule nb)
    then show ?thesis by (rule disjunctive_add_eq_xor [symmetric])
  qed
  finally have "uint (double_to_sortkey d) = (uint d + 2 ^ 63) mod 2 ^ 64"
    by (simp add: uint_word_ariths)
  also have "\<dots> = uint d + 2 ^ 63"
    using False uint_u64 [of d] by (intro mod_pos_pos_trivial) (auto simp: double_neg_uint)
  finally have "uint (double_to_sortkey d) = uint d + 2 ^ 63" .
  with False show ?thesis by (simp add: double_key_def)
qed

lemma double_key_neg: "double_neg d \<Longrightarrow> double_key d \<le> 0" "\<not> double_neg d \<Longrightarrow> 0 \<le> double_key d"
  using uint_u64 [of d] by (auto simp: double_key_def double_neg_uint)

lemma sortkey_mono:
  "double_key a < double_key b \<Longrightarrow> double_to_sortkey a < double_to_sortkey b"
  using double_key_neg [of a] double_key_neg [of b]
  by (auto simp: word_less_def uint_double_to_sortkey)

lemma sortkey_le:
  "double_to_sortkey a \<le> double_to_sortkey b \<Longrightarrow> double_key a \<le> double_key b"
  using sortkey_mono [of b a] by (meson linorder_not_less)

end
