(* ===== verification/Cells.thy ===== *)
theory Cells
  imports Doubles
begin

section \<open>Cells\<close>

text \<open>
  The tagged union \<open>Cell\<close> of \<open>bootstrap/cell.h\<close>. Every constructor carries the address of the
  cell, since equality, comparison and hashing look at pointers; operations that only build
  and take apart values use cells with the trivial address. Reference counts, linear flags
  and source spans of a cell are not part of the value (see RefCount and Span). Cells that
  the modelled operations never look into (boxes, ports, iterators, ...) are \<open>CObj\<close> with
  their tag. NULL pointers are \<open>None\<close>. Interned symbols are equal as pointers exactly when
  they are equal as strings.
\<close>

datatype CellType =
    CELL_ATOM_NUMBER | CELL_ATOM_BOOL | CELL_ATOM_SYMBOL | CELL_ATOM_NIL | CELL_ATOM_STRING
  | CELL_PAIR | CELL_LAMBDA | CELL_BUILTIN | CELL_ERROR | CELL_STRUCT | CELL_GRAPH | CELL_ACTOR
  | CELL_CHANNEL | CELL_BOX | CELL_WEAK_REF | CELL_HASHMAP | CELL_SET | CELL_DEQUE | CELL_BUFFER
  | CELL_VECTOR | CELL_HEAP | CELL_SORTED_MAP | CELL_TRIE | CELL_ITERATOR | CELL_PORT | CELL_DIR
  | CELL_FFI_PTR | CELL_ATOM_INTEGER

datatype struct_kind = STRUCT_LEAF | STRUCT_NODE | STRUCT_GRAPH

datatype graph_type = GRAPH_GENERIC | GRAPH_CFG | GRAPH_DFG | GRAPH_CALL | GRAPH_DEP

text \<open>
  An error has a message, data, a cause, the ring of return positions (\<open>None\<close> before the first
  stamp, an entry \<open>None\<close> before it is written) and the number of stamps.
\<close>

datatype 'p cell =
    CNumber (cell_addr: 'p) double
  | CInteger (cell_addr: 'p) "64 word"
  | CBool (cell_addr: 'p) bool
  | CSymbol (cell_addr: 'p) string
  | CNil (cell_addr: 'p)
  | CString (cell_addr: 'p) string
  | CPair (cell_addr: 'p) "'p cell" "'p cell"
  | CError (cell_addr: 'p) string "'p cell option" "'p cell option" "u32 option list option" u16
  | CStruct (cell_addr: 'p) struct_kind "'p cell option" "'p cell option" "'p cell option"
  | CGraph (cell_addr: 'p) graph_type "'p cell" "'p cell" "'p cell" "'p cell option" "'p cell option"
  | CActor (cell_addr: 'p) int
  | CChannel (cell_addr: 'p) int
  | CBuffer (cell_addr: 'p) "u8 list"
  | CVector (cell_addr: 'p) "'p cell list"
  | CDeque (cell_addr: 'p) "'p cell list"
  | CHeap (cell_addr: 'p) "(double \<times> 'p cell) list"
  | CSized (cell_addr: 'p) CellType u32
  | CLambda (cell_addr: 'p) "'p cell" "'p cell" nat "'p cell option"
  | CBuiltin (cell_addr: 'p) string
  | CObj (cell_addr: 'p) CellType

text \<open>
  A closure has its environment, its body, its arity and its trait constraints; a builtin is the
  function that the table of primitives has under a name. \<open>CSized\<close> is a sorted map or a trie, of
  which the hash function reads the size.
\<close>

type_synonym tm = "unit cell"

fun cell_type :: "'p cell \<Rightarrow> CellType" where
  "cell_type (CNumber _ _) = CELL_ATOM_NUMBER"
| "cell_type (CInteger _ _) = CELL_ATOM_INTEGER"
| "cell_type (CBool _ _) = CELL_ATOM_BOOL"
| "cell_type (CSymbol _ _) = CELL_ATOM_SYMBOL"
| "cell_type (CNil _) = CELL_ATOM_NIL"
| "cell_type (CString _ _) = CELL_ATOM_STRING"
| "cell_type (CPair _ _ _) = CELL_PAIR"
| "cell_type (CError _ _ _ _ _ _) = CELL_ERROR"
| "cell_type (CStruct _ _ _ _ _) = CELL_STRUCT"
| "cell_type (CGraph _ _ _ _ _ _ _) = CELL_GRAPH"
| "cell_type (CActor _ _) = CELL_ACTOR"
| "cell_type (CChannel _ _) = CELL_CHANNEL"
| "cell_type (CBuffer _ _) = CELL_BUFFER"
| "cell_type (CVector _ _) = CELL_VECTOR"
| "cell_type (CDeque _ _) = CELL_DEQUE"
| "cell_type (CHeap _ _) = CELL_HEAP"
| "cell_type (CSized _ t _) = t"
| "cell_type (CLambda _ _ _ _ _) = CELL_LAMBDA"
| "cell_type (CBuiltin _ _) = CELL_BUILTIN"
| "cell_type (CObj _ t) = t"

subsection \<open>Constructors, predicates and accessors\<close>

definition cell_number :: "double \<Rightarrow> tm" where "cell_number n = CNumber () n"
definition cell_integer :: "64 word \<Rightarrow> tm" where "cell_integer n = CInteger () n"
definition cell_bool :: "bool \<Rightarrow> tm" where "cell_bool b = CBool () b"
definition cell_symbol :: "string \<Rightarrow> tm" where "cell_symbol s = CSymbol () s"
definition cell_string :: "string \<Rightarrow> tm" where "cell_string s = CString () s"
definition cell_nil :: tm where "cell_nil = CNil ()"
definition cell_cons :: "tm \<Rightarrow> tm \<Rightarrow> tm" where "cell_cons a b = CPair () a b"
definition cell_error :: "string \<Rightarrow> tm option \<Rightarrow> tm" where
  "cell_error message data = CError () message data None None 0"

definition cell_error_wrap :: "string \<Rightarrow> tm option \<Rightarrow> tm option \<Rightarrow> tm" where
  "cell_error_wrap context_msg data cause = CError () context_msg data cause None 0"

definition cell_struct :: "struct_kind \<Rightarrow> tm option \<Rightarrow> tm option \<Rightarrow> tm option \<Rightarrow> tm" where
  "cell_struct kind type_tag variant fields = CStruct () kind type_tag variant fields"

definition nil_if_null :: "tm option \<Rightarrow> tm" where
  "nil_if_null c = (case c of Some c \<Rightarrow> c | None \<Rightarrow> cell_nil)"

definition cell_graph :: "graph_type \<Rightarrow> tm option \<Rightarrow> tm option \<Rightarrow> tm option \<Rightarrow> tm" where
  "cell_graph gt nodes edges metadata =
     CGraph () gt (nil_if_null nodes) (nil_if_null edges) (nil_if_null metadata) None None"

fun cell_is_pair :: "'p cell \<Rightarrow> bool" where
  "cell_is_pair (CPair _ _ _) = True"
| "cell_is_pair _ = False"

fun cell_is_symbol :: "'p cell \<Rightarrow> bool" where
  "cell_is_symbol (CSymbol _ _) = True"
| "cell_is_symbol _ = False"

fun cell_is_nil :: "'p cell \<Rightarrow> bool" where
  "cell_is_nil (CNil _) = True"
| "cell_is_nil _ = False"

fun cell_is_error :: "'p cell \<Rightarrow> bool" where
  "cell_is_error (CError _ _ _ _ _ _) = True"
| "cell_is_error _ = False"

fun cell_is_numeric :: "'p cell \<Rightarrow> bool" where
  "cell_is_numeric (CNumber _ _) = True"
| "cell_is_numeric (CInteger _ _) = True"
| "cell_is_numeric _ = False"

fun cell_is_atom :: "'p cell \<Rightarrow> bool" where
  "cell_is_atom (CNumber _ _) = True"
| "cell_is_atom (CBool _ _) = True"
| "cell_is_atom (CSymbol _ _) = True"
| "cell_is_atom (CString _ _) = True"
| "cell_is_atom (CNil _) = True"
| "cell_is_atom _ = False"

text \<open>A failed assertion is \<open>None\<close>.\<close>

fun cell_car :: "'p cell \<Rightarrow> 'p cell option" where
  "cell_car (CPair _ a b) = Some a"
| "cell_car _ = None"

fun cell_cdr :: "'p cell \<Rightarrow> 'p cell option" where
  "cell_cdr (CPair _ a b) = Some b"
| "cell_cdr _ = None"

fun cell_to_double :: "'p cell \<Rightarrow> double" where
  "cell_to_double (CInteger _ i) = double_of_int (sint i)"
| "cell_to_double (CNumber _ d) = d"
| "cell_to_double _ = 0"

subsection \<open>Equality\<close>

text \<open>
  \<open>cell_equal\<close>: pointer equality first, numbers across the two numeric types, then by type.
  \<open>cells_equal\<close> is its loop over the elements of two vectors or deques of the same size,
  \<open>ptr_equal\<close> its behaviour on pointers that may be NULL. Sets (\<open>CELL_SET\<close>, compared by
  membership in the hash table) are not values of this model.
\<close>

fun cell_equal :: "'p cell \<Rightarrow> 'p cell \<Rightarrow> bool"
  and ptr_equal :: "'p cell option \<Rightarrow> 'p cell option \<Rightarrow> bool"
  and cells_equal :: "'p cell list \<Rightarrow> 'p cell list \<Rightarrow> bool" where
  "cell_equal a b =
     (cell_addr a = cell_addr b \<or>
      (if cell_is_numeric a \<and> cell_is_numeric b then
         (case (a, b) of
            (CInteger _ i, CInteger _ j) \<Rightarrow> i = j
          | _ \<Rightarrow> double_eq (cell_to_double a) (cell_to_double b))
       else (case (a, b) of
            (CBool _ x, CBool _ y) \<Rightarrow> x = y
          | (CSymbol _ x, CSymbol _ y) \<Rightarrow> x = y
          | (CString _ x, CString _ y) \<Rightarrow> x = y
          | (CNil _, CNil _) \<Rightarrow> True
          | (CPair _ x1 x2, CPair _ y1 y2) \<Rightarrow> cell_equal x1 y1 \<and> cell_equal x2 y2
          | (CStruct _ _ t1 v1 f1, CStruct _ _ t2 v2 f2) \<Rightarrow>
              ptr_equal t1 t2 \<and> ptr_equal v1 v2 \<and> ptr_equal f1 f2
          | (CGraph _ g1 n1 e1 _ _ _, CGraph _ g2 n2 e2 _ _ _) \<Rightarrow>
              g1 = g2 \<and> cell_equal n1 n2 \<and> cell_equal e1 e2
          | (CActor _ x, CActor _ y) \<Rightarrow> x = y
          | (CChannel _ x, CChannel _ y) \<Rightarrow> x = y
          | (CDeque _ xs, CDeque _ ys) \<Rightarrow> length xs = length ys \<and> cells_equal xs ys
          | (CBuffer _ xs, CBuffer _ ys) \<Rightarrow> xs = ys
          | (CVector _ xs, CVector _ ys) \<Rightarrow> length xs = length ys \<and> cells_equal xs ys
          | _ \<Rightarrow> False)))"
| "ptr_equal a b =
     (case (a, b) of (None, None) \<Rightarrow> True | (Some x, Some y) \<Rightarrow> cell_equal x y | _ \<Rightarrow> False)"
| "cells_equal (x # xs) (y # ys) = (cell_equal x y \<and> cells_equal xs ys)"
| "cells_equal _ _ = True"

declare cell_equal.simps [simp del] ptr_equal.simps [simp del]

end
