(* ===== verification/SipHash.thy ===== *)
theory SipHash
  imports Prelude
begin

section \<open>SipHash-2-4 of bootstrap/siphash.h\<close>

text \<open>
  The keyed hash behind every hash table of the runtime. Bytes are 8-bit words, the four
  lanes of the state 64-bit words; the 16-byte key is an argument (the source fills a global
  from the system's random source). The main lemma is the block view: the message, padded
  with zeros and its length byte, is absorbed in 8-byte little-endian blocks.
\<close>

definition SIPHASH_ROTL :: "u64 \<Rightarrow> nat \<Rightarrow> u64" where
  "SIPHASH_ROTL x b = push_bit b x OR drop_bit (64 - b) x"

definition SIPHASH_U8TO64_LE :: "u8 list \<Rightarrow> u64" where
  "SIPHASH_U8TO64_LE p =
     ucast (p ! 0) OR push_bit 8 (ucast (p ! 1)) OR push_bit 16 (ucast (p ! 2)) OR
     push_bit 24 (ucast (p ! 3)) OR push_bit 32 (ucast (p ! 4)) OR push_bit 40 (ucast (p ! 5)) OR
     push_bit 48 (ucast (p ! 6)) OR push_bit 56 (ucast (p ! 7))"

type_synonym sip_state = "u64 \<times> u64 \<times> u64 \<times> u64"

definition SIPHASH_SIPROUND :: "sip_state \<Rightarrow> sip_state" where
  "SIPHASH_SIPROUND s =
     (let (v0, v1, v2, v3) = s;
          v0 = v0 + v1;
          v1 = SIPHASH_ROTL v1 13;
          v1 = v1 XOR v0;
          v0 = SIPHASH_ROTL v0 32;
          v2 = v2 + v3;
          v3 = SIPHASH_ROTL v3 16;
          v3 = v3 XOR v2;
          v0 = v0 + v3;
          v3 = SIPHASH_ROTL v3 21;
          v3 = v3 XOR v0;
          v2 = v2 + v1;
          v1 = SIPHASH_ROTL v1 17;
          v1 = v1 XOR v2;
          v2 = SIPHASH_ROTL v2 32
      in (v0, v1, v2, v3))"

text \<open>Absorbing one word: into lane 3, two rounds, into lane 0.\<close>

definition sip_absorb :: "sip_state \<Rightarrow> u64 \<Rightarrow> sip_state" where
  "sip_absorb s m =
     (let (v0, v1, v2, v3) = s;
          (v0, v1, v2, v3) = SIPHASH_SIPROUND (SIPHASH_SIPROUND (v0, v1, v2, v3 XOR m))
      in (v0 XOR m, v1, v2, v3))"

text \<open>\<^verbatim>\<open>for (; data != end; data += 8)\<close>, run \<open>n\<close> times, with the advanced pointer.\<close>

primrec sip_blocks :: "nat \<Rightarrow> sip_state \<Rightarrow> u8 list \<Rightarrow> sip_state \<times> u8 list" where
  "sip_blocks 0 s data = (s, data)"
| "sip_blocks (Suc n) s data = sip_blocks n (sip_absorb s (SIPHASH_U8TO64_LE data)) (drop 8 data)"

text \<open>The \<^verbatim>\<open>switch (left)\<close> with its fall-through cases.\<close>

definition sip_tail :: "u64 \<Rightarrow> nat \<Rightarrow> u8 list \<Rightarrow> u64" where
  "sip_tail b left data =
     (let b = (if 7 \<le> left then b OR push_bit 48 (ucast (data ! 6)) else b);
          b = (if 6 \<le> left then b OR push_bit 40 (ucast (data ! 5)) else b);
          b = (if 5 \<le> left then b OR push_bit 32 (ucast (data ! 4)) else b);
          b = (if 4 \<le> left then b OR push_bit 24 (ucast (data ! 3)) else b);
          b = (if 3 \<le> left then b OR push_bit 16 (ucast (data ! 2)) else b);
          b = (if 2 \<le> left then b OR push_bit 8 (ucast (data ! 1)) else b)
      in if 1 \<le> left then b OR ucast (data ! 0) else b)"

definition siphash24 :: "u8 list \<Rightarrow> u8 list \<Rightarrow> u64" where
  "siphash24 src key =
     (let len = length src;
          k0 = SIPHASH_U8TO64_LE key;
          k1 = SIPHASH_U8TO64_LE (drop 8 key);
          v0 = k0 XOR 0x736f6d6570736575;
          v1 = k1 XOR 0x646f72616e646f6d;
          v2 = k0 XOR 0x6c7967656e657261;
          v3 = k1 XOR 0x7465646279746573;
          left = len AND 7;
          (s, data) = sip_blocks (len div 8) (v0, v1, v2, v3) src;
          b = push_bit 56 (of_nat len);
          b = sip_tail b left data;
          (v0, v1, v2, v3) = sip_absorb s b;
          (v0, v1, v2, v3) = SIPHASH_SIPROUND (SIPHASH_SIPROUND (SIPHASH_SIPROUND (SIPHASH_SIPROUND
             (v0, v1, v2 XOR 0xff, v3))))
      in v0 XOR v1 XOR v2 XOR v3)"

text \<open>The convenience wrapper; the global key is its argument.\<close>

definition guage_siphash :: "u8 list \<Rightarrow> u8 list \<Rightarrow> u64" where
  "guage_siphash key data = siphash24 data key"

text \<open>The bytes of an object of \<open>n\<close> bytes in memory, little-endian.\<close>

definition le_bytes :: "nat \<Rightarrow> u64 \<Rightarrow> u8 list" where
  "le_bytes n w = map (\<lambda>i. ucast (drop_bit (8 * i) w)) [0..<n]"

subsection \<open>The block view\<close>

fun chunks8 :: "u8 list \<Rightarrow> u8 list list" where
  "chunks8 xs = (if length xs < 8 then [] else take 8 xs # chunks8 (drop 8 xs))"

declare chunks8.simps [simp del]

definition sip_pad :: "u8 list \<Rightarrow> u8 list" where
  "sip_pad xs = xs @ replicate (7 - length xs mod 8) 0 @ [of_nat (length xs)]"

definition sip_finish :: "sip_state \<Rightarrow> u64" where
  "sip_finish s =
     (let (v0, v1, v2, v3) = s;
          (v0, v1, v2, v3) = (SIPHASH_SIPROUND ^^ 4) (v0, v1, v2 XOR 0xff, v3)
      in v0 XOR v1 XOR v2 XOR v3)"

definition sip_init :: "u8 list \<Rightarrow> sip_state" where
  "sip_init key =
     (SIPHASH_U8TO64_LE key XOR 0x736f6d6570736575,
      SIPHASH_U8TO64_LE (drop 8 key) XOR 0x646f72616e646f6d,
      SIPHASH_U8TO64_LE key XOR 0x6c7967656e657261,
      SIPHASH_U8TO64_LE (drop 8 key) XOR 0x7465646279746573)"

definition siphash_spec :: "u8 list \<Rightarrow> u8 list \<Rightarrow> u64" where
  "siphash_spec key xs =
     sip_finish (foldl sip_absorb (sip_init key) (map SIPHASH_U8TO64_LE (chunks8 (sip_pad xs))))"

lemma U8TO64_take: "8 \<le> length xs \<Longrightarrow> SIPHASH_U8TO64_LE (take 8 xs) = SIPHASH_U8TO64_LE xs"
  by (simp add: SIPHASH_U8TO64_LE_def)

lemma sip_blocks_spec:
  "8 * n \<le> length xs \<Longrightarrow>
    sip_blocks n s xs = (foldl sip_absorb s (map SIPHASH_U8TO64_LE (chunks8 (take (8 * n) xs))), drop (8 * n) xs)"
proof (induction n arbitrary: s xs)
  case 0
  then show ?case by (simp add: chunks8.simps)
next
  case (Suc n)
  have "chunks8 (take (8 * Suc n) xs) = take 8 xs # chunks8 (take (8 * n) (drop 8 xs))"
    using Suc.prems by (subst chunks8.simps) (simp add: take_drop add.commute)
  moreover have "drop (8 * n) (drop 8 xs) = drop (8 * Suc n) xs" by (simp add: add.commute)
  ultimately show ?case using Suc by (simp add: U8TO64_take)
qed

lemma chunks8_append: "length xs mod 8 = 0 \<Longrightarrow> chunks8 (xs @ ys) = chunks8 xs @ chunks8 ys"
proof (induction xs rule: chunks8.induct)
  case (1 xs)
  show ?case
  proof (cases "length xs < 8")
    case True
    with 1 show ?thesis by (simp add: chunks8.simps [of "[]"])
  next
    case False
    then have "length (drop 8 xs) mod 8 = 0" using 1 by (simp add: mod_if)
    then have "chunks8 (drop 8 xs @ ys) = chunks8 (drop 8 xs) @ chunks8 ys" using 1 False by simp
    with False show ?thesis by (subst (1 2) chunks8.simps) simp
  qed
qed

lemma chunks8_one: "length xs = 8 \<Longrightarrow> chunks8 xs = [xs]"
  by (simp add: chunks8.simps [of xs] chunks8.simps [of "[]"])

lemma sip_tail_pad:
  assumes "length t = l" "l < 8"
  shows "sip_tail (push_bit 56 (of_nat n)) l t =
    SIPHASH_U8TO64_LE (t @ replicate (7 - l) 0 @ [of_nat n])"
proof -
  have top: "push_bit 56 (of_nat n :: u64) = push_bit 56 (ucast (of_nat n :: u8))"
    by (rule bit_word_eqI) (auto simp: bit_simps of_nat_take_bit)
  have "l \<in> {0, 1, 2, 3, 4, 5, 6, 7}" using assms(2) by auto
  then show ?thesis
    using assms(1) unfolding top
    by (auto simp: length_Suc_conv numeral_eq_Suc sip_tail_def SIPHASH_U8TO64_LE_def ac_simps)
qed

lemma and_7: "(n :: nat) AND 7 = n mod 8"
  using and_pow2_minus_one [of n 3] by simp

subsection \<open>Properties\<close>

text \<open>
  The word-at-a-time code computes the hash of the block view: the message is padded with
  zeros and its length byte to whole 8-byte blocks, each block is absorbed with two rounds,
  and four rounds finish.
\<close>

theorem siphash24_blocks: "siphash24 xs key = siphash_spec key xs"
proof -
  define n where "n = length xs div 8"
  define t where "t = drop (8 * n) xs"
  have len: "8 * n \<le> length xs" by (simp add: n_def)
  have t: "length t = length xs mod 8" "length t < 8"
    by (simp_all add: t_def n_def minus_div_mult_eq_mod [symmetric] mult.commute)
  let ?last = "t @ replicate (7 - length xs mod 8) 0 @ [of_nat (length xs)]"
  have "length ?last = 8" using t by simp
  then have last: "chunks8 ?last = [?last]" by (rule chunks8_one)
  have "sip_pad xs = take (8 * n) xs @ ?last" by (simp add: sip_pad_def t_def flip: append_assoc)
  moreover have "length (take (8 * n) xs) mod 8 = 0" using len by (simp add: min_absorb2)
  ultimately have chunks: "chunks8 (sip_pad xs) = chunks8 (take (8 * n) xs) @ [?last]"
    using chunks8_append [of "take (8 * n) xs" ?last] last by simp
  have tail: "sip_tail (push_bit 56 (of_nat (length xs))) (length xs AND 7) t = SIPHASH_U8TO64_LE ?last"
    using sip_tail_pad [of t "length xs mod 8" "length xs"] t by (simp add: and_7)
  have rounds: "(SIPHASH_SIPROUND ^^ 4) s = SIPHASH_SIPROUND (SIPHASH_SIPROUND (SIPHASH_SIPROUND (SIPHASH_SIPROUND s)))"
    for s by (simp add: numeral_eq_Suc)
  show ?thesis
    unfolding siphash24_def siphash_spec_def Let_def chunks sip_finish_def rounds
    by (simp add: sip_blocks_spec [OF len, unfolded n_def] tail [unfolded t_def n_def] sip_init_def n_def t_def
        case_prod_beta)
qed

end
