(* ===== verification/SwissTable.thy ===== *)
theory SwissTable
  imports Prelude
begin

section \<open>Group operations of bootstrap/swisstable.h\<close>

text \<open>
  Sixteen control bytes are compared at once; the result is a bit mask with one bit per
  slot, which the callers walk from the lowest set bit upwards. The SSE2 and the NEON
  versions are both modelled, the instructions acting on lists of sixteen bytes, and shown
  equal; the clients use the SSE2 names.
\<close>

definition CTRL_EMPTY :: u8 where
  "CTRL_EMPTY = 0xFF"

definition CTRL_DELETED :: u8 where
  "CTRL_DELETED = 0x80"

definition GROUP_WIDTH :: nat where
  "GROUP_WIDTH = 16"

definition H2 :: "u64 \<Rightarrow> u8" where
  "H2 hash = ucast (drop_bit 57 hash)"

definition H1 :: "u64 \<Rightarrow> u64" where
  "H1 hash = hash"

text \<open>A \<open>GroupMask\<close> is a \<open>uint32_t\<close>.\<close>

type_synonym group_mask = u32

subsection \<open>Bit mask iteration\<close>

text \<open>\<^verbatim>\<open>__builtin_ctz\<close>, undefined for 0 in C and 32 here.\<close>

definition ctz :: "u32 \<Rightarrow> nat" where
  "ctz w = (case List.find (bit w) [0..<32] of Some i \<Rightarrow> i | None \<Rightarrow> 32)"

definition guage_bitmask_next :: "group_mask \<Rightarrow> int \<times> group_mask" where
  "guage_bitmask_next gm = (if gm = 0 then (-1, gm) else (int (ctz gm), gm AND (gm - 1)))"

lemma word_nonzero_bit: "(w :: u32) \<noteq> 0 \<Longrightarrow> \<exists>i < 32. bit w i"
proof (rule ccontr)
  assume "w \<noteq> 0" "\<not> (\<exists>i < 32. bit w i)"
  then have "w = 0" by (intro bit_word_eqI) auto
  with \<open>w \<noteq> 0\<close> show False by simp
qed

lemma find_upt_eq_Some: "List.find P [a..<b] = Some i \<longleftrightarrow> a \<le> i \<and> i < b \<and> P i \<and> (\<forall>j. a \<le> j \<and> j < i \<longrightarrow> \<not> P j)"
proof (induction b arbitrary: i)
  case (Suc b)
  show ?case
    by (cases "List.find P [a..<b]")
      (use Suc in \<open>auto simp: find_append find_None_iff less_Suc_eq not_less split: option.splits\<close>,
        (metis linorder_neqE_nat)+)
qed simp

lemma ctz_props:
  assumes "w \<noteq> 0"
  shows "bit w (ctz w)" "ctz w < 32" "\<And>i. i < ctz w \<Longrightarrow> \<not> bit w i"
proof -
  obtain i where "i < 32" "bit w i" using word_nonzero_bit [OF assms] by blast
  then have "List.find (bit w) [0..<32] \<noteq> None" by (auto simp: find_None_iff)
  then obtain c where c: "List.find (bit w) [0..<32] = Some c" by blast
  then have "ctz w = c" by (simp add: ctz_def)
  with c show "bit w (ctz w)" "ctz w < 32" "\<And>i. i < ctz w \<Longrightarrow> \<not> bit w i"
    by (auto simp: find_upt_eq_Some)
qed

text \<open>Subtracting one and masking clears the lowest set bit, first on natural numbers.\<close>

lemma nat_clear_lowest:
  fixes n :: nat
  assumes "bit n c" "\<forall>i < c. \<not> bit n i"
  shows "bit (n AND (n - 1)) j \<longleftrightarrow> bit n j \<and> j \<noteq> c"
  using assms
proof (induction n arbitrary: c j rule: nat_bit_induct)
  case (even n)
  then obtain c' where c: "c = Suc c'" by (cases c) (auto simp: bit_0)
  have m: "2 * n - 1 = 1 + 2 * (n - 1)" using even by simp
  have "(2 * n) AND (2 * n - 1) = 2 * (n AND (n - 1))"
    unfolding m by (subst and_rec) simp
  moreover have "bit n c'" "\<forall>i < c'. \<not> bit n i"
    using even.prems by (auto simp: c bit_double_iff)
  ultimately show ?case
    using even.IH [of c'] by (cases j) (auto simp: c bit_double_iff bit_simps)
next
  case (odd n)
  then have c: "c = 0" by (cases c) (auto simp: bit_0)
  have "(1 + 2 * n) AND (1 + 2 * n - 1) = 2 * n"
    by (subst and_rec) simp
  then show ?case by (cases j) (auto simp: c bit_Suc bit_0)
qed simp

lemma bit_clear_lowest:
  assumes "w \<noteq> 0"
  shows "bit (w AND (w - 1)) j \<longleftrightarrow> bit w j \<and> j \<noteq> ctz w"
proof -
  have u: "unat (w AND (w - 1)) = unat w AND (unat w - 1)"
    using assms by (simp add: unsigned_and_eq unat_minus_one)
  have "bit (w AND (w - 1)) j \<longleftrightarrow> bit (unat w AND (unat w - 1)) j"
    unfolding u [symmetric] by (simp add: bit_unsigned_iff)
  also have "\<dots> \<longleftrightarrow> bit (unat w) j \<and> j \<noteq> ctz w"
    using ctz_props [OF assms] by (intro nat_clear_lowest) (auto simp: bit_unsigned_iff)
  finally show ?thesis by (simp add: bit_unsigned_iff)
qed

lemma clear_lowest_less:
  assumes "(w :: u32) \<noteq> 0"
  shows "w AND (w - 1) < w"
proof -
  have "w AND (w - 1) \<le> w" by (simp add: word_and_le2)
  moreover have "w AND (w - 1) \<noteq> w"
    using bit_clear_lowest [OF assms, of "ctz w"] ctz_props [OF assms] by auto
  ultimately show ?thesis by simp
qed

text \<open>
  The loop of the callers, \<^verbatim>\<open>while (match) { int bit = guage_bitmask_next(&match); ... }\<close>: the
  first bit, from below, whose slot satisfies the test.
\<close>

function mask_scan :: "(nat \<Rightarrow> bool) \<Rightarrow> group_mask \<Rightarrow> nat option" where
  "mask_scan P gm =
     (if gm = 0 then None
      else (let (b, gm') = guage_bitmask_next gm
            in if P (nat b) then Some (nat b) else mask_scan P gm'))"
  by pat_completeness auto
termination
  by (relation "measure (\<lambda>(P, gm). unat gm)")
    (auto simp: guage_bitmask_next_def clear_lowest_less unat_mono)

declare mask_scan.simps [simp del]

lemma mask_scan_Some:
  "mask_scan P w = Some i \<Longrightarrow> bit w i \<and> P i \<and> (\<forall>j < i. bit w j \<longrightarrow> \<not> P j)"
proof (induction P w rule: mask_scan.induct)
  case (1 P gm)
  then have nz: "gm \<noteq> 0" by (auto simp: mask_scan.simps)
  show ?case
  proof (cases "P (ctz gm)")
    case True
    then have "i = ctz gm"
      using "1.prems" nz by (subst (asm) mask_scan.simps) (simp add: guage_bitmask_next_def)
    with True ctz_props [OF nz] show ?thesis by auto
  next
    case False
    then have "mask_scan P (gm AND (gm - 1)) = Some i"
      using "1.prems" nz by (subst (asm) mask_scan.simps) (simp add: guage_bitmask_next_def)
    with "1.IH" nz False have "bit (gm AND (gm - 1)) i \<and> P i \<and> (\<forall>j < i. bit (gm AND (gm - 1)) j \<longrightarrow> \<not> P j)"
      by (simp add: guage_bitmask_next_def)
    with False show ?thesis by (auto simp: bit_clear_lowest [OF nz])
  qed
qed

lemma mask_scan_None:
  "mask_scan P w = None \<longleftrightarrow> (\<forall>i. bit w i \<longrightarrow> \<not> P i)"
proof (induction P w rule: mask_scan.induct)
  case (1 P gm)
  show ?case
  proof (cases "gm = 0")
    case False
    then have "mask_scan P (gm AND (gm - 1)) = None \<longleftrightarrow>
        (\<forall>i. bit (gm AND (gm - 1)) i \<longrightarrow> \<not> P i)" if "\<not> P (ctz gm)"
      using 1 that by (auto simp: guage_bitmask_next_def)
    then show ?thesis
      using False ctz_props(1) [OF False]
      by (subst mask_scan.simps) (auto simp: guage_bitmask_next_def bit_clear_lowest)
  qed (simp add: mask_scan.simps)
qed

subsection \<open>SSE2\<close>

definition cmpeq_epi8 :: "u8 list \<Rightarrow> u8 \<Rightarrow> u8 list" where
  "cmpeq_epi8 grp needle = map (\<lambda>b. if b = needle then 0xFF else 0) grp"

text \<open>The top bit of every byte, packed.\<close>

definition movemask_epi8 :: "u8 list \<Rightarrow> group_mask" where
  "movemask_epi8 grp = horner_sum of_bool 2 (map (\<lambda>b. bit b 7) grp)"

definition load_group :: "u8 list \<Rightarrow> nat \<Rightarrow> u8 list" where
  "load_group ctrl off = take 16 (drop off ctrl)"

definition guage_group_match :: "u8 list \<Rightarrow> nat \<Rightarrow> u8 \<Rightarrow> group_mask" where
  "guage_group_match ctrl off h2 = movemask_epi8 (cmpeq_epi8 (load_group ctrl off) h2)"

definition guage_group_match_empty :: "u8 list \<Rightarrow> nat \<Rightarrow> group_mask" where
  "guage_group_match_empty ctrl off = movemask_epi8 (cmpeq_epi8 (load_group ctrl off) CTRL_EMPTY)"

definition guage_group_match_empty_or_deleted :: "u8 list \<Rightarrow> nat \<Rightarrow> group_mask" where
  "guage_group_match_empty_or_deleted ctrl off = movemask_epi8 (load_group ctrl off)"

lemma length_load_group: "off + 16 \<le> length ctrl \<Longrightarrow> length (load_group ctrl off) = 16"
  by (simp add: load_group_def)

lemma nth_load_group: "off + 16 \<le> length ctrl \<Longrightarrow> i < 16 \<Longrightarrow> load_group ctrl off ! i = ctrl ! (off + i)"
  by (simp add: load_group_def)

lemma bit_movemask:
  "length g = 16 \<Longrightarrow> bit (movemask_epi8 g) i \<longleftrightarrow> i < 16 \<and> bit (g ! i) 7"
  by (auto simp: movemask_epi8_def bit_horner_sum_bit_iff)

lemma bit_all_ones_7 [simp]: "bit (0xFF :: u8) 7"
  by simp

lemma bit_group_match:
  assumes "off + 16 \<le> length ctrl"
  shows "bit (guage_group_match ctrl off h2) i \<longleftrightarrow> i < 16 \<and> ctrl ! (off + i) = h2"
  using assms
  by (auto simp: guage_group_match_def bit_movemask cmpeq_epi8_def length_load_group nth_load_group split: if_splits)

lemma bit_group_match_empty:
  "off + 16 \<le> length ctrl \<Longrightarrow>
    bit (guage_group_match_empty ctrl off) i \<longleftrightarrow> i < 16 \<and> ctrl ! (off + i) = CTRL_EMPTY"
  using bit_group_match [of off ctrl CTRL_EMPTY]
  by (simp add: guage_group_match_empty_def guage_group_match_def)

lemma bit_group_match_avail:
  "off + 16 \<le> length ctrl \<Longrightarrow>
    bit (guage_group_match_empty_or_deleted ctrl off) i \<longleftrightarrow> i < 16 \<and> bit (ctrl ! (off + i)) 7"
  by (auto simp: guage_group_match_empty_or_deleted_def bit_movemask length_load_group nth_load_group)

lemma mask_nonzero_iff: "(w :: u32) \<noteq> 0 \<longleftrightarrow> (\<exists>i. bit w i)"
  using word_nonzero_bit by auto


subsection \<open>NEON\<close>

text \<open>
  \<open>vandq_u8\<close> acts lane by lane and \<open>vpadd_u8 a b\<close> adds neighbouring lanes of the
  concatenation; the bits of a half end up summed in its lane 0.
\<close>

definition shift_vals :: "u8 list" where
  "shift_vals = [1,2,4,8,16,32,64,128,1,2,4,8,16,32,64,128]"

fun pairwise_add :: "u8 list \<Rightarrow> u8 list" where
  "pairwise_add (a # b # rest) = (a + b) # pairwise_add rest"
| "pairwise_add rest = rest"

definition vpadd_u8 :: "u8 list \<Rightarrow> u8 list \<Rightarrow> u8 list" where
  "vpadd_u8 a b = pairwise_add (a @ b)"

definition neon_to_bitmask :: "u8 list \<Rightarrow> group_mask" where
  "neon_to_bitmask cmp =
     (let masked = map2 (AND) cmp shift_vals;
          lo = take 8 masked;
          hi = drop 8 masked;
          lo = vpadd_u8 lo lo; lo = vpadd_u8 lo lo; lo = vpadd_u8 lo lo;
          hi = vpadd_u8 hi hi; hi = vpadd_u8 hi hi; hi = vpadd_u8 hi hi
      in ucast (lo ! 0) OR push_bit 8 (ucast (hi ! 0)))"

definition neon_group_match :: "u8 list \<Rightarrow> nat \<Rightarrow> u8 \<Rightarrow> group_mask" where
  "neon_group_match ctrl off h2 = neon_to_bitmask (cmpeq_epi8 (load_group ctrl off) h2)"

definition neon_group_match_empty :: "u8 list \<Rightarrow> nat \<Rightarrow> group_mask" where
  "neon_group_match_empty ctrl off = neon_to_bitmask (cmpeq_epi8 (load_group ctrl off) CTRL_EMPTY)"

text \<open>\<open>vcgeq_u8\<close>: all ones in the lanes that are at least the threshold.\<close>

definition neon_group_match_empty_or_deleted :: "u8 list \<Rightarrow> nat \<Rightarrow> group_mask" where
  "neon_group_match_empty_or_deleted ctrl off =
     neon_to_bitmask (map (\<lambda>b. if 0x80 \<le> b then 0xFF else 0) (load_group ctrl off))"


abbreviation lane :: "bool \<Rightarrow> u8" where
  "lane p \<equiv> (if p then 0xFF else 0)"

lemma neon_half:
  fixes h :: "u8 list"
  assumes "h = map2 (AND) (map lane [p0, p1, p2, p3, p4, p5, p6, p7]) [1, 2, 4, 8, 16, 32, 64, 128]"
  defines "a \<equiv> vpadd_u8 h h"
  defines "b \<equiv> vpadd_u8 a a"
  shows "vpadd_u8 b b ! 0 = horner_sum of_bool 2 [p0, p1, p2, p3, p4, p5, p6, p7]"
proof -
  have h: "h = [of_bool p0, 2 * of_bool p1, 4 * of_bool p2, 8 * of_bool p3,
      16 * of_bool p4, 32 * of_bool p5, 64 * of_bool p6, 128 * of_bool p7]"
    by (simp add: assms)
  show ?thesis
    unfolding b_def a_def h vpadd_u8_def by (simp add: algebra_simps)
qed

lemma length_16_cases:
  assumes "length xs = 16"
  obtains x0 x1 x2 x3 x4 x5 x6 x7 y0 y1 y2 y3 y4 y5 y6 y7
  where "xs = [x0, x1, x2, x3, x4, x5, x6, x7, y0, y1, y2, y3, y4, y5, y6, y7]"
  using assms by (auto simp: numeral_eq_Suc length_Suc_conv)

lemma pack_halves:
  assumes "length lo = 8" "length hi = 8"
  shows "ucast (horner_sum of_bool 2 lo :: u8) OR push_bit 8 (ucast (horner_sum of_bool 2 hi :: u8)) =
    (horner_sum of_bool 2 (lo @ hi) :: u32)"
proof (rule bit_word_eqI)
  fix n assume n: "n < LENGTH(32)"
  have b: "bit (ucast (horner_sum of_bool 2 l :: u8) :: u32) i \<longleftrightarrow> i < 8 \<and> l ! i"
    if "length l = 8" for l i
    using that by (auto simp: bit_unsigned_iff bit_horner_sum_bit_iff)
  have "bit (push_bit 8 (ucast (horner_sum of_bool 2 hi :: u8)) :: u32) n \<longleftrightarrow> 8 \<le> n \<and> n - 8 < 8 \<and> hi ! (n - 8)"
    using n by (simp add: bit_push_bit_iff b [OF assms(2)])
  then show "bit (ucast (horner_sum of_bool 2 lo :: u8) OR push_bit 8 (ucast (horner_sum of_bool 2 hi :: u8)) :: u32) n =
      bit (horner_sum of_bool 2 (lo @ hi) :: u32) n"
    using n assms unfolding bit_or_iff b [OF assms(1)] bit_horner_sum_bit_iff nth_append by auto
qed

lemma neon_to_bitmask_movemask:
  assumes "length ps = 16"
  shows "neon_to_bitmask (map lane ps) = movemask_epi8 (map lane ps)"
proof -
  from assms obtain x0 x1 x2 x3 x4 x5 x6 x7 y0 y1 y2 y3 y4 y5 y6 y7
    where ps: "ps = [x0, x1, x2, x3, x4, x5, x6, x7, y0, y1, y2, y3, y4, y5, y6, y7]"
    by (rule length_16_cases)
  let ?lo = "[x0, x1, x2, x3, x4, x5, x6, x7]" and ?hi = "[y0, y1, y2, y3, y4, y5, y6, y7]"
  have m: "map2 (AND) (map lane ps) shift_vals =
      map2 (AND) (map lane ?lo) [1, 2, 4, 8, 16, 32, 64, 128] @
      map2 (AND) (map lane ?hi) [1, 2, 4, 8, 16, 32, 64, 128]"
    by (simp only: ps shift_vals_def list.map zip_Cons_Cons zip_Nil append_Cons append_Nil)
  have split: "neon_to_bitmask (map lane ps) =
      ucast (horner_sum of_bool 2 ?lo :: u8) OR push_bit 8 (ucast (horner_sum of_bool 2 ?hi :: u8))"
    unfolding neon_to_bitmask_def Let_def m
    by (subst (1 2) neon_half [symmetric], (rule refl)+) simp
  have bits: "map (\<lambda>b. bit b 7) (map lane qs) = qs" for qs
    by (induction qs) (simp_all split: if_splits)
  have "movemask_epi8 (map lane ps) = horner_sum of_bool 2 (?lo @ ?hi)"
    unfolding movemask_epi8_def bits by (simp only: ps append_Cons append_Nil)
  moreover have "length ?lo = 8" "length ?hi = 8" by simp_all
  ultimately show ?thesis
    unfolding split by (simp only: pack_halves)
qed


lemma mask_scan_find:
  assumes "\<And>i. bit w i \<longleftrightarrow> i < n \<and> Q i"
  shows "mask_scan P w = List.find (\<lambda>i. Q i \<and> P i) [0..<n]"
proof (cases "mask_scan P w")
  case None
  then show ?thesis
    using mask_scan_None [of P w] assms by (intro trans [OF None sym]) (auto simp: find_None_iff)
next
  case (Some i)
  then show ?thesis
    using mask_scan_Some [of P w i] assms
    by (intro trans [OF Some sym]) (auto simp: find_upt_eq_Some)
qed

lemma top_bit_iff: "bit b 7 \<longleftrightarrow> 0x80 \<le> b" for b :: u8
proof -
  obtain n where n: "n = unat b" by simp
  have lt: "n < 256" using unsigned_less [of b, where ?'a = nat] by (simp add: n)
  have "odd (n div 128) \<longleftrightarrow> 128 \<le> n"
  proof (cases "128 \<le> n")
    case True
    with lt have "n div 128 = 1" by (intro div_nat_eqI) simp_all
    with True show ?thesis by simp
  qed simp
  moreover have "bit b 7 \<longleftrightarrow> odd (n div 128)"
  proof -
    have "bit b 7 = bit n 7" by (simp add: n bit_unsigned_iff)
    then show ?thesis by (simp add: bit_iff_odd)
  qed
  ultimately show ?thesis by (simp add: word_le_nat_alt n)
qed

lemma cmpeq_lane: "cmpeq_epi8 g c = map lane (map (\<lambda>b. b = c) g)"
  by (simp add: cmpeq_epi8_def)

lemma cmpge_lane: "map (\<lambda>b. if 0x80 \<le> b then 0xFF else 0) g = map lane (map (\<lambda>b. 0x80 \<le> b) g)"
  by simp

lemma movemask_lane: "movemask_epi8 g = movemask_epi8 (map lane (map (\<lambda>b. bit b 7) g))"
  by (simp add: movemask_epi8_def comp_def cong: map_cong)

lemma scan_match:
  "off + 16 \<le> length ctrl \<Longrightarrow> mask_scan P (guage_group_match ctrl off h2) =
    List.find (\<lambda>i. ctrl ! (off + i) = h2 \<and> P i) [0..<16]"
  by (auto intro!: mask_scan_find simp: bit_group_match)

lemma scan_avail:
  "off + 16 \<le> length ctrl \<Longrightarrow> mask_scan P (guage_group_match_empty_or_deleted ctrl off) =
    List.find (\<lambda>i. 0x80 \<le> ctrl ! (off + i) \<and> P i) [0..<16]"
  by (auto intro!: mask_scan_find simp: bit_group_match_avail top_bit_iff)

subsection \<open>Properties\<close>

text \<open>
  C12. Walking a match mask with \<open>guage_bitmask_next\<close> visits the matching slots of the group
  from the lowest index upwards: the loop stops at the first slot that has the tag and
  passes the test, and finds none exactly when there is none.
\<close>

theorem group_match_scan:
  assumes "off + 16 \<le> length ctrl"
  shows "mask_scan P (guage_group_match ctrl off h2) =
      List.find (\<lambda>i. ctrl ! (off + i) = h2 \<and> P i) [0..<16] \<and>
    mask_scan P (guage_group_match_empty_or_deleted ctrl off) =
      List.find (\<lambda>i. 0x80 \<le> ctrl ! (off + i) \<and> P i) [0..<16]"
  using assms by (simp add: scan_match scan_avail)

theorem group_match_scan_witness:
  "mask_scan (\<lambda>i. i \<noteq> 2) (guage_group_match [1, 5, 5, 5, 0, 0, 0, 0, 0, 0, 0, 0, 0, 0, 0, 0] 0 5) = Some 1 \<and>
    mask_scan (\<lambda>i. 1 < i) (guage_group_match [1, 5, 5, 5, 0, 0, 0, 0, 0, 0, 0, 0, 0, 0, 0, 0] 0 5) = Some 2"
  using group_match_scan [of 0 "[1, 5, 5, 5, 0, 0, 0, 0, 0, 0, 0, 0, 0, 0, 0, 0]" "\<lambda>i. i \<noteq> 2" 5]
    group_match_scan [of 0 "[1, 5, 5, 5, 0, 0, 0, 0, 0, 0, 0, 0, 0, 0, 0, 0]" "\<lambda>i. 1 < i" 5]
  by (simp add: upt_rec)

text \<open>
  C11. The NEON versions of the three group operations compute the same masks as the SSE2
  ones on every control array.
\<close>

theorem neon_equals_sse2:
  assumes "off + 16 \<le> length ctrl"
  shows "neon_group_match ctrl off h2 = guage_group_match ctrl off h2 \<and>
    neon_group_match_empty ctrl off = guage_group_match_empty ctrl off \<and>
    neon_group_match_empty_or_deleted ctrl off = guage_group_match_empty_or_deleted ctrl off"
proof -
  let ?g = "load_group ctrl off"
  have l: "length (map P ?g) = 16" for P :: "u8 \<Rightarrow> bool"
    using assms by (simp add: length_load_group)
  have "neon_to_bitmask (map lane (map P ?g)) = movemask_epi8 (map lane (map P ?g))" for P
    by (rule neon_to_bitmask_movemask [OF l])
  note eq = this
  have "neon_group_match ctrl off c = guage_group_match ctrl off c" for c
    unfolding neon_group_match_def guage_group_match_def cmpeq_lane by (rule eq)
  moreover have "neon_group_match_empty ctrl off = guage_group_match_empty ctrl off"
    unfolding neon_group_match_empty_def guage_group_match_empty_def cmpeq_lane by (rule eq)
  moreover have "neon_group_match_empty_or_deleted ctrl off = guage_group_match_empty_or_deleted ctrl off"
    unfolding neon_group_match_empty_or_deleted_def guage_group_match_empty_or_deleted_def cmpge_lane
    unfolding eq movemask_lane [of ?g] top_bit_iff by (rule refl)
  ultimately show ?thesis by simp
qed

theorem neon_equals_sse2_witness:
  "neon_group_match (replicate 16 7) 0 7 = guage_group_match (replicate 16 7) 0 7"
  using neon_equals_sse2 [of 0 "replicate 16 7" 7] by simp

end
