(* ===== verification/HashMap.thy ===== *)
theory HashMap
  imports SwissTable Contracts "HOL-Library.Monad_Syntax"
begin

section \<open>The Swiss-table hash map of bootstrap/cell.c\<close>

text \<open>
  \<open>cell_hashmap_*\<close>. The key equality and the hash function are arguments here; the theory
  CellTables instantiates them with the model's \<open>cell_equal\<close> and \<open>cell_hash\<close>. A zeroed slot (key
  and value NULL) is \<open>None\<close>. \<open>None\<close> returned as a value stands for \<open>cell_nil()\<close>. The probing
  loops have no bound in the source, so the operations return in the option monad, where
  \<open>None\<close> is a loop that does not end. Reference counts are not tracked here.
\<close>

record ('k, 'v) hashmap =
  ctrl :: "u8 list"
  slots :: "('k \<times> 'v) option list"
  size :: nat
  capacity :: nat
  growth_left :: nat

definition cell_hashmap_new :: "nat \<Rightarrow> ('k, 'v) hashmap" where
  "cell_hashmap_new initial_capacity =
     (let initial_capacity = (if initial_capacity < GROUP_WIDTH then GROUP_WIDTH else initial_capacity);
          cap = round_up_pow2 1 initial_capacity
      in \<lparr>ctrl = replicate (cap + GROUP_WIDTH) CTRL_EMPTY,
          slots = replicate cap None,
          size = 0,
          capacity = cap,
          growth_left = mul32 cap 7 div 8\<rparr>)"

definition home_group :: "u64 \<Rightarrow> u32 \<Rightarrow> u32" where
  "home_group hash group_mask = (ucast (H1 hash div of_nat GROUP_WIDTH) :: u32) AND group_mask"

definition group_mask_of :: "nat \<Rightarrow> u32" where
  "group_mask_of cap = of_nat (cap div GROUP_WIDTH) - 1"

definition slot_has_key :: "('k \<Rightarrow> 'k \<Rightarrow> bool) \<Rightarrow> 'k \<Rightarrow> ('k \<times> 'v) option \<Rightarrow> bool" where
  "slot_has_key eq key s = (case s of Some (k, v) \<Rightarrow> eq k key | None \<Rightarrow> False)"

partial_function (option) hashmap_find_loop ::
  "('k \<Rightarrow> 'k \<Rightarrow> bool) \<Rightarrow> ('k, 'v) hashmap \<Rightarrow> 'k \<Rightarrow> u8 \<Rightarrow> u32 \<Rightarrow> u32 \<Rightarrow> u32 \<Rightarrow> u32 \<Rightarrow> int option" where
  "hashmap_find_loop eq m key h2 group_mask group_idx probe_offset probe_step =
     (let ctrl_offset = unat ((group_idx + probe_offset) AND group_mask) * GROUP_WIDTH
      in case mask_scan
             (\<lambda>b. ctrl_offset + b < capacity m \<and> slot_has_key eq key (slots m ! (ctrl_offset + b)))
             (guage_group_match (ctrl m) ctrl_offset h2) of
           Some b \<Rightarrow> Some (int (ctrl_offset + b))
         | None \<Rightarrow>
             if guage_group_match_empty (ctrl m) ctrl_offset \<noteq> 0 then Some (-1)
             else (let probe_step = probe_step + 1; probe_offset = probe_offset + probe_step
                   in hashmap_find_loop eq m key h2 group_mask group_idx probe_offset probe_step))"

definition hashmap_find :: "('k \<Rightarrow> 'k \<Rightarrow> bool) \<Rightarrow> ('k, 'v) hashmap \<Rightarrow> 'k \<Rightarrow> u64 \<Rightarrow> int option" where
  "hashmap_find eq m key hash =
     (let group_mask = group_mask_of (capacity m)
      in hashmap_find_loop eq m key (H2 hash) group_mask (home_group hash group_mask) 0 0)"

partial_function (option) hashmap_find_insert_slot_loop ::
  "u8 list \<Rightarrow> u32 \<Rightarrow> u32 \<Rightarrow> u32 \<Rightarrow> u32 \<Rightarrow> nat option" where
  "hashmap_find_insert_slot_loop cs group_mask group_idx probe_offset probe_step =
     (let ctrl_offset = unat ((group_idx + probe_offset) AND group_mask) * GROUP_WIDTH;
          avail = guage_group_match_empty_or_deleted cs ctrl_offset
      in if avail \<noteq> 0 then (let (b, avail) = guage_bitmask_next avail in Some (ctrl_offset + nat b))
         else (let probe_step = probe_step + 1; probe_offset = probe_offset + probe_step
               in hashmap_find_insert_slot_loop cs group_mask group_idx probe_offset probe_step))"

definition hashmap_find_insert_slot :: "('k, 'v) hashmap \<Rightarrow> u64 \<Rightarrow> nat option" where
  "hashmap_find_insert_slot m hash =
     (let group_mask = group_mask_of (capacity m)
      in hashmap_find_insert_slot_loop (ctrl m) group_mask (home_group hash group_mask) 0 0)"

text \<open>A control byte is written with its mirror behind the last group.\<close>

definition set_ctrl :: "('k, 'v) hashmap \<Rightarrow> nat \<Rightarrow> u8 \<Rightarrow> ('k, 'v) hashmap" where
  "set_ctrl m slot c =
     (let m = m\<lparr>ctrl := (ctrl m)[slot := c]\<rparr>
      in if slot < GROUP_WIDTH then m\<lparr>ctrl := (ctrl m)[capacity m + slot := c]\<rparr> else m)"

definition hashmap_reinsert :: "('k \<Rightarrow> u64) \<Rightarrow> u8 list \<Rightarrow> ('k \<times> 'v) option list \<Rightarrow> nat \<Rightarrow>
    ('k, 'v) hashmap \<Rightarrow> ('k, 'v) hashmap option" where
  "hashmap_reinsert h old_ctrl old_slots i m =
     (if old_ctrl ! i AND 0x80 = 0 then
        (case old_slots ! i of
           None \<Rightarrow> Some m
         | Some (k, v) \<Rightarrow> do {
             let hash = h k;
             slot \<leftarrow> hashmap_find_insert_slot m hash;
             let m = set_ctrl m slot (H2 hash);
             Some (m\<lparr>slots := (slots m)[slot := Some (k, v)]\<rparr>)
           })
      else Some m)"

definition hashmap_resize :: "('k \<Rightarrow> u64) \<Rightarrow> ('k, 'v) hashmap \<Rightarrow> nat \<Rightarrow> ('k, 'v) hashmap option" where
  "hashmap_resize h m new_cap =
     (let old_cap = capacity m; old_ctrl = ctrl m; old_slots = slots m;
          m = \<lparr>ctrl = replicate (new_cap + GROUP_WIDTH) CTRL_EMPTY,
               slots = replicate new_cap None,
               size = size m,
               capacity = new_cap,
               growth_left = sub32 (mul32 new_cap 7 div 8) (size m)\<rparr>
      in ofold (hashmap_reinsert h old_ctrl old_slots) [0..<old_cap] m)"

definition slot_value :: "('k \<times> 'v) option \<Rightarrow> 'v option" where
  "slot_value s = map_option snd s"

definition cell_hashmap_get :: "('k \<Rightarrow> 'k \<Rightarrow> bool) \<Rightarrow> ('k \<Rightarrow> u64) \<Rightarrow> ('k, 'v) hashmap \<Rightarrow> 'k \<Rightarrow> 'v option option" where
  "cell_hashmap_get eq h m key =
     (if size m = 0 then Some None
      else do {
        idx \<leftarrow> hashmap_find eq m key (h key);
        if idx < 0 then Some None else Some (slot_value (slots m ! nat idx))
      })"

definition cell_hashmap_put :: "('k \<Rightarrow> 'k \<Rightarrow> bool) \<Rightarrow> ('k \<Rightarrow> u64) \<Rightarrow> ('k, 'v) hashmap \<Rightarrow> 'k \<Rightarrow> 'v \<Rightarrow>
    ('v option \<times> ('k, 'v) hashmap) option" where
  "cell_hashmap_put eq h m key val = do {
     let hash = h key;
     idx \<leftarrow> hashmap_find eq m key hash;
     if 0 \<le> idx then
       Some (slot_value (slots m ! nat idx),
             m\<lparr>slots := (slots m)[nat idx := map_option (\<lambda>(k, _). (k, val)) (slots m ! nat idx)]\<rparr>)
     else do {
       m \<leftarrow> (if growth_left m = 0 then hashmap_resize h m (mul32 (capacity m) 2) else Some m);
       slot \<leftarrow> hashmap_find_insert_slot m hash;
       let was_empty = (ctrl m ! slot = CTRL_EMPTY);
       let m = set_ctrl m slot (H2 hash);
       let m = m\<lparr>slots := (slots m)[slot := Some (key, val)]\<rparr>;
       let m = m\<lparr>size := size m + 1\<rparr>;
       Some (None, if was_empty then m\<lparr>growth_left := growth_left m - 1\<rparr> else m)
     }
   }"

definition cell_hashmap_delete :: "('k \<Rightarrow> 'k \<Rightarrow> bool) \<Rightarrow> ('k \<Rightarrow> u64) \<Rightarrow> ('k, 'v) hashmap \<Rightarrow> 'k \<Rightarrow>
    ('v option \<times> ('k, 'v) hashmap) option" where
  "cell_hashmap_delete eq h m key = do {
     idx \<leftarrow> hashmap_find eq m key (h key);
     if idx < 0 then Some (None, m)
     else do {
       let idx = nat idx;
       let old_value = slot_value (slots m ! idx);
       let m = m\<lparr>slots := (slots m)[idx := None]\<rparr>;
       let next_group = unat (of_nat (idx div GROUP_WIDTH + 1) AND group_mask_of (capacity m)) * GROUP_WIDTH;
       let next_empty = guage_group_match_empty (ctrl m) next_group;
       let m = (if next_empty \<noteq> 0 then (set_ctrl m idx CTRL_EMPTY)\<lparr>growth_left := growth_left m + 1\<rparr>
                else set_ctrl m idx CTRL_DELETED);
       Some (old_value, m\<lparr>size := size m - 1\<rparr>)
     }
   }"

definition cell_hashmap_has :: "('k \<Rightarrow> 'k \<Rightarrow> bool) \<Rightarrow> ('k \<Rightarrow> u64) \<Rightarrow> ('k, 'v) hashmap \<Rightarrow> 'k \<Rightarrow> bool option" where
  "cell_hashmap_has eq h m key =
     (if size m = 0 then Some False
      else do { idx \<leftarrow> hashmap_find eq m key (h key); Some (0 \<le> idx) })"

definition cell_hashmap_size :: "('k, 'v) hashmap \<Rightarrow> nat" where
  "cell_hashmap_size m = size m"

text \<open>The three listings walk the slots upwards and cons, so the last slot comes first.\<close>

definition full_slots :: "('k, 'v) hashmap \<Rightarrow> ('k \<times> 'v) option list" where
  "full_slots m = map ((!) (slots m)) (filter (\<lambda>i. ctrl m ! i AND 0x80 = 0) [0..<capacity m])"

definition cell_hashmap_keys :: "('k, 'v) hashmap \<Rightarrow> 'k option list" where
  "cell_hashmap_keys m = fold (\<lambda>s result. map_option fst s # result) (full_slots m) []"

definition cell_hashmap_values :: "('k, 'v) hashmap \<Rightarrow> 'v option list" where
  "cell_hashmap_values m = fold (\<lambda>s result. slot_value s # result) (full_slots m) []"

definition cell_hashmap_entries :: "('k, 'v) hashmap \<Rightarrow> ('k \<times> 'v) option list" where
  "cell_hashmap_entries m = fold (\<lambda>s result. s # result) (full_slots m) []"

definition merge_put :: "('k \<Rightarrow> 'k \<Rightarrow> bool) \<Rightarrow> ('k \<Rightarrow> u64) \<Rightarrow> ('k, 'v) hashmap \<Rightarrow> nat \<Rightarrow> ('k, 'v) hashmap \<Rightarrow> ('k, 'v) hashmap option" where
  "merge_put eq h src i result =
     (if ctrl src ! i AND 0x80 = 0 then
        (case slots src ! i of
           None \<Rightarrow> Some result
         | Some (k, v) \<Rightarrow> map_option snd (cell_hashmap_put eq h result k v))
      else Some result)"

definition cell_hashmap_merge :: "('k \<Rightarrow> 'k \<Rightarrow> bool) \<Rightarrow> ('k \<Rightarrow> u64) \<Rightarrow> ('k, 'v) hashmap \<Rightarrow> ('k, 'v) hashmap \<Rightarrow> ('k, 'v) hashmap option" where
  "cell_hashmap_merge eq h m1 m2 = do {
     let est = size m1 + size m2;
     let result = cell_hashmap_new (if est < GROUP_WIDTH then GROUP_WIDTH else mul32 est 2);
     result \<leftarrow> ofold (merge_put eq h m1) [0..<capacity m1] result;
     ofold (merge_put eq h m2) [0..<capacity m2] result
   }"


subsection \<open>Representation invariant\<close>

text \<open>The group probed in step \<open>i\<close>.\<close>

definition grp :: "nat \<Rightarrow> u64 \<Rightarrow> nat \<Rightarrow> nat" where
  "grp cap hash i = (unat (home_group hash (group_mask_of cap)) + tri i) mod (cap div 16)"

definition has_empty :: "u8 list \<Rightarrow> nat \<Rightarrow> bool" where
  "has_empty cs g \<longleftrightarrow> (\<exists>b < 16. cs ! (g * 16 + b) = CTRL_EMPTY)"

text \<open>A slot that the probe sequence of \<open>hash\<close> reaches without passing an empty slot.\<close>

definition probed :: "u8 list \<Rightarrow> nat \<Rightarrow> u64 \<Rightarrow> nat \<Rightarrow> bool" where
  "probed cs cap hash i \<longleftrightarrow>
     (\<exists>j. grp cap hash j = i div 16 \<and> (\<forall>j' < j. \<not> has_empty cs (grp cap hash j')))"

definition hm_geometry :: "('k, 'v) hashmap \<Rightarrow> bool" where
  "hm_geometry m \<longleftrightarrow>
     is_pow2 (capacity m) \<and> 16 \<le> capacity m \<and> capacity m < 2 ^ 32 \<and>
     length (ctrl m) = capacity m + 16 \<and> length (slots m) = capacity m \<and>
     (\<forall>i < 16. ctrl m ! (capacity m + i) = ctrl m ! i)"

definition hm_core :: "'k set \<Rightarrow> ('k \<Rightarrow> 'k \<Rightarrow> bool) \<Rightarrow> ('k \<Rightarrow> u64) \<Rightarrow> ('k, 'v) hashmap \<Rightarrow> bool" where
  "hm_core K eq h m \<longleftrightarrow>
     hm_geometry m \<and>
     (\<forall>i < capacity m. slots m ! i = None \<longleftrightarrow> bit (ctrl m ! i) 7) \<and>
     (\<forall>i < capacity m. bit (ctrl m ! i) 7 \<longrightarrow> ctrl m ! i = CTRL_EMPTY \<or> ctrl m ! i = CTRL_DELETED) \<and>
     (\<forall>i < capacity m. \<forall>k v. slots m ! i = Some (k, v) \<longrightarrow>
        k \<in> K \<and> ctrl m ! i = H2 (h k) \<and> probed (ctrl m) (capacity m) (h k) i) \<and>
     (\<forall>i < capacity m. \<forall>j < capacity m. \<forall>k v k' v'.
        slots m ! i = Some (k, v) \<longrightarrow> slots m ! j = Some (k', v') \<longrightarrow> eq k k' \<longrightarrow> i = j)"

definition hm_used :: "('k, 'v) hashmap \<Rightarrow> nat set" where
  "hm_used m = {i. i < capacity m \<and> ctrl m ! i \<noteq> CTRL_EMPTY}"

definition hm_full :: "('k, 'v) hashmap \<Rightarrow> nat set" where
  "hm_full m = {i. i < capacity m \<and> slots m ! i \<noteq> None}"

definition hm_inv :: "'k set \<Rightarrow> ('k \<Rightarrow> 'k \<Rightarrow> bool) \<Rightarrow> ('k \<Rightarrow> u64) \<Rightarrow> ('k, 'v) hashmap \<Rightarrow> bool" where
  "hm_inv K eq h m \<longleftrightarrow>
     hm_core K eq h m \<and> capacity m \<le> 2 ^ 28 \<and> size m = card (hm_full m) \<and>
     growth_left m + card (hm_used m) = capacity m * 7 div 8"

text \<open>What the map holds for a key.\<close>

definition hm_lookup :: "('k \<Rightarrow> 'k \<Rightarrow> bool) \<Rightarrow> ('k, 'v) hashmap \<Rightarrow> 'k \<Rightarrow> 'v option" where
  "hm_lookup eq m k = Option.bind (List.find (slot_has_key eq k) (slots m)) slot_value"

lemma finite_used [simp]: "finite (hm_used m)" "finite (hm_full m)"
  by (simp_all add: hm_used_def hm_full_def)

lemma and_0x80_iff: "c AND 0x80 = 0 \<longleftrightarrow> \<not> bit c 7" for c :: u8
  using and_exp_eq_0_iff_not_bit [of c 7] by simp

lemma H2_top [simp]: "\<not> bit (H2 hash) 7"
proof
  assume "bit (H2 hash) 7"
  then have "bit hash 64" by (simp add: H2_def bit_unsigned_iff bit_drop_bit_eq)
  then show False by (auto dest: bit_imp_le_length)
qed

lemma CTRL_top [simp]: "bit CTRL_EMPTY 7" "bit CTRL_DELETED 7" "CTRL_DELETED \<noteq> CTRL_EMPTY" "CTRL_EMPTY \<noteq> CTRL_DELETED"
  by (simp_all add: CTRL_EMPTY_def CTRL_DELETED_def)

lemma set_ctrl_simps [simp]:
  "slots (set_ctrl m i c) = slots m" "size (set_ctrl m i c) = size m"
  "capacity (set_ctrl m i c) = capacity m" "growth_left (set_ctrl m i c) = growth_left m"
  "length (ctrl (set_ctrl m i c)) = length (ctrl m)"
  by (simp_all add: set_ctrl_def Let_def)

lemma nth_set_ctrl:
  "i < capacity m \<Longrightarrow> j < capacity m \<Longrightarrow> capacity m \<le> length (ctrl m) \<Longrightarrow>
    ctrl (set_ctrl m i c) ! j = (if j = i then c else ctrl m ! j)"
  by (simp add: set_ctrl_def Let_def nth_list_update)

lemma geometry_set_ctrl:
  assumes "hm_geometry m" "i < capacity m"
  shows "hm_geometry (set_ctrl m i c)"
  using assms by (auto simp: hm_geometry_def set_ctrl_def Let_def nth_list_update GROUP_WIDTH_def)

lemma geometry_cong:
  "ctrl m = ctrl m' \<Longrightarrow> capacity m = capacity m' \<Longrightarrow> length (slots m) = length (slots m') \<Longrightarrow>
    hm_geometry m = hm_geometry m'"
  by (simp add: hm_geometry_def)

text \<open>The number of groups is a power of two as well.\<close>

lemma groups:
  assumes "hm_geometry m"
  shows "is_pow2 (capacity m div 16)" "0 < capacity m div 16" "capacity m div 16 < 2 ^ 32"
    "capacity m = capacity m div 16 * 16"
proof -
  from assms obtain k where k: "capacity m = 2 ^ k" "16 \<le> capacity m"
    by (auto simp: hm_geometry_def is_pow2_def)
  have "4 \<le> k"
  proof (rule ccontr)
    assume "\<not> 4 \<le> k"
    then have "(2 :: nat) ^ k \<le> 2 ^ 3" by (intro power_increasing) auto
    with k show False by simp
  qed
  then obtain l where l: "k = l + 4" by (metis add.commute le_Suc_ex)
  have cap: "capacity m = 2 ^ l * 16" unfolding k(1) l by (simp add: power_add)
  then show "is_pow2 (capacity m div 16)" "0 < capacity m div 16" "capacity m = capacity m div 16 * 16"
    by (auto simp: is_pow2_def)
  show "capacity m div 16 < 2 ^ 32"
    using assms div_le_dividend [of "capacity m" 16] unfolding hm_geometry_def by (meson le_less_trans)
qed

lemma probe_offset:
  assumes "hm_geometry m"
  shows "unat ((home_group hash (group_mask_of (capacity m)) + of_nat (tri i)) AND group_mask_of (capacity m)) =
    grp (capacity m) hash i"
  using probe_group [OF groups(1,3) [OF assms]]
  by (simp add: group_mask_of_def grp_def GROUP_WIDTH_def)

lemma grp_bounds:
  assumes "hm_geometry m"
  shows "grp (capacity m) hash i < capacity m div 16" "grp (capacity m) hash i * 16 + 16 \<le> capacity m"
    "b < 16 \<Longrightarrow> grp (capacity m) hash i * 16 + b < capacity m"
proof -
  show lt: "grp (capacity m) hash i < capacity m div 16"
    using groups(2) [OF assms] by (simp add: grp_def)
  then have "Suc (grp (capacity m) hash i) * 16 \<le> capacity m div 16 * 16"
    by (intro mult_le_mono1) simp
  then show "grp (capacity m) hash i * 16 + 16 \<le> capacity m"
    using groups(4) [OF assms] by simp
  then show "b < 16 \<Longrightarrow> grp (capacity m) hash i * 16 + b < capacity m" by simp
qed

lemma length_ctrl: "hm_geometry m \<Longrightarrow> length (ctrl m) = capacity m + 16"
  by (simp add: hm_geometry_def)

lemma match_empty_iff:
  "hm_geometry m \<Longrightarrow> g * 16 + 16 \<le> capacity m \<Longrightarrow>
    guage_group_match_empty (ctrl m) (g * 16) \<noteq> 0 \<longleftrightarrow> has_empty (ctrl m) g"
  by (auto simp: mask_nonzero_iff bit_group_match_empty length_ctrl has_empty_def)

lemma grp_of_empty:
  assumes "hm_geometry m" "i < capacity m" "ctrl m ! i = CTRL_EMPTY"
  shows "\<exists>j. has_empty (ctrl m) (grp (capacity m) hash j)"
proof -
  have "i div 16 < capacity m div 16"
    using assms(2) groups(4) [OF assms(1)] by (simp add: div_less_iff_less_mult)
  with probe_visits [OF groups(1) [OF assms(1)]]
  obtain j where "grp (capacity m) hash j = i div 16" by (auto simp: grp_def)
  moreover have "has_empty (ctrl m) (i div 16)"
    unfolding has_empty_def by (rule exI [of _ "i mod 16"]) (simp add: assms(3))
  ultimately show ?thesis by metis
qed

subsection \<open>Probing\<close>

definition hit :: "('k \<Rightarrow> 'k \<Rightarrow> bool) \<Rightarrow> ('k, 'v) hashmap \<Rightarrow> 'k \<Rightarrow> u8 \<Rightarrow> nat \<Rightarrow> nat option" where
  "hit eq m key h2 g =
     List.find (\<lambda>b. ctrl m ! (g * 16 + b) = h2 \<and> slot_has_key eq key (slots m ! (g * 16 + b))) [0..<16]"

lemma find_loop_step:
  fixes m :: "('k, 'v) hashmap" and hash :: u64 and i :: nat
  assumes "hm_geometry m"
  defines "gm \<equiv> group_mask_of (capacity m)"
  defines "g \<equiv> grp (capacity m) hash i"
  shows "hashmap_find_loop eq m key h2 gm (home_group hash gm) (of_nat (tri i)) (of_nat i) =
    (case hit eq m key h2 g of
       Some b \<Rightarrow> Some (int (g * 16 + b))
     | None \<Rightarrow> if has_empty (ctrl m) g then Some (-1)
         else hashmap_find_loop eq m key h2 gm (home_group hash gm) (of_nat (tri (Suc i))) (of_nat (Suc i)))"
proof -
  note g = grp_bounds [OF assms(1), where hash = hash and i = i, folded g_def]
  have off: "unat ((home_group hash gm + of_nat (tri i)) AND gm) * GROUP_WIDTH = g * 16"
    using probe_offset [OF assms(1)] by (simp add: g_def gm_def GROUP_WIDTH_def)
  have scan: "mask_scan (\<lambda>b. g * 16 + b < capacity m \<and> slot_has_key eq key (slots m ! (g * 16 + b)))
      (guage_group_match (ctrl m) (g * 16) h2) = hit eq m key h2 g"
    unfolding hit_def using g length_ctrl [OF assms(1)]
    by (subst scan_match) (auto intro!: find_cong_set)
  show ?thesis
    by (subst hashmap_find_loop.simps)
      (simp only: off scan match_empty_iff [OF assms(1) g(2)] Let_def tri_word_Suc of_nat_Suc_word)
qed

lemma find_loop_at:
  fixes m :: "('k, 'v) hashmap" and hash :: u64 and i n :: nat
  assumes "hm_geometry m" and "i \<le> n"
  defines "gm \<equiv> group_mask_of (capacity m)"
  defines "g \<equiv> grp (capacity m) hash"
  assumes "\<And>j. i \<le> j \<Longrightarrow> j < n \<Longrightarrow> hit eq m key h2 (g j) = None \<and> \<not> has_empty (ctrl m) (g j)"
    and "hit eq m key h2 (g n) \<noteq> None \<or> has_empty (ctrl m) (g n)"
  shows "hashmap_find_loop eq m key h2 gm (home_group hash gm) (of_nat (tri i)) (of_nat i) =
    Some (case hit eq m key h2 (g n) of Some b \<Rightarrow> int (g n * 16 + b) | None \<Rightarrow> -1)"
  using assms(2,5)
proof (induction rule: inc_induct)
  case base
  show ?case
    using assms(6) find_loop_step [OF assms(1), of eq key h2 hash n, folded gm_def g_def]
    by (auto split: option.splits)
next
  case (step i)
  have "hit eq m key h2 (g i) = None" "\<not> has_empty (ctrl m) (g i)"
    using step.prems [of i] step.hyps by auto
  then show ?case
    using step.IH [OF step.prems] find_loop_step [OF assms(1), of eq key h2 hash i, folded gm_def g_def]
    by simp
qed

lemma hashmap_find_start:
  "hashmap_find eq m key hash = hashmap_find_loop eq m key (H2 hash) (group_mask_of (capacity m))
    (home_group hash (group_mask_of (capacity m))) (of_nat (tri 0)) (of_nat 0)"
  by (simp add: hashmap_find_def Let_def)

lemma insert_loop_at:
  fixes m :: "('k, 'v) hashmap" and hash :: u64 and i n :: nat
  assumes "hm_geometry m" and "i \<le> n"
  defines "gm \<equiv> group_mask_of (capacity m)"
  defines "g \<equiv> grp (capacity m) hash"
  defines "avail \<equiv> \<lambda>g. guage_group_match_empty_or_deleted (ctrl m) (g * 16)"
  assumes "\<And>j. i \<le> j \<Longrightarrow> j < n \<Longrightarrow> avail (g j) = 0" and "avail (g n) \<noteq> 0"
  shows "hashmap_find_insert_slot_loop (ctrl m) gm (home_group hash gm) (of_nat (tri i)) (of_nat i) =
    Some (g n * 16 + ctz (avail (g n)))"
  using assms(2,6)
proof (induction rule: inc_induct)
  case base
  have off: "unat ((home_group hash gm + of_nat (tri n)) AND gm) * GROUP_WIDTH = g n * 16"
    using probe_offset [OF assms(1)] by (simp add: g_def gm_def GROUP_WIDTH_def)
  show ?case
    using assms(7) by (subst hashmap_find_insert_slot_loop.simps)
      (simp add: off Let_def guage_bitmask_next_def avail_def)
next
  case (step i)
  have off: "unat ((home_group hash gm + of_nat (tri i)) AND gm) * GROUP_WIDTH = g i * 16"
    using probe_offset [OF assms(1)] by (simp add: g_def gm_def GROUP_WIDTH_def)
  have "guage_group_match_empty_or_deleted (ctrl m) (g i * 16) = 0"
    using step.prems [of i] step.hyps by (simp add: avail_def)
  then have "hashmap_find_insert_slot_loop (ctrl m) gm (home_group hash gm) (of_nat (tri i)) (of_nat i) =
      hashmap_find_insert_slot_loop (ctrl m) gm (home_group hash gm) (of_nat (tri (Suc i))) (of_nat (Suc i))"
    by (subst hashmap_find_insert_slot_loop.simps)
      (simp only: off Let_def tri_word_Suc of_nat_Suc_word not_True_eq_False if_False simp_thms)
  then show ?case using step.IH [OF step.prems] by simp
qed

text \<open>The insertion slot is free, and no empty slot was passed on the way.\<close>

lemma insert_slot_spec:
  fixes m :: "('k, 'v) hashmap"
  assumes geo: "hm_geometry m" and e: "i0 < capacity m" "ctrl m ! i0 = CTRL_EMPTY"
  shows "\<exists>i < capacity m. hashmap_find_insert_slot m hash = Some i \<and> bit (ctrl m ! i) 7 \<and>
    probed (ctrl m) (capacity m) hash i"
proof -
  let ?g = "grp (capacity m) hash"
  let ?avail = "\<lambda>g. guage_group_match_empty_or_deleted (ctrl m) (g * 16)"
  have bit: "bit (?avail (?g j)) b \<longleftrightarrow> b < 16 \<and> bit (ctrl m ! (?g j * 16 + b)) 7" for j b
    using grp_bounds(1,2) [OF geo, of hash j] length_ctrl [OF geo] by (simp add: bit_group_match_avail)
  have emp: "?avail (?g j) \<noteq> 0" if "has_empty (ctrl m) (?g j)" for j
    using that bit [of j] unfolding mask_nonzero_iff has_empty_def by (metis CTRL_top(1))
  obtain j0 where "?avail (?g j0) \<noteq> 0"
    using grp_of_empty [OF geo e] emp by blast
  then obtain n where n: "?avail (?g n) \<noteq> 0" "\<And>j. j < n \<Longrightarrow> ?avail (?g j) = 0"
    using least_from [of 0 "\<lambda>j. ?avail (?g j) \<noteq> 0"] by (metis zero_le)
  define b where "b = ctz (?avail (?g n))"
  have "bit (?avail (?g n)) b" using ctz_props(1) [OF n(1)] by (simp add: b_def)
  then have b: "b < 16" "bit (ctrl m ! (?g n * 16 + b)) 7" using bit by auto
  have "hashmap_find_insert_slot m hash = Some (?g n * 16 + b)"
    using insert_loop_at [OF geo, where i = 0 and n = n and hash = hash] n
    by (simp add: hashmap_find_insert_slot_def Let_def b_def)
  moreover have "probed (ctrl m) (capacity m) hash (?g n * 16 + b)"
    unfolding probed_def using b(1) n(2) emp by (intro exI [of _ n]) auto
  ultimately show ?thesis
    using b grp_bounds(3) [OF geo b(1), where hash = hash and i = n] by blast
qed

subsection \<open>Correctness on a set of keys\<close>

definition key_absent :: "('k \<Rightarrow> 'k \<Rightarrow> bool) \<Rightarrow> ('k, 'v) hashmap \<Rightarrow> 'k \<Rightarrow> bool" where
  "key_absent eq m k \<longleftrightarrow> (\<forall>j < capacity m. \<forall>k' v'. slots m ! j = Some (k', v') \<longrightarrow> \<not> eq k' k)"

lemma key_absentD: "key_absent eq m k \<Longrightarrow> j < capacity m \<Longrightarrow> slots m ! j = Some (k', v') \<Longrightarrow> \<not> eq k' k"
  by (auto simp: key_absent_def)

definition hm_has_room :: "('k, 'v) hashmap \<Rightarrow> bool" where
  "hm_has_room m \<longleftrightarrow> (\<exists>i < capacity m. ctrl m ! i = CTRL_EMPTY)"

lemma room_of_count:
  assumes "card (hm_used m) < capacity m"
  shows "hm_has_room m"
proof (rule ccontr)
  assume "\<not> hm_has_room m"
  then have "{..<capacity m} \<subseteq> hm_used m" by (auto simp: hm_has_room_def hm_used_def)
  then have "card {..<capacity m} \<le> card (hm_used m)" by (intro card_mono) simp_all
  with assms show False by simp
qed

lemma slot_has_key_iff: "slot_has_key eq key s \<longleftrightarrow> (\<exists>k v. s = Some (k, v) \<and> eq k key)"
  by (auto simp: slot_has_key_def split: option.splits)

lemma hit_Some: "hit eq m key h2 g = Some b \<Longrightarrow> b < 16 \<and> slot_has_key eq key (slots m ! (g * 16 + b))"
  by (auto simp: hit_def find_upt_eq_Some)

lemma hit_None:
  "hit eq m key h2 g = None \<longleftrightarrow>
    (\<forall>b < 16. ctrl m ! (g * 16 + b) = h2 \<longrightarrow> \<not> slot_has_key eq key (slots m ! (g * 16 + b)))"
  by (auto simp: hit_def find_None_iff)

definition put_at :: "('k \<Rightarrow> u64) \<Rightarrow> ('k, 'v) hashmap \<Rightarrow> nat \<Rightarrow> 'k \<Rightarrow> 'v \<Rightarrow> ('k, 'v) hashmap" where
  "put_at h m i k v = (set_ctrl m i (H2 (h k)))\<lparr>slots := (slots m)[i := Some (k, v)]\<rparr>"

lemma put_at_simps [simp]:
  "slots (put_at h m i k v) = (slots m)[i := Some (k, v)]"
  "ctrl (put_at h m i k v) = ctrl (set_ctrl m i (H2 (h k)))"
  "size (put_at h m i k v) = size m" "capacity (put_at h m i k v) = capacity m"
  "growth_left (put_at h m i k v) = growth_left m"
  by (simp_all add: put_at_def)

lemma core_geometry: "hm_core K eq h m \<Longrightarrow> hm_geometry m"
  by (simp add: hm_core_def)

lemma core_slot:
  assumes "hm_core K eq h m" "i < capacity m" "slots m ! i = Some (k, v)"
  shows "k \<in> K" "ctrl m ! i = H2 (h k)" "probed (ctrl m) (capacity m) (h k) i"
  using assms by (auto simp: hm_core_def)

lemma core_unique:
  "hm_core K eq h m \<Longrightarrow> i < capacity m \<Longrightarrow> j < capacity m \<Longrightarrow> slots m ! i = Some (k, v) \<Longrightarrow>
    slots m ! j = Some (k', v') \<Longrightarrow> eq k k' \<Longrightarrow> i = j"
  unfolding hm_core_def by blast

lemma probed_mono:
  assumes "probed cs cap hash i"
    and "\<And>g. has_empty cs' g \<Longrightarrow> (\<exists>j. g = grp cap hash j) \<Longrightarrow> has_empty cs g"
  shows "probed cs' cap hash i"
  using assms unfolding probed_def by metis

lemma has_empty_update:
  assumes "hm_geometry m" "i < capacity m" "c \<noteq> CTRL_EMPTY" "g * 16 + 16 \<le> capacity m"
  shows "has_empty (ctrl (set_ctrl m i c)) g \<Longrightarrow> has_empty (ctrl m) g"
proof -
  assume "has_empty (ctrl (set_ctrl m i c)) g"
  then obtain b where b: "b < 16" "ctrl (set_ctrl m i c) ! (g * 16 + b) = CTRL_EMPTY"
    by (auto simp: has_empty_def)
  have "ctrl m ! (g * 16 + b) = CTRL_EMPTY"
    using b assms nth_set_ctrl [of i m "g * 16 + b" c] length_ctrl [OF assms(1)]
    by (auto split: if_splits)
  with b(1) show "has_empty (ctrl m) g" unfolding has_empty_def by blast
qed

text \<open>Writing a fresh key into a free slot on its probe path.\<close>

lemma core_put_at:
  assumes core: "hm_core K eq h m" and k: "k \<in> K" and i: "i < capacity m" "bit (ctrl m ! i) 7"
    and pr: "probed (ctrl m) (capacity m) (h k) i"
    and fresh: "\<And>j k' v'. j < capacity m \<Longrightarrow> slots m ! j = Some (k', v') \<Longrightarrow> \<not> eq k' k \<and> \<not> eq k k'"
  shows "hm_core K eq h (put_at h m i k v)"
proof -
  let ?m = "put_at h m i k v"
  note geo = core_geometry [OF core]
  have ctrl: "ctrl ?m ! j = (if j = i then H2 (h k) else ctrl m ! j)" if "j < capacity m" for j
    using that i length_ctrl [OF geo] by (simp add: nth_set_ctrl)
  have len: "length (slots m) = capacity m" using geo by (simp add: hm_geometry_def)
  have slot: "slots ?m ! j = (if j = i then Some (k, v) else slots m ! j)" if "j < capacity m" for j
    using that i(1) len by (simp add: nth_list_update)
  have ne: "H2 (h k) \<noteq> CTRL_EMPTY" by (metis CTRL_top(1) H2_top)
  have probed: "probed (ctrl ?m) (capacity m) hash j" if "probed (ctrl m) (capacity m) hash j" for hash j
    using that
  proof (rule probed_mono)
    fix g assume "has_empty (ctrl ?m) g" "\<exists>j. g = grp (capacity m) hash j"
    then show "has_empty (ctrl m) g"
      using has_empty_update [OF geo i(1) ne, of g] grp_bounds(2) [OF geo] by auto
  qed
  have geo': "hm_geometry ?m"
    using geometry_set_ctrl [OF geo i(1), of "H2 (h k)"] len by (simp add: geometry_cong [of ?m])
  show ?thesis
    unfolding hm_core_def
  proof (intro conjI)
    show "\<forall>j < capacity ?m. slots ?m ! j = None \<longleftrightarrow> bit (ctrl ?m ! j) 7"
      using core by (auto simp: slot ctrl hm_core_def simp del: put_at_simps(1,2))
    show "\<forall>j < capacity ?m. bit (ctrl ?m ! j) 7 \<longrightarrow> ctrl ?m ! j = CTRL_EMPTY \<or> ctrl ?m ! j = CTRL_DELETED"
      using core by (auto simp: ctrl hm_core_def simp del: put_at_simps(1,2))
    show "\<forall>j < capacity ?m. \<forall>k' v'. slots ?m ! j = Some (k', v') \<longrightarrow>
        k' \<in> K \<and> ctrl ?m ! j = H2 (h k') \<and> probed (ctrl ?m) (capacity ?m) (h k') j"
      using core_slot [OF core] k pr probed
      by (auto simp: slot ctrl simp del: put_at_simps(1,2))
    show "\<forall>j < capacity ?m. \<forall>l < capacity ?m. \<forall>k1 v1 k2 v2.
        slots ?m ! j = Some (k1, v1) \<longrightarrow> slots ?m ! l = Some (k2, v2) \<longrightarrow> eq k1 k2 \<longrightarrow> j = l"
      using core_unique [OF core] fresh
      by (auto simp: slot simp del: put_at_simps(1,2))
  qed (rule geo')
qed

context hash_keys
begin

lemma find_spec:
  assumes core: "hm_core K eq h m" and room: "hm_has_room m" and k: "k \<in> K"
  obtains (found) i k' v where "i < capacity m" "slots m ! i = Some (k', v)" "eq k' k" "k' \<in> K"
      "hashmap_find eq m k (h k) = Some (int i)"
    | (absent) "key_absent eq m k"
      "hashmap_find eq m k (h k) = Some (-1)"
proof -
  note geo = core_geometry [OF core]
  let ?g = "grp (capacity m) (h k)"
  let ?hit = "\<lambda>j. hit eq m k (H2 (h k)) (?g j)"
  let ?stop = "\<lambda>j. ?hit j \<noteq> None \<or> has_empty (ctrl m) (?g j)"
  obtain j0 where "?stop j0"
    using room grp_of_empty [OF geo, of _ "h k"] by (auto simp: hm_has_room_def)
  then obtain n where n: "?stop n" "\<And>j. j < n \<Longrightarrow> \<not> ?stop j"
    using least_from [of 0 ?stop] by (metis zero_le)
  have find: "hashmap_find eq m k (h k) =
      Some (case ?hit n of Some b \<Rightarrow> int (?g n * 16 + b) | None \<Rightarrow> -1)"
    unfolding hashmap_find_start using n by (intro find_loop_at [OF geo]) auto
  show thesis
  proof (cases "?hit n")
    case (Some b)
    then have b: "b < 16" "slot_has_key eq k (slots m ! (?g n * 16 + b))"
      using hit_Some [of eq m k] by auto
    then obtain k' v where s: "slots m ! (?g n * 16 + b) = Some (k', v)" "eq k' k"
      by (auto simp: slot_has_key_iff)
    have "?g n * 16 + b < capacity m" by (rule grp_bounds(3) [OF geo b(1)])
    then show thesis
      using found s find Some core_slot(1) [OF core] by auto
  next
    case None
    then have e: "has_empty (ctrl m) (?g n)" using n(1) by simp
    have "\<not> eq k' k" if i: "i < capacity m" "slots m ! i = Some (k', v)" for i k' v
    proof
      assume eq: "eq k' k"
      note s = core_slot [OF core i]
      have hash: "h k' = h k" using eq_hash s(1) k eq by blast
      obtain j where j: "?g j = i div 16" "\<And>j'. j' < j \<Longrightarrow> \<not> has_empty (ctrl m) (?g j')"
        using s(3) unfolding hash probed_def by auto
      have "?hit j \<noteq> None"
        unfolding hit_None using s(2) i(2) eq
        by (auto simp: j(1) hash slot_has_key_iff intro!: exI [of _ "i mod 16"])
      then have "\<not> j < n" "j \<noteq> n" using n(2) [of j] None by auto
      then show False using j(2) e by auto
    qed
    then have "key_absent eq m k" by (auto simp: key_absent_def)
    then show thesis using absent find None by auto
  qed
qed

lemma lookup_eq:
  assumes core: "hm_core K eq h m" and k: "k \<in> K"
  shows "hm_lookup eq m k = Some v \<longleftrightarrow> (\<exists>k'. Some (k', v) \<in> set (slots m) \<and> eq k' k)"
proof -
  have len: "length (slots m) = capacity m" using core_geometry [OF core] by (simp add: hm_geometry_def)
  have uniq: "v1 = v2" if e: "Some (k1, v1) \<in> set (slots m)" "eq k1 k" "Some (k2, v2) \<in> set (slots m)" "eq k2 k"
    for k1 v1 k2 v2
  proof -
    obtain i j where ij: "i < capacity m" "slots m ! i = Some (k1, v1)" "j < capacity m" "slots m ! j = Some (k2, v2)"
      using e by (auto simp: in_set_conv_nth len)
    have "eq k1 k2" using core_slot(1) [OF core] ij e k by (meson eq_iff eq_sym)
    with core_unique [OF core] ij have "i = j" by blast
    with ij show ?thesis by simp
  qed
  show ?thesis
  proof (cases "List.find (slot_has_key eq k) (slots m)")
    case None
    then have "\<not> slot_has_key eq k s" if "s \<in> set (slots m)" for s
      using that by (auto simp: find_None_iff)
    then show ?thesis using None by (fastforce simp: hm_lookup_def slot_has_key_iff)
  next
    case (Some s)
    then have "s \<in> set (slots m)" "slot_has_key eq k s"
      by (auto simp: find_Some_iff)
    then obtain k' v' where s: "s = Some (k', v')" "Some (k', v') \<in> set (slots m)" "eq k' k"
      by (auto simp: slot_has_key_iff)
    then show ?thesis using Some uniq by (auto simp: hm_lookup_def slot_value_def)
  qed
qed

lemma entries_put_at:
  assumes "hm_core K eq h m" "i < capacity m" "slots m ! i = None"
  shows "set (slots (put_at h m i k v)) - {None} = insert (Some (k, v)) (set (slots m) - {None})"
proof -
  have i: "i < length (slots m)"
    using assms by (simp add: hm_core_def hm_geometry_def)
  obtain xs ys where sl: "slots m = xs @ None # ys" "length xs = i"
    using id_take_nth_drop [OF i] assms(3) i by (metis length_take min.absorb4)
  then have "(slots m)[i := x] = xs @ x # ys" for x by (simp add: list_update_append)
  then show ?thesis using sl by auto
qed

lemma lookup_entries:
  assumes "hm_core K eq h m" "k \<in> K"
  shows "hm_lookup eq m k = Some v \<longleftrightarrow> (\<exists>k'. Some (k', v) \<in> set (slots m) - {None} \<and> eq k' k)"
  using lookup_eq [OF assms] by simp

lemma lookup_entries_cong:
  assumes "hm_core K eq h m" "hm_core K eq h m'" "k \<in> K" "set (slots m) - {None} = set (slots m') - {None}"
  shows "hm_lookup eq m k = hm_lookup eq m' k"
  using lookup_entries [OF assms(1,3)] lookup_entries [OF assms(2,3)] assms(4)
  by (metis not_Some_eq)

lemma lookup_put_at:
  assumes core: "hm_core K eq h m" and core': "hm_core K eq h (put_at h m i k v)"
    and i: "i < capacity m" "slots m ! i = None" and k: "k \<in> K" "j \<in> K"
    and fresh: "key_absent eq m k"
  shows "hm_lookup eq (put_at h m i k v) j = (if eq k j then Some v else hm_lookup eq m j)"
proof -
  have len: "length (slots m) = capacity m" using core_geometry [OF core] by (simp add: hm_geometry_def)
  have no: "\<not> eq k' j" if e: "Some (k', v') \<in> set (slots m)" "eq k j" for k' v'
  proof -
    obtain l where l: "l < capacity m" "slots m ! l = Some (k', v')"
      using e(1) by (auto simp: in_set_conv_nth len)
    have "k' \<in> K" using core_slot(1) [OF core l] .
    with key_absentD [OF fresh l] k e(2) show ?thesis by (meson eq_iff_right eq_sym)
  qed
  have "hm_lookup eq (put_at h m i k v) j = Some w \<longleftrightarrow>
      (if eq k j then Some v else hm_lookup eq m j) = Some w" for w
    unfolding lookup_entries [OF core' k(2)] entries_put_at [OF core i]
    using no lookup_entries [OF core k(2), of w] by auto
  then show ?thesis by (metis option.exhaust)
qed

lemma new_core:
  assumes "is_pow2 cap" "16 \<le> cap" "cap < 2 ^ 32"
  shows "hm_core K eq h \<lparr>ctrl = replicate (cap + 16) CTRL_EMPTY, slots = replicate cap None,
    size = n, capacity = cap, growth_left = g\<rparr>"
  using assms by (auto simp: hm_core_def hm_geometry_def nth_append)

lemma core_used:
  assumes "hm_core K eq h m"
  shows "hm_full m \<subseteq> hm_used m"
proof
  fix i assume i: "i \<in> hm_full m"
  then obtain k v where s: "i < capacity m" "slots m ! i = Some (k, v)" by (auto simp: hm_full_def)
  then have "ctrl m ! i = H2 (h k)" using core_slot(2) [OF assms] by blast
  then show "i \<in> hm_used m" using s by (auto simp: hm_used_def) (metis CTRL_top(1) H2_top)
qed

lemma full_put_at:
  assumes "hm_geometry m" "i < capacity m"
  shows "hm_full (put_at h m i k v) = insert i (hm_full m)"
    and "hm_used (put_at h m i k v) = insert i (hm_used m)"
proof -
  have ne: "H2 (h k) \<noteq> CTRL_EMPTY" by (metis CTRL_top(1) H2_top)
  have len: "length (slots m) = capacity m" "length (ctrl m) = capacity m + 16"
    using assms by (simp_all add: hm_geometry_def)
  show "hm_full (put_at h m i k v) = insert i (hm_full m)"
    using assms len by (auto simp: hm_full_def nth_list_update)
  show "hm_used (put_at h m i k v) = insert i (hm_used m)"
    using assms len ne by (auto simp: hm_used_def nth_set_ctrl split: if_splits)
qed

text \<open>A fresh key is inserted where the insertion probe leads.\<close>

lemma insert_fresh:
  assumes core: "hm_core K eq h m" and room: "hm_has_room m" and k: "k \<in> K"
    and fresh: "key_absent eq m k"
  obtains i where "hashmap_find_insert_slot m (h k) = Some i" "i < capacity m" "slots m ! i = None"
    "hm_core K eq h (put_at h m i k v)"
proof -
  obtain i0 where i0: "i0 < capacity m" "ctrl m ! i0 = CTRL_EMPTY"
    using room by (auto simp: hm_has_room_def)
  obtain i where i: "i < capacity m" "hashmap_find_insert_slot m (h k) = Some i" "bit (ctrl m ! i) 7"
    "probed (ctrl m) (capacity m) (h k) i"
    using insert_slot_spec [OF core_geometry [OF core] i0] by blast
  have none: "slots m ! i = None" using core i by (simp add: hm_core_def)
  have fresh2: "\<not> eq k' k \<and> \<not> eq k k'" if s: "j < capacity m" "slots m ! j = Some (k', v')" for j k' v'
    using key_absentD [OF fresh s] core_slot(1) [OF core s] k eq_sym by blast
  have "hm_core K eq h (put_at h m i k v)"
    by (rule core_put_at [OF core k i(1,3,4) fresh2])
  with that i none show thesis by blast
qed

lemma inv_core: "hm_inv K eq h m \<Longrightarrow> hm_core K eq h m"
  by (simp add: hm_inv_def)

lemma inv_counts:
  assumes "hm_inv K eq h m"
  shows "card (hm_full m) \<le> card (hm_used m)" "card (hm_used m) \<le> capacity m * 7 div 8"
    "card (hm_used m) < capacity m" "16 \<le> capacity m"
proof -
  have core: "hm_core K eq h m" using assms by (rule inv_core)
  show "card (hm_full m) \<le> card (hm_used m)"
    using core_used [OF core] by (intro card_mono) simp_all
  show u: "card (hm_used m) \<le> capacity m * 7 div 8" using assms by (simp add: hm_inv_def)
  show c: "16 \<le> capacity m" using core_geometry [OF core] by (simp add: hm_geometry_def)
  then have "capacity m * 7 div 8 < capacity m" by presburger
  with u show "card (hm_used m) < capacity m" by simp
qed

lemma inv_room: "hm_inv K eq h m \<Longrightarrow> hm_has_room m"
  by (intro room_of_count inv_counts)

lemma reinsert_step:
  assumes inv: "hm_core K eq h m" and i: "i < capacity m"
    and s: "hm_core K eq h s" "hm_used s = hm_full s"
      "card (hm_full s) = card {j. j < i \<and> slots m ! j \<noteq> None}"
      "set (slots s) - {None} = set (take i (slots m)) - {None}"
    and small: "card (hm_full m) < capacity s"
  shows "\<exists>s'. hashmap_reinsert h (ctrl m) (slots m) i s = Some s' \<and> hm_core K eq h s' \<and>
    capacity s' = capacity s \<and> size s' = size s \<and> growth_left s' = growth_left s \<and>
    hm_used s' = hm_full s' \<and>
    card (hm_full s') = card {j. j < Suc i \<and> slots m ! j \<noteq> None} \<and>
    set (slots s') - {None} = set (take (Suc i) (slots m)) - {None}"
proof -
  have len: "length (slots m) = capacity m" "length (slots s) = capacity s"
    using core_geometry [OF inv] core_geometry [OF s(1)] by (simp_all add: hm_geometry_def)
  have take: "take (Suc i) (slots m) = take i (slots m) @ [slots m ! i]"
    using i len by (simp add: take_Suc_conv_app_nth)
  show ?thesis
  proof (cases "slots m ! i")
    case None
    then have "bit (ctrl m ! i) 7" using inv i by (simp add: hm_core_def)
    moreover have "{j. j < Suc i \<and> slots m ! j \<noteq> None} = {j. j < i \<and> slots m ! j \<noteq> None}"
      using None less_Suc_eq by auto
    ultimately show ?thesis
      using s None by (simp add: hashmap_reinsert_def and_0x80_iff take)
  next
    case (Some kv)
    then obtain k v where kv: "slots m ! i = Some (k, v)" by (cases kv) auto
    note ki = core_slot [OF inv i kv]
    have top: "\<not> bit (ctrl m ! i) 7" using ki(2) by simp
    have "card {j. j < i \<and> slots m ! j \<noteq> None} \<le> card (hm_full m)"
      using i by (intro card_mono) (auto simp: hm_full_def)
    then have room: "hm_has_room s" using small s(2,3) by (intro room_of_count) simp
    have fresh: "key_absent eq s k"
      unfolding key_absent_def
    proof (intro allI impI notI)
      fix j k' v' assume j: "j < capacity s" "slots s ! j = Some (k', v')" and e: "eq k' k"
      have "Some (k', v') \<in> set (slots s) - {None}" using j len by (auto simp: in_set_conv_nth)
      then have "Some (k', v') \<in> set (take i (slots m))" unfolding s(4) by simp
      then obtain l where l: "l < i" "slots m ! l = Some (k', v')"
        using i len by (auto simp: in_set_conv_nth)
      then have "l = i" using core_unique [OF inv _ i l(2) kv e] i by simp
      with l show False by simp
    qed
    obtain t where t: "hashmap_find_insert_slot s (h k) = Some t" "t < capacity s" "slots s ! t = None"
      "hm_core K eq h (put_at h s t k v)"
      by (rule insert_fresh [OF s(1) room ki(1) fresh, where v = v])
    have res: "hashmap_reinsert h (ctrl m) (slots m) i s = Some (put_at h s t k v)"
      using top t(1) by (simp add: hashmap_reinsert_def and_0x80_iff kv put_at_def)
    have "{j. j < Suc i \<and> slots m ! j \<noteq> None} = insert i {j. j < i \<and> slots m ! j \<noteq> None}"
      using kv less_Suc_eq by auto
    then have "card {j. j < Suc i \<and> slots m ! j \<noteq> None} = Suc (card (hm_full s))"
      by (simp add: s(3))
    moreover have "t \<notin> hm_full s" using t(3) by (simp add: hm_full_def)
    ultimately show ?thesis
      using res t full_put_at [OF core_geometry [OF s(1)] t(2)] s entries_put_at [OF s(1) t(2,3)]
      by (simp add: take kv insert_Diff_if)
  qed
qed

lemma resize_spec:
  fixes m :: "('k, 'v) hashmap"
  assumes inv: "hm_inv K eq h m" and new: "is_pow2 n" "capacity m \<le> n" "n \<le> 2 ^ 28"
  shows "\<exists>m'. hashmap_resize h m n = Some m' \<and> hm_inv K eq h m' \<and> capacity m' = n \<and>
    size m' = size m \<and> growth_left m' = n * 7 div 8 - size m \<and>
    set (slots m') - {None} = set (slots m) - {None}"
proof -
  note core = inv_core [OF inv] and cnt = inv_counts [OF inv]
  have len: "length (slots m) = capacity m" using core_geometry [OF core] by (simp add: hm_geometry_def)
  have sz: "size m = card (hm_full m)" using inv by (simp add: hm_inv_def)
  have le: "size m \<le> n * 7 div 8"
    using cnt(1,2) new(2) sz div_le_mono [of "capacity m * 7" "n * 7" 8] by linarith
  have n32: "n < 2 ^ 32" "n * 7 < 2 ^ 32" "n * 7 div 8 < 2 ^ 32" using new(3) by simp_all
  have gl: "sub32 (mul32 n 7 div 8) (size m) = n * 7 div 8 - size m"
    using le n32 by (simp only: mul32_exact sub32_exact)
  define m0 :: "('k, 'v) hashmap" where "m0 = \<lparr>ctrl = replicate (n + GROUP_WIDTH) CTRL_EMPTY,
    slots = replicate n None, size = size m, capacity = n, growth_left = n * 7 div 8 - size m\<rparr>"
  let ?I = "\<lambda>i s. hm_core K eq h s \<and> capacity s = n \<and> size s = size m \<and>
    growth_left s = n * 7 div 8 - size m \<and> hm_used s = hm_full s \<and>
    card (hm_full s) = card {j. j < i \<and> slots m ! j \<noteq> None} \<and>
    set (slots s) - {None} = set (take i (slots m)) - {None}"
  have "?I 0 m0"
    using new_core [OF new(1) _ n32(1)] cnt(4) new(2)
    by (auto simp: m0_def GROUP_WIDTH_def hm_used_def hm_full_def nth_append)
  moreover have "\<exists>s'. hashmap_reinsert h (ctrl m) (slots m) ([0..<capacity m] ! i) s = Some s' \<and> ?I (Suc i) s'"
    if "i < length [0..<capacity m]" "?I i s" for i s
    using reinsert_step [OF core, of i s] that cnt new(2) by simp
  ultimately obtain m' where m': "ofold (hashmap_reinsert h (ctrl m) (slots m)) [0..<capacity m] m0 = Some m'"
    "?I (length [0..<capacity m]) m'"
    using ofold_rule [of ?I m0 "[0..<capacity m]" "hashmap_reinsert h (ctrl m) (slots m)"] by blast
  have "{j. j < length [0..<capacity m] \<and> slots m ! j \<noteq> None} = hm_full m"
    by (simp add: hm_full_def)
  with m'(2) sz have full: "card (hm_full m') = size m" by simp
  have "hashmap_resize h m n = Some m'"
    using m'(1) by (simp add: hashmap_resize_def Let_def gl m0_def)
  moreover have "hm_inv K eq h m'"
    unfolding hm_inv_def using m'(2) new(3) le full by auto
  ultimately show ?thesis
    using m'(2) len by simp
qed

lemma lookup_nth:
  assumes "hm_core K eq h m" "k \<in> K"
  shows "hm_lookup eq m k = Some v \<longleftrightarrow> (\<exists>i < capacity m. \<exists>k'. slots m ! i = Some (k', v) \<and> eq k' k)"
proof -
  have "length (slots m) = capacity m" using core_geometry [OF assms(1)] by (simp add: hm_geometry_def)
  then show ?thesis unfolding lookup_eq [OF assms] in_set_conv_nth by auto
qed

lemma lookup_None:
  assumes "hm_core K eq h m" "k \<in> K"
  shows "hm_lookup eq m k = None \<longleftrightarrow> key_absent eq m k"
  using lookup_nth [OF assms] unfolding key_absent_def by (metis not_None_eq)

lemma core_slots_update:
  assumes core: "hm_core K eq h m" and i: "i < capacity m" "slots m ! i = Some (k, v0)"
  shows "hm_core K eq h (m\<lparr>slots := (slots m)[i := Some (k, v)]\<rparr>)" (is "hm_core K eq h ?m")
proof -
  note geo = core_geometry [OF core]
  have len: "length (slots m) = capacity m" using geo by (simp add: hm_geometry_def)
  have slot: "slots ?m ! j = (if j = i then Some (k, v) else slots m ! j)" if "j < capacity m" for j
    using that i len by (simp add: nth_list_update)
  have key: "\<exists>w. slots m ! j = Some (k', w)" if "j < capacity m" "slots ?m ! j = Some (k', v')" for j k' v'
    using that i slot [OF that(1)] by (cases "j = i") auto
  show ?thesis
    unfolding hm_core_def
  proof (intro conjI)
    show "hm_geometry ?m" using geo by (simp add: hm_geometry_def)
    show "\<forall>j < capacity ?m. slots ?m ! j = None \<longleftrightarrow> bit (ctrl ?m ! j) 7"
      using core i len by (auto simp: hm_core_def nth_list_update)
    show "\<forall>j < capacity ?m. bit (ctrl ?m ! j) 7 \<longrightarrow> ctrl ?m ! j = CTRL_EMPTY \<or> ctrl ?m ! j = CTRL_DELETED"
      using core by (simp add: hm_core_def)
    show "\<forall>j < capacity ?m. \<forall>k' v'. slots ?m ! j = Some (k', v') \<longrightarrow>
        k' \<in> K \<and> ctrl ?m ! j = H2 (h k') \<and> probed (ctrl ?m) (capacity ?m) (h k') j"
      using key core_slot [OF core] by fastforce
    show "\<forall>j < capacity ?m. \<forall>l < capacity ?m. \<forall>k1 v1 k2 v2.
        slots ?m ! j = Some (k1, v1) \<longrightarrow> slots ?m ! l = Some (k2, v2) \<longrightarrow> eq k1 k2 \<longrightarrow> j = l"
      using key core_unique [OF core] by (metis (no_types, lifting) select_convs(4) surjective update_convs(2))
  qed
qed

lemma put_existing:
  fixes m :: "('k, 'v) hashmap" and v :: 'v
  assumes inv: "hm_inv K eq h m" and k: "k \<in> K"
    and i: "i < capacity m" "slots m ! i = Some (k', v0)" "eq k' k"
  defines "m' \<equiv> m\<lparr>slots := (slots m)[i := Some (k', v)]\<rparr>"
  shows "hm_inv K eq h m'" "hm_lookup eq m k = Some v0"
    "j \<in> K \<Longrightarrow> hm_lookup eq m' j = (if eq k j then Some v else hm_lookup eq m j)"
proof -
  note core = inv_core [OF inv]
  have len: "length (slots m) = capacity m" using core_geometry [OF core] by (simp add: hm_geometry_def)
  have core': "hm_core K eq h m'" unfolding m'_def by (rule core_slots_update [OF core i(1,2)])
  have "hm_full m' = hm_full m" "hm_used m' = hm_used m"
    using i len by (auto simp: hm_full_def hm_used_def m'_def nth_list_update)
  then show "hm_inv K eq h m'" using inv core' by (simp add: hm_inv_def m'_def)
  show "hm_lookup eq m k = Some v0" using lookup_nth [OF core k] i by blast
  have k'K: "k' \<in> K" using core_slot(1) [OF core i(1,2)] .
  show "hm_lookup eq m' j = (if eq k j then Some v else hm_lookup eq m j)" if j: "j \<in> K"
  proof -
    have ij: "eq k' j \<longleftrightarrow> eq k j" using eq_iff [OF k'K k j i(3)] .
    have uniq: "l = i" if "l < capacity m" "slots m ! l = Some (q, w)" "eq q j" "eq k' j" for l q w
    proof -
      have "q \<in> K" using core_slot(1) [OF core that(1,2)] .
      then have "eq q k'" using that(3,4) k'K j by (meson eq_trans eq_sym)
      then show ?thesis using core_unique [OF core that(1) i(1) that(2) i(2)] by blast
    qed
    have "hm_lookup eq m' j = Some w \<longleftrightarrow> (if eq k j then Some v else hm_lookup eq m j) = Some w" for w
    proof (cases "eq k j")
      case True
      have "hm_lookup eq m' j = Some v"
        unfolding lookup_nth [OF core' j] using i(1) len True ij by (intro exI [of _ i]) (simp add: m'_def)
      with True show ?thesis by auto
    next
      case False
      have "slots m' ! l = Some (q, w) \<and> eq q j \<longleftrightarrow> slots m ! l = Some (q, w) \<and> eq q j"
        if "l < capacity m" for l q
        using False ij i len that by (cases "l = i") (auto simp: m'_def)
      then have "(\<exists>l < capacity m'. \<exists>q. slots m' ! l = Some (q, w) \<and> eq q j) \<longleftrightarrow>
          (\<exists>l < capacity m. \<exists>q. slots m ! l = Some (q, w) \<and> eq q j)"
        by (auto simp: m'_def)
      with False show ?thesis by (simp add: lookup_nth [OF core' j] lookup_nth [OF core j])
    qed
    then show ?thesis by (metis option.exhaust)
  qed
qed

lemma put_fresh:
  fixes m :: "('k, 'v) hashmap" and v :: 'v
  assumes inv: "hm_inv K eq h m" and k: "k \<in> K" and gl: "growth_left m \<noteq> 0"
    and fresh: "key_absent eq m k"
  obtains i where "hashmap_find_insert_slot m (h k) = Some i"
    "hm_inv K eq h ((put_at h m i k v)\<lparr>size := size m + 1,
       growth_left := (if ctrl m ! i = CTRL_EMPTY then growth_left m - 1 else growth_left m)\<rparr>)"
    "\<And>j. j \<in> K \<Longrightarrow> hm_lookup eq (put_at h m i k v) j = (if eq k j then Some v else hm_lookup eq m j)"
proof -
  note core = inv_core [OF inv]
  obtain i where i: "hashmap_find_insert_slot m (h k) = Some i" "i < capacity m" "slots m ! i = None"
    and core': "hm_core K eq h (put_at h m i k v)"
    using insert_fresh [OF core inv_room [OF inv] k fresh, where v = v] by blast
  let ?m = "(put_at h m i k v)\<lparr>size := size m + 1,
       growth_left := (if ctrl m ! i = CTRL_EMPTY then growth_left m - 1 else growth_left m)\<rparr>"
  note sets = full_put_at [OF core_geometry [OF core] i(2), of k v]
  have full: "hm_full ?m = insert i (hm_full m)" and used: "hm_used ?m = insert i (hm_used m)"
    using sets by (simp_all add: hm_full_def hm_used_def)
  have core'': "hm_core K eq h ?m"
    using core' by (simp add: hm_core_def hm_geometry_def)
  have "i \<notin> hm_full m" "i \<in> hm_used m \<longleftrightarrow> ctrl m ! i \<noteq> CTRL_EMPTY"
    using i by (simp_all add: hm_full_def hm_used_def)
  then have "hm_inv K eq h ?m"
    using inv gl core'' full used by (auto simp: hm_inv_def insert_absorb)
  then show thesis
    using that i(1) lookup_put_at [OF core core' i(2,3) k _ fresh] by blast
qed

lemma put_spec:
  fixes m :: "('k, 'v) hashmap" and v :: 'v
  assumes inv: "hm_inv K eq h m" and k: "k \<in> K" and small: "capacity m \<le> 2 ^ 27"
  shows "\<exists>m'. cell_hashmap_put eq h m k v = Some (hm_lookup eq m k, m') \<and> hm_inv K eq h m' \<and>
    (\<forall>j \<in> K. hm_lookup eq m' j = (if eq k j then Some v else hm_lookup eq m j)) \<and>
    size m' = (if hm_lookup eq m k = None then size m + 1 else size m) \<and>
    (growth_left m \<noteq> 0 \<longrightarrow> capacity m' = capacity m \<and> growth_left m \<le> growth_left m' + 1) \<and>
    (growth_left m = 0 \<longrightarrow> capacity m' = capacity m \<and> growth_left m' = 0 \<and> hm_lookup eq m k \<noteq> None \<or>
      capacity m' = 2 * capacity m \<and> 2 * capacity m * 7 div 8 \<le> growth_left m' + 1 + size m)"
  using inv_core [OF inv] inv_room [OF inv] k
proof (cases rule: find_spec)
  case (found i k' v0)
  note ex = put_existing [OF inv k found(1-3)]
  have "cell_hashmap_put eq h m k v = Some (hm_lookup eq m k, m\<lparr>slots := (slots m)[i := Some (k', v)]\<rparr>)"
    by (simp add: cell_hashmap_put_def found(2,5) ex(2) slot_value_def Let_def)
  with ex show ?thesis by simp
next
  case absent
  note core = inv_core [OF inv]
  have none: "hm_lookup eq m k = None" using absent(1) lookup_None [OF core k] by blast
  obtain m1 where m1: "(if growth_left m = 0 then hashmap_resize h m (mul32 (capacity m) 2) else Some m) = Some m1"
    "hm_inv K eq h m1" "growth_left m1 \<noteq> 0" "size m1 = size m" "set (slots m1) - {None} = set (slots m) - {None}"
    "growth_left m \<noteq> 0 \<Longrightarrow> m1 = m"
    "growth_left m = 0 \<Longrightarrow> capacity m1 = 2 * capacity m \<and> growth_left m1 = 2 * capacity m * 7 div 8 - size m"
  proof (cases "growth_left m = 0")
    case True
    have p2: "is_pow2 (2 * capacity m)"
      using core_geometry [OF core] by (auto simp: hm_geometry_def)
    have "mul32 (capacity m) 2 = 2 * capacity m"
      using small by (simp add: mul32_exact mult.commute)
    moreover have "size m < 2 * capacity m * 7 div 8"
    proof -
      have "size m \<le> capacity m * 7 div 8"
        using inv_counts [OF inv] inv by (simp add: hm_inv_def)
      also have "\<dots> < (capacity m * 7 + 8) div 8" by simp
      also have "\<dots> \<le> 2 * capacity m * 7 div 8"
        using inv_counts(4) [OF inv] by (intro div_le_mono) simp
      finally show ?thesis .
    qed
    ultimately show thesis
      using resize_spec [OF inv p2] small that True by fastforce
  next
    case False
    then show thesis using that inv by simp
  qed
  note core1 = inv_core [OF m1(2)]
  have same: "hm_lookup eq m1 j = hm_lookup eq m j" if "j \<in> K" for j
    using lookup_entries_cong [OF core1 core that m1(5)] .
  have fresh: "key_absent eq m1 k"
    using same [OF k] none lookup_None [OF core1 k] by simp
  obtain i where i: "hashmap_find_insert_slot m1 (h k) = Some i"
    "hm_inv K eq h ((put_at h m1 i k v)\<lparr>size := size m1 + 1,
       growth_left := (if ctrl m1 ! i = CTRL_EMPTY then growth_left m1 - 1 else growth_left m1)\<rparr>)"
    "\<And>j. j \<in> K \<Longrightarrow> hm_lookup eq (put_at h m1 i k v) j = (if eq k j then Some v else hm_lookup eq m1 j)"
    using put_fresh [OF m1(2) k m1(3) fresh, where v = v] by blast
  let ?m = "(put_at h m1 i k v)\<lparr>size := size m1 + 1,
       growth_left := (if ctrl m1 ! i = CTRL_EMPTY then growth_left m1 - 1 else growth_left m1)\<rparr>"
  have "cell_hashmap_put eq h m k v = Some (None, ?m)"
    by (simp add: cell_hashmap_put_def absent(2) m1(1) i(1) put_at_def Let_def)
  moreover have "hm_lookup eq ?m j = hm_lookup eq (put_at h m1 i k v) j" for j
    by (simp add: hm_lookup_def)
  ultimately show ?thesis
    using i(2,3) same none m1(4,6,7) by auto
qed

lemma size_0_lookup:
  assumes "hm_inv K eq h m" "size m = 0" "k \<in> K"
  shows "hm_lookup eq m k = None"
proof -
  have "hm_full m = {}" using assms(1,2) by (simp add: hm_inv_def)
  then show ?thesis
    using lookup_None [OF inv_core [OF assms(1)] assms(3)] by (auto simp: hm_full_def key_absent_def)
qed

lemma get_spec:
  assumes inv: "hm_inv K eq h m" and k: "k \<in> K"
  shows "cell_hashmap_get eq h m k = Some (hm_lookup eq m k)"
proof (cases "size m = 0")
  case True
  then show ?thesis using size_0_lookup [OF inv True k] by (simp add: cell_hashmap_get_def)
next
  case False
  show ?thesis
    using inv_core [OF inv] inv_room [OF inv] k
  proof (cases rule: find_spec)
    case (found i k' v0)
    then have "hm_lookup eq m k = Some v0" using lookup_nth [OF inv_core [OF inv] k] by blast
    then show ?thesis using found False by (simp add: cell_hashmap_get_def slot_value_def)
  next
    case absent
    then have "hm_lookup eq m k = None" using lookup_None [OF inv_core [OF inv] k] by blast
    then show ?thesis using absent False by (simp add: cell_hashmap_get_def)
  qed
qed

lemma has_spec:
  assumes inv: "hm_inv K eq h m" and k: "k \<in> K"
  shows "cell_hashmap_has eq h m k = Some (hm_lookup eq m k \<noteq> None)"
proof (cases "size m = 0")
  case True
  then show ?thesis using size_0_lookup [OF inv True k] by (simp add: cell_hashmap_has_def)
next
  case False
  show ?thesis
    using inv_core [OF inv] inv_room [OF inv] k
  proof (cases rule: find_spec)
    case (found i k' v0)
    then have "hm_lookup eq m k = Some v0" using lookup_nth [OF inv_core [OF inv] k] by blast
    then show ?thesis using found False by (simp add: cell_hashmap_has_def)
  next
    case absent
    then have "hm_lookup eq m k = None" using lookup_None [OF inv_core [OF inv] k] by blast
    then show ?thesis using absent False by (simp add: cell_hashmap_has_def)
  qed
qed

subsection \<open>Deletion\<close>

text \<open>
  The code marks a deleted slot empty when the group \<^emph>\<open>after\<close> it has an empty slot. That is sound
  when the slot's own group has one (no probe passes it), or when the next group has none
  (the slot becomes a tombstone).
\<close>

end

definition delete_safe :: "('k, 'v) hashmap \<Rightarrow> nat \<Rightarrow> bool" where
  "delete_safe m i \<longleftrightarrow>
     has_empty (ctrl m) (i div 16) \<or> \<not> has_empty (ctrl m) ((i div 16 + 1) mod (capacity m div 16))"

definition remove_at :: "('k, 'v) hashmap \<Rightarrow> nat \<Rightarrow> u8 \<Rightarrow> ('k, 'v) hashmap" where
  "remove_at m i c = (set_ctrl m i c)\<lparr>slots := (slots m)[i := None]\<rparr>"

lemma remove_at_simps [simp]:
  "slots (remove_at m i c) = (slots m)[i := None]"
  "ctrl (remove_at m i c) = ctrl (set_ctrl m i c)"
  "size (remove_at m i c) = size m" "capacity (remove_at m i c) = capacity m"
  "growth_left (remove_at m i c) = growth_left m"
  by (simp_all add: remove_at_def)

lemma next_group:
  assumes "hm_geometry m" "i < capacity m"
  shows "unat (of_nat (i div GROUP_WIDTH + 1) AND group_mask_of (capacity m)) =
    (i div 16 + 1) mod (capacity m div 16)"
proof -
  have "capacity m < 2 ^ 32" "16 \<le> capacity m" using assms by (auto simp: hm_geometry_def)
  then have "i div 16 + 1 < 2 ^ 32" using assms(2) by linarith
  then have "unat (of_nat (i div 16 + 1) :: u32) = i div 16 + 1"
    by (rule unat_of_nat_u32)
  then show ?thesis
    using probe_group [OF groups(1,3) [OF assms(1)], of "of_nat (i div 16 + 1)" 0]
    by (simp add: group_mask_of_def GROUP_WIDTH_def)
qed

lemma has_empty_remove:
  assumes geo: "hm_geometry m" and i: "i < capacity m" and g: "g * 16 + 16 \<le> capacity m"
    and c: "c = CTRL_EMPTY \<and> has_empty (ctrl m) (i div 16) \<or> c = CTRL_DELETED"
    and e: "has_empty (ctrl (set_ctrl m i c)) g"
  shows "has_empty (ctrl m) g"
proof -
  from e obtain b where b: "b < 16" "ctrl (set_ctrl m i c) ! (g * 16 + b) = CTRL_EMPTY"
    by (auto simp: has_empty_def)
  have "ctrl (set_ctrl m i c) ! (g * 16 + b) = (if g * 16 + b = i then c else ctrl m ! (g * 16 + b))"
    using b(1) g length_ctrl [OF geo] i by (intro nth_set_ctrl) auto
  then consider "g * 16 + b = i" "c = CTRL_EMPTY" | "ctrl m ! (g * 16 + b) = CTRL_EMPTY"
    using b(2) by (auto split: if_splits)
  then show ?thesis
  proof cases
    case 1
    then have "i div 16 = g" using b(1) by auto
    with 1 c show ?thesis by simp
  next
    case 2
    with b(1) show ?thesis unfolding has_empty_def by blast
  qed
qed

lemma core_remove_at:
  assumes core: "hm_core K eq h m" and i: "i < capacity m" "slots m ! i = Some (k, v)"
    and c: "c = CTRL_EMPTY \<and> has_empty (ctrl m) (i div 16) \<or> c = CTRL_DELETED"
  shows "hm_core K eq h (remove_at m i c)"
proof -
  let ?m = "remove_at m i c"
  note geo = core_geometry [OF core]
  have len: "length (slots m) = capacity m" using geo by (simp add: hm_geometry_def)
  have ctrl: "ctrl ?m ! j = (if j = i then c else ctrl m ! j)" if "j < capacity m" for j
    using that i length_ctrl [OF geo] by (simp add: nth_set_ctrl)
  have slot: "slots ?m ! j = (if j = i then None else slots m ! j)" if "j < capacity m" for j
    using that i(1) len by (simp add: nth_list_update)
  have c': "bit c 7" "c = CTRL_EMPTY \<or> c = CTRL_DELETED" using c by auto
  have probed: "probed (ctrl ?m) (capacity m) hash j" if "probed (ctrl m) (capacity m) hash j" for hash j
    using that
  proof (rule probed_mono)
    fix g assume "has_empty (ctrl ?m) g" "\<exists>j. g = grp (capacity m) hash j"
    then show "has_empty (ctrl m) g"
      using has_empty_remove [OF geo i(1) _ c, of g] grp_bounds(2) [OF geo] by auto
  qed
  have geo': "hm_geometry ?m"
    using geometry_set_ctrl [OF geo i(1), of c] len by (simp add: geometry_cong [of ?m])
  show ?thesis
    unfolding hm_core_def
  proof (intro conjI)
    show "\<forall>j < capacity ?m. slots ?m ! j = None \<longleftrightarrow> bit (ctrl ?m ! j) 7"
      using core c' by (auto simp: slot ctrl hm_core_def simp del: remove_at_simps(1,2))
    show "\<forall>j < capacity ?m. bit (ctrl ?m ! j) 7 \<longrightarrow> ctrl ?m ! j = CTRL_EMPTY \<or> ctrl ?m ! j = CTRL_DELETED"
      using core c' by (auto simp: ctrl hm_core_def simp del: remove_at_simps(1,2))
    show "\<forall>j < capacity ?m. \<forall>k' v'. slots ?m ! j = Some (k', v') \<longrightarrow>
        k' \<in> K \<and> ctrl ?m ! j = H2 (h k') \<and> probed (ctrl ?m) (capacity ?m) (h k') j"
      using core_slot [OF core] probed
      by (auto simp: slot ctrl simp del: remove_at_simps(1,2))
    show "\<forall>j < capacity ?m. \<forall>l < capacity ?m. \<forall>k1 v1 k2 v2.
        slots ?m ! j = Some (k1, v1) \<longrightarrow> slots ?m ! l = Some (k2, v2) \<longrightarrow> eq k1 k2 \<longrightarrow> j = l"
      using core_unique [OF core]
      by (auto simp: slot simp del: remove_at_simps(1,2))
  qed (rule geo')
qed

lemma full_remove_at:
  assumes "hm_geometry m" "i < capacity m"
  shows "hm_full (remove_at m i c) = hm_full m - {i}"
    and "hm_used (remove_at m i c) = (if c = CTRL_EMPTY then hm_used m - {i} else insert i (hm_used m))"
proof -
  have len: "length (slots m) = capacity m" "length (ctrl m) = capacity m + 16"
    using assms by (simp_all add: hm_geometry_def)
  show "hm_full (remove_at m i c) = hm_full m - {i}"
    using assms len by (auto simp: hm_full_def nth_list_update)
  show "hm_used (remove_at m i c) = (if c = CTRL_EMPTY then hm_used m - {i} else insert i (hm_used m))"
    using assms len by (auto simp: hm_used_def nth_set_ctrl split: if_splits)
qed

context hash_keys
begin

lemma lookup_remove_at:
  assumes core: "hm_core K eq h m" and core': "hm_core K eq h (remove_at m i c)"
    and i: "i < capacity m" "slots m ! i = Some (k', v)" "eq k' k" and k: "k \<in> K" "j \<in> K"
  shows "hm_lookup eq (remove_at m i c) j = (if eq k j then None else hm_lookup eq m j)"
proof -
  have len: "length (slots m) = capacity m" using core_geometry [OF core] by (simp add: hm_geometry_def)
  have k'K: "k' \<in> K" using core_slot(1) [OF core i(1,2)] .
  have ij: "eq k' j \<longleftrightarrow> eq k j" using eq_iff [OF k'K k(1,2) i(3)] .
  have uniq: "l = i" if "l < capacity m" "slots m ! l = Some (q, w)" "eq q j" "eq k j" for l q w
  proof -
    have "q \<in> K" using core_slot(1) [OF core that(1,2)] .
    then have "eq q k'" using that(3,4) k'K k ij by (meson eq_trans eq_sym)
    then show ?thesis using core_unique [OF core that(1) i(1) that(2) i(2)] by blast
  qed
  have nth: "slots (remove_at m i c) ! l = (if l = i then None else slots m ! l)" if "l < capacity m" for l
    using that len by (simp add: nth_list_update)
  have "hm_lookup eq (remove_at m i c) j = Some w \<longleftrightarrow>
      (if eq k j then None else hm_lookup eq m j) = Some w" for w
  proof (cases "eq k j")
    case True
    then show ?thesis
      using uniq unfolding lookup_nth [OF core' k(2)] by (auto simp: nth simp del: remove_at_simps(1))
  next
    case False
    then have "slots (remove_at m i c) ! l = Some (q, w) \<and> eq q j \<longleftrightarrow> slots m ! l = Some (q, w) \<and> eq q j"
      if "l < capacity m" for l q
      unfolding nth [OF that] using i ij by auto
    with False show ?thesis
      unfolding lookup_nth [OF core' k(2)] lookup_nth [OF core k(2)] remove_at_simps(4)
      by (metis lookup_nth [OF core k(2)])
  qed
  then show ?thesis by (metis option.exhaust)
qed

end

lemma delete_result:
  assumes geo: "hm_geometry m" and find: "hashmap_find eq m k (h k) = Some (int i)"
    and i: "i < capacity m" "slots m ! i = Some (k', v)"
  defines "c \<equiv> (if has_empty (ctrl m) ((i div 16 + 1) mod (capacity m div 16)) then CTRL_EMPTY else CTRL_DELETED)"
  shows "cell_hashmap_delete eq h m k = Some (Some v, (remove_at m i c)\<lparr>size := size m - 1,
    growth_left := (if c = CTRL_EMPTY then growth_left m + 1 else growth_left m)\<rparr>)"
proof -
  let ?ng = "(i div 16 + 1) mod (capacity m div 16)"
  have nxt: "?ng * 16 + 16 \<le> capacity m"
  proof -
    have "?ng < capacity m div 16" using groups(2) [OF geo] by simp
    then have "Suc ?ng * 16 \<le> capacity m div 16 * 16" by (intro mult_le_mono1) simp
    then show ?thesis using groups(4) [OF geo] by simp
  qed
  show ?thesis
    using match_empty_iff [OF geo nxt] next_group [OF geo i(1)] i(2)
    by (simp add: cell_hashmap_delete_def find Let_def slot_value_def c_def remove_at_def
        GROUP_WIDTH_def set_ctrl_def)
qed

context hash_keys
begin

lemma delete_spec:
  assumes inv: "hm_inv K eq h m" and k: "k \<in> K"
    and safe: "\<And>i. hashmap_find eq m k (h k) = Some (int i) \<Longrightarrow> delete_safe m i"
  shows "\<exists>m'. cell_hashmap_delete eq h m k = Some (hm_lookup eq m k, m') \<and> hm_inv K eq h m' \<and>
    (\<forall>j \<in> K. hm_lookup eq m' j = (if eq k j then None else hm_lookup eq m j)) \<and>
    size m' = (if hm_lookup eq m k = None then size m else size m - 1)"
  using inv_core [OF inv] inv_room [OF inv] k
proof (cases rule: find_spec)
  case absent
  note core = inv_core [OF inv]
  have none: "hm_lookup eq m k = None" using absent(1) lookup_None [OF core k] by blast
  have "hm_lookup eq m j = None" if "eq k j" "j \<in> K" for j
    using none that k unfolding lookup_None [OF core that(2)] lookup_None [OF core k] key_absent_def
    by (meson core_slot(1) [OF core] eq_sym eq_trans)
  with none absent(2) inv show ?thesis by (simp add: cell_hashmap_delete_def)
next
  case (found i k' v)
  note core = inv_core [OF inv]
  note geo = core_geometry [OF core]
  have look: "hm_lookup eq m k = Some v" using found lookup_nth [OF core k] by blast
  define c where "c = (if has_empty (ctrl m) ((i div 16 + 1) mod (capacity m div 16))
    then CTRL_EMPTY else CTRL_DELETED)"
  define m' where "m' = (remove_at m i c)\<lparr>size := size m - 1,
    growth_left := (if c = CTRL_EMPTY then growth_left m + 1 else growth_left m)\<rparr>"
  have del: "cell_hashmap_delete eq h m k = Some (Some v, m')"
    unfolding m'_def c_def by (rule delete_result [where h = h, OF geo found(5,1,2)])
  have c: "c = CTRL_EMPTY \<and> has_empty (ctrl m) (i div 16) \<or> c = CTRL_DELETED"
    using safe [OF found(5)] by (auto simp: c_def delete_safe_def)
  note core_r = core_remove_at [OF core found(1,2) c]
  note sets = full_remove_at [OF geo found(1), of c]
  have "hm_core K eq h m'" using core_r by (simp add: hm_core_def hm_geometry_def m'_def)
  moreover have "hm_full m' = hm_full m - {i}" using sets by (simp add: hm_full_def m'_def)
  moreover have "hm_used m' = (if c = CTRL_EMPTY then hm_used m - {i} else insert i (hm_used m))"
    using sets by (auto simp: hm_used_def m'_def)
  moreover have "i \<in> hm_full m" "i \<in> hm_used m"
    using found(1,2) core_used [OF core] by (auto simp: hm_full_def)
  moreover have "card (hm_used m) = Suc (card (hm_used m - {i}))"
    using \<open>i \<in> hm_used m\<close> by (intro card.remove) simp_all
  ultimately have "hm_inv K eq h m'"
    using inv by (auto simp: hm_inv_def m'_def insert_absorb)
  moreover have "hm_lookup eq m' j = hm_lookup eq (remove_at m i c) j" for j
    by (simp add: hm_lookup_def m'_def)
  ultimately show ?thesis
    using del look lookup_remove_at [OF core core_r found(1-3) k] by (simp add: m'_def)
qed

lemma round_up_16: "round_up_pow2 (Suc 0) 16 = 16"
  by code_simp

lemma find_replicate_None: "List.find (slot_has_key eq k) (replicate n None) = None"
  by (induction n) (simp_all add: slot_has_key_def)

lemma new_inv:
  assumes "n \<le> 2 ^ 28"
  shows "hm_inv K eq h (cell_hashmap_new n)" "hm_lookup eq (cell_hashmap_new n) k = None"
    "n \<le> capacity (cell_hashmap_new n)" "growth_left (cell_hashmap_new n) = capacity (cell_hashmap_new n) * 7 div 8"
    "size (cell_hashmap_new n) = 0" "capacity (cell_hashmap_new n) \<le> 2 * max 16 n"
    "16 \<le> capacity (cell_hashmap_new n)"
proof -
  define want where "want = max GROUP_WIDTH n"
  define cap where "cap = round_up_pow2 1 want"
  have new: "cell_hashmap_new n = \<lparr>ctrl = replicate (cap + 16) CTRL_EMPTY, slots = replicate cap None,
      size = 0, capacity = cap, growth_left = mul32 cap 7 div 8\<rparr>"
    by (auto simp: cell_hashmap_new_def Let_def cap_def want_def max_def GROUP_WIDTH_def)
  have want: "16 \<le> want" "n \<le> want" "want \<le> 2 ^ 28"
    using assms by (auto simp: want_def GROUP_WIDTH_def)
  have ge: "want \<le> cap" using round_up_pow2_ge [of 1 want] by (simp add: cap_def)
  have p2: "is_pow2 cap" unfolding cap_def by (rule round_up_pow2_is_pow2) simp
  have le: "cap \<le> 2 ^ 28"
  proof -
    obtain k where k: "cap = 2 ^ k" using p2 by (auto simp: is_pow2_def)
    have "cap < 2 * want" using round_up_pow2_tight [of 1 want] want(1) by (simp add: cap_def)
    also have "\<dots> \<le> 2 ^ 29" using want(3) by simp
    finally have "k < 29" unfolding k by (rule power_less_imp_less_exp [rotated]) simp
    then show ?thesis unfolding k by (intro power_increasing) simp_all
  qed
  then have m: "mul32 cap 7 = cap * 7" by (simp add: mul32_exact)
  have used: "hm_used (cell_hashmap_new n) = {}" "hm_full (cell_hashmap_new n) = {}"
    by (auto simp: hm_used_def hm_full_def new nth_append)
  have "hm_core K eq h (cell_hashmap_new n)"
    unfolding new using p2 ge want(1) le by (intro new_core) simp_all
  then show "hm_inv K eq h (cell_hashmap_new n)"
    using le used unfolding hm_inv_def by (simp add: new m)
  show "hm_lookup eq (cell_hashmap_new n) k = None"
    by (simp add: hm_lookup_def new find_replicate_None)
  show "capacity (cell_hashmap_new n) \<le> 2 * max 16 n"
    using round_up_pow2_tight [of 1 want] want(1)
    unfolding want_def GROUP_WIDTH_def by (simp add: new cap_def want_def GROUP_WIDTH_def)
  show "n \<le> capacity (cell_hashmap_new n)" "growth_left (cell_hashmap_new n) = capacity (cell_hashmap_new n) * 7 div 8"
    "size (cell_hashmap_new n) = 0" "16 \<le> capacity (cell_hashmap_new n)"
    using want ge by (simp_all add: new m)
qed

subsection \<open>Listings\<close>

lemma fold_Cons_rev: "fold (\<lambda>s r. f s # r) xs acc = rev (map f xs) @ acc"
  by (induction xs arbitrary: acc) auto

lemma full_slots_filter:
  assumes "hm_core K eq h m"
  shows "full_slots m = filter (\<lambda>s. s \<noteq> None) (slots m)"
proof -
  have len: "length (slots m) = capacity m" using core_geometry [OF assms] by (simp add: hm_geometry_def)
  have "filter (\<lambda>i. ctrl m ! i AND 0x80 = 0) [0..<capacity m] = filter (\<lambda>i. slots m ! i \<noteq> None) [0..<capacity m]"
    using assms by (intro filter_cong) (auto simp: hm_core_def and_0x80_iff)
  moreover have "filter (\<lambda>s. s \<noteq> None) (map ((!) (slots m)) [0..<length (slots m)]) =
      map ((!) (slots m)) (filter (\<lambda>i. slots m ! i \<noteq> None) [0..<length (slots m)])"
    by (simp only: filter_map comp_def)
  moreover have "map ((!) (slots m)) [0..<length (slots m)] = slots m" by (rule map_nth)
  ultimately show ?thesis unfolding full_slots_def len by metis
qed

lemma entries_spec:
  assumes inv: "hm_inv K eq h m"
  shows "set (cell_hashmap_entries m) = {Some (k, v) | k v. Some (k, v) \<in> set (slots m)}"
    and "length (cell_hashmap_entries m) = size m"
    and "cell_hashmap_keys m = map (map_option fst) (cell_hashmap_entries m)"
    and "cell_hashmap_values m = map (map_option snd) (cell_hashmap_entries m)"
proof -
  note core = inv_core [OF inv]
  have e: "cell_hashmap_entries m = rev (filter (\<lambda>s. s \<noteq> None) (slots m))"
    by (simp add: cell_hashmap_entries_def fold_Cons_rev [of "\<lambda>s. s"] full_slots_filter [OF core])
  then show "set (cell_hashmap_entries m) = {Some (k, v) | k v. Some (k, v) \<in> set (slots m)}" by auto
  have "length (slots m) = capacity m" using core_geometry [OF core] by (simp add: hm_geometry_def)
  then show "length (cell_hashmap_entries m) = size m"
    using inv by (simp add: e length_filter_conv_card hm_inv_def hm_full_def)
  show "cell_hashmap_keys m = map (map_option fst) (cell_hashmap_entries m)"
    "cell_hashmap_values m = map (map_option snd) (cell_hashmap_entries m)"
    by (simp_all add: cell_hashmap_keys_def cell_hashmap_values_def fold_Cons_rev e slot_value_def
        full_slots_filter [OF core] rev_map)
qed

subsection \<open>Merging\<close>

text \<open>What the first \<open>i\<close> slots of the source hold for a key.\<close>

definition lookup_upto :: "('k, 'v) hashmap \<Rightarrow> nat \<Rightarrow> 'k \<Rightarrow> 'v option" where
  "lookup_upto m i j = Option.bind (List.find (slot_has_key eq j) (take i (slots m))) slot_value"

lemma lookup_upto_Suc:
  assumes core: "hm_core K eq h m" and i: "i < capacity m" and j: "j \<in> K"
  shows "lookup_upto m (Suc i) j =
    (case slots m ! i of Some (k, v) \<Rightarrow> if eq k j then Some v else lookup_upto m i j | None \<Rightarrow> lookup_upto m i j)"
proof -
  have len: "length (slots m) = capacity m" using core_geometry [OF core] by (simp add: hm_geometry_def)
  have take: "take (Suc i) (slots m) = take i (slots m) @ [slots m ! i]"
    using i len by (simp add: take_Suc_conv_app_nth)
  have uniq: "List.find (slot_has_key eq j) (take i (slots m)) = None"
    if s: "slots m ! i = Some (k, v)" "eq k j" for k v
  proof -
    have "\<not> slot_has_key eq j s" if "s \<in> set (take i (slots m))" for s
    proof
      assume "slot_has_key eq j s"
      with that obtain l q w where l: "l < i" "slots m ! l = Some (q, w)" "eq q j"
        using i len by (auto simp: slot_has_key_iff in_set_conv_nth)
      have lc: "l < capacity m" using l(1) i by simp
      have "eq q k"
        using l(3) s(2) core_slot(1) [OF core lc l(2)] core_slot(1) [OF core i s(1)] j
        by (meson eq_trans eq_sym)
      then have "l = i" using core_unique [OF core lc i l(2) s(1)] by blast
      with l show False by simp
    qed
    then show ?thesis by (auto simp: find_None_iff)
  qed
  show ?thesis
  proof (cases "slots m ! i")
    case None
    then show ?thesis by (auto simp: lookup_upto_def take find_append slot_has_key_def split: option.splits)
  next
    case (Some kv)
    then obtain k v where kv: "slots m ! i = Some (k, v)" by (cases kv) auto
    show ?thesis
    proof (cases "eq k j")
      case True
      show ?thesis
        using uniq [OF kv True] True by (simp add: lookup_upto_def take find_append kv slot_has_key_def slot_value_def)
    next
      case False
      then show ?thesis
        by (auto simp: lookup_upto_def take find_append kv slot_has_key_def split: option.splits)
    qed
  qed
qed

end

text \<open>
  A map that takes \<open>n\<close> more keys while its capacity stays within \<open>2 ^ 27\<close>: a doubling of capacity
  \<open>c\<close> makes room for at least seven eighths of \<open>c\<close> more keys, so there is room for those that are
  left now and seven eighths of what the capacity can still grow by.
\<close>

definition hm_room :: "('k, 'v) hashmap \<Rightarrow> nat \<Rightarrow> bool" where
  "hm_room m n \<longleftrightarrow> capacity m \<le> 2 ^ 27 \<and> n \<le> growth_left m + (2 ^ 27 - capacity m) * 7 div 8"

lemma pow2_below_27:
  assumes "is_pow2 c" "16 \<le> c" "c < 2 ^ 27"
  obtains q where "c = 8 * q" "2 * c \<le> 2 ^ 27"
proof -
  from assms(1) obtain e where c: "c = 2 ^ e" by (auto simp: is_pow2_def)
  have e: "4 \<le> e" "e < 27"
    using assms(2,3) power_increasing_iff [of "2 :: nat" 4 e] power_strict_increasing_iff [of "2 :: nat" e 27] by (simp_all add: c)
  have "c = 2 ^ 3 * 2 ^ (e - 3)" unfolding c power_add [symmetric] using e(1) by simp
  then have "c = 8 * 2 ^ (e - 3)" by simp
  moreover have "2 * c \<le> 2 ^ 27"
    using e power_increasing [of "Suc e" 27 "2 :: nat"] by (simp add: c)
  ultimately show thesis by (rule that)
qed

context hash_keys
begin

lemma room_put:
  assumes inv: "hm_inv K eq h r" and room: "hm_room r (Suc n)"
    and put: "growth_left r \<noteq> 0 \<longrightarrow> capacity r' = capacity r \<and> growth_left r \<le> growth_left r' + 1"
      "growth_left r = 0 \<longrightarrow> capacity r' = capacity r \<and> growth_left r' = 0 \<and> x \<or>
        capacity r' = 2 * capacity r \<and> 2 * capacity r * 7 div 8 \<le> growth_left r' + 1 + size r"
  shows "hm_room r' n"
proof (cases "growth_left r = 0 \<and> capacity r' \<noteq> capacity r")
  case False
  with put room show ?thesis by (auto simp: hm_room_def)
next
  case True
  with put(2) have grow: "growth_left r = 0" "capacity r' = 2 * capacity r"
    "2 * capacity r * 7 div 8 \<le> growth_left r' + 1 + size r" by auto
  from room grow(1) have small: "capacity r < 2 ^ 27" "Suc n \<le> (2 ^ 27 - capacity r) * 7 div 8"
    by (auto simp: hm_room_def less_le)
  have "is_pow2 (capacity r)" "16 \<le> capacity r"
    using core_geometry [OF inv_core [OF inv]] by (auto simp: hm_geometry_def)
  then obtain q where q: "capacity r = 8 * q" "2 * capacity r \<le> 2 ^ 27" using small(1) by (rule pow2_below_27)
  have "size r \<le> capacity r * 7 div 8" using inv_counts(1,2) [OF inv] inv by (simp add: hm_inv_def)
  then have "7 * q \<le> growth_left r' + 1" using grow(3) by (simp add: q(1))
  then show ?thesis using small q by (simp add: hm_room_def grow(2))
qed

text \<open>One copying loop: the source overrides what the destination held.\<close>

lemma merge_loop:
  fixes src dst :: "('k, 'v) hashmap"
  assumes src: "hm_inv K eq h src" and dst: "hm_inv K eq h dst"
    and room: "hm_room dst (size src + extra)"
  shows "\<exists>r. ofold (merge_put eq h src) [0..<capacity src] dst = Some r \<and> hm_inv K eq h r \<and>
    hm_room r extra \<and>
    (\<forall>j \<in> K. hm_lookup eq r j =
      (case hm_lookup eq src j of Some v \<Rightarrow> Some v | None \<Rightarrow> hm_lookup eq dst j))"
proof -
  note core = inv_core [OF src]
  have len: "length (slots src) = capacity src" using core_geometry [OF core] by (simp add: hm_geometry_def)
  let ?n = "\<lambda>i. card {l. l < i \<and> slots src ! l \<noteq> None}"
  let ?I = "\<lambda>i r. hm_inv K eq h r \<and> hm_room r (size src - ?n i + extra) \<and>
    (\<forall>j \<in> K. hm_lookup eq r j = (case lookup_upto src i j of Some v \<Rightarrow> Some v | None \<Rightarrow> hm_lookup eq dst j))"
  have n: "?n (capacity src) = size src" using src by (simp add: hm_inv_def hm_full_def)
  have n_Suc: "?n (Suc i) = (if slots src ! i = None then ?n i else Suc (?n i))" for i
  proof -
    have "{l. l < Suc i \<and> slots src ! l \<noteq> None} =
        (if slots src ! i = None then {l. l < i \<and> slots src ! l \<noteq> None}
         else insert i {l. l < i \<and> slots src ! l \<noteq> None})"
      using less_Suc_eq by auto
    then show ?thesis by simp
  qed
  have n_le: "?n (Suc i) \<le> size src" if "i < capacity src" for i
    unfolding n [symmetric] using that by (intro card_mono) auto
  have "\<exists>r'. merge_put eq h src ([0..<capacity src] ! i) r = Some r' \<and> ?I (Suc i) r'"
    if i: "i < length [0..<capacity src]" and I: "?I i r" for i r
  proof (cases "slots src ! i")
    case None
    then have "bit (ctrl src ! i) 7" using core i by (simp add: hm_core_def)
    with None i I lookup_upto_Suc [OF core, of i] n_Suc [of i] show ?thesis
      by (simp add: merge_put_def and_0x80_iff)
  next
    case (Some kv)
    then obtain k v where kv: "slots src ! i = Some (k, v)" by (cases kv) auto
    have ic: "i < capacity src" using i by simp
    have top: "\<not> bit (ctrl src ! i) 7" using core_slot(2) [OF core ic kv] by simp
    have k: "k \<in> K" using core_slot(1) [OF core ic kv] .
    have "size src - ?n i + extra = Suc (size src - ?n (Suc i) + extra)"
      using n_Suc [of i] n_le [OF ic] kv by simp
    then have room_r: "hm_room r (Suc (size src - ?n (Suc i) + extra))" using I by metis
    then have cap27: "capacity r \<le> 2 ^ 27" by (simp add: hm_room_def)
    obtain r' where r': "cell_hashmap_put eq h r k v = Some (hm_lookup eq r k, r')" "hm_inv K eq h r'"
      "\<forall>j \<in> K. hm_lookup eq r' j = (if eq k j then Some v else hm_lookup eq r j)"
      and grow: "growth_left r \<noteq> 0 \<longrightarrow> capacity r' = capacity r \<and> growth_left r \<le> growth_left r' + 1"
      "growth_left r = 0 \<longrightarrow> capacity r' = capacity r \<and> growth_left r' = 0 \<and> hm_lookup eq r k \<noteq> None \<or>
        capacity r' = 2 * capacity r \<and> 2 * capacity r * 7 div 8 \<le> growth_left r' + 1 + size r"
    proof -
      from put_spec [OF conjunct1 [OF I] k cap27, of v] show thesis
        by (elim exE conjE) (rule that; assumption)
    qed
    have "hm_room r' (size src - ?n (Suc i) + extra)"
      using room_put [OF _ room_r grow] I by blast
    then have "?I (Suc i) r'"
      using r'(2,3) I kv lookup_upto_Suc [OF core ic] by auto
    moreover have "merge_put eq h src ([0..<capacity src] ! i) r = Some r'"
      using top ic r'(1) by (simp add: merge_put_def and_0x80_iff kv)
    ultimately show ?thesis by blast
  qed
  moreover have "?I 0 dst" using dst room by (simp add: lookup_upto_def)
  ultimately obtain r where r: "ofold (merge_put eq h src) [0..<capacity src] dst = Some r"
    "?I (length [0..<capacity src]) r"
    using ofold_rule [of ?I dst "[0..<capacity src]" "merge_put eq h src"] by blast
  moreover have "lookup_upto src (capacity src) j = hm_lookup eq src j" for j
    by (simp add: lookup_upto_def hm_lookup_def len)
  ultimately show ?thesis using n by auto
qed

lemma merge_spec:
  fixes m1 m2 :: "('k, 'v) hashmap"
  assumes m1: "hm_inv K eq h m1" and m2: "hm_inv K eq h m2" and small: "size m1 + size m2 \<le> 2 ^ 25"
  shows "\<exists>r. cell_hashmap_merge eq h m1 m2 = Some r \<and> hm_inv K eq h r \<and>
    (\<forall>j \<in> K. hm_lookup eq r j =
      (case hm_lookup eq m2 j of Some v \<Rightarrow> Some v | None \<Rightarrow> hm_lookup eq m1 j))"
proof -
  define est where "est = size m1 + size m2"
  define n where "n = (if est < GROUP_WIDTH then GROUP_WIDTH else mul32 est 2)"
  define d :: "('k, 'v) hashmap" where "d = cell_hashmap_new n"
  have n: "n = max 16 (2 * est) \<or> n = 16 \<and> est < 16"
    using small by (auto simp: n_def est_def GROUP_WIDTH_def mul32_exact max_def)
  have n28: "n \<le> 2 ^ 26" using n small unfolding est_def by auto
  then have n28': "n \<le> 2 ^ 28" by simp
  have new: "hm_inv K eq h d" "\<And>k. hm_lookup eq d k = None" "n \<le> capacity d"
    "growth_left d = capacity d * 7 div 8" "capacity d \<le> 2 * max 16 n" "16 \<le> capacity d"
    unfolding d_def using new_inv [OF n28'] by blast+
  have cap: "capacity d \<le> 2 ^ 27" using new(5) n28 by simp
  have room: "hm_room d (size m1 + size m2)"
  proof (cases "est < 16")
    case True
    then show ?thesis
    proof -
      have "n = 16" using True by (simp add: n_def GROUP_WIDTH_def)
      then have "capacity d = 16"
        by (simp add: d_def cell_hashmap_new_def Let_def GROUP_WIDTH_def round_up_16)
      then show ?thesis using new(4) True by (simp add: hm_room_def est_def)
    qed
  next
    case False
    then have "2 * est \<le> capacity d" using n new(3) by auto
    then have "est \<le> capacity d * 7 div 8" by simp
    then show ?thesis using new(4) cap unfolding hm_room_def est_def by simp
  qed
  obtain r1 where r1: "ofold (merge_put eq h m1) [0..<capacity m1] d = Some r1" "hm_inv K eq h r1"
    "hm_room r1 (size m2)" "\<forall>j \<in> K. hm_lookup eq r1 j = hm_lookup eq m1 j"
  proof -
    have "(case x of Some v \<Rightarrow> Some v | None \<Rightarrow> None) = x" for x :: "'v option"
      by (cases x) auto
    with merge_loop [OF m1 new(1) room, unfolded new(2)] that show thesis by auto
  qed
  obtain r2 where r2: "ofold (merge_put eq h m2) [0..<capacity m2] r1 = Some r2" "hm_inv K eq h r2"
    "\<forall>j \<in> K. hm_lookup eq r2 j = (case hm_lookup eq m2 j of Some v \<Rightarrow> Some v | None \<Rightarrow> hm_lookup eq r1 j)"
    using merge_loop [OF m2 r1(2), of 0] r1(3) by auto
  have "cell_hashmap_merge eq h m1 m2 = Option.bind (ofold (merge_put eq h m1) [0..<capacity m1] d)
      (ofold (merge_put eq h m2) [0..<capacity m2])"
    unfolding cell_hashmap_merge_def Let_def d_def n_def est_def by (rule refl)
  then have "cell_hashmap_merge eq h m1 m2 = Some r2"
    using r1(1) r2(1) by simp
  with r1 r2 show ?thesis by (auto cong: option.case_cong)
qed

end


sublocale hash_keys \<subseteq> hm: map_contract K eq h "hm_inv K eq h" hm_room "hm_lookup eq"
  "cell_hashmap_put eq h" "cell_hashmap_get eq h"
proof unfold_locales
  fix m :: "('k, 'v) hashmap" and n k v
  assume inv: "hm_inv K eq h m" and room: "hm_room m (Suc n)" and k: "k \<in> K"
  have "capacity m \<le> 2 ^ 27" using room by (simp add: hm_room_def)
  from put_spec [OF inv k this, of v] obtain m' where
    m': "cell_hashmap_put eq h m k v = Some (hm_lookup eq m k, m')" "hm_inv K eq h m'"
      "\<forall>j \<in> K. hm_lookup eq m' j = (if eq k j then Some v else hm_lookup eq m j)"
    and grow: "growth_left m \<noteq> 0 \<longrightarrow> capacity m' = capacity m \<and> growth_left m \<le> growth_left m' + 1"
      "growth_left m = 0 \<longrightarrow> capacity m' = capacity m \<and> growth_left m' = 0 \<and> hm_lookup eq m k \<noteq> None \<or>
        capacity m' = 2 * capacity m \<and> 2 * capacity m * 7 div 8 \<le> growth_left m' + 1 + size m"
    by (elim exE conjE)
  with room_put [OF inv room grow] show "\<exists>m'. cell_hashmap_put eq h m k v = Some (hm_lookup eq m k, m') \<and>
      hm_inv K eq h m' \<and> hm_room m' n \<and>
      (\<forall>j \<in> K. hm_lookup eq m' j = (if eq k j then Some v else hm_lookup eq m j))"
    by blast
qed (rule get_spec)

subsection \<open>A deletion that loses a key\<close>

text \<open>Seventeen keys with the same home group in two groups: the first group is full.\<close>

definition crowded_map :: "(nat, nat) hashmap" where
  "crowded_map =
     \<lparr>ctrl = map (\<lambda>i. if i < 17 then 0 else CTRL_EMPTY) [0..<32] @ replicate 16 0,
      slots = map (\<lambda>i. if i < 17 then Some (i, i) else None) [0..<32],
      size = 17, capacity = 32, growth_left = 11\<rparr>"

lemma const_hash_keys: "hash_keys UNIV (=) (\<lambda>_ :: nat. 0)"
  by unfold_locales auto

lemma home_group_0 [simp]: "home_group 0 gm = 0"
  by (simp add: home_group_def H1_def)

lemma H2_0 [simp]: "H2 0 = 0"
  by (simp add: H2_def)

lemma grp_0: "grp 32 0 0 = 0" "grp 32 0 1 = 1" "grp 32 0 (Suc 0) = 1"
  by (simp_all add: grp_def tri_def)

lemma crowded_simps [simp]:
  "capacity crowded_map = 32" "size crowded_map = 17"
  "i < 32 \<Longrightarrow> slots crowded_map ! i = (if i < 17 then Some (i, i) else None)"
  "i < 32 \<Longrightarrow> ctrl crowded_map ! i = (if i < 17 then 0 else CTRL_EMPTY)"
  "length (slots crowded_map) = 32" "length (ctrl crowded_map) = 48"
  by (simp_all add: crowded_map_def nth_append)

lemma crowded_empty: "\<not> has_empty (ctrl crowded_map) 0" "has_empty (ctrl crowded_map) 1"
proof -
  have "0 \<noteq> CTRL_EMPTY" by (simp add: CTRL_EMPTY_def)
  then show "\<not> has_empty (ctrl crowded_map) 0" by (auto simp: has_empty_def)
  show "has_empty (ctrl crowded_map) 1"
    unfolding has_empty_def by (rule exI [of _ 15]) simp
qed

lemma crowded_geometry: "hm_geometry crowded_map"
proof -
  have "is_pow2 32" unfolding is_pow2_def by (rule exI [of _ 5]) simp
  then show ?thesis by (simp add: hm_geometry_def) (simp add: crowded_map_def nth_append)
qed

lemma crowded_inv: "hm_inv UNIV (=) (\<lambda>_. 0) crowded_map"
proof -
  have pr: "probed (ctrl crowded_map) 32 0 i" if "i < 17" for i
  proof (cases "i < 16")
    case True
    then show ?thesis unfolding probed_def by (intro exI [of _ 0]) (simp add: grp_0)
  next
    case False
    with that have "i = 16" by simp
    then show ?thesis unfolding probed_def using crowded_empty by (intro exI [of _ 1]) (simp add: grp_0)
  qed
  have "hm_core UNIV (=) (\<lambda>_. 0) crowded_map"
    unfolding hm_core_def using crowded_geometry pr by (auto split: if_splits)
  moreover have "hm_full crowded_map = {..<17}" "hm_used crowded_map = {..<17}"
    by (auto simp: hm_full_def hm_used_def CTRL_EMPTY_def split: if_splits)
  ultimately show ?thesis by (simp add: hm_inv_def) (simp add: crowded_map_def)
qed


text \<open>
  C4. A deletion can make another key unfindable. The map holds the keys 0 to 16 with one
  common home group, so group 0 is full and key 16 lies in group 1. Deleting key 0 marks its
  slot empty because group 1 has an empty slot, although the probe for key 16 passes group
  0: afterwards the map still stores key 16 but reports that it is absent.
\<close>

theorem hashmap_delete_loses_key:
  "hm_inv UNIV (=) (\<lambda>_. 0) crowded_map \<and>
    cell_hashmap_has (=) (\<lambda>_. 0) crowded_map 16 = Some True \<and>
    (\<exists>m'. cell_hashmap_delete (=) (\<lambda>_. 0) crowded_map 0 = Some (Some 0, m') \<and>
      Some (16, 16) \<in> set (slots m') \<and> cell_hashmap_has (=) (\<lambda>_. 0) m' 16 = Some False)"
proof -
  note core = hash_keys.inv_core [OF const_hash_keys crowded_inv]
    and room = hash_keys.inv_room [OF const_hash_keys crowded_inv]
  have "hm_lookup (=) crowded_map 16 = Some 16"
    unfolding hash_keys.lookup_nth [OF const_hash_keys core UNIV_I] by (rule exI [of _ 16]) simp
  then have has: "cell_hashmap_has (=) (\<lambda>_. 0) crowded_map 16 = Some True"
    using hash_keys.has_spec [OF const_hash_keys crowded_inv UNIV_I, of 16] by simp
  have find: "hashmap_find (=) crowded_map 0 0 = Some (int 0)"
    by (rule hash_keys.find_spec [OF const_hash_keys core room UNIV_I [of 0]])
      (auto simp: key_absent_def split: if_splits dest: spec [of _ 0])
  define m' where "m' = (remove_at crowded_map 0 CTRL_EMPTY)\<lparr>size := 16, growth_left := 12\<rparr>"
  have del: "cell_hashmap_delete (=) (\<lambda>_. 0) crowded_map 0 = Some (Some 0, m')"
    using delete_result [OF crowded_geometry find, of 0 0] crowded_empty(2)
    by (simp add: m'_def) (simp add: crowded_map_def)
  have geo: "hm_geometry m'"
    using geometry_set_ctrl [OF crowded_geometry, of 0 CTRL_EMPTY]
    by (subst geometry_cong [of m' "set_ctrl crowded_map 0 CTRL_EMPTY"]) (simp_all add: m'_def)
  have "hit (=) m' 16 0 0 = None"
    by (auto simp: hit_None slot_has_key_def m'_def nth_list_update)
  moreover have "has_empty (ctrl m') 0"
    unfolding has_empty_def by (rule exI [of _ 0]) (simp add: m'_def nth_set_ctrl)
  ultimately have "hashmap_find (=) m' 16 0 = Some (-1)"
    unfolding hashmap_find_start using find_loop_at [OF geo, of 0 0 "(=)" 16 "H2 0" 0] grp_0
    by (simp add: m'_def)
  then have "cell_hashmap_has (=) (\<lambda>_. 0) m' 16 = Some False"
    by (simp add: cell_hashmap_has_def m'_def)
  moreover have "Some (16, 16) \<in> set (slots m')"
  proof -
    have "slots m' ! 16 = Some (16, 16)" "16 < length (slots m')" by (simp_all add: m'_def)
    then show ?thesis by (metis nth_mem)
  qed
  ultimately show ?thesis using crowded_inv has del by blast
qed

end
