(* ===== verification/CellHash.thy ===== *)
theory CellHash
  imports Cells SipHash HashMap
begin

section \<open>Hashing cells, and cells as keys\<close>

text \<open>
  \<open>cell_hash\<close> of \<open>bootstrap/cell.c\<close> and the set of cells on which it respects \<open>cell_equal\<close>:
  numbers whose value is exact in both numeric types, booleans, symbols, strings, nil,
  buffers and the pairs and vectors of such cells, taken from one heap. On these cells the
  hash tables of the runtime are instances of the generic theories.
\<close>

definition HASH_MUL :: u64 where
  "HASH_MUL = 0x9E3779B97F4A7C15"

text \<open>\<^verbatim>\<open>h ^= x * 0x9E37... + (h << 12) + (h >> 4)\<close>\<close>

definition hash_mix :: "u64 \<Rightarrow> u64 \<Rightarrow> u64" where
  "hash_mix h x = h XOR (x * HASH_MUL + push_bit 12 h + drop_bit 4 h)"

text \<open>
  A double with an integral value hashes as that integer. The conversion is undefined in C
  outside the range of \<open>int64_t\<close>; the model then hashes the bytes of the double.
\<close>

definition hash_number :: "u8 list \<Rightarrow> double \<Rightarrow> u64" where
  "hash_number key n =
     (case double_to_int n of
        Some iv \<Rightarrow>
          if double_eq n (double_of_int iv) \<and> double_le (double_of_int (- (2 ^ 63))) n \<and>
             double_le n (double_of_int (2 ^ 63 - 1))
          then guage_siphash key (le_bytes 8 (of_int iv))
          else guage_siphash key (le_bytes 8 n)
      | None \<Rightarrow> guage_siphash key (le_bytes 8 n))"

text \<open>
  \<open>intern_hash_by_id\<close> returns the hash that \<open>intern\<close> stored, which is the hash of the symbol's
  characters. Addresses are 64-bit words.
\<close>

fun cell_hash :: "u8 list \<Rightarrow> u64 cell \<Rightarrow> u64"
  and vector_hash :: "u8 list \<Rightarrow> u64 \<Rightarrow> u64 cell list \<Rightarrow> u64"
  and heap_hash :: "u8 list \<Rightarrow> u64 \<Rightarrow> (double \<times> u64 cell) list \<Rightarrow> u64" where
  "cell_hash key (CNumber _ n) = hash_number key n"
| "cell_hash key (CInteger _ i) = guage_siphash key (le_bytes 8 i)"
| "cell_hash key (CSymbol _ s) = guage_siphash key (string_bytes s)"
| "cell_hash key (CString _ s) = guage_siphash key (string_bytes s)"
| "cell_hash key (CBool _ b) = (if b then 1 else 2)"
| "cell_hash key (CNil _) = 3"
| "cell_hash key (CPair _ a d) = hash_mix (cell_hash key a) (cell_hash key d)"
| "cell_hash key (CBuffer _ bs) = guage_siphash key bs"
| "cell_hash key (CVector _ cs) = vector_hash key 0x5678 cs"
| "cell_hash key (CHeap _ kvs) = heap_hash key 0x9ABC kvs"
| "cell_hash key (CSized p t n) =
     (if t = CELL_SORTED_MAP then 0xDEF0 XOR guage_siphash key (le_bytes 4 (ucast n))
      else if t = CELL_TRIE then 0xAE70 XOR guage_siphash key (le_bytes 4 (ucast n))
      else guage_siphash key (le_bytes 8 p))"
| "cell_hash key (CError p _ _ _ _ _) = guage_siphash key (le_bytes 8 p)"
| "cell_hash key (CStruct p _ _ _ _) = guage_siphash key (le_bytes 8 p)"
| "cell_hash key (CGraph p _ _ _ _ _ _) = guage_siphash key (le_bytes 8 p)"
| "cell_hash key (CActor p _) = guage_siphash key (le_bytes 8 p)"
| "cell_hash key (CChannel p _) = guage_siphash key (le_bytes 8 p)"
| "cell_hash key (CDeque p _) = guage_siphash key (le_bytes 8 p)"
| "cell_hash key (CLambda p _ _ _ _) = guage_siphash key (le_bytes 8 p)"
| "cell_hash key (CBuiltin p _) = guage_siphash key (le_bytes 8 p)"
| "cell_hash key (CObj p _) = guage_siphash key (le_bytes 8 p)"
| "vector_hash key vh [] = vh"
| "vector_hash key vh (c # cs) = vector_hash key (hash_mix vh (cell_hash key c)) cs"
| "heap_hash key hh [] = hh"
| "heap_hash key hh ((k, v) # kvs) =
     (let hh = hh XOR guage_siphash key (le_bytes 8 k)
      in heap_hash key (hash_mix hh (cell_hash key v)) kvs)"

subsection \<open>Keys\<close>

text \<open>The content of a key, without addresses and with the two numeric types identified.\<close>

datatype cell_shape =
    SInt int | SDouble double | SBool bool | SSymbol string | SNil | SString string
  | SPair cell_shape cell_shape | SBuffer "u8 list" | SVector "cell_shape list" | SOther

definition number_shape :: "double \<Rightarrow> cell_shape" where
  "number_shape d =
     (case double_to_int d of
        Some i \<Rightarrow> if double_eq d (double_of_int i) then SInt i else SDouble d
      | None \<Rightarrow> SDouble d)"

fun shape :: "'p cell \<Rightarrow> cell_shape" where
  "shape (CNumber _ d) = number_shape d"
| "shape (CInteger _ i) = SInt (sint i)"
| "shape (CBool _ b) = SBool b"
| "shape (CSymbol _ s) = SSymbol s"
| "shape (CNil _) = SNil"
| "shape (CString _ s) = SString s"
| "shape (CPair _ a d) = SPair (shape a) (shape d)"
| "shape (CBuffer _ bs) = SBuffer bs"
| "shape (CVector _ cs) = SVector (map shape cs)"
| "shape _ = SOther"

text \<open>Numbers that both numeric types hold exactly, with their nearest integer.\<close>

definition exact_double :: "double \<Rightarrow> bool" where
  "exact_double d \<longleftrightarrow> \<not> double_is_nan d \<and>
     (case double_to_int d of Some i \<Rightarrow> \<bar>i\<bar> < 2 ^ 53 | None \<Rightarrow> False)"

fun hashable :: "'p cell \<Rightarrow> bool" where
  "hashable (CNumber _ d) = exact_double d"
| "hashable (CInteger _ i) = (\<bar>sint i\<bar> < 2 ^ 53)"
| "hashable (CBool _ _) = True"
| "hashable (CSymbol _ _) = True"
| "hashable (CNil _) = True"
| "hashable (CString _ _) = True"
| "hashable (CPair _ a d) = (hashable a \<and> hashable d)"
| "hashable (CBuffer _ _) = True"
| "hashable (CVector _ cs) = (\<forall>c \<in> set cs. hashable c)"
| "hashable _ = False"

text \<open>The cells reachable from a cell through pairs and vectors.\<close>

fun parts :: "'p cell \<Rightarrow> 'p cell set" where
  "parts (CPair p a d) = insert (CPair p a d) (parts a \<union> parts d)"
| "parts (CVector p cs) = insert (CVector p cs) (\<Union>c \<in> set cs. parts c)"
| "parts c = {c}"

text \<open>A heap: no two different cells have the same address.\<close>

definition heap :: "'p cell set \<Rightarrow> bool" where
  "heap H \<longleftrightarrow> inj_on cell_addr H"

definition keys_of :: "'p cell set \<Rightarrow> 'p cell set" where
  "keys_of H = {c. hashable c \<and> parts c \<subseteq> H}"

lemma parts_refl: "c \<in> parts c"
  by (cases c) auto

lemma number_shape_eq:
  assumes "exact_double a" "exact_double b"
  shows "double_eq a b \<longleftrightarrow> number_shape a = number_shape b"
proof -
  obtain i j where ij: "double_to_int a = Some i" "\<bar>i\<bar> < 2 ^ 53" "double_to_int b = Some j" "\<bar>j\<bar> < 2 ^ 53"
    and nan: "\<not> double_is_nan a" "\<not> double_is_nan b"
    using assms by (auto simp: exact_double_def split: option.splits)
  show ?thesis
  proof (cases "double_eq a (double_of_int i)"; cases "double_eq b (double_of_int j)")
    assume a: "double_eq a (double_of_int i)" and b: "double_eq b (double_of_int j)"
    have "double_eq a b \<longleftrightarrow> double_eq (double_of_int i) (double_of_int j)"
      using a b by (meson double_eq_sym double_eq_trans)
    then show ?thesis
      using a b ij by (simp add: number_shape_def double_of_int_eq_iff)
  next
    assume a: "double_eq a (double_of_int i)" and b: "\<not> double_eq b (double_of_int j)"
    have "\<not> double_eq a b"
    proof
      assume "double_eq a b"
      then have "double_eq b (double_of_int i)" using a by (meson double_eq_sym double_eq_trans)
      with double_eq_of_int [OF this ij(2)] ij b show False by simp
    qed
    then show ?thesis using a b ij by (simp add: number_shape_def)
  next
    assume a: "\<not> double_eq a (double_of_int i)" and b: "double_eq b (double_of_int j)"
    have "\<not> double_eq a b"
    proof
      assume "double_eq a b"
      then have "double_eq a (double_of_int j)" using b by (meson double_eq_trans)
      with double_eq_of_int [OF this ij(4)] ij a show False by simp
    qed
    then show ?thesis using a b ij by (simp add: number_shape_def)
  next
    assume a: "\<not> double_eq a (double_of_int i)" and b: "\<not> double_eq b (double_of_int j)"
    have "double_eq a b \<longleftrightarrow> a = b"
      using double_eq_nonzero [of a b] double_zero_integral [of a i] a ij(1) nan by auto
    then show ?thesis using a b ij by (simp add: number_shape_def)
  qed
qed

lemma integer_shape_eq:
  assumes "exact_double d" "\<bar>i\<bar> < 2 ^ 53"
  shows "double_eq (double_of_int i) d \<longleftrightarrow> SInt i = number_shape d"
    and "double_eq d (double_of_int i) \<longleftrightarrow> number_shape d = SInt i"
proof -
  obtain j where j: "double_to_int d = Some j" "\<bar>j\<bar> < 2 ^ 53"
    using assms(1) by (auto simp: exact_double_def split: option.splits)
  show r: "double_eq d (double_of_int i) \<longleftrightarrow> number_shape d = SInt i"
  proof
    assume e: "double_eq d (double_of_int i)"
    with double_eq_of_int [OF e assms(2)] j show "number_shape d = SInt i" by (simp add: number_shape_def)
  next
    assume "number_shape d = SInt i"
    then show "double_eq d (double_of_int i)" using j by (auto simp: number_shape_def split: if_splits)
  qed
  then show "double_eq (double_of_int i) d \<longleftrightarrow> SInt i = number_shape d" by (metis double_eq_sym)
qed

lemma cells_equal_iff:
  "length xs = length ys \<Longrightarrow> cells_equal xs ys \<longleftrightarrow> list_all2 cell_equal xs ys"
  by (induction xs ys rule: list_induct2) simp_all

lemma sint_inj: "sint a = sint b \<longleftrightarrow> a = b" for a b :: u64
  by (auto intro: signed_word_eqI)

lemma number_shape_neq [simp]:
  "number_shape d \<noteq> SBool b" "number_shape d \<noteq> SSymbol s" "number_shape d \<noteq> SNil"
  "number_shape d \<noteq> SString s" "number_shape d \<noteq> SPair x y" "number_shape d \<noteq> SBuffer bs"
  "number_shape d \<noteq> SVector ss" "number_shape d \<noteq> SOther"
  by (simp_all add: number_shape_def split: option.splits)

text \<open>On the keys of one heap, equality is equality of shapes.\<close>

lemma same_addr: "heap H \<Longrightarrow> a \<in> H \<Longrightarrow> b \<in> H \<Longrightarrow> cell_addr a = cell_addr b \<Longrightarrow> a = b"
  by (auto simp: heap_def inj_on_def)

lemma equal_iff_shape:
  assumes "heap H" "hashable a" "hashable b" "parts a \<subseteq> H" "parts b \<subseteq> H"
  shows "cell_equal a b \<longleftrightarrow> shape a = shape b"
  using assms(2-5)
proof (induction a arbitrary: b)
  case (CNumber p d)
  have "cell_addr (CNumber p d) = cell_addr b \<Longrightarrow> CNumber p d = b"
    using same_addr [OF assms(1)] CNumber.prems parts_refl by blast
  with CNumber show ?case
    by (cases b) (auto simp: cell_equal.simps number_shape_eq integer_shape_eq)
next
  case (CInteger p i)
  have "cell_addr (CInteger p i) = cell_addr b \<Longrightarrow> CInteger p i = b"
    using same_addr [OF assms(1)] CInteger.prems parts_refl by blast
  with CInteger show ?case
    by (cases b) (auto simp: cell_equal.simps integer_shape_eq sint_inj)
next
  case (CPair p a1 a2)
  have ad: "cell_addr (CPair p a1 a2) = cell_addr b \<Longrightarrow> CPair p a1 a2 = b"
    using same_addr [OF assms(1)] CPair.prems parts_refl by blast
  show ?case
  proof (cases b)
    case b: (CPair q b1 b2)
    have "cell_equal a1 b1 \<longleftrightarrow> shape a1 = shape b1" "cell_equal a2 b2 \<longleftrightarrow> shape a2 = shape b2"
      using CPair b by auto
    with ad show ?thesis by (auto simp: b cell_equal.simps)
  qed (use CPair.prems ad in \<open>auto simp: cell_equal.simps dest: sym [of _ "number_shape _"]\<close>)
next
  case (CVector p xs)
  have ad: "cell_addr (CVector p xs) = cell_addr b \<Longrightarrow> CVector p xs = b"
    using same_addr [OF assms(1)] CVector.prems parts_refl by blast
  show ?case
  proof (cases b)
    case b: (CVector q ys)
    have "list_all2 cell_equal xs ys \<longleftrightarrow> map shape xs = map shape ys" if "length xs = length ys"
    proof -
      have "cell_equal (xs ! i) (ys ! i) \<longleftrightarrow> shape (xs ! i) = shape (ys ! i)" if "i < length xs" for i
        using that \<open>length xs = length ys\<close> CVector.prems b
        by (intro CVector.IH) (force simp: b)+
      with that show ?thesis by (simp add: list_all2_conv_all_nth list_eq_iff_nth_eq)
    qed
    moreover have "map shape xs = map shape ys \<Longrightarrow> length xs = length ys" by (metis length_map)
    ultimately show ?thesis using ad by (auto simp: b cell_equal.simps cells_equal_iff)
  qed (use CVector.prems ad in \<open>auto simp: cell_equal.simps dest: sym [of _ "number_shape _"]\<close>)
next
  case (CBool p x)
  have "cell_addr (CBool p x) = cell_addr b \<Longrightarrow> CBool p x = b"
    using same_addr [OF assms(1)] CBool.prems parts_refl by blast
  with CBool show ?case
    by (cases b) (auto simp: cell_equal.simps dest: sym [of _ "number_shape _"])
next
  case (CSymbol p x)
  have "cell_addr (CSymbol p x) = cell_addr b \<Longrightarrow> CSymbol p x = b"
    using same_addr [OF assms(1)] CSymbol.prems parts_refl by blast
  with CSymbol show ?case
    by (cases b) (auto simp: cell_equal.simps dest: sym [of _ "number_shape _"])
next
  case (CNil p)
  have "cell_addr (CNil p) = cell_addr b \<Longrightarrow> CNil p = b"
    using same_addr [OF assms(1)] CNil.prems parts_refl by blast
  with CNil show ?case
    by (cases b) (auto simp: cell_equal.simps dest: sym [of _ "number_shape _"])
next
  case (CString p x)
  have "cell_addr (CString p x) = cell_addr b \<Longrightarrow> CString p x = b"
    using same_addr [OF assms(1)] CString.prems parts_refl by blast
  with CString show ?case
    by (cases b) (auto simp: cell_equal.simps dest: sym [of _ "number_shape _"])
next
  case (CBuffer p x)
  have "cell_addr (CBuffer p x) = cell_addr b \<Longrightarrow> CBuffer p x = b"
    using same_addr [OF assms(1)] CBuffer.prems parts_refl by blast
  with CBuffer show ?case
    by (cases b) (auto simp: cell_equal.simps dest: sym [of _ "number_shape _"])
qed auto

text \<open>The hash of a key depends on its shape only.\<close>

primrec shape_hash :: "u8 list \<Rightarrow> cell_shape \<Rightarrow> u64" where
  "shape_hash key (SInt i) = guage_siphash key (le_bytes 8 (of_int i))"
| "shape_hash key (SDouble d) = guage_siphash key (le_bytes 8 d)"
| "shape_hash key (SBool b) = (if b then 1 else 2)"
| "shape_hash key (SSymbol s) = guage_siphash key (string_bytes s)"
| "shape_hash key SNil = 3"
| "shape_hash key (SString s) = guage_siphash key (string_bytes s)"
| "shape_hash key (SPair a d) = hash_mix (shape_hash key a) (shape_hash key d)"
| "shape_hash key (SBuffer bs) = guage_siphash key bs"
| "shape_hash key (SVector ss) = foldl hash_mix 0x5678 (map (shape_hash key) ss)"
| "shape_hash key SOther = 0"

lemma vector_hash_foldl: "vector_hash key vh cs = foldl hash_mix vh (map (cell_hash key) cs)"
  by (induction cs arbitrary: vh) auto

lemma hash_number_shape:
  assumes "exact_double d"
  shows "hash_number key d = shape_hash key (number_shape d)"
proof -
  obtain i where i: "double_to_int d = Some i" "\<bar>i\<bar> < 2 ^ 53" and nan: "\<not> double_is_nan d"
    using assms by (auto simp: exact_double_def split: option.splits)
  show ?thesis
  proof (cases "double_eq d (double_of_int i)")
    case True
    then have "double_key d = double_key (double_of_int i)" by (simp add: double_eq_def)
    then have "double_le (double_of_int (- (2 ^ 63))) d \<and> double_le d (double_of_int (2 ^ 63 - 1))"
      using double_of_int_range [OF i(2)] nan by (simp add: double_le_def)
    with True i show ?thesis by (simp add: hash_number_def number_shape_def)
  next
    case False
    with i show ?thesis by (simp add: hash_number_def number_shape_def)
  qed
qed

lemma hash_shape: "hashable c \<Longrightarrow> cell_hash key c = shape_hash key (shape c)"
proof (induction c)
  case (CVector p cs)
  then have "map (cell_hash key) cs = map (shape_hash key) (map shape cs)" by simp
  then show ?case by (simp only: cell_hash.simps shape.simps shape_hash.simps vector_hash_foldl)
qed (auto simp: hash_number_shape)

end
