(* ===== verification/HashSet.thy ===== *)
theory HashSet
  imports SwissTable Contracts "HOL-Library.Monad_Syntax"
begin

section \<open>The hash set of bootstrap/cell.c\<close>

text \<open>
  \<open>cell_hashset_*\<close>: groups of fifteen slots whose sixteenth metadata byte is a small Bloom
  filter: an insertion that passes a full group sets one of its eight bits, a search stops at
  the first group whose bit is clear. As in HashMap the key equality and the hash are
  arguments, probing loops return in the option monad, and reference counts are left out.
\<close>

record 'a hashset =
  metadata :: "u8 list"
  elements :: "'a option list"
  size :: nat
  n_groups :: nat
  ml_left :: nat

definition HS_GROUP_SLOTS :: nat where "HS_GROUP_SLOTS = 15"
definition HS_META_SIZE :: nat where "HS_META_SIZE = 16"
definition HS_TAG_EMPTY :: u8 where "HS_TAG_EMPTY = 0"
definition HS_OFW_OFFSET :: nat where "HS_OFW_OFFSET = 15"
definition HS_MATCH_MASK :: u32 where "HS_MATCH_MASK = 0x7FFF"

lemmas hs_consts = HS_GROUP_SLOTS_def HS_META_SIZE_def HS_TAG_EMPTY_def HS_OFW_OFFSET_def

definition hs_tag :: "u64 \<Rightarrow> u8" where
  "hs_tag hash = (let t = ucast (drop_bit 56 hash) in if t < 2 then t + 2 else t)"

definition hs_group_index :: "u64 \<Rightarrow> u32 \<Rightarrow> u32" where
  "hs_group_index hash group_mask = ucast hash AND group_mask"

definition hs_overflow_bit :: "u64 \<Rightarrow> u8" where
  "hs_overflow_bit hash = push_bit (unat (drop_bit 48 hash AND 7)) 1"

definition cell_hashset_new :: "nat \<Rightarrow> 'a hashset" where
  "cell_hashset_new initial_n_groups =
     (let initial_n_groups = (if initial_n_groups < 1 then 1 else initial_n_groups);
          ng = round_up_pow2 1 initial_n_groups
      in \<lparr>metadata = replicate (ng * HS_META_SIZE) HS_TAG_EMPTY,
          elements = replicate (ng * HS_GROUP_SLOTS) None,
          size = 0, n_groups = ng, ml_left = mul32 ng 13\<rparr>)"

definition elem_is :: "('a \<Rightarrow> 'a \<Rightarrow> bool) \<Rightarrow> 'a \<Rightarrow> 'a option \<Rightarrow> bool" where
  "elem_is eq x e = (case e of Some y \<Rightarrow> eq y x | None \<Rightarrow> False)"

partial_function (option) hashset_find_loop ::
  "('a \<Rightarrow> 'a \<Rightarrow> bool) \<Rightarrow> 'a hashset \<Rightarrow> 'a \<Rightarrow> u8 \<Rightarrow> u8 \<Rightarrow> u32 \<Rightarrow> u32 \<Rightarrow> u32 \<Rightarrow> u32 \<Rightarrow> int option" where
  "hashset_find_loop eq s val tag ofw_bit group_mask g probe_offset probe_step =
     (let gi = unat ((g + probe_offset) AND group_mask)
      in case mask_scan
             (\<lambda>b. b < HS_GROUP_SLOTS \<and> elem_is eq val (elements s ! (gi * HS_GROUP_SLOTS + b)))
             (guage_group_match (metadata s) (gi * HS_META_SIZE) tag AND HS_MATCH_MASK) of
           Some b \<Rightarrow> Some (int (gi * HS_GROUP_SLOTS + b))
         | None \<Rightarrow>
             if metadata s ! (gi * HS_META_SIZE + HS_OFW_OFFSET) AND ofw_bit = 0 then Some (-1)
             else (let probe_step = probe_step + 1; probe_offset = probe_offset + probe_step
                   in hashset_find_loop eq s val tag ofw_bit group_mask g probe_offset probe_step))"

definition hashset_find :: "('a \<Rightarrow> 'a \<Rightarrow> bool) \<Rightarrow> 'a hashset \<Rightarrow> 'a \<Rightarrow> u64 \<Rightarrow> int option" where
  "hashset_find eq s val hash =
     (let group_mask = of_nat (n_groups s) - 1
      in hashset_find_loop eq s val (hs_tag hash) (hs_overflow_bit hash) group_mask
           (hs_group_index hash group_mask) 0 0)"

text \<open>The insertion probe also marks the full groups it passes; the metadata are its state.\<close>

partial_function (option) hashset_find_insert_slot_loop ::
  "u8 \<Rightarrow> u32 \<Rightarrow> u32 \<Rightarrow> u8 list \<Rightarrow> u32 \<Rightarrow> u32 \<Rightarrow> (nat \<times> u8 list) option" where
  "hashset_find_insert_slot_loop ofw_bit group_mask g meta probe_offset probe_step =
     (let gi = unat ((g + probe_offset) AND group_mask);
          empty = guage_group_match meta (gi * HS_META_SIZE) HS_TAG_EMPTY AND HS_MATCH_MASK
      in if empty \<noteq> 0 then (let (b, empty) = guage_bitmask_next empty in Some (gi * HS_GROUP_SLOTS + nat b, meta))
         else (let ofw = gi * HS_META_SIZE + HS_OFW_OFFSET;
                   meta = meta[ofw := meta ! ofw OR ofw_bit];
                   probe_step = probe_step + 1; probe_offset = probe_offset + probe_step
               in hashset_find_insert_slot_loop ofw_bit group_mask g meta probe_offset probe_step))"

definition hashset_find_insert_slot :: "'a hashset \<Rightarrow> u64 \<Rightarrow> (nat \<times> 'a hashset) option" where
  "hashset_find_insert_slot s hash =
     (let group_mask = of_nat (n_groups s) - 1
      in map_option (\<lambda>(slot, meta). (slot, s\<lparr>metadata := meta\<rparr>))
           (hashset_find_insert_slot_loop (hs_overflow_bit hash) group_mask
              (hs_group_index hash group_mask) (metadata s) 0 0))"

text \<open>Writing a tag and its element at slot index \<open>g * 15 + s\<close>.\<close>

definition hs_store :: "'a hashset \<Rightarrow> nat \<Rightarrow> u8 \<Rightarrow> 'a option \<Rightarrow> 'a hashset" where
  "hs_store s slot tag e =
     (let g = slot div HS_GROUP_SLOTS; i = slot mod HS_GROUP_SLOTS
      in s\<lparr>metadata := (metadata s)[g * HS_META_SIZE + i := tag],
           elements := (elements s)[g * HS_GROUP_SLOTS + i := e]\<rparr>)"

text \<open>The occupied slots in the order of the nested loops over groups and slots.\<close>

definition hs_slots :: "'a hashset \<Rightarrow> (nat \<times> nat) list" where
  "hs_slots s = List.product [0..<n_groups s] [0..<HS_GROUP_SLOTS]"

definition hs_occupied :: "'a hashset \<Rightarrow> 'a option list" where
  "hs_occupied s =
     map (\<lambda>(g, i). elements s ! (g * HS_GROUP_SLOTS + i))
       (filter (\<lambda>(g, i). 2 \<le> metadata s ! (g * HS_META_SIZE + i)) (hs_slots s))"

definition hashset_reinsert :: "('a \<Rightarrow> u64) \<Rightarrow> 'a option \<Rightarrow> 'a hashset \<Rightarrow> 'a hashset option" where
  "hashset_reinsert h e s =
     (case e of
        None \<Rightarrow> Some s
      | Some x \<Rightarrow> do {
          let hash = h x;
          (slot, s) \<leftarrow> hashset_find_insert_slot s hash;
          Some (hs_store s slot (hs_tag hash) (Some x))
        })"

definition hashset_resize :: "('a \<Rightarrow> u64) \<Rightarrow> 'a hashset \<Rightarrow> nat \<Rightarrow> 'a hashset option" where
  "hashset_resize h s new_ng =
     (let old = hs_occupied s;
          s = \<lparr>metadata = replicate (new_ng * HS_META_SIZE) HS_TAG_EMPTY,
               elements = replicate (new_ng * HS_GROUP_SLOTS) None,
               size = size s, n_groups = new_ng, ml_left = sub32 (mul32 new_ng 13) (size s)\<rparr>
      in ofold (hashset_reinsert h) old s)"

definition cell_hashset_add :: "('a \<Rightarrow> 'a \<Rightarrow> bool) \<Rightarrow> ('a \<Rightarrow> u64) \<Rightarrow> 'a hashset \<Rightarrow> 'a \<Rightarrow> (bool \<times> 'a hashset) option" where
  "cell_hashset_add eq h s val = do {
     let hash = h val;
     idx \<leftarrow> hashset_find eq s val hash;
     if 0 \<le> idx then Some (False, s)
     else do {
       s \<leftarrow> (if ml_left s = 0 then hashset_resize h s (mul32 (n_groups s) 2) else Some s);
       (slot, s) \<leftarrow> hashset_find_insert_slot s hash;
       let s = hs_store s slot (hs_tag hash) (Some val);
       Some (True, s\<lparr>size := size s + 1, ml_left := ml_left s - 1\<rparr>)
     }
   }"

definition cell_hashset_remove :: "('a \<Rightarrow> 'a \<Rightarrow> bool) \<Rightarrow> ('a \<Rightarrow> u64) \<Rightarrow> 'a hashset \<Rightarrow> 'a \<Rightarrow> (bool \<times> 'a hashset) option" where
  "cell_hashset_remove eq h s val = do {
     idx \<leftarrow> hashset_find eq s val (h val);
     if idx < 0 then Some (False, s)
     else (let s = hs_store s (nat idx) HS_TAG_EMPTY None
           in Some (True, s\<lparr>size := size s - 1\<rparr>))
   }"

definition cell_hashset_has :: "('a \<Rightarrow> 'a \<Rightarrow> bool) \<Rightarrow> ('a \<Rightarrow> u64) \<Rightarrow> 'a hashset \<Rightarrow> 'a \<Rightarrow> bool option" where
  "cell_hashset_has eq h s val =
     (if size s = 0 then Some False
      else do { idx \<leftarrow> hashset_find eq s val (h val); Some (0 \<le> idx) })"

definition cell_hashset_size :: "'a hashset \<Rightarrow> nat" where
  "cell_hashset_size s = size s"

text \<open>Groups upwards, slots of a group downwards, each element consed.\<close>

definition cell_hashset_elements :: "'a hashset \<Rightarrow> 'a option list" where
  "cell_hashset_elements s =
     fold (\<lambda>(g, i) result.
         if 2 \<le> metadata s ! (g * HS_META_SIZE + i) then elements s ! (g * HS_GROUP_SLOTS + i) # result
         else result)
       (List.product [0..<n_groups s] (rev [0..<HS_GROUP_SLOTS])) []"

definition add_elem :: "('a \<Rightarrow> 'a \<Rightarrow> bool) \<Rightarrow> ('a \<Rightarrow> u64) \<Rightarrow> 'a option \<Rightarrow> 'a hashset \<Rightarrow> 'a hashset option" where
  "add_elem eq h e result =
     (case e of None \<Rightarrow> Some result | Some x \<Rightarrow> map_option snd (cell_hashset_add eq h result x))"

text \<open>\<^verbatim>\<open>while (ng * 13 < est) ng <<= 1;\<close>\<close>

function union_groups :: "nat \<Rightarrow> nat \<Rightarrow> nat" where
  "union_groups ng est = (if ng * 13 < est \<and> 0 < ng then union_groups (2 * ng) est else ng)"
  by pat_completeness auto
termination
  by (relation "measure (\<lambda>(ng, est). est - ng)") auto

declare union_groups.simps [simp del]

definition cell_hashset_union :: "('a \<Rightarrow> 'a \<Rightarrow> bool) \<Rightarrow> ('a \<Rightarrow> u64) \<Rightarrow> 'a hashset \<Rightarrow> 'a hashset \<Rightarrow> 'a hashset option" where
  "cell_hashset_union eq h s1 s2 = do {
     let est = size s1 + size s2;
     let ng = union_groups 1 est;
     let result = cell_hashset_new ng;
     result \<leftarrow> ofold (add_elem eq h) (hs_occupied s1) result;
     ofold (add_elem eq h) (hs_occupied s2) result
   }"

definition filter_elem :: "('a \<Rightarrow> 'a \<Rightarrow> bool) \<Rightarrow> ('a \<Rightarrow> u64) \<Rightarrow> (bool \<Rightarrow> bool) \<Rightarrow> 'a hashset \<Rightarrow> 'a option \<Rightarrow>
    'a hashset \<Rightarrow> 'a hashset option" where
  "filter_elem eq h keep s2 e result =
     (case e of
        None \<Rightarrow> Some result
      | Some x \<Rightarrow> do {
          b \<leftarrow> cell_hashset_has eq h s2 x;
          if keep b then map_option snd (cell_hashset_add eq h result x) else Some result
        })"

definition cell_hashset_intersection :: "('a \<Rightarrow> 'a \<Rightarrow> bool) \<Rightarrow> ('a \<Rightarrow> u64) \<Rightarrow> 'a hashset \<Rightarrow> 'a hashset \<Rightarrow> 'a hashset option" where
  "cell_hashset_intersection eq h s1 s2 =
     ofold (filter_elem eq h (\<lambda>b. b) s2) (hs_occupied s1) (cell_hashset_new 1)"

definition cell_hashset_difference :: "('a \<Rightarrow> 'a \<Rightarrow> bool) \<Rightarrow> ('a \<Rightarrow> u64) \<Rightarrow> 'a hashset \<Rightarrow> 'a hashset \<Rightarrow> 'a hashset option" where
  "cell_hashset_difference eq h s1 s2 =
     ofold (filter_elem eq h (\<lambda>b. \<not> b) s2) (hs_occupied s1) (cell_hashset_new 1)"

fun subset_loop :: "('a \<Rightarrow> 'a \<Rightarrow> bool) \<Rightarrow> ('a \<Rightarrow> u64) \<Rightarrow> 'a hashset \<Rightarrow> 'a option list \<Rightarrow> bool option" where
  "subset_loop eq h s2 [] = Some True"
| "subset_loop eq h s2 (None # es) = subset_loop eq h s2 es"
| "subset_loop eq h s2 (Some x # es) = do {
     b \<leftarrow> cell_hashset_has eq h s2 x;
     if b then subset_loop eq h s2 es else Some False
   }"

definition cell_hashset_subset :: "('a \<Rightarrow> 'a \<Rightarrow> bool) \<Rightarrow> ('a \<Rightarrow> u64) \<Rightarrow> 'a hashset \<Rightarrow> 'a hashset \<Rightarrow> bool option" where
  "cell_hashset_subset eq h s1 s2 =
     (if size s2 < size s1 then Some False else subset_loop eq h s2 (hs_occupied s1))"

subsection \<open>Representation invariant\<close>

definition hgrp :: "nat \<Rightarrow> u64 \<Rightarrow> nat \<Rightarrow> nat" where
  "hgrp ng hash j = (unat (hs_group_index hash (of_nat ng - 1)) + tri j) mod ng"

definition mtag :: "u8 list \<Rightarrow> nat \<Rightarrow> nat \<Rightarrow> u8" where
  "mtag m g i = m ! (g * 16 + i)"

definition elem :: "'a hashset \<Rightarrow> nat \<Rightarrow> nat \<Rightarrow> 'a option" where
  "elem s g i = elements s ! (g * 15 + i)"

definition hs_geo :: "'a hashset \<Rightarrow> bool" where
  "hs_geo s \<longleftrightarrow> is_pow2 (n_groups s) \<and> n_groups s \<le> 2 ^ 28 \<and>
     length (metadata s) = n_groups s * 16 \<and> length (elements s) = n_groups s * 15"

definition hprobed :: "u8 list \<Rightarrow> nat \<Rightarrow> u64 \<Rightarrow> nat \<Rightarrow> bool" where
  "hprobed m ng hash g \<longleftrightarrow>
     (\<exists>j. hgrp ng hash j = g \<and> (\<forall>j' < j. mtag m (hgrp ng hash j') 15 AND hs_overflow_bit hash \<noteq> 0))"

definition hs_core :: "'a set \<Rightarrow> ('a \<Rightarrow> 'a \<Rightarrow> bool) \<Rightarrow> ('a \<Rightarrow> u64) \<Rightarrow> 'a hashset \<Rightarrow> bool" where
  "hs_core K eq h s \<longleftrightarrow>
     hs_geo s \<and>
     (\<forall>g < n_groups s. \<forall>i < 15. elem s g i = None \<longleftrightarrow> mtag (metadata s) g i = 0) \<and>
     (\<forall>g < n_groups s. \<forall>i < 15. \<forall>x. elem s g i = Some x \<longrightarrow>
        x \<in> K \<and> mtag (metadata s) g i = hs_tag (h x) \<and> hprobed (metadata s) (n_groups s) (h x) g) \<and>
     (\<forall>g < n_groups s. \<forall>i < 15. \<forall>g' < n_groups s. \<forall>i' < 15. \<forall>x y.
        elem s g i = Some x \<longrightarrow> elem s g' i' = Some y \<longrightarrow> eq x y \<longrightarrow> g = g' \<and> i = i')"

definition hs_full :: "'a hashset \<Rightarrow> (nat \<times> nat) set" where
  "hs_full s = {(g, i). g < n_groups s \<and> i < 15 \<and> elem s g i \<noteq> None}"

text \<open>
  Slots that a group takes from the load budget: a group with an overflow mark counts as full
  for ever, since removals do not clear marks.
\<close>

definition hs_weight :: "'a hashset \<Rightarrow> nat \<Rightarrow> nat" where
  "hs_weight s g = (if mtag (metadata s) g 15 = 0 then card {i. i < 15 \<and> elem s g i \<noteq> None} else 15)"

definition hs_load :: "'a hashset \<Rightarrow> nat" where
  "hs_load s = (\<Sum>g < n_groups s. hs_weight s g)"

definition hs_inv :: "'a set \<Rightarrow> ('a \<Rightarrow> 'a \<Rightarrow> bool) \<Rightarrow> ('a \<Rightarrow> u64) \<Rightarrow> 'a hashset \<Rightarrow> bool" where
  "hs_inv K eq h s \<longleftrightarrow>
     hs_core K eq h s \<and> size s = card (hs_full s) \<and> hs_load s + ml_left s \<le> n_groups s * 13"

definition hs_mem :: "('a \<Rightarrow> 'a \<Rightarrow> bool) \<Rightarrow> 'a hashset \<Rightarrow> 'a \<Rightarrow> bool" where
  "hs_mem eq s y \<longleftrightarrow> list_ex (elem_is eq y) (elements s)"

text \<open>A group that ends every probe: no mark and a free slot.\<close>

definition hs_has_room :: "'a hashset \<Rightarrow> bool" where
  "hs_has_room s \<longleftrightarrow> (\<exists>g < n_groups s. mtag (metadata s) g 15 = 0 \<and> (\<exists>i < 15. mtag (metadata s) g i = 0))"

lemma elem_update [simp]:
  "elem (size_update f s) = elem s" "elem (ml_left_update f' s) = elem s"
  by (simp_all add: elem_def fun_eq_iff)

lemma hs_geo_props:
  assumes "hs_geo s"
  shows "0 < n_groups s" "n_groups s < 2 ^ 32" "is_pow2 (n_groups s)"
    "length (metadata s) = n_groups s * 16" "length (elements s) = n_groups s * 15"
proof -
  show "is_pow2 (n_groups s)" "length (metadata s) = n_groups s * 16" "length (elements s) = n_groups s * 15"
    using assms by (simp_all add: hs_geo_def)
  then show "0 < n_groups s" by (intro is_pow2_pos)
  have "n_groups s \<le> 2 ^ 28" using assms by (simp add: hs_geo_def)
  also have "(2 :: nat) ^ 28 < 2 ^ 32" by simp
  finally show "n_groups s < 2 ^ 32" .
qed

lemma flat_less: "g < n \<Longrightarrow> i < m \<Longrightarrow> g * m + i < n * (m :: nat)"
  by (metis add.commute mod_less mult.commute mod_mult_self1 nat_mult_less_cancel_disj
      add_mult_distrib2 mult_less_cancel2 order_less_le_trans add_less_cancel_right
      Suc_leI mult_Suc mult_le_mono1)

lemma flat_inj: "i < m \<Longrightarrow> i' < m \<Longrightarrow> g * m + i = g' * m + i' \<longleftrightarrow> g = g' \<and> i = (i' :: nat)"
  by (metis add.commute add_diff_cancel_right' div_mult_self3 div_less less_nat_zero_code
      add_cancel_right_left not_less0)

lemma hgrp_less: "hs_geo s \<Longrightarrow> hgrp (n_groups s) hash j < n_groups s"
  using hs_geo_props(1) [of s] by (simp add: hgrp_def)

lemma hs_probe_offset:
  assumes "hs_geo s"
  shows "unat ((hs_group_index hash (of_nat (n_groups s) - 1) + of_nat (tri j)) AND (of_nat (n_groups s) - 1)) =
    hgrp (n_groups s) hash j"
  using probe_group [OF hs_geo_props(3,2) [OF assms]] by (simp add: hgrp_def)

lemma hs_tag_ge: "2 \<le> hs_tag hash"
proof -
  have "2 \<le> (if t < 2 then t + 2 else t)" for t :: u8
    by (simp add: word_less_nat_alt word_le_nat_alt unat_word_ariths)
  then show ?thesis by (simp add: hs_tag_def Let_def)
qed

lemma hs_tag_nonzero [simp]: "hs_tag hash \<noteq> 0"
  using hs_tag_ge [of hash] by auto

lemma overflow_bit_nonzero: "hs_overflow_bit hash \<noteq> 0"
proof -
  have "unat (drop_bit 48 hash AND 7) < 8"
  proof -
    have m: "(7 :: u64) = mask 3" by (simp add: mask_eq_exp_minus_1)
    have "unat (drop_bit 48 hash AND 7) = take_bit 3 (unat (drop_bit 48 hash))"
      unfolding m take_bit_eq_mask [symmetric] by (rule unsigned_take_bit_eq)
    then show ?thesis by (simp add: take_bit_eq_mod)
  qed
  then have "bit (hs_overflow_bit hash) (unat (drop_bit 48 hash AND 7))"
    by (simp add: hs_overflow_bit_def bit_simps)
  then show ?thesis by auto
qed

lemma match_mask_bit: "bit HS_MATCH_MASK i \<longleftrightarrow> i < 15"
proof -
  have "HS_MATCH_MASK = mask 15" by (simp add: HS_MATCH_MASK_def mask_eq_exp_minus_1)
  then show ?thesis unfolding \<open>HS_MATCH_MASK = mask 15\<close> by (auto simp: bit_mask_iff)
qed

lemma bit_hs_match:
  assumes "hs_geo s" "g < n_groups s" "length m = length (metadata s)"
  shows "bit (guage_group_match m (g * HS_META_SIZE) tag AND HS_MATCH_MASK) i \<longleftrightarrow> i < 15 \<and> mtag m g i = tag"
proof -
  have "g * 16 + 16 \<le> length m"
    using hs_geo_props(4) [OF assms(1)] assms(2,3) by simp
  then show ?thesis
    by (auto simp: bit_and_iff match_mask_bit bit_group_match mtag_def HS_META_SIZE_def)
qed

subsection \<open>Probing\<close>

definition hs_hit :: "('a \<Rightarrow> 'a \<Rightarrow> bool) \<Rightarrow> 'a hashset \<Rightarrow> 'a \<Rightarrow> u8 \<Rightarrow> nat \<Rightarrow> nat option" where
  "hs_hit eq s val tag g =
     List.find (\<lambda>b. mtag (metadata s) g b = tag \<and> elem_is eq val (elem s g b)) [0..<15]"

lemma hs_find_step:
  fixes s :: "'a hashset" and hash :: u64 and j :: nat
  assumes "hs_geo s"
  defines "gm \<equiv> of_nat (n_groups s) - 1"
  defines "g \<equiv> hgrp (n_groups s) hash j"
  shows "hashset_find_loop eq s val tag ob gm (hs_group_index hash gm) (of_nat (tri j)) (of_nat j) =
    (case hs_hit eq s val tag g of
       Some b \<Rightarrow> Some (int (g * 15 + b))
     | None \<Rightarrow> if mtag (metadata s) g 15 AND ob = 0 then Some (-1)
         else hashset_find_loop eq s val tag ob gm (hs_group_index hash gm) (of_nat (tri (Suc j))) (of_nat (Suc j)))"
proof -
  have off: "unat ((hs_group_index hash gm + of_nat (tri j)) AND gm) = g"
    using hs_probe_offset [OF assms(1)] by (simp add: g_def gm_def)
  have g: "g < n_groups s" using hgrp_less [OF assms(1)] by (simp add: g_def)
  have scan: "mask_scan (\<lambda>b. b < HS_GROUP_SLOTS \<and> elem_is eq val (elements s ! (g * 15 + b)))
      (guage_group_match (metadata s) (g * HS_META_SIZE) tag AND HS_MATCH_MASK) = hs_hit eq s val tag g"
    unfolding hs_hit_def
    by (subst mask_scan_find [OF bit_hs_match [OF assms(1) g refl]])
      (auto intro!: find_cong_set simp: elem_def HS_GROUP_SLOTS_def)
  have slot: "g * HS_GROUP_SLOTS = g * 15" "metadata s ! (g * HS_META_SIZE + HS_OFW_OFFSET) = mtag (metadata s) g 15"
    by (simp_all add: hs_consts mtag_def)
  show ?thesis
    by (subst hashset_find_loop.simps)
      (simp only: off scan slot Let_def tri_word_Suc of_nat_Suc_word)
qed

lemma hs_find_at:
  fixes s :: "'a hashset" and hash :: u64 and i n :: nat
  assumes "hs_geo s" and "i \<le> n"
  defines "gm \<equiv> of_nat (n_groups s) - 1"
  defines "g \<equiv> hgrp (n_groups s) hash"
  assumes "\<And>j. i \<le> j \<Longrightarrow> j < n \<Longrightarrow> hs_hit eq s val tag (g j) = None \<and> mtag (metadata s) (g j) 15 AND ob \<noteq> 0"
    and "hs_hit eq s val tag (g n) \<noteq> None \<or> mtag (metadata s) (g n) 15 AND ob = 0"
  shows "hashset_find_loop eq s val tag ob gm (hs_group_index hash gm) (of_nat (tri i)) (of_nat i) =
    Some (case hs_hit eq s val tag (g n) of Some b \<Rightarrow> int (g n * 15 + b) | None \<Rightarrow> -1)"
  using assms(2,5)
proof (induction rule: inc_induct)
  case base
  show ?case
    using assms(6) hs_find_step [OF assms(1), of eq val tag ob hash n, folded gm_def g_def]
    by (auto split: option.splits)
next
  case (step i)
  have "hs_hit eq s val tag (g i) = None" "mtag (metadata s) (g i) 15 AND ob \<noteq> 0"
    using step.prems [of i] step.hyps by auto
  then show ?case
    using step.IH [OF step.prems] hs_find_step [OF assms(1), of eq val tag ob hash i, folded gm_def g_def]
    by simp
qed

text \<open>Marking groups: one overflow bit is set in each.\<close>

definition mark :: "u8 \<Rightarrow> nat \<Rightarrow> u8 list \<Rightarrow> u8 list" where
  "mark b g m = m[g * 16 + 15 := m ! (g * 16 + 15) OR b]"

lemma length_mark [simp]: "length (fold (mark b) gs m) = length m"
  by (induction gs arbitrary: m) (simp_all add: mark_def)

lemma mark_tag:
  assumes "g < n" "length m = n * 16" "i < 16" "g' < n"
  shows "mtag (mark b g' m) g i = (if i = 15 \<and> g = g' then mtag m g i OR b else mtag m g i)"
proof -
  have "g * 16 + i < length m" "g' * 16 + 15 < length m"
    using flat_less [OF assms(1,3)] flat_less [OF assms(4), of 15 16] assms(2) by simp_all
  moreover have "g' * 16 + 15 = g * 16 + i \<longleftrightarrow> g = g' \<and> i = 15"
    using flat_inj [of 15 16 i g' g] assms(3) by auto
  ultimately show ?thesis by (auto simp: mtag_def mark_def nth_list_update)
qed

lemma marks_tag:
  "g < n \<Longrightarrow> length m = n * 16 \<Longrightarrow> i < 16 \<Longrightarrow> set gs \<subseteq> {..<n} \<Longrightarrow>
    mtag (fold (mark b) gs m) g i = (if i = 15 \<and> g \<in> set gs then mtag m g i OR b else mtag m g i)"
proof (induction gs arbitrary: m)
  case (Cons g' gs)
  have "length (mark b g' m) = n * 16" using Cons.prems by (simp add: mark_def)
  with Cons mark_tag [OF Cons.prems(1-3), of g' b] show ?case
    by (auto simp: or.assoc)
qed simp

lemma hs_insert_loop_at:
  fixes s :: "'a hashset" and hash :: u64 and i n :: nat and ob :: u8
  assumes "hs_geo s" and "i \<le> n"
  defines "gm \<equiv> of_nat (n_groups s) - 1"
  defines "g \<equiv> hgrp (n_groups s) hash"
  defines "ms \<equiv> \<lambda>i. fold (mark ob) (map g [0..<i]) (metadata s)"
  assumes "\<And>j. i \<le> j \<Longrightarrow> j < n \<Longrightarrow> \<forall>b < 15. mtag (metadata s) (g j) b \<noteq> 0"
    and "\<exists>b < 15. mtag (metadata s) (g n) b = 0"
  shows "\<exists>b < 15. mtag (metadata s) (g n) b = 0 \<and>
    hashset_find_insert_slot_loop ob gm (hs_group_index hash gm) (ms i) (of_nat (tri i)) (of_nat i) =
    Some (g n * 15 + b, ms n)"
  using assms(2,6)
proof (induction rule: inc_induct)
  have g: "g j < n_groups s" for j using hgrp_less [OF assms(1)] by (simp add: g_def)
  have off: "unat ((hs_group_index hash gm + of_nat (tri j)) AND gm) = g j" for j
    using hs_probe_offset [OF assms(1)] by (simp add: g_def gm_def)
  have len: "length (ms j) = length (metadata s)" for j by (simp add: ms_def)
  have tag: "mtag (ms k) (g j) b = mtag (metadata s) (g j) b" if "b < 15" for j k b
    unfolding ms_def using that g hs_geo_props(4) [OF assms(1)]
    by (subst marks_tag [of _ "n_groups s"]) auto
  let ?empty = "\<lambda>m j. guage_group_match m (g j * HS_META_SIZE) HS_TAG_EMPTY AND HS_MATCH_MASK"
  have bit: "bit (?empty (ms k) j) b \<longleftrightarrow> b < 15 \<and> mtag (metadata s) (g j) b = 0" for j k b
    using bit_hs_match [OF assms(1) g len] tag by (auto simp: HS_TAG_EMPTY_def)
  {
    case base
    have nz: "?empty (ms n) n \<noteq> 0" using assms(7) unfolding mask_nonzero_iff bit by blast
    then have "bit (?empty (ms n) n) (ctz (?empty (ms n) n))" by (rule ctz_props)
    then have "ctz (?empty (ms n) n) < 15" "mtag (metadata s) (g n) (ctz (?empty (ms n) n)) = 0"
      using bit by auto
    then show ?case
      using nz by (intro exI [of _ "ctz (?empty (ms n) n)"], subst hashset_find_insert_slot_loop.simps)
        (simp add: off Let_def guage_bitmask_next_def HS_GROUP_SLOTS_def)
  next
    case (step i)
    have "?empty (ms i) i = 0"
      using step.prems [of i] step.hyps bit [of i i] mask_nonzero_iff [of "?empty (ms i) i"] by auto
    moreover have "(ms i)[g i * HS_META_SIZE + HS_OFW_OFFSET := ms i ! (g i * HS_META_SIZE + HS_OFW_OFFSET) OR ob] = ms (Suc i)"
      by (simp add: ms_def mark_def hs_consts)
    ultimately have "hashset_find_insert_slot_loop ob gm (hs_group_index hash gm) (ms i) (of_nat (tri i)) (of_nat i) =
        hashset_find_insert_slot_loop ob gm (hs_group_index hash gm) (ms (Suc i)) (of_nat (tri (Suc i))) (of_nat (Suc i))"
      by (subst hashset_find_insert_slot_loop.simps)
        (simp only: off Let_def tri_word_Suc of_nat_Suc_word not_True_eq_False if_False simp_thms)
    then show ?case using step.IH [OF step.prems] by simp
  }
qed

lemma hs_insert_slot_spec:
  fixes s :: "'a hashset"
  assumes geo: "hs_geo s" and room: "hs_has_room s"
  obtains n g i where "hashset_find_insert_slot s hash =
      Some (g * 15 + i, s\<lparr>metadata := fold (mark (hs_overflow_bit hash)) (map (hgrp (n_groups s) hash) [0..<n]) (metadata s)\<rparr>)"
    "g = hgrp (n_groups s) hash n" "i < 15" "mtag (metadata s) g i = 0"
    "\<And>j. j < n \<Longrightarrow> \<forall>b < 15. mtag (metadata s) (hgrp (n_groups s) hash j) b \<noteq> 0"
proof -
  let ?g = "hgrp (n_groups s) hash"
  let ?free = "\<lambda>j. \<exists>b < 15. mtag (metadata s) (?g j) b = 0"
  obtain g0 where "g0 < n_groups s" "\<exists>b < 15. mtag (metadata s) g0 b = 0"
    using room by (auto simp: hs_has_room_def)
  then obtain j0 where "?free j0"
    using probe_visits [OF hs_geo_props(3) [OF geo]] unfolding hgrp_def by metis
  then obtain n where n: "?free n" "\<And>j. j < n \<Longrightarrow> \<not> ?free j"
    using least_from [of 0 ?free] by (metis zero_le)
  obtain b where "b < 15" "mtag (metadata s) (?g n) b = 0" and
    "hashset_find_insert_slot_loop (hs_overflow_bit hash) (of_nat (n_groups s) - 1)
      (hs_group_index hash (of_nat (n_groups s) - 1)) (metadata s) 0 0 =
      Some (?g n * 15 + b, fold (mark (hs_overflow_bit hash)) (map ?g [0..<n]) (metadata s))"
    using hs_insert_loop_at [OF geo, of 0 n hash "hs_overflow_bit hash"] n by auto
  then show thesis
    using that [of "?g n" b n] n by (simp add: hashset_find_insert_slot_def Let_def)
qed

subsection \<open>Correctness on a set of keys\<close>

lemma core_geo: "hs_core K eq h s \<Longrightarrow> hs_geo s"
  by (simp add: hs_core_def)

lemma core_elem:
  assumes "hs_core K eq h s" "g < n_groups s" "i < 15" "elem s g i = Some x"
  shows "x \<in> K" "mtag (metadata s) g i = hs_tag (h x)" "hprobed (metadata s) (n_groups s) (h x) g"
  using assms by (auto simp: hs_core_def)

lemma hs_core_unique:
  "hs_core K eq h s \<Longrightarrow> g < n_groups s \<Longrightarrow> i < 15 \<Longrightarrow> g' < n_groups s \<Longrightarrow> i' < 15 \<Longrightarrow>
    elem s g i = Some x \<Longrightarrow> elem s g' i' = Some y \<Longrightarrow> eq x y \<Longrightarrow> g = g' \<and> i = i'"
  unfolding hs_core_def by blast

lemma core_tag: "hs_core K eq h s \<Longrightarrow> g < n_groups s \<Longrightarrow> i < 15 \<Longrightarrow> elem s g i = None \<longleftrightarrow> mtag (metadata s) g i = 0"
  by (simp add: hs_core_def)

lemma flat_split:
  assumes "k < n * (m :: nat)"
  obtains g i where "g < n" "i < m" "k = g * m + i"
proof
  have "0 < m" using assms by (cases m) auto
  then show "k div m < n" "k mod m < m" "k = k div m * m + k mod m"
    using assms by (simp_all add: div_less_iff_less_mult)
qed

lemma mem_elem:
  assumes "hs_geo s"
  shows "hs_mem eq s y \<longleftrightarrow> (\<exists>g < n_groups s. \<exists>i < 15. \<exists>x. elem s g i = Some x \<and> eq x y)"
proof
  assume "hs_mem eq s y"
  then obtain k x where k: "k < length (elements s)" "elements s ! k = Some x" "eq x y"
    by (auto simp: hs_mem_def list_ex_iff elem_is_def in_set_conv_nth split: option.splits)
  then show "\<exists>g < n_groups s. \<exists>i < 15. \<exists>x. elem s g i = Some x \<and> eq x y"
    using flat_split [of k "n_groups s" 15] hs_geo_props(5) [OF assms] unfolding elem_def by metis
next
  assume "\<exists>g < n_groups s. \<exists>i < 15. \<exists>x. elem s g i = Some x \<and> eq x y"
  then obtain g i x where g: "g < n_groups s" "i < 15" "elements s ! (g * 15 + i) = Some x" "eq x y"
    by (auto simp: elem_def)
  have "g * 15 + i < length (elements s)"
    using flat_less [OF g(1,2)] hs_geo_props(5) [OF assms] by simp
  then have "Some x \<in> set (elements s)" using g(3) by (metis nth_mem)
  then show "hs_mem eq s y"
    using g(4) by (auto simp: hs_mem_def list_ex_iff elem_is_def intro!: bexI [of _ "Some x"])
qed

subsubsection \<open>Writing a slot\<close>

lemma store_simps [simp]:
  "n_groups (hs_store s k t e) = n_groups s" "size (hs_store s k t e) = size s"
  "ml_left (hs_store s k t e) = ml_left s"
  "length (metadata (hs_store s k t e)) = length (metadata s)"
  "length (elements (hs_store s k t e)) = length (elements s)"
  by (simp_all add: hs_store_def Let_def)

lemma store_geo: "hs_geo s \<Longrightarrow> hs_geo (hs_store s k t e)"
  by (simp add: hs_geo_def)

lemma store_elem:
  assumes "hs_geo s" "g < n_groups s" "i < 15" "g' < n_groups s" "i' < 15"
  shows "elem (hs_store s (g * 15 + i) t e) g' i' = (if g' = g \<and> i' = i then e else elem s g' i')"
proof -
  have "g * 15 + i < length (elements s)"
    using flat_less [OF assms(2,3)] hs_geo_props(5) [OF assms(1)] by simp
  moreover have "g * 15 + i = g' * 15 + i' \<longleftrightarrow> g = g' \<and> i = i'" by (rule flat_inj [OF assms(3,5)])
  ultimately show ?thesis
    using assms(3) by (auto simp: elem_def hs_store_def Let_def hs_consts nth_list_update)
qed

lemma store_tag:
  assumes "hs_geo s" "g < n_groups s" "i < 15" "g' < n_groups s" "i' < 16"
  shows "mtag (metadata (hs_store s (g * 15 + i) t e)) g' i' =
    (if g' = g \<and> i' = i then t else mtag (metadata s) g' i')"
proof -
  have "g * 16 + i < length (metadata s)"
    using flat_less [OF assms(2), of i 16] assms(3) hs_geo_props(4) [OF assms(1)] by simp
  moreover have "g * 16 + i = g' * 16 + i' \<longleftrightarrow> g = g' \<and> i = i'"
    using assms(3,5) by (intro flat_inj) auto
  ultimately show ?thesis
    using assms(3) by (auto simp: mtag_def hs_store_def Let_def hs_consts nth_list_update)
qed

subsubsection \<open>An insertion\<close>

definition marked :: "'a hashset \<Rightarrow> u64 \<Rightarrow> nat \<Rightarrow> 'a hashset" where
  "marked s hash n =
     s\<lparr>metadata := fold (mark (hs_overflow_bit hash)) (map (hgrp (n_groups s) hash) [0..<n]) (metadata s)\<rparr>"

lemma marked_simps [simp]:
  "n_groups (marked s hash n) = n_groups s" "size (marked s hash n) = size s"
  "ml_left (marked s hash n) = ml_left s" "elements (marked s hash n) = elements s"
  "elem (marked s hash n) g i = elem s g i"
  by (simp_all add: marked_def elem_def)

lemma marked_geo: "hs_geo s \<Longrightarrow> hs_geo (marked s hash n)"
  by (simp add: hs_geo_def marked_def)

lemma marked_tag:
  assumes "hs_geo s" "g < n_groups s" "i < 16"
  shows "mtag (metadata (marked s hash n)) g i =
    (if i = 15 \<and> (\<exists>j < n. g = hgrp (n_groups s) hash j) then mtag (metadata s) g i OR hs_overflow_bit hash
     else mtag (metadata s) g i)"
proof -
  have "set (map (hgrp (n_groups s) hash) [0..<n]) \<subseteq> {..<n_groups s}"
    using hgrp_less [OF assms(1)] by auto
  from marks_tag [OF assms(2) hs_geo_props(4) [OF assms(1)] assms(3) this] show ?thesis
    by (auto simp: marked_def)
qed

lemma or_and_nonzero: "a AND c \<noteq> 0 \<Longrightarrow> (a OR b) AND c \<noteq> (0 :: u8)"
  by (simp add: bit.conj_disj_distrib2 or_eq_0_iff)

lemma hs_core_insert:
  assumes core: "hs_core K eq h s" and x: "x \<in> K"
    and g: "g = hgrp (n_groups s) (h x) n" "i < 15" "mtag (metadata s) g i = 0"
    and absent: "\<And>g' i' y. g' < n_groups s \<Longrightarrow> i' < 15 \<Longrightarrow> elem s g' i' = Some y \<Longrightarrow> \<not> eq y x \<and> \<not> eq x y"
  shows "hs_core K eq h (hs_store (marked s (h x) n) (g * 15 + i) (hs_tag (h x)) (Some x))"
    (is "hs_core K eq h ?s")
proof -
  note geo = core_geo [OF core]
  note geo' = marked_geo [OF geo, of "h x" n]
  have gn: "g < n_groups s" using hgrp_less [OF geo] g(1) by simp
  have el: "elem ?s g' i' = (if g' = g \<and> i' = i then Some x else elem s g' i')"
    if "g' < n_groups s" "i' < 15" for g' i'
    using store_elem [OF geo', of g i g' i'] gn g(2) that by simp
  have tag: "mtag (metadata ?s) g' i' = (if g' = g \<and> i' = i then hs_tag (h x) else mtag (metadata (marked s (h x) n)) g' i')"
    if "g' < n_groups s" "i' < 16" for g' i'
    using store_tag [OF geo', of g i g' i'] gn g(2) that by simp
  have tag15: "mtag (metadata ?s) g' i' = (if g' = g \<and> i' = i then hs_tag (h x) else mtag (metadata s) g' i')"
    if "g' < n_groups s" "i' < 15" for g' i'
    using tag [of g' i'] marked_tag [OF geo, of g' i'] that by simp
  have ofw: "mtag (metadata ?s) g' 15 = (if \<exists>j < n. g' = hgrp (n_groups s) (h x) j
      then mtag (metadata s) g' 15 OR hs_overflow_bit (h x) else mtag (metadata s) g' 15)"
    if "g' < n_groups s" for g'
    using tag [of g' 15] marked_tag [OF geo, of g' 15] that g(2) by simp
  have mono: "mtag (metadata ?s) g' 15 AND b \<noteq> 0" if "g' < n_groups s" "mtag (metadata s) g' 15 AND b \<noteq> 0" for g' b
    using that or_and_nonzero by (auto simp: ofw)
  have probed: "hprobed (metadata ?s) (n_groups s) hash g'" if "hprobed (metadata s) (n_groups s) hash g'" for hash g'
    using that mono hgrp_less [OF geo] unfolding hprobed_def by blast
  have px: "hprobed (metadata ?s) (n_groups s) (h x) g"
    unfolding hprobed_def
  proof (intro exI [of _ n] conjI allI impI)
    fix j' assume "j' < n"
    then have "mtag (metadata ?s) (hgrp (n_groups s) (h x) j') 15 =
        mtag (metadata s) (hgrp (n_groups s) (h x) j') 15 OR hs_overflow_bit (h x)"
      using ofw [OF hgrp_less [OF geo]] by auto
    then show "mtag (metadata ?s) (hgrp (n_groups s) (h x) j') 15 AND hs_overflow_bit (h x) \<noteq> 0"
      using or_and_nonzero [of "hs_overflow_bit (h x)" "hs_overflow_bit (h x)"] overflow_bit_nonzero
      by (simp add: or.commute)
  qed (simp add: g)
  show ?thesis
    unfolding hs_core_def
  proof (intro conjI)
    show "hs_geo ?s" by (rule store_geo [OF geo'])
    show "\<forall>g' < n_groups ?s. \<forall>i' < 15. elem ?s g' i' = None \<longleftrightarrow> mtag (metadata ?s) g' i' = 0"
      using core_tag [OF core] by (auto simp: el tag15)
    show "\<forall>g' < n_groups ?s. \<forall>i' < 15. \<forall>y. elem ?s g' i' = Some y \<longrightarrow>
        y \<in> K \<and> mtag (metadata ?s) g' i' = hs_tag (h y) \<and> hprobed (metadata ?s) (n_groups ?s) (h y) g'"
      using core_elem [OF core] x px probed by (auto simp: el tag15)
    show "\<forall>g1 < n_groups ?s. \<forall>i1 < 15. \<forall>g2 < n_groups ?s. \<forall>i2 < 15. \<forall>y z.
        elem ?s g1 i1 = Some y \<longrightarrow> elem ?s g2 i2 = Some z \<longrightarrow> eq y z \<longrightarrow> g1 = g2 \<and> i1 = i2"
      using hs_core_unique [OF core] absent by (auto simp: el)
  qed
qed

subsubsection \<open>The load\<close>

lemma weight_le: "hs_weight s g \<le> 15"
proof -
  have "card {i. i < 15 \<and> elem s g i \<noteq> None} \<le> card {..<15 :: nat}"
    by (intro card_mono) auto
  then show ?thesis by (simp add: hs_weight_def)
qed

lemma room_of_load:
  assumes core: "hs_core K eq h s" and load: "hs_load s < n_groups s * 15"
  shows "hs_has_room s"
proof -
  have "\<exists>g < n_groups s. hs_weight s g < 15"
  proof (rule ccontr)
    assume "\<not> ?thesis"
    then have "(\<Sum>g < n_groups s. 15) \<le> hs_load s"
      unfolding hs_load_def by (intro sum_mono) (meson lessThan_iff not_less)
    with load show False by simp
  qed
  then obtain g where g: "g < n_groups s" "hs_weight s g < 15" by blast
  then have "mtag (metadata s) g 15 = 0" and occ: "card {i. i < 15 \<and> elem s g i \<noteq> None} < 15"
    by (auto simp: hs_weight_def split: if_splits)
  moreover have "\<exists>i < 15. elem s g i = None"
  proof (rule ccontr)
    assume "\<not> ?thesis"
    then have "{i. i < 15 \<and> elem s g i \<noteq> None} = {..<15}" by auto
    with occ show False by simp
  qed
  ultimately show ?thesis using g(1) core_tag [OF core g(1)] unfolding hs_has_room_def by blast
qed

lemma insert_load:
  assumes core: "hs_core K eq h s"
    and g: "g = hgrp (n_groups s) (h x) n" "i < 15" "mtag (metadata s) g i = 0"
    and passed: "\<And>j. j < n \<Longrightarrow> \<forall>b < 15. mtag (metadata s) (hgrp (n_groups s) (h x) j) b \<noteq> 0"
  defines "s' \<equiv> hs_store (marked s (h x) n) (g * 15 + i) (hs_tag (h x)) (Some x)"
  shows "hs_load s' \<le> hs_load s + 1" "hs_full s' = insert (g, i) (hs_full s)" "(g, i) \<notin> hs_full s"
proof -
  note geo = core_geo [OF core]
  note geo' = marked_geo [OF geo, of "h x" n]
  have gn: "g < n_groups s" using hgrp_less [OF geo] g(1) by simp
  have el: "elem s' g' i' = (if g' = g \<and> i' = i then Some x else elem s g' i')"
    if "g' < n_groups s" "i' < 15" for g' i'
    using store_elem [OF geo', of g i g' i'] gn g(2) that by (simp add: s'_def)
  have ofw: "mtag (metadata s') g' 15 = mtag (metadata (marked s (h x) n)) g' 15" if "g' < n_groups s" for g'
    using store_tag [OF geo', of g i g' 15] gn g(2) that by (simp add: s'_def)
  show "hs_full s' = insert (g, i) (hs_full s)"
    using gn g(2) el by (auto simp: hs_full_def s'_def)
  show "(g, i) \<notin> hs_full s"
    using core_tag [OF core gn g(2)] g(3) by (simp add: hs_full_def)
  have "hs_weight s' g' \<le> hs_weight s g' + (if g' = g then 1 else 0)" if g': "g' < n_groups s" for g'
  proof (cases "\<exists>j < n. g' = hgrp (n_groups s) (h x) j")
    case True
    then have "{b. b < 15 \<and> elem s g' b \<noteq> None} = {..<15}"
      using passed core_tag [OF core g'] by auto
    then have "hs_weight s g' = 15" by (simp add: hs_weight_def)
    then show ?thesis using weight_le [of s' g'] by simp
  next
    case False
    then have o: "mtag (metadata s') g' 15 = mtag (metadata s) g' 15"
      using False by (auto simp: ofw [OF g'] marked_tag [OF geo g'])
    have "{b. b < 15 \<and> elem s' g' b \<noteq> None} =
        (if g' = g then insert i {b. b < 15 \<and> elem s g' b \<noteq> None} else {b. b < 15 \<and> elem s g' b \<noteq> None})"
      using el [OF g'] g(2) by auto
    then show ?thesis
      by (simp add: hs_weight_def o card_insert_if)
  qed
  then have "hs_load s' \<le> (\<Sum>g' < n_groups s. hs_weight s g' + (if g' = g then 1 else 0))"
    unfolding hs_load_def s'_def store_simps marked_simps by (intro sum_mono) simp
  also have "\<dots> = hs_load s + 1"
    using gn by (simp add: sum.distrib hs_load_def)
  finally show "hs_load s' \<le> hs_load s + 1" .
qed

lemma full_finite [simp]: "finite (hs_full s)"
  by (rule finite_subset [of _ "{..<n_groups s} \<times> {..<15}"]) (auto simp: hs_full_def)

definition hs_absent :: "('a \<Rightarrow> 'a \<Rightarrow> bool) \<Rightarrow> 'a hashset \<Rightarrow> 'a \<Rightarrow> bool" where
  "hs_absent eq s x \<longleftrightarrow> (\<forall>g < n_groups s. \<forall>i < 15. \<forall>y. elem s g i = Some y \<longrightarrow> \<not> eq y x)"

lemma hs_hit_Some: "hs_hit eq s x tag g = Some b \<Longrightarrow> b < 15 \<and> (\<exists>y. elem s g b = Some y \<and> eq y x)"
  by (auto simp: hs_hit_def find_upt_eq_Some elem_is_def split: option.splits)

lemma hs_hit_None:
  "hs_hit eq s x tag g = None \<longleftrightarrow>
    (\<forall>b < 15. \<forall>y. mtag (metadata s) g b = tag \<longrightarrow> elem s g b = Some y \<longrightarrow> \<not> eq y x)"
  by (auto simp: hs_hit_def find_None_iff elem_is_def split: option.splits)

lemma hs_find_start:
  "hashset_find eq s x hash = hashset_find_loop eq s x (hs_tag hash) (hs_overflow_bit hash)
    (of_nat (n_groups s) - 1) (hs_group_index hash (of_nat (n_groups s) - 1)) (of_nat (tri 0)) (of_nat 0)"
  by (simp add: hashset_find_def Let_def)

context hash_keys
begin

lemma hs_find_spec:
  assumes core: "hs_core K eq h s" and room: "hs_has_room s" and x: "x \<in> K"
  obtains (found) g i y where "g < n_groups s" "i < 15" "elem s g i = Some y" "eq y x" "y \<in> K"
      "hashset_find eq s x (h x) = Some (int (g * 15 + i))"
    | (absent) "hs_absent eq s x" "hashset_find eq s x (h x) = Some (-1)"
proof -
  note geo = core_geo [OF core]
  let ?g = "hgrp (n_groups s) (h x)"
  let ?hit = "\<lambda>j. hs_hit eq s x (hs_tag (h x)) (?g j)"
  let ?open = "\<lambda>j. mtag (metadata s) (?g j) 15 AND hs_overflow_bit (h x) = 0"
  let ?stop = "\<lambda>j. ?hit j \<noteq> None \<or> ?open j"
  obtain g0 where "g0 < n_groups s" "mtag (metadata s) g0 15 = 0"
    using room by (auto simp: hs_has_room_def)
  then obtain j0 where "?stop j0"
    using probe_visits [OF hs_geo_props(3) [OF geo]] unfolding hgrp_def by (metis and_zero_eq and.commute)
  then obtain n where n: "?stop n" "\<And>j. j < n \<Longrightarrow> \<not> ?stop j"
    using least_from [of 0 ?stop] by (metis zero_le)
  have find: "hashset_find eq s x (h x) =
      Some (case ?hit n of Some b \<Rightarrow> int (?g n * 15 + b) | None \<Rightarrow> -1)"
    unfolding hs_find_start using n by (intro hs_find_at [OF geo]) auto
  show thesis
  proof (cases "?hit n")
    case (Some b)
    then obtain y where y: "b < 15" "elem s (?g n) b = Some y" "eq y x"
      using hs_hit_Some [of eq s x] by blast
    show thesis
      by (rule found [OF hgrp_less [OF geo] y core_elem(1) [OF core hgrp_less [OF geo] y(1,2)]])
        (simp add: find Some)
  next
    case None
    then have e: "?open n" using n(1) by simp
    have "\<not> eq y x" if gi: "g < n_groups s" "i < 15" "elem s g i = Some y" for g i y
    proof
      assume eq: "eq y x"
      note c = core_elem [OF core gi]
      have hash: "h y = h x" using eq_hash c(1) x eq by blast
      obtain j where j: "?g j = g" "\<And>j'. j' < j \<Longrightarrow> \<not> ?open j'"
        using c(3) unfolding hash hprobed_def by auto
      have "?hit j \<noteq> None"
        unfolding hs_hit_None using c(2) gi eq by (auto simp: j(1) hash)
      then have "\<not> j < n" "j \<noteq> n" using n(2) [of j] None by auto
      then show False using j(2) e by auto
    qed
    then have "hs_absent eq s x" by (auto simp: hs_absent_def)
    then show thesis using absent find None by auto
  qed
qed

lemma mem_absent: "hs_geo s \<Longrightarrow> hs_absent eq s x \<longleftrightarrow> \<not> hs_mem eq s x"
  unfolding hs_absent_def mem_elem by blast

text \<open>Inserting a fresh key: the invariant except for the counters, the load and the members.\<close>

lemma hs_insert_fresh:
  fixes s :: "'k hashset"
  assumes core: "hs_core K eq h s" and load: "hs_load s < n_groups s * 15" and x: "x \<in> K"
    and absent: "hs_absent eq s x"
  obtains slot s1 where "hashset_find_insert_slot s (h x) = Some (slot, s1)"
    "hs_core K eq h (hs_store s1 slot (hs_tag (h x)) (Some x))"
    "hs_load (hs_store s1 slot (hs_tag (h x)) (Some x)) \<le> hs_load s + 1"
    "card (hs_full (hs_store s1 slot (hs_tag (h x)) (Some x))) = card (hs_full s) + 1"
    "n_groups s1 = n_groups s" "size s1 = size s" "ml_left s1 = ml_left s"
    "\<And>y. hs_mem eq (hs_store s1 slot (hs_tag (h x)) (Some x)) y \<longleftrightarrow> eq x y \<or> hs_mem eq s y"
proof -
  note geo = core_geo [OF core]
  obtain n g i where ins: "hashset_find_insert_slot s (h x) = Some (g * 15 + i, marked s (h x) n)"
    and g: "g = hgrp (n_groups s) (h x) n" "i < 15" "mtag (metadata s) g i = 0"
    and passed: "\<And>j. j < n \<Longrightarrow> \<forall>b < 15. mtag (metadata s) (hgrp (n_groups s) (h x) j) b \<noteq> 0"
    by (rule hs_insert_slot_spec [OF geo room_of_load [OF core load], of "h x", folded marked_def])
      (rule that, assumption+)
  let ?s = "hs_store (marked s (h x) n) (g * 15 + i) (hs_tag (h x)) (Some x)"
  have "\<not> eq y x \<and> \<not> eq x y" if "g' < n_groups s" "i' < 15" "elem s g' i' = Some y" for g' i' y
    using absent that core_elem(1) [OF core that] x eq_sym unfolding hs_absent_def by blast
  then have core': "hs_core K eq h ?s" by (rule hs_core_insert [OF core x g])
  have load': "hs_load ?s \<le> hs_load s + 1" and full: "hs_full ?s = insert (g, i) (hs_full s)" "(g, i) \<notin> hs_full s"
    using insert_load [OF core g passed] by auto
  have gn: "g < n_groups s" using hgrp_less [OF geo] g(1) by simp
  have el: "elem ?s g' i' = (if g' = g \<and> i' = i then Some x else elem s g' i')"
    if "g' < n_groups s" "i' < 15" for g' i'
    using store_elem [OF marked_geo [OF geo, of "h x" n], of g i g' i'] gn g(2) that by simp
  have none: "elem s g i = None" using core_tag [OF core gn g(2)] g(3) by simp
  have mem: "hs_mem eq ?s y \<longleftrightarrow> eq x y \<or> hs_mem eq s y" for y
    unfolding mem_elem [OF core_geo [OF core']] mem_elem [OF geo] store_simps marked_simps
  proof
    assume "\<exists>g' < n_groups s. \<exists>i' < 15. \<exists>z. elem ?s g' i' = Some z \<and> eq z y"
    then show "eq x y \<or> (\<exists>g' < n_groups s. \<exists>i' < 15. \<exists>z. elem s g' i' = Some z \<and> eq z y)"
      using el by (metis option.inject)
  next
    assume "eq x y \<or> (\<exists>g' < n_groups s. \<exists>i' < 15. \<exists>z. elem s g' i' = Some z \<and> eq z y)"
    then show "\<exists>g' < n_groups s. \<exists>i' < 15. \<exists>z. elem ?s g' i' = Some z \<and> eq z y"
      using el gn g(2) none by (metis option.distinct(1))
  qed
  show thesis
    by (rule that [OF ins core' load']) (simp_all add: full mem)
qed

end

subsubsection \<open>The occupied slots\<close>

lemma map_product_flat:
  "map (\<lambda>(g, i). f (g * m + i)) (List.product [0..<n] [0..<m]) = map f [0..<n * (m :: nat)]"
proof (induction n)
  case (Suc n)
  have "List.product (xs @ [x]) ys = List.product xs ys @ map (Pair x) ys"
    for xs :: "nat list" and ys :: "nat list" and x :: nat
    by (induction xs) simp_all
  then have "map (\<lambda>(g, i). f (g * m + i)) (List.product [0..<Suc n] [0..<m]) =
      map f [0..<n * m] @ map (\<lambda>i. f (n * m + i)) [0..<m]"
    using Suc by (simp add: comp_def)
  also have "map (\<lambda>i. f (n * m + i)) [0..<m] = map f [n * m..<n * m + m]"
    by (simp add: list_eq_iff_nth_eq)
  finally have "map (\<lambda>(g, i). f (g * m + i)) (List.product [0..<Suc n] [0..<m]) =
      map f ([0..<n * m] @ [n * m..<n * m + m])" by simp
  also have "[0..<n * m] @ [n * m..<n * m + m] = [0..<Suc n * m]"
    using upt_add_eq_append [of 0 "n * m" m] by (simp add: add.commute)
  finally show ?case .
qed simp

lemma occupied_tag:
  assumes core: "hs_core K eq h s" and g: "g < n_groups s" "i < 15"
  shows "2 \<le> metadata s ! (g * HS_META_SIZE + i) \<longleftrightarrow> elements s ! (g * HS_GROUP_SLOTS + i) \<noteq> None"
proof (cases "elem s g i")
  case None
  then show ?thesis using core_tag [OF core g] by (simp add: elem_def mtag_def hs_consts)
next
  case (Some x)
  then show ?thesis
    using core_elem(2) [OF core g Some] hs_tag_ge [of "h x"] by (simp add: elem_def mtag_def hs_consts)
qed

lemma occupied_filter:
  assumes core: "hs_core K eq h s"
  shows "hs_occupied s = filter (\<lambda>e. e \<noteq> None) (elements s)"
proof -
  let ?e = "\<lambda>(g, i). elements s ! (g * HS_GROUP_SLOTS + i)"
  have "filter (\<lambda>(g, i). 2 \<le> metadata s ! (g * HS_META_SIZE + i)) (hs_slots s) =
      filter (\<lambda>p. ?e p \<noteq> None) (hs_slots s)"
    using occupied_tag [OF core] by (intro filter_cong) (auto simp: hs_slots_def HS_GROUP_SLOTS_def)
  then have "hs_occupied s = filter (\<lambda>e. e \<noteq> None) (map ?e (hs_slots s))"
    by (simp add: hs_occupied_def filter_map comp_def)
  also have "map ?e (hs_slots s) = map ((!) (elements s)) [0..<n_groups s * 15]"
    unfolding hs_slots_def by (simp add: HS_GROUP_SLOTS_def map_product_flat)
  also have "\<dots> = elements s"
    using hs_geo_props(5) [OF core_geo [OF core]] by (metis map_nth)
  finally show ?thesis .
qed

definition same_elem :: "('a \<Rightarrow> 'a \<Rightarrow> bool) \<Rightarrow> 'a option \<Rightarrow> 'a option \<Rightarrow> bool" where
  "same_elem eq a b \<longleftrightarrow> (\<exists>x y. a = Some x \<and> b = Some y \<and> eq x y)"

lemma elements_distinct:
  assumes core: "hs_core K eq h s"
  shows "sorted_wrt (\<lambda>a b. \<not> same_elem eq a b) (elements s)"
  unfolding sorted_wrt_iff_nth_less
proof (intro allI impI notI)
  fix k l assume kl: "k < l" "l < length (elements s)" and e: "same_elem eq (elements s ! k) (elements s ! l)"
  have len: "length (elements s) = n_groups s * 15" using hs_geo_props(5) [OF core_geo [OF core]] .
  have kn: "k < n_groups s * 15" and ln: "l < n_groups s * 15" using kl len by simp_all
  from kn obtain g i where k: "g < n_groups s" "i < 15" "k = g * 15 + i" by (rule flat_split)
  from ln obtain g' i' where l: "g' < n_groups s" "i' < 15" "l = g' * 15 + i'" by (rule flat_split)
  obtain x y where "elem s g i = Some x" "elem s g' i' = Some y" "eq x y"
    using e by (auto simp: same_elem_def elem_def k l)
  then have "g = g' \<and> i = i'" by (rule hs_core_unique [OF core k(1,2) l(1,2)])
  with kl k l show False by simp
qed

lemma occupied_props:
  assumes core: "hs_core K eq h s"
  shows "length (hs_occupied s) = card (hs_full s)"
    and "sorted_wrt (\<lambda>a b. \<not> same_elem eq a b) (hs_occupied s)"
    and "e \<in> set (hs_occupied s) \<Longrightarrow> \<exists>x \<in> K. e = Some x"
    and "hs_mem eq s y \<longleftrightarrow> (\<exists>x. Some x \<in> set (hs_occupied s) \<and> eq x y)"
proof -
  note occ = occupied_filter [OF core]
  have len: "length (elements s) = n_groups s * 15" using hs_geo_props(5) [OF core_geo [OF core]] .
  show "sorted_wrt (\<lambda>a b. \<not> same_elem eq a b) (hs_occupied s)"
    unfolding occ by (intro sorted_wrt_filter elements_distinct [OF core])
  show "hs_mem eq s y \<longleftrightarrow> (\<exists>x. Some x \<in> set (hs_occupied s) \<and> eq x y)"
    by (auto simp: occ hs_mem_def list_ex_iff elem_is_def split: option.splits)
  show "\<exists>x \<in> K. e = Some x" if e: "e \<in> set (hs_occupied s)"
  proof -
    obtain k x where k: "k < n_groups s * 15" "elements s ! k = Some x" "e = Some x"
      using e by (auto simp: occ in_set_conv_nth len)
    from k(1) obtain g i where "g < n_groups s" "i < 15" "k = g * 15 + i" by (rule flat_split)
    with k core_elem(1) [OF core] show ?thesis by (auto simp: elem_def)
  qed
  have "bij_betw (\<lambda>(g, i). g * 15 + i) (hs_full s) {k. k < length (elements s) \<and> elements s ! k \<noteq> None}"
  proof (rule bij_betw_imageI)
    show "inj_on (\<lambda>(g, i). g * 15 + i) (hs_full s)"
      by (rule inj_onI) (auto simp: hs_full_def flat_inj)
    show "(\<lambda>(g, i). g * 15 + i) ` hs_full s = {k. k < length (elements s) \<and> elements s ! k \<noteq> None}" (is "_ = ?R")
    proof
      show "(\<lambda>(g, i). g * 15 + i) ` hs_full s \<subseteq> ?R"
        using flat_less [of _ "n_groups s" _ 15] by (auto simp: hs_full_def elem_def len)
      show "?R \<subseteq> (\<lambda>(g, i). g * 15 + i) ` hs_full s"
      proof
        fix k assume "k \<in> ?R"
        then have k: "k < n_groups s * 15" "elements s ! k \<noteq> None" by (simp_all add: len)
        from k(1) obtain g i where "g < n_groups s" "i < 15" "k = g * 15 + i" by (rule flat_split)
        with k(2) show "k \<in> (\<lambda>(g, i). g * 15 + i) ` hs_full s"
          by (intro image_eqI [of _ _ "(g, i)"]) (auto simp: hs_full_def elem_def)
      qed
    qed
  qed
  then have "card (hs_full s) = card {k. k < length (elements s) \<and> elements s ! k \<noteq> None}"
    by (rule bij_betw_same_card)
  then show "length (hs_occupied s) = card (hs_full s)"
    by (simp only: occ length_filter_conv_card)
qed

lemma full_le_load: "card (hs_full s) \<le> hs_load s"
proof -
  have "hs_full s = (SIGMA g : {..<n_groups s}. {i. i < 15 \<and> elem s g i \<noteq> None})"
    by (auto simp: hs_full_def)
  then have "card (hs_full s) = (\<Sum>g < n_groups s. card {i. i < 15 \<and> elem s g i \<noteq> None})"
    by (simp add: card_SigmaI)
  also have "\<dots> \<le> hs_load s"
    unfolding hs_load_def
  proof (rule sum_mono)
    fix g
    have "card {i. i < 15 \<and> elem s g i \<noteq> None} \<le> card {..<15 :: nat}" by (intro card_mono) auto
    then show "card {i. i < 15 \<and> elem s g i \<noteq> None} \<le> hs_weight s g" by (simp add: hs_weight_def)
  qed
  finally show ?thesis .
qed

lemma new_props:
  fixes n z l :: nat
  assumes "is_pow2 n" "n \<le> 2 ^ 28"
  defines "s \<equiv> \<lparr>metadata = replicate (n * HS_META_SIZE) HS_TAG_EMPTY, elements = replicate (n * HS_GROUP_SLOTS) None,
    size = z, n_groups = n, ml_left = l\<rparr>"
  shows "hs_core K eq h s" "hs_full s = {}" "hs_load s = 0" "\<not> hs_mem eq s y"
proof -
  have e: "elem s g i = None" if "g < n" "i < 15" for g i
    using flat_less [OF that] by (simp add: s_def elem_def HS_GROUP_SLOTS_def)
  have t: "mtag (metadata s) g i = 0" if "g < n" "i < 16" for g i
    using flat_less [OF that] by (simp add: s_def mtag_def hs_consts)
  have geo: "hs_geo s" using assms by (simp add: hs_geo_def hs_consts)
  show "hs_core K eq h s"
    using e t geo by (auto simp: hs_core_def s_def)
  show "hs_full s = {}" using e by (auto simp: hs_full_def s_def)
  have "n_groups s = n" by (simp add: s_def)
  then show "hs_load s = 0"
    using e t unfolding hs_load_def hs_weight_def by (auto intro!: sum.neutral)
  show "\<not> hs_mem eq s y"
    using e \<open>n_groups s = n\<close> by (auto simp: mem_elem [OF geo])
qed

context hash_keys
begin

lemma hs_resize_spec:
  fixes s :: "'k hashset"
  assumes inv: "hs_inv K eq h s" and n: "is_pow2 n" "n_groups s \<le> n" "n \<le> 2 ^ 28"
  shows "\<exists>t. hashset_resize h s n = Some t \<and> hs_inv K eq h t \<and> n_groups t = n \<and> size t = size s \<and>
    ml_left t = n * 13 - size s \<and> (\<forall>y. hs_mem eq t y = hs_mem eq s y)"
proof -
  have core: "hs_core K eq h s" and sz: "size s = card (hs_full s)" and load: "hs_load s + ml_left s \<le> n_groups s * 13"
    using inv by (auto simp: hs_inv_def)
  note occ = occupied_props [OF core]
  let ?es = "hs_occupied s"
  have len: "length ?es = size s" using occ(1) sz by simp
  have le: "size s \<le> n * 13" using full_le_load [of s] sz load n(2) by simp
  have n13: "n * 13 < 2 ^ 32" using n(3) by simp
  have ml: "sub32 (mul32 n 13) (size s) = n * 13 - size s"
    using le n13 by (simp only: mul32_exact sub32_exact)
  define t0 :: "'k hashset" where "t0 = \<lparr>metadata = replicate (n * HS_META_SIZE) HS_TAG_EMPTY,
    elements = replicate (n * HS_GROUP_SLOTS) None, size = size s, n_groups = n, ml_left = n * 13 - size s\<rparr>"
  let ?I = "\<lambda>i t. hs_core K eq h t \<and> n_groups t = n \<and> size t = size s \<and> ml_left t = n * 13 - size s \<and>
    card (hs_full t) = i \<and> hs_load t \<le> i \<and> (\<forall>y. hs_mem eq t y \<longleftrightarrow> (\<exists>x. Some x \<in> set (take i ?es) \<and> eq x y))"
  have "?I 0 t0"
    unfolding t0_def
    using new_props(1) [OF n(1,3), where K = K and eq = eq and h = h and z = "size s" and l = "n * 13 - size s"]
      new_props(2-4) [OF n(1,3), where 'a = 'k and z = "size s" and l = "n * 13 - size s"] by auto
  moreover have "\<exists>t'. hashset_reinsert h (?es ! i) t = Some t' \<and> ?I (Suc i) t'"
    if i: "i < length ?es" and I: "?I i t" for i t
  proof -
    obtain x where x: "x \<in> K" "?es ! i = Some x" using occ(3) [of "?es ! i"] i by auto
    have "\<not> hs_mem eq t x"
    proof
      assume "hs_mem eq t x"
      then obtain l z where l: "l < i" "?es ! l = Some z" "eq z x"
        using I i by (auto simp: in_set_conv_nth)
      have "\<not> same_elem eq (?es ! l) (?es ! i)"
        using occ(2) l(1) i unfolding sorted_wrt_iff_nth_less by blast
      then show False using l x by (auto simp: same_elem_def)
    qed
    then have ab: "hs_absent eq t x" using mem_absent core_geo I by blast
    have ld: "hs_load t < n_groups t * 15" using I i len le by linarith
    obtain slot t1 where t1: "hashset_find_insert_slot t (h x) = Some (slot, t1)"
      "hs_core K eq h (hs_store t1 slot (hs_tag (h x)) (Some x))"
      "hs_load (hs_store t1 slot (hs_tag (h x)) (Some x)) \<le> hs_load t + 1"
      "card (hs_full (hs_store t1 slot (hs_tag (h x)) (Some x))) = card (hs_full t) + 1"
      "n_groups t1 = n_groups t" "size t1 = size t" "ml_left t1 = ml_left t"
      and mem: "\<And>y. hs_mem eq (hs_store t1 slot (hs_tag (h x)) (Some x)) y \<longleftrightarrow> eq x y \<or> hs_mem eq t y"
      using hs_insert_fresh [OF conjunct1 [OF I] ld x(1) ab] by blast
    have "hashset_reinsert h (?es ! i) t = Some (hs_store t1 slot (hs_tag (h x)) (Some x))"
      by (simp add: hashset_reinsert_def x t1(1))
    moreover have "?I (Suc i) (hs_store t1 slot (hs_tag (h x)) (Some x))"
      using t1 I x(2) i by (auto simp: mem take_Suc_conv_app_nth)
    ultimately show ?thesis by blast
  qed
  ultimately obtain t where t: "ofold (hashset_reinsert h) ?es t0 = Some t" "?I (length ?es) t"
    using ofold_rule [of ?I t0 ?es "hashset_reinsert h"] by blast
  have "hashset_resize h s n = Some t"
    using t(1) by (simp add: hashset_resize_def Let_def ml t0_def)
  moreover have "hs_inv K eq h t"
    unfolding hs_inv_def using t(2) len le by auto
  ultimately show ?thesis using t(2) occ(4) by simp
qed

lemma hs_inv_core: "hs_inv K eq h s \<Longrightarrow> hs_core K eq h s"
  by (simp add: hs_inv_def)

lemma hs_inv_load:
  assumes "hs_inv K eq h s"
  shows "hs_load s + ml_left s \<le> n_groups s * 13" "hs_load s < n_groups s * 15" "size s = card (hs_full s)"
    "size s + ml_left s \<le> n_groups s * 13"
proof -
  show a: "hs_load s + ml_left s \<le> n_groups s * 13" and c: "size s = card (hs_full s)"
    using assms by (simp_all add: hs_inv_def)
  have "0 < n_groups s" using hs_geo_props(1) [OF core_geo [OF hs_inv_core [OF assms]]] .
  with a show "hs_load s < n_groups s * 15" by linarith
  show "size s + ml_left s \<le> n_groups s * 13" using a c full_le_load [of s] by linarith
qed

lemma hs_inv_room: "hs_inv K eq h s \<Longrightarrow> hs_has_room s"
  by (rule room_of_load [OF hs_inv_core hs_inv_load(2)])

lemma hs_size_0:
  assumes "hs_inv K eq h s" "size s = 0"
  shows "\<not> hs_mem eq s x"
proof -
  have "hs_full s = {}" using hs_inv_load(3) [OF assms(1)] assms(2) by simp
  then show ?thesis
    unfolding mem_elem [OF core_geo [OF hs_inv_core [OF assms(1)]]] by (auto simp: hs_full_def)
qed

lemma hs_has_spec:
  assumes inv: "hs_inv K eq h s" and x: "x \<in> K"
  shows "cell_hashset_has eq h s x = Some (hs_mem eq s x)"
proof (cases "size s = 0")
  case True
  then show ?thesis using hs_size_0 [OF inv] by (simp add: cell_hashset_has_def)
next
  case False
  note core = hs_inv_core [OF inv]
  show ?thesis
    using core hs_inv_room [OF inv] x
  proof (cases rule: hs_find_spec)
    case (found g i y)
    then have "hs_mem eq s x" unfolding mem_elem [OF core_geo [OF core]] by blast
    then show ?thesis using found False by (simp add: cell_hashset_has_def)
  next
    case absent
    then have "\<not> hs_mem eq s x" using mem_absent [OF core_geo [OF core]] by blast
    then show ?thesis using absent False by (simp add: cell_hashset_has_def)
  qed
qed

text \<open>Room for \<open>n\<close> more additions: no resize is due, or the set only ever grew.\<close>

end

definition hs_room :: "'a hashset \<Rightarrow> nat \<Rightarrow> bool" where
  "hs_room s n \<longleftrightarrow> n \<le> ml_left s \<or> size s + ml_left s = n_groups s * 13 \<and> size s + n \<le> 2 ^ 28"

context hash_keys
begin

lemma hs_add_spec:
  fixes s :: "'k hashset"
  assumes inv: "hs_inv K eq h s" and x: "x \<in> K" and room: "hs_room s (Suc n)"
  shows "\<exists>s'. cell_hashset_add eq h s x = Some (\<not> hs_mem eq s x, s') \<and> hs_inv K eq h s' \<and> hs_room s' n \<and>
    (\<forall>y \<in> K. hs_mem eq s' y \<longleftrightarrow> eq x y \<or> hs_mem eq s y)"
  using hs_inv_core [OF inv] hs_inv_room [OF inv] x
proof (cases rule: hs_find_spec)
  case (found g i z)
  note core = hs_inv_core [OF inv]
  have mem: "hs_mem eq s x" unfolding mem_elem [OF core_geo [OF core]] using found by blast
  have "hs_mem eq s y" if "y \<in> K" "eq x y" for y
    unfolding mem_elem [OF core_geo [OF core]] using found that eq_trans [OF _ x] by blast
  moreover have "cell_hashset_add eq h s x = Some (False, s)"
    by (simp add: cell_hashset_add_def found(6))
  ultimately show ?thesis using mem inv room by (auto simp: hs_room_def)
next
  case absent
  note core = hs_inv_core [OF inv]
  have nomem: "\<not> hs_mem eq s x" using absent mem_absent [OF core_geo [OF core]] by blast
  obtain s0 where s0: "(if ml_left s = 0 then hashset_resize h s (mul32 (n_groups s) 2) else Some s) = Some s0"
    "hs_inv K eq h s0" "ml_left s0 \<noteq> 0" "\<And>y. hs_mem eq s0 y = hs_mem eq s y" "hs_room s0 (Suc n)"
  proof (cases "ml_left s = 0")
    case True
    then have r: "size s = n_groups s * 13" "size s + Suc n \<le> 2 ^ 28"
      using room by (auto simp: hs_room_def)
    then have ng: "n_groups s \<le> 2 ^ 27" by simp
    have p2: "is_pow2 (2 * n_groups s)" using hs_geo_props(3) [OF core_geo [OF core]] by blast
    have m: "mul32 (n_groups s) 2 = 2 * n_groups s" using ng by (simp add: mul32_exact mult.commute)
    have pos: "0 < n_groups s" using hs_geo_props(1) [OF core_geo [OF core]] .
    obtain t where t: "hashset_resize h s (2 * n_groups s) = Some t" "hs_inv K eq h t" "n_groups t = 2 * n_groups s"
      "size t = size s" "ml_left t = 2 * n_groups s * 13 - size s" "\<forall>y. hs_mem eq t y = hs_mem eq s y"
      using hs_resize_spec [OF inv p2] ng by auto
    show thesis
      using that [of t] True t r pos m by (simp add: hs_room_def)
  next
    case False
    then show thesis using that inv room by simp
  qed
  note core0 = hs_inv_core [OF s0(2)]
  have ab: "hs_absent eq s0 x" using s0(4) nomem mem_absent [OF core_geo [OF core0]] by simp
  obtain slot s1 where s1: "hashset_find_insert_slot s0 (h x) = Some (slot, s1)"
    "hs_core K eq h (hs_store s1 slot (hs_tag (h x)) (Some x))"
    "hs_load (hs_store s1 slot (hs_tag (h x)) (Some x)) \<le> hs_load s0 + 1"
    "card (hs_full (hs_store s1 slot (hs_tag (h x)) (Some x))) = card (hs_full s0) + 1"
    "n_groups s1 = n_groups s0" "size s1 = size s0" "ml_left s1 = ml_left s0"
    and mem: "\<And>y. hs_mem eq (hs_store s1 slot (hs_tag (h x)) (Some x)) y \<longleftrightarrow> eq x y \<or> hs_mem eq s0 y"
    using hs_insert_fresh [OF core0 hs_inv_load(2) [OF s0(2)] x ab] by blast
  define t where "t = hs_store s1 slot (hs_tag (h x)) (Some x)"
  define s' where "s' = t\<lparr>size := size s0 + 1, ml_left := ml_left s0 - 1\<rparr>"
  have add: "cell_hashset_add eq h s x = Some (True, s')"
    by (simp add: cell_hashset_add_def absent(2) s0(1) s1(1,6,7) Let_def s'_def t_def)
  have "hs_core K eq h s' = hs_core K eq h t"
    by (simp add: hs_core_def hs_geo_def elem_def s'_def)
  moreover have "hs_full s' = hs_full t" "hs_load s' = hs_load t"
    by (simp_all add: hs_full_def hs_load_def hs_weight_def s'_def cong: if_cong)
  ultimately have inv': "hs_inv K eq h s'"
    using s1(2-5) hs_inv_load [OF s0(2)] s0(3) by (simp add: hs_inv_def flip: t_def) (simp add: s'_def t_def)
  have room': "hs_room s' n"
    using s0(3,5) s1(5) by (auto simp: hs_room_def s'_def t_def)
  have "hs_mem eq s' y \<longleftrightarrow> eq x y \<or> hs_mem eq s y" for y
    using mem [of y, folded t_def] s0(4) by (simp add: hs_mem_def s'_def)
  with add inv' room' nomem show ?thesis by auto
qed

lemma hs_remove_spec:
  fixes s :: "'k hashset"
  assumes inv: "hs_inv K eq h s" and x: "x \<in> K"
  shows "\<exists>s'. cell_hashset_remove eq h s x = Some (hs_mem eq s x, s') \<and> hs_inv K eq h s' \<and>
    (\<forall>y \<in> K. hs_mem eq s' y \<longleftrightarrow> \<not> eq x y \<and> hs_mem eq s y) \<and> ml_left s' = ml_left s"
  using hs_inv_core [OF inv] hs_inv_room [OF inv] x
proof (cases rule: hs_find_spec)
  case absent
  note geo = core_geo [OF hs_inv_core [OF inv]]
  have nomem: "\<not> hs_mem eq s x" using absent mem_absent [OF geo] by blast
  have "\<not> hs_mem eq s y" if "y \<in> K" "eq x y" for y
  proof
    assume "hs_mem eq s y"
    then obtain g i z where z: "g < n_groups s" "i < 15" "elem s g i = Some z" "eq z y"
      unfolding mem_elem [OF geo] by blast
    have "z \<in> K" using core_elem(1) [OF hs_inv_core [OF inv] z(1-3)] .
    then have "eq z x" using z(4) that x by (meson eq_sym eq_trans)
    with z nomem show False unfolding mem_elem [OF geo] by blast
  qed
  then show ?thesis using nomem inv by (auto simp: cell_hashset_remove_def absent(2))
next
  case (found g i z)
  note core = hs_inv_core [OF inv]
  note geo = core_geo [OF core]
  have mem: "hs_mem eq s x" unfolding mem_elem [OF geo] using found by blast
  define t where "t = hs_store s (g * 15 + i) HS_TAG_EMPTY None"
  define s' where "s' = t\<lparr>size := size s - 1\<rparr>"
  have del: "cell_hashset_remove eq h s x = Some (True, s')"
    by (simp add: cell_hashset_remove_def found(6) Let_def s'_def t_def nat_add_distrib nat_mult_distrib)
  have el: "elem t g' i' = (if g' = g \<and> i' = i then None else elem s g' i')" if "g' < n_groups s" "i' < 15" for g' i'
    using store_elem [OF geo found(1,2) that] by (simp add: t_def)
  have tag: "mtag (metadata t) g' i' = (if g' = g \<and> i' = i then 0 else mtag (metadata s) g' i')"
    if "g' < n_groups s" "i' < 16" for g' i'
    using store_tag [OF geo found(1,2) that] by (simp add: t_def HS_TAG_EMPTY_def)
  have ofw: "mtag (metadata t) g' 15 = mtag (metadata s) g' 15" if "g' < n_groups s" for g'
    using tag [OF that, of 15] found(2) by simp
  have ng: "n_groups t = n_groups s" by (simp add: t_def)
  have probed: "hprobed (metadata t) (n_groups s) hash g' = hprobed (metadata s) (n_groups s) hash g'" for hash g'
    unfolding hprobed_def using ofw hgrp_less [OF geo] by simp
  have core_t: "hs_core K eq h t"
    unfolding hs_core_def ng
  proof (intro conjI)
    show "hs_geo t" unfolding t_def by (rule store_geo [OF geo])
    show "\<forall>g' < n_groups s. \<forall>i' < 15. elem t g' i' = None \<longleftrightarrow> mtag (metadata t) g' i' = 0"
      using core_tag [OF core] by (auto simp: el tag)
    show "\<forall>g' < n_groups s. \<forall>i' < 15. \<forall>y. elem t g' i' = Some y \<longrightarrow>
        y \<in> K \<and> mtag (metadata t) g' i' = hs_tag (h y) \<and> hprobed (metadata t) (n_groups s) (h y) g'"
      using core_elem [OF core] probed by (auto simp: el tag)
    show "\<forall>g1 < n_groups s. \<forall>i1 < 15. \<forall>g2 < n_groups s. \<forall>i2 < 15. \<forall>y z.
        elem t g1 i1 = Some y \<longrightarrow> elem t g2 i2 = Some z \<longrightarrow> eq y z \<longrightarrow> g1 = g2 \<and> i1 = i2"
      using hs_core_unique [OF core] by (auto simp: el)
  qed
  have full: "hs_full t = hs_full s - {(g, i)}" using el found(2) by (auto simp: hs_full_def ng split: if_splits)
  have "hs_weight t g' \<le> hs_weight s g'" if g': "g' < n_groups s" for g'
  proof -
    have "card {b. b < 15 \<and> elem t g' b \<noteq> None} \<le> card {b. b < 15 \<and> elem s g' b \<noteq> None}"
      using el [OF g'] by (intro card_mono) (auto split: if_splits)
    then show ?thesis by (simp add: hs_weight_def ofw [OF g'])
  qed
  then have load: "hs_load t \<le> hs_load s" unfolding hs_load_def ng by (intro sum_mono) simp
  have "hs_core K eq h s' = hs_core K eq h t"
    by (simp add: hs_core_def hs_geo_def elem_def s'_def)
  moreover have "hs_full s' = hs_full t" "hs_load s' = hs_load t"
    by (simp_all add: hs_full_def hs_load_def hs_weight_def s'_def cong: if_cong)
  moreover have "(g, i) \<in> hs_full s" using found by (simp add: hs_full_def)
  ultimately have inv': "hs_inv K eq h s'"
    using core_t full load hs_inv_load [OF inv] by (simp add: hs_inv_def) (simp add: s'_def t_def)
  have "hs_mem eq s' y \<longleftrightarrow> \<not> eq x y \<and> hs_mem eq s y" if y: "y \<in> K" for y
  proof -
    have zy: "eq z y \<longleftrightarrow> eq x y" by (rule eq_iff [OF found(5) x y found(4)])
    have "hs_mem eq s' y \<longleftrightarrow> hs_mem eq t y" by (simp add: hs_mem_def s'_def)
    also have "\<dots> \<longleftrightarrow> (\<exists>g' < n_groups s. \<exists>i' < 15. \<exists>w. \<not> (g' = g \<and> i' = i) \<and> elem s g' i' = Some w \<and> eq w y)"
      unfolding mem_elem [OF core_geo [OF core_t]] ng using el by (metis option.distinct(1))
    also have "\<dots> \<longleftrightarrow> \<not> eq x y \<and> hs_mem eq s y"
    proof (cases "eq x y")
      case True
      have "g' = g \<and> i' = i" if "g' < n_groups s" "i' < 15" "elem s g' i' = Some w" "eq w y" for g' i' w
      proof -
        have "eq w z" using core_elem(1) [OF core that(1-3)] that(4) True zy found(5) y by (meson eq_sym eq_trans)
        then show ?thesis using hs_core_unique [OF core that(1,2) found(1,2) that(3) found(3)] by blast
      qed
      with True show ?thesis by blast
    next
      case False
      with zy show ?thesis unfolding mem_elem [OF geo] using found(3) by (metis option.inject)
    qed
    finally show ?thesis .
  qed
  with del inv' mem show ?thesis by (simp add: s'_def t_def)
qed

end

sublocale hash_keys \<subseteq> hs: set_contract K eq h "hs_inv K eq h" hs_room "hs_mem eq"
  "cell_hashset_add eq h" "cell_hashset_has eq h"
  by unfold_locales (rule hs_add_spec hs_has_spec; assumption)+

subsection \<open>Set operations\<close>

lemma union_groups_ge: "0 < ng \<Longrightarrow> est \<le> union_groups ng est * 13"
proof (induction ng est rule: union_groups.induct)
  case (1 ng est)
  then show ?case by (cases "ng * 13 < est") (auto simp: union_groups.simps [of ng est])
qed

lemma union_groups_le: "union_groups ng est \<le> max ng est"
proof (induction ng est rule: union_groups.induct)
  case (1 ng est)
  then show ?case by (cases "ng * 13 < est \<and> 0 < ng") (auto simp: union_groups.simps [of ng est])
qed

lemma new_set_inv:
  assumes "n \<le> 2 ^ 28"
  shows "hs_inv K eq h (cell_hashset_new n)" "\<not> hs_mem eq (cell_hashset_new n) y"
    "size (cell_hashset_new n) = 0" "ml_left (cell_hashset_new n) = n_groups (cell_hashset_new n) * 13"
    "n \<le> n_groups (cell_hashset_new n)" "1 \<le> n_groups (cell_hashset_new n)"
proof -
  define want where "want = max 1 n"
  define ng where "ng = round_up_pow2 1 want"
  have p2: "is_pow2 ng" unfolding ng_def by (rule round_up_pow2_is_pow2) simp
  have ge: "want \<le> ng" using round_up_pow2_ge [of 1 want] by (simp add: ng_def)
  have le: "ng \<le> 2 ^ 28" unfolding ng_def want_def using assms by (intro round_up_pow2_le) simp_all
  have m: "mul32 ng 13 = ng * 13" using le by (simp add: mul32_exact)
  have new: "cell_hashset_new n = \<lparr>metadata = replicate (ng * HS_META_SIZE) HS_TAG_EMPTY,
      elements = replicate (ng * HS_GROUP_SLOTS) None, size = 0, n_groups = ng, ml_left = ng * 13\<rparr>"
    unfolding m [symmetric] by (auto simp: cell_hashset_new_def Let_def ng_def want_def max_def)
  note props = new_props [OF p2 le]
  show "hs_inv K eq h (cell_hashset_new n)"
    unfolding hs_inv_def new by (simp add: props)
  show "\<not> hs_mem eq (cell_hashset_new n) y" unfolding new by (rule props)
  show "size (cell_hashset_new n) = 0" "ml_left (cell_hashset_new n) = n_groups (cell_hashset_new n) * 13"
    "n \<le> n_groups (cell_hashset_new n)" "1 \<le> n_groups (cell_hashset_new n)"
    using ge by (simp_all add: new want_def)
qed

context hash_keys
begin

lemma hs_mem_cong:
  assumes inv: "hs_inv K eq h s" and xy: "x \<in> K" "y \<in> K" "eq x y"
  shows "hs_mem eq s x = hs_mem eq s y"
proof -
  note core = hs_inv_core [OF inv]
  show ?thesis
    unfolding mem_elem [OF core_geo [OF core]]
    using core_elem(1) [OF core] eq_iff_right [OF xy(1,2)] xy(3) by blast
qed

lemma occupied_list:
  assumes inv: "hs_inv K eq h s"
  obtains xs where "hs_occupied s = map Some xs" "set xs \<subseteq> K" "length xs = size s"
    "\<And>y. hs_mem eq s y \<longleftrightarrow> (\<exists>x \<in> set xs. eq x y)" "sorted_wrt (\<lambda>x y. \<not> eq x y) xs"
proof -
  note occ = occupied_props [OF hs_inv_core [OF inv]]
  define xs where "xs = map the (hs_occupied s)"
  have xs: "hs_occupied s = map Some xs"
    unfolding xs_def using occ(3) by (auto simp: list_eq_iff_nth_eq) (metis nth_mem option.sel)
  show thesis
  proof (rule that [OF xs])
    show "set xs \<subseteq> K" using occ(3) xs by auto
    show "length xs = size s" using occ(1) xs hs_inv_load(3) [OF inv] by (metis length_map)
    show "hs_mem eq s y \<longleftrightarrow> (\<exists>x \<in> set xs. eq x y)" for y using occ(4) [of y] xs by auto
    show "sorted_wrt (\<lambda>x y. \<not> eq x y) xs"
      using occ(2) unfolding xs sorted_wrt_map by (simp add: same_elem_def)
  qed
qed

lemma add_elem_all: "ofold (add_elem eq h) (map Some xs) s = add_all (cell_hashset_add eq h) xs s"
  by (induction xs arbitrary: s) (auto simp: add_all_def add_elem_def split: Option.bind_splits)

lemma filter_elem_all:
  assumes inv: "hs_inv K eq h s2"
  shows "set xs \<subseteq> K \<Longrightarrow> ofold (filter_elem eq h keep s2) (map Some xs) s =
    add_all (cell_hashset_add eq h) (filter (\<lambda>x. keep (hs_mem eq s2 x)) xs) s"
proof (induction xs arbitrary: s)
  case (Cons x xs)
  then have "cell_hashset_has eq h s2 x = Some (hs_mem eq s2 x)" using hs_has_spec [OF inv] by simp
  with Cons show ?case by (auto simp: add_all_def filter_elem_def split: Option.bind_splits)
qed (simp add: add_all_def)

lemma union_spec:
  fixes s1 s2 :: "'k hashset"
  assumes s1: "hs_inv K eq h s1" and s2: "hs_inv K eq h s2" and small: "size s1 + size s2 \<le> 2 ^ 28"
  shows "\<exists>r. cell_hashset_union eq h s1 s2 = Some r \<and> hs_inv K eq h r \<and>
    (\<forall>y \<in> K. hs_mem eq r y \<longleftrightarrow> hs_mem eq s1 y \<or> hs_mem eq s2 y)"
proof -
  define n where "n = union_groups 1 (size s1 + size s2)"
  define d :: "'k hashset" where "d = cell_hashset_new n"
  have "n \<le> max 1 (size s1 + size s2)" unfolding n_def by (rule union_groups_le)
  also have "\<dots> \<le> 2 ^ 28" using small by (intro max.boundedI) simp_all
  finally have n1: "n \<le> 2 ^ 28" .
  have n2: "size s1 + size s2 \<le> n * 13" unfolding n_def by (rule union_groups_ge) simp
  note new = new_set_inv [OF n1]
  have d: "hs_inv K eq h d" "\<And>y. \<not> hs_mem eq d y" "ml_left d = n_groups d * 13" "n \<le> n_groups d"
    unfolding d_def by (rule new)+
  obtain xs where xs: "hs_occupied s1 = map Some xs" "set xs \<subseteq> K" "length xs = size s1"
    "\<And>y. hs_mem eq s1 y \<longleftrightarrow> (\<exists>x \<in> set xs. eq x y)"
    by (rule occupied_list [OF s1]) (rule that, assumption+)
  obtain ys where ys: "hs_occupied s2 = map Some ys" "set ys \<subseteq> K" "length ys = size s2"
    "\<And>y. hs_mem eq s2 y \<longleftrightarrow> (\<exists>x \<in> set ys. eq x y)"
    by (rule occupied_list [OF s2]) (rule that, assumption+)
  have "hs_room d (length xs + length ys)"
    using n2 d(3,4) xs(3) ys(3) by (simp add: hs_room_def)
  from hs.add_all_mem [OF d(1) this xs(2)] obtain r1 where r1: "add_all (cell_hashset_add eq h) xs d = Some r1"
    "hs_inv K eq h r1" "hs_room r1 (length ys + 0)" "\<forall>y \<in> K. hs_mem eq r1 y \<longleftrightarrow> (\<exists>x \<in> set xs. eq x y) \<or> hs_mem eq d y"
    by auto
  from hs.add_all_mem [OF r1(2,3) ys(2)] obtain r where r: "add_all (cell_hashset_add eq h) ys r1 = Some r"
    "hs_inv K eq h r" "\<forall>y \<in> K. hs_mem eq r y \<longleftrightarrow> (\<exists>x \<in> set ys. eq x y) \<or> hs_mem eq r1 y"
    by auto
  have "cell_hashset_union eq h s1 s2 =
      Option.bind (ofold (add_elem eq h) (hs_occupied s1) d) (ofold (add_elem eq h) (hs_occupied s2))"
    unfolding cell_hashset_union_def Let_def d_def n_def by (rule refl)
  then have "cell_hashset_union eq h s1 s2 = Some r"
    by (simp add: xs(1) ys(1) add_elem_all r1(1) r(1))
  with r r1 xs(4) ys(4) d(2) show ?thesis by auto
qed

lemma filter_spec:
  fixes s1 s2 :: "'k hashset"
  assumes s1: "hs_inv K eq h s1" and s2: "hs_inv K eq h s2" and small: "size s1 \<le> 2 ^ 28"
  shows "\<exists>r. ofold (filter_elem eq h keep s2) (hs_occupied s1) (cell_hashset_new 1) = Some r \<and> hs_inv K eq h r \<and>
    (\<forall>y \<in> K. hs_mem eq r y \<longleftrightarrow> hs_mem eq s1 y \<and> keep (hs_mem eq s2 y))"
proof -
  define d :: "'k hashset" where "d = cell_hashset_new 1"
  have d: "hs_inv K eq h d" "\<And>y. \<not> hs_mem eq d y" "size d = 0" "ml_left d = n_groups d * 13"
    unfolding d_def by (rule new_set_inv; simp)+
  obtain xs where xs: "hs_occupied s1 = map Some xs" "set xs \<subseteq> K" "length xs = size s1"
    "\<And>y. hs_mem eq s1 y \<longleftrightarrow> (\<exists>x \<in> set xs. eq x y)"
    by (rule occupied_list [OF s1]) (rule that, assumption+)
  let ?xs = "filter (\<lambda>x. keep (hs_mem eq s2 x)) xs"
  have "hs_room d (length ?xs + 0)"
    using d(3,4) small xs(3) length_filter_le [of "\<lambda>x. keep (hs_mem eq s2 x)" xs] by (simp add: hs_room_def)
  moreover have sub: "set ?xs \<subseteq> K" using xs(2) by auto
  ultimately obtain r where r: "add_all (cell_hashset_add eq h) ?xs d = Some r" "hs_inv K eq h r"
    "\<forall>y \<in> K. hs_mem eq r y \<longleftrightarrow> (\<exists>x \<in> set ?xs. eq x y) \<or> hs_mem eq d y"
    using hs.add_all_mem [OF d(1)] by blast
  have "(\<exists>x \<in> set ?xs. eq x y) \<longleftrightarrow> hs_mem eq s1 y \<and> keep (hs_mem eq s2 y)" if "y \<in> K" for y
  proof -
    have c: "hs_mem eq s2 x = hs_mem eq s2 y" if "x \<in> set xs" "eq x y" for x
      using hs_mem_cong [OF s2 _ \<open>y \<in> K\<close>] that xs(2) by blast
    show ?thesis
    proof
      assume "\<exists>x \<in> set ?xs. eq x y"
      then obtain x where "x \<in> set xs" "eq x y" "keep (hs_mem eq s2 x)" by auto
      then show "hs_mem eq s1 y \<and> keep (hs_mem eq s2 y)" using c [of x] xs(4) by auto
    next
      assume r: "hs_mem eq s1 y \<and> keep (hs_mem eq s2 y)"
      then obtain x where "x \<in> set xs" "eq x y" using xs(4) by blast
      moreover from this have "keep (hs_mem eq s2 x)" using c r by simp
      ultimately show "\<exists>x \<in> set ?xs. eq x y" by auto
    qed
  qed
  with r d(2) have "\<exists>r. ofold (filter_elem eq h keep s2) (hs_occupied s1) d = Some r \<and> hs_inv K eq h r \<and>
    (\<forall>y \<in> K. hs_mem eq r y \<longleftrightarrow> hs_mem eq s1 y \<and> keep (hs_mem eq s2 y))"
    by (auto simp: xs(1) filter_elem_all [OF s2 xs(2)])
  then show ?thesis unfolding d_def .
qed

lemma subset_loop_spec:
  assumes inv: "hs_inv K eq h s2"
  shows "set xs \<subseteq> K \<Longrightarrow> subset_loop eq h s2 (map Some xs) = Some (\<forall>x \<in> set xs. hs_mem eq s2 x)"
proof (induction xs)
  case (Cons x xs)
  then have "cell_hashset_has eq h s2 x = Some (hs_mem eq s2 x)" using hs_has_spec [OF inv] by simp
  with Cons show ?case by simp
qed simp

lemma subset_spec:
  assumes s1: "hs_inv K eq h s1" and s2: "hs_inv K eq h s2"
  shows "cell_hashset_subset eq h s1 s2 = Some (\<forall>y \<in> K. hs_mem eq s1 y \<longrightarrow> hs_mem eq s2 y)"
proof -
  obtain xs where xs: "hs_occupied s1 = map Some xs" "set xs \<subseteq> K" "length xs = size s1"
    "\<And>y. hs_mem eq s1 y \<longleftrightarrow> (\<exists>x \<in> set xs. eq x y)" "sorted_wrt (\<lambda>x y. \<not> eq x y) xs"
    by (rule occupied_list [OF s1]) (rule that, assumption+)
  obtain ys where ys: "set ys \<subseteq> K" "length ys = size s2" "\<And>y. hs_mem eq s2 y \<longleftrightarrow> (\<exists>x \<in> set ys. eq x y)"
    by (rule occupied_list [OF s2]) (rule that, assumption+)
  have all: "(\<forall>x \<in> set xs. hs_mem eq s2 x) \<longleftrightarrow> (\<forall>y \<in> K. hs_mem eq s1 y \<longrightarrow> hs_mem eq s2 y)"
    using xs(2,4) hs_mem_cong [OF s2] eq_refl by (meson subsetD)
  have card: "size s1 \<le> size s2" if sub: "\<forall>x \<in> set xs. hs_mem eq s2 x"
  proof -
    have "\<forall>x \<in> set xs. \<exists>y \<in> set ys. eq y x" using sub ys(3) by blast
    then obtain f where f: "\<And>x. x \<in> set xs \<Longrightarrow> f x \<in> set ys \<and> eq (f x) x" by metis
    have dist: "distinct xs"
      using xs(5) xs(2) eq_refl unfolding sorted_wrt_iff_nth_less distinct_conv_nth
      by (metis linorder_neqE_nat nth_mem subsetD)
    have "inj_on f (set xs)"
    proof (rule inj_onI, rule ccontr)
      fix x x' assume x: "x \<in> set xs" "x' \<in> set xs" "f x = f x'" "x \<noteq> x'"
      have K: "x \<in> K" "x' \<in> K" "f x \<in> K" using x(1,2) xs(2) f ys(1) by blast+
      have e: "eq x x'" "eq x' x" using f [OF x(1)] f [OF x(2)] x(3) K by (metis eq_sym eq_trans)+
      obtain i j where "i < length xs" "j < length xs" "xs ! i = x" "xs ! j = x'" using x(1,2) by (metis in_set_conv_nth)
      with e x(4) xs(5) show False unfolding sorted_wrt_iff_nth_less by (metis linorder_neqE_nat)
    qed
    then have "card (set xs) \<le> card (set ys)" using f by (intro card_inj_on_le [of f]) auto
    then show ?thesis using dist xs(3) ys(2) card_length [of ys] by (simp add: distinct_card)
  qed
  show ?thesis
    using card all by (auto simp: cell_hashset_subset_def xs(1) subset_loop_spec [OF s2 xs(2)])
qed

end

subsection \<open>Listing\<close>

lemma fold_filter_Cons:
  "fold (\<lambda>p r. if P p then f p # r else r) ps acc = rev (map f (filter P ps)) @ acc"
  by (induction ps arbitrary: acc) auto

lemma elements_spec:
  assumes inv: "hs_inv K eq h s"
  shows "set (cell_hashset_elements s) = {Some x | x. Some x \<in> set (elements s)}"
    and "length (cell_hashset_elements s) = size s"
proof -
  have core: "hs_core K eq h s" and sz: "size s = card (hs_full s)" using inv by (auto simp: hs_inv_def)
  let ?P = "\<lambda>(g, i). 2 \<le> metadata s ! (g * HS_META_SIZE + i)" and ?f = "\<lambda>(g, i). elements s ! (g * HS_GROUP_SLOTS + i)"
  let ?ps = "List.product [0..<n_groups s] (rev [0..<HS_GROUP_SLOTS])"
  have "cell_hashset_elements s = fold (\<lambda>p r. if ?P p then ?f p # r else r) ?ps []"
    unfolding cell_hashset_elements_def by (intro arg_cong [where f = "\<lambda>f. fold f _ _"]) (auto simp: fun_eq_iff)
  then have e: "cell_hashset_elements s = rev (map ?f (filter ?P ?ps))" by (simp add: fold_filter_Cons)
  have "set (filter ?P ?ps) = hs_full s"
    using occupied_tag [OF core] by (auto simp: hs_full_def elem_def HS_GROUP_SLOTS_def)
  moreover have "distinct (filter ?P ?ps)" by (intro distinct_filter distinct_product) simp_all
  ultimately show "length (cell_hashset_elements s) = size s"
    unfolding e sz by (metis length_rev length_map distinct_card)
  have "set (cell_hashset_elements s) = set (hs_occupied s)"
    unfolding e hs_occupied_def hs_slots_def by simp
  then show "set (cell_hashset_elements s) = {Some x | x. Some x \<in> set (elements s)}"
    unfolding occupied_filter [OF core] by auto
qed

end
