(* ===== verification/CellTables.thy ===== *)
theory CellTables
  imports CellHash HashSet
begin

section \<open>The hash tables on cells\<close>

text \<open>
  The hash map and the hash set of \<open>bootstrap/cell.c\<close> with \<open>cell_equal\<close> as key equality and
  \<open>cell_hash\<close> as hash function. \<open>heap_keys H\<close> are the cells that may be used as keys over a heap
  \<open>H\<close>: on them equality is an equivalence that the hash respects, so that the contracts of the
  two tables are instances of the generic theories.
\<close>

definition heap_keys :: "'p cell set \<Rightarrow> 'p cell set" where
  "heap_keys H = {c. heap H \<and> c \<in> keys_of H}"

lemma heap_keys_equal:
  "a \<in> heap_keys H \<Longrightarrow> b \<in> heap_keys H \<Longrightarrow> cell_equal a b \<longleftrightarrow> shape a = shape b"
  using equal_iff_shape [of H a b] by (simp add: heap_keys_def keys_of_def)

interpretation cell_keys: hash_keys "heap_keys H" cell_equal "cell_hash key" for H key
proof unfold_locales
  fix j k assume "j \<in> heap_keys H" "k \<in> heap_keys H" "cell_equal j k"
  moreover from this have "shape j = shape k" using heap_keys_equal by blast
  ultimately show "cell_hash key j = cell_hash key k"
    by (simp add: heap_keys_def keys_of_def hash_shape)
qed (auto simp: heap_keys_equal)

text \<open>A table of cells over the heap.\<close>

abbreviation map_ok :: "u64 cell set \<Rightarrow> u8 list \<Rightarrow> (u64 cell, 'v) hashmap \<Rightarrow> bool" where
  "map_ok H key \<equiv> hm_inv (heap_keys H) cell_equal (cell_hash key)"

abbreviation set_ok :: "u64 cell set \<Rightarrow> u8 list \<Rightarrow> u64 cell hashset \<Rightarrow> bool" where
  "set_ok H key \<equiv> hs_inv (heap_keys H) cell_equal (cell_hash key)"

subsection \<open>A heap for the examples\<close>

definition two_keys :: "u64 cell set" where
  "two_keys = {CString 0 ''k'', CInteger 1 7, CNumber 2 (double_of_int 7)}"

lemma seven: "double_to_int (double_of_int 7) = Some 7" "\<not> double_is_nan (double_of_int 7)"
    "double_eq (double_of_int 7) (double_of_int 7)"
  using double_of_int_roundtrip [of 7] double_of_int_not_nan [of 7] by (simp_all add: double_eq_refl)

lemma two_keys: "CString 0 ''k'' \<in> heap_keys two_keys" "CInteger 1 7 \<in> heap_keys two_keys"
    "CNumber 2 (double_of_int 7) \<in> heap_keys two_keys"
  by (auto simp: two_keys_def heap_keys_def keys_of_def heap_def inj_on_def exact_double_def seven)

lemma new_map_ok:
  "n \<le> 2 ^ 28 \<Longrightarrow> map_ok H key (cell_hashmap_new n)"
  by (rule cell_keys.new_inv)

lemma new_map_capacity: "capacity (cell_hashmap_new 0 :: (u64 cell, 'v) hashmap) = 16"
  by (simp add: cell_hashmap_new_def Let_def GROUP_WIDTH_def cell_keys.round_up_16)

lemma new_map_room:
  assumes "n \<le> 7 * 2 ^ 24"
  shows "hm_room (cell_hashmap_new 0 :: (u64 cell, 'v) hashmap) n"
proof -
  let ?m = "cell_hashmap_new 0 :: (u64 cell, 'v) hashmap"
  have "growth_left ?m = capacity ?m * 7 div 8" by (rule cell_keys.new_inv) simp
  with assms show ?thesis by (simp add: hm_room_def new_map_capacity)
qed


section \<open>Properties\<close>

text \<open>
  C5. Two usable keys are equal for \<open>cell_equal\<close> exactly when they have the same content,
  integers and doubles of equal value identified, and equal keys have the same hash: what a
  hash table needs of its keys.
\<close>

theorem cell_equal_hash:
  assumes "a \<in> heap_keys H" "b \<in> heap_keys H"
  shows "(cell_equal a b \<longleftrightarrow> shape a = shape b) \<and>
    (cell_equal a b \<longrightarrow> cell_hash key a = cell_hash key b)"
  using heap_keys_equal [OF assms] cell_keys.eq_hash [OF assms] by blast

theorem cell_equal_hash_witness:
  "cell_hash [] (CInteger 1 7) = cell_hash [] (CNumber 2 (double_of_int 7)) \<and>
    \<not> cell_equal (CString (0 :: u64) ''k'') (CInteger 1 7)"
  using cell_equal_hash [OF two_keys(2,3), of "[]"] cell_equal_hash [OF two_keys(1,2), of "[]"]
  by (simp add: number_shape_def seven)

text \<open>
  C1. A sequence of insertions into a hash map of cells that does not need a capacity above
  \<open>2 ^ 27\<close> always returns, keeps the map well formed, and afterwards a lookup finds the value of
  the last insertion whose key is equal, or what the map held before if there is none: probing,
  tombstones and any number of doublings on the way included. A new map takes \<open>7 * 2 ^ 24\<close>
  insertions.
\<close>

theorem cell_hashmap_put_get:
  fixes m :: "(u64 cell, 'v) hashmap"
  assumes "map_ok H key m" "hm_room m (length kvs)" "fst ` set kvs \<subseteq> heap_keys H"
  shows "(\<exists>m'. put_list (cell_hashmap_put cell_equal (cell_hash key)) kvs m = Some m' \<and> map_ok H key m' \<and>
      (\<forall>j \<in> heap_keys H. cell_hashmap_get cell_equal (cell_hash key) m' j =
        Some (case list_lookup cell_equal kvs j of Some v \<Rightarrow> Some v | None \<Rightarrow> hm_lookup cell_equal m j))) \<and>
    hm_room (cell_hashmap_new 0 :: (u64 cell, 'v) hashmap) (7 * 2 ^ 24)"
  using cell_keys.hm.put_list_lookup [of H key m kvs 0] assms new_map_room [of "7 * 2 ^ 24"] by (simp, blast)

text \<open>Forty integers, for which the table of sixteen slots doubles twice.\<close>

definition forty :: "(u64 cell \<times> nat) list" where
  "forty = map (\<lambda>i. (CInteger (of_nat i) (of_nat i), i)) [0..<40]"

lemma forty_keys: "fst ` set forty \<subseteq> heap_keys (fst ` set forty)"
proof
  fix c assume c: "c \<in> fst ` set forty"
  then obtain i :: nat where i: "i < 40" "c = CInteger (of_nat i) (of_nat i)" by (auto simp: forty_def)
  have "uint (of_nat i :: 64 word) = int i" using i(1) by (simp add: unsigned_of_nat take_bit_nat_eq_self)
  then have "sint (of_nat i :: 64 word) = int i" using i(1) by (simp add: sint_uint signed_take_bit_int_eq_self)
  then have "hashable c" "parts c \<subseteq> fst ` set forty" using i c by simp_all
  moreover have "inj_on cell_addr (fst ` set forty)" by (auto simp: forty_def inj_on_def)
  ultimately show "c \<in> heap_keys (fst ` set forty)" by (simp add: heap_keys_def keys_of_def heap_def)
qed

theorem cell_hashmap_put_get_witness:
  "\<exists>m'. put_list (cell_hashmap_put cell_equal (cell_hash [])) forty (cell_hashmap_new 0) = Some m' \<and>
    cell_hashmap_get cell_equal (cell_hash []) m' (CInteger 39 39) = Some (Some 39)"
proof -
  let ?m = "cell_hashmap_new 0 :: (u64 cell, nat) hashmap" and ?H = "fst ` set forty"
  have "map_ok ?H [] ?m" by (rule new_map_ok) simp
  moreover have "hm_room ?m (length forty)" by (rule new_map_room) (simp add: forty_def)
  ultimately obtain m' where m': "put_list (cell_hashmap_put cell_equal (cell_hash [])) forty ?m = Some m'"
    "\<forall>j \<in> heap_keys ?H. cell_hashmap_get cell_equal (cell_hash []) m' j =
      Some (case list_lookup cell_equal forty j of Some v \<Rightarrow> Some v | None \<Rightarrow> hm_lookup cell_equal ?m j)"
    using cell_hashmap_put_get [OF _ _ forty_keys] by blast
  have forty: "forty = map (\<lambda>i. (CInteger (of_nat i) (of_nat i), i)) [0..<39] @ [(CInteger 39 39, 39)]"
    by (simp add: forty_def upt_Suc [of 0 39, simplified])
  have "(CInteger 39 39, 39) \<in> set forty"
    unfolding forty by (simp only: set_append list.set Un_iff insert_iff simp_thms)
  from imageI [OF this, of fst] have "CInteger 39 39 \<in> fst ` set forty" by simp
  then have "CInteger 39 39 \<in> heap_keys ?H" using forty_keys by blast
  moreover have "list_lookup cell_equal forty (CInteger 39 39) = Some 39"
    by (simp add: forty list_lookup_def cell_equal.simps)
  ultimately show ?thesis using m' by force
qed

text \<open>
  C3. Deleting a key returns its value and removes exactly that key, provided the slot it
  occupies is safe to mark empty (its own group has an empty slot, or the next has none); the
  merge of two maps with at most \<open>2 ^ 25\<close> entries in all returns a well-formed map in which the
  second map wins.
\<close>

theorem cell_hashmap_delete_merge:
  assumes "map_ok H key m" "k \<in> heap_keys H"
    and "\<And>i. hashmap_find cell_equal m k (cell_hash key k) = Some (int i) \<Longrightarrow> delete_safe m i"
    and "map_ok H key m2" "hashmap.size m + hashmap.size m2 \<le> 2 ^ 25"
  shows "(\<exists>m'. cell_hashmap_delete cell_equal (cell_hash key) m k = Some (hm_lookup cell_equal m k, m') \<and>
      map_ok H key m' \<and>
      (\<forall>j \<in> heap_keys H. hm_lookup cell_equal m' j = (if cell_equal k j then None else hm_lookup cell_equal m j))) \<and>
    (\<exists>r. cell_hashmap_merge cell_equal (cell_hash key) m m2 = Some r \<and> map_ok H key r \<and>
      (\<forall>j \<in> heap_keys H. hm_lookup cell_equal r j =
        (case hm_lookup cell_equal m2 j of Some v \<Rightarrow> Some v | None \<Rightarrow> hm_lookup cell_equal m j)))"
  using cell_keys.delete_spec [OF assms(1-3)] cell_keys.merge_spec [OF assms(1,4,5)] by blast

text \<open>A map with two keys, one of which is deleted, and one that overrides the other key in a merge.\<close>

lemma small_map:
  assumes "map_ok H key m" "capacity m = 16" "2 \<le> growth_left m" "k \<in> heap_keys H"
  obtains m' where "cell_hashmap_put cell_equal (cell_hash key) m k v = Some (hm_lookup cell_equal m k, m')" "map_ok H key m'"
    "capacity m' = 16" "growth_left m \<le> growth_left m' + 1" "hashmap.size m' \<le> hashmap.size m + 1"
    "\<forall>j \<in> heap_keys H. hm_lookup cell_equal m' j = (if cell_equal k j then Some v else hm_lookup cell_equal m j)"
proof -
  have "capacity m \<le> 2 ^ 27" using assms(2) by simp
  from cell_keys.put_spec [OF assms(1,4) this, of v] show thesis
    by (elim exE conjE) (rule that, assumption+, use assms(2,3) in \<open>simp_all split: if_splits\<close>)
qed

lemma one_group_safe:
  assumes "map_ok H key m" "capacity m = 16" "k \<in> heap_keys H"
    and "hashmap_find cell_equal m k (cell_hash key k) = Some (int i)"
  shows "delete_safe m i"
  using cell_keys.inv_core [OF assms(1)] cell_keys.inv_room [OF assms(1)] assms(3)
proof (cases rule: cell_keys.find_spec)
  case (found i' k' v)
  with assms(2,4) show ?thesis by (simp add: delete_safe_def)
next
  case absent
  with assms(4) show ?thesis by simp
qed

theorem cell_hashmap_delete_merge_witness:
  "\<exists>m m1 m2 m' r. cell_hashmap_put cell_equal (cell_hash []) (cell_hashmap_new 0) (CString 0 ''k'') (1 :: nat) = Some (None, m1) \<and>
    cell_hashmap_put cell_equal (cell_hash []) m1 (CInteger 1 7) 2 = Some (None, m) \<and>
    cell_hashmap_delete cell_equal (cell_hash []) m (CString 0 ''k'') = Some (Some 1, m') \<and>
    hm_lookup cell_equal m' (CString 0 ''k'') = None \<and> hm_lookup cell_equal m' (CInteger 1 7) = Some 2 \<and>
    cell_hashmap_put cell_equal (cell_hash []) (cell_hashmap_new 0) (CNumber 2 (double_of_int 7)) 5 = Some (None, m2) \<and>
    cell_hashmap_merge cell_equal (cell_hash []) m m2 = Some r \<and>
    hm_lookup cell_equal r (CString 0 ''k'') = Some 1 \<and> hm_lookup cell_equal r (CInteger 1 7) = Some 5"
proof -
  let ?m0 = "cell_hashmap_new 0 :: (u64 cell, nat) hashmap" and ?k = "CString (0 :: u64) ''k''" and ?i = "CInteger (1 :: u64) 7"
  have eq: "cell_equal ?k ?k" "\<not> cell_equal ?k ?i" "cell_equal ?i ?i" "\<not> cell_equal ?i ?k"
    "cell_equal (CNumber 2 (double_of_int 7)) ?i" "\<not> cell_equal (CNumber (2 :: u64) (double_of_int 7)) ?k"
    using heap_keys_equal [OF two_keys(3,2)] by (simp_all add: cell_equal.simps number_shape_def seven)
  have m0: "map_ok two_keys [] ?m0" "capacity ?m0 = 16" "growth_left ?m0 = 14" "hashmap.size ?m0 = 0"
    by (simp_all add: new_map_ok new_map_capacity) (simp_all add: cell_hashmap_new_def Let_def GROUP_WIDTH_def cell_keys.round_up_16 mul32_exact)
  have none: "hm_lookup cell_equal ?m0 j = None" for j by (rule cell_keys.new_inv(2)) simp
  obtain m1 where m1: "cell_hashmap_put cell_equal (cell_hash []) ?m0 ?k 1 = Some (None, m1)" "map_ok two_keys [] m1"
    "capacity m1 = 16" "14 \<le> growth_left m1 + 1" "hashmap.size m1 \<le> 1"
    "\<forall>j \<in> heap_keys two_keys. hm_lookup cell_equal m1 j = (if cell_equal ?k j then Some 1 else None)"
    by (rule small_map [OF m0(1,2) _ two_keys(1), of 1]) (simp_all add: m0 none)
  obtain m where m: "cell_hashmap_put cell_equal (cell_hash []) m1 ?i 2 = Some (None, m)" "map_ok two_keys [] m"
    "capacity m = 16" "hashmap.size m \<le> 2"
    "\<forall>j \<in> heap_keys two_keys. hm_lookup cell_equal m j = (if cell_equal ?i j then Some 2 else hm_lookup cell_equal m1 j)"
    by (rule small_map [OF m1(2,3) _ two_keys(2), of 2]) (use m1 two_keys(2) eq in simp_all)
  obtain m2 where m2: "cell_hashmap_put cell_equal (cell_hash []) ?m0 (CNumber 2 (double_of_int 7)) 5 = Some (None, m2)"
    "map_ok two_keys [] m2" "hashmap.size m2 \<le> 1"
    "\<forall>j \<in> heap_keys two_keys. hm_lookup cell_equal m2 j = (if cell_equal (CNumber 2 (double_of_int 7)) j then Some 5 else None)"
    by (rule small_map [OF m0(1,2) _ two_keys(3), of 5]) (simp_all add: m0 none)
  have "hashmap.size m + hashmap.size m2 \<le> 2 ^ 25" using m(4) m2(3) by simp
  from cell_hashmap_delete_merge [OF m(2) two_keys(1) one_group_safe [OF m(2,3) two_keys(1)] m2(2) this]
  obtain m' r where "cell_hashmap_delete cell_equal (cell_hash []) m ?k = Some (hm_lookup cell_equal m ?k, m')"
    "\<forall>j \<in> heap_keys two_keys. hm_lookup cell_equal m' j = (if cell_equal ?k j then None else hm_lookup cell_equal m j)"
    "cell_hashmap_merge cell_equal (cell_hash []) m m2 = Some r"
    "\<forall>j \<in> heap_keys two_keys. hm_lookup cell_equal r j =
        (case hm_lookup cell_equal m2 j of Some v \<Rightarrow> Some v | None \<Rightarrow> hm_lookup cell_equal m j)"
    by auto
  with m1 m m2 eq two_keys show ?thesis by (intro exI [of _ m] exI [of _ m1] exI [of _ m2] exI [of _ m'] exI [of _ r]) simp
qed



text \<open>
  C6. Union, intersection, difference and inclusion of sets of cells compute the set operations.
\<close>

theorem cell_hashset_algebra:
  assumes "set_ok H key s1" "set_ok H key s2" "hashset.size s1 + hashset.size s2 \<le> 2 ^ 28"
  shows "(\<exists>r. cell_hashset_union cell_equal (cell_hash key) s1 s2 = Some r \<and> set_ok H key r \<and>
      (\<forall>y \<in> heap_keys H. hs_mem cell_equal r y \<longleftrightarrow> hs_mem cell_equal s1 y \<or> hs_mem cell_equal s2 y)) \<and>
    (\<exists>r. cell_hashset_intersection cell_equal (cell_hash key) s1 s2 = Some r \<and> set_ok H key r \<and>
      (\<forall>y \<in> heap_keys H. hs_mem cell_equal r y \<longleftrightarrow> hs_mem cell_equal s1 y \<and> hs_mem cell_equal s2 y)) \<and>
    (\<exists>r. cell_hashset_difference cell_equal (cell_hash key) s1 s2 = Some r \<and> set_ok H key r \<and>
      (\<forall>y \<in> heap_keys H. hs_mem cell_equal r y \<longleftrightarrow> hs_mem cell_equal s1 y \<and> \<not> hs_mem cell_equal s2 y)) \<and>
    cell_hashset_subset cell_equal (cell_hash key) s1 s2 =
      Some (\<forall>y \<in> heap_keys H. hs_mem cell_equal s1 y \<longrightarrow> hs_mem cell_equal s2 y)"
proof -
  have small: "hashset.size s1 \<le> 2 ^ 28" using assms(3) by linarith
  show ?thesis
    unfolding cell_hashset_intersection_def cell_hashset_difference_def Let_def
    using cell_keys.union_spec [OF assms] cell_keys.filter_spec [OF assms(1,2) small, of "\<lambda>b. b"]
      cell_keys.filter_spec [OF assms(1,2) small, of Not] cell_keys.subset_spec [OF assms(1,2)]
    by (intro conjI) assumption+
qed

theorem cell_hashset_algebra_witness:
  "cell_hashset_subset cell_equal (cell_hash []) (cell_hashset_new 1 :: u64 cell hashset) (cell_hashset_new 1) =
    Some True"
proof -
  let ?s = "cell_hashset_new 1 :: u64 cell hashset"
  have ok: "set_ok two_keys [] ?s" and sz: "hashset.size ?s = 0" by (rule new_set_inv; simp)+
  from cell_hashset_algebra [OF ok ok] sz show ?thesis by simp
qed

end
