(* ===== verification/StrSimd.thy ===== *)
theory StrSimd
  imports SwissTable
begin

section \<open>String search\<close>

text \<open>
  The search functions of \<open>bootstrap/str_simd.h\<close> for the two 16-byte instruction sets. Memory is
  a list of bytes whose length is the \<open>len\<close> argument; a result pointer is an index. The argument
  \<open>mm\<close> turns 16 comparison lanes into a bit mask: \<open>movemask_epi8\<close> in the SSE2 build,
  \<open>neon_to_bitmask\<close> in the NEON build. The portable fallback without vectors is not modelled.
\<close>

subsection \<open>Definitions\<close>

text \<open>
  The common loop: while 16 positions are left, the candidates of a chunk in a bit mask, tried
  from the lowest; then the remaining positions one by one. \<open>limit\<close> is the number of positions.
\<close>

function simd_loop ::
    "(nat \<Rightarrow> group_mask) \<Rightarrow> (nat \<Rightarrow> bool) \<Rightarrow> (nat \<Rightarrow> bool) \<Rightarrow> nat \<Rightarrow> nat \<Rightarrow> nat option" where
  "simd_loop chunk verify scalar limit i =
     (if i + 16 \<le> limit then
        (case mask_scan (\<lambda>b. verify (i + b)) (chunk i) of
           Some b \<Rightarrow> Some (i + b)
         | None \<Rightarrow> simd_loop chunk verify scalar limit (i + 16))
      else List.find scalar [i..<limit])"
  by pat_completeness auto
termination
  by (relation "measure (\<lambda>(_, _, _, limit, i). limit - i)") auto

declare simd_loop.simps [simp del]

definition and_lanes :: "u8 list \<Rightarrow> u8 list \<Rightarrow> u8 list" where
  "and_lanes a b = map2 (AND) a b"

definition or_lanes :: "u8 list \<Rightarrow> u8 list \<Rightarrow> u8 list" where
  "or_lanes a b = map2 (OR) a b"

definition str_simd_find_char :: "(u8 list \<Rightarrow> group_mask) \<Rightarrow> u8 list \<Rightarrow> u8 \<Rightarrow> nat option" where
  "str_simd_find_char mm s c =
     simd_loop (\<lambda>i. mm (cmpeq_epi8 (load_group s i) c)) (\<lambda>_. True) (\<lambda>i. s ! i = c) (length s) 0"

text \<open>\<^verbatim>\<open>31 - __builtin_clz(mask)\<close>: the highest bit of a mask that is not 0.\<close>

definition top_bit :: "u32 \<Rightarrow> nat" where
  "top_bit w = (case List.find (bit w) (rev [0..<32]) of Some i \<Rightarrow> i | None \<Rightarrow> 0)"

function rfind_char_loop :: "(u8 list \<Rightarrow> group_mask) \<Rightarrow> u8 list \<Rightarrow> u8 \<Rightarrow> nat \<Rightarrow> nat option" where
  "rfind_char_loop mm s c tail =
     (if 16 \<le> tail then
        (let tail = tail - 16; mask = mm (cmpeq_epi8 (load_group s tail) c)
         in if mask \<noteq> 0 then Some (tail + top_bit mask) else rfind_char_loop mm s c tail)
      else List.find (\<lambda>i. s ! i = c) (rev [0..<tail]))"
  by pat_completeness auto
termination
  by (relation "measure (\<lambda>(_, _, _, tail). tail)") auto

declare rfind_char_loop.simps [simp del]

definition str_simd_rfind_char :: "(u8 list \<Rightarrow> group_mask) \<Rightarrow> u8 list \<Rightarrow> u8 \<Rightarrow> nat option" where
  "str_simd_rfind_char mm s c = rfind_char_loop mm s c (length s)"

text \<open>\<^verbatim>\<open>memcmp(haystack + i + 1, needle + 1, nlen - 2) == 0\<close>\<close>

definition inner_match :: "u8 list \<Rightarrow> u8 list \<Rightarrow> nat \<Rightarrow> bool" where
  "inner_match haystack needle i \<longleftrightarrow>
     (let nlen = length needle
      in nlen \<le> 2 \<or> take (nlen - 2) (drop (i + 1) haystack) = take (nlen - 2) (drop 1 needle))"

definition full_match :: "u8 list \<Rightarrow> u8 list \<Rightarrow> nat \<Rightarrow> bool" where
  "full_match haystack needle i \<longleftrightarrow>
     haystack ! i = needle ! 0 \<and> haystack ! (i + length needle - 1) = needle ! (length needle - 1) \<and>
     inner_match haystack needle i"

definition str_simd_find_substr :: "(u8 list \<Rightarrow> group_mask) \<Rightarrow> u8 list \<Rightarrow> u8 list \<Rightarrow> nat option" where
  "str_simd_find_substr mm haystack needle =
     (let hlen = length haystack; nlen = length needle
      in if nlen = 0 then Some 0
         else if hlen < nlen then None
         else if nlen = 1 then str_simd_find_char mm haystack (needle ! 0)
         else (let scan_end = hlen - nlen
               in simd_loop
                 (\<lambda>i. mm (and_lanes (cmpeq_epi8 (load_group haystack i) (needle ! 0))
                       (cmpeq_epi8 (load_group haystack (i + nlen - 1)) (needle ! (nlen - 1)))))
                 (\<lambda>i. i \<le> scan_end \<and> inner_match haystack needle i)
                 (full_match haystack needle) (scan_end + 1) 0))"

definition str_simd_rfind_substr :: "(u8 list \<Rightarrow> group_mask) \<Rightarrow> u8 list \<Rightarrow> u8 list \<Rightarrow> nat option" where
  "str_simd_rfind_substr mm haystack needle =
     (let hlen = length haystack; nlen = length needle
      in if nlen = 0 then Some hlen
         else if hlen < nlen then None
         else if nlen = 1 then str_simd_rfind_char mm haystack (needle ! 0)
         else List.find (full_match haystack needle) (rev [0..<hlen - nlen + 1]))"

definition str_is_whitespace :: "u8 \<Rightarrow> bool" where
  "str_is_whitespace c \<longleftrightarrow> c = 32 \<or> c = 9 \<or> c = 10 \<or> c = 13"

definition whitespace_lanes :: "u8 list \<Rightarrow> u8 list" where
  "whitespace_lanes chunk =
     or_lanes (or_lanes (cmpeq_epi8 chunk 32) (cmpeq_epi8 chunk 9))
       (or_lanes (cmpeq_epi8 chunk 10) (cmpeq_epi8 chunk 13))"

definition str_simd_find_whitespace :: "(u8 list \<Rightarrow> group_mask) \<Rightarrow> u8 list \<Rightarrow> nat option" where
  "str_simd_find_whitespace mm s =
     simd_loop (\<lambda>i. mm (whitespace_lanes (load_group s i))) (\<lambda>_. True) (\<lambda>i. str_is_whitespace (s ! i)) (length s) 0"

definition str_simd_find_non_whitespace :: "(u8 list \<Rightarrow> group_mask) \<Rightarrow> u8 list \<Rightarrow> nat option" where
  "str_simd_find_non_whitespace mm s =
     simd_loop (\<lambda>i. NOT (mm (whitespace_lanes (load_group s i))) AND 0xFFFF) (\<lambda>_. True)
       (\<lambda>i. \<not> str_is_whitespace (s ! i)) (length s) 0"

subsection \<open>The loop finds the first position\<close>

text \<open>What both instruction sets provide: lanes of a full group become the bits of the mask.\<close>

definition mask_of_lanes :: "(u8 list \<Rightarrow> group_mask) \<Rightarrow> bool" where
  "mask_of_lanes mm \<longleftrightarrow> (\<forall>ps i. length ps = 16 \<longrightarrow> (bit (mm (map lane ps)) i \<longleftrightarrow> i < 16 \<and> ps ! i))"

lemma mask_of_lanesD:
  "mask_of_lanes mm \<Longrightarrow> length ps = 16 \<Longrightarrow> bit (mm (map lane ps)) i \<longleftrightarrow> i < 16 \<and> ps ! i"
  by (simp add: mask_of_lanes_def)

lemma lanes_sse2: "mask_of_lanes movemask_epi8"
  by (auto simp: mask_of_lanes_def bit_movemask split: if_splits)

lemma lanes_neon: "mask_of_lanes neon_to_bitmask"
  using lanes_sse2 by (simp add: mask_of_lanes_def neon_to_bitmask_movemask)

lemma find_map: "List.find P (map f xs) = map_option f (List.find (P \<circ> f) xs)"
  by (induction xs) auto

lemma simd_loop_find:
  assumes "\<And>i b. i + 16 \<le> limit \<Longrightarrow> bit (chunk i) b \<longleftrightarrow> b < 16 \<and> Q (i + b)"
    and "\<And>i. i < limit \<Longrightarrow> scalar i \<longleftrightarrow> Q i \<and> verify i"
  shows "simd_loop chunk verify scalar limit i = List.find (\<lambda>j. Q j \<and> verify j) [i..<limit]"
proof (induction "limit - i" arbitrary: i rule: less_induct)
  case less
  show ?case
  proof (cases "i + 16 \<le> limit")
    case True
    have scan: "mask_scan (\<lambda>b. verify (i + b)) (chunk i) = List.find (\<lambda>b. Q (i + b) \<and> verify (i + b)) [0..<16]"
      by (rule mask_scan_find) (rule assms(1) [OF True])
    have ih: "simd_loop chunk verify scalar limit (i + 16) = List.find (\<lambda>j. Q j \<and> verify j) [i + 16..<limit]"
      by (rule less) (use True in simp)
    have "[i..<limit] = [i..<i + 16] @ [i + 16..<limit]"
      using upt_add_eq_append [of i "i + 16" "limit - (i + 16)"] True by simp
    also have "[i..<i + 16] = map (\<lambda>b. i + b) [0..<16]"
      using map_add_upt [of i 16] by (simp only: add.commute)
    finally have "[i..<limit] = map (\<lambda>b. i + b) [0..<16] @ [i + 16..<limit]" .
    then have "List.find (\<lambda>j. Q j \<and> verify j) [i..<limit] =
        (case List.find (\<lambda>b. Q (i + b) \<and> verify (i + b)) [0..<16] of
           Some b \<Rightarrow> Some (i + b) | None \<Rightarrow> List.find (\<lambda>j. Q j \<and> verify j) [i + 16..<limit])"
      by (simp only: find_append find_map comp_def) (simp split: option.splits)
    also have "\<dots> = simd_loop chunk verify scalar limit i"
      using True by (simp add: simd_loop.simps [of chunk verify scalar limit i] scan ih cong: option.case_cong)
    finally show ?thesis by simp
  next
    case False
    then show ?thesis
      using assms(2) by (subst simd_loop.simps) (auto intro!: find_cong_set)
  qed
qed

subsection \<open>Lanes of the groups\<close>

lemma and_lanes_lane:
  "length ps = length qs \<Longrightarrow> and_lanes (map lane ps) (map lane qs) = map lane (map2 (\<and>) ps qs)"
  by (induction ps qs rule: list_induct2) (auto simp: and_lanes_def)

lemma or_lanes_lane:
  "length ps = length qs \<Longrightarrow> or_lanes (map lane ps) (map lane qs) = map lane (map2 (\<or>) ps qs)"
  by (induction ps qs rule: list_induct2) (auto simp: or_lanes_def)

lemma bit_mm_eq:
  assumes "mask_of_lanes mm" "i + 16 \<le> length s"
  shows "bit (mm (cmpeq_epi8 (load_group s i) c)) b \<longleftrightarrow> b < 16 \<and> s ! (i + b) = c"
  unfolding cmpeq_lane using assms(2)
  by (subst mask_of_lanesD [OF assms(1)]) (auto simp: length_load_group nth_load_group)

lemma bit_mm_and:
  assumes "mask_of_lanes mm" "i + 16 \<le> length s" "j + 16 \<le> length s"
  shows "bit (mm (and_lanes (cmpeq_epi8 (load_group s i) c) (cmpeq_epi8 (load_group s j) d))) b \<longleftrightarrow>
    b < 16 \<and> s ! (i + b) = c \<and> s ! (j + b) = d"
proof -
  have "and_lanes (cmpeq_epi8 (load_group s i) c) (cmpeq_epi8 (load_group s j) d) =
      map lane (map2 (\<and>) (map (\<lambda>b. b = c) (load_group s i)) (map (\<lambda>b. b = d) (load_group s j)))"
    unfolding cmpeq_lane using assms by (intro and_lanes_lane) (simp add: length_load_group)
  then show ?thesis
    using assms(2,3) by (simp only:) (subst mask_of_lanesD [OF assms(1)], auto simp: length_load_group nth_load_group)
qed

lemma whitespace_lanes_lane: "whitespace_lanes g = map lane (map str_is_whitespace g)"
proof -
  have "whitespace_lanes g = map lane (map2 (\<or>) (map2 (\<or>) (map (\<lambda>b. b = 32) g) (map (\<lambda>b. b = 9) g))
      (map2 (\<or>) (map (\<lambda>b. b = 10) g) (map (\<lambda>b. b = 13) g)))"
    unfolding whitespace_lanes_def cmpeq_lane by (simp add: or_lanes_lane del: map_map)
  also have "\<dots> = map lane (map str_is_whitespace g)"
    by (induction g) (auto simp: str_is_whitespace_def)
  finally show ?thesis .
qed

lemma bit_mm_whitespace:
  assumes "mask_of_lanes mm" "i + 16 \<le> length s"
  shows "bit (mm (whitespace_lanes (load_group s i))) b \<longleftrightarrow> b < 16 \<and> str_is_whitespace (s ! (i + b))"
  unfolding whitespace_lanes_lane using assms(2)
  by (subst mask_of_lanesD [OF assms(1)]) (auto simp: length_load_group nth_load_group)

lemma find_char_spec:
  "mask_of_lanes mm \<Longrightarrow> str_simd_find_char mm s c = List.find (\<lambda>i. s ! i = c) [0..<length s]"
  unfolding str_simd_find_char_def by (subst simd_loop_find [where Q = "\<lambda>i. s ! i = c"]) (auto simp: bit_mm_eq)

lemma find_whitespace_spec:
  "mask_of_lanes mm \<Longrightarrow> str_simd_find_whitespace mm s = List.find (\<lambda>i. str_is_whitespace (s ! i)) [0..<length s]"
  unfolding str_simd_find_whitespace_def
  by (subst simd_loop_find [where Q = "\<lambda>i. str_is_whitespace (s ! i)"]) (auto simp: bit_mm_whitespace)

lemma bit_low_half: "bit (NOT w AND (0xFFFF :: u32)) b \<longleftrightarrow> b < 16 \<and> \<not> bit w b"
proof -
  have "(0xFFFF :: u32) = mask 16" by (simp add: mask_numeral)
  then have "bit (NOT w AND (0xFFFF :: u32)) b \<longleftrightarrow> bit (NOT w AND mask 16) b" by (simp only:)
  also have "\<dots> \<longleftrightarrow> b < 16 \<and> \<not> bit w b"
    by (auto simp: bit_and_iff bit_not_iff bit_mask_iff)
  finally show ?thesis .
qed

lemma find_non_whitespace_spec:
  "mask_of_lanes mm \<Longrightarrow>
    str_simd_find_non_whitespace mm s = List.find (\<lambda>i. \<not> str_is_whitespace (s ! i)) [0..<length s]"
  unfolding str_simd_find_non_whitespace_def
  by (subst simd_loop_find [where Q = "\<lambda>i. \<not> str_is_whitespace (s ! i)"])
    (simp_all add: bit_low_half bit_mm_whitespace, blast)

subsection \<open>Substrings\<close>

definition occurs_at :: "'a list \<Rightarrow> 'a list \<Rightarrow> nat \<Rightarrow> bool" where
  "occurs_at haystack needle i \<longleftrightarrow> take (length needle) (drop i haystack) = needle"

lemma full_match_occurs:
  assumes "needle \<noteq> []" "i + length needle \<le> length haystack"
  shows "full_match haystack needle i \<longleftrightarrow> occurs_at haystack needle i"
proof -
  let ?n = "length needle"
  have occ: "occurs_at haystack needle i \<longleftrightarrow> (\<forall>k < ?n. haystack ! (i + k) = needle ! k)"
    using assms(2) by (auto simp: occurs_at_def list_eq_iff_nth_eq)
  have inner: "inner_match haystack needle i \<longleftrightarrow> (\<forall>k. 0 < k \<and> k < ?n - 1 \<longrightarrow> haystack ! (i + k) = needle ! k)"
  proof (cases "?n \<le> 2")
    case True
    then show ?thesis by (auto simp: inner_match_def Let_def)
  next
    case False
    then have "inner_match haystack needle i \<longleftrightarrow> (\<forall>k < ?n - 2. haystack ! (i + (k + 1)) = needle ! (k + 1))"
      using assms(2) by (auto simp: inner_match_def Let_def list_eq_iff_nth_eq)
    also have "\<dots> \<longleftrightarrow> (\<forall>k. 0 < k \<and> k < ?n - 1 \<longrightarrow> haystack ! (i + k) = needle ! k)"
    proof safe
      fix k assume a: "\<forall>k < ?n - 2. haystack ! (i + (k + 1)) = needle ! (k + 1)" and k: "0 < k" "k < ?n - 1"
      then show "haystack ! (i + k) = needle ! k" using a [rule_format, of "k - 1"] by simp
    next
      fix k assume a: "\<forall>k. 0 < k \<and> k < ?n - 1 \<longrightarrow> haystack ! (i + k) = needle ! k" and k: "k < ?n - 2"
      then show "haystack ! (i + (k + 1)) = needle ! (k + 1)" using a [rule_format, of "k + 1"] by simp
    qed
    finally show ?thesis .
  qed
  have "(\<forall>k < ?n. P k) \<longleftrightarrow> P 0 \<and> P (?n - 1) \<and> (\<forall>k. 0 < k \<and> k < ?n - 1 \<longrightarrow> P k)" for P
  proof safe
    fix k assume a: "P 0" "P (?n - 1)" "\<forall>k. 0 < k \<and> k < ?n - 1 \<longrightarrow> P k" and k: "k < ?n"
    then show "P k" by (cases "k = 0"; cases "k = ?n - 1") auto
  qed (use assms(1) in auto)
  from this [of "\<lambda>k. haystack ! (i + k) = needle ! k"]
  have "(\<forall>k < ?n. haystack ! (i + k) = needle ! k) \<longleftrightarrow> haystack ! i = needle ! 0 \<and>
      haystack ! (i + (?n - 1)) = needle ! (?n - 1) \<and> inner_match haystack needle i"
    unfolding inner by simp
  moreover have "i + ?n - 1 = i + (?n - 1)" using assms(1) by (cases needle) auto
  ultimately show ?thesis unfolding full_match_def occ by simp
qed

lemma occurs_single: "i < length s \<Longrightarrow> occurs_at s [c] i \<longleftrightarrow> s ! i = c"
  by (simp add: occurs_at_def take_Suc_conv_app_nth [of 0] hd_drop_conv_nth [symmetric])

lemma find_substr_spec:
  assumes mm: "mask_of_lanes mm"
  shows "str_simd_find_substr mm haystack needle =
    (if length haystack < length needle then None
     else List.find (occurs_at haystack needle) [0..<length haystack - length needle + 1])"
proof -
  let ?h = "length haystack" and ?n = "length needle"
  consider "?n = 0" | "0 < ?n" "?h < ?n" | "?n = 1" "?n \<le> ?h" | "1 < ?n" "?n \<le> ?h" by linarith
  then show ?thesis
  proof cases
    case 1
    then show ?thesis by (simp add: str_simd_find_substr_def occurs_at_def upt_conv_Cons del: upt_Suc)
  next
    case 2
    then show ?thesis by (simp add: str_simd_find_substr_def)
  next
    case 3
    then obtain c where c: "needle = [c]" by (auto simp: length_Suc_conv)
    have "List.find (\<lambda>i. haystack ! i = c) [0..<?h] = List.find (occurs_at haystack [c]) [0..<?h]"
      by (rule find_cong_set) (simp add: occurs_single)
    with 3 c show ?thesis by (simp add: str_simd_find_substr_def find_char_spec [OF mm])
  next
    case 4
    then have ne: "(?n = 0) = False" "(?h < ?n) = False" "(?n = 1) = False" by auto
    have "str_simd_find_substr mm haystack needle = List.find
        (\<lambda>j. (haystack ! j = needle ! 0 \<and> haystack ! (j + ?n - 1) = needle ! (?n - 1)) \<and>
          j \<le> ?h - ?n \<and> inner_match haystack needle j) [0..<?h - ?n + 1]"
      unfolding str_simd_find_substr_def Let_def ne if_False
    proof (subst simd_loop_find [where Q = "\<lambda>j. haystack ! j = needle ! 0 \<and> haystack ! (j + ?n - 1) = needle ! (?n - 1)"])
      fix i b assume i: "i + 16 \<le> ?h - ?n + 1"
      then have "i + 16 \<le> ?h" "(i + ?n - 1) + 16 \<le> ?h" using 4 by linarith+
      from bit_mm_and [OF mm this, of "needle ! 0" "needle ! (?n - 1)" b]
      show "bit (mm (and_lanes (cmpeq_epi8 (load_group haystack i) (needle ! 0))
          (cmpeq_epi8 (load_group haystack (i + ?n - 1)) (needle ! (?n - 1))))) b \<longleftrightarrow>
        b < 16 \<and> haystack ! (i + b) = needle ! 0 \<and> haystack ! (i + b + ?n - 1) = needle ! (?n - 1)"
        using 4 by (simp add: add.commute add.left_commute)
    next
      fix i assume "i < ?h - ?n + 1"
      then show "full_match haystack needle i \<longleftrightarrow>
        (haystack ! i = needle ! 0 \<and> haystack ! (i + ?n - 1) = needle ! (?n - 1)) \<and>
        i \<le> ?h - ?n \<and> inner_match haystack needle i"
        by (auto simp: full_match_def)
    qed simp
    also have "\<dots> = List.find (occurs_at haystack needle) [0..<?h - ?n + 1]"
    proof (rule find_cong_set)
      fix j assume "j \<in> set [0..<?h - ?n + 1]"
      then have j: "j \<le> ?h - ?n" by (simp only: set_upt atLeastLessThan_iff) linarith
      then have "full_match haystack needle j \<longleftrightarrow> occurs_at haystack needle j"
        using 4 by (intro full_match_occurs) auto
      with j show "((haystack ! j = needle ! 0 \<and> haystack ! (j + ?n - 1) = needle ! (?n - 1)) \<and>
          j \<le> ?h - ?n \<and> inner_match haystack needle j) = occurs_at haystack needle j"
        by (simp only: full_match_def) blast
    qed
    finally show ?thesis using 4 by simp
  qed
qed

subsection \<open>Searching backwards\<close>

lemma find_rev_upt:
  "List.find P (rev [0..<n]) = Some i \<longleftrightarrow> i < n \<and> P i \<and> (\<forall>j. i < j \<and> j < n \<longrightarrow> \<not> P j)"
  by (induction n) (auto simp: less_Suc_eq)

lemma top_bit_props:
  assumes "w \<noteq> 0"
  shows "bit w (top_bit w)" "j > top_bit w \<Longrightarrow> \<not> bit w j"
proof -
  obtain k where "k < 32" "bit w k" using word_nonzero_bit [OF assms] by blast
  then have "List.find (bit w) (rev [0..<32]) \<noteq> None" by (auto simp: find_None_iff)
  then obtain i where i: "List.find (bit w) (rev [0..<32]) = Some i" by blast
  then have "top_bit w = i" by (simp add: top_bit_def)
  with i show "bit w (top_bit w)" "j > top_bit w \<Longrightarrow> \<not> bit w j"
    unfolding find_rev_upt using bit_imp_le_length [of w j] by auto
qed

lemma find_rev_eqI:
  assumes "i < n" "P i" "\<And>j. i < j \<Longrightarrow> j < n \<Longrightarrow> \<not> P j"
  shows "List.find P (rev [0..<n]) = Some i"
  using assms by (simp add: find_rev_upt)

lemma rfind_char_loop_spec:
  assumes mm: "mask_of_lanes mm"
  shows "tail \<le> length s \<Longrightarrow> rfind_char_loop mm s c tail = List.find (\<lambda>i. s ! i = c) (rev [0..<tail])"
proof (induction tail rule: less_induct)
  case (less tail)
  show ?case
  proof (cases "16 \<le> tail")
    case True
    define t where "t = tail - 16"
    have t: "tail = t + 16" "t + 16 \<le> length s" using True less.prems by (simp_all add: t_def)
    let ?m = "mm (cmpeq_epi8 (load_group s t) c)"
    note m = bit_mm_eq [OF mm t(2), of c]
    have step: "rfind_char_loop mm s c tail = (if ?m \<noteq> 0 then Some (t + top_bit ?m) else rfind_char_loop mm s c t)"
      using True by (subst rfind_char_loop.simps) (simp add: Let_def t_def)
    show ?thesis
    proof (cases "?m = 0")
      case zero: True
      then have no: "s ! (t + b) \<noteq> c" if "b < 16" for b using m [of b] that by simp
      have "List.find (\<lambda>i. s ! i = c) (rev [t..<t + 16]) = None"
      proof (subst find_None_iff, clarify)
        fix i assume i: "i \<in> set (rev [t..<t + 16])" "c = s ! i"
        then have "i - t < 16" "t + (i - t) = i" by (simp_all add: less_diff_conv2 add.commute)
        with i(2) show False using no [of "i - t"] by simp
      qed
      moreover have "rev [0..<tail] = rev [t..<t + 16] @ rev [0..<t]"
        unfolding t(1) using upt_add_eq_append [of 0 t 16] by (simp only: rev_append add_0)
      moreover have "rfind_char_loop mm s c t = List.find (\<lambda>i. s ! i = c) (rev [0..<t])"
        using t by (intro less.IH) simp_all
      ultimately show ?thesis using zero step by (simp add: find_append)
    next
      case False
      note top = top_bit_props [OF False]
      have b: "top_bit ?m < 16" "s ! (t + top_bit ?m) = c" using top(1) m by simp_all
      have "List.find (\<lambda>i. s ! i = c) (rev [0..<tail]) = Some (t + top_bit ?m)"
      proof (rule find_rev_eqI)
        fix j assume j: "t + top_bit ?m < j" "j < tail"
        then have "top_bit ?m < j - t" "j - t < 16" "t + (j - t) = j" using t(1) by linarith+
        then show "s ! j \<noteq> c" using top(2) [of "j - t"] m [of "j - t"] by simp
      qed (use b t(1) in simp_all)
      with False step show ?thesis by simp
    qed
  next
    case False
    then show ?thesis by (subst rfind_char_loop.simps) simp
  qed
qed

lemma rfind_substr_spec:
  assumes mm: "mask_of_lanes mm"
  shows "str_simd_rfind_substr mm haystack needle =
    (if length haystack < length needle then None
     else List.find (occurs_at haystack needle) (rev [0..<length haystack - length needle + 1]))"
proof -
  let ?h = "length haystack" and ?n = "length needle"
  consider "?n = 0" | "0 < ?n" "?h < ?n" | "?n = 1" "?n \<le> ?h" | "1 < ?n" "?n \<le> ?h" by linarith
  then show ?thesis
  proof cases
    case 1
    then show ?thesis by (simp add: str_simd_rfind_substr_def occurs_at_def)
  next
    case 2
    then show ?thesis by (simp add: str_simd_rfind_substr_def)
  next
    case 3
    then obtain c where c: "needle = [c]" by (auto simp: length_Suc_conv)
    have "List.find (\<lambda>i. haystack ! i = c) (rev [0..<?h]) = List.find (occurs_at haystack [c]) (rev [0..<?h])"
      by (rule find_cong_set) (simp add: occurs_single)
    with 3 c show ?thesis
      by (simp add: str_simd_rfind_substr_def str_simd_rfind_char_def rfind_char_loop_spec [OF mm])
  next
    case 4
    then have ne: "(?n = 0) = False" "(?h < ?n) = False" "(?n = 1) = False" by auto
    have "List.find (full_match haystack needle) (rev [0..<?h - ?n + 1]) =
        List.find (occurs_at haystack needle) (rev [0..<?h - ?n + 1])"
    proof (rule find_cong_set)
      fix j assume "j \<in> set (rev [0..<?h - ?n + 1])"
      then have "j + ?n \<le> ?h" using 4 by (simp only: set_rev set_upt atLeastLessThan_iff) linarith
      then show "full_match haystack needle j = occurs_at haystack needle j"
        using 4 by (intro full_match_occurs) auto
    qed
    then show ?thesis unfolding str_simd_rfind_substr_def Let_def ne if_False .
  qed
qed

subsection \<open>Properties\<close>

text \<open>
  C12. In both vector builds the substring search returns the first position at which the needle
  occurs and the backward search the last one, for every haystack and needle: the first-and-last
  byte filter, the chunked loop and the scalar tail miss nothing and report nothing false.
\<close>

theorem substring_search:
  "str_simd_find_substr movemask_epi8 haystack needle = str_simd_find_substr neon_to_bitmask haystack needle \<and>
    str_simd_find_substr movemask_epi8 haystack needle =
      (if length haystack < length needle then None
       else List.find (occurs_at haystack needle) [0..<length haystack - length needle + 1]) \<and>
    str_simd_rfind_substr movemask_epi8 haystack needle =
      (if length haystack < length needle then None
       else List.find (occurs_at haystack needle) (rev [0..<length haystack - length needle + 1])) \<and>
    str_simd_rfind_substr neon_to_bitmask haystack needle = str_simd_rfind_substr movemask_epi8 haystack needle"
  by (simp only: find_substr_spec [OF lanes_sse2] find_substr_spec [OF lanes_neon]
      rfind_substr_spec [OF lanes_sse2] rfind_substr_spec [OF lanes_neon] simp_thms)

end
