(* ===== verification/CellOps.thy ===== *)
theory CellOps
  imports Cells "HOL-Library.Monad_Syntax"
begin

section \<open>Operations on cells\<close>

text \<open>
  The accessors of \<open>bootstrap/cell.c\<close> for errors, structures and graphs, the argument helpers
  of \<open>bootstrap/primitives.c\<close> and the error primitives. A C function that may fail an
  assertion or return NULL gives \<open>None\<close> there. Reference counting is left out (see RefCount).
\<close>

subsection \<open>Predicates and getters\<close>

fun cell_is_number :: "'p cell \<Rightarrow> bool" where
  "cell_is_number (CNumber _ _) = True"
| "cell_is_number _ = False"

fun cell_is_integer :: "'p cell \<Rightarrow> bool" where
  "cell_is_integer (CInteger _ _) = True"
| "cell_is_integer _ = False"

fun cell_is_bool :: "'p cell \<Rightarrow> bool" where
  "cell_is_bool (CBool _ _) = True"
| "cell_is_bool _ = False"

fun cell_is_string :: "'p cell \<Rightarrow> bool" where
  "cell_is_string (CString _ _) = True"
| "cell_is_string _ = False"

fun cell_is_struct :: "'p cell \<Rightarrow> bool" where
  "cell_is_struct (CStruct _ _ _ _ _) = True"
| "cell_is_struct _ = False"

fun cell_is_graph :: "'p cell \<Rightarrow> bool" where
  "cell_is_graph (CGraph _ _ _ _ _ _ _) = True"
| "cell_is_graph _ = False"

fun cell_is_actor :: "'p cell \<Rightarrow> bool" where
  "cell_is_actor (CActor _ _) = True"
| "cell_is_actor _ = False"

fun cell_is_channel :: "'p cell \<Rightarrow> bool" where
  "cell_is_channel (CChannel _ _) = True"
| "cell_is_channel _ = False"

definition cell_is_lambda :: "'p cell \<Rightarrow> bool" where
  "cell_is_lambda c \<longleftrightarrow> cell_type c = CELL_LAMBDA"

fun cell_get_number :: "'p cell \<Rightarrow> double option" where
  "cell_get_number (CNumber _ d) = Some d"
| "cell_get_number _ = None"

fun cell_get_integer :: "'p cell \<Rightarrow> 64 word option" where
  "cell_get_integer (CInteger _ i) = Some i"
| "cell_get_integer _ = None"

fun cell_get_bool :: "'p cell \<Rightarrow> bool option" where
  "cell_get_bool (CBool _ b) = Some b"
| "cell_get_bool _ = None"

fun cell_get_symbol :: "'p cell \<Rightarrow> string option" where
  "cell_get_symbol (CSymbol _ s) = Some s"
| "cell_get_symbol _ = None"

fun cell_get_string :: "'p cell \<Rightarrow> string option" where
  "cell_get_string (CString _ s) = Some s"
| "cell_get_string _ = None"

subsection \<open>Equality of values\<close>

text \<open>
  \<open>cell_equal\<close> on two values that are different cells: no pointer of one is a pointer of the
  other. This is \<open>cell_equal\<close> with two disjoint sets of addresses.
\<close>

definition tm_equal :: "tm \<Rightarrow> tm \<Rightarrow> bool" where
  "tm_equal a b = cell_equal (map_cell (\<lambda>_. False) a) (map_cell (\<lambda>_. True) b)"

lemma addr_map: "cell_addr (map_cell f c) = f (cell_addr c)"
  by (cases c) auto

lemma type_map [simp]: "cell_type (map_cell f c) = cell_type c"
  by (cases c) auto

lemma tm_equal_simps [simp]:
  "tm_equal (CSymbol p s) (CSymbol q t) \<longleftrightarrow> s = t"
  "tm_equal (CString p s) (CString q t) \<longleftrightarrow> s = t"
  "tm_equal (CBool p x) (CBool q y) \<longleftrightarrow> x = y"
  "tm_equal (CNil p) (CNil q)"
  "tm_equal (CInteger p i) (CInteger q j) \<longleftrightarrow> i = j"
  "tm_equal (CPair p a b) (CPair q c d) \<longleftrightarrow> tm_equal a c \<and> tm_equal b d"
  by (simp_all add: tm_equal_def cell_equal.simps)

lemma tm_equal_symbol: "tm_equal c (CSymbol p s) \<longleftrightarrow> c = CSymbol () s"
  by (cases c) (auto simp: tm_equal_def cell_equal.simps)

subsection \<open>Arguments\<close>

text \<open>The arguments of a primitive are a list of pairs; \<open>arg1\<close> to \<open>arg4\<close> assert their presence.\<close>

definition arg1 :: "'p cell \<Rightarrow> 'p cell option" where
  "arg1 args = cell_car args"

definition arg2 :: "'p cell \<Rightarrow> 'p cell option" where
  "arg2 args = do { rest \<leftarrow> cell_cdr args; cell_car rest }"

definition arg3 :: "'p cell \<Rightarrow> 'p cell option" where
  "arg3 args = do { rest \<leftarrow> cell_cdr args; rest \<leftarrow> cell_cdr rest; cell_car rest }"

definition arg4 :: "'p cell \<Rightarrow> 'p cell option" where
  "arg4 args = do { rest \<leftarrow> cell_cdr args; rest \<leftarrow> cell_cdr rest; rest \<leftarrow> cell_cdr rest; cell_car rest }"

text \<open>The argument list as the evaluator builds it.\<close>

fun tm_list :: "tm list \<Rightarrow> tm" where
  "tm_list [] = cell_nil"
| "tm_list (c # cs) = cell_cons c (tm_list cs)"

lemma args_simps [simp]:
  "arg1 (cell_cons a r) = Some a"
  "arg2 (cell_cons a (cell_cons b r)) = Some b"
  "arg3 (cell_cons a (cell_cons b (cell_cons c r))) = Some c"
  "arg4 (cell_cons a (cell_cons b (cell_cons c (cell_cons d r)))) = Some d"
  by (simp_all add: arg1_def arg2_def arg3_def arg4_def cell_cons_def)

text \<open>Walking a list cell: the elements up to the first cell that is not a pair.\<close>

fun list_elems :: "'p cell \<Rightarrow> 'p cell list" where
  "list_elems (CPair _ a d) = a # list_elems d"
| "list_elems _ = []"

lemma list_elems_tm_list [simp]: "list_elems (tm_list cs) = cs"
  by (induction cs) (auto simp: cell_cons_def cell_nil_def)

lemma tm_list_inj [simp]: "tm_list xs = tm_list ys \<longleftrightarrow> xs = ys"
  by (metis list_elems_tm_list)

subsection \<open>Errors\<close>

definition ERROR_TRACE_CAP :: nat where "ERROR_TRACE_CAP = 32"

fun cell_error_message :: "'p cell \<Rightarrow> string option" where
  "cell_error_message (CError _ m _ _ _ _) = Some m"
| "cell_error_message _ = None"

fun cell_error_data :: "'p cell \<Rightarrow> 'p cell option" where
  "cell_error_data (CError _ _ d _ _ _) = d"
| "cell_error_data _ = None"

fun cell_error_cause :: "'p cell \<Rightarrow> 'p cell option" where
  "cell_error_cause (CError _ _ _ c _ _) = c"
| "cell_error_cause _ = None"

fun cell_error_root_cause :: "'p cell \<Rightarrow> 'p cell" where
  "cell_error_root_cause (CError p m d (Some e) t n) = cell_error_root_cause e"
| "cell_error_root_cause e = e"

fun cell_error_trace_len :: "'p cell \<Rightarrow> u16 option" where
  "cell_error_trace_len (CError _ _ _ _ _ n) = Some n"
| "cell_error_trace_len _ = None"

fun cell_error_return_trace :: "'p cell \<Rightarrow> u32 option list option" where
  "cell_error_return_trace (CError _ _ _ _ t _) = t"
| "cell_error_return_trace _ = None"

text \<open>The first stamp allocates the ring; the position 0 is never stamped.\<close>

fun error_stamp_return :: "'p cell \<Rightarrow> u32 \<Rightarrow> 'p cell" where
  "error_stamp_return (CError p m d c t n) pos =
     (if pos = 0 then CError p m d c t n
      else (let (ring, n) = (case t of None \<Rightarrow> (replicate ERROR_TRACE_CAP None, 0) | Some r \<Rightarrow> (r, n))
            in CError p m d c (Some (ring[unat n mod ERROR_TRACE_CAP := Some pos])) (n + 1)))"
| "error_stamp_return c pos = c"

text \<open>Error codes are interned, so equal codes are equal messages.\<close>

fun cell_error_chain_matches :: "'p cell \<Rightarrow> string \<Rightarrow> bool" where
  "cell_error_chain_matches (CError _ m _ cause _ _) error_type =
     (m = error_type \<or> (case cause of None \<Rightarrow> False | Some e \<Rightarrow> cell_error_chain_matches e error_type))"
| "cell_error_chain_matches _ _ = False"

subsection \<open>Error primitives\<close>

definition prim_error_create :: "tm \<Rightarrow> tm option" where
  "prim_error_create args = do {
     message_cell \<leftarrow> arg1 args;
     let message = (case cell_get_symbol message_cell of Some s \<Rightarrow> s | None \<Rightarrow> ''error'');
     rest \<leftarrow> cell_cdr args;
     data \<leftarrow> (if cell_is_pair rest then arg2 args else Some cell_nil);
     Some (cell_error message (Some data))
   }"

definition prim_is_error :: "tm \<Rightarrow> tm option" where
  "prim_is_error args = map_option (\<lambda>c. cell_bool (cell_is_error c)) (arg1 args)"

definition prim_error_type :: "tm \<Rightarrow> tm option" where
  "prim_error_type args = do {
     val \<leftarrow> arg1 args;
     if \<not> cell_is_error val then Some (cell_error ''not-an-error'' (Some val))
     else do {
       msg \<leftarrow> cell_error_message val;
       if msg \<noteq> [] \<and> hd msg = CHR '':'' then Some (cell_symbol msg)
       else Some (cell_symbol (take 255 (CHR '':'' # msg)))
     }
   }"

definition prim_error_data :: "tm \<Rightarrow> tm option" where
  "prim_error_data args = do {
     val \<leftarrow> arg1 args;
     if \<not> cell_is_error val then Some (cell_error ''not-an-error'' (Some val)) else cell_error_data val
   }"

definition prim_error_wrap :: "tm \<Rightarrow> tm option" where
  "prim_error_wrap args = do {
     val \<leftarrow> arg1 args;
     context_sym \<leftarrow> arg2 args;
     if \<not> cell_is_error val then Some val
     else do {
       let ctx_name = (case cell_get_symbol context_sym of Some s \<Rightarrow> s | None \<Rightarrow> ''wrapped-error'');
       rest \<leftarrow> cell_cdr args;
       rest \<leftarrow> cell_cdr rest;
       data \<leftarrow> (if \<not> cell_is_nil rest then cell_car rest else Some cell_nil);
       Some (cell_error_wrap ctx_name (Some data) (Some val))
     }
   }"

definition prim_error_cause :: "tm \<Rightarrow> tm option" where
  "prim_error_cause args = do {
     val \<leftarrow> arg1 args;
     if \<not> cell_is_error val then Some (cell_error ''not-an-error'' (Some val))
     else Some (case cell_error_cause val of Some c \<Rightarrow> c | None \<Rightarrow> cell_nil)
   }"

definition prim_error_root_cause :: "tm \<Rightarrow> tm option" where
  "prim_error_root_cause args = do {
     val \<leftarrow> arg1 args;
     if \<not> cell_is_error val then Some (cell_error ''not-an-error'' (Some val))
     else Some (cell_error_root_cause val)
   }"

text \<open>The loop conses the entries from the last index down to index 0.\<close>

fun error_trace_loop :: "u32 option list \<Rightarrow> nat \<Rightarrow> nat \<Rightarrow> tm \<Rightarrow> tm option" where
  "error_trace_loop trace len 0 result = Some result"
| "error_trace_loop trace len (Suc i) result = do {
     let idx = (if len \<le> ERROR_TRACE_CAP then i else (len - ERROR_TRACE_CAP + i) mod ERROR_TRACE_CAP);
     pos \<leftarrow> trace ! idx;
     error_trace_loop trace len i (cell_cons (cell_number (double_of_int (uint pos))) result)
   }"

definition prim_error_trace :: "tm \<Rightarrow> tm option" where
  "prim_error_trace args = do {
     val \<leftarrow> arg1 args;
     if \<not> cell_is_error val then Some (cell_error ''not-an-error'' (Some val))
     else do {
       len \<leftarrow> cell_error_trace_len val;
       case cell_error_return_trace val of
         None \<Rightarrow> Some cell_nil
       | Some trace \<Rightarrow>
           if len = 0 then Some cell_nil
           else error_trace_loop trace (unat len) (min (unat len) ERROR_TRACE_CAP) cell_nil
     }
   }"

definition prim_error_chain_match :: "tm \<Rightarrow> tm option" where
  "prim_error_chain_match args = do {
     val \<leftarrow> arg1 args;
     type_sym \<leftarrow> arg2 args;
     if \<not> cell_is_error val then Some (cell_bool False)
     else case cell_get_symbol type_sym of
         None \<Rightarrow> Some (cell_error ''type-symbol-expected'' (Some type_sym))
       | Some type_name \<Rightarrow> Some (cell_bool (cell_error_chain_matches val type_name))
   }"

definition prim_assert :: "tm \<Rightarrow> tm option" where
  "prim_assert args = do {
     condition \<leftarrow> arg1 args;
     message_cell \<leftarrow> arg2 args;
     if cell_get_bool condition \<noteq> Some True then
       Some (cell_error (case cell_get_symbol message_cell of Some s \<Rightarrow> s | None \<Rightarrow> ''assertion-failed'') (Some condition))
     else Some (cell_bool True)
   }"

subsection \<open>Structures\<close>

fun cell_struct_type_tag :: "'p cell \<Rightarrow> 'p cell option" where
  "cell_struct_type_tag (CStruct _ _ t _ _) = t"
| "cell_struct_type_tag _ = None"

fun cell_struct_variant :: "'p cell \<Rightarrow> 'p cell option" where
  "cell_struct_variant (CStruct _ _ _ v _) = v"
| "cell_struct_variant _ = None"

fun cell_struct_fields :: "'p cell \<Rightarrow> 'p cell option" where
  "cell_struct_fields (CStruct _ _ _ _ f) = f"
| "cell_struct_fields _ = None"

fun cell_struct_kind :: "'p cell \<Rightarrow> struct_kind option" where
  "cell_struct_kind (CStruct _ k _ _ _) = Some k"
| "cell_struct_kind _ = None"

text \<open>
  The loop of \<open>cell_struct_get_field\<close> over the association list: the outer option is an
  assertion that fails (an element that is not a pair, a tail that is neither pair nor nil), the
  inner one the NULL of a field that is not there.
\<close>

fun struct_field_loop :: "tm \<Rightarrow> tm \<Rightarrow> tm option option" where
  "struct_field_loop (CPair _ (CPair _ fname v) rest) field_name =
     (if tm_equal fname field_name then Some (Some v) else struct_field_loop rest field_name)"
| "struct_field_loop (CNil _) field_name = Some None"
| "struct_field_loop _ field_name = None"

definition cell_struct_get_field :: "tm \<Rightarrow> tm \<Rightarrow> tm option option" where
  "cell_struct_get_field c field_name =
     (case c of
        CStruct _ _ _ _ fields \<Rightarrow>
          if cell_is_symbol field_name then
            (case fields of None \<Rightarrow> Some None | Some f \<Rightarrow> struct_field_loop f field_name)
          else None
      | _ \<Rightarrow> None)"

subsection \<open>Graphs\<close>

fun cell_graph_type :: "'p cell \<Rightarrow> graph_type option" where
  "cell_graph_type (CGraph _ g _ _ _ _ _) = Some g"
| "cell_graph_type _ = None"

fun cell_graph_nodes :: "'p cell \<Rightarrow> 'p cell option" where
  "cell_graph_nodes (CGraph _ _ n _ _ _ _) = Some n"
| "cell_graph_nodes _ = None"

fun cell_graph_edges :: "'p cell \<Rightarrow> 'p cell option" where
  "cell_graph_edges (CGraph _ _ _ e _ _ _) = Some e"
| "cell_graph_edges _ = None"

fun cell_graph_metadata :: "'p cell \<Rightarrow> 'p cell option" where
  "cell_graph_metadata (CGraph _ _ _ _ m _ _) = Some m"
| "cell_graph_metadata _ = None"

fun cell_graph_entry :: "'p cell \<Rightarrow> 'p cell option" where
  "cell_graph_entry (CGraph _ _ _ _ _ e _) = e"
| "cell_graph_entry _ = None"

fun cell_graph_exit :: "'p cell \<Rightarrow> 'p cell option" where
  "cell_graph_exit (CGraph _ _ _ _ _ _ e) = e"
| "cell_graph_exit _ = None"

fun cell_graph_add_node :: "tm \<Rightarrow> tm \<Rightarrow> tm option" where
  "cell_graph_add_node (CGraph _ g nodes edges metadata entry exit) node =
     Some (CGraph () g (cell_cons node nodes) edges metadata entry exit)"
| "cell_graph_add_node _ _ = None"

fun cell_graph_add_edge :: "tm \<Rightarrow> tm \<Rightarrow> tm \<Rightarrow> tm \<Rightarrow> tm option" where
  "cell_graph_add_edge (CGraph _ g nodes edges metadata entry exit) from to label =
     (let edge = cell_cons from (cell_cons to (cell_cons label cell_nil))
      in Some (CGraph () g nodes (cell_cons edge edges) metadata entry exit))"
| "cell_graph_add_edge _ _ _ _ = None"

fun cell_graph_set_entry :: "tm \<Rightarrow> tm option \<Rightarrow> tm option" where
  "cell_graph_set_entry (CGraph _ g nodes edges metadata _ exit) entry =
     Some (CGraph () g nodes edges metadata entry exit)"
| "cell_graph_set_entry _ _ = None"

fun cell_graph_set_exit :: "tm \<Rightarrow> tm option \<Rightarrow> tm option" where
  "cell_graph_set_exit (CGraph _ g nodes edges metadata entry _) exit =
     Some (CGraph () g nodes edges metadata entry exit)"
| "cell_graph_set_exit _ _ = None"

section \<open>Error traces and chains\<close>

definition stamp_all :: "tm \<Rightarrow> u32 list \<Rightarrow> tm" where
  "stamp_all e ps = foldl error_stamp_return e ps"

text \<open>The ring holds the last positions, each at its number modulo the capacity.\<close>

definition trace_ring :: "u32 list \<Rightarrow> u32 option list \<Rightarrow> bool" where
  "trace_ring ps ring \<longleftrightarrow> length ring = ERROR_TRACE_CAP \<and>
     (\<forall>j < length ps. length ps \<le> j + ERROR_TRACE_CAP \<longrightarrow> ring ! (j mod ERROR_TRACE_CAP) = Some (ps ! j))"

lemma mod_window_inj:
  assumes "(i :: nat) mod c = j mod c" "i < j" "j < i + c"
  shows False
  using assms by (metis add_diff_inverse_nat less_imp_le_nat mod_eq_dvd_iff_nat nat_dvd_not_less
      not_less_iff_gr_or_eq zero_less_diff less_diff_conv2 add.commute)

lemma trace_ring_snoc:
  assumes "trace_ring ps ring"
  shows "trace_ring (ps @ [p]) (ring[length ps mod ERROR_TRACE_CAP := Some p])"
  unfolding trace_ring_def
proof (intro conjI allI impI)
  show "length (ring[length ps mod ERROR_TRACE_CAP := Some p]) = ERROR_TRACE_CAP"
    using assms by (simp add: trace_ring_def)
  fix j assume j: "j < length (ps @ [p])" "length (ps @ [p]) \<le> j + ERROR_TRACE_CAP"
  have pos: "0 < ERROR_TRACE_CAP" by (simp add: ERROR_TRACE_CAP_def)
  show "ring[length ps mod ERROR_TRACE_CAP := Some p] ! (j mod ERROR_TRACE_CAP) = Some ((ps @ [p]) ! j)"
  proof (cases "j = length ps")
    case True
    then show ?thesis using assms pos by (simp add: trace_ring_def)
  next
    case False
    then have "j < length ps" "length ps < j + ERROR_TRACE_CAP" using j by auto
    moreover from this have "length ps mod ERROR_TRACE_CAP \<noteq> j mod ERROR_TRACE_CAP"
      using mod_window_inj [of j ERROR_TRACE_CAP "length ps"] by auto
    ultimately show ?thesis using assms by (simp add: trace_ring_def nth_append)
  qed
qed

lemma trace_ring_Nil: "trace_ring [] (replicate ERROR_TRACE_CAP None)"
  by (simp add: trace_ring_def)

lemma u16_index: "n < 2 ^ 16 \<Longrightarrow> unat (of_nat n :: u16) = n"
  by (simp add: unat_of_nat)

lemma stamp_all_ring:
  assumes "0 \<notin> set ps" "ps \<noteq> []" "length ps < 2 ^ 16"
  shows "\<exists>ring. stamp_all (cell_error m d) ps = CError () m d None (Some ring) (of_nat (length ps)) \<and> trace_ring ps ring"
  using assms
proof (induction ps rule: rev_induct)
  case (snoc p ps)
  have p: "p \<noteq> 0" using snoc.prems by auto
  show ?case
  proof (cases "ps = []")
    case True
    have "trace_ring ([] @ [p]) ((replicate ERROR_TRACE_CAP None)[length ([] :: u32 list) mod ERROR_TRACE_CAP := Some p])"
      by (rule trace_ring_snoc [OF trace_ring_Nil])
    with True p show ?thesis by (auto simp: stamp_all_def cell_error_def Let_def)
  next
    case False
    with snoc obtain ring where ring: "trace_ring ps ring"
      "stamp_all (cell_error m d) ps = CError () m d None (Some ring) (of_nat (length ps))" by auto
    have "unat (of_nat (length ps) :: u16) = length ps"
      using snoc.prems by (intro u16_index) simp
    with ring p trace_ring_snoc [OF ring(1), of p] show ?thesis
      by (simp add: stamp_all_def Let_def add.commute)
  qed
qed simp

lemma error_trace_loop_list:
  assumes "\<And>i. i < k \<Longrightarrow> trace ! (if len \<le> ERROR_TRACE_CAP then i else (len - ERROR_TRACE_CAP + i) mod ERROR_TRACE_CAP) = Some (g i)"
  shows "error_trace_loop trace len k (tm_list acc) =
    Some (tm_list (map (\<lambda>i. cell_number (double_of_int (uint (g i)))) [0..<k] @ acc))"
  using assms
proof (induction k arbitrary: acc)
  case (Suc k)
  have "error_trace_loop trace len (Suc k) (tm_list acc) =
      error_trace_loop trace len k (tm_list (cell_number (double_of_int (uint (g k))) # acc))"
    using Suc.prems [of k] by (simp add: Let_def)
  also have "\<dots> = Some (tm_list (map (\<lambda>i. cell_number (double_of_int (uint (g i)))) [0..<k] @
      cell_number (double_of_int (uint (g k))) # acc))"
    using Suc.prems by (intro Suc.IH) simp
  finally show ?case by simp
qed simp

text \<open>
  The comment of the trace primitive promises the positions with the most recent first. What it
  returns, after a sequence of stamps of non-zero positions, is the last 32 of them (all, if there are
  fewer) with the oldest first, for every length below the width of the counter.
\<close>

theorem error_trace_window:
  assumes "0 \<notin> set ps" "length ps < 2 ^ 16"
  shows "prim_error_trace (tm_list [stamp_all (cell_error m d) ps]) =
    Some (tm_list (map (\<lambda>p. cell_number (double_of_int (uint p))) (drop (length ps - ERROR_TRACE_CAP) ps)))"
proof (cases "ps = []")
  case True
  then show ?thesis by (simp add: prim_error_trace_def stamp_all_def cell_error_def)
next
  case False
  obtain ring where ring: "trace_ring ps ring"
    "stamp_all (cell_error m d) ps = CError () m d None (Some ring) (of_nat (length ps))"
    using stamp_all_ring [OF assms(1) False assms(2)] by blast
  define n k where nk: "n = length ps" "k = min n ERROR_TRACE_CAP"
  have n: "unat (of_nat n :: u16) = n" using assms(2) by (simp add: u16_index nk)
  then have nz: "(of_nat n :: u16) \<noteq> 0" using False by (metis length_0_conv nk(1) unat_0)
  have "error_trace_loop ring n k (tm_list []) =
      Some (tm_list (map (\<lambda>i. cell_number (double_of_int (uint (ps ! (n - ERROR_TRACE_CAP + i))))) [0..<k] @ []))"
  proof (rule error_trace_loop_list)
    fix i assume i: "i < k"
    show "ring ! (if n \<le> ERROR_TRACE_CAP then i else (n - ERROR_TRACE_CAP + i) mod ERROR_TRACE_CAP) =
        Some (ps ! (n - ERROR_TRACE_CAP + i))"
    proof (cases "n \<le> ERROR_TRACE_CAP")
      case True
      then show ?thesis
        using ring(1) [unfolded trace_ring_def, THEN conjunct2, rule_format, of i] i by (simp add: nk)
    next
      case False
      then show ?thesis
        using ring(1) [unfolded trace_ring_def, THEN conjunct2, rule_format, of "n - ERROR_TRACE_CAP + i"] i
        by (simp add: nk)
    qed
  qed
  moreover have "map (\<lambda>i. ps ! (n - ERROR_TRACE_CAP + i)) [0..<k] = drop (n - ERROR_TRACE_CAP) ps"
    by (rule nth_equalityI) (auto simp: nk)
  then have "map (\<lambda>i. cell_number (double_of_int (uint (ps ! (n - ERROR_TRACE_CAP + i))))) [0..<k] =
      map (\<lambda>p. cell_number (double_of_int (uint p))) (drop (n - ERROR_TRACE_CAP) ps)"
    by (metis (mono_tags, lifting) map_map comp_apply map_eq_conv)
  ultimately show ?thesis
    using n nz by (simp add: prim_error_trace_def ring(2) nk)
qed

theorem error_trace_window_witness:
  "prim_error_trace (tm_list [stamp_all (cell_error ''e'' None) [7, 9]]) =
    Some (tm_list [cell_number (double_of_int 7), cell_number (double_of_int 9)])"
  using error_trace_window [of "[7, 9]" "''e''" None] by (simp add: ERROR_TRACE_CAP_def)

text \<open>
  Wrapping an error keeps its root cause and adds exactly the context to the messages its
  chain matches; a value that is not an error passes through unchanged.
\<close>

theorem error_wrap_chain:
  assumes "prim_error_wrap (tm_list [val, cell_symbol ctx]) = Some w"
  shows "if cell_is_error val
    then cell_is_error w \<and> cell_error_root_cause w = cell_error_root_cause val \<and>
      (\<forall>t. cell_error_chain_matches w t \<longleftrightarrow> t = ctx \<or> cell_error_chain_matches val t)
    else w = val"
  using assms
  by (auto simp: prim_error_wrap_def cell_error_wrap_def cell_symbol_def cell_cons_def cell_nil_def arg1_def arg2_def
      split: if_splits)

theorem error_wrap_chain_witness:
  "\<exists>w. prim_error_wrap (tm_list [cell_error ''a'' None, cell_symbol ''b'']) = Some w \<and>
    cell_error_chain_matches w ''a'' \<and> cell_error_chain_matches w ''b''"
proof -
  obtain w where w: "prim_error_wrap (tm_list [cell_error ''a'' None, cell_symbol ''b'']) = Some w"
    by (simp add: prim_error_wrap_def cell_error_def cell_symbol_def cell_cons_def cell_nil_def arg1_def arg2_def)
  from error_wrap_chain [OF w] w show ?thesis by (auto simp: cell_error_def)
qed

end
