(* ===== verification/Floats.thy ===== *)
theory Floats
  imports Doubles
begin

section \<open>Double arithmetic\<close>

text \<open>
  The C operators on doubles that the primitives use, computed on the bit patterns: the exact
  result as a fraction in units of the smallest subnormal \<open>2^-1074\<close>, rounded to nearest with
  ties to even. A finite pattern below the infinities is the number of representable
  magnitudes below it, so that rounding is one division and an exponent shift. All NaN results
  are one pattern.
\<close>

definition double_is_inf :: "double \<Rightarrow> bool" where
  "double_is_inf d \<longleftrightarrow> double_exp d = 2047 \<and> double_frac d = 0"

definition double_finite :: "double \<Rightarrow> bool" where
  "double_finite d \<longleftrightarrow> double_exp d < 2047"

text \<open>The magnitude and the value of a finite double in units of \<open>2^-1074\<close>.\<close>

definition double_mag :: "double \<Rightarrow> nat" where
  "double_mag d =
     (if double_exp d = 0 then double_frac d else (2 ^ 52 + double_frac d) * 2 ^ (double_exp d - 1))"

definition double_val :: "double \<Rightarrow> int" where
  "double_val d = (if double_neg d then - int (double_mag d) else int (double_mag d))"

text \<open>Division rounded to nearest, ties to even.\<close>

definition div_rne :: "nat \<Rightarrow> nat \<Rightarrow> nat" where
  "div_rne n d =
     (let q = n div d; r = n mod d in if d < 2 * r \<or> (2 * r = d \<and> odd q) then q + 1 else q)"

text \<open>The pattern, without sign, of the double nearest to \<open>n / d\<close> units.\<close>

definition double_round :: "nat \<Rightarrow> nat \<Rightarrow> nat" where
  "double_round n d =
     (let q = n div d;
          k = (if q < 2 ^ 53 then 0 else nat_log2 q - 52)
      in min (k * 2 ^ 52 + div_rne n (d * 2 ^ k)) (2047 * 2 ^ 52))"

definition double_pack :: "bool \<Rightarrow> nat \<Rightarrow> double" where
  "double_pack neg bits = of_nat ((if neg then 2 ^ 63 else 0) + bits)"

definition double_nan :: double where "double_nan = 0x7FF8000000000000"
definition double_inf :: "bool \<Rightarrow> double" where "double_inf neg = double_pack neg (2047 * 2 ^ 52)"

definition double_minus :: "double \<Rightarrow> double" where
  "double_minus d = d XOR 0x8000000000000000"

definition double_abs :: "double \<Rightarrow> double" where
  "double_abs d = d AND 0x7FFFFFFFFFFFFFFF"

definition double_add :: "double \<Rightarrow> double \<Rightarrow> double" where
  "double_add a b =
     (if double_is_nan a \<or> double_is_nan b then double_nan
      else if double_is_inf a then
        (if double_is_inf b \<and> double_neg a \<noteq> double_neg b then double_nan else a)
      else if double_is_inf b then b
      else (let s = double_val a + double_val b
            in if s = 0 then double_pack (double_neg a \<and> double_neg b) 0
               else double_pack (s < 0) (double_round (nat \<bar>s\<bar>) 1)))"

definition double_sub :: "double \<Rightarrow> double \<Rightarrow> double" where
  "double_sub a b = double_add a (double_minus b)"

definition double_mul :: "double \<Rightarrow> double \<Rightarrow> double" where
  "double_mul a b =
     (let neg = (double_neg a \<noteq> double_neg b)
      in if double_is_nan a \<or> double_is_nan b then double_nan
         else if double_is_inf a \<or> double_is_inf b then
           (if double_mag a = 0 \<or> double_mag b = 0 then double_nan else double_inf neg)
         else double_pack neg (double_round (double_mag a * double_mag b) (2 ^ 1074)))"

definition double_div :: "double \<Rightarrow> double \<Rightarrow> double" where
  "double_div a b =
     (let neg = (double_neg a \<noteq> double_neg b)
      in if double_is_nan a \<or> double_is_nan b then double_nan
         else if double_is_inf a then (if double_is_inf b then double_nan else double_inf neg)
         else if double_is_inf b then double_pack neg 0
         else if double_mag b = 0 then (if double_mag a = 0 then double_nan else double_inf neg)
         else double_pack neg (double_round (double_mag a * 2 ^ 1074) (double_mag b)))"

text \<open>
  \<open>floor\<close>, \<open>ceil\<close>, \<open>round\<close> and \<open>fmod\<close> of \<^verbatim>\<open>math.h\<close>: the result is an integral number of ones
  (or of units, for \<open>fmod\<close>), zero results keep the sign of the argument.
\<close>

definition double_integral :: "(double \<Rightarrow> int) \<Rightarrow> double \<Rightarrow> double" where
  "double_integral f d =
     (if \<not> double_finite d then d
      else (let q = f d
            in if q = 0 then double_pack (double_neg d) 0
               else double_pack (q < 0) (double_round (nat \<bar>q\<bar> * 2 ^ 1074) 1)))"

definition double_floor :: "double \<Rightarrow> double" where
  "double_floor = double_integral (\<lambda>d. double_val d div 2 ^ 1074)"

definition double_ceil :: "double \<Rightarrow> double" where
  "double_ceil = double_integral (\<lambda>d. - ((- double_val d) div 2 ^ 1074))"

definition double_round_half :: "double \<Rightarrow> double" where
  "double_round_half = double_integral
     (\<lambda>d. let m = int ((2 * double_mag d + 2 ^ 1074) div (2 * 2 ^ 1074)) in if double_neg d then - m else m)"

definition double_fmod :: "double \<Rightarrow> double \<Rightarrow> double" where
  "double_fmod a b =
     (if double_is_nan a \<or> double_is_nan b \<or> double_is_inf a then double_nan
      else if double_is_inf b then a
      else if double_mag b = 0 then double_nan
      else double_pack (double_neg a) (double_round (double_mag a mod double_mag b) 1))"

subsection \<open>Finite doubles are rounded to themselves\<close>

lemma double_bits_split: "unat d = (if double_neg d then 2 ^ 63 else 0) + double_exp d * 2 ^ 52 + double_frac d"
proof -
  obtain n where n: "n = unat d" by simp
  have lt: "n < 2 ^ 64" using unsigned_less [of d, where 'a = nat] by (simp add: n)
  obtain q r where qr: "q = n div 2 ^ 52" "r = n mod 2 ^ 52" "n = q * 2 ^ 52 + r"
    using div_mult_mod_eq [of n "2 ^ 52"] by metis
  have b: "n div 2 ^ 52 = n div 2 ^ 63 * 2 ^ 11 + (n div 2 ^ 52) mod 2 ^ 11"
  proof -
    have "n div 2 ^ 63 = n div 2 ^ 52 div 2 ^ 11" by (simp add: div_mult2_eq [symmetric])
    then show ?thesis by simp
  qed
  have c: "n div 2 ^ 63 = (if 2 ^ 63 \<le> n then 1 else 0)"
  proof (cases "2 ^ 63 \<le> n")
    case True
    then have "n div 2 ^ 63 = 1" using lt by (intro div_nat_eqI) simp_all
    then show ?thesis using True by simp
  qed simp
  have "q = (if 2 ^ 63 \<le> n then 1 else 0) * 2 ^ 11 + q mod 2 ^ 11"
    using b unfolding c qr(1) [symmetric] .
  then have "q * 2 ^ 52 = (if 2 ^ 63 \<le> n then 2 ^ 63 else 0) + q mod 2 ^ 11 * 2 ^ 52" by (cases "2 ^ 63 \<le> n") auto
  with qr(3) show ?thesis
    unfolding double_neg_def double_exp_def double_frac_def n [symmetric] qr(1,2) [symmetric] by linarith
qed

lemma double_frac_less: "double_frac d < 2 ^ 52"
  by (simp add: double_frac_def)

lemma nat_log2_scale:
  assumes "2 ^ 52 \<le> m" "m < 2 ^ 53"
  shows "nat_log2 (m * 2 ^ j) = 52 + j"
proof (rule nat_log2_unique)
  show "2 ^ (52 + j) \<le> m * 2 ^ j" using assms(1) by (simp add: power_add)
  show "m * 2 ^ j < 2 ^ Suc (52 + j)" using assms(2) by (simp add: power_add)
qed

lemma div_rne_exact: "0 < d \<Longrightarrow> div_rne (q * d) d = q"
  by (simp add: div_rne_def)

lemma double_round_mag:
  assumes "double_finite d"
  shows "double_round (double_mag d) 1 = double_exp d * 2 ^ 52 + double_frac d"
proof -
  define e f where ef: "e = double_exp d" "f = double_frac d"
  have f: "f < 2 ^ 52" using double_frac_less by (simp add: ef)
  have e: "e < 2047" using assms by (simp add: ef double_finite_def)
  have cap: "e * 2 ^ 52 + f \<le> 2047 * 2 ^ 52"
  proof -
    have "e * 2 ^ 52 \<le> 2046 * 2 ^ 52" using e by simp
    then show ?thesis using f by simp
  qed
  consider "e = 0" | "e = 1" | "2 \<le> e" by linarith
  then have "double_round (double_mag d) 1 = min (e * 2 ^ 52 + f) (2047 * 2 ^ 52)"
  proof cases
    case 1
    then have "double_mag d = f" by (simp add: double_mag_def ef)
    with 1 f show ?thesis by (simp add: double_round_def div_rne_def)
  next
    case 2
    then have "double_mag d = 2 ^ 52 + f" by (simp add: double_mag_def ef)
    with 2 f show ?thesis by (simp add: double_round_def div_rne_def)
  next
    case 3
    let ?M = "2 ^ 52 + f"
    have mag: "double_mag d = ?M * 2 ^ (e - 1)" using 3 by (simp add: double_mag_def ef)
    have "2 ^ 53 \<le> ?M * 2 ^ (e - 1)"
    proof -
      have "(2 :: nat) ^ 1 \<le> 2 ^ (e - 1)" using 3 by (intro power_increasing) auto
      then have "2 ^ 52 * 2 ^ 1 \<le> ?M * 2 ^ (e - 1)" by (intro mult_le_mono) auto
      then show ?thesis by simp
    qed
    moreover have "nat_log2 (?M * 2 ^ (e - 1)) = 52 + (e - 1)"
      using f by (intro nat_log2_scale) auto
    ultimately have "double_round (double_mag d) 1 =
        min ((e - 1) * 2 ^ 52 + div_rne (?M * 2 ^ (e - 1)) (2 ^ (e - 1))) (2047 * 2 ^ 52)"
      by (simp add: double_round_def mag Let_def)
    also have "div_rne (?M * 2 ^ (e - 1)) (2 ^ (e - 1)) = ?M" by (rule div_rne_exact) simp
    also have "(e - 1) * 2 ^ 52 + ?M = e * 2 ^ 52 + f" using 3 by (cases e) auto
    finally show ?thesis .
  qed
  with cap show ?thesis by (simp add: ef)
qed

lemma double_pack_mag:
  assumes "double_finite d"
  shows "double_pack (double_neg d) (double_round (double_mag d) 1) = d"
proof -
  have "double_pack (double_neg d) (double_round (double_mag d) 1) = of_nat (unat d)"
    unfolding double_pack_def double_round_mag [OF assms] double_bits_split [of d] by (simp only: add.assoc)
  then show ?thesis by simp
qed

subsection \<open>Small integers are exact\<close>

lemma small_int_mag:
  assumes "\<bar>i\<bar> < 2 ^ 53"
  shows "double_finite (double_of_int i)" "double_mag (double_of_int i) = nat \<bar>i\<bar> * 2 ^ 1074"
    "double_neg (double_of_int i) \<longleftrightarrow> i < 0"
proof -
  define m where "m = nat \<bar>i\<bar>"
  have m: "m < 2 ^ 53" using assms by (simp add: m_def)
  note f = double_of_int_fields [OF assms, folded m_def]
  show "double_neg (double_of_int i) \<longleftrightarrow> i < 0" by (rule f)
  have "double_finite (double_of_int i) \<and> double_mag (double_of_int i) = m * 2 ^ 1074"
  proof (cases "m = 0")
    case True
    then show ?thesis
      unfolding double_finite_def double_mag_def f by (simp add: double_of_nat_def)
  next
    case False
    then have p: "0 < m" by simp
    note g = double_of_nat_fields [OF p m]
    have "2 ^ 52 + (m * 2 ^ (52 - nat_log2 m) - 2 ^ 52) = m * 2 ^ (52 - nat_log2 m)"
      using g(3) by simp
    moreover have "(2 :: nat) ^ (52 - nat_log2 m) * 2 ^ (nat_log2 m + 1023 - 1) = 2 ^ 1074"
      unfolding power_add [symmetric] using g(4) by simp
    ultimately have "(2 ^ 52 + (m * 2 ^ (52 - nat_log2 m) - 2 ^ 52)) * 2 ^ (nat_log2 m + 1023 - 1) = m * 2 ^ 1074"
      by (simp only: mult.assoc)
    with g show ?thesis
      unfolding double_finite_def double_mag_def f g(1,2) by simp
  qed
  then show "double_finite (double_of_int i)" "double_mag (double_of_int i) = nat \<bar>i\<bar> * 2 ^ 1074"
    by (auto simp: m_def)
qed

lemma finite_not_special: "double_finite d \<Longrightarrow> \<not> double_is_nan d \<and> \<not> double_is_inf d"
  by (auto simp: double_finite_def double_is_nan_def double_is_inf_def)

lemma small_int_val: "\<bar>i\<bar> < 2 ^ 53 \<Longrightarrow> double_val (double_of_int i) = i * 2 ^ 1074"
  by (simp add: double_val_def small_int_mag)

lemma pack_small_int:
  assumes "\<bar>i\<bar> < 2 ^ 53"
  shows "double_pack (i < 0) (double_round (nat \<bar>i\<bar> * 2 ^ 1074) 1) = double_of_int i"
  using double_pack_mag [OF small_int_mag(1) [OF assms]] unfolding small_int_mag(2,3) [OF assms] .

end
