(* ===== verification/PrimArith.thy ===== *)
theory PrimArith
  imports CellOps Floats "HOL-Library.Signed_Division"
begin

section \<open>Arithmetic and comparison primitives\<close>

text \<open>
  The pair, logic, arithmetic, comparison and bit primitives of \<open>bootstrap/primitives.c\<close> on the
  two numeric types: 64-bit integers and doubles. A primitive gets its argument list; its result
  is \<open>None\<close> where an assertion fails or the C operation is undefined (a conversion out of range,
  \<^verbatim>\<open>INT64_MIN % -1\<close>, a shift by the width), otherwise a cell, errors included. \<open>rand()\<close> is an
  argument of the generators.
\<close>

definition int64_fits :: "int \<Rightarrow> bool" where
  "int64_fits i \<longleftrightarrow> - (2 ^ 63) \<le> i \<and> i < 2 ^ 63"

text \<open>\<^verbatim>\<open>(int)d\<close>\<close>

definition double_to_int32 :: "double \<Rightarrow> int option" where
  "double_to_int32 d = do {
     i \<leftarrow> double_to_int d;
     if - (2 ^ 31) \<le> i \<and> i < 2 ^ 31 then Some i else None
   }"

fun cell_to_int64 :: "'p cell \<Rightarrow> 64 word option" where
  "cell_to_int64 (CInteger _ i) = Some i"
| "cell_to_int64 (CNumber _ d) = map_option of_int (double_to_int d)"
| "cell_to_int64 _ = None"

subsection \<open>Pairs, equality, logic\<close>

definition prim_cons :: "tm \<Rightarrow> tm option" where
  "prim_cons args = do { a \<leftarrow> arg1 args; b \<leftarrow> arg2 args; Some (cell_cons a b) }"

definition prim_car :: "tm \<Rightarrow> tm option" where
  "prim_car args = do {
     pair \<leftarrow> arg1 args;
     if \<not> cell_is_pair pair then Some (cell_error ''car requires pair'' (Some pair)) else cell_car pair
   }"

definition prim_cdr :: "tm \<Rightarrow> tm option" where
  "prim_cdr args = do {
     pair \<leftarrow> arg1 args;
     if \<not> cell_is_pair pair then Some (cell_error ''cdr requires pair'' (Some pair)) else cell_cdr pair
   }"

definition prim_quote :: "tm \<Rightarrow> tm option" where
  "prim_quote args = arg1 args"

text \<open>Equality looks at addresses, so it takes cells with addresses.\<close>

definition prim_equal :: "'p cell \<Rightarrow> tm option" where
  "prim_equal args = do { a \<leftarrow> arg1 args; b \<leftarrow> arg2 args; Some (cell_bool (cell_equal a b)) }"

definition prim_not_equal :: "'p cell \<Rightarrow> tm option" where
  "prim_not_equal args = do { result \<leftarrow> prim_equal args; val \<leftarrow> cell_get_bool result; Some (cell_bool (\<not> val)) }"

definition prim_not :: "tm \<Rightarrow> tm option" where
  "prim_not args = do {
     a \<leftarrow> arg1 args;
     case cell_get_bool a of
       None \<Rightarrow> Some (cell_error ''not requires boolean'' (Some a))
     | Some b \<Rightarrow> Some (cell_bool (\<not> b))
   }"

subsection \<open>Arithmetic\<close>

text \<open>
  The common shape of addition, subtraction and multiplication: two integers with an overflow
  check, otherwise doubles.
\<close>

definition int_or_double ::
    "string \<Rightarrow> (int \<Rightarrow> int \<Rightarrow> int) \<Rightarrow> (double \<Rightarrow> double \<Rightarrow> double) \<Rightarrow> tm \<Rightarrow> tm option" where
  "int_or_double msg iop dop args = do {
     a \<leftarrow> arg1 args;
     b \<leftarrow> arg2 args;
     case (a, b) of
       (CInteger _ i, CInteger _ j) \<Rightarrow>
         (let r = iop (sint i) (sint j)
          in if int64_fits r then Some (cell_integer (of_int r))
             else Some (cell_error ''integer-overflow'' (Some args)))
     | _ \<Rightarrow>
         if \<not> (cell_is_numeric a \<and> cell_is_numeric b) then Some (cell_error msg (Some a))
         else Some (cell_number (dop (cell_to_double a) (cell_to_double b)))
   }"

definition prim_add :: "tm \<Rightarrow> tm option" where
  "prim_add = int_or_double ''+ requires numbers'' (+) double_add"

definition prim_sub :: "tm \<Rightarrow> tm option" where
  "prim_sub = int_or_double ''- requires numbers'' (-) double_sub"

definition prim_mul :: "tm \<Rightarrow> tm option" where
  "prim_mul = int_or_double ''* requires numbers'' (*) double_mul"

definition prim_div :: "tm \<Rightarrow> tm option" where
  "prim_div args = do {
     a \<leftarrow> arg1 args;
     b \<leftarrow> arg2 args;
     if \<not> (cell_is_numeric a \<and> cell_is_numeric b) then Some (cell_error ''/ requires numbers'' (Some a))
     else let divisor = cell_to_double b in
       if double_eq divisor 0 then Some (cell_error ''div-by-zero'' (Some b))
       else Some (cell_number (double_div (cell_to_double a) divisor))
   }"

definition prim_quot :: "tm \<Rightarrow> tm option" where
  "prim_quot args = do {
     a \<leftarrow> arg1 args;
     b \<leftarrow> arg2 args;
     case (a, b) of
       (CInteger _ i, CInteger _ j) \<Rightarrow>
         if j = 0 then Some (cell_error ''quot-by-zero'' (Some b))
         else if sint i = - (2 ^ 63) \<and> sint j = -1 then Some (cell_error ''integer-overflow'' (Some args))
         else Some (cell_integer (of_int (sint i sdiv sint j)))
     | _ \<Rightarrow>
         if \<not> (cell_is_numeric a \<and> cell_is_numeric b) then Some (cell_error ''quotient requires numbers'' (Some a))
         else let divisor = cell_to_double b in
           if double_eq divisor 0 then Some (cell_error ''quot-by-zero'' (Some b))
           else Some (cell_number (double_floor (double_div (cell_to_double a) divisor)))
   }"

text \<open>\<^verbatim>\<open>INT64_MIN % -1\<close> is undefined, and \<open>prim_mod\<close> does not exclude it.\<close>

definition prim_mod :: "tm \<Rightarrow> tm option" where
  "prim_mod args = do {
     a \<leftarrow> arg1 args;
     b \<leftarrow> arg2 args;
     case (a, b) of
       (CInteger _ i, CInteger _ j) \<Rightarrow>
         if j = 0 then Some (cell_error ''mod-by-zero'' (Some b))
         else if sint i = - (2 ^ 63) \<and> sint j = -1 then None
         else Some (cell_integer (of_int (sint i smod sint j)))
     | _ \<Rightarrow>
         if \<not> (cell_is_numeric a \<and> cell_is_numeric b) then Some (cell_error ''% requires numbers'' (Some a))
         else let divisor = cell_to_double b in
           if double_eq divisor 0 then Some (cell_error ''mod-by-zero'' (Some b))
           else Some (cell_number (double_fmod (cell_to_double a) divisor))
   }"

subsection \<open>Comparisons\<close>

definition compare_with ::
    "(tm \<Rightarrow> tm \<Rightarrow> tm) \<Rightarrow> (int \<Rightarrow> int \<Rightarrow> bool) \<Rightarrow> (double \<Rightarrow> double \<Rightarrow> bool) \<Rightarrow> tm \<Rightarrow> tm option" where
  "compare_with err icmp dcmp args = do {
     a \<leftarrow> arg1 args;
     b \<leftarrow> arg2 args;
     case (a, b) of
       (CInteger _ i, CInteger _ j) \<Rightarrow> Some (cell_bool (icmp (sint i) (sint j)))
     | _ \<Rightarrow>
         if \<not> (cell_is_numeric a \<and> cell_is_numeric b) then Some (err a b)
         else Some (cell_bool (dcmp (cell_to_double a) (cell_to_double b)))
   }"

definition prim_lt :: "tm \<Rightarrow> tm option" where
  "prim_lt = compare_with (\<lambda>a b. cell_error ''< requires numbers'' (Some a)) (<) double_lt"

definition prim_gt :: "tm \<Rightarrow> tm option" where
  "prim_gt = compare_with
     (\<lambda>a b. cell_error ''> requires numbers'' (Some (cell_cons a (cell_cons b cell_nil))))
     (>) (\<lambda>x y. double_lt y x)"

definition prim_le :: "tm \<Rightarrow> tm option" where
  "prim_le = compare_with (\<lambda>a b. cell_error ''<= requires numbers'' (Some a)) (\<le>) double_le"

definition prim_ge :: "tm \<Rightarrow> tm option" where
  "prim_ge = compare_with (\<lambda>a b. cell_error ''>= requires numbers'' (Some a)) (\<ge>) (\<lambda>x y. double_le y x)"

subsection \<open>Bits\<close>

definition int64_args :: "tm \<Rightarrow> (64 word \<times> 64 word) option" where
  "int64_args args = do {
     a \<leftarrow> arg1 args; b \<leftarrow> arg2 args;
     v \<leftarrow> cell_to_int64 a; n \<leftarrow> cell_to_int64 b;
     Some (v, n)
   }"

definition int64_arg :: "tm \<Rightarrow> 64 word option" where
  "int64_arg args = do { a \<leftarrow> arg1 args; cell_to_int64 a }"

definition prim_bit_and :: "tm \<Rightarrow> tm option" where
  "prim_bit_and args = map_option (\<lambda>(v, n). cell_integer (v AND n)) (int64_args args)"

definition prim_bit_or :: "tm \<Rightarrow> tm option" where
  "prim_bit_or args = map_option (\<lambda>(v, n). cell_integer (v OR n)) (int64_args args)"

definition prim_bit_xor :: "tm \<Rightarrow> tm option" where
  "prim_bit_xor args = map_option (\<lambda>(v, n). cell_integer (v XOR n)) (int64_args args)"

definition prim_bit_not :: "tm \<Rightarrow> tm option" where
  "prim_bit_not args = map_option (\<lambda>v. cell_integer (NOT v)) (int64_arg args)"

definition bit_shift :: "(64 word \<Rightarrow> nat \<Rightarrow> 64 word) \<Rightarrow> tm \<Rightarrow> tm option" where
  "bit_shift shift args = do {
     (v, n) \<leftarrow> int64_args args;
     if sint n < 0 \<or> 64 \<le> sint n then map_option (\<lambda>b. cell_error ''shift-out-of-range'' (Some b)) (arg2 args)
     else Some (cell_integer (shift v (unat n)))
   }"

definition prim_bit_shl :: "tm \<Rightarrow> tm option" where
  "prim_bit_shl = bit_shift (\<lambda>v n. push_bit n v)"

definition prim_bit_shr :: "tm \<Rightarrow> tm option" where
  "prim_bit_shr = bit_shift (\<lambda>v n. signed_drop_bit n v)"

definition prim_bit_ushr :: "tm \<Rightarrow> tm option" where
  "prim_bit_ushr = bit_shift (\<lambda>v n. drop_bit n v)"

definition prim_bit_popcount :: "tm \<Rightarrow> tm option" where
  "prim_bit_popcount args =
     map_option (\<lambda>v. cell_integer (of_nat (length (filter (bit v) [0..<64])))) (int64_arg args)"

definition count_trailing :: "64 word \<Rightarrow> nat" where
  "count_trailing v = (case List.find (bit v) [0..<64] of Some i \<Rightarrow> i | None \<Rightarrow> 64)"

definition count_leading :: "64 word \<Rightarrow> nat" where
  "count_leading v = (case List.find (\<lambda>i. bit v (63 - i)) [0..<64] of Some i \<Rightarrow> i | None \<Rightarrow> 64)"

definition prim_bit_clz :: "tm \<Rightarrow> tm option" where
  "prim_bit_clz args = map_option (\<lambda>v. cell_integer (of_nat (count_leading v))) (int64_arg args)"

definition prim_bit_ctz :: "tm \<Rightarrow> tm option" where
  "prim_bit_ctz args = map_option (\<lambda>v. cell_integer (of_nat (count_trailing v))) (int64_arg args)"

text \<open>The rotations shift by 64 when the amount is a multiple of 64, which C leaves undefined.\<close>

definition prim_bit_rotl :: "tm \<Rightarrow> tm option" where
  "prim_bit_rotl args = do {
     (v, n) \<leftarrow> int64_args args;
     let n = unat (n AND 63);
     if n = 0 then None else Some (cell_integer (push_bit n v OR drop_bit (64 - n) v))
   }"

definition prim_bit_rotr :: "tm \<Rightarrow> tm option" where
  "prim_bit_rotr args = do {
     (v, n) \<leftarrow> int64_args args;
     let n = unat (n AND 63);
     if n = 0 then None else Some (cell_integer (drop_bit n v OR push_bit (64 - n) v))
   }"

subsection \<open>Conversions, rounding, bounds\<close>

definition prim_to_integer :: "tm \<Rightarrow> tm option" where
  "prim_to_integer args = do {
     a \<leftarrow> arg1 args;
     if cell_is_integer a then Some a
     else if \<not> cell_is_numeric a then Some (cell_error ''->integer requires number'' (Some a))
     else map_option cell_integer (cell_to_int64 a)
   }"

definition prim_to_double :: "tm \<Rightarrow> tm option" where
  "prim_to_double args = do {
     a \<leftarrow> arg1 args;
     if cell_is_number a then Some a
     else if \<not> cell_is_numeric a then Some (cell_error ''->double requires number'' (Some a))
     else Some (cell_number (cell_to_double a))
   }"

definition prim_is_integer :: "tm \<Rightarrow> tm option" where
  "prim_is_integer args = map_option (\<lambda>a. cell_bool (cell_is_integer a)) (arg1 args)"

definition number_fun :: "string \<Rightarrow> (double \<Rightarrow> double) \<Rightarrow> tm \<Rightarrow> tm option" where
  "number_fun msg f args = do {
     a \<leftarrow> arg1 args;
     case cell_get_number a of
       None \<Rightarrow> Some (cell_error msg (Some a))
     | Some d \<Rightarrow> Some (cell_number (f d))
   }"

definition prim_abs :: "tm \<Rightarrow> tm option" where
  "prim_abs = number_fun ''|n| requires number'' double_abs"

text \<open>The brackets of the next messages are UTF-8 characters, written here by their bytes.\<close>

definition lfloor_utf8 :: string where "lfloor_utf8 = map char_of [226 :: nat, 140, 138]"
definition rfloor_utf8 :: string where "rfloor_utf8 = map char_of [226 :: nat, 140, 139]"
definition lceil_utf8 :: string where "lceil_utf8 = map char_of [226 :: nat, 140, 136]"
definition rceil_utf8 :: string where "rceil_utf8 = map char_of [226 :: nat, 140, 137]"

definition prim_floor :: "tm \<Rightarrow> tm option" where
  "prim_floor = number_fun (lfloor_utf8 @ ''n'' @ rfloor_utf8 @ '' requires number'') double_floor"

definition prim_ceil :: "tm \<Rightarrow> tm option" where
  "prim_ceil = number_fun (lceil_utf8 @ ''n'' @ rceil_utf8 @ '' requires number'') double_ceil"

definition prim_round :: "tm \<Rightarrow> tm option" where
  "prim_round = number_fun (lfloor_utf8 @ ''n'' @ rceil_utf8 @ '' requires number'') double_round_half"

definition number_choose :: "string \<Rightarrow> (double \<Rightarrow> double \<Rightarrow> bool) \<Rightarrow> tm \<Rightarrow> tm option" where
  "number_choose msg first args = do {
     a \<leftarrow> arg1 args;
     b \<leftarrow> arg2 args;
     case (cell_get_number a, cell_get_number b) of
       (Some av, Some bv) \<Rightarrow> Some (cell_number (if first av bv then av else bv))
     | _ \<Rightarrow> Some (cell_error msg (Some a))
   }"

definition prim_min :: "tm \<Rightarrow> tm option" where
  "prim_min = number_choose ''min requires numbers'' double_lt"

definition prim_max :: "tm \<Rightarrow> tm option" where
  "prim_max = number_choose ''max requires numbers'' (\<lambda>a b. double_lt b a)"

subsection \<open>Generators and shrinkers of the property tests\<close>

text \<open>
  \<open>rnd\<close> is the value of \<open>rand()\<close>, a non-negative \<open>int\<close>. The range of \<open>prim_gen_int\<close> is an
  \<open>int\<close>, so a range of 2^31 or more numbers is undefined.
\<close>

definition prim_gen_int :: "nat \<Rightarrow> tm \<Rightarrow> tm option" where
  "prim_gen_int rnd args = do {
     low \<leftarrow> arg1 args;
     high \<leftarrow> arg2 args;
     case (cell_get_number low, cell_get_number high) of
       (Some l, Some h) \<Rightarrow> do {
         low_val \<leftarrow> double_to_int32 l;
         high_val \<leftarrow> double_to_int32 h;
         if high_val < low_val then Some (cell_error ''gen-int-invalid-range'' (Some cell_nil))
         else let range = high_val - low_val + 1 in
           if 2 ^ 31 \<le> range then None
           else Some (cell_number (double_of_int (low_val + int rnd mod range)))
       }
     | _ \<Rightarrow> Some (cell_error ''gen-int-invalid-args'' (Some cell_nil))
   }"

definition prim_gen_bool :: "nat \<Rightarrow> tm \<Rightarrow> tm option" where
  "prim_gen_bool rnd args = Some (cell_bool (rnd mod 2 = 0))"

definition prim_gen_symbol :: "nat \<Rightarrow> tm \<Rightarrow> tm option" where
  "prim_gen_symbol rnd args = do {
     symbols \<leftarrow> arg1 args;
     if cell_is_nil symbols then Some (cell_error ''gen-symbol-empty-list'' (Some cell_nil))
     else if \<not> cell_is_pair symbols then Some (cell_error ''gen-symbol-not-list'' (Some symbols))
     else let xs = list_elems symbols in Some (xs ! (rnd mod length xs))
   }"

definition builtin_shrink_int :: "tm \<Rightarrow> tm option" where
  "builtin_shrink_int args = do {
     x \<leftarrow> arg1 args;
     if \<not> cell_is_numeric x then Some cell_nil
     else let val = cell_to_double x in
       if double_eq val 0 then Some cell_nil
       else let pos = double_lt 0 val;
                one = double_of_int 1;
                half = (if pos then double_floor (double_div val (double_of_int 2))
                        else double_ceil (double_div val (double_of_int 2)));
                toward = (if pos then double_sub val one else double_add val one);
                result = cell_cons (cell_number 0) cell_nil;
                result = (if \<not> double_eq half 0 then cell_cons (cell_number half) result else result)
            in Some (if \<not> double_eq toward 0 \<and> \<not> double_eq toward half
                     then cell_cons (cell_number toward) result else result)
   }"

text \<open>\<open>list_length\<close> of \<open>bootstrap/eval.c\<close> counts the pairs.\<close>

definition builtin_shrink_list :: "tm \<Rightarrow> tm option" where
  "builtin_shrink_list args = do {
     xs \<leftarrow> arg1 args;
     if \<not> cell_is_pair xs then Some cell_nil
     else do {
       tail \<leftarrow> cell_cdr xs;
       let result = cell_cons tail cell_nil;
       let es = list_elems xs;
       let len = length es;
       let result = (if 2 < len then cell_cons (tm_list (rev (take (len div 2) es))) result else result);
       Some (cell_cons cell_nil result)
     }
   }"

subsection \<open>Type predicates\<close>

definition prim_is_number :: "tm \<Rightarrow> tm option" where
  "prim_is_number args = map_option (\<lambda>a. cell_bool (cell_is_number a)) (arg1 args)"

definition prim_is_bool :: "tm \<Rightarrow> tm option" where
  "prim_is_bool args = map_option (\<lambda>a. cell_bool (cell_is_bool a)) (arg1 args)"

definition prim_is_symbol :: "tm \<Rightarrow> tm option" where
  "prim_is_symbol args = map_option (\<lambda>a. cell_bool (cell_is_symbol a)) (arg1 args)"

definition prim_is_nil :: "tm \<Rightarrow> tm option" where
  "prim_is_nil args = map_option (\<lambda>a. cell_bool (cell_is_nil a)) (arg1 args)"

definition prim_is_pair :: "tm \<Rightarrow> tm option" where
  "prim_is_pair args = map_option (\<lambda>a. cell_bool (cell_is_pair a)) (arg1 args)"

definition prim_is_atom :: "tm \<Rightarrow> tm option" where
  "prim_is_atom args = map_option (\<lambda>a. cell_bool (cell_is_atom a)) (arg1 args)"

end
