(* ===== verification/PrimStrings.thy ===== *)
theory PrimStrings
  imports StrSimd PrimArith
begin

section \<open>String primitives\<close>

text \<open>
  The string primitives of \<open>bootstrap/primitives.c\<close>, on C strings without their NUL, with the
  SSE2 search functions of StrSimd. Lengths are below 2^31, so that \<^verbatim>\<open>(int)strlen(s)\<close> is the
  length. The conversions between numbers and text (\<^verbatim>\<open>snprintf\<close>, \<^verbatim>\<open>strtod\<close>) are not modelled.
\<close>

definition find_str :: "string \<Rightarrow> string \<Rightarrow> nat option" where
  "find_str s n = str_simd_find_substr movemask_epi8 (string_bytes s) (string_bytes n)"

definition rfind_str :: "string \<Rightarrow> string \<Rightarrow> nat option" where
  "rfind_str s n = str_simd_rfind_substr movemask_epi8 (string_bytes s) (string_bytes n)"

definition is_space :: "char \<Rightarrow> bool" where
  "is_space c = str_is_whitespace (of_char c)"

text \<open>The argument checks of the primitives that take one, two or three strings.\<close>

definition with_str :: "string \<Rightarrow> (tm \<Rightarrow> string \<Rightarrow> tm option) \<Rightarrow> tm \<Rightarrow> tm option" where
  "with_str msg f args = do {
     str \<leftarrow> arg1 args;
     case cell_get_string str of
       Some s \<Rightarrow> f str s
     | None \<Rightarrow> Some (cell_error msg (Some str))
   }"

definition with_str2 :: "string \<Rightarrow> (tm \<Rightarrow> string \<Rightarrow> string \<Rightarrow> tm option) \<Rightarrow> tm \<Rightarrow> tm option" where
  "with_str2 msg f args = do {
     str \<leftarrow> arg1 args;
     other \<leftarrow> arg2 args;
     case (cell_get_string str, cell_get_string other) of
       (Some s, Some n) \<Rightarrow> f str s n
     | _ \<Rightarrow> Some (cell_error msg (Some str))
   }"

subsection \<open>Basic operations\<close>

definition prim_str_concat :: "tm \<Rightarrow> tm option" where
  "prim_str_concat = with_str2 ''string-append requires two strings'' (\<lambda>_ s1 s2. Some (cell_string (s1 @ s2)))"

definition count_cell :: "nat \<Rightarrow> tm" where
  "count_cell n = cell_number (double_of_int (int n))"

definition prim_str_length :: "tm \<Rightarrow> tm option" where
  "prim_str_length args = do { str \<leftarrow> arg1 args; s \<leftarrow> cell_get_string str; Some (count_cell (length s)) }"

definition prim_str_ref :: "tm \<Rightarrow> tm option" where
  "prim_str_ref args = do {
     str \<leftarrow> arg1 args;
     idx \<leftarrow> arg2 args;
     s \<leftarrow> cell_get_string str;
     d \<leftarrow> cell_get_number idx;
     i \<leftarrow> double_to_int32 d;
     if i < 0 \<or> int (length s) \<le> i then Some (cell_error ''string-ref index out of bounds'' (Some idx))
     else Some (cell_symbol [s ! nat i])
   }"

definition slice_string :: "string \<Rightarrow> int \<Rightarrow> int \<Rightarrow> string" where
  "slice_string s start end =
     (let start = (if start < 0 then 0 else start);
          end = (if end > int (length s) then int (length s) else end);
          start = (if start > end then end else start)
      in take (nat (end - start)) (drop (nat start) s))"

definition prim_str_slice :: "tm \<Rightarrow> tm option" where
  "prim_str_slice args = do {
     str \<leftarrow> arg1 args;
     start_cell \<leftarrow> arg2 args;
     end_cell \<leftarrow> arg3 args;
     s \<leftarrow> cell_get_string str;
     sd \<leftarrow> cell_get_number start_cell;
     ed \<leftarrow> cell_get_number end_cell;
     start \<leftarrow> double_to_int32 sd;
     end \<leftarrow> double_to_int32 ed;
     Some (cell_string (slice_string s start end))
   }"

definition prim_is_string :: "tm \<Rightarrow> tm option" where
  "prim_is_string args = map_option (\<lambda>a. cell_bool (cell_is_string a)) (arg1 args)"

definition prim_str_empty :: "tm \<Rightarrow> tm option" where
  "prim_str_empty args = do {
     str \<leftarrow> arg1 args;
     Some (cell_bool (case cell_get_string str of Some s \<Rightarrow> s = [] | None \<Rightarrow> False))
   }"

definition prim_str_equal :: "tm \<Rightarrow> tm option" where
  "prim_str_equal args = do {
     str1 \<leftarrow> arg1 args;
     str2 \<leftarrow> arg2 args;
     Some (cell_bool (case (cell_get_string str1, cell_get_string str2) of (Some s, Some t) \<Rightarrow> s = t | _ \<Rightarrow> False))
   }"

text \<open>\<^verbatim>\<open>strcmp(s, t) < 0\<close>, comparing bytes as unsigned characters.\<close>

fun strcmp_less :: "string \<Rightarrow> string \<Rightarrow> bool" where
  "strcmp_less (a # s) (b # t) \<longleftrightarrow> (of_char a :: nat) < of_char b \<or> a = b \<and> strcmp_less s t"
| "strcmp_less [] (b # t) \<longleftrightarrow> True"
| "strcmp_less s [] \<longleftrightarrow> False"

definition prim_str_less :: "tm \<Rightarrow> tm option" where
  "prim_str_less args = do {
     str1 \<leftarrow> arg1 args;
     str2 \<leftarrow> arg2 args;
     s \<leftarrow> cell_get_string str1;
     t \<leftarrow> cell_get_string str2;
     Some (cell_bool (strcmp_less s t))
   }"

definition prim_str_char_code :: "tm \<Rightarrow> tm option" where
  "prim_str_char_code args = do {
     str \<leftarrow> arg1 args;
     idx \<leftarrow> arg2 args;
     case (cell_get_string str, cell_get_number idx) of
       (Some s, Some d) \<Rightarrow> do {
         i \<leftarrow> double_to_int32 d;
         if i < 0 \<or> int (length s) \<le> i then
           Some (cell_error ''string-char-code index out of bounds'' (Some idx))
         else Some (cell_number (double_of_int (of_char (s ! nat i))))
       }
     | _ \<Rightarrow> Some (cell_error ''string-char-code requires string and number'' (Some str))
   }"

text \<open>The character 0 ends the C string at once.\<close>

definition prim_code_to_char :: "tm \<Rightarrow> tm option" where
  "prim_code_to_char args = do {
     code \<leftarrow> arg1 args;
     case cell_get_number code of
       None \<Rightarrow> Some (cell_error ''code->char requires a number'' (Some code))
     | Some d \<Rightarrow> do {
         c \<leftarrow> double_to_int32 d;
         if c < 0 \<or> 127 < c then Some (cell_error ''code->char code must be 0-127'' (Some code))
         else Some (cell_string (if c = 0 then [] else [char_of c]))
       }
   }"

definition prim_str_to_symbol :: "tm \<Rightarrow> tm option" where
  "prim_str_to_symbol = with_str ''string->symbol requires a string'' (\<lambda>_ s. Some (cell_symbol s))"

definition upcase_char :: "char \<Rightarrow> char" where
  "upcase_char c = (let ch = of_char c :: nat in if 97 \<le> ch \<and> ch \<le> 122 then char_of (ch - 32) else c)"

definition downcase_char :: "char \<Rightarrow> char" where
  "downcase_char c = (let ch = of_char c :: nat in if 65 \<le> ch \<and> ch \<le> 90 then char_of (ch + 32) else c)"

definition prim_str_upcase :: "tm \<Rightarrow> tm option" where
  "prim_str_upcase = with_str ''string-upcase requires a string'' (\<lambda>_ s. Some (cell_string (map upcase_char s)))"

definition prim_str_downcase :: "tm \<Rightarrow> tm option" where
  "prim_str_downcase = with_str ''string-downcase requires a string'' (\<lambda>_ s. Some (cell_string (map downcase_char s)))"

subsection \<open>Searching\<close>

definition prim_str_find :: "tm \<Rightarrow> tm option" where
  "prim_str_find = with_str2 ''string-find requires two strings'' (\<lambda>_ s n.
     if n = [] then Some (cell_number 0)
     else case find_str s n of None \<Rightarrow> Some cell_nil | Some i \<Rightarrow> Some (count_cell i))"

definition prim_str_rfind :: "tm \<Rightarrow> tm option" where
  "prim_str_rfind = with_str2 ''string-rfind requires two strings'' (\<lambda>_ s n.
     if n = [] then Some (count_cell (length s))
     else case rfind_str s n of None \<Rightarrow> Some cell_nil | Some i \<Rightarrow> Some (count_cell i))"

definition prim_str_contains :: "tm \<Rightarrow> tm option" where
  "prim_str_contains = with_str2 ''string-contains? requires two strings'' (\<lambda>_ s n.
     if n = [] then Some (cell_bool True) else Some (cell_bool (find_str s n \<noteq> None)))"

definition prim_str_starts_with :: "tm \<Rightarrow> tm option" where
  "prim_str_starts_with = with_str2 ''string-starts-with? requires two strings'' (\<lambda>_ s p.
     if p = [] then Some (cell_bool True)
     else if length s < length p then Some (cell_bool False)
     else Some (cell_bool (take (length p) s = p)))"

definition prim_str_ends_with :: "tm \<Rightarrow> tm option" where
  "prim_str_ends_with = with_str2 ''string-ends-with? requires two strings'' (\<lambda>_ s x.
     if x = [] then Some (cell_bool True)
     else if length s < length x then Some (cell_bool False)
     else Some (cell_bool (take (length x) (drop (length s - length x) s) = x)))"

text \<open>
  The scan that counting, replacing and splitting share: as long as the pattern fits in the
  rest and the budget lasts, find it, keep the text before it and go on behind it. The result
  is the texts before the occurrences and the rest. The callers exclude the empty pattern.
\<close>

function pieces :: "string \<Rightarrow> nat option \<Rightarrow> string \<Rightarrow> string list \<times> string" where
  "pieces old budget s =
     (if old \<noteq> [] \<and> length old \<le> length s \<and> budget \<noteq> Some 0 then
        (case find_str s old of
           None \<Rightarrow> ([], s)
         | Some i \<Rightarrow>
             (let (ps, r) = pieces old (map_option (\<lambda>n. n - 1) budget) (drop (i + length old) s)
              in (take i s # ps, r)))
      else ([], s))"
  by pat_completeness auto
termination
  by (relation "measure (\<lambda>(_, _, s). length s)") (auto intro!: diff_less)

declare pieces.simps [simp del]

definition prim_str_count :: "tm \<Rightarrow> tm option" where
  "prim_str_count = with_str2 ''string-count requires two strings'' (\<lambda>_ s n.
     if n = [] then Some (cell_number 0) else Some (count_cell (length (fst (pieces n None s)))))"

subsection \<open>Building\<close>

definition prim_str_reverse :: "tm \<Rightarrow> tm option" where
  "prim_str_reverse = with_str ''string-reverse requires a string'' (\<lambda>_ s.
     Some (cell_string (map (\<lambda>i. s ! (length s - 1 - i)) [0..<length s])))"

definition prim_str_repeat :: "tm \<Rightarrow> tm option" where
  "prim_str_repeat args = do {
     str \<leftarrow> arg1 args;
     n_cell \<leftarrow> arg2 args;
     case (cell_get_string str, cell_get_number n_cell) of
       (Some s, Some d) \<Rightarrow> do {
         n \<leftarrow> double_to_int32 d;
         if n \<le> 0 then Some (cell_string []) else Some (cell_string (concat (replicate (nat n) s)))
       }
     | _ \<Rightarrow> Some (cell_error ''string-repeat requires string and number'' (Some str))
   }"

text \<open>
  The second pass of a replacement writes the kept texts, each followed by the new text, and the
  rest into a buffer whose size the first pass has computed from the number of occurrences.
\<close>

definition replaced :: "string \<Rightarrow> string \<Rightarrow> nat option \<Rightarrow> string \<Rightarrow> string" where
  "replaced old nw budget s = (let (ps, r) = pieces old budget s in concat (map (\<lambda>p. p @ nw) ps) @ r)"

definition replace_buffer_size :: "string \<Rightarrow> string \<Rightarrow> nat option \<Rightarrow> string \<Rightarrow> nat" where
  "replace_buffer_size old nw budget s =
     (let count = length (fst (pieces old budget s))
      in length s - count * length old + count * length nw)"

definition prim_str_replace :: "tm \<Rightarrow> tm option" where
  "prim_str_replace args = do {
     str \<leftarrow> arg1 args;
     old_s \<leftarrow> arg2 args;
     new_s \<leftarrow> arg3 args;
     case (cell_get_string str, cell_get_string old_s, cell_get_string new_s) of
       (Some s, Some old, Some nw) \<Rightarrow>
         if old = [] then Some str
         else if fst (pieces old None s) = [] then Some str
         else Some (cell_string (replaced old nw None s))
     | _ \<Rightarrow> Some (cell_error ''string-replace requires three strings'' (Some str))
   }"

definition prim_str_replacen :: "tm \<Rightarrow> tm option" where
  "prim_str_replacen args = do {
     str \<leftarrow> arg1 args;
     old_s \<leftarrow> arg2 args;
     new_s \<leftarrow> arg3 args;
     max_cell \<leftarrow> arg4 args;
     case (cell_get_string str, cell_get_string old_s, cell_get_string new_s, cell_get_number max_cell) of
       (Some s, Some old, Some nw, Some d) \<Rightarrow> do {
         max_n \<leftarrow> double_to_int32 d;
         if old = [] \<or> max_n \<le> 0 then Some str
         else if fst (pieces old (Some (nat max_n)) s) = [] then Some str
         else Some (cell_string (replaced old nw (Some (nat max_n)) s))
       }
     | _ \<Rightarrow> Some (cell_error ''string-replace-n requires three strings and a number'' (Some str))
   }"

subsection \<open>Trimming\<close>

definition find_non_space :: "string \<Rightarrow> nat option" where
  "find_non_space s = str_simd_find_non_whitespace movemask_epi8 (string_bytes s)"

definition prim_str_trim_left :: "tm \<Rightarrow> tm option" where
  "prim_str_trim_left = with_str ''string-trim-left requires a string'' (\<lambda>_ s.
     case find_non_space s of None \<Rightarrow> Some (cell_string []) | Some start \<Rightarrow> Some (cell_string (drop start s)))"

text \<open>\<^verbatim>\<open>while (end > lo && str_is_whitespace(s[end - 1])) end--;\<close>\<close>

fun trim_end :: "nat \<Rightarrow> string \<Rightarrow> nat \<Rightarrow> nat" where
  "trim_end lo s 0 = 0"
| "trim_end lo s (Suc e) = (if lo < Suc e \<and> is_space (s ! e) then trim_end lo s e else Suc e)"

definition prim_str_trim_right :: "tm \<Rightarrow> tm option" where
  "prim_str_trim_right = with_str ''string-trim-right requires a string'' (\<lambda>_ s.
     Some (cell_string (take (trim_end 0 s (length s)) s)))"

definition prim_str_trim :: "tm \<Rightarrow> tm option" where
  "prim_str_trim = with_str ''string-trim requires a string'' (\<lambda>_ s.
     case find_non_space s of
       None \<Rightarrow> Some (cell_string [])
     | Some start \<Rightarrow>
         (let end = trim_end start s (length s) in Some (cell_string (take (end - start) (drop start s)))))"

subsection \<open>Splitting\<close>

definition string_list :: "string list \<Rightarrow> tm" where
  "string_list ss = tm_list (map cell_string ss)"

definition prim_str_split :: "tm \<Rightarrow> tm option" where
  "prim_str_split = with_str2 ''string-split requires two strings'' (\<lambda>_ s d.
     if s = [] then Some cell_nil
     else if d = [] then Some (string_list (map (\<lambda>c. [c]) s))
     else (let (ps, r) = pieces d None s in Some (string_list (ps @ [r]))))"

definition prim_str_splitn :: "tm \<Rightarrow> tm option" where
  "prim_str_splitn args = do {
     str \<leftarrow> arg1 args;
     delim \<leftarrow> arg2 args;
     max_cell \<leftarrow> arg3 args;
     case (cell_get_string str, cell_get_string delim, cell_get_number max_cell) of
       (Some s, Some d, Some m) \<Rightarrow> do {
         max_n \<leftarrow> double_to_int32 m;
         if s = [] then Some cell_nil
         else if max_n \<le> 1 \<or> d = [] then Some (string_list [s])
         else (let (ps, r) = pieces d (Some (nat (max_n - 1))) s in Some (string_list (ps @ [r])))
       }
     | _ \<Rightarrow> Some (cell_error ''string-split-n requires two strings and a number'' (Some str))
   }"

lemma dropWhile_less: "xs \<noteq> [] \<Longrightarrow> P (hd xs) \<Longrightarrow> length (dropWhile P xs) < length xs"
  by (cases xs) (auto simp: le_imp_less_Suc length_dropWhile_le)

function fields_loop :: "string \<Rightarrow> string list" where
  "fields_loop s =
     (let s = dropWhile is_space s
      in if s = [] then []
         else takeWhile (\<lambda>c. \<not> is_space c) s # fields_loop (dropWhile (\<lambda>c. \<not> is_space c) s))"
  by pat_completeness auto

termination
proof (relation "measure length")
  fix s x assume x: "x = dropWhile is_space s" "x \<noteq> []"
  then have "length (dropWhile (\<lambda>c. \<not> is_space c) x) < length x"
    using hd_dropWhile [of is_space s] by (intro dropWhile_less) auto
  also have "\<dots> \<le> length s" unfolding x(1) by (rule length_dropWhile_le)
  finally show "(dropWhile (\<lambda>c. \<not> is_space c) x, s) \<in> measure length" by simp
qed simp

declare fields_loop.simps [simp del]

definition prim_str_fields :: "tm \<Rightarrow> tm option" where
  "prim_str_fields = with_str ''string-fields requires a string'' (\<lambda>_ s. Some (string_list (fields_loop s)))"

subsection \<open>Padding and stripping\<close>

definition pad_prim :: "string \<Rightarrow> (string \<Rightarrow> string \<Rightarrow> string) \<Rightarrow> tm \<Rightarrow> tm option" where
  "pad_prim msg place args = do {
     str \<leftarrow> arg1 args;
     width_cell \<leftarrow> arg2 args;
     fill \<leftarrow> arg3 args;
     case (cell_get_string str, cell_get_number width_cell, cell_get_string fill) of
       (Some s, Some d, Some f) \<Rightarrow> do {
         width \<leftarrow> double_to_int32 d;
         if width \<le> int (length s) \<or> f = [] then Some str
         else (let pad_len = nat width - length s
               in Some (cell_string (place s (map (\<lambda>i. f ! (i mod length f)) [0..<pad_len]))))
       }
     | _ \<Rightarrow> Some (cell_error msg (Some str))
   }"

definition prim_str_pad_left :: "tm \<Rightarrow> tm option" where
  "prim_str_pad_left = pad_prim ''string-pad-left requires string, number, string'' (\<lambda>s pad. pad @ s)"

definition prim_str_pad_right :: "tm \<Rightarrow> tm option" where
  "prim_str_pad_right = pad_prim ''string-pad-right requires string, number, string'' (\<lambda>s pad. s @ pad)"

definition prim_str_strip_prefix :: "tm \<Rightarrow> tm option" where
  "prim_str_strip_prefix = with_str2 ''string-strip-prefix requires two strings'' (\<lambda>str s p.
     if p = [] \<or> length s < length p \<or> take (length p) s \<noteq> p then Some str
     else Some (cell_string (drop (length p) s)))"

definition prim_str_strip_suffix :: "tm \<Rightarrow> tm option" where
  "prim_str_strip_suffix = with_str2 ''string-strip-suffix requires two strings'' (\<lambda>str s x.
     if x = [] \<or> length s < length x \<or> take (length x) (drop (length s - length x) s) \<noteq> x then Some str
     else Some (cell_string (take (length s - length x) s)))"

end
