(* ===== verification/StringFacts.thy ===== *)
theory StringFacts
  imports PrimStrings
begin

section \<open>Correctness of the string primitives\<close>

text \<open>
  Splitting and joining are inverse, replacement fills its buffer exactly, trimming removes the
  surrounding blanks and nothing else, padding reaches the width, fields are the maximal words.
\<close>

subsection \<open>Search\<close>

lemma length_string_bytes [simp]: "length (string_bytes s) = length s"
  by (simp add: string_bytes_def)

lemma of_char_u8_inj: "(of_char a :: u8) = of_char b \<longleftrightarrow> a = b"
proof -
  have "unat (of_char c :: u8) = of_char c" for c
  proof -
    have "(of_char c :: nat) < 256" using of_char_mod_256 [of c, where 'a = nat] by (metis mod_less_divisor zero_less_numeral)
    then show ?thesis by (subst of_nat_of_char [symmetric]) (simp add: unat_of_nat)
  qed
  then show ?thesis by (metis of_char_eq_iff)
qed

lemma string_bytes_eq: "string_bytes s = string_bytes t \<longleftrightarrow> s = t"
  unfolding string_bytes_def by (rule inj_map_eq_map) (simp add: inj_def of_char_u8_inj)

lemma occurs_bytes: "occurs_at (string_bytes s) (string_bytes n) i \<longleftrightarrow> occurs_at s n i"
  unfolding occurs_at_def string_bytes_eq [symmetric] by (simp add: string_bytes_def take_map drop_map)

lemma find_str_spec:
  "find_str s n = (if length s < length n then None else List.find (occurs_at s n) [0..<length s - length n + 1])"
  unfolding find_str_def find_substr_spec [OF lanes_sse2] occurs_bytes [abs_def] by simp

lemma find_str_Some:
  assumes "find_str s n = Some i"
  shows "i + length n \<le> length s" "s = take i s @ n @ drop (i + length n) s"
    "\<And>j. j < i \<Longrightarrow> \<not> occurs_at s n j"
proof -
  have i: "length n \<le> length s" "List.find (occurs_at s n) [0..<length s - length n + 1] = Some i"
    using assms by (auto simp: find_str_spec split: if_splits)
  then have "i < length s - length n + 1" and o: "occurs_at s n i"
    by (simp_all only: find_upt_eq_Some)
  then show le: "i + length n \<le> length s" using i(1) by linarith
  have "drop i s = take (length n) (drop i s) @ drop (length n) (drop i s)" by (rule append_take_drop_id [symmetric])
  also have "\<dots> = n @ drop (i + length n) s" using o by (simp add: occurs_at_def add.commute)
  finally show "s = take i s @ n @ drop (i + length n) s" by (metis append_take_drop_id)
  show "\<not> occurs_at s n j" if "j < i" for j
    using i(2) that unfolding find_upt_eq_Some by blast
qed

lemma find_str_None:
  assumes "find_str s n = None"
  shows "\<not> (j + length n \<le> length s \<and> occurs_at s n j)"
proof
  assume j: "j + length n \<le> length s \<and> occurs_at s n j"
  then have "List.find (occurs_at s n) [0..<length s - length n + 1] = None"
    using assms by (simp add: find_str_spec del: upt_Suc)
  then have "\<forall>k \<in> set [0..<length s - length n + 1]. \<not> occurs_at s n k" by (simp only: find_None_iff) blast
  moreover have "j \<in> set [0..<length s - length n + 1]" using j by (simp only: set_upt atLeastLessThan_iff) linarith
  ultimately show False using j by blast
qed

subsection \<open>The scan\<close>

lemma pieces_step:
  assumes "old \<noteq> []" "length old \<le> length s" "budget \<noteq> Some 0" "find_str s old = Some i"
  shows "pieces old budget s =
    (take i s # fst (pieces old (map_option (\<lambda>n. n - 1) budget) (drop (i + length old) s)),
     snd (pieces old (map_option (\<lambda>n. n - 1) budget) (drop (i + length old) s)))"
  using assms by (subst pieces.simps) (simp add: case_prod_beta)

lemma pieces_cases [case_names stop step]:
  assumes "pieces old budget s = ([], s) \<Longrightarrow>
      old = [] \<or> length s < length old \<or> budget = Some 0 \<or> find_str s old = None \<Longrightarrow> P"
    and "\<And>i. old \<noteq> [] \<Longrightarrow> length old \<le> length s \<Longrightarrow> budget \<noteq> Some 0 \<Longrightarrow> find_str s old = Some i \<Longrightarrow> P"
  shows P
proof (cases "old \<noteq> [] \<and> length old \<le> length s \<and> budget \<noteq> Some 0 \<and> find_str s old \<noteq> None")
  case True
  then show ?thesis using assms(2) by blast
next
  case False
  then show ?thesis by (intro assms(1), subst pieces.simps) (auto split: option.splits)
qed

lemma pieces_induct [case_names stop step]:
  assumes "\<And>budget s. pieces old budget s = ([], s) \<Longrightarrow>
      old = [] \<or> length s < length old \<or> budget = Some 0 \<or> find_str s old = None \<Longrightarrow> P budget s"
    and "\<And>budget s i. old \<noteq> [] \<Longrightarrow> length old \<le> length s \<Longrightarrow> budget \<noteq> Some 0 \<Longrightarrow> find_str s old = Some i \<Longrightarrow>
      P (map_option (\<lambda>n. n - 1) budget) (drop (i + length old) s) \<Longrightarrow> P budget s"
  shows "P budget s"
proof (induction "length s" arbitrary: budget s rule: less_induct)
  case less
  show ?case
  proof (cases rule: pieces_cases [of old budget s])
    case (step i)
    have "length (drop (i + length old) s) < length s" using step(1,2) by (auto intro!: diff_less)
    then show ?thesis using assms(2) [OF step] less by blast
  qed (rule assms(1))
qed

lemma pieces_join: "s = concat (map (\<lambda>p. p @ old) (fst (pieces old budget s))) @ snd (pieces old budget s)"
proof (induction budget s rule: pieces_induct [of old])
  case (step budget s i)
  let ?r = "drop (i + length old) s" and ?b = "map_option (\<lambda>n. n - 1) budget"
  have "s = take i s @ old @ ?r" using find_str_Some [OF step(4)] by blast
  also have "?r = concat (map (\<lambda>p. p @ old) (fst (pieces old ?b ?r))) @ snd (pieces old ?b ?r)" by (rule step(5))
  also have "take i s @ old @ \<dots> = concat (map (\<lambda>p. p @ old) (fst (pieces old budget s))) @ snd (pieces old budget s)"
    unfolding pieces_step [OF step(1-4)] by simp
  finally show ?case .
qed simp

lemma pieces_budget: "length (fst (pieces old (Some k) s)) \<le> k"
proof -
  have "budget = Some k \<Longrightarrow> length (fst (pieces old budget s)) \<le> k" for budget k
  proof (induction budget s arbitrary: k rule: pieces_induct [of old])
    case (step budget s i)
    then show ?case unfolding pieces_step [OF step(1-4)] by (cases k) auto
  qed simp
  then show ?thesis by simp
qed

lemma pieces_free: "p \<in> set (fst (pieces old budget s)) \<Longrightarrow> j < length p \<Longrightarrow> \<not> occurs_at (p @ old) old j"
proof (induction budget s rule: pieces_induct [of old])
  case (step budget s i)
  note f = find_str_Some [OF step(4)]
  show ?case
  proof (cases "p = take i s")
    case True
    then have p: "length p = i" using f(1) by simp
    have "occurs_at s old j" if o: "occurs_at (p @ old) old j"
    proof -
      have "take (length old) (drop j (p @ old)) = take (length old) (drop j (p @ old @ drop (i + length old) s))"
        using step.prems(2) by simp
      also have "p @ old @ drop (i + length old) s = s" using f(2) True by simp
      finally show ?thesis using o by (simp add: occurs_at_def)
    qed
    then show ?thesis using f(3) [of j] step.prems(2) p by blast
  next
    case False
    then show ?thesis using step.prems step.IH unfolding pieces_step [OF step(1-4)] by auto
  qed
qed simp

lemma pieces_rest: "old \<noteq> [] \<Longrightarrow> j + length old \<le> length (snd (pieces old None s)) \<Longrightarrow> \<not> occurs_at (snd (pieces old None s)) old j"
proof -
  have "budget = None \<Longrightarrow> old \<noteq> [] \<Longrightarrow> j + length old \<le> length (snd (pieces old budget s)) \<Longrightarrow>
      \<not> occurs_at (snd (pieces old budget s)) old j" for budget
  proof (induction budget s rule: pieces_induct [of old])
    case (stop budget s)
    then show ?case using find_str_None [of s old j] by auto
  next
    case (step budget s i)
    then show ?case unfolding pieces_step [OF step(1-4)] by simp
  qed
  then show "old \<noteq> [] \<Longrightarrow> j + length old \<le> length (snd (pieces old None s)) \<Longrightarrow> \<not> occurs_at (snd (pieces old None s)) old j"
    by blast
qed

subsection \<open>Arguments and blanks\<close>

lemma with_str_string: "with_str msg f (tm_list [cell_string s]) = f (cell_string s) s"
  by (simp add: with_str_def arg1_def cell_string_def cell_cons_def)

lemma with_str2_string:
  "with_str2 msg f (tm_list [cell_string s, cell_string n]) = f (cell_string s) s n"
  by (simp add: with_str2_def arg1_def arg2_def cell_string_def cell_cons_def)

lemma find_dropWhile:
  "List.find (\<lambda>i. \<not> P (s ! i)) [0..<length s] =
    (if dropWhile P s = [] then None else Some (length (takeWhile P s)))"
proof (cases "dropWhile P s = []")
  case True
  then have "\<forall>x \<in> set s. P x" by (simp add: dropWhile_eq_Nil_conv)
  then show ?thesis using True by (auto simp: find_None_iff)
next
  case False
  have eq: "s = takeWhile P s @ dropWhile P s" by simp
  have n: "length (takeWhile P s) < length s"
    using False by (subst (2) eq) (simp only: length_append length_greater_0_conv less_add_same_cancel1 not_False_eq_True)
  have "P (s ! j)" if "j < length (takeWhile P s)" for j
    using that by (metis nth_mem set_takeWhileD takeWhile_nth)
  then have "List.find (\<lambda>i. \<not> P (s ! i)) [0..<length s] = Some (length (takeWhile P s))"
    unfolding find_upt_eq_Some using n nth_length_takeWhile [OF n] by blast
  with False show ?thesis by simp
qed

lemma find_non_space_spec:
  "find_non_space s = (if dropWhile is_space s = [] then None else Some (length (takeWhile is_space s)))"
proof -
  have "find_non_space s = List.find (\<lambda>i. \<not> is_space (s ! i)) [0..<length s]"
    unfolding find_non_space_def find_non_whitespace_spec [OF lanes_sse2]
    by (simp, rule find_cong_set) (simp add: string_bytes_def is_space_def)
  then show ?thesis by (simp only: find_dropWhile)
qed

lemma drop_takeWhile: "drop (length (takeWhile P s)) s = dropWhile P s"
  by (metis append_eq_conv_conj takeWhile_dropWhile_id)

lemma trim_end_spec:
  assumes "lo \<le> e" "e \<le> length s"
  shows "lo \<le> trim_end lo s e \<and> trim_end lo s e \<le> e \<and>
    (\<forall>j. trim_end lo s e \<le> j \<and> j < e \<longrightarrow> is_space (s ! j)) \<and>
    (trim_end lo s e = lo \<or> \<not> is_space (s ! (trim_end lo s e - 1)))"
  using assms by (induction e) (auto simp: le_Suc_eq less_Suc_eq)

lemma all_space_drop:
  "e \<le> length s \<Longrightarrow> (\<And>j. e \<le> j \<Longrightarrow> j < length s \<Longrightarrow> is_space (s ! j)) \<Longrightarrow> list_all is_space (drop e s)"
  by (simp add: list_all_length)

text \<open>What trimming a text leaves: blanks before, the core, blanks after.\<close>

definition trimmed :: "string \<Rightarrow> string \<Rightarrow> bool" where
  "trimmed s t \<longleftrightarrow> (\<exists>l r. s = l @ t @ r \<and> list_all is_space l \<and> list_all is_space r) \<and>
     (t = [] \<or> \<not> is_space (hd t) \<and> \<not> is_space (last t))"

lemma trim_core:
  assumes "dropWhile is_space s \<noteq> []"
    and lo_def: "lo = length (takeWhile is_space s)"
  defines "t \<equiv> take (trim_end lo s (length s) - lo) (drop lo s)"
  shows "trimmed s t"
proof -
  let ?e = "trim_end lo s (length s)"
  have lo: "lo \<le> length s" unfolding lo_def by (rule length_takeWhile_le)
  note e = trim_end_spec [OF lo order_refl]
  have d: "drop lo s = dropWhile is_space s" unfolding lo_def by (rule drop_takeWhile)
  then have "lo < length s" using assms(1) by (cases "lo < length s") simp_all
  moreover have "\<not> is_space (hd (drop lo s))" unfolding d by (rule hd_dropWhile [OF assms(1)])
  ultimately have hd: "\<not> is_space (s ! lo)" "lo < length s" by (simp_all add: hd_drop_conv_nth)
  have "is_space (s ! j)" if "?e \<le> j" "j < length s" for j using e that by simp
  note after = this
  have "?e \<noteq> lo" using after [of lo] hd by auto
  then have lt: "lo < ?e" "?e \<le> length s" using e by linarith+
  have "take (?e - lo) (drop lo s) @ drop ?e s = drop lo s"
    using lt append_take_drop_id [of "?e - lo" "drop lo s"] by simp
  then have "s = take lo s @ t @ drop ?e s" unfolding t_def by simp
  moreover have "list_all is_space (take lo s)"
    unfolding lo_def list_all_iff by (metis set_takeWhileD takeWhile_eq_take)
  moreover have "list_all is_space (drop ?e s)" using after lt(2) by (intro all_space_drop) simp_all
  moreover have "\<not> is_space (hd t)" using hd lt by (simp add: t_def hd_drop_conv_nth)
  moreover have "\<not> is_space (last t)"
  proof -
    have "last t = s ! (?e - 1)" using lt by (simp add: t_def last_conv_nth)
    then show ?thesis using e \<open>?e \<noteq> lo\<close> by simp
  qed
  ultimately show ?thesis unfolding trimmed_def by blast
qed

lemma fields_loop_words:
  "list_all (\<lambda>w. w \<noteq> [] \<and> list_all (\<lambda>c. \<not> is_space c) w) (fields_loop s) \<and>
    concat (fields_loop s) = filter (\<lambda>c. \<not> is_space c) s"
proof (induction s rule: fields_loop.induct)
  case (1 s)
  let ?s = "dropWhile is_space s" and ?w = "takeWhile (\<lambda>c. \<not> is_space c) (dropWhile is_space s)"
    and ?r = "dropWhile (\<lambda>c. \<not> is_space c) (dropWhile is_space s)"
  have blank: "filter (\<lambda>c. \<not> is_space c) s = filter (\<lambda>c. \<not> is_space c) ?s"
    by (induction s) auto
  show ?case
  proof (cases "?s = []")
    case True
    then show ?thesis using blank by (subst (1 2) fields_loop.simps) simp
  next
    case False
    have "?w \<noteq> []" using hd_dropWhile [OF False] False by (cases ?s) auto
    moreover have word: "list_all (\<lambda>c. \<not> is_space c) ?w" by (auto simp: list_all_iff dest: set_takeWhileD)
    moreover have "filter (\<lambda>c. \<not> is_space c) ?s = ?w @ filter (\<lambda>c. \<not> is_space c) ?r"
    proof -
      have "filter (\<lambda>c. \<not> is_space c) (?w @ ?r) = ?w @ filter (\<lambda>c. \<not> is_space c) ?r"
        using word unfolding filter_append append_same_eq filter_id_conv list_all_iff .
      then show ?thesis by (simp only: takeWhile_dropWhile_id)
    qed
    moreover have "fields_loop s = ?w # fields_loop ?r"
      using False by (subst fields_loop.simps) (simp add: Let_def)
    ultimately show ?thesis using 1 [OF refl False] blank by simp
  qed
qed

lemma length_replaced:
  "length (replaced old nw budget s) = replace_buffer_size old nw budget s"
proof -
  let ?ps = "fst (pieces old budget s)" and ?r = "snd (pieces old budget s)"
  have len: "length (concat (map (\<lambda>p. p @ x) ps)) = sum_list (map length ps) + length ps * length x" for x :: string and ps
    by (induction ps) (simp_all add: algebra_simps)
  have "length s = length (concat (map (\<lambda>p. p @ old) ?ps) @ ?r)" by (subst pieces_join [of s old budget]) (rule refl)
  then have "length s = sum_list (map length ?ps) + length ?ps * length old + length ?r" by (simp only: length_append len)
  then show ?thesis unfolding replaced_def replace_buffer_size_def Let_def case_prod_beta length_append len by simp
qed

subsection \<open>Properties\<close>

text \<open>
  C13. Splitting a text at a delimiter loses nothing and finds every delimiter: the parts joined by
  the delimiter are the text, every part but the last contains the delimiter nowhere, not even
  overlapping its own end, and neither does the last.
\<close>

theorem split_join:
  assumes "s \<noteq> []" "d \<noteq> []"
  shows "\<exists>ps r. prim_str_split (tm_list [cell_string s, cell_string d]) = Some (string_list (ps @ [r])) \<and>
    concat (map (\<lambda>p. p @ d) ps) @ r = s \<and>
    (\<forall>p \<in> set ps. \<forall>j < length p. \<not> occurs_at (p @ d) d j) \<and>
    (\<forall>j \<le> length r - length d. length d \<le> length r \<longrightarrow> \<not> occurs_at r d j)"
proof -
  let ?ps = "fst (pieces d None s)" and ?r = "snd (pieces d None s)"
  have "prim_str_split (tm_list [cell_string s, cell_string d]) = Some (string_list (?ps @ [?r]))"
    using assms unfolding prim_str_split_def with_str2_string by (simp add: case_prod_beta)
  moreover have "concat (map (\<lambda>p. p @ d) ?ps) @ ?r = s" by (rule pieces_join [symmetric])
  moreover have "\<not> occurs_at (p @ d) d j" if "p \<in> set ?ps" "j < length p" for p j
    using that by (rule pieces_free)
  moreover have "\<not> occurs_at ?r d j" if "j \<le> length ?r - length d" "length d \<le> length ?r" for j
    using that by (intro pieces_rest [OF assms(2)]) linarith
  ultimately show ?thesis by blast
qed

theorem split_join_witness:
  "\<exists>ps r. prim_str_split (tm_list [cell_string ''a, b'', cell_string '', '']) = Some (string_list (ps @ [r])) \<and>
    concat (map (\<lambda>p. p @ '', '') ps) @ r = ''a, b''"
proof -
  have "''a, b'' \<noteq> ([] :: string)" "'', '' \<noteq> ([] :: string)" by simp_all
  from split_join [OF this] show ?thesis by blast
qed

text \<open>
  C14. The buffer a replacement allocates, computed from the length of the text and the number of
  occurrences, is exactly as long as what the second pass writes, with or without a limit; a limit
  is never exceeded, and replacing a text by itself gives back the string.
\<close>

theorem replace_fills_buffer:
  "length (replaced old nw budget s) = replace_buffer_size old nw budget s \<and>
    length (fst (pieces old (Some k) s)) \<le> k \<and>
    replaced old old budget s = s"
proof (intro conjI)
  show "replaced old old budget s = s"
    unfolding replaced_def using pieces_join [of s old budget] by (simp add: case_prod_beta)
qed (rule length_replaced pieces_budget)+

text \<open>
  Trimming removes blanks on both sides and nothing else: the result is a part of the text,
  what is cut off on either side is blank, and the result neither starts nor ends with a blank.
\<close>

theorem trim_strips_blanks:
  "\<exists>t. prim_str_trim (tm_list [cell_string s]) = Some (cell_string t) \<and> trimmed s t"
proof (cases "dropWhile is_space s = []")
  case True
  then have "list_all is_space s" by (simp add: dropWhile_eq_Nil_conv list_all_iff)
  then have "trimmed s []" unfolding trimmed_def by (intro conjI disjI1 exI [of _ s] exI [of _ "[]"]) simp_all
  with True show ?thesis unfolding prim_str_trim_def with_str_string by (intro exI [of _ "[]"]) (simp add: find_non_space_spec)
next
  case False
  from trim_core [OF False refl] False show ?thesis
    unfolding prim_str_trim_def with_str_string Let_def find_non_space_spec if_not_P [OF False]
    by (auto simp del: dropWhile_eq_Nil_conv)
qed

text \<open>
  The fields of a text are words: none is empty or contains a blank, and together, in order,
  they are the text without its blanks.
\<close>

theorem fields_are_words:
  "\<exists>ws. prim_str_fields (tm_list [cell_string s]) = Some (string_list ws) \<and>
    list_all (\<lambda>w. w \<noteq> [] \<and> list_all (\<lambda>c. \<not> is_space c) w) ws \<and>
    concat ws = filter (\<lambda>c. \<not> is_space c) s"
  unfolding prim_str_fields_def with_str_string using fields_loop_words [of s] by blast

end
