(* ===== verification/ArithFacts.thy ===== *)
theory ArithFacts
  imports PrimArith
begin

section \<open>Correctness of the arithmetic primitives\<close>

text \<open>
  Integer arithmetic is exact or reports the overflow, quotient and remainder belong together,
  doubles that hold small integers compute exactly, every primitive gives a number (or a
  boolean) or an error, rotations are inverse to each other, and shrinking makes lists shorter.
\<close>

subsection \<open>Integers\<close>

lemma sint_of_fits: "int64_fits r \<Longrightarrow> sint (of_int r :: 64 word) = r"
  by (simp add: int64_fits_def sint_word_ariths signed_of_int signed_take_bit_int_eq_self)

lemma fits_sint: "int64_fits (sint (k :: 64 word))"
  using sint_greater_eq [of k] sint_less [of k] by (simp add: int64_fits_def)

lemma int_or_double_int:
  "(int_or_double msg iop dop (tm_list [cell_integer i, cell_integer j]) = Some (cell_integer k) \<longleftrightarrow>
      sint k = iop (sint i) (sint j)) \<and>
    (int_or_double msg iop dop (tm_list [cell_integer i, cell_integer j]) =
      Some (cell_error ''integer-overflow'' (Some (tm_list [cell_integer i, cell_integer j]))) \<longleftrightarrow>
      \<not> int64_fits (iop (sint i) (sint j)))"
proof -
  have "of_int r = k \<longleftrightarrow> sint k = r" if "int64_fits r" for r
    using sint_of_fits [OF that] by (metis of_int_sint scast_id)
  then show ?thesis
    using fits_sint [of k]
    by (auto simp: int_or_double_def cell_integer_def cell_error_def Let_def)
qed

text \<open>
  C15. On integers, addition, subtraction and multiplication give an integer exactly when it is
  the true result, and the overflow error exactly when the true result does not fit 64 bits.
\<close>

theorem integer_arith_exact:
  defines "A \<equiv> \<lambda>i j. tm_list [cell_integer i, cell_integer j]"
  shows "(prim_add (A i j) = Some (cell_integer k) \<longleftrightarrow> sint k = sint i + sint j) \<and>
    (prim_sub (A i j) = Some (cell_integer k) \<longleftrightarrow> sint k = sint i - sint j) \<and>
    (prim_mul (A i j) = Some (cell_integer k) \<longleftrightarrow> sint k = sint i * sint j) \<and>
    (prim_add (A i j) = Some (cell_error ''integer-overflow'' (Some (A i j))) \<longleftrightarrow> \<not> int64_fits (sint i + sint j)) \<and>
    (prim_sub (A i j) = Some (cell_error ''integer-overflow'' (Some (A i j))) \<longleftrightarrow> \<not> int64_fits (sint i - sint j)) \<and>
    (prim_mul (A i j) = Some (cell_error ''integer-overflow'' (Some (A i j))) \<longleftrightarrow> \<not> int64_fits (sint i * sint j))"
  unfolding A_def prim_add_def prim_sub_def prim_mul_def using int_or_double_int by blast

lemma sdiv_smod_facts:
  fixes a b :: int
  assumes "b \<noteq> 0"
  shows "a = (a sdiv b) * b + a smod b" "\<bar>a smod b\<bar> < \<bar>b\<bar>" "a smod b = 0 \<or> sgn (a smod b) = sgn a"
    "\<bar>a sdiv b\<bar> \<le> \<bar>a\<bar>"
proof -
  show "a = (a sdiv b) * b + a smod b" by (rule sdiv_mult_smod_eq [symmetric])
  obtain m where m: "m = \<bar>a\<bar> mod \<bar>b\<bar>" by simp
  have "0 \<le> m" "m < \<bar>b\<bar>" using assms by (simp_all add: m)
  moreover have s: "a smod b = sgn a * m" by (simp add: smod_int_alt_def m)
  ultimately show "\<bar>a smod b\<bar> < \<bar>b\<bar>" using assms by (simp add: abs_mult sgn_if)
  show "a smod b = 0 \<or> sgn (a smod b) = sgn a"
    unfolding s using \<open>0 \<le> m\<close> by (cases "m = 0") (simp_all add: sgn_mult)
  show "\<bar>a sdiv b\<bar> \<le> \<bar>a\<bar>" using sdiv_int_range [of a b] by auto
qed

text \<open>
  For a non-zero divisor, and unless the smallest integer is divided by -1, quotient and
  remainder are integers with dividend = quotient * divisor + remainder, the remainder smaller
  than the divisor and of the sign of the dividend.
\<close>

theorem quotient_remainder:
  assumes "j \<noteq> 0" "\<not> (sint i = - (2 ^ 63) \<and> sint j = -1)"
  shows "\<exists>q r. prim_quot (tm_list [cell_integer i, cell_integer j]) = Some (cell_integer q) \<and>
    prim_mod (tm_list [cell_integer i, cell_integer j]) = Some (cell_integer r) \<and>
    sint i = sint q * sint j + sint r \<and> \<bar>sint r\<bar> < \<bar>sint j\<bar> \<and> (sint r = 0 \<or> sgn (sint r) = sgn (sint i))"
proof -
  have j: "sint j \<noteq> 0" using assms(1) by (metis of_int_0 of_int_sint scast_id)
  note f = sdiv_smod_facts [OF j, of "sint i"]
  have fit: "int64_fits (sint i sdiv sint j)" "int64_fits (sint i smod sint j)"
  proof -
    have i: "int64_fits (sint i)" and jf: "int64_fits (sint j)" by (rule fits_sint)+
    show "int64_fits (sint i smod sint j)"
      using f(2) jf by (auto simp: int64_fits_def)
    have "sint i sdiv sint j \<noteq> 2 ^ 63"
    proof
      assume e: "sint i sdiv sint j = 2 ^ 63"
      then have "\<bar>sint i\<bar> = 2 ^ 63" using f(4) i by (auto simp: int64_fits_def)
      then have si: "sint i = - (2 ^ 63)" using i by (auto simp: int64_fits_def)
      with e f(1,2) have "- (2 ^ 63) = 2 ^ 63 * sint j + sint i smod sint j" by simp
      then have "2 ^ 63 * (- 1 - sint j) = sint i smod sint j" by (simp add: algebra_simps)
      moreover obtain t x where tx: "t = - 1 - sint j" "x = sint i smod sint j" by simp
      moreover have "\<bar>sint i smod sint j\<bar> < 2 ^ 63" using f(2) jf by (auto simp: int64_fits_def)
      ultimately have "2 ^ 63 * t = x" "x < 2 ^ 63" "- (2 ^ 63) < x" by auto
      then have "t = 0" by simp
      then have "sint j = -1" using tx(1) by simp
      with si assms(2) show False by simp
    qed
    then show "int64_fits (sint i sdiv sint j)" using f(4) i by (auto simp: int64_fits_def)
  qed
  show ?thesis
  proof (intro exI conjI)
    show "prim_quot (tm_list [cell_integer i, cell_integer j]) = Some (cell_integer (of_int (sint i sdiv sint j)))"
      "prim_mod (tm_list [cell_integer i, cell_integer j]) = Some (cell_integer (of_int (sint i smod sint j)))"
      using assms by (auto simp: prim_quot_def prim_mod_def cell_integer_def)
  qed (use f in \<open>simp_all add: sint_of_fits [OF fit(1)] sint_of_fits [OF fit(2)]\<close>)
qed

theorem quotient_remainder_witness:
  "\<exists>q r. prim_quot (tm_list [cell_integer (-7), cell_integer 2]) = Some (cell_integer q) \<and>
    prim_mod (tm_list [cell_integer (-7), cell_integer 2]) = Some (cell_integer r) \<and>
    sint (-7 :: 64 word) = sint q * sint (2 :: 64 word) + sint r"
  using quotient_remainder [of 2 "-7"] by auto

text \<open>
  The one pair of integers left out: the quotient primitive reports the overflow, but the
  remainder primitive runs into an undefined C operation (a trap on common processors).
\<close>

theorem mod_min_undefined:
  "prim_mod (tm_list [cell_integer (of_int (- (2 ^ 63))), cell_integer (- 1)]) = None \<and>
    prim_quot (tm_list [cell_integer (of_int (- (2 ^ 63))), cell_integer (- 1)]) =
      Some (cell_error ''integer-overflow'' (Some (tm_list [cell_integer (of_int (- (2 ^ 63))), cell_integer (- 1)])))"
  by (simp add: prim_mod_def prim_quot_def cell_integer_def)

subsection \<open>Closure\<close>

definition number_or_error :: "tm \<Rightarrow> bool" where
  "number_or_error c \<longleftrightarrow> cell_is_numeric c \<or> cell_is_error c"

definition bool_or_error :: "tm \<Rightarrow> bool" where
  "bool_or_error c \<longleftrightarrow> cell_is_bool c \<or> cell_is_error c"

lemma case_integers:
  "(case a of CInteger _ i \<Rightarrow> (case b of CInteger _ j \<Rightarrow> f i j | _ \<Rightarrow> g) | _ \<Rightarrow> g) =
    (if cell_is_integer a \<and> cell_is_integer b then f (the (cell_get_integer a)) (the (cell_get_integer b)) else g)"
proof (cases "cell_is_integer a")
  case True
  then obtain p i where "a = CInteger p i" by (cases a) auto
  then show ?thesis by (cases b) auto
next
  case False
  then show ?thesis by (cases a) auto
qed

lemma int_or_double_closed: "\<exists>r. int_or_double msg iop dop (tm_list [a, b]) = Some r \<and> number_or_error r"
  by (simp add: int_or_double_def case_integers number_or_error_def cong: if_cong cell_integer_def cell_number_def cell_error_def Let_def)

lemma compare_closed: "\<exists>r. compare_with (\<lambda>a b. cell_error msg (d a b)) icmp dcmp (tm_list [a, b]) = Some r \<and> bool_or_error r"
  by (simp add: compare_with_def case_integers bool_or_error_def cell_bool_def cell_error_def)

text \<open>
  Whatever two cells they get, the arithmetic primitives return a number or an error and the
  comparisons a boolean or an error.
\<close>

theorem arith_prims_typed:
  "list_all (\<lambda>f. \<exists>r. f (tm_list [a, b]) = Some r \<and> number_or_error r) [prim_add, prim_sub, prim_mul, prim_div, prim_quot] \<and>
    list_all (\<lambda>f. \<exists>r. f (tm_list [a, b]) = Some r \<and> bool_or_error r) [prim_lt, prim_gt, prim_le, prim_ge]"
proof -
  have "\<exists>r. prim_div (tm_list [a, b]) = Some r \<and> number_or_error r"
    by (simp add: prim_div_def number_or_error_def cell_number_def cell_error_def Let_def)
  moreover have "\<exists>r. prim_quot (tm_list [a, b]) = Some r \<and> number_or_error r"
    by (simp add: prim_quot_def case_integers number_or_error_def cong: if_cong cell_integer_def cell_number_def cell_error_def Let_def)
  ultimately show ?thesis
    using int_or_double_closed compare_closed
    by (simp add: prim_add_def prim_sub_def prim_mul_def prim_lt_def prim_gt_def prim_le_def prim_ge_def)
qed

subsection \<open>Doubles that hold small integers\<close>

lemma double_fields_bit:
  "double_exp d = unat (take_bit 11 (drop_bit 52 d))" "double_frac d = unat (take_bit 52 d)"
  "double_neg d \<longleftrightarrow> bit d 63"
proof -
  show "double_exp d = unat (take_bit 11 (drop_bit 52 d))"
    unfolding double_exp_def unsigned_take_bit_eq unsigned_drop_bit_eq
    using unsigned_less [of d, where 'a = nat] by (simp add: take_bit_eq_mod drop_bit_eq_div)
  show "double_frac d = unat (take_bit 52 d)"
    unfolding double_frac_def unsigned_take_bit_eq by (simp add: take_bit_eq_mod)
  have "bit (unat d) 63 \<longleftrightarrow> bit d 63" by (simp add: bit_unsigned_iff)
  then have "bit d 63 \<longleftrightarrow> odd (unat d div 2 ^ 63)" unfolding bit_iff_odd [of "unat d" 63] by blast
  moreover obtain n where n: "n = unat d" by simp
  moreover have "n < 2 ^ 64" using unsigned_less [of d, where 'a = nat] by (simp add: n)
  then have "n div 2 ^ 63 < 2" by (simp add: div_less_iff_less_mult)
  then have "odd (n div 2 ^ 63) \<longleftrightarrow> n div 2 ^ 63 \<noteq> 0"
    by (metis One_nat_def even_zero less_2_cases odd_one)
  moreover have "n div 2 ^ 63 \<noteq> 0 \<longleftrightarrow> 2 ^ 63 \<le> n" by (simp add: div_eq_0_iff not_less)
  ultimately show "double_neg d \<longleftrightarrow> bit d 63" by (simp add: double_neg_def)
qed

lemma bit_sign_mask: "bit (0x8000000000000000 :: u64) n \<longleftrightarrow> n = 63"
proof -
  have "(0x8000000000000000 :: u64) = push_bit 63 1" by simp
  then show ?thesis by (auto simp only: bit_push_bit_iff) (auto simp: bit_1_iff)
qed

lemma double_minus_fields [simp]:
  "double_exp (double_minus d) = double_exp d" "double_frac (double_minus d) = double_frac d"
  "double_neg (double_minus d) \<longleftrightarrow> \<not> double_neg d"
proof -
  have "take_bit 11 (drop_bit 52 (double_minus d)) = take_bit 11 (drop_bit 52 d)"
    by (rule bit_eqI) (auto simp: double_minus_def bit_take_bit_iff bit_drop_bit_eq bit_xor_iff bit_sign_mask)
  then show "double_exp (double_minus d) = double_exp d" by (simp add: double_fields_bit)
  have "take_bit 52 (double_minus d) = take_bit 52 d"
    by (rule bit_eqI) (auto simp: double_minus_def bit_take_bit_iff bit_xor_iff bit_sign_mask)
  then show "double_frac (double_minus d) = double_frac d" by (simp add: double_fields_bit)
  show "double_neg (double_minus d) \<longleftrightarrow> \<not> double_neg d"
    by (simp add: double_fields_bit double_minus_def bit_xor_iff bit_sign_mask)
qed

lemma double_minus_val:
  "double_finite (double_minus d) \<longleftrightarrow> double_finite d" "double_mag (double_minus d) = double_mag d"
  "double_val (double_minus d) = - double_val d"
  by (simp_all add: double_finite_def double_mag_def double_val_def)

text \<open>A double that holds the integer \<open>i\<close>, \<open>0.0\<close> and \<open>-0.0\<close> both holding 0.\<close>

definition holds_int :: "double \<Rightarrow> int \<Rightarrow> bool" where
  "holds_int d i \<longleftrightarrow> double_finite d \<and> double_val d = i * 2 ^ 1074"

lemma holds_small_int: "\<bar>i\<bar> < 2 ^ 53 \<Longrightarrow> holds_int (double_of_int i) i"
  by (simp add: holds_int_def small_int_mag(1) small_int_val)

lemma zero_fields:
  "double_exp (double_pack b 0) = 0" "double_frac (double_pack b 0) = 0" "double_neg (double_pack b 0) \<longleftrightarrow> b"
  by (cases b; simp add: double_pack_def double_exp_def double_frac_def double_neg_def)+

lemma holds_zero: "holds_int (double_pack b 0) 0"
  by (simp add: holds_int_def double_finite_def double_val_def double_mag_def zero_fields)

lemma holds_pack: "\<bar>i\<bar> < 2 ^ 53 \<Longrightarrow> holds_int (double_pack (i < 0) (double_round (nat \<bar>i\<bar> * 2 ^ 1074) 1)) i"
  using holds_small_int pack_small_int by simp

lemma holds_mag: "holds_int d i \<Longrightarrow> double_mag d = nat \<bar>i\<bar> * 2 ^ 1074"
proof -
  assume "holds_int d i"
  then have "\<bar>double_val d\<bar> = \<bar>i\<bar> * 2 ^ 1074" by (simp add: holds_int_def abs_mult)
  moreover have "\<bar>double_val d\<bar> = int (double_mag d)" by (simp add: double_val_def)
  ultimately have "int (double_mag d) = int (nat \<bar>i\<bar> * 2 ^ 1074)" by simp
  then show ?thesis by (simp only: of_nat_eq_iff)
qed

lemma holds_sign: "holds_int d i \<Longrightarrow> i \<noteq> 0 \<Longrightarrow> double_neg d \<longleftrightarrow> i < 0"
proof -
  assume h: "holds_int d i" "i \<noteq> 0"
  obtain c :: int where c: "c = 2 ^ 1074" "0 < c" by simp
  have "if double_neg d then i * c \<le> 0 else 0 \<le> i * c"
    using h(1) by (auto simp: holds_int_def double_val_def c)
  with h(2) c(2) show ?thesis by (auto simp: mult_le_0_iff zero_le_mult_iff split: if_splits)
qed

lemma holds_special: "holds_int d i \<Longrightarrow> \<not> double_is_nan d \<and> \<not> double_is_inf d"
  using finite_not_special by (auto simp: holds_int_def)

lemma holds_add:
  assumes "holds_int a i" "holds_int b j" "\<bar>i + j\<bar> < 2 ^ 53"
  shows "holds_int (double_add a b) (i + j)"
proof -
  obtain c :: int where c: "c = 2 ^ 1074" "0 < c" by simp
  have cn: "nat c = 2 ^ 1074" unfolding c(1) by (simp only: nat_power_eq nat_numeral zero_le_numeral)
  have v: "double_val a + double_val b = (i + j) * c"
    using assms(1,2) by (simp add: holds_int_def c algebra_simps)
  show ?thesis
  proof (cases "i + j = 0")
    case True
    then have "double_val a + double_val b = 0" using v by simp
    then have "double_add a b = double_pack (double_neg a \<and> double_neg b) 0"
      using holds_special [OF assms(1)] holds_special [OF assms(2)] by (simp add: double_add_def Let_def)
    then show ?thesis using True holds_zero by simp
  next
    case False
    have s: "(i + j) * c \<noteq> 0" "(i + j) * c < 0 \<longleftrightarrow> i + j < 0" "nat \<bar>(i + j) * c\<bar> = nat \<bar>i + j\<bar> * 2 ^ 1074"
      using False c(2) cn by (auto simp: mult_less_0_iff abs_mult nat_mult_distrib)
    have "double_add a b = double_pack (i + j < 0) (double_round (nat \<bar>i + j\<bar> * 2 ^ 1074) 1)"
      using holds_special [OF assms(1)] holds_special [OF assms(2)] s(1)
      by (simp only: double_add_def Let_def v s(2,3) if_False simp_thms)
    then show ?thesis using holds_pack [OF assms(3)] by simp
  qed
qed

lemma holds_minus: "holds_int d i \<Longrightarrow> holds_int (double_minus d) (- i)"
  by (simp add: holds_int_def double_minus_val)

lemma holds_sub:
  assumes "holds_int a i" "holds_int b j" "\<bar>i - j\<bar> < 2 ^ 53"
  shows "holds_int (double_sub a b) (i - j)"
  using holds_add [OF assms(1) holds_minus [OF assms(2)]] assms(3) by (simp add: double_sub_def)

text \<open>Numerator and denominator may be scaled together.\<close>

lemma div_rne_scale: "0 < c \<Longrightarrow> div_rne (n * c) (d * c) = div_rne n d"
proof -
  assume c: "0 < c"
  have "n * c div (d * c) = n div d" "n * c mod (d * c) = (n mod d) * c"
    using c by (simp_all add: mult_mod_left)
  moreover have "d * c < 2 * (n mod d * c) \<longleftrightarrow> d < 2 * (n mod d)" "2 * (n mod d * c) = d * c \<longleftrightarrow> 2 * (n mod d) = d"
    using c by (metis mult.assoc mult_less_cancel2, metis mult.assoc mult_right_cancel not_gr_zero)
  ultimately show ?thesis by (simp add: div_rne_def Let_def)
qed

lemma double_round_scale:
  assumes "0 < d"
  shows "double_round (n * d) d = double_round n 1"
proof -
  have "div_rne (n * d) (d * 2 ^ k) = div_rne n (2 ^ k)" for k
    using div_rne_scale [OF assms, of n "2 ^ k"] by (simp add: mult.commute)
  with assms show ?thesis by (simp add: double_round_def)
qed

lemma sign_mult: "i \<noteq> 0 \<Longrightarrow> j \<noteq> 0 \<Longrightarrow> (i < 0) \<noteq> (j < 0) \<longleftrightarrow> i * j < (0 :: int)"
  by (auto simp: mult_less_0_iff)

lemma holds_mul:
  assumes "holds_int a i" "holds_int b j" "\<bar>i * j\<bar> < 2 ^ 53"
  shows "holds_int (double_mul a b) (i * j)"
proof -
  obtain c :: nat where c: "c = 2 ^ 1074" "0 < c" by simp
  have m: "double_mag a * double_mag b = (nat \<bar>i * j\<bar> * c) * c"
    using holds_mag [OF assms(1)] holds_mag [OF assms(2)] by (simp add: c abs_mult nat_mult_distrib)
  have r: "double_mul a b = double_pack (double_neg a \<noteq> double_neg b) (double_round (nat \<bar>i * j\<bar> * c) 1)"
    using holds_special [OF assms(1)] holds_special [OF assms(2)] double_round_scale [OF c(2)]
    by (simp only: double_mul_def Let_def m c(1) [symmetric] if_False simp_thms)
  show ?thesis
  proof (cases "i * j = 0")
    case True
    have "double_round 0 1 = 0" by (simp add: double_round_def div_rne_def)
    then show ?thesis unfolding r True using holds_zero by simp
  next
    case False
    then have "(double_neg a \<noteq> double_neg b) \<longleftrightarrow> i * j < 0"
      using holds_sign [OF assms(1)] holds_sign [OF assms(2)] sign_mult by auto
    with r holds_pack [OF assms(3)] show ?thesis by (simp add: c(1))
  qed
qed

lemma holds_div:
  assumes "holds_int a (i * j)" "holds_int b j" "j \<noteq> 0" "\<bar>i\<bar> < 2 ^ 53"
  shows "holds_int (double_div a b) i"
proof -
  obtain c :: nat where c: "c = 2 ^ 1074" "0 < c" by simp
  have m: "double_mag a * c = (nat \<bar>i\<bar> * c) * double_mag b" and nz: "0 < double_mag b"
    using holds_mag [OF assms(1)] holds_mag [OF assms(2)] assms(3) c(2)
    by (simp_all add: c(1) [symmetric] abs_mult nat_mult_distrib)
  have r: "double_div a b = double_pack (double_neg a \<noteq> double_neg b) (double_round (nat \<bar>i\<bar> * c) 1)"
    using holds_special [OF assms(1)] holds_special [OF assms(2)] double_round_scale [OF nz] nz
    by (simp only: double_div_def Let_def c(1) [symmetric] m if_False simp_thms not_gr_zero [symmetric])
  show ?thesis
  proof (cases "i = 0")
    case True
    have "double_round 0 1 = 0" by (simp add: double_round_def div_rne_def)
    with True r holds_zero show ?thesis by simp
  next
    case False
    then have "(double_neg a \<noteq> double_neg b) \<longleftrightarrow> i < 0"
      using holds_sign [OF assms(1)] holds_sign [OF assms(2)] assms(3) by (auto simp: mult_less_0_iff)
    with r holds_pack [OF assms(4)] show ?thesis by (simp add: c(1))
  qed
qed

lemma mag_zero:
  assumes "double_eq d 0"
  shows "double_mag d = 0"
proof -
  have "double_key d = 0"
    using assms by (simp add: double_eq_def double_key_def double_neg_def)
  then have "d = 0 \<or> d = 2 ^ 63" by (simp only: double_key_0_iff)
  then have "double_exp d = 0" "double_frac d = 0"
    by (auto simp: double_exp_def double_frac_def)
  then show ?thesis by (simp add: double_mag_def)
qed

text \<open>The number that a numeric cell stands for, when it is a small integer.\<close>

fun cell_holds :: "tm \<Rightarrow> int \<Rightarrow> bool" where
  "cell_holds (CInteger _ k) i \<longleftrightarrow> sint k = i \<and> \<bar>i\<bar> < 2 ^ 53"
| "cell_holds (CNumber _ d) i \<longleftrightarrow> holds_int d i"
| "cell_holds _ i \<longleftrightarrow> False"

lemma cell_holds_double: "cell_holds c i \<Longrightarrow> cell_is_numeric c \<and> holds_int (cell_to_double c) i"
  using holds_small_int by (cases c) auto

lemma int_or_double_holds:
  assumes "cell_holds a i" "cell_holds b j" "\<bar>iop i j\<bar> < 2 ^ 53"
    and "\<And>x y. holds_int x i \<Longrightarrow> holds_int y j \<Longrightarrow> holds_int (dop x y) (iop i j)"
  shows "\<exists>r. int_or_double msg iop dop (tm_list [a, b]) = Some r \<and> cell_holds r (iop i j)"
proof (cases "cell_is_integer a \<and> cell_is_integer b")
  case True
  then obtain p k q l where ab: "a = CInteger p k" "b = CInteger q l" by (cases a; cases b) auto
  have "int64_fits (iop i j)" using assms(3) by (auto simp: int64_fits_def)
  with assms(1-3) ab show ?thesis
    by (auto simp: int_or_double_def cell_integer_def sint_of_fits Let_def)
next
  case False
  then show ?thesis
    using cell_holds_double [OF assms(1)] cell_holds_double [OF assms(2)] assms(4)
    by (auto simp: int_or_double_def case_integers cell_number_def)
qed

text \<open>
  On cells of either numeric type that hold integers, sums, differences and products below
  2^53 and quotients that come out even are exact: the result holds the integer, whichever of
  the two representations the operands use.
\<close>

theorem small_integers_exact:
  assumes "cell_holds a i" "cell_holds b j" "\<bar>i + j\<bar> < 2 ^ 53" "\<bar>i - j\<bar> < 2 ^ 53" "\<bar>i * j\<bar> < 2 ^ 53"
    and "cell_holds c (i * j)" "j \<noteq> 0" "\<bar>i\<bar> < 2 ^ 53"
  shows "(\<exists>r. prim_add (tm_list [a, b]) = Some r \<and> cell_holds r (i + j)) \<and>
    (\<exists>r. prim_sub (tm_list [a, b]) = Some r \<and> cell_holds r (i - j)) \<and>
    (\<exists>r. prim_mul (tm_list [a, b]) = Some r \<and> cell_holds r (i * j)) \<and>
    (\<exists>r. prim_div (tm_list [c, b]) = Some r \<and> cell_holds r i)"
proof (intro conjI)
  show "\<exists>r. prim_add (tm_list [a, b]) = Some r \<and> cell_holds r (i + j)"
    unfolding prim_add_def by (rule int_or_double_holds [where iop = "(+)", OF assms(1,2,3)]) (rule holds_add [OF _ _ assms(3)])
  show "\<exists>r. prim_sub (tm_list [a, b]) = Some r \<and> cell_holds r (i - j)"
    unfolding prim_sub_def by (rule int_or_double_holds [where iop = "(-)", OF assms(1,2,4)]) (rule holds_sub [OF _ _ assms(4)])
  show "\<exists>r. prim_mul (tm_list [a, b]) = Some r \<and> cell_holds r (i * j)"
    unfolding prim_mul_def by (rule int_or_double_holds [where iop = "(*)", OF assms(1,2,5)]) (rule holds_mul [OF _ _ assms(5)])
  have b: "cell_is_numeric b" "holds_int (cell_to_double b) j" and c: "cell_is_numeric c" "holds_int (cell_to_double c) (i * j)"
    using cell_holds_double assms(2,6) by auto
  have "\<not> double_eq (cell_to_double b) 0"
  proof
    assume "double_eq (cell_to_double b) 0"
    then have "double_mag (cell_to_double b) = 0" by (rule mag_zero)
    with holds_mag [OF b(2)] assms(7) show False by simp
  qed
  with b(1) c(1) holds_div [OF c(2) b(2) assms(7,8)]
  show "\<exists>r. prim_div (tm_list [c, b]) = Some r \<and> cell_holds r i"
    by (simp add: prim_div_def cell_number_def Let_def)
qed

theorem small_integers_exact_witness:
  "\<exists>r. prim_mul (tm_list [cell_number (double_of_int 6), cell_integer 7]) = Some r \<and> cell_holds r (6 * 7)"
proof -
  have h: "cell_holds (cell_number (double_of_int 6)) 6" "cell_holds (cell_integer 7) 7"
    "cell_holds (cell_number (double_of_int (6 * 7))) (6 * 7)"
    unfolding cell_number_def cell_integer_def cell_holds.simps
    by (rule holds_small_int, simp) (simp, rule holds_small_int, simp)
  have b: "\<bar>6 + 7 :: int\<bar> < 2 ^ 53" "\<bar>6 - 7 :: int\<bar> < 2 ^ 53" "\<bar>6 * 7 :: int\<bar> < 2 ^ 53"
    "(7 :: int) \<noteq> 0" "\<bar>6 :: int\<bar> < 2 ^ 53" by simp_all
  show ?thesis
    by (rule small_integers_exact [OF h(1,2) b(1-3) h(3) b(4,5), THEN conjunct2, THEN conjunct2, THEN conjunct1])
qed

subsection \<open>Rotations and shrinking\<close>

lemma rot_index:
  fixes i n :: nat
  assumes "0 < n" "n < 64" "i < 64"
  shows "(i + 64 - n) mod 64 = (if n \<le> i then i - n else 64 + i - n)"
    "(i + n) mod 64 = (if i + n < 64 then i + n else i + n - 64)"
  using assms by (auto simp: mod_if)

lemma rot_word:
  assumes "0 < n" "n < 64"
  shows "push_bit n v OR drop_bit (64 - n) v = word_rotl n (v :: 64 word)"
    "drop_bit n v OR push_bit (64 - n) v = word_rotr n (v :: 64 word)"
proof -
  have high: "\<not> bit v i" if "64 \<le> i" for i using that bit_imp_le_length [of v i] by auto
  show "push_bit n v OR drop_bit (64 - n) v = word_rotl n v"
    using assms
    by (intro bit_eqI)
      (auto simp: bit_or_iff bit_push_bit_iff bit_drop_bit_eq bit_word_rotl_iff rot_index [OF assms] high)
  show "drop_bit n v OR push_bit (64 - n) v = word_rotr n v"
    using assms
    by (intro bit_eqI)
      (auto simp: bit_or_iff bit_push_bit_iff bit_drop_bit_eq bit_word_rotr_iff rot_index [OF assms] high add.commute)
qed

lemma rot_inverse:
  assumes "n < 64"
  shows "word_rotr n (word_rotl n v) = (v :: 64 word)"
proof (rule bit_word_eqI)
  fix i assume "i < LENGTH(64)"
  then show "bit (word_rotr n (word_rotl n v)) i = bit v i"
    using assms rot_index [of n i] rot_index [of n "(i + n) mod 64"]
    by (cases "n = 0") (auto simp: bit_word_rotl_iff bit_word_rotr_iff split: if_splits)
qed

text \<open>
  For an amount that is not a multiple of 64, rotating left and then right by it gives the
  integer back; for a multiple of 64 both primitives shift by the whole width, which is undefined.
\<close>

theorem rotate_roundtrip:
  defines "A \<equiv> \<lambda>v n. tm_list [cell_integer v, cell_integer n]"
  shows "if n AND 63 = 0 then prim_bit_rotl (A v n) = None \<and> prim_bit_rotr (A v n) = None
    else \<exists>w. prim_bit_rotl (A v n) = Some (cell_integer w) \<and> prim_bit_rotr (A w n) = Some (cell_integer v)"
proof (cases "n AND 63 = 0")
  case False
  define k where "k = unat (n AND 63)"
  have "k \<noteq> 0" using False by (metis k_def unat_eq_zero)
  moreover have "k < 64"
  proof -
    have "n AND 63 = take_bit 6 n" by (simp add: take_bit_eq_mask mask_numeral)
    then have "k = take_bit 6 (unat n)" unfolding k_def by (simp only: unsigned_take_bit_eq)
    then show ?thesis using take_bit_nat_less_exp [of 6 "unat n"] by simp
  qed
  ultimately show ?thesis
    using False rot_word [of k] rot_inverse [of k v]
    by (simp add: A_def prim_bit_rotl_def prim_bit_rotr_def int64_args_def cell_integer_def Let_def flip: k_def)
qed (simp add: A_def prim_bit_rotl_def prim_bit_rotr_def int64_args_def cell_integer_def)

text \<open>
  Every candidate that the list shrinker proposes for a non-empty list is a strictly
  shorter list, so repeated shrinking ends.
\<close>

theorem shrink_list_shorter:
  assumes "builtin_shrink_list (tm_list [tm_list (x # xs)]) = Some r" "c \<in> set (list_elems r)"
  shows "\<exists>ys. c = tm_list ys \<and> length ys < length (x # xs) \<and> set ys \<subseteq> set (x # xs)"
proof -
  have "list_elems (CPair () x (tm_list xs)) = x # xs" using list_elems_tm_list [of xs] by simp
  then have r: "r = cell_cons cell_nil (if 2 < Suc (length xs)
      then cell_cons (tm_list (rev (take (Suc (length xs) div 2) (x # xs)))) (cell_cons (tm_list xs) cell_nil)
      else cell_cons (tm_list xs) cell_nil)"
    using assms(1) by (simp add: builtin_shrink_list_def arg1_def cell_cons_def Let_def split: if_splits)
  then have "c = tm_list [] \<or> c = tm_list xs \<or> 2 < Suc (length xs) \<and> c = tm_list (rev (take (Suc (length xs) div 2) (x # xs)))"
    using assms(2) by (auto simp: cell_cons_def cell_nil_def split: if_splits)
  then show ?thesis
  proof (elim disjE conjE)
    assume c: "c = tm_list (rev (take (Suc (length xs) div 2) (x # xs)))" and l: "2 < Suc (length xs)"
    let ?ys = "rev (take (Suc (length xs) div 2) (x # xs))"
    have "length ?ys < length (x # xs)" using l by auto
    moreover have "set ?ys \<subseteq> set (x # xs)" using set_take_subset [of _ "x # xs"] by (simp only: set_rev)
    ultimately show ?thesis using c by blast
  next
    assume "c = tm_list []"
    then show ?thesis by (intro exI [of _ "[]"]) simp
  qed auto
qed

theorem shrink_list_shorter_witness:
  "\<exists>ys. tm_list [cell_bool True] = tm_list ys \<and> length ys < 2"
proof -
  have "builtin_shrink_list (tm_list [tm_list [cell_nil, cell_bool True]]) = Some (tm_list [cell_nil, tm_list [cell_bool True]])"
    by (simp add: builtin_shrink_list_def arg1_def cell_cons_def cell_nil_def)
  from shrink_list_shorter [OF this, of "tm_list [cell_bool True]"]
  show ?thesis by (fastforce simp: cell_cons_def cell_nil_def)
qed

end
