(* ===== verification/Heap4.thy ===== *)
theory Heap4
  imports Contracts Doubles "HOL-Library.Monad_Syntax"
begin

section \<open>The priority queue\<close>

text \<open>
  The 4-ary heap of \<open>bootstrap/cell.c\<close>: two parallel arrays of length \<open>capacity\<close>, of which the
  first \<open>size\<close> entries are in use. Memory that is allocated but not yet written is held as 0 and
  NULL (\<open>None\<close>); it is never read. Sizes and positions are natural numbers, with the 32-bit
  wrap-around where the code computes with them. Sifting down is a partial function: past 2^30
  entries the index of the first child wraps and the loop need not end.
\<close>

subsection \<open>Definitions\<close>

record 'a heap4 =
  keys :: "double list"
  vals :: "'a option list"
  size :: nat
  capacity :: nat

definition HEAP4_MIN_CAP :: nat where "HEAP4_MIN_CAP = 16"

definition heap4_parent :: "nat \<Rightarrow> nat" where
  "heap4_parent i = drop_bit 2 (sub32 i 1)"

lemma heap4_parent_less: "0 < i \<Longrightarrow> heap4_parent i < i"
proof -
  assume i: "0 < i"
  have "(i + m - 1) mod m \<le> i - 1" for m
  proof -
    have "i + m - 1 = (i - 1) + m" using i by simp
    then show ?thesis by (simp add: mod_less_eq_dividend)
  qed
  then have "sub32 i 1 \<le> i - 1" unfolding sub32_def .
  then have "sub32 i 1 div 4 \<le> (i - 1) div 4" by (rule div_le_mono)
  also have "\<dots> < i" using i by (simp add: div_less_dividend less_mult_imp_div_less)
  finally show ?thesis by (simp add: heap4_parent_def drop_bit_eq_div)
qed

definition heap4_first_child :: "nat \<Rightarrow> nat" where
  "heap4_first_child i = (push_bit 2 i + 1) mod 2 ^ 32"

definition heap4_min_child :: "double list \<Rightarrow> nat \<Rightarrow> nat \<Rightarrow> nat" where
  "heap4_min_child k first n =
     (let best = first;
          best = (if 1 < n \<and> double_lt (k ! (first + 1)) (k ! best) then first + 1 else best);
          best = (if 2 < n \<and> double_lt (k ! (first + 2)) (k ! best) then first + 2 else best);
          best = (if 3 < n \<and> double_lt (k ! (first + 3)) (k ! best) then first + 3 else best)
      in best)"

definition heap4_grow :: "'a heap4 \<Rightarrow> 'a heap4" where
  "heap4_grow h =
     (let new_cap = mul32 (capacity h) 2;
          new_keys = memcpy (replicate new_cap 0) 0 (keys h) 0 (size h);
          new_vals = memcpy (replicate new_cap None) 0 (vals h) 0 (size h)
      in h\<lparr>keys := new_keys, vals := new_vals, capacity := new_cap\<rparr>)"

text \<open>The loops shift entries over the hole at \<open>pos\<close> and put the held entry there at the end.\<close>

function sift_up_loop :: "double \<Rightarrow> 'a option \<Rightarrow> double list \<Rightarrow> 'a option list \<Rightarrow> nat \<Rightarrow>
    double list \<times> 'a option list" where
  "sift_up_loop key val ks vs pos =
     (let p = heap4_parent pos
      in if pos = 0 \<or> double_le (ks ! p) key then (ks[pos := key], vs[pos := val])
         else sift_up_loop key val (ks[pos := ks ! p]) (vs[pos := vs ! p]) p)"
  by pat_completeness auto
termination
  by (relation "measure (\<lambda>(_, _, _, _, pos). pos)") (auto intro: heap4_parent_less)

declare sift_up_loop.simps [simp del]

definition heap4_sift_up :: "double list \<Rightarrow> 'a option list \<Rightarrow> nat \<Rightarrow> double list \<times> 'a option list" where
  "heap4_sift_up ks vs pos = sift_up_loop (ks ! pos) (vs ! pos) ks vs pos"

partial_function (option) sift_down_loop :: "double \<Rightarrow> 'a option \<Rightarrow> nat \<Rightarrow> double list \<Rightarrow> 'a option list \<Rightarrow>
    nat \<Rightarrow> (double list \<times> 'a option list) option" where
  "sift_down_loop key val n ks vs pos =
     (let fc = heap4_first_child pos
      in if n \<le> fc then Some (ks[pos := key], vs[pos := val])
         else (let mc = heap4_min_child ks fc (min 4 (n - fc))
               in if double_le key (ks ! mc) then Some (ks[pos := key], vs[pos := val])
                  else sift_down_loop key val n (ks[pos := ks ! mc]) (vs[pos := vs ! mc]) mc))"

definition heap4_sift_down :: "double list \<Rightarrow> 'a option list \<Rightarrow> nat \<Rightarrow> nat \<Rightarrow>
    (double list \<times> 'a option list) option" where
  "heap4_sift_down ks vs n pos = sift_down_loop (ks ! pos) (vs ! pos) n ks vs pos"

definition cell_heap_new :: "'a heap4" where
  "cell_heap_new = \<lparr>keys = replicate HEAP4_MIN_CAP 0, vals = replicate HEAP4_MIN_CAP None,
     size = 0, capacity = HEAP4_MIN_CAP\<rparr>"

definition cell_heap_push :: "'a heap4 \<Rightarrow> double \<Rightarrow> 'a option \<Rightarrow> 'a heap4" where
  "cell_heap_push h priority val =
     (let h = (if size h = capacity h then heap4_grow h else h);
          pos = size h;
          ks = (keys h)[pos := priority];
          vs = (vals h)[pos := val];
          (ks, vs) = heap4_sift_up ks vs pos
      in h\<lparr>keys := ks, vals := vs, size := (size h + 1) mod 2 ^ 32\<rparr>)"

text \<open>The pair of priority and value that pop and peek return is a pair here.\<close>

definition cell_heap_pop :: "'a heap4 \<Rightarrow> ((double \<times> 'a option) option \<times> 'a heap4) option" where
  "cell_heap_pop h =
     (if size h = 0 then Some (None, h)
      else (let key = keys h ! 0; val = vals h ! 0; n = size h - 1
            in if 0 < n then do {
                 (ks, vs) \<leftarrow> heap4_sift_down ((keys h)[0 := keys h ! n]) ((vals h)[0 := vals h ! n]) n 0;
                 Some (Some (key, val), h\<lparr>keys := ks, vals := vs, size := n\<rparr>)
               }
               else Some (Some (key, val), h\<lparr>size := n\<rparr>)))"

definition cell_heap_peek :: "'a heap4 \<Rightarrow> (double \<times> 'a option) option" where
  "cell_heap_peek h = (if size h = 0 then None else Some (keys h ! 0, vals h ! 0))"

definition cell_heap_size :: "'a heap4 \<Rightarrow> nat" where
  "cell_heap_size h = size h"

text \<open>The copy is popped until it is empty; the entries are consed and the list is reversed.\<close>

primrec heap_list_loop :: "nat \<Rightarrow> double list \<Rightarrow> 'a option list \<Rightarrow> (double \<times> 'a option) list \<Rightarrow>
    (double \<times> 'a option) list option" where
  "heap_list_loop 0 ks vs result = Some result"
| "heap_list_loop (Suc remaining) ks vs result =
     (let key = ks ! 0; val = vs ! 0
      in if 0 < remaining then do {
           (ks, vs) \<leftarrow> heap4_sift_down (ks[0 := ks ! remaining]) (vs[0 := vs ! remaining]) remaining 0;
           heap_list_loop remaining ks vs ((key, val) # result)
         }
         else heap_list_loop remaining ks vs ((key, val) # result))"

definition cell_heap_to_list :: "'a heap4 \<Rightarrow> (double \<times> 'a option) list option" where
  "cell_heap_to_list h =
     map_option rev (heap_list_loop (size h) (take (size h) (keys h)) (take (size h) (vals h)) [])"

definition cell_heap_merge :: "'a heap4 \<Rightarrow> 'a heap4 \<Rightarrow> 'a heap4" where
  "cell_heap_merge h1 h2 =
     (let result = foldl (\<lambda>r i. cell_heap_push r (keys h1 ! i) (vals h1 ! i)) cell_heap_new [0..<size h1]
      in foldl (\<lambda>r i. cell_heap_push r (keys h2 ! i) (vals h2 ! i)) result [0..<size h2])"

subsection \<open>The order of the heap\<close>

text \<open>
  The order is on the ranks of the keys, on which the comparisons of doubles are those of integers.
  \<open>up_order\<close> holds while an entry moves up through a hole at \<open>pos\<close>, \<open>down_order\<close> while it moves down.
\<close>

definition parent :: "nat \<Rightarrow> nat" where "parent i = (i - 1) div 4"

definition heap_order :: "(nat \<Rightarrow> int) \<Rightarrow> nat \<Rightarrow> bool" where
  "heap_order f n \<longleftrightarrow> (\<forall>i. 0 < i \<and> i < n \<longrightarrow> f (parent i) \<le> f i)"

definition up_order :: "(nat \<Rightarrow> int) \<Rightarrow> nat \<Rightarrow> nat \<Rightarrow> bool" where
  "up_order f n pos \<longleftrightarrow> (\<forall>i. 0 < i \<and> i < n \<and> i \<noteq> pos \<longrightarrow> f (parent i) \<le> f i) \<and>
     (\<forall>i. 0 < i \<and> i < n \<and> parent i = pos \<and> 0 < pos \<longrightarrow> f (parent pos) \<le> f i)"

definition down_order :: "(nat \<Rightarrow> int) \<Rightarrow> nat \<Rightarrow> nat \<Rightarrow> bool" where
  "down_order f n pos \<longleftrightarrow> (\<forall>i. 0 < i \<and> i < n \<and> parent i \<noteq> pos \<longrightarrow> f (parent i) \<le> f i) \<and>
     (\<forall>i. 0 < i \<and> i < n \<and> parent i = pos \<and> 0 < pos \<longrightarrow> f (parent pos) \<le> f i)"

lemma parent_less: "0 < i \<Longrightarrow> parent i < i"
  unfolding parent_def by linarith

lemma heap4_parent: "0 < i \<Longrightarrow> i < 2 ^ 32 \<Longrightarrow> heap4_parent i = parent i"
  by (simp add: heap4_parent_def parent_def sub32_exact drop_bit_eq_div)

lemma heap4_first_child: "i < 2 ^ 30 \<Longrightarrow> heap4_first_child i = 4 * i + 1"
  by (simp add: heap4_first_child_def push_bit_eq_mult)

lemma parent_child: "parent i = p \<and> 0 < i \<longleftrightarrow> 4 * p + 1 \<le> i \<and> i < 4 * p + 5"
  unfolding parent_def by (cases i) auto

lemma heap_order_root: "heap_order f n \<Longrightarrow> i < n \<Longrightarrow> f 0 \<le> f i"
proof (induction i rule: less_induct)
  case (less i)
  show ?case
  proof (cases "i = 0")
    case False
    then have "f 0 \<le> f (parent i)" using less parent_less [of i] by simp
    also have "\<dots> \<le> f i" using less.prems False by (simp add: heap_order_def)
    finally show ?thesis .
  qed simp
qed

lemma up_step:
  assumes "up_order f n pos" "0 < pos" "pos < n" "f pos < f (parent pos)"
  shows "up_order (f(pos := f (parent pos), parent pos := f pos)) n (parent pos)"
proof -
  let ?p = "parent pos" and ?g = "f(pos := f (parent pos), parent pos := f pos)"
  have p: "?p < pos" using parent_less [OF assms(2)] .
  have a: "f (parent i) \<le> f i" if "0 < i" "i < n" "i \<noteq> pos" for i
    using assms(1) that by (simp add: up_order_def)
  have b: "f ?p \<le> f i" if "0 < i" "i < n" "parent i = pos" for i
    using assms(1,2) that by (simp add: up_order_def)
  have "?g (parent i) \<le> ?g i" if i: "0 < i" "i < n" "i \<noteq> ?p" for i
    using a [OF i(1,2)] b [OF i(1,2)] i assms(4) p parent_less [OF i(1)] by (auto simp: fun_upd_def)
  moreover have "?g (parent ?p) \<le> ?g i" if i: "0 < i" "i < n" "parent i = ?p" "0 < ?p" for i
    using a [OF i(1,2)] a [of ?p] i assms(3) p parent_less [OF i(4)] by (auto simp: fun_upd_def)
  ultimately show ?thesis unfolding up_order_def by blast
qed

lemma down_step:
  assumes "down_order f n pos" "mc < n" "0 < mc" "parent mc = pos" "f mc < f pos"
    and "\<And>i. 0 < i \<Longrightarrow> i < n \<Longrightarrow> parent i = pos \<Longrightarrow> f mc \<le> f i"
  shows "down_order (f(pos := f mc, mc := f pos)) n mc"
proof -
  let ?g = "f(pos := f mc, mc := f pos)"
  have p: "pos < mc" using parent_less [OF assms(3)] assms(4) by simp
  have a: "f (parent i) \<le> f i" if "0 < i" "i < n" "parent i \<noteq> pos" for i
    using assms(1) that by (simp add: down_order_def)
  have b: "f (parent pos) \<le> f i" if "0 < i" "i < n" "parent i = pos" "0 < pos" for i
    using assms(1) that by (simp add: down_order_def)
  have "?g (parent i) \<le> ?g i" if i: "0 < i" "i < n" "parent i \<noteq> mc" for i
    using a [OF i(1,2)] b [OF assms(3,2,4)] assms(4,5,6) i p parent_less [OF i(1)]
    by (auto simp: fun_upd_def)
  moreover have "?g (parent mc) \<le> ?g i" if i: "0 < i" "i < n" "parent i = mc" for i
    using a [OF i(1,2)] i p parent_less [OF i(1)] assms(4) by (auto simp: fun_upd_def)
  ultimately show ?thesis unfolding down_order_def by blast
qed

lemma up_stop: "up_order f n pos \<Longrightarrow> pos = 0 \<or> f (parent pos) \<le> f pos \<Longrightarrow> heap_order f n"
  unfolding heap_order_def up_order_def by (intro allI impI, rename_tac i, case_tac "i = pos") auto

lemma down_stop:
  "down_order f n pos \<Longrightarrow> (\<And>i. 0 < i \<Longrightarrow> i < n \<Longrightarrow> parent i = pos \<Longrightarrow> f pos \<le> f i) \<Longrightarrow> heap_order f n"
  unfolding heap_order_def down_order_def by (intro allI impI, rename_tac i, case_tac "parent i = pos") auto

subsection \<open>Sifting\<close>

definition ranks :: "double list \<Rightarrow> nat \<Rightarrow> int" where
  "ranks ks i = double_key (ks ! i)"

definition no_nan :: "double list \<Rightarrow> nat \<Rightarrow> bool" where
  "no_nan ks n \<longleftrightarrow> (\<forall>i < n. \<not> double_is_nan (ks ! i))"

definition entries :: "double list \<Rightarrow> 'a list \<Rightarrow> nat \<Rightarrow> (double \<times> 'a) multiset" where
  "entries ks vs n = mset (take n (zip ks vs))"

text \<open>What a sift does to the arrays: it permutes the first \<open>n\<close> entries.\<close>

definition sifted :: "double list \<Rightarrow> 'a list \<Rightarrow> nat \<Rightarrow> double list \<Rightarrow> 'a list \<Rightarrow> bool" where
  "sifted ks vs n ks' vs' \<longleftrightarrow> length ks' = length ks \<and> length vs' = length vs \<and>
     drop n ks' = drop n ks \<and> drop n vs' = drop n vs \<and> entries ks' vs' n = entries ks vs n \<and>
     (no_nan ks n \<longrightarrow> no_nan ks' n)"

lemma ranks_update: "pos < length ks \<Longrightarrow> ranks (ks[pos := k]) = (ranks ks)(pos := double_key k)"
  by (auto simp: ranks_def nth_list_update)

lemma sifted_refl: "sifted ks vs n ks vs"
  by (simp add: sifted_def)

lemma sifted_trans: "sifted ks vs n ks1 vs1 \<Longrightarrow> sifted ks1 vs1 n ks2 vs2 \<Longrightarrow> sifted ks vs n ks2 vs2"
  by (auto simp: sifted_def)

lemma sifted_swap:
  assumes "i < n" "j < n" "n \<le> length ks" "length vs = length ks"
  shows "sifted ks vs n (ks[i := ks ! j, j := ks ! i]) (vs[i := vs ! j, j := vs ! i])"
proof -
  let ?t = "take n (zip ks vs)"
  have "take n (zip (ks[i := ks ! j, j := ks ! i]) (vs[i := vs ! j, j := vs ! i])) =
      ?t[i := ?t ! j, j := ?t ! i]"
    using assms by (simp add: list_eq_iff_nth_eq nth_list_update)
  moreover have "mset (?t[i := ?t ! j, j := ?t ! i]) = mset ?t"
    using assms by (intro mset_swap) simp_all
  moreover have "no_nan ks n \<Longrightarrow> no_nan (ks[i := ks ! j, j := ks ! i]) n"
    using assms by (auto simp: no_nan_def nth_list_update)
  ultimately show ?thesis using assms by (simp add: sifted_def entries_def)
qed

text \<open>Moving an entry over the hole is a swap of the arrays with the held entry in the hole.\<close>

lemma hole_swap:
  assumes "pos \<noteq> p" "pos < length ks" "p < length ks"
  shows "ks[pos := ks ! p, p := key] = (let K = ks[pos := key] in K[pos := K ! p, p := K ! pos])"
  using assms by (simp add: Let_def)

lemma double_le_key:
  "\<not> double_is_nan a \<Longrightarrow> \<not> double_is_nan b \<Longrightarrow> double_le a b \<longleftrightarrow> double_key a \<le> double_key b"
  "\<not> double_is_nan a \<Longrightarrow> \<not> double_is_nan b \<Longrightarrow> double_lt a b \<longleftrightarrow> double_key a < double_key b"
  by (simp_all add: double_le_def double_lt_def)

lemma hole_step:
  assumes "pos < n" "p < n" "p \<noteq> pos" "n \<le> length ks" "length vs = length ks"
  shows "sifted (ks[pos := key]) (vs[pos := val]) n (ks[pos := ks ! p, p := key]) (vs[pos := vs ! p, p := val])"
    "ranks (ks[pos := ks ! p, p := key]) =
      (ranks (ks[pos := key]))(pos := ranks (ks[pos := key]) p, p := ranks (ks[pos := key]) pos)"
proof -
  show "sifted (ks[pos := key]) (vs[pos := val]) n (ks[pos := ks ! p, p := key]) (vs[pos := vs ! p, p := val])"
    using sifted_swap [of pos n p "ks[pos := key]" "vs[pos := val]"] assms by simp
  show "ranks (ks[pos := ks ! p, p := key]) =
      (ranks (ks[pos := key]))(pos := ranks (ks[pos := key]) p, p := ranks (ks[pos := key]) pos)"
    using assms by (simp add: ranks_update fun_upd_twist) (simp add: ranks_def)
qed

lemma sift_up_loop:
  assumes "pos < n" "n \<le> length ks" "length vs = length ks" "n \<le> 2 ^ 32"
    and "no_nan (ks[pos := key]) n" "up_order (ranks (ks[pos := key])) n pos"
  shows "\<exists>ks' vs'. sift_up_loop key val ks vs pos = (ks', vs') \<and>
    sifted (ks[pos := key]) (vs[pos := val]) n ks' vs' \<and> heap_order (ranks ks') n"
  using assms
proof (induction key val ks vs pos rule: sift_up_loop.induct)
  case (1 key val ks vs pos)
  let ?p = "heap4_parent pos" and ?K = "ks[pos := key]"
  show ?case
  proof (cases "pos = 0")
    case True
    with 1 show ?thesis using up_stop by (subst sift_up_loop.simps) (auto simp: sifted_refl)
  next
    case False
    then have p: "?p = parent pos" "?p < pos" using 1(2-5) heap4_parent [of pos] heap4_parent_less [of pos] by auto
    have nan: "\<not> double_is_nan (ks ! ?p)" "\<not> double_is_nan key"
      using 1(2,3,6) p(2) unfolding no_nan_def
      by (metis less_trans nat_neq_iff nth_list_update_neq) (metis 1(2,3,6) no_nan_def nth_list_update_eq order.strict_trans2)
    have rk: "ranks ?K ?p = double_key (ks ! ?p)" "ranks ?K pos = double_key key"
      using 1(2,3) p(2) by (simp_all add: ranks_def)
    show ?thesis
    proof (cases "double_le (ks ! ?p) key")
      case True
      then have "heap_order (ranks ?K) n"
        using up_stop [OF 1(7)] rk p(1) nan by (simp add: double_le_key)
      with True show ?thesis by (subst sift_up_loop.simps) (simp add: sifted_refl)
    next
      case less: False
      let ?ks = "ks[pos := ks ! ?p]" and ?vs = "vs[pos := vs ! ?p]"
      have lt: "?p < n" "?p \<noteq> pos" using p(2) 1(2) by simp_all
      note st = hole_step(1) [OF 1(2) lt 1(3,4), of key val] hole_step(2) [OF 1(2) lt 1(3,4), of key]
      have "up_order (ranks (?ks[?p := key])) n ?p"
        using up_step [OF 1(7) _ 1(2)] False less rk nan p(1) unfolding st(2) by (simp add: double_le_key)
      moreover have "no_nan (?ks[?p := key]) n" using st(1) 1(6) by (simp add: sifted_def)
      ultimately obtain ks' vs' where "sift_up_loop key val ?ks ?vs ?p = (ks', vs')"
        "sifted (?ks[?p := key]) (?vs[?p := val]) n ks' vs'" "heap_order (ranks ks') n"
        using 1(1) [OF refl] False less lt 1(3-5) by auto
      with False less st(1) show ?thesis by (subst sift_up_loop.simps) (auto intro: sifted_trans)
    qed
  qed
qed

lemma heap4_min_child:
  assumes "first + n \<le> length k" "0 < n" "n \<le> 4"
    and "\<And>i. first \<le> i \<Longrightarrow> i < first + n \<Longrightarrow> \<not> double_is_nan (k ! i)"
  shows "first \<le> heap4_min_child k first n \<and> heap4_min_child k first n < first + n \<and>
    (\<forall>i. first \<le> i \<and> i < first + n \<longrightarrow> ranks k (heap4_min_child k first n) \<le> ranks k i)"
proof -
  have lt: "double_lt (k ! i) (k ! j) \<longleftrightarrow> ranks k i < ranks k j" 
    if "first \<le> i" "i < first + n" "first \<le> j" "j < first + n" for i j
    using assms(4) that by (simp add: double_le_key ranks_def)
  define least where "least b m \<longleftrightarrow> first \<le> b \<and> b < first + m \<and> (\<forall>i. first \<le> i \<and> i < first + m \<longrightarrow> ranks k b \<le> ranks k i)"
    for b m
  have start: "least first 1" by (auto simp: least_def le_less_Suc_eq)
  have step: "least (if m < n \<and> double_lt (k ! (first + m)) (k ! b) then first + m else b) (min n (m + 1))"
    if "least b (min n m)" "0 < m" for b m
  proof (cases "m < n")
    case True
    then have b: "first \<le> b" "b < first + m" "\<And>i. first \<le> i \<Longrightarrow> i < first + m \<Longrightarrow> ranks k b \<le> ranks k i"
      using that by (simp_all add: least_def)
    have "double_lt (k ! (first + m)) (k ! b) \<longleftrightarrow> ranks k (first + m) < ranks k b"
      using b True by (intro lt) simp_all
    moreover have "first \<le> i \<and> i < first + (m + 1) \<longleftrightarrow> first \<le> i \<and> i < first + m \<or> i = first + m" for i by auto
    ultimately show ?thesis using b True unfolding least_def by (simp only:) force
  next
    case False
    then show ?thesis using that by (simp add: min_def)
  qed
  define b1 where "b1 = (if 1 < n \<and> double_lt (k ! (first + 1)) (k ! first) then first + 1 else first)"
  define b2 where "b2 = (if 2 < n \<and> double_lt (k ! (first + 2)) (k ! b1) then first + 2 else b1)"
  define b3 where "b3 = (if 3 < n \<and> double_lt (k ! (first + 3)) (k ! b2) then first + 3 else b2)"
  have "least b1 (min n 2)" using step [of first 1] start assms(2) by (simp add: b1_def numeral_2_eq_2)
  then have "least b2 (min n 3)" using step [of b1 2] by (simp add: b2_def)
  then have "least b3 (min n 4)" using step [of b2 3] by (simp add: b3_def)
  moreover have "heap4_min_child k first n = b3" by (simp only: heap4_min_child_def Let_def b1_def b2_def b3_def)
  moreover have "min n 4 = n" using assms(3) by simp
  ultimately show ?thesis unfolding least_def by simp
qed

lemma sift_down_loop:
  assumes "pos < n" "n \<le> length ks" "length vs = length ks" "n \<le> 2 ^ 30"
    and "no_nan (ks[pos := key]) n" "down_order (ranks (ks[pos := key])) n pos"
  shows "\<exists>ks' vs'. sift_down_loop key val n ks vs pos = Some (ks', vs') \<and>
    sifted (ks[pos := key]) (vs[pos := val]) n ks' vs' \<and> heap_order (ranks ks') n"
  using assms
proof (induction "n - pos" arbitrary: ks vs pos rule: less_induct)
  case less
  let ?K = "ks[pos := key]"
  have fc: "heap4_first_child pos = 4 * pos + 1" using less.prems(1,4) by (intro heap4_first_child) simp
  show ?case
  proof (cases "n \<le> 4 * pos + 1")
    case True
    then have "\<not> (parent i = pos \<and> 0 < i)" if "i < n" for i using that unfolding parent_child by simp
    then have "heap_order (ranks ?K) n" using down_stop [OF less.prems(6)] by blast
    with True show ?thesis by (subst sift_down_loop.simps) (simp add: fc sifted_refl)
  next
    case False
    define nc where "nc = min 4 (n - (4 * pos + 1))"
    define m where "m = heap4_min_child ks (4 * pos + 1) nc"
    have nc: "0 < nc" "nc \<le> 4" "4 * pos + 1 + nc \<le> n" using False by (auto simp: nc_def)
    have real: "\<not> double_is_nan (?K ! i)" if "i < n" for i using less.prems(5) that by (simp add: no_nan_def)
    have nan: "\<not> double_is_nan (ks ! i)" if "i < n" "i \<noteq> pos" for i using real [OF that(1)] that(2) by simp
    have rk: "ranks ?K i = ranks ks i" if "i \<noteq> pos" for i using that by (simp add: ranks_def)
    have "4 * pos + 1 + nc \<le> length ks" using nc less.prems(2) by linarith
    from heap4_min_child [OF this nc(1,2)] nan nc(3)
    have m: "4 * pos + 1 \<le> m" "m < 4 * pos + 1 + nc"
      and least: "\<And>i. 4 * pos + 1 \<le> i \<Longrightarrow> i < 4 * pos + 1 + nc \<Longrightarrow> ranks ks m \<le> ranks ks i"
      by (auto simp: m_def)
    have mn: "m < n" "m \<noteq> pos" "0 < m" "pos < m" using m nc by linarith+
    have par: "parent m = pos" using m nc(2) mn(3) parent_child [of m pos] by linarith
    have child: "ranks ?K m \<le> ranks ?K i" if "0 < i" "i < n" "parent i = pos" for i
    proof -
      have i: "4 * pos + 1 \<le> i" "i < 4 * pos + 5" using that parent_child [of i pos] by auto
      then have "i < 4 * pos + 1 + nc" using that(2) by (simp add: nc_def)
      moreover have "i \<noteq> pos" using i by linarith
      ultimately show ?thesis using least [OF i(1)] rk mn(2) by simp
    qed
    have key: "double_le key (ks ! m) \<longleftrightarrow> ranks ?K pos \<le> ranks ?K m"
      using real [of pos] nan [OF mn(1,2)] less.prems(1,2) mn(2) by (simp add: double_le_key ranks_def)
    have unf: "sift_down_loop key val n ks vs pos =
        (if double_le key (ks ! m) then Some (ks[pos := key], vs[pos := val])
         else sift_down_loop key val n (ks[pos := ks ! m]) (vs[pos := vs ! m]) m)"
      using False by (subst sift_down_loop.simps) (simp add: fc m_def nc_def Let_def)
    show ?thesis
    proof (cases "double_le key (ks ! m)")
      case True
      then have "heap_order (ranks ?K) n" using child key by (intro down_stop [OF less.prems(6)]) (metis order_trans)
      with True show ?thesis unfolding unf by (simp add: sifted_refl)
    next
      case lt: False
      note st = hole_step(1) [OF less.prems(1) mn(1,2) less.prems(2,3), of key val]
        hole_step(2) [OF less.prems(1) mn(1,2) less.prems(2,3), of key]
      have "down_order (ranks (ks[pos := ks ! m, m := key])) n m"
        unfolding st(2) using lt key by (intro down_step [OF less.prems(6) mn(1,3) par _ child]) simp
      moreover have "no_nan (ks[pos := ks ! m, m := key]) n" using st(1) less.prems(5) by (simp add: sifted_def)
      moreover have "n - m < n - pos" using mn by simp
      ultimately obtain ks' vs' where "sift_down_loop key val n (ks[pos := ks ! m]) (vs[pos := vs ! m]) m = Some (ks', vs')"
        "sifted (ks[pos := ks ! m, m := key]) (vs[pos := vs ! m, m := val]) n ks' vs'" "heap_order (ranks ks') n"
        using less.hyps [of m "ks[pos := ks ! m]" "vs[pos := vs ! m]"] mn(1) less.prems(2,3,4)
        by (metis length_list_update)
      with lt st(1) show ?thesis unfolding unf by (auto intro: sifted_trans)
    qed
  qed
qed

subsection \<open>The invariant\<close>

definition heap_arrays :: "double list \<Rightarrow> 'a list \<Rightarrow> nat \<Rightarrow> bool" where
  "heap_arrays ks vs n \<longleftrightarrow> length vs = length ks \<and> n \<le> length ks \<and> n \<le> 2 ^ 30 \<and> no_nan ks n \<and>
     heap_order (ranks ks) n"

definition heap_inv :: "'a heap4 \<Rightarrow> bool" where
  "heap_inv h \<longleftrightarrow> length (keys h) = capacity h \<and> 0 < capacity h \<and> capacity h < 2 ^ 31 \<and>
     heap_arrays (keys h) (vals h) (size h)"

definition heap_content :: "'a heap4 \<Rightarrow> (double \<times> 'a option) multiset" where
  "heap_content h = entries (keys h) (vals h) (size h)"

lemma entries_0 [simp]: "entries ks vs 0 = {#}"
  by (simp add: entries_def)

lemma entries_Suc:
  "n < length ks \<Longrightarrow> n < length vs \<Longrightarrow> entries ks vs (Suc n) = add_mset (ks ! n, vs ! n) (entries ks vs n)"
  by (simp add: entries_def take_Suc_conv_app_nth)

lemma size_entries: "n \<le> length ks \<Longrightarrow> length vs = length ks \<Longrightarrow> size_class.size (entries ks vs n) = n"
  by (simp add: entries_def)

lemma entries_cong:
  "take n ks = take n ks' \<Longrightarrow> take n vs = take n vs' \<Longrightarrow> entries ks vs n = entries ks' vs' n"
  by (simp add: entries_def take_zip)

lemma entries_least:
  assumes "heap_arrays ks vs n" "e \<in># entries ks vs n"
  shows "double_key (ks ! 0) \<le> double_key (fst e)"
proof -
  obtain i where "i < n" "e = (ks ! i, vs ! i)"
    using assms by (auto simp: entries_def in_set_conv_nth heap_arrays_def)
  with assms(1) heap_order_root [of "ranks ks" n i] show ?thesis by (simp add: heap_arrays_def ranks_def)
qed

text \<open>Taking the root off the arrays: the last entry goes to the root and down.\<close>

lemma take_root:
  assumes "heap_arrays ks vs (Suc n)" "0 < n"
  shows "\<exists>ks' vs'. heap4_sift_down (ks[0 := ks ! n]) (vs[0 := vs ! n]) n 0 = Some (ks', vs') \<and>
    heap_arrays ks' vs' n \<and> length ks' = length ks \<and>
    entries ks vs (Suc n) = add_mset (ks ! 0, vs ! 0) (entries ks' vs' n)"
proof -
  let ?K = "ks[0 := ks ! n]" and ?V = "vs[0 := vs ! n]"
  have len: "Suc n \<le> length ks" "length vs = length ks" "Suc n \<le> 2 ^ 30"
    and ord: "heap_order (ranks ks) (Suc n)" and nan: "no_nan ks (Suc n)"
    using assms(1) by (simp_all add: heap_arrays_def)
  have "no_nan ?K n"
    unfolding no_nan_def
  proof (intro allI impI)
    fix i assume "i < n"
    moreover have "0 < length ks" using len by linarith
    ultimately show "\<not> double_is_nan (?K ! i)" using nan by (cases "i = 0") (simp_all add: no_nan_def del: length_greater_0_conv)
  qed
  moreover have "down_order (ranks ?K) n 0"
    using ord unfolding down_order_def heap_order_def by (simp add: ranks_def)
  ultimately obtain ks' vs' where s: "sift_down_loop (?K ! 0) (?V ! 0) n ?K ?V 0 = Some (ks', vs')"
    "sifted (?K[0 := ?K ! 0]) (?V[0 := ?V ! 0]) n ks' vs'" "heap_order (ranks ks') n"
    using sift_down_loop [of 0 n ?K ?V "?K ! 0" "?V ! 0"] len assms(2) by auto
  have sf: "sifted ?K ?V n ks' vs'" using s(2) by simp
  have lv: "n < length ks" "n < length vs" using len by simp_all
  have "sifted ks vs (Suc n) (ks[0 := ks ! n, n := ks ! 0]) (vs[0 := vs ! n, n := vs ! 0])"
    using len by (intro sifted_swap) simp_all
  then have "entries ks vs (Suc n) = entries (ks[0 := ks ! n, n := ks ! 0]) (vs[0 := vs ! n, n := vs ! 0]) (Suc n)"
    by (simp add: sifted_def)
  also have "\<dots> = add_mset (ks ! 0, vs ! 0) (entries (ks[0 := ks ! n, n := ks ! 0]) (vs[0 := vs ! n, n := vs ! 0]) n)"
    using lv by (subst entries_Suc) simp_all
  also have "entries (ks[0 := ks ! n, n := ks ! 0]) (vs[0 := vs ! n, n := vs ! 0]) n = entries ?K ?V n"
    by (intro entries_cong) simp_all
  also have "\<dots> = entries ks' vs' n" using sf by (simp add: sifted_def)
  finally have "entries ks vs (Suc n) = add_mset (ks ! 0, vs ! 0) (entries ks' vs' n)" .
  moreover have "heap_arrays ks' vs' n"
    using sf s(3) len \<open>no_nan ?K n\<close> by (simp add: heap_arrays_def sifted_def)
  moreover have "length ks' = length ks" using sf by (simp add: sifted_def)
  ultimately show ?thesis using s(1) unfolding heap4_sift_down_def by blast
qed

lemma heap_new_inv: "heap_inv cell_heap_new \<and> heap_content cell_heap_new = {#}"
  by (simp add: heap_inv_def cell_heap_new_def HEAP4_MIN_CAP_def heap_arrays_def no_nan_def heap_order_def heap_content_def)

lemma size_heap_new [simp]: "size cell_heap_new = 0"
  by (simp add: cell_heap_new_def)

lemma heap_push:
  assumes "heap_inv h" "size h < 2 ^ 30" "\<not> double_is_nan k"
  shows "heap_inv (cell_heap_push h k v) \<and> heap_content (cell_heap_push h k v) = add_mset (k, v) (heap_content h)"
proof -
  define g where "g = (if size h = capacity h then heap4_grow h else h)"
  let ?n = "size h" and ?K = "(keys g)[size h := k]" and ?V = "(vals g)[size h := v]"
  have len: "length (keys h) = capacity h" "length (vals h) = capacity h" "?n \<le> capacity h" "capacity h < 2 ^ 31"
    and ord: "heap_order (ranks (keys h)) ?n" and nan: "no_nan (keys h) ?n" and pos: "0 < capacity h"
    using assms(1) by (simp_all add: heap_inv_def heap_arrays_def)
  have g: "size g = ?n" "length (keys g) = capacity g" "length (vals g) = capacity g" "?n < capacity g"
    "capacity g < 2 ^ 31" "take ?n (keys g) = take ?n (keys h)" "take ?n (vals g) = take ?n (vals h)"
    using len pos assms(2)
    by (auto simp: g_def heap4_grow_def Let_def memcpy_def mul32_exact)
  have nth: "keys g ! i = keys h ! i" if "i < ?n" for i using g(6) that by (metis nth_take)
  have "no_nan ?K (Suc ?n)" using nan nth assms(3) g(2,4) by (auto simp: no_nan_def nth_list_update less_Suc_eq)
  moreover have "up_order (ranks ?K) (Suc ?n) ?n"
    unfolding up_order_def
  proof (intro conjI allI impI)
    fix i assume i: "0 < i \<and> i < Suc ?n \<and> i \<noteq> ?n"
    then have "parent i < ?n" using parent_less [of i] by simp
    with i ord nth g show "ranks ?K (parent i) \<le> ranks ?K i" by (simp add: ranks_def heap_order_def)
  next
    fix i assume "0 < i \<and> i < Suc ?n \<and> parent i = ?n \<and> 0 < ?n"
    then show "ranks ?K (parent ?n) \<le> ranks ?K i" using parent_less [of i] by simp
  qed
  ultimately obtain ks vs where s: "sift_up_loop (?K ! ?n) (?V ! ?n) ?K ?V ?n = (ks, vs)"
    "sifted (?K[?n := ?K ! ?n]) (?V[?n := ?V ! ?n]) (Suc ?n) ks vs" "heap_order (ranks ks) (Suc ?n)"
    using sift_up_loop [of ?n "Suc ?n" ?K ?V "?K ! ?n" "?V ! ?n"] g(2,3,4) assms(2) by auto
  have sf: "sifted ?K ?V (Suc ?n) ks vs" using s(2) by simp
  have push: "cell_heap_push h k v = g\<lparr>keys := ks, vals := vs, size := Suc ?n\<rparr>"
    using s(1) assms(2) g(1) unfolding cell_heap_push_def g_def [symmetric] Let_def heap4_sift_up_def by simp
  have "entries ks vs (Suc ?n) = entries ?K ?V (Suc ?n)" using sf by (simp add: sifted_def)
  also have "\<dots> = add_mset (k, v) (entries ?K ?V ?n)" using g by (subst entries_Suc) simp_all
  also have "entries ?K ?V ?n = entries (keys h) (vals h) ?n" using g by (intro entries_cong) simp_all
  finally have "heap_content (cell_heap_push h k v) = add_mset (k, v) (heap_content h)"
    by (simp add: heap_content_def push)
  moreover have "heap_inv (cell_heap_push h k v)"
    using sf s(3) g \<open>no_nan ?K (Suc ?n)\<close> assms(2) by (simp add: heap_inv_def heap_arrays_def push sifted_def)
  ultimately show ?thesis by blast
qed

lemma heap_pop:
  assumes "heap_inv h" "size h \<noteq> 0"
  shows "\<exists>k v h'. cell_heap_pop h = Some (Some (k, v), h') \<and> heap_inv h' \<and>
    heap_content h = add_mset (k, v) (heap_content h') \<and> (\<forall>e \<in># heap_content h'. double_key k \<le> double_key (fst e))"
proof -
  obtain n where n: "size h = Suc n" using assms(2) by (cases "size h") auto
  have arr: "heap_arrays (keys h) (vals h) (Suc n)" and cap: "length (keys h) = capacity h" "capacity h < 2 ^ 31" "0 < capacity h"
    using assms(1) n by (simp_all add: heap_inv_def)
  obtain ks vs where ok: "heap_arrays ks vs n" "length ks = length (keys h)"
    "entries (keys h) (vals h) (Suc n) = add_mset (keys h ! 0, vals h ! 0) (entries ks vs n)"
    "cell_heap_pop h = Some (Some (keys h ! 0, vals h ! 0), h\<lparr>keys := ks, vals := vs, size := n\<rparr>)"
  proof (cases "n = 0")
    case True
    have "heap_arrays (keys h) (vals h) n" using arr True by (simp add: heap_arrays_def no_nan_def heap_order_def)
    moreover have "entries (keys h) (vals h) (Suc n) = add_mset (keys h ! 0, vals h ! 0) (entries (keys h) (vals h) n)"
      using arr True by (subst entries_Suc) (auto simp: heap_arrays_def)
    moreover have "cell_heap_pop h = Some (Some (keys h ! 0, vals h ! 0), h\<lparr>keys := keys h, vals := vals h, size := n\<rparr>)"
      using True n by (simp add: cell_heap_pop_def)
    ultimately show ?thesis using that by blast
  next
    case False
    with take_root [OF arr] obtain ks vs where
      "heap4_sift_down ((keys h)[0 := keys h ! n]) ((vals h)[0 := vals h ! n]) n 0 = Some (ks, vs)"
      "heap_arrays ks vs n" "length ks = length (keys h)"
      "entries (keys h) (vals h) (Suc n) = add_mset (keys h ! 0, vals h ! 0) (entries ks vs n)"
      by auto
    with False n that show ?thesis by (simp add: cell_heap_pop_def)
  qed
  let ?h = "h\<lparr>keys := ks, vals := vs, size := n\<rparr>"
  have "\<forall>e \<in># entries (keys h) (vals h) (Suc n). double_key (keys h ! 0) \<le> double_key (fst e)"
    using entries_least [OF arr] by blast
  then have "\<forall>e \<in># heap_content ?h. double_key (keys h ! 0) \<le> double_key (fst e)"
    unfolding ok(3) by (simp add: heap_content_def)
  moreover have "heap_inv ?h" using ok cap by (simp add: heap_inv_def)
  moreover have "heap_content h = add_mset (keys h ! 0, vals h ! 0) (heap_content ?h)"
    using ok(3) n by (simp add: heap_content_def)
  ultimately show ?thesis using ok(4) by blast
qed

lemma size_heap_content: "heap_inv h \<Longrightarrow> size_class.size (heap_content h) = size h"
  by (simp add: heap_inv_def heap_arrays_def heap_content_def size_entries)

interpretation heap: pq_contract heap_inv "\<lambda>k. \<not> double_is_nan k" double_key heap_content "2 ^ 30"
  cell_heap_push cell_heap_pop
proof unfold_locales
  fix h :: "'a heap4" assume h: "heap_inv h"
  show "\<exists>k v h'. cell_heap_pop h = Some (Some (k, v), h') \<and> heap_inv h' \<and> heap_content h = add_mset (k, v) (heap_content h') \<and>
      (\<forall>e \<in># heap_content h'. double_key k \<le> double_key (fst e))" if "heap_content h \<noteq> {#}"
  proof (rule heap_pop [OF h])
    show "size h \<noteq> 0" using that by (intro notI) (simp add: heap_content_def)
  qed
  show "cell_heap_pop h = Some (None, h)" if "heap_content h = {#}"
    using that size_heap_content [OF h] by (simp add: cell_heap_pop_def)
qed (simp add: heap_push size_heap_content)

lemma heap_list_loop:
  "heap_arrays ks vs n \<Longrightarrow>
    \<exists>es. heap_list_loop n ks vs result = Some (rev es @ result) \<and> mset es = entries ks vs n \<and>
      sorted (map (double_key \<circ> fst) es)"
proof (induction n arbitrary: ks vs result)
  case (Suc n)
  let ?e = "(ks ! 0, vs ! 0)"
  obtain ks' vs' where next_arrays: "heap_arrays ks' vs' n" "entries ks vs (Suc n) = add_mset ?e (entries ks' vs' n)"
    "heap_list_loop (Suc n) ks vs result = heap_list_loop n ks' vs' (?e # result)"
  proof (cases "n = 0")
    case True
    have "heap_arrays ks vs n" using Suc.prems True by (simp add: heap_arrays_def no_nan_def heap_order_def)
    moreover have "entries ks vs (Suc n) = add_mset ?e (entries ks vs n)"
      using Suc.prems True by (subst entries_Suc) (auto simp: heap_arrays_def)
    ultimately show ?thesis using True that by simp
  next
    case False
    with take_root [OF Suc.prems] that show ?thesis by auto
  qed
  from Suc.IH [OF next_arrays(1)] obtain es where es: "heap_list_loop n ks' vs' (?e # result) = Some (rev es @ ?e # result)"
    "mset es = entries ks' vs' n" "sorted (map (double_key \<circ> fst) es)"
    by blast
  have "\<forall>e \<in> set es. double_key (ks ! 0) \<le> double_key (fst e)"
    using entries_least [OF Suc.prems] next_arrays(2) es(2) by (metis set_mset_mset union_iff add_mset_add_single)
  with es next_arrays show ?case by (intro exI [of _ "?e # es"]) (simp add: comp_def)
qed simp

lemma heap_push_range:
  assumes "heap_inv r" "size r + n \<le> 2 ^ 30" "no_nan ks n" "n \<le> length ks" "length vs = length ks"
  shows "heap_inv (foldl (\<lambda>r i. cell_heap_push r (ks ! i) (vs ! i)) r [0..<n]) \<and>
    heap_content (foldl (\<lambda>r i. cell_heap_push r (ks ! i) (vs ! i)) r [0..<n]) = entries ks vs n + heap_content r"
  using assms
proof (induction n)
  case (Suc n)
  let ?r = "foldl (\<lambda>r i. cell_heap_push r (ks ! i) (vs ! i)) r [0..<n]"
  have "no_nan ks n" "\<not> double_is_nan (ks ! n)" using Suc.prems(3) by (simp_all add: no_nan_def)
  with Suc have r: "heap_inv ?r" "heap_content ?r = entries ks vs n + heap_content r" by simp_all
  have "size ?r = n + size r"
    using size_heap_content [OF r(1)] size_heap_content [OF Suc.prems(1)] r(2) Suc.prems(4,5) by (simp add: size_entries)
  then have "size ?r < 2 ^ 30" using Suc.prems(2) by simp
  from heap_push [OF r(1) this \<open>\<not> double_is_nan (ks ! n)\<close>] r(2) Suc.prems(4,5) show ?case
    by (simp add: entries_Suc)
qed simp

subsection \<open>Properties\<close>

text \<open>
  C16. The heap is a priority queue: entries pushed in any order, with priorities that are not NaN,
  come out with the smallest priority first when it is popped as often as it holds entries, nothing
  is lost or duplicated, and every pop returns (the sift through the 4-ary tree ends) below 2^30
  entries.
\<close>

theorem heap_sorts:
  assumes "heap_inv h" "size h + length es \<le> 2 ^ 30" "\<forall>e \<in> set es. \<not> double_is_nan (fst e)"
  shows "\<exists>out. pop_many cell_heap_pop (size h + length es) (push_entries cell_heap_push es h) = Some (map Some out) \<and>
    mset out = mset es + heap_content h \<and> sorted (map (double_key \<circ> fst) out)"
proof -
  have q: "heap_inv (push_entries cell_heap_push es h)"
    "heap_content (push_entries cell_heap_push es h) = mset es + heap_content h"
    using heap.push_entries_ok [OF assms(1) _ assms(3)] assms(2) size_heap_content [OF assms(1)] by simp_all
  have "size_class.size (heap_content (push_entries cell_heap_push es h)) = size h + length es"
    using q(2) size_heap_content [OF assms(1)] by simp
  from heap.pop_many_sorts [OF q(1) this] q(2) show ?thesis by simp
qed

theorem heap_sorts_witness:
  "\<exists>out. pop_many cell_heap_pop 3 (push_entries cell_heap_push
      [(0x401C000000000000, Some ''c''), (0xBFF0000000000000, Some ''a''), (0, Some ''b'')] cell_heap_new) = Some (map Some out) \<and>
    sorted (map (double_key \<circ> fst) out)"
proof -
  let ?h = "cell_heap_new :: string heap4"
  let ?es = "[(0x401C000000000000 :: double, Some ''c''), (0xBFF0000000000000, Some ''a''), (0, Some ''b'')]"
  have "\<forall>e \<in> set ?es. \<not> double_is_nan (fst e)" by (simp add: double_is_nan_def double_exp_def double_frac_def)
  moreover have "size ?h + length ?es \<le> 2 ^ 30" by simp
  ultimately have "\<exists>out. pop_many cell_heap_pop (size ?h + length ?es) (push_entries cell_heap_push ?es ?h) =
      Some (map Some out) \<and> mset out = mset ?es + heap_content ?h \<and> sorted (map (double_key \<circ> fst) out)"
    by (intro heap_sorts conjunct1 [OF heap_new_inv])
  moreover have "size ?h + length ?es = 3" by simp
  ultimately show ?thesis by (simp only:) blast
qed

text \<open>
  Listing a heap gives its entries in order of priority and leaves the heap alone; merging two
  heaps gives a heap with the entries of both, within the bound on the size.
\<close>

theorem heap_list_merge:
  assumes "heap_inv h1" "heap_inv h2" "size h1 + size h2 \<le> 2 ^ 30"
  shows "(\<exists>es. cell_heap_to_list h1 = Some es \<and> mset es = heap_content h1 \<and> sorted (map (double_key \<circ> fst) es)) \<and>
    heap_inv (cell_heap_merge h1 h2) \<and> heap_content (cell_heap_merge h1 h2) = heap_content h1 + heap_content h2"
proof
  have a: "heap_arrays (keys h1) (vals h1) (size h1)" using assms(1) by (simp add: heap_inv_def)
  then have "heap_arrays (take (size h1) (keys h1)) (take (size h1) (vals h1)) (size h1)"
    unfolding heap_arrays_def no_nan_def heap_order_def
    by (auto simp: ranks_def) (metis less_trans nth_take parent_less)
  moreover have "entries (take (size h1) (keys h1)) (take (size h1) (vals h1)) (size h1) = heap_content h1"
    unfolding heap_content_def by (intro entries_cong) simp_all
  ultimately show "\<exists>es. cell_heap_to_list h1 = Some es \<and> mset es = heap_content h1 \<and> sorted (map (double_key \<circ> fst) es)"
    using heap_list_loop [of "take (size h1) (keys h1)" "take (size h1) (vals h1)" "size h1" "[]"]
    by (auto simp: cell_heap_to_list_def)
  note new = heap_new_inv [where 'a = 'a]
  let ?r = "foldl (\<lambda>r i. cell_heap_push r (keys h1 ! i) (vals h1 ! i)) cell_heap_new [0..<size h1]"
  have r: "heap_inv ?r" "heap_content ?r = heap_content h1"
    using heap_push_range [of cell_heap_new "size h1" "keys h1" "vals h1"] new a assms(3)
    by (auto simp: heap_arrays_def heap_content_def)
  have "size ?r = size h1" using size_heap_content [OF r(1)] size_heap_content [OF assms(1)] r(2) by simp
  then show "heap_inv (cell_heap_merge h1 h2) \<and> heap_content (cell_heap_merge h1 h2) = heap_content h1 + heap_content h2"
    using heap_push_range [OF r(1), of "size h2" "keys h2" "vals h2"] assms(2,3) r(2)
    by (auto simp: heap_inv_def heap_arrays_def heap_content_def cell_heap_merge_def union_commute)
qed

theorem heap_list_merge_witness:
  "heap_inv (cell_heap_merge (cell_heap_push cell_heap_new 0 (Some ''a'')) (cell_heap_new :: string heap4))"
proof -
  note new = heap_new_inv [where 'a = string]
  have push: "heap_inv (cell_heap_push cell_heap_new 0 (Some ''a''))"
    "heap_content (cell_heap_push cell_heap_new 0 (Some ''a'')) = add_mset (0, Some ''a'') (heap_content cell_heap_new)"
    using heap_push [OF conjunct1 [OF new], of 0 "Some ''a''"]
    by (simp_all add: double_is_nan_def double_exp_def double_frac_def)
  have "heap_inv (cell_heap_new :: string heap4)" using new by blast
  moreover have "size (cell_heap_push cell_heap_new 0 (Some ''a'')) + size (cell_heap_new :: string heap4) \<le> 2 ^ 30"
    using size_heap_content [OF push(1)] unfolding push(2) conjunct2 [OF new] by simp
  ultimately show ?thesis using heap_list_merge push(1) by blast
qed

end
