(* ===== verification/DeBruijn.thy ===== *)
theory DeBruijn
  imports CellOps Vec
begin

section \<open>De Bruijn conversion and environments\<close>

text \<open>
  The conversion of lambda bodies to indices (\<open>bootstrap/debruijn.c\<close>), the extraction of
  parameter names and the environments of the evaluator (\<open>bootstrap/eval.c\<close>). A name context is
  the list of its levels, the innermost first. A function that fails an assertion of an accessor
  gives \<open>None\<close>. Environments are flat vectors, as the calls build them, or the lists of earlier
  versions, which the code still reads. Counters of type \<^verbatim>\<open>int\<close> stay below 2^31.
\<close>

subsection \<open>Parameter lists\<close>

definition generic_param :: tm where "generic_param = cell_symbol ''generic-param''"

text \<open>\<^verbatim>\<open>cs[0] == ':' && cs[1] >= 'A' && cs[1] <= 'Z'\<close>\<close>

fun is_constraint :: "string \<Rightarrow> bool" where
  "is_constraint (c # d # _) \<longleftrightarrow> c = CHR '':'' \<and> 65 \<le> (of_char d :: nat) \<and> (of_char d :: nat) \<le> 90"
| "is_constraint _ \<longleftrightarrow> False"

fun skip_constraint :: "tm \<Rightarrow> tm" where
  "skip_constraint (CPair p (CSymbol q s) rest) = (if is_constraint s then rest else CPair p (CSymbol q s) rest)"
| "skip_constraint it = it"

fun skip_annotation :: "tm \<Rightarrow> tm" where
  "skip_annotation (CPair p (CSymbol q s) rest) =
     (if s = '':'' then (case rest of CPair _ _ r \<Rightarrow> r | _ \<Rightarrow> rest) else CPair p (CSymbol q s) rest)"
| "skip_annotation it = it"

lemma size_skip_constraint [termination_simp]: "size_class.size (skip_constraint it) \<le> size_class.size it"
  by (induction it rule: skip_constraint.induct) auto

lemma size_skip_annotation [termination_simp]: "size_class.size (skip_annotation it) \<le> size_class.size it"
  by (induction it rule: skip_annotation.induct) (auto split: cell.splits)

text \<open>The count and the names as \<open>debruijn_convert\<close> walks the parameters of a nested lambda.\<close>

fun param_count :: "tm \<Rightarrow> nat" where
  "param_count (CPair _ p rest) =
     (if p = generic_param then
        (case rest of CPair _ _ r \<Rightarrow> Suc (param_count (skip_constraint r)) | _ \<Rightarrow> 0)
      else Suc (param_count (skip_annotation rest)))"
| "param_count _ = 0"

fun param_names :: "nat \<Rightarrow> tm \<Rightarrow> string list option" where
  "param_names n (CPair _ p rest) =
     (if n = 0 then Some []
      else if p = generic_param then
        (case rest of
           CPair _ name r \<Rightarrow> do {
             name \<leftarrow> cell_get_symbol name;
             names \<leftarrow> param_names (n - 1) (skip_constraint r);
             Some (name # names)
           }
         | _ \<Rightarrow> Some [])
      else do {
        name \<leftarrow> cell_get_symbol p;
        names \<leftarrow> param_names (n - 1) (skip_annotation rest);
        Some (name # names)
      })"
| "param_names n _ = Some []"

text \<open>
  The two passes of \<open>extract_param_names_with_constraints\<close>. The second pass numbers the
  parameters from \<open>i\<close> and skips a constraint only if the caller wants the constraints.
\<close>

fun extract_count :: "tm \<Rightarrow> nat" where
  "extract_count (CPair _ param rest) =
     (if param = generic_param then
        (case rest of CPair _ _ r \<Rightarrow> Suc (extract_count (skip_constraint r)) | _ \<Rightarrow> 0)
      else if cell_is_symbol param then Suc (extract_count (skip_annotation rest))
      else Suc (extract_count rest))"
| "extract_count _ = 0"

fun constraint_at :: "tm \<Rightarrow> tm option" where
  "constraint_at (CPair _ (CSymbol q s) rest) = (if is_constraint s then Some (CSymbol q s) else None)"
| "constraint_at _ = None"

fun extract_names :: "bool \<Rightarrow> nat \<Rightarrow> nat \<Rightarrow> tm \<Rightarrow> tm \<Rightarrow> (string list \<times> tm) option" where
  "extract_names want n i constraints (CPair _ param rest) =
     (if n \<le> i then Some ([], constraints)
      else if param = generic_param then
        (case rest of
           CPair _ name r \<Rightarrow> do {
             name \<leftarrow> cell_get_symbol name;
             (names, constraints) \<leftarrow>
               (case (if want then constraint_at r else None) of
                  Some c \<Rightarrow>
                    extract_names want n (i + 1)
                      (cell_cons (cell_cons (cell_number (double_of_int (int i))) c) constraints) (skip_constraint r)
                | None \<Rightarrow> extract_names want n (i + 1) constraints r);
             Some (name # names, constraints)
           }
         | _ \<Rightarrow> Some ([], constraints))
      else if cell_is_symbol param then do {
        name \<leftarrow> cell_get_symbol param;
        (names, constraints) \<leftarrow> extract_names want n (i + 1) constraints (skip_annotation rest);
        Some (name # names, constraints)
      }
      else None)"
| "extract_names want n i constraints _ = Some ([], constraints)"

definition extract_param_names_with_constraints :: "bool \<Rightarrow> tm \<Rightarrow> (string list \<times> nat \<times> tm option) option" where
  "extract_param_names_with_constraints want params = do {
     let n = extract_count params;
     (names, constraints) \<leftarrow> extract_names want n 0 cell_nil params;
     Some (names, n, if \<not> want \<or> cell_is_nil constraints then None else Some constraints)
   }"

definition extract_param_names_counted :: "tm \<Rightarrow> (string list \<times> nat) option" where
  "extract_param_names_counted params =
     map_option (\<lambda>(names, n, _). (names, n)) (extract_param_names_with_constraints False params)"

subsection \<open>Conversion\<close>

type_synonym name_context = "string list list"

primrec level_lookup :: "string \<Rightarrow> string list \<Rightarrow> int \<Rightarrow> int option" where
  "level_lookup name [] i = None"
| "level_lookup name (n # names) i = (if name = n then Some i else level_lookup name names (i + 1))"

fun debruijn_lookup_loop :: "string \<Rightarrow> name_context \<Rightarrow> int \<Rightarrow> int" where
  "debruijn_lookup_loop name [] depth = -1"
| "debruijn_lookup_loop name (level # parent) depth =
     (case level_lookup name level 0 of
        Some i \<Rightarrow> depth + i
      | None \<Rightarrow> debruijn_lookup_loop name parent (depth + int (length level)))"

definition debruijn_lookup :: "string \<Rightarrow> name_context \<Rightarrow> int" where
  "debruijn_lookup name ctx = debruijn_lookup_loop name ctx 0"

definition convert_symbol :: "string \<Rightarrow> name_context \<Rightarrow> tm" where
  "convert_symbol name ctx =
     (let index = debruijn_lookup name ctx
      in if 0 \<le> index then cell_number (double_of_int index) else cell_symbol name)"

fun debruijn_convert :: "tm \<Rightarrow> name_context \<Rightarrow> tm option"
  and debruijn_convert_list :: "tm \<Rightarrow> name_context \<Rightarrow> tm option" where
  "debruijn_convert (CSymbol _ name) ctx = Some (convert_symbol name ctx)"
| "debruijn_convert (CNumber p d) ctx =
     Some (cell_cons (cell_symbol ''quote'') (cell_cons (CNumber p d) cell_nil))"
| "debruijn_convert (CPair _ first rest) ctx =
     (if first = cell_symbol ''lambda'' then
        (case rest of
           CPair _ params (CPair _ body_expr _) \<Rightarrow> do {
             names \<leftarrow> param_names (param_count params) params;
             converted_body \<leftarrow> debruijn_convert body_expr (names # ctx);
             Some (cell_cons (cell_symbol '':lambda-converted'')
               (cell_cons params (cell_cons converted_body cell_nil)))
           }
         | _ \<Rightarrow> None)
      else do {
        converted_first \<leftarrow> debruijn_convert first ctx;
        converted_rest \<leftarrow> debruijn_convert_list rest ctx;
        Some (cell_cons converted_first converted_rest)
      })"
| "debruijn_convert expr ctx = Some expr"
| "debruijn_convert_list (CNil _) ctx = Some cell_nil"
| "debruijn_convert_list (CPair _ first rest) ctx = do {
     converted_first \<leftarrow> debruijn_convert first ctx;
     converted_rest \<leftarrow> debruijn_convert_list rest ctx;
     Some (cell_cons converted_first converted_rest)
   }"
| "debruijn_convert_list list ctx = debruijn_convert list ctx"

subsection \<open>Environments\<close>

datatype env = Vector_env "tm vector" | List_env tm

definition is_marker :: "tm \<Rightarrow> bool" where
  "is_marker elem \<longleftrightarrow> elem = cell_symbol '':__indexed__''"

fun eval_list_length :: "tm \<Rightarrow> nat" where
  "eval_list_length (CPair _ _ rest) = Suc (eval_list_length rest)"
| "eval_list_length _ = 0"

fun eval_lookup_env :: "tm \<Rightarrow> string \<Rightarrow> tm option" where
  "eval_lookup_env (CPair _ binding env) name =
     (case binding of
        CPair _ (CSymbol _ var_name) val \<Rightarrow> if var_name = name then Some val else eval_lookup_env env name
      | _ \<Rightarrow> eval_lookup_env env name)"
| "eval_lookup_env _ name = None"

text \<open>The walk over an old list environment counts the marker as an index.\<close>

fun lookup_index_loop :: "tm \<Rightarrow> nat \<Rightarrow> nat \<Rightarrow> tm option" where
  "lookup_index_loop (CPair _ elem rest) i index =
     (if index < i then None
      else if is_marker elem then lookup_index_loop rest (i + 1) index
      else if i = index then Some elem
      else lookup_index_loop rest (i + 1) index)"
| "lookup_index_loop _ i index = None"

definition env_lookup_index :: "env \<Rightarrow> nat \<Rightarrow> tm option" where
  "env_lookup_index env index =
     (case env of
        Vector_env v \<Rightarrow> cell_vector_get v (index mod 2 ^ 32)
      | List_env current \<Rightarrow> lookup_index_loop current 0 index)"

definition parent_values :: "env \<Rightarrow> tm list" where
  "parent_values env =
     (case env of
        Vector_env v \<Rightarrow> map (\<lambda>i. the (vec_buf v ! i)) [0..<cell_vector_size v]
      | List_env current \<Rightarrow> filter (\<lambda>elem. \<not> is_marker elem) (list_elems current))"

definition extend_env :: "env \<Rightarrow> tm \<Rightarrow> env" where
  "extend_env env args =
     (let arity = eval_list_length args;
          parent_size = length (parent_values env);
          vec = cell_vector_new ((arity + parent_size) mod 2 ^ 32);
          vec = foldl cell_vector_push vec (list_elems args);
          vec = foldl cell_vector_push vec (parent_values env)
      in Vector_env vec)"

definition env_is_indexed :: "env \<Rightarrow> bool" where
  "env_is_indexed env =
     (case env of
        Vector_env _ \<Rightarrow> True
      | List_env (CNil _) \<Rightarrow> True
      | List_env (CPair p first rest) \<Rightarrow>
          if list_ex is_marker (list_elems (CPair p first rest)) then True
          else (case first of
                  CPair _ (CSymbol _ nm) _ \<Rightarrow> nm \<noteq> [] \<and> hd nm = CHR '':''
                | _ \<Rightarrow> True)
      | List_env _ \<Rightarrow> False)"

subsection \<open>Lookup by index is lookup by name\<close>

lemma level_lookup_Some:
  "level_lookup name names i = Some k \<Longrightarrow> \<exists>j. k = i + int j \<and> j < length names \<and>
    (\<forall>vs :: 'v list. length vs = length names \<longrightarrow> map_of (zip names vs) name = Some (vs ! j))"
proof (induction names arbitrary: i)
  case (Cons n names)
  show ?case
  proof (cases "name = n")
    case True
    with Cons.prems have "k = i + int 0" by simp
    moreover have "\<forall>vs :: 'v list. length vs = length (n # names) \<longrightarrow> map_of (zip (n # names) vs) name = Some (vs ! 0)"
      using True by (auto simp: length_Suc_conv)
    ultimately show ?thesis by blast
  next
    case False
    with Cons.prems have "level_lookup name names (i + 1) = Some k" by simp
    from Cons.IH [OF this] obtain j where j: "k = i + 1 + int j" "j < length names"
      "\<forall>vs :: 'v list. length vs = length names \<longrightarrow> map_of (zip names vs) name = Some (vs ! j)" by blast
    have "\<forall>vs :: 'v list. length vs = length (n # names) \<longrightarrow> map_of (zip (n # names) vs) name = Some (vs ! Suc j)"
      using False j(3) by (auto simp: length_Suc_conv)
    with j show ?thesis by (intro exI [of _ "Suc j"]) auto
  qed
qed simp

lemma level_lookup_None:
  "level_lookup name names i = None \<longleftrightarrow> name \<notin> set names"
  by (induction names arbitrary: i) auto

text \<open>Scopes with their names and values, the innermost first, as nested calls build them.\<close>

type_synonym scopes = "(string list \<times> tm list) list"

definition scope_env :: "scopes \<Rightarrow> env" where
  "scope_env scopes = foldr (\<lambda>(_, vals) env. extend_env env (tm_list vals)) scopes (List_env cell_nil)"

text \<open>The reference: lookup by name, the innermost scope first.\<close>

primrec named_lookup :: "scopes \<Rightarrow> string \<Rightarrow> tm option" where
  "named_lookup [] name = None"
| "named_lookup (scope # outer) name =
     (case map_of (zip (fst scope) (snd scope)) name of Some v \<Rightarrow> Some v | None \<Rightarrow> named_lookup outer name)"

definition index_lookup :: "scopes \<Rightarrow> string \<Rightarrow> tm option" where
  "index_lookup scopes name =
     (let i = debruijn_lookup name (map fst scopes)
      in if i < 0 then None else env_lookup_index (scope_env scopes) (nat i))"

lemma lookup_loop_flat:
  "list_all (\<lambda>(ns, vs). length ns = length vs) scopes \<Longrightarrow> 0 \<le> depth \<Longrightarrow>
    (let i = debruijn_lookup_loop name (map fst scopes) depth
     in if i < 0 then named_lookup scopes name = None
        else \<exists>j. i = depth + int j \<and> j < length (concat (map snd scopes)) \<and>
          named_lookup scopes name = Some (concat (map snd scopes) ! j))"
proof (induction scopes arbitrary: depth)
  case (Cons scope scopes)
  obtain ns vs where s: "scope = (ns, vs)" by (cases scope)
  with Cons.prems have len: "length vs = length ns" by simp
  show ?case
  proof (cases "level_lookup name ns 0")
    case None
    then have "map_of (zip ns vs) name = None" using len by (simp add: level_lookup_None)
    then have named: "named_lookup (scope # scopes) name = named_lookup scopes name" using s by simp
    let ?i = "debruijn_lookup_loop name (map fst scopes) (depth + int (length ns))"
    have loop: "debruijn_lookup_loop name (map fst (scope # scopes)) depth = ?i" using None s by simp
    have ih: "let i = ?i in if i < 0 then named_lookup scopes name = None
        else \<exists>j. i = depth + int (length ns) + int j \<and> j < length (concat (map snd scopes)) \<and>
          named_lookup scopes name = Some (concat (map snd scopes) ! j)"
      using Cons.IH [of "depth + int (length ns)"] Cons.prems by simp
    show ?thesis
    proof (cases "?i < 0")
      case True
      with ih show ?thesis unfolding loop named by (simp add: Let_def)
    next
      case False
      with ih obtain j where "?i = depth + int (length ns + j)" "j < length (concat (map snd scopes))"
        "named_lookup scopes name = Some (concat (map snd scopes) ! j)"
        by (auto simp: Let_def)
      with False s len show ?thesis
        unfolding loop named Let_def by (auto simp: nth_append intro!: exI [of _ "length ns + j"])
    qed
  next
    case (Some k)
    from level_lookup_Some [OF Some] obtain j where j: "k = int j" "j < length ns"
      "map_of (zip ns vs) name = Some (vs ! j)" using len by auto
    with Some s len Cons.prems show ?thesis by (auto simp: Let_def nth_append intro!: exI [of _ j])
  qed
qed (simp add: Let_def)

lemma list_length_tm_list [simp]: "eval_list_length (tm_list vs) = length vs"
  by (induction vs) (auto simp: cell_cons_def cell_nil_def)

lemma push_values:
  "vec_inv v \<Longrightarrow> length (vec_list v) + length xs \<le> 2 ^ 28 \<Longrightarrow>
    vec_inv (foldl cell_vector_push v xs) \<and> vec_list (foldl cell_vector_push v xs) = vec_list v @ xs"
  using vec.push_all_content [of v xs] by (simp add: push_all_def)

lemma parent_values_vector: "vec_inv v \<Longrightarrow> parent_values (Vector_env v) = vec_list v"
  by (auto simp: parent_values_def cell_vector_size_def nth_vec_buf list_eq_iff_nth_eq)

lemma extend_env_values:
  assumes "length vals + length (parent_values env) < 2 ^ 28"
  shows "\<exists>v. extend_env env (tm_list vals) = Vector_env v \<and> vec_inv v \<and> vec_list v = vals @ parent_values env"
proof -
  let ?n = "(length vals + length (parent_values env)) mod 2 ^ 32"
  have "?n < 2 ^ 28" using assms by simp
  note new = vec_new(1) [OF this, where 'a = tm]
  then have v1: "vec_inv (foldl cell_vector_push (cell_vector_new ?n) vals)"
    "vec_list (foldl cell_vector_push (cell_vector_new ?n) vals) = vals"
    using push_values [of "cell_vector_new ?n" vals] assms by auto
  then show ?thesis
    using push_values [OF v1(1), of "parent_values env"] assms by (simp add: extend_env_def Let_def)
qed

lemma scope_env_values:
  "length (concat (map snd scopes)) < 2 ^ 28 \<Longrightarrow> parent_values (scope_env scopes) = concat (map snd scopes) \<and>
    (scopes \<noteq> [] \<longrightarrow> (\<exists>v. scope_env scopes = Vector_env v \<and> vec_inv v))"
proof (induction scopes)
  case (Cons scope scopes)
  obtain ns vs where s: "scope = (ns, vs)" by (cases scope)
  with Cons have "parent_values (scope_env scopes) = concat (map snd scopes)" by simp
  then obtain v where "extend_env (scope_env scopes) (tm_list vs) = Vector_env v" "vec_inv v"
    "vec_list v = vs @ concat (map snd scopes)"
    using extend_env_values [of vs "scope_env scopes"] Cons.prems s by auto
  then show ?case using s by (simp add: scope_env_def parent_values_vector)
qed (simp add: scope_env_def parent_values_def cell_nil_def)

subsection \<open>Scoping of the converted body\<close>

text \<open>
  A converted expression under \<open>n\<close> variables: every number outside a quotation is an index below
  \<open>n\<close>, and the body of a nested lambda has the indices of its parameters too.
\<close>

fun scoped :: "nat \<Rightarrow> tm \<Rightarrow> bool"
  and scoped_list :: "nat \<Rightarrow> tm \<Rightarrow> bool" where
  "scoped n (CNumber _ d) \<longleftrightarrow> d \<in> (\<lambda>i. double_of_int (int i)) ` {..<n}"
| "scoped n (CPair _ first rest) \<longleftrightarrow>
     (if first = cell_symbol ''quote'' then True
      else if first = cell_symbol '':lambda-converted'' then
        (case rest of CPair _ params (CPair _ body _) \<Rightarrow> scoped (param_count params + n) body | _ \<Rightarrow> False)
      else scoped n first \<and> scoped_list n rest)"
| "scoped n _ \<longleftrightarrow> True"
| "scoped_list n (CPair _ first rest) \<longleftrightarrow> scoped n first \<and> scoped_list n rest"
| "scoped_list n expr \<longleftrightarrow> scoped n expr"

text \<open>Expressions the reader builds: proper lists, lambdas with a parameter list and a body.\<close>

fun plain :: "tm \<Rightarrow> bool"
  and plain_list :: "tm \<Rightarrow> bool" where
  "plain (CPair _ first rest) \<longleftrightarrow>
     (if first = cell_symbol ''lambda'' then
        (case rest of
           CPair _ params (CPair _ body _) \<Rightarrow> param_names (param_count params) params \<noteq> None \<and> plain body
         | _ \<Rightarrow> False)
      else first \<noteq> cell_symbol '':lambda-converted'' \<and> plain first \<and> plain_list rest)"
| "plain _ \<longleftrightarrow> True"
| "plain_list (CPair _ first rest) \<longleftrightarrow> plain first \<and> plain_list rest"
| "plain_list (CNil _) \<longleftrightarrow> True"
| "plain_list _ \<longleftrightarrow> False"

lemma lookup_bound: "debruijn_lookup name ctx < int (length (concat ctx))"
proof -
  let ?s = "map (\<lambda>ns. (ns, map cell_symbol ns)) ctx"
  have "list_all (\<lambda>(ns, vs). length ns = length vs) ?s" by (simp add: list_all_iff)
  from lookup_loop_flat [OF this, of 0 name] show ?thesis
    by (auto simp: debruijn_lookup_def Let_def comp_def length_concat split: if_splits)
qed

lemma convert_symbol_scoped: "scoped (length (concat ctx)) (convert_symbol name ctx)"
proof (cases "0 \<le> debruijn_lookup name ctx")
  case True
  have "debruijn_lookup name ctx = int (nat (debruijn_lookup name ctx))" using True by simp
  moreover have "nat (debruijn_lookup name ctx) < length (concat ctx)"
    using True lookup_bound [of name ctx] by linarith
  ultimately have "double_of_int (debruijn_lookup name ctx) \<in> (\<lambda>i. double_of_int (int i)) ` {..<length (concat ctx)}"
    by (metis imageI lessThan_iff)
  with True show ?thesis by (simp add: convert_symbol_def cell_number_def)
next
  case False
  then show ?thesis by (simp add: convert_symbol_def cell_symbol_def)
qed

lemma length_param_names: "param_names (param_count params) params = Some ns \<Longrightarrow> length ns = param_count params"
proof (induction params arbitrary: ns rule: param_count.induct)
  case (1 u p rest)
  then show ?case by (auto split: if_splits cell.splits Option.bind_splits)
qed auto

lemma convert_not_marker:
  "debruijn_convert first ctx = Some c \<Longrightarrow> first \<noteq> cell_symbol s \<Longrightarrow> c \<noteq> cell_symbol s"
  by (induction first ctx rule: debruijn_convert_debruijn_convert_list.induct(1))
    (auto simp: convert_symbol_def cell_number_def cell_symbol_def cell_cons_def Let_def
      split: if_splits cell.splits Option.bind_splits)

lemma convert_scoped_aux:
  "plain e \<Longrightarrow> \<exists>e'. debruijn_convert e ctx = Some e' \<and> scoped (length (concat ctx)) e'"
  "plain_list l \<Longrightarrow> \<exists>l'. debruijn_convert_list l ctx = Some l' \<and> scoped_list (length (concat ctx)) l'"
proof (induction e ctx and l ctx rule: debruijn_convert_debruijn_convert_list.induct)
  case (3 p first rest ctx)
  show ?case
  proof (cases "first = cell_symbol ''lambda''")
    case True
    with 3(4) obtain u params v body w ns where r: "rest = CPair u params (CPair v body w)"
      "param_names (param_count params) params = Some ns" "plain body"
      by (auto split: cell.splits)
    from 3(1) [OF True r(1) refl r(2) r(3)] obtain b
      where "debruijn_convert body (ns # ctx) = Some b" "scoped (length (concat (ns # ctx))) b"
      by blast
    with True r length_param_names [OF r(2)] show ?thesis by (simp add: cell_cons_def cell_symbol_def)
  next
    case False
    with 3 obtain f l where f: "debruijn_convert first ctx = Some f" "scoped (length (concat ctx)) f"
      "debruijn_convert_list rest ctx = Some l" "scoped_list (length (concat ctx)) l" by auto
    have "first \<noteq> cell_symbol '':lambda-converted''" using False 3(4) by simp
    then have "f \<noteq> cell_symbol '':lambda-converted''" by (rule convert_not_marker [OF f(1)])
    with False f show ?thesis by (simp add: cell_cons_def)
  qed
next
  case (6 p first rest ctx)
  then obtain f l where "debruijn_convert first ctx = Some f" "scoped (length (concat ctx)) f"
    "debruijn_convert_list rest ctx = Some l" "scoped_list (length (concat ctx)) l" by auto
  then show ?case by (simp add: cell_cons_def)
qed (simp_all add: convert_symbol_scoped cell_cons_def cell_nil_def cell_symbol_def)

lemma extract_skip: "constraint_at r = None \<Longrightarrow> skip_constraint r = r"
  by (induction r rule: skip_constraint.induct) (auto split: if_splits)

lemma extract_count_eq: "param_names n params \<noteq> None \<Longrightarrow> param_count params \<le> n \<Longrightarrow> extract_count params = param_count params"
proof (induction params arbitrary: n rule: param_count.induct)
  case (1 u p rest)
  show ?case
  proof (cases "p = generic_param")
    case True
    show ?thesis
    proof (cases "\<exists>v name r. rest = CPair v name r")
      case pair: True
      then obtain v name r where rest: "rest = CPair v name r" by blast
      with True 1(3,4) have "param_names (n - 1) (skip_constraint r) \<noteq> None" "param_count (skip_constraint r) \<le> n - 1"
        by (auto split: Option.bind_splits)
      from 1(1) [OF True rest this] True rest show ?thesis by simp
    qed (use True in \<open>cases rest; simp\<close>)
  next
    case False
    then have "n \<noteq> 0" "cell_is_symbol p" "param_names (n - 1) (skip_annotation rest) \<noteq> None"
      "param_count (skip_annotation rest) \<le> n - 1"
      using 1(3,4) by (cases p; auto split: Option.bind_splits if_splits)+
    with False 1(2) show ?thesis by simp
  qed
qed simp_all

lemma extract_names_eq:
  "i + param_count params \<le> n \<Longrightarrow> param_names (n - i) params \<noteq> None \<Longrightarrow>
    \<exists>cs. extract_names True n i constraints params = Some (the (param_names (n - i) params), cs)"
proof (induction params arbitrary: i constraints rule: param_count.induct)
  case (1 u p rest)
  show ?case
  proof (cases "p = generic_param")
    case True
    show ?thesis
    proof (cases "\<exists>v name r. rest = CPair v name r")
      case False
      with True 1(3) show ?thesis by (cases rest) auto
    next
      case pair: True
      then obtain v name r where rest: "rest = CPair v name r" by blast
      with True 1(3,4) have lt: "i < n" by simp
      then have n: "n - i = Suc (n - Suc i)" by simp
      from rest True lt 1(4) obtain nm where nm: "cell_get_symbol name = Some nm"
        "param_names (n - Suc i) (skip_constraint r) \<noteq> None" by (auto split: Option.bind_splits)
      note ih = 1(1) [OF True rest, of "Suc i"]
      show ?thesis
      proof (cases "constraint_at r")
        case None
        with ih [of constraints] nm rest True lt 1(3) show ?thesis by (auto simp: extract_skip n)
      next
        case (Some c)
        with ih [of "cell_cons (cell_cons (cell_number (double_of_int (int i))) c) constraints"] nm rest True lt 1(3)
        show ?thesis by (auto simp: n)
      qed
    qed
  next
    case False
    then have lt: "i < n" using 1(3) by simp
    then have n: "n - i = Suc (n - Suc i)" by simp
    from False lt 1(4) obtain nm where nm: "cell_get_symbol p = Some nm" "cell_is_symbol p"
      "param_names (n - Suc i) (skip_annotation rest) \<noteq> None"
      by (cases p) (auto split: Option.bind_splits)
    from 1(2) [OF False, of "Suc i" constraints] nm False lt 1(3) show ?thesis by (auto simp: n)
  qed
qed auto

subsection \<open>Properties\<close>

text \<open>
  C17. Indices stand for names: in an environment built by nested calls, looking up the index that
  the conversion gives a name finds exactly what looking up the name from the innermost scope
  outwards finds, shadowing included, and a name gets no index exactly if no scope binds it.
\<close>

theorem index_lookup_named:
  assumes "list_all (\<lambda>(ns, vs). length ns = length vs) scopes" "length (concat (map snd scopes)) < 2 ^ 28"
  shows "index_lookup scopes name = named_lookup scopes name"
proof (cases "debruijn_lookup name (map fst scopes) < 0")
  case True
  with lookup_loop_flat [OF assms(1), of 0 name] show ?thesis
    by (simp add: index_lookup_def debruijn_lookup_def Let_def)
next
  case False
  with lookup_loop_flat [OF assms(1), of 0 name] obtain j where j: "debruijn_lookup name (map fst scopes) = int j"
    "j < length (concat (map snd scopes))" "named_lookup scopes name = Some (concat (map snd scopes) ! j)"
    by (auto simp: debruijn_lookup_def Let_def)
  then have "scopes \<noteq> []" by auto
  with scope_env_values [OF assms(2)] obtain v where v: "scope_env scopes = Vector_env v" "vec_inv v"
    "vec_list v = concat (map snd scopes)" by (auto simp: parent_values_vector)
  have "env_lookup_index (scope_env scopes) j = Some (concat (map snd scopes) ! j)"
    using v j(2) assms(2) by (simp add: env_lookup_index_def vec_get)
  with j show ?thesis by (simp add: index_lookup_def)
qed

theorem index_lookup_named_witness:
  "index_lookup [([''x''], [cell_integer 1]), ([''x'', ''y''], [cell_integer 2, cell_integer 3])] ''y'' = Some (cell_integer 3)"
proof -
  let ?s = "[([''x''], [cell_integer 1]), ([''x'', ''y''], [cell_integer 2, cell_integer 3])]"
  have "list_all (\<lambda>(ns, vs). length ns = length vs) ?s" "length (concat (map snd ?s)) < 2 ^ 28" by simp_all
  from index_lookup_named [OF this, of "''y''"] show ?thesis by simp
qed

text \<open>
  C18. Converting an expression of the reader's shape always returns, and the result is well scoped:
  every number outside a quotation is an index of a variable in scope, also under nested lambdas.
\<close>

theorem convert_scoped:
  assumes "plain e"
  shows "\<exists>e'. debruijn_convert e ctx = Some e' \<and> scoped (length (concat ctx)) e'"
  using assms by (rule convert_scoped_aux)

theorem convert_scoped_witness:
  "\<exists>e'. debruijn_convert (tm_list [cell_symbol ''lambda'', tm_list [cell_symbol ''y''],
      tm_list [cell_symbol ''+'', cell_symbol ''x'', cell_symbol ''y'']]) [[''x'']] = Some e' \<and> scoped 1 e'"
proof -
  have "plain (tm_list [cell_symbol ''lambda'', tm_list [cell_symbol ''y''],
      tm_list [cell_symbol ''+'', cell_symbol ''x'', cell_symbol ''y'']])"
    by code_simp
  from convert_scoped [OF this, of "[[''x'']]"] show ?thesis by simp
qed

text \<open>
  The two parameter parsers agree: where the walk of the conversion finds only symbols as
  names, the extraction that also collects trait constraints returns the same names in the same
  order and their number, with markers, constraints and annotations skipped alike.
\<close>

theorem param_parsers_agree:
  assumes "param_names (param_count params) params = Some names"
  shows "\<exists>constraints. extract_param_names_with_constraints True params = Some (names, length names, constraints)"
proof -
  have "extract_count params = param_count params" by (rule extract_count_eq [of "param_count params"]) (simp_all add: assms)
  moreover obtain cs where "extract_names True (param_count params) 0 cell_nil params = Some (names, cs)"
    using extract_names_eq [of 0 params "param_count params" cell_nil] assms by auto
  ultimately show ?thesis
    using length_param_names [OF assms] by (simp add: extract_param_names_with_constraints_def Let_def)
qed

theorem param_parsers_agree_witness:
  "\<exists>constraints. extract_param_names_with_constraints True
      (tm_list (map cell_symbol [''generic-param'', ''T'', '':Show'', ''x'', '':'', ''T''])) = Some ([''T'', ''x''], 2, constraints)"
proof -
  have "param_names (param_count (tm_list (map cell_symbol [''generic-param'', ''T'', '':Show'', ''x'', '':'', ''T''])))
      (tm_list (map cell_symbol [''generic-param'', ''T'', '':Show'', ''x'', '':'', ''T''])) = Some [''T'', ''x'']"
    by code_simp
  from param_parsers_agree [OF this] show ?thesis by (simp only: list.size One_nat_def add_0 plus_nat.simps numeral_2_eq_2)
qed

text \<open>
  What the code does beside its intention, on examples. The contents of a quotation are converted, so
  that a quoted parameter name becomes a number; without the collection of constraints the extraction
  takes the constraint for the next parameter; an old list environment with its marker finds the value
  of index 0 at 1. That a nested lambda keeps only the first expression of its body is an equation of
  \<open>debruijn_convert\<close>.
\<close>

lemma conversion_examples:
  "debruijn_convert (tm_list [cell_symbol ''quote'', cell_symbol ''x'']) [[''x'']] =
      Some (tm_list [cell_symbol ''quote'', cell_number 0])"
  "extract_param_names_counted (tm_list (map cell_symbol [''generic-param'', ''T'', '':Show'', ''x''])) =
      Some ([''T'', '':Show''], 2)"
  "env_lookup_index (List_env (tm_list [cell_symbol '':__indexed__'', cell_integer 7])) 0 = None"
  "env_lookup_index (List_env (tm_list [cell_symbol '':__indexed__'', cell_integer 7])) 1 = Some (cell_integer 7)"
  by code_simp (code_simp, simp_all add: env_lookup_index_def cell_cons_def is_marker_def cell_symbol_def cell_integer_def)

end
