(* ===== verification/PrimTypes.thy ===== *)
theory PrimTypes
  imports PrimArith
begin

section \<open>Types of the language\<close>

text \<open>
  The first-class types of \<open>bootstrap/primitives.c\<close>: constructors, equality and subtyping of types,
  detection and inference of the type of a value, annotations and their validation. A pointer that
  may be NULL is an option; a failed assertion is the outer \<open>None\<close>. Cells that are compared are
  different objects (\<open>tm_equal\<close>). The bindings of the evaluator are an argument where values are
  validated.
\<close>

subsection \<open>Type structures\<close>

definition make_type_struct :: "string \<Rightarrow> tm \<Rightarrow> tm" where
  "make_type_struct kind fields =
     cell_struct STRUCT_LEAF (Some (cell_symbol '':type'')) None
       (Some (cell_cons (cell_cons (cell_symbol '':kind'') (cell_symbol kind)) fields))"

fun is_type_struct :: "tm option \<Rightarrow> bool" where
  "is_type_struct (Some (CStruct _ _ (Some (CSymbol _ s)) _ _)) \<longleftrightarrow> s = '':type''"
| "is_type_struct _ \<longleftrightarrow> False"

definition get_field :: "tm option \<Rightarrow> string \<Rightarrow> tm option option" where
  "get_field t name = Option.bind t (\<lambda>t. cell_struct_get_field t (cell_symbol name))"

definition get_type_kind :: "tm option \<Rightarrow> string option option" where
  "get_type_kind t =
     (if \<not> is_type_struct t then Some None
      else do {
        kind \<leftarrow> get_field t '':kind'';
        Some (Option.bind kind cell_get_symbol)
      })"

definition null_equal :: "tm option \<Rightarrow> tm option \<Rightarrow> bool" where
  "null_equal a b = (case (a, b) of (Some a, Some b) \<Rightarrow> tm_equal a b | (None, None) \<Rightarrow> True | _ \<Rightarrow> False)"

definition basic_kinds :: "string list" where
  "basic_kinds = ['':int'', '':bool'', '':string'', '':any'', '':nil'', '':symbol'', '':pair'', '':function'', '':error'']"

definition null_size :: "tm option \<Rightarrow> nat" where
  "null_size t = (case t of None \<Rightarrow> 0 | Some t \<Rightarrow> Suc (size t))"

lemma struct_field_loop_size:
  "struct_field_loop fs name = Some (Some v) \<Longrightarrow> size v < size fs"
  by (induction fs name rule: struct_field_loop.induct) (auto split: if_splits)

lemma get_field_size: "get_field t name = Some f \<Longrightarrow> null_size f < null_size t"
  by (cases t; cases "the t"; cases f)
    (auto simp: get_field_def cell_struct_get_field_def null_size_def dest!: struct_field_loop_size split: option.splits if_splits)

function (sequential) types_equal :: "tm option \<Rightarrow> tm option \<Rightarrow> bool option" where
  "types_equal t1 t2 =
     (if \<not> is_type_struct t1 \<or> \<not> is_type_struct t2 then Some (null_equal t1 t2)
      else do {
        k1 \<leftarrow> get_type_kind t1;
        k2 \<leftarrow> get_type_kind t2;
        if k1 = None \<or> k2 = None \<or> k1 \<noteq> k2 then Some False
        else if the k1 \<in> set basic_kinds then Some True
        else if the k1 = '':func'' then do {
          d1 \<leftarrow> get_field t1 '':domain'';
          d2 \<leftarrow> get_field t2 '':domain'';
          c1 \<leftarrow> get_field t1 '':codomain'';
          c2 \<leftarrow> get_field t2 '':codomain'';
          eq \<leftarrow> types_equal d1 d2;
          if eq then types_equal c1 c2 else Some False
        }
        else if the k1 = '':list'' then do {
          e1 \<leftarrow> get_field t1 '':element'';
          e2 \<leftarrow> get_field t2 '':element'';
          types_equal e1 e2
        }
        else if the k1 = '':pair-type'' then do {
          a1 \<leftarrow> get_field t1 '':car'';
          a2 \<leftarrow> get_field t2 '':car'';
          b1 \<leftarrow> get_field t1 '':cdr'';
          b2 \<leftarrow> get_field t2 '':cdr'';
          eq \<leftarrow> types_equal a1 a2;
          if eq then types_equal b1 b2 else Some False
        }
        else if the k1 = '':union'' then do {
          l1 \<leftarrow> get_field t1 '':left'';
          l2 \<leftarrow> get_field t2 '':left'';
          r1 \<leftarrow> get_field t1 '':right'';
          r2 \<leftarrow> get_field t2 '':right'';
          eq \<leftarrow> types_equal l1 l2;
          if eq then types_equal r1 r2 else Some False
        }
        else if the k1 = '':struct'' then do {
          tag1 \<leftarrow> get_field t1 '':tag'';
          tag2 \<leftarrow> get_field t2 '':tag'';
          Some (null_equal tag1 tag2)
        }
        else Some (the k1 = '':graph'')
      })"
  by pat_completeness auto
termination
  by (relation "measure (\<lambda>(t1, _). null_size t1)") (auto dest: get_field_size)

declare types_equal.simps [simp del]

text \<open>A union is searched without comparing it as a whole.\<close>

function (sequential) is_subtype :: "tm option \<Rightarrow> tm option \<Rightarrow> bool option" where
  "is_subtype t1 t2 = do {
     k2 \<leftarrow> (if is_type_struct t2 then get_type_kind t2 else Some None);
     if k2 = Some '':any'' then Some True
     else if k2 = Some '':union'' then do {
       left \<leftarrow> get_field t2 '':left'';
       right \<leftarrow> get_field t2 '':right'';
       sub \<leftarrow> is_subtype t1 left;
       if sub then Some True else is_subtype t1 right
     }
     else if is_type_struct t1 \<and> is_type_struct t2 then types_equal t1 t2
     else Some (null_equal t1 t2)
   }"
  by pat_completeness auto
termination
  by (relation "measure (\<lambda>(_, t2). null_size t2)") (auto dest: get_field_size)

declare is_subtype.simps [simp del]

subsection \<open>Type constructors\<close>

definition prim_type_int :: "tm \<Rightarrow> tm option" where "prim_type_int args = Some (make_type_struct '':int'' cell_nil)"
definition prim_type_bool :: "tm \<Rightarrow> tm option" where "prim_type_bool args = Some (make_type_struct '':bool'' cell_nil)"
definition prim_type_string :: "tm \<Rightarrow> tm option" where "prim_type_string args = Some (make_type_struct '':string'' cell_nil)"
definition prim_type_any :: "tm \<Rightarrow> tm option" where "prim_type_any args = Some (make_type_struct '':any'' cell_nil)"
definition prim_type_nil :: "tm \<Rightarrow> tm option" where "prim_type_nil args = Some (make_type_struct '':nil'' cell_nil)"

text \<open>A type structure with two more fields.\<close>

definition type_fields2 :: "string \<Rightarrow> string \<Rightarrow> tm \<Rightarrow> string \<Rightarrow> tm \<Rightarrow> tm" where
  "type_fields2 kind n1 t1 n2 t2 =
     make_type_struct kind (cell_cons (cell_cons (cell_symbol n1) t1) (cell_cons (cell_cons (cell_symbol n2) t2) cell_nil))"

definition type_fields1 :: "string \<Rightarrow> string \<Rightarrow> tm \<Rightarrow> tm" where
  "type_fields1 kind n t = make_type_struct kind (cell_cons (cell_cons (cell_symbol n) t) cell_nil)"

fun prim_type_func :: "tm \<Rightarrow> tm option" where
  "prim_type_func (CPair _ domain rest) =
     (case rest of
        CPair _ codomain more \<Rightarrow> do {
          codomain \<leftarrow> (if cell_is_pair more then prim_type_func rest else Some codomain);
          if cell_is_pair more \<and> cell_is_error codomain then Some codomain
          else Some (type_fields2 '':func'' '':domain'' domain '':codomain'' codomain)
        }
      | _ \<Rightarrow> Some (cell_error ''-> requires at least two type arguments'' (Some cell_nil)))"
| "prim_type_func args = Some (cell_error ''-> requires at least two type arguments'' (Some cell_nil))"

definition prim_type_list :: "tm \<Rightarrow> tm option" where
  "prim_type_list args =
     (case args of
        CPair _ elem_type _ \<Rightarrow> Some (type_fields1 '':list'' '':element'' elem_type)
      | _ \<Rightarrow> Some (cell_error ''[] requires element type'' (Some cell_nil)))"

definition type_pair_prim :: "string \<Rightarrow> string \<Rightarrow> string \<Rightarrow> string \<Rightarrow> tm \<Rightarrow> tm option" where
  "type_pair_prim msg kind n1 n2 args =
     (case args of
        CPair _ t1 (CPair _ t2 _) \<Rightarrow> Some (type_fields2 kind n1 t1 n2 t2)
      | _ \<Rightarrow> Some (cell_error msg (Some cell_nil)))"

definition prim_type_pair :: "tm \<Rightarrow> tm option" where
  "prim_type_pair = type_pair_prim ''Pair-type requires two type arguments'' '':pair-type'' '':car'' '':cdr''"

definition prim_type_union :: "tm \<Rightarrow> tm option" where
  "prim_type_union = type_pair_prim ''Union-type requires two type arguments'' '':union'' '':left'' '':right''"

text \<open>The shallow type of a value. The type of native integers is not known to it.\<close>

definition shallow_type :: "tm \<Rightarrow> tm" where
  "shallow_type val =
     (case cell_type val of
        CELL_ATOM_NUMBER \<Rightarrow> make_type_struct '':int'' cell_nil
      | CELL_ATOM_BOOL \<Rightarrow> make_type_struct '':bool'' cell_nil
      | CELL_ATOM_STRING \<Rightarrow> make_type_struct '':string'' cell_nil
      | CELL_ATOM_NIL \<Rightarrow> make_type_struct '':nil'' cell_nil
      | CELL_ATOM_SYMBOL \<Rightarrow> cell_symbol '':symbol''
      | CELL_PAIR \<Rightarrow> cell_symbol '':pair''
      | CELL_LAMBDA \<Rightarrow> cell_symbol '':function''
      | CELL_ERROR \<Rightarrow> cell_symbol '':error''
      | CELL_STRUCT \<Rightarrow> cell_symbol '':struct''
      | CELL_GRAPH \<Rightarrow> cell_symbol '':graph''
      | CELL_ACTOR \<Rightarrow> cell_symbol '':actor''
      | CELL_BOX \<Rightarrow> cell_symbol '':box''
      | CELL_WEAK_REF \<Rightarrow> cell_symbol '':weak-ref''
      | CELL_HASHMAP \<Rightarrow> cell_symbol '':hashmap''
      | CELL_SET \<Rightarrow> cell_symbol '':set''
      | CELL_DEQUE \<Rightarrow> cell_symbol '':deque''
      | CELL_BUFFER \<Rightarrow> cell_symbol '':buffer''
      | CELL_VECTOR \<Rightarrow> cell_symbol '':vector''
      | CELL_HEAP \<Rightarrow> cell_symbol '':heap''
      | CELL_SORTED_MAP \<Rightarrow> cell_symbol '':sorted-map''
      | CELL_TRIE \<Rightarrow> cell_symbol '':trie''
      | CELL_ITERATOR \<Rightarrow> cell_symbol '':iterator''
      | _ \<Rightarrow> cell_symbol '':unknown'')"

definition prim_typeof :: "tm \<Rightarrow> tm option" where
  "prim_typeof args = map_option shallow_type (arg1 args)"

definition prim_type_equal :: "tm \<Rightarrow> tm option" where
  "prim_type_equal args = do {
     t1 \<leftarrow> arg1 args;
     t2 \<leftarrow> arg2 args;
     map_option cell_bool (types_equal (Some t1) (Some t2))
   }"

definition prim_type_subtype :: "tm \<Rightarrow> tm option" where
  "prim_type_subtype args = do {
     t1 \<leftarrow> arg1 args;
     t2 \<leftarrow> arg2 args;
     map_option cell_bool (is_subtype (Some t1) (Some t2))
   }"

definition prim_type_assert :: "tm \<Rightarrow> tm option" where
  "prim_type_assert args = do {
     val \<leftarrow> arg1 args;
     expected_type \<leftarrow> arg2 args;
     actual_type \<leftarrow> prim_typeof args;
     is_sub \<leftarrow> prim_type_subtype (cell_cons actual_type (cell_cons expected_type cell_nil));
     is_sub \<leftarrow> cell_get_bool is_sub;
     if is_sub then Some val else Some (cell_error '':type-error'' (Some val))
   }"

definition type_part :: "string \<Rightarrow> string \<Rightarrow> string \<Rightarrow> tm \<Rightarrow> tm option" where
  "type_part msg kind name args = do {
     t \<leftarrow> arg1 args;
     if \<not> is_type_struct (Some t) then Some (cell_error msg (Some t))
     else do {
       k \<leftarrow> get_type_kind (Some t);
       if k \<noteq> Some kind then Some (cell_error msg (Some t))
       else do {
         part \<leftarrow> get_field (Some t) name;
         Some (case part of Some p \<Rightarrow> p | None \<Rightarrow> cell_nil)
       }
     }
   }"

definition prim_type_domain :: "tm \<Rightarrow> tm option" where
  "prim_type_domain = type_part ''type-domain requires function type'' '':func'' '':domain''"

definition prim_type_codomain :: "tm \<Rightarrow> tm option" where
  "prim_type_codomain = type_part ''type-codomain requires function type'' '':func'' '':codomain''"

definition prim_type_element :: "tm \<Rightarrow> tm option" where
  "prim_type_element = type_part ''type-element requires list type'' '':list'' '':element''"

subsection \<open>Annotations\<close>

text \<open>The registry is a list of pairs, NULL before the first declaration.\<close>

type_synonym annotations = "tm option"

fun query_loop :: "tm \<Rightarrow> tm \<Rightarrow> tm option option" where
  "query_loop (CPair _ (CPair _ bound_name type) rest) name =
     (if tm_equal bound_name name then Some (Some type) else query_loop rest name)"
| "query_loop (CPair _ _ _) name = None"
| "query_loop _ name = Some None"

text \<open>Whether the name is already declared makes no difference to what is stored.\<close>

definition prim_type_declare :: "tm \<Rightarrow> annotations \<Rightarrow> (tm \<times> annotations) option" where
  "prim_type_declare args reg = do {
     name \<leftarrow> arg1 args;
     type \<leftarrow> arg2 args;
     if \<not> cell_is_symbol name then
       Some (cell_error ''type-decl requires symbol as first argument'' (Some name), reg)
     else do {
       let registry = nil_if_null reg;
       _ \<leftarrow> query_loop registry name;
       Some (type, Some (cell_cons (cell_cons name type) registry))
     }
   }"

definition prim_type_query :: "tm \<Rightarrow> annotations \<Rightarrow> tm option" where
  "prim_type_query args reg = do {
     name \<leftarrow> arg1 args;
     if \<not> cell_is_symbol name then Some (cell_error ''type-check requires symbol'' (Some name))
     else case reg of
         None \<Rightarrow> Some cell_nil
       | Some current \<Rightarrow> map_option nil_if_null (query_loop current name)
   }"

function (sequential) value_matches_type :: "tm \<Rightarrow> tm option \<Rightarrow> bool option" where
  "value_matches_type val type =
     (if \<not> is_type_struct type then Some True
      else do {
        kind \<leftarrow> get_type_kind type;
        case kind of
          None \<Rightarrow> Some True
        | Some kind \<Rightarrow>
            if kind = '':any'' then Some True
            else if kind = '':int'' then Some (cell_is_number val)
            else if kind = '':bool'' then Some (cell_is_bool val)
            else if kind = '':string'' then Some (cell_is_string val)
            else if kind = '':nil'' then Some (cell_is_nil val)
            else if kind = '':func'' then Some (cell_is_lambda val)
            else if kind = '':list'' then Some (cell_is_nil val \<or> cell_is_pair val)
            else if kind = '':pair'' then Some (cell_is_pair val)
            else if kind = '':union'' then do {
              left \<leftarrow> get_field type '':left'';
              right \<leftarrow> get_field type '':right'';
              l \<leftarrow> (if left = None then Some False else value_matches_type val left);
              if l then Some True
              else if right = None then Some False else value_matches_type val right
            }
            else if kind = '':error'' then Some (cell_is_error val)
            else Some True
      })"
  by pat_completeness auto
termination
  by (relation "measure (\<lambda>(_, type). null_size type)") (auto dest: get_field_size)

declare value_matches_type.simps [simp del]

definition prim_type_validate :: "(string \<Rightarrow> tm option) \<Rightarrow> tm \<Rightarrow> annotations \<Rightarrow> tm option" where
  "prim_type_validate lookup args reg = do {
     name \<leftarrow> arg1 args;
     case cell_get_symbol name of
       None \<Rightarrow> Some (cell_error ''type-validate requires symbol'' (Some name))
     | Some sym_name \<Rightarrow> do {
         declared_type \<leftarrow> prim_type_query (cell_cons name cell_nil) reg;
         if cell_is_nil declared_type then Some (cell_bool True)
         else case lookup sym_name of
             None \<Rightarrow> Some (cell_error ''unbound-symbol'' (Some name))
           | Some v \<Rightarrow> do {
               matches \<leftarrow> value_matches_type v (Some declared_type);
               Some (if matches then cell_bool True else cell_error '':type-error'' (Some name))
             }
       }
   }"

fun validate_loop :: "(string \<Rightarrow> tm option) \<Rightarrow> tm \<Rightarrow> tm \<Rightarrow> tm option" where
  "validate_loop lookup (CPair _ (CPair _ name declared_type) rest) errors = do {
     sym_name \<leftarrow> cell_get_symbol name;
     matches \<leftarrow> (case lookup sym_name of None \<Rightarrow> Some True | Some v \<Rightarrow> value_matches_type v (Some declared_type));
     validate_loop lookup rest (if matches then errors else cell_cons (cell_cons name declared_type) errors)
   }"
| "validate_loop lookup (CPair _ _ _) errors = None"
| "validate_loop lookup _ errors = Some errors"

definition prim_type_validate_all :: "(string \<Rightarrow> tm option) \<Rightarrow> tm \<Rightarrow> annotations \<Rightarrow> tm option" where
  "prim_type_validate_all lookup args reg =
     (case reg of
        None \<Rightarrow> Some (cell_bool True)
      | Some registry \<Rightarrow> do {
          errors \<leftarrow> validate_loop lookup registry cell_nil;
          Some (if cell_is_nil errors then cell_bool True else cell_error '':type-errors'' (Some errors))
        })"

text \<open>The arguments are checked against the domains of a curried function type, one by one.\<close>

fun check_apply_loop :: "tm \<Rightarrow> tm option \<Rightarrow> tm option" where
  "check_apply_loop (CPair _ arg_val rest) current_type =
     (if \<not> is_type_struct current_type then Some (cell_bool True)
      else do {
        kind \<leftarrow> get_type_kind current_type;
        if kind \<noteq> Some '':func'' then Some (cell_bool True)
        else do {
          domain \<leftarrow> get_field current_type '':domain'';
          ok \<leftarrow> (if domain = None then Some True else value_matches_type arg_val domain);
          if \<not> ok then Some (cell_error '':type-error'' (Some arg_val))
          else do {
            codomain \<leftarrow> get_field current_type '':codomain'';
            check_apply_loop rest codomain
          }
        }
      })"
| "check_apply_loop _ current_type = Some (cell_bool True)"

definition prim_type_check_apply :: "tm \<Rightarrow> annotations \<Rightarrow> tm option" where
  "prim_type_check_apply args reg = do {
     fn \<leftarrow> arg1 args;
     if \<not> cell_is_symbol fn then Some (cell_error ''type-assert requires symbol as first argument'' (Some fn))
     else do {
       fn_type \<leftarrow> prim_type_query (cell_cons fn cell_nil) reg;
       if cell_is_nil fn_type \<or> \<not> is_type_struct (Some fn_type) then Some (cell_bool True)
       else do {
         kind \<leftarrow> get_type_kind (Some fn_type);
         if kind \<noteq> Some '':func'' then Some (cell_bool True)
         else do {
           _ \<leftarrow> get_field (Some fn_type) '':domain'';
           arg_list \<leftarrow> cell_cdr args;
           check_apply_loop arg_list (Some fn_type)
         }
       }
     }
   }"

subsection \<open>Inference\<close>

fun is_proper_list :: "tm \<Rightarrow> bool" where
  "is_proper_list (CPair _ _ d) \<longleftrightarrow> is_proper_list d"
| "is_proper_list c \<longleftrightarrow> cell_is_nil c"

primrec any_function :: "nat \<Rightarrow> tm" where
  "any_function 0 = make_type_struct '':any'' cell_nil"
| "any_function (Suc n) =
     type_fields2 '':func'' '':domain'' (make_type_struct '':any'' cell_nil) '':codomain'' (any_function n)"

fun lambda_arity :: "tm \<Rightarrow> nat" where
  "lambda_arity (CLambda _ _ _ arity _) = arity"
| "lambda_arity _ = 0"

definition infer_atom :: "tm \<Rightarrow> tm" where
  "infer_atom val =
     (case cell_type val of
        CELL_ATOM_NUMBER \<Rightarrow> make_type_struct '':int'' cell_nil
      | CELL_ATOM_BOOL \<Rightarrow> make_type_struct '':bool'' cell_nil
      | CELL_ATOM_STRING \<Rightarrow> make_type_struct '':string'' cell_nil
      | CELL_ATOM_NIL \<Rightarrow> make_type_struct '':nil'' cell_nil
      | CELL_LAMBDA \<Rightarrow> any_function (lambda_arity val)
      | CELL_ATOM_SYMBOL \<Rightarrow> make_type_struct '':symbol'' cell_nil
      | CELL_ERROR \<Rightarrow> make_type_struct '':error'' cell_nil
      | CELL_STRUCT \<Rightarrow>
          (case cell_struct_type_tag val of
             Some tag \<Rightarrow> type_fields1 '':struct'' '':tag'' tag
           | None \<Rightarrow> make_type_struct '':struct'' cell_nil)
      | CELL_GRAPH \<Rightarrow> make_type_struct '':graph'' cell_nil
      | _ \<Rightarrow> make_type_struct '':any'' cell_nil)"

function infer_value_type :: "tm \<Rightarrow> tm option"
  and infer_list_element_type :: "tm \<Rightarrow> tm option"
  and infer_rest :: "tm \<Rightarrow> tm \<Rightarrow> tm option" where
  "infer_value_type val =
     (case val of
        CPair _ a d \<Rightarrow>
          if is_proper_list val then do {
            elem_type \<leftarrow> infer_list_element_type val;
            Some (type_fields1 '':list'' '':element'' elem_type)
          }
          else do {
            car_type \<leftarrow> infer_value_type a;
            cdr_type \<leftarrow> infer_value_type d;
            Some (type_fields2 '':pair-type'' '':car'' car_type '':cdr'' cdr_type)
          }
      | _ \<Rightarrow> Some (infer_atom val))"
| "infer_list_element_type val =
     (case val of
        CNil _ \<Rightarrow> Some (make_type_struct '':any'' cell_nil)
      | CPair _ first rest \<Rightarrow> do {
          result_type \<leftarrow> infer_value_type first;
          infer_rest result_type rest
        }
      | _ \<Rightarrow> None)"
| "infer_rest result_type current =
     (case current of
        CPair _ elem rest \<Rightarrow> do {
          elem_type \<leftarrow> infer_value_type elem;
          eq \<leftarrow> types_equal (Some result_type) (Some elem_type);
          infer_rest
            (if eq then result_type else type_fields2 '':union'' '':left'' result_type '':right'' elem_type) rest
        }
      | _ \<Rightarrow> Some result_type)"
  by pat_completeness auto
termination
  by (relation "measure (case_sum (\<lambda>v. 2 * size v + 1) (case_sum (\<lambda>v. 2 * size v) (\<lambda>(_, v). 2 * size v + 1)))") auto

declare infer_value_type.simps [simp del] infer_list_element_type.simps [simp del] infer_rest.simps [simp del]

definition prim_type_infer :: "tm \<Rightarrow> tm option" where
  "prim_type_infer args = Option.bind (arg1 args) (infer_value_type)"

subsection \<open>Signatures of primitives\<close>

definition SIG_INT :: tm where "SIG_INT = make_type_struct '':int'' cell_nil"
definition SIG_BOOL :: tm where "SIG_BOOL = make_type_struct '':bool'' cell_nil"
definition SIG_STR :: tm where "SIG_STR = make_type_struct '':string'' cell_nil"
definition SIG_ANY :: tm where "SIG_ANY = make_type_struct '':any'' cell_nil"

definition FUNC1 :: "tm \<Rightarrow> tm \<Rightarrow> tm" where
  "FUNC1 d c = type_fields2 '':func'' '':domain'' d '':codomain'' c"

definition FUNC2 :: "tm \<Rightarrow> tm \<Rightarrow> tm \<Rightarrow> tm" where
  "FUNC2 a b c = FUNC1 a (FUNC1 b c)"

definition prim_sig :: "string \<Rightarrow> tm" where
  "prim_sig name =
     (if name \<in> set [''+'', ''-'', ''*'', ''/'', ''%''] then FUNC2 SIG_INT SIG_INT SIG_INT
      else if name \<in> set [''<'', ''>'', ''<='', ''>=''] then FUNC2 SIG_INT SIG_INT SIG_BOOL
      else if name \<in> set [''equal?'', ''not-equal?'', ''deep-equal?''] then FUNC2 SIG_ANY SIG_ANY SIG_BOOL
      else if name \<in> set [''and'', ''or''] then FUNC2 SIG_BOOL SIG_BOOL SIG_BOOL
      else if name = ''not'' then FUNC1 SIG_BOOL SIG_BOOL
      else if name = ''cons'' then FUNC2 SIG_ANY SIG_ANY SIG_ANY
      else if name \<in> set [''car'', ''cdr''] then FUNC1 SIG_ANY SIG_ANY
      else if name \<in> set [''error?'', ''null?''] then FUNC1 SIG_ANY SIG_BOOL
      else if name \<in> set [''type-of'', ''struct-create''] then FUNC1 SIG_ANY SIG_ANY
      else if name = ''string-length'' then FUNC1 SIG_STR SIG_INT
      else if name = ''string-append'' then FUNC2 SIG_STR SIG_STR SIG_STR
      else if name = ''string-equal?'' then FUNC2 SIG_STR SIG_STR SIG_BOOL
      else if name = ''string-slice'' then FUNC1 SIG_STR (FUNC2 SIG_INT SIG_INT SIG_STR)
      else if name = ''string@'' then FUNC2 SIG_STR SIG_INT SIG_STR
      else if name = ''trace'' then FUNC1 SIG_ANY SIG_ANY
      else if name = ''error'' then FUNC2 SIG_ANY SIG_ANY SIG_ANY
      else if name \<in> set [''sqrt'', lfloor_utf8, lceil_utf8, ''abs'', ''sin'', ''cos'', ''tan'', ''log'', ''exp''] then
        FUNC1 SIG_INT SIG_INT
      else if name \<in> set [''^'', ''min'', ''max''] then FUNC2 SIG_INT SIG_INT SIG_INT
      else cell_nil)"

text \<open>A leading colon of the name is stripped.\<close>

definition prim_type_prim_sig :: "tm \<Rightarrow> tm option" where
  "prim_type_prim_sig args = do {
     nm \<leftarrow> arg1 args;
     case cell_get_symbol nm of
       None \<Rightarrow> Some (cell_error ''type-prim-sig requires symbol'' (Some nm))
     | Some name \<Rightarrow> Some (prim_sig (if name \<noteq> [] \<and> hd name = CHR '':'' then tl name else name))
   }"

end
