(* ===== verification/TypeFacts.thy ===== *)
theory TypeFacts
  imports PrimTypes
begin

section \<open>Correctness of the types\<close>

text \<open>
  The type cells the constructors build stand for the types \<open>ty\<close>. On them equality of types is
  equality, and subtyping is the relation \<open>is_sub\<close> except for a union on the left. Inference gives
  a type that the value matches and whose element type covers every element of a list.
\<close>

subsection \<open>Abstract types\<close>

datatype ty = TBasic string | TFunc ty ty | TList ty | TPair ty ty | TUnion ty ty | TStruct "string option" | TGraph

fun wf_ty :: "ty \<Rightarrow> bool" where
  "wf_ty (TBasic k) \<longleftrightarrow> k \<in> set basic_kinds"
| "wf_ty (TFunc a b) \<longleftrightarrow> wf_ty a \<and> wf_ty b"
| "wf_ty (TList a) \<longleftrightarrow> wf_ty a"
| "wf_ty (TPair a b) \<longleftrightarrow> wf_ty a \<and> wf_ty b"
| "wf_ty (TUnion a b) \<longleftrightarrow> wf_ty a \<and> wf_ty b"
| "wf_ty _ \<longleftrightarrow> True"

fun type_cell :: "ty \<Rightarrow> tm" where
  "type_cell (TBasic k) = make_type_struct k cell_nil"
| "type_cell (TFunc a b) = type_fields2 '':func'' '':domain'' (type_cell a) '':codomain'' (type_cell b)"
| "type_cell (TList a) = type_fields1 '':list'' '':element'' (type_cell a)"
| "type_cell (TPair a b) = type_fields2 '':pair-type'' '':car'' (type_cell a) '':cdr'' (type_cell b)"
| "type_cell (TUnion a b) = type_fields2 '':union'' '':left'' (type_cell a) '':right'' (type_cell b)"
| "type_cell (TStruct None) = make_type_struct '':struct'' cell_nil"
| "type_cell (TStruct (Some s)) = type_fields1 '':struct'' '':tag'' (cell_symbol s)"
| "type_cell TGraph = make_type_struct '':graph'' cell_nil"

fun kind_of :: "ty \<Rightarrow> string" where
  "kind_of (TBasic k) = k"
| "kind_of (TFunc _ _) = '':func''"
| "kind_of (TList _) = '':list''"
| "kind_of (TPair _ _) = '':pair-type''"
| "kind_of (TUnion _ _) = '':union''"
| "kind_of (TStruct _) = '':struct''"
| "kind_of TGraph = '':graph''"

text \<open>Subtyping as the code decides it: a union is searched, everything else is compared.\<close>

primrec subty :: "ty \<Rightarrow> ty \<Rightarrow> bool" where
  "subty a (TBasic k) \<longleftrightarrow> k = '':any'' \<or> a = TBasic k"
| "subty a (TFunc b c) \<longleftrightarrow> a = TFunc b c"
| "subty a (TList b) \<longleftrightarrow> a = TList b"
| "subty a (TPair b c) \<longleftrightarrow> a = TPair b c"
| "subty a (TUnion l r) \<longleftrightarrow> subty a l \<or> subty a r"
| "subty a (TStruct s) \<longleftrightarrow> a = TStruct s"
| "subty a TGraph \<longleftrightarrow> a = TGraph"

text \<open>
  What a subtype is, without reference to the code: the least relation that is reflexive, has \<open>any\<close>
  on top, places a union above each of its sides, and below whatever is above both of them.
\<close>

inductive is_sub :: "ty \<Rightarrow> ty \<Rightarrow> bool" where
  is_sub_refl: "is_sub a a"
| is_sub_any: "is_sub a (TBasic '':any'')"
| is_sub_left: "is_sub a l \<Longrightarrow> is_sub a (TUnion l r)"
| is_sub_right: "is_sub a r \<Longrightarrow> is_sub a (TUnion l r)"
| is_sub_join: "is_sub l c \<Longrightarrow> is_sub r c \<Longrightarrow> is_sub (TUnion l r) c"

fun is_union :: "ty \<Rightarrow> bool" where
  "is_union (TUnion _ _) \<longleftrightarrow> True"
| "is_union _ \<longleftrightarrow> False"

text \<open>The types a union is built from.\<close>

fun members :: "ty \<Rightarrow> ty set" where
  "members (TUnion l r) = members l \<union> members r"
| "members t = {t}"

lemma is_sub_subty: "is_sub a b \<Longrightarrow> \<not> is_union a \<Longrightarrow> subty a b"
proof (induction rule: is_sub.induct)
  case (is_sub_refl a)
  then show ?case by (cases a) simp_all
qed simp_all

lemma subty_is_sub: "subty a b \<Longrightarrow> is_sub a b"
  by (induction b) (auto intro: is_sub.intros)

lemma subty_single: "\<not> is_union a \<Longrightarrow> subty a b \<longleftrightarrow> is_sub a b"
  using is_sub_subty subty_is_sub by blast

lemma subty_union: "is_union a \<Longrightarrow> subty a b \<longleftrightarrow> TBasic '':any'' \<in> members b"
  by (induction b) auto

subsection \<open>Fields\<close>

lemma type_struct_simps [simp]:
  "is_type_struct (Some (make_type_struct k fs))"
  "is_type_struct (Some (type_fields1 k n t))"
  "is_type_struct (Some (type_fields2 k n t m u))"
  by (simp_all add: make_type_struct_def type_fields1_def type_fields2_def cell_struct_def cell_symbol_def)

lemma field_make [simp]:
  "get_field (Some (make_type_struct k fs)) name =
    (if name = '':kind'' then Some (Some (cell_symbol k)) else struct_field_loop fs (cell_symbol name))"
  by (auto simp: get_field_def make_type_struct_def cell_struct_def cell_struct_get_field_def cell_cons_def cell_symbol_def)

lemma field_loop_simps [simp]:
  "struct_field_loop cell_nil name = Some None"
  "struct_field_loop (cell_cons (cell_cons (cell_symbol n) t) fs) (cell_symbol m) =
    (if n = m then Some (Some t) else struct_field_loop fs (cell_symbol m))"
  by (simp_all add: cell_nil_def cell_cons_def cell_symbol_def)

lemma field_simps [simp]:
  "get_field (Some (type_fields1 k n t)) name =
    (if name = '':kind'' then Some (Some (cell_symbol k)) else Some (if n = name then Some t else None))"
  "get_field (Some (type_fields2 k n t m u)) name =
    (if name = '':kind'' then Some (Some (cell_symbol k))
     else Some (if n = name then Some t else if m = name then Some u else None))"
  by (simp_all add: type_fields1_def type_fields2_def)

lemma kind_simps [simp]:
  "get_type_kind (Some (make_type_struct k fs)) = Some (Some k)"
  "get_type_kind (Some (type_fields1 k n t)) = Some (Some k)"
  "get_type_kind (Some (type_fields2 k n t m u)) = Some (Some k)"
  by (simp_all add: get_type_kind_def cell_symbol_def)

lemma type_cell_simps [simp]:
  "is_type_struct (Some (type_cell t))" "get_type_kind (Some (type_cell t)) = Some (Some (kind_of t))"
  by (cases t rule: type_cell.cases; simp)+

lemma kinds_not_basic [simp]:
  "'':func'' \<notin> set basic_kinds" "'':list'' \<notin> set basic_kinds" "'':pair-type'' \<notin> set basic_kinds"
  "'':union'' \<notin> set basic_kinds" "'':struct'' \<notin> set basic_kinds" "'':graph'' \<notin> set basic_kinds"
  by (simp_all add: basic_kinds_def)

text \<open>One unfolding of the equality on cells of types.\<close>

lemma types_equal_step:
  assumes "wf_ty a" "wf_ty b"
  shows "types_equal (Some (type_cell a)) (Some (type_cell b)) =
    (if kind_of a \<noteq> kind_of b then Some False
     else if kind_of a \<in> set basic_kinds then Some True
     else case (a, b) of
       (TFunc a1 a2, TFunc b1 b2) \<Rightarrow> do {
         eq \<leftarrow> types_equal (Some (type_cell a1)) (Some (type_cell b1));
         if eq then types_equal (Some (type_cell a2)) (Some (type_cell b2)) else Some False
       }
     | (TPair a1 a2, TPair b1 b2) \<Rightarrow> do {
         eq \<leftarrow> types_equal (Some (type_cell a1)) (Some (type_cell b1));
         if eq then types_equal (Some (type_cell a2)) (Some (type_cell b2)) else Some False
       }
     | (TUnion a1 a2, TUnion b1 b2) \<Rightarrow> do {
         eq \<leftarrow> types_equal (Some (type_cell a1)) (Some (type_cell b1));
         if eq then types_equal (Some (type_cell a2)) (Some (type_cell b2)) else Some False
       }
     | (TList a1, TList b1) \<Rightarrow> types_equal (Some (type_cell a1)) (Some (type_cell b1))
     | (TStruct s, TStruct t) \<Rightarrow> Some (s = t)
     | _ \<Rightarrow> Some (kind_of a = '':graph''))"
proof (cases "kind_of a = kind_of b \<and> kind_of a \<notin> set basic_kinds")
  case False
  then show ?thesis by (subst types_equal.simps) auto
next
  case True
  show ?thesis
  proof (cases a)
    case (TStruct s)
    with True assms(2) obtain t where "b = TStruct t" by (cases b) auto
    with TStruct show ?thesis
      by (cases s; cases t) (subst types_equal.simps; simp add: null_equal_def cell_symbol_def)+
  qed (use True assms in \<open>cases b; subst types_equal.simps; simp\<close>)+
qed

subsection \<open>Equality and subtyping\<close>

lemma types_equal_cells:
  "wf_ty a \<Longrightarrow> wf_ty b \<Longrightarrow> types_equal (Some (type_cell a)) (Some (type_cell b)) = Some (a = b)"
proof (induction a arbitrary: b)
  case (TBasic k)
  note step = types_equal_step [OF TBasic]
  show ?case using TBasic unfolding step by (cases b) auto
next
  case (TFunc a1 a2)
  note step = types_equal_step [OF TFunc.prems]
  show ?case using TFunc unfolding step by (cases b) auto
next
  case (TList a)
  note step = types_equal_step [OF TList.prems]
  show ?case using TList unfolding step by (cases b) auto
next
  case (TPair a1 a2)
  note step = types_equal_step [OF TPair.prems]
  show ?case using TPair unfolding step by (cases b) auto
next
  case (TUnion a1 a2)
  note step = types_equal_step [OF TUnion.prems]
  show ?case using TUnion unfolding step by (cases b) auto
next
  case (TStruct s)
  note step = types_equal_step [OF TStruct]
  show ?case using TStruct unfolding step by (cases b) auto
next
  case TGraph
  note step = types_equal_step [OF TGraph]
  show ?case using TGraph unfolding step by (cases b) auto
qed

lemma is_subtype_cells:
  "wf_ty a \<Longrightarrow> wf_ty b \<Longrightarrow> is_subtype (Some (type_cell a)) (Some (type_cell b)) = Some (subty a b)"
proof (induction b)
  case (TBasic k)
  then have "k \<noteq> '':union''" by auto
  with TBasic show ?case by (subst is_subtype.simps) (simp add: types_equal_cells del: type_cell.simps)
next
  case (TUnion l r)
  then show ?case by (subst is_subtype.simps) (simp add: type_cell.simps(5))
qed (subst is_subtype.simps; simp add: types_equal_cells del: type_cell.simps)+

subsection \<open>Inference\<close>

text \<open>Structures that inference meets carry a symbol as their tag, or none.\<close>

fun symbol_tags :: "tm \<Rightarrow> bool" where
  "symbol_tags (CPair _ a d) \<longleftrightarrow> symbol_tags a \<and> symbol_tags d"
| "symbol_tags (CStruct _ _ tag _ _) \<longleftrightarrow> (case tag of None \<Rightarrow> True | Some t \<Rightarrow> cell_is_symbol t)"
| "symbol_tags _ \<longleftrightarrow> True"

definition single :: "ty \<Rightarrow> bool" where
  "single t \<longleftrightarrow> wf_ty t \<and> kind_of t \<noteq> '':union''"

lemma single_refl: "single t \<Longrightarrow> subty t t"
  by (cases t) (auto simp: single_def)

lemma any_function_cell: "\<exists>t. any_function n = type_cell t \<and> single t"
proof (induction n)
  case 0
  show ?case by (intro exI [of _ "TBasic '':any''"]) (simp add: single_def basic_kinds_def)
next
  case (Suc n)
  then obtain t where "any_function n = type_cell t" "single t" by blast
  then show ?case
    by (intro exI [of _ "TFunc (TBasic '':any'') t"]) (simp add: single_def basic_kinds_def)
qed

lemma basic_cell: "k \<in> set basic_kinds \<Longrightarrow> \<exists>t. make_type_struct k cell_nil = type_cell t \<and> single t"
  by (intro exI [of _ "TBasic k"]) (auto simp: single_def)

lemma infer_atom_cell:
  assumes "symbol_tags v"
  shows "\<exists>t. infer_atom v = type_cell t \<and> single t"
proof -
  have struct: "\<exists>t. (case cell_struct_type_tag v of
        Some tag \<Rightarrow> type_fields1 '':struct'' '':tag'' tag | None \<Rightarrow> make_type_struct '':struct'' cell_nil) = type_cell t \<and> single t"
  proof (cases "cell_struct_type_tag v")
    case None
    then show ?thesis by (intro exI [of _ "TStruct None"]) (simp add: single_def)
  next
    case (Some tag)
    then have "cell_is_symbol tag" using assms by (cases v) auto
    then obtain s where "tag = cell_symbol s" by (cases tag) (auto simp: cell_symbol_def)
    with Some show ?thesis by (intro exI [of _ "TStruct (Some s)"]) (simp add: single_def)
  qed
  have graph: "\<exists>t. make_type_struct '':graph'' cell_nil = type_cell t \<and> single t"
    by (intro exI [of _ TGraph]) (simp add: single_def)
  have basics: "'':int'' \<in> set basic_kinds" "'':bool'' \<in> set basic_kinds" "'':string'' \<in> set basic_kinds"
    "'':nil'' \<in> set basic_kinds" "'':symbol'' \<in> set basic_kinds" "'':error'' \<in> set basic_kinds" "'':any'' \<in> set basic_kinds"
    by (simp_all add: basic_kinds_def)
  show ?thesis
    unfolding infer_atom_def
    using struct graph any_function_cell basics [THEN basic_cell]
    by (cases "cell_type v") (simp_all only: CellType.case)
qed

lemma infer_cells:
  "symbol_tags v \<Longrightarrow> \<exists>t. infer_value_type v = Some (type_cell t) \<and> single t"
  "symbol_tags v' \<Longrightarrow> cell_is_pair v' \<or> cell_is_nil v' \<Longrightarrow>
    \<exists>t. infer_list_element_type v' = Some (type_cell t) \<and> wf_ty t \<and>
      (\<forall>x \<in> set (list_elems v'). \<exists>tx. infer_value_type x = Some (type_cell tx) \<and> wf_ty tx \<and> subty tx t)"
  "symbol_tags v'' \<Longrightarrow> wf_ty r \<Longrightarrow> result_type = type_cell r \<Longrightarrow>
    \<exists>t. infer_rest result_type v'' = Some (type_cell t) \<and> wf_ty t \<and> (\<forall>s. subty s r \<longrightarrow> subty s t) \<and>
      (\<forall>x \<in> set (list_elems v''). \<exists>tx. infer_value_type x = Some (type_cell tx) \<and> wf_ty tx \<and> subty tx t)"
proof (induction v and v' and result_type v'' arbitrary: and and r
    rule: infer_value_type_infer_list_element_type_infer_rest.induct)
  case (1 v)
  show ?case
  proof (cases "cell_is_pair v")
    case False
    then have "infer_value_type v = Some (infer_atom v)"
      by (subst infer_value_type.simps) (cases v; simp)
    with infer_atom_cell [OF 1(4)] show ?thesis by auto
  next
    case True
    then obtain p a d where v: "v = CPair p a d" by (cases v) auto
    show ?thesis
    proof (cases "is_proper_list v")
      case proper: True
      from 1(1) [OF v proper] 1(4) v obtain t where "infer_list_element_type v = Some (type_cell t)" "wf_ty t" by auto
      with proper v show ?thesis
        by (intro exI [of _ "TList t"]) (subst infer_value_type.simps, simp add: single_def)
    next
      case improper: False
      from 1(2) [OF v improper] 1(3) [OF v improper] 1(4) v obtain t u where
        "infer_value_type a = Some (type_cell t)" "infer_value_type d = Some (type_cell u)" "single t" "single u"
        by auto
      with improper v show ?thesis
        by (intro exI [of _ "TPair t u"]) (subst infer_value_type.simps, simp add: single_def)
    qed
  qed
next
  case (2 v)
  show ?case
  proof (cases "cell_is_pair v")
    case False
    with 2(4) obtain p where "v = CNil p" by (cases v) auto
    then show ?thesis
      by (intro exI [of _ "TBasic '':any''"]) (subst infer_list_element_type.simps, simp add: basic_kinds_def)
  next
    case True
    then obtain p a d where v: "v = CPair p a d" by (cases v) auto
    from 2(1) [OF v] 2(3) v obtain r where r: "infer_value_type a = Some (type_cell r)" "single r" by auto
    from 2(2) [OF v r(1), of r] 2(3) v r(2) obtain t where t: "infer_rest (type_cell r) d = Some (type_cell t)" "wf_ty t"
      "\<forall>s. subty s r \<longrightarrow> subty s t"
      "\<forall>x \<in> set (list_elems d). \<exists>tx. infer_value_type x = Some (type_cell tx) \<and> wf_ty tx \<and> subty tx t"
      by (auto simp: single_def)
    have "subty r t" using t(3) single_refl [OF r(2)] by blast
    with r t v show ?thesis
      by (intro exI [of _ t]) (subst infer_list_element_type.simps, auto simp: single_def)
  qed
next
  case (3 result_type v)
  show ?case
  proof (cases "cell_is_pair v")
    case False
    then have "infer_rest result_type v = Some result_type" by (subst infer_rest.simps) (cases v; simp)
    moreover have "list_elems v = []" using False by (cases v) simp_all
    ultimately have "infer_rest result_type v = Some result_type" "list_elems v = []" .
    with 3(4,5) show ?thesis by (intro exI [of _ r]) simp
  next
    case True
    then obtain p a d where v: "v = CPair p a d" by (cases v) auto
    from 3(1) [OF v] 3(3) v obtain e where e: "infer_value_type a = Some (type_cell e)" "single e" by auto
    let ?r = "if r = e then r else TUnion r e"
    have eq: "types_equal (Some result_type) (Some (type_cell e)) = Some (r = e)"
      using 3(4,5) e(2) by (simp add: types_equal_cells single_def)
    have wf: "wf_ty ?r" using 3(4) e(2) by (simp add: single_def)
    have cell: "(if r = e then result_type else type_fields2 '':union'' '':left'' result_type '':right'' (type_cell e)) = type_cell ?r"
      using 3(5) by simp
    from 3(2) [OF v e(1) eq _ wf cell] 3(3) v obtain t where t:
      "infer_rest (type_cell ?r) d = Some (type_cell t)" "wf_ty t" "\<forall>s. subty s ?r \<longrightarrow> subty s t"
      "\<forall>x \<in> set (list_elems d). \<exists>tx. infer_value_type x = Some (type_cell tx) \<and> wf_ty tx \<and> subty tx t"
      unfolding cell by auto
    have "infer_rest result_type v = Some (type_cell t)"
      using t(1) by (subst infer_rest.simps) (simp add: v e(1) eq cell del: type_cell.simps)
    moreover have "subty e ?r" using single_refl [OF e(2)] by simp
    then have "subty e t" using t(3) by blast
    moreover have "\<forall>s. subty s r \<longrightarrow> subty s t" using t(3) by (cases "r = e") auto
    ultimately show ?thesis using t e v by (intro exI [of _ t]) (auto simp: single_def)
  qed
qed

lemma matches_list_pair [simp]:
  "value_matches_type v (Some (type_fields1 '':list'' n t)) = Some (cell_is_nil v \<or> cell_is_pair v)"
  "value_matches_type v (Some (type_fields2 '':pair-type'' n t m u)) = Some True"
  "value_matches_type v (Some (type_fields2 '':func'' n t m u)) = Some (cell_is_lambda v)"
  by (subst value_matches_type.simps; simp)+

lemma matches_basic [simp]:
  "value_matches_type v (Some (make_type_struct '':any'' fs)) = Some True"
  "value_matches_type v (Some (make_type_struct '':int'' fs)) = Some (cell_is_number v)"
  "value_matches_type v (Some (make_type_struct '':bool'' fs)) = Some (cell_is_bool v)"
  "value_matches_type v (Some (make_type_struct '':string'' fs)) = Some (cell_is_string v)"
  "value_matches_type v (Some (make_type_struct '':nil'' fs)) = Some (cell_is_nil v)"
  "value_matches_type v (Some (make_type_struct '':symbol'' fs)) = Some True"
  "value_matches_type v (Some (make_type_struct '':error'' fs)) = Some (cell_is_error v)"
  "value_matches_type v (Some (make_type_struct '':graph'' fs)) = Some True"
  "value_matches_type v (Some (make_type_struct '':struct'' fs)) = Some True"
  "value_matches_type v (Some (type_fields1 '':struct'' n t)) = Some True"
  by (subst value_matches_type.simps; simp)+

text \<open>A cell that is opaque here is no atom of another type.\<close>

definition honest :: "tm \<Rightarrow> bool" where
  "honest v \<longleftrightarrow> (case v of
      CObj _ t \<Rightarrow> t \<notin> {CELL_ATOM_NUMBER, CELL_ATOM_BOOL, CELL_ATOM_STRING, CELL_ATOM_NIL, CELL_ERROR}
    | CSized _ t _ \<Rightarrow> t \<in> {CELL_SORTED_MAP, CELL_TRIE}
    | _ \<Rightarrow> True)"

lemma any_function_matches: "cell_is_lambda v \<Longrightarrow> value_matches_type v (Some (any_function n)) = Some True"
  by (cases n) simp_all

lemma infer_atom_matches:
  assumes "honest v"
  shows "value_matches_type v (Some (infer_atom v)) = Some True"
proof (cases "cell_is_lambda v")
  case True
  then show ?thesis by (simp add: infer_atom_def cell_is_lambda_def any_function_matches)
next
  case False
  have "value_matches_type v (Some (case cell_struct_type_tag v of
      Some tag \<Rightarrow> type_fields1 '':struct'' '':tag'' tag | None \<Rightarrow> make_type_struct '':struct'' cell_nil)) = Some True"
    by (cases "cell_struct_type_tag v") simp_all
  with False assms show ?thesis
    by (cases v) (auto simp: infer_atom_def cell_is_lambda_def honest_def split: CellType.splits)
qed

subsection \<open>Properties\<close>

text \<open>
  C20. On the type cells that the constructors build, the equality primitive decides equality of
  types. For a type that is not a union the subtype primitive decides the relation \<open>is_sub\<close>. For a
  union it departs from that relation, and from SPEC.md and the tests, where a type is a subtype of
  itself: the code never takes the union on the left apart, and compares it with each member on
  the right, so that it answers yes exactly when one of these is \<open>any\<close>. Every answer yes is right,
  and a union without \<open>any\<close> is not found to be a subtype of itself.
\<close>

theorem type_relations_decided:
  assumes "wf_ty a" "wf_ty b"
  shows "prim_type_equal (tm_list [type_cell a, type_cell b]) = Some (cell_bool (a = b)) \<and>
    prim_type_subtype (tm_list [type_cell a, type_cell b]) =
      Some (cell_bool (if is_union a then TBasic '':any'' \<in> members b else is_sub a b)) \<and>
    (TBasic '':any'' \<in> members b \<longrightarrow> is_sub a b) \<and>
    (is_union a \<and> TBasic '':any'' \<notin> members a \<longrightarrow>
      is_sub a a \<and> prim_type_subtype (tm_list [type_cell a, type_cell a]) = Some (cell_bool False))"
proof -
  have any: "is_sub c b" if "TBasic '':any'' \<in> members b" for c
    using that by (induction b) (auto intro: is_sub.intros)
  have sub: "prim_type_subtype (tm_list [type_cell a, type_cell c]) = Some (cell_bool (subty a c))" if "wf_ty c" for c
    using is_subtype_cells [OF assms(1) that] by (simp add: prim_type_subtype_def)
  show ?thesis
    using types_equal_cells [OF assms] any [of a] sub [OF assms(1)] sub [OF assms(2)]
      subty_single [of a b] subty_union [of a b] subty_union [of a a]
    by (auto simp: prim_type_equal_def is_sub_refl)
qed

theorem type_relations_decided_witness:
  "(let i = TBasic '':int''; u = TUnion (TBasic '':nil'') (TBasic '':int'')
    in prim_type_subtype (tm_list [type_cell i, type_cell u]) = Some (cell_bool True) \<and>
      prim_type_subtype (tm_list [type_cell u, type_cell (TBasic '':any'')]) = Some (cell_bool True) \<and>
      is_sub u u \<and> prim_type_subtype (tm_list [type_cell u, type_cell u]) = Some (cell_bool False))"
proof -
  have wf: "wf_ty (TBasic '':int'')" "wf_ty (TUnion (TBasic '':nil'') (TBasic '':int''))" "wf_ty (TBasic '':any'')"
    by (simp_all add: basic_kinds_def)
  have "is_sub (TBasic '':int'') (TUnion (TBasic '':nil'') (TBasic '':int''))"
    by (intro is_sub_right is_sub_refl)
  then show ?thesis
    using type_relations_decided [OF wf(1,2)] type_relations_decided [OF wf(2,3)] by (simp add: Let_def)
qed

text \<open>
  Subtyping is not reflexive: a union of two different basic types is not a subtype of itself,
  although it is equal to itself. And a native integer is rejected by an assertion of the integer
  type, since the detection of types does not know native integers.
\<close>

theorem subtype_gaps:
  "(let u = type_cell (TUnion (TBasic '':int'') (TBasic '':nil''))
    in prim_type_equal (tm_list [u, u]) = Some (cell_bool True) \<and>
      prim_type_subtype (tm_list [u, u]) = Some (cell_bool False)) \<and>
    prim_type_assert (tm_list [cell_integer n, make_type_struct '':int'' cell_nil]) =
      Some (cell_error '':type-error'' (Some (cell_integer n))) \<and>
    prim_type_assert (tm_list [cell_number d, make_type_struct '':int'' cell_nil]) = Some (cell_number d)"
proof (intro conjI)
  have wf: "wf_ty (TUnion (TBasic '':int'') (TBasic '':nil''))" by (simp add: basic_kinds_def)
  note eq = types_equal_cells [OF wf wf] and sub = is_subtype_cells [OF wf wf]
  show "let u = type_cell (TUnion (TBasic '':int'') (TBasic '':nil''))
    in prim_type_equal (tm_list [u, u]) = Some (cell_bool True) \<and>
      prim_type_subtype (tm_list [u, u]) = Some (cell_bool False)"
    unfolding Let_def prim_type_equal_def prim_type_subtype_def using eq sub by simp
  have int: "wf_ty (TBasic '':int'')" by (simp add: basic_kinds_def)
  have "is_subtype (Some (cell_symbol '':unknown'')) (Some (make_type_struct '':int'' cell_nil)) = Some False"
  proof -
    have "\<not> tm_equal (cell_symbol '':unknown'') (make_type_struct '':int'' cell_nil)"
      by (simp add: cell_symbol_def make_type_struct_def cell_struct_def tm_equal_def cell_equal.simps)
    then have "null_equal (Some (cell_symbol '':unknown'')) (Some (make_type_struct '':int'' cell_nil)) = False"
      by (simp add: null_equal_def)
    moreover have "is_type_struct (Some (cell_symbol '':unknown'')) = False" by (simp add: cell_symbol_def)
    ultimately show ?thesis by (subst is_subtype.simps) simp
  qed
  then show "prim_type_assert (tm_list [cell_integer n, make_type_struct '':int'' cell_nil]) =
      Some (cell_error '':type-error'' (Some (cell_integer n)))"
    by (simp add: prim_type_assert_def prim_typeof_def shallow_type_def prim_type_subtype_def cell_integer_def cell_bool_def)
  have "is_subtype (Some (make_type_struct '':int'' cell_nil)) (Some (make_type_struct '':int'' cell_nil)) = Some True"
    using is_subtype_cells [OF int int] by simp
  then show "prim_type_assert (tm_list [cell_number d, make_type_struct '':int'' cell_nil]) = Some (cell_number d)"
    by (simp add: prim_type_assert_def prim_typeof_def shallow_type_def prim_type_subtype_def cell_number_def cell_bool_def)
qed

text \<open>
  C19. Inference is sound: it returns for every value whose structures are tagged with symbols, the
  value matches the inferred type, and for a proper list the inferred element type is above the
  type of every element.
\<close>

theorem inference_sound:
  assumes "symbol_tags v" "honest v"
  shows "\<exists>t. prim_type_infer (tm_list [v]) = Some t \<and> value_matches_type v (Some t) = Some True \<and>
    (cell_is_pair v \<and> is_proper_list v \<longrightarrow>
      (\<exists>e. t = type_fields1 '':list'' '':element'' e \<and>
        (\<forall>x \<in> set (list_elems v). \<exists>tx. infer_value_type x = Some tx \<and> is_subtype (Some tx) (Some e) = Some True)))"
proof (cases "cell_is_pair v")
  case False
  then have "infer_value_type v = Some (infer_atom v)"
    by (subst infer_value_type.simps) (cases v; simp)
  with False infer_atom_matches [OF assms(2)] show ?thesis by (simp add: prim_type_infer_def)
next
  case pair: True
  show ?thesis
  proof (cases "is_proper_list v")
    case True
    from infer_cells(2) [OF assms(1)] pair obtain t where t: "infer_list_element_type v = Some (type_cell t)" "wf_ty t"
      "\<forall>x \<in> set (list_elems v). \<exists>tx. infer_value_type x = Some (type_cell tx) \<and> wf_ty tx \<and> subty tx t" by blast
    have "infer_value_type v = Some (type_fields1 '':list'' '':element'' (type_cell t))"
      using pair True t(1) by (subst infer_value_type.simps) (cases v; simp)
    moreover have "\<exists>ty. infer_value_type x = Some ty \<and> is_subtype (Some ty) (Some (type_cell t)) = Some True"
      if "x \<in> set (list_elems v)" for x
      using t(2,3) that by (metis is_subtype_cells)
    ultimately show ?thesis using pair by (auto simp: prim_type_infer_def)
  next
    case False
    from pair obtain p a d where v: "v = CPair p a d" by (cases v) auto
    with assms(1) obtain t u where "infer_value_type a = Some (type_cell t)" "infer_value_type d = Some (type_cell u)"
      using infer_cells(1) by (metis symbol_tags.simps(1))
    then have "infer_value_type v = Some (type_fields2 '':pair-type'' '':car'' (type_cell t) '':cdr'' (type_cell u))"
      using v False by (subst infer_value_type.simps) simp
    with False show ?thesis by (simp add: prim_type_infer_def)
  qed
qed

theorem inference_sound_witness:
  "\<exists>t. prim_type_infer (tm_list [tm_list [cell_number 0, cell_bool True]]) = Some t \<and>
    value_matches_type (tm_list [cell_number 0, cell_bool True]) (Some t) = Some True"
proof -
  have "symbol_tags (tm_list [cell_number 0, cell_bool True])" "honest (tm_list [cell_number 0, cell_bool True])"
    by (simp_all add: cell_cons_def cell_nil_def cell_number_def cell_bool_def honest_def)
  from inference_sound [OF this] show ?thesis by blast
qed

text \<open>
  What was declared last is what a query returns, whatever was declared before for the same or
  another name; other names keep their annotation.
\<close>

theorem declare_query:
  "\<exists>reg'. prim_type_declare (tm_list [cell_symbol x, t]) (Some (tm_list (map (\<lambda>(n, u). cell_cons (cell_symbol n) u) anns))) =
      Some (t, reg') \<and>
    prim_type_query (tm_list [cell_symbol y]) reg' =
      Some (if y = x then t else case map_of anns y of Some u \<Rightarrow> u | None \<Rightarrow> cell_nil)"
proof -
  have loop: "query_loop (tm_list (map (\<lambda>(n, u). cell_cons (cell_symbol n) u) anns)) (cell_symbol z) = Some (map_of anns z)" for z
    by (induction anns) (auto simp: cell_cons_def cell_nil_def cell_symbol_def)
  have cons: "query_loop (cell_cons (cell_cons (cell_symbol x) t) regs) (cell_symbol y) =
      (if y = x then Some (Some t) else query_loop regs (cell_symbol y))" for regs
    by (auto simp: cell_cons_def cell_symbol_def)
  have sym: "cell_is_symbol (cell_symbol z)" for z by (simp add: cell_symbol_def)
  show ?thesis
    by (simp add: prim_type_declare_def prim_type_query_def nil_if_null_def loop cons sym split: option.splits)
qed

end
