(* ===== verification/PrimStructs.thy ===== *)
theory PrimStructs
  imports CellOps
begin

section \<open>Structures\<close>

text \<open>
  The type registry of the evaluator (\<open>bootstrap/eval.c\<close>) and the structure primitives of
  \<open>bootstrap/primitives.c\<close>: leaf structures with named fields and node structures with variants.
  The registry is an association list that the primitives take and return. \<open>None\<close> is a failed
  assertion of an accessor.
\<close>

subsection \<open>The type registry\<close>

text \<open>Registering a known tag rebuilds the list, in reverse and without the old entry.\<close>

fun eval_lookup_type :: "tm \<Rightarrow> tm \<Rightarrow> tm option" where
  "eval_lookup_type (CPair _ (CPair _ tag schema) rest) type_tag =
     (if tm_equal tag type_tag then Some schema else eval_lookup_type rest type_tag)"
| "eval_lookup_type (CPair _ _ rest) type_tag = eval_lookup_type rest type_tag"
| "eval_lookup_type _ type_tag = None"

fun remove_loop :: "tm \<Rightarrow> tm \<Rightarrow> tm \<Rightarrow> tm" where
  "remove_loop (CPair _ (CPair q tag schema) rest) type_tag acc =
     remove_loop rest type_tag (if tm_equal tag type_tag then acc else cell_cons (CPair q tag schema) acc)"
| "remove_loop (CPair _ _ rest) type_tag acc = remove_loop rest type_tag acc"
| "remove_loop _ type_tag acc = acc"

definition eval_register_type :: "tm \<Rightarrow> tm \<Rightarrow> tm \<Rightarrow> tm" where
  "eval_register_type registry type_tag schema =
     (let registry = (if eval_lookup_type registry type_tag \<noteq> None
                      then remove_loop registry type_tag cell_nil else registry)
      in cell_cons (cell_cons type_tag schema) registry)"

definition eval_has_type :: "tm \<Rightarrow> tm \<Rightarrow> bool" where
  "eval_has_type registry type_tag \<longleftrightarrow> eval_lookup_type registry type_tag \<noteq> None"

text \<open>Effects are registered by name in the same way, always rebuilding the list.\<close>

definition eval_register_effect :: "tm \<Rightarrow> string \<Rightarrow> tm \<Rightarrow> tm" where
  "eval_register_effect registry name operations =
     cell_cons (cell_cons (cell_symbol name) operations) (remove_loop registry (cell_symbol name) cell_nil)"

definition eval_lookup_effect :: "tm \<Rightarrow> string \<Rightarrow> tm option" where
  "eval_lookup_effect registry name = eval_lookup_type registry (cell_symbol name)"

definition eval_has_effect :: "tm \<Rightarrow> string \<Rightarrow> bool" where
  "eval_has_effect registry name \<longleftrightarrow> eval_lookup_effect registry name \<noteq> None"

subsection \<open>Leaf structures\<close>

text \<open>
  The symbols of a list, or the first element that is none: the loops of the definition
  primitives, which collect in reverse and reverse at the end.
\<close>

fun collect_symbols :: "tm \<Rightarrow> tm list \<Rightarrow> tm + tm list" where
  "collect_symbols (CPair _ field rest) fields =
     (if cell_is_symbol field then collect_symbols rest (field # fields) else Inl field)"
| "collect_symbols _ fields = Inr (rev fields)"

definition prim_struct_define_leaf :: "tm \<Rightarrow> tm \<Rightarrow> tm \<times> tm" where
  "prim_struct_define_leaf args registry =
     (case args of
        CPair _ type_tag rest \<Rightarrow>
          if \<not> cell_is_symbol type_tag then
            (cell_error ''struct-define type tag must be a symbol'' (Some type_tag), registry)
          else (case collect_symbols rest [] of
              Inl field \<Rightarrow> (cell_error ''struct-define field names must be symbols'' (Some field), registry)
            | Inr fields \<Rightarrow>
                (type_tag, eval_register_type registry type_tag (cell_cons (cell_symbol '':leaf'') (tm_list fields))))
      | _ \<Rightarrow> (cell_error ''struct-define requires at least a type tag'' (Some cell_nil), registry))"

text \<open>
  Pairing names with values as long as both last, in reverse order; the rests tell whether there
  were too few or too many values.
\<close>

fun pair_loop :: "tm \<Rightarrow> tm \<Rightarrow> tm list \<Rightarrow> tm list \<times> tm \<times> tm" where
  "pair_loop (CPair _ name names) (CPair _ v rest) acc = pair_loop names rest (cell_cons name v # acc)"
| "pair_loop names rest acc = (acc, names, rest)"

definition build_fields :: "string \<Rightarrow> string \<Rightarrow> tm \<Rightarrow> tm \<Rightarrow> tm \<Rightarrow> tm + tm" where
  "build_fields few many type_tag names rest =
     (let (field_pairs, names, rest) = pair_loop names rest []
      in if cell_is_pair names then Inl (cell_error few (Some type_tag))
         else if cell_is_pair rest then Inl (cell_error many (Some type_tag))
         else Inr (tm_list (rev field_pairs)))"

definition prim_struct_create :: "tm \<Rightarrow> tm \<Rightarrow> tm option" where
  "prim_struct_create args registry =
     (case args of
        CPair _ type_tag rest \<Rightarrow>
          if \<not> cell_is_symbol type_tag then
            Some (cell_error ''struct-create type tag must be a symbol'' (Some type_tag))
          else (case eval_lookup_type registry type_tag of
              None \<Rightarrow> Some (cell_error ''struct-create undefined type'' (Some type_tag))
            | Some schema \<Rightarrow>
                if \<not> cell_is_pair schema then Some (cell_error ''struct-create invalid schema'' (Some type_tag))
                else do {
                  field_names \<leftarrow> cell_cdr schema;
                  Some (case build_fields ''struct-create not enough field values'' ''struct-create too many field values''
                          type_tag field_names rest of
                      Inl e \<Rightarrow> e
                    | Inr fields \<Rightarrow> cell_struct STRUCT_LEAF (Some type_tag) None (Some fields))
                })
      | _ \<Rightarrow> Some (cell_error ''struct-create requires type tag'' (Some cell_nil)))"

definition prim_struct_get_field :: "tm \<Rightarrow> tm option" where
  "prim_struct_get_field args =
     (case args of
        CPair _ structure rest \<Rightarrow>
          if \<not> cell_is_struct structure then
            Some (cell_error ''struct-get first arg must be struct'' (Some structure))
          else (case rest of
              CPair _ field_name _ \<Rightarrow>
                if \<not> cell_is_symbol field_name then
                  Some (cell_error ''struct-get field name must be symbol'' (Some field_name))
                else do {
                  v \<leftarrow> cell_struct_get_field structure field_name;
                  Some (case v of None \<Rightarrow> cell_error ''struct-get field not found'' (Some field_name) | Some v \<Rightarrow> v)
                }
            | _ \<Rightarrow> Some (cell_error ''struct-get requires field name'' (Some cell_nil)))
      | _ \<Rightarrow> Some (cell_error ''struct-get requires struct and field name'' (Some cell_nil)))"

text \<open>The copy of the fields with every occurrence replaced, and whether there was one.\<close>

fun update_loop :: "tm \<Rightarrow> tm \<Rightarrow> tm \<Rightarrow> tm list \<Rightarrow> bool \<Rightarrow> (tm list \<times> bool) option" where
  "update_loop (CPair _ (CPair p name v) flds) field_name new_value new_fields found =
     (if tm_equal name field_name
      then update_loop flds field_name new_value (cell_cons name new_value # new_fields) True
      else update_loop flds field_name new_value (CPair p name v # new_fields) found)"
| "update_loop (CPair _ _ flds) field_name new_value new_fields found = None"
| "update_loop _ field_name new_value new_fields found = Some (new_fields, found)"

definition prim_struct_update_field :: "tm \<Rightarrow> tm option" where
  "prim_struct_update_field args =
     (case args of
        CPair _ structure rest \<Rightarrow>
          if \<not> cell_is_struct structure then
            Some (cell_error ''struct-set first arg must be struct'' (Some structure))
          else (case rest of
              CPair _ field_name rest2 \<Rightarrow>
                if \<not> cell_is_symbol field_name then
                  Some (cell_error ''struct-set field name must be symbol'' (Some field_name))
                else (case rest2 of
                    CPair _ new_value _ \<Rightarrow> do {
                      (new_fields, found) \<leftarrow>
                        update_loop (nil_if_null (cell_struct_fields structure)) field_name new_value [] False;
                      if \<not> found then Some (cell_error ''struct-set field not found'' (Some field_name))
                      else Some (cell_struct STRUCT_LEAF (cell_struct_type_tag structure) None (Some (tm_list (rev new_fields))))
                    }
                  | _ \<Rightarrow> Some (cell_error ''struct-set requires new value'' (Some cell_nil)))
            | _ \<Rightarrow> Some (cell_error ''struct-set requires field name and value'' (Some cell_nil)))
      | _ \<Rightarrow> Some (cell_error ''struct-set requires struct, field name, and value'' (Some cell_nil)))"

definition same_tag :: "tm option \<Rightarrow> tm \<Rightarrow> bool" where
  "same_tag a b = (case a of None \<Rightarrow> False | Some a \<Rightarrow> tm_equal a b)"

definition prim_struct_type_check :: "tm \<Rightarrow> tm option" where
  "prim_struct_type_check args =
     (case args of
        CPair _ v rest \<Rightarrow>
          if \<not> cell_is_struct v then Some (cell_bool False)
          else (case rest of
              CPair _ expected_type _ \<Rightarrow>
                if \<not> cell_is_symbol expected_type then
                  Some (cell_error ''struct? type tag must be symbol'' (Some expected_type))
                else Some (cell_bool (same_tag (cell_struct_type_tag v) expected_type))
            | _ \<Rightarrow> Some (cell_bool False))
      | _ \<Rightarrow> Some (cell_bool False))"

subsection \<open>Node structures\<close>

text \<open>The schemas of the variants: each a pair of its tag and its fields.\<close>

fun collect_variants :: "tm \<Rightarrow> tm list \<Rightarrow> tm + tm list" where
  "collect_variants (CPair _ variant_def rest) variants =
     (case variant_def of
        CPair _ variant_tag field_rest \<Rightarrow>
          if \<not> cell_is_symbol variant_tag then
            Inl (cell_error ''adt-define variant tag must be a symbol'' (Some variant_tag))
          else (case collect_symbols field_rest [] of
              Inl field \<Rightarrow> Inl (cell_error ''adt-define field names must be symbols'' (Some field))
            | Inr fields \<Rightarrow> collect_variants rest (cell_cons variant_tag (tm_list fields) # variants))
      | _ \<Rightarrow> Inl (cell_error ''adt-define each variant must be a list'' (Some variant_def)))"
| "collect_variants _ variants = Inr (rev variants)"

definition prim_struct_define_node :: "tm \<Rightarrow> tm \<Rightarrow> tm \<times> tm" where
  "prim_struct_define_node args registry =
     (case args of
        CPair _ type_tag rest \<Rightarrow>
          if \<not> cell_is_symbol type_tag then
            (cell_error ''adt-define type tag must be a symbol'' (Some type_tag), registry)
          else (case collect_variants rest [] of
              Inl e \<Rightarrow> (e, registry)
            | Inr variants \<Rightarrow>
                if variants = [] then (cell_error ''adt-define requires at least one variant'' (Some type_tag), registry)
                else (type_tag, eval_register_type registry type_tag (cell_cons (cell_symbol '':node'') (tm_list variants))))
      | _ \<Rightarrow> (cell_error ''adt-define requires at least a type tag'' (Some cell_nil), registry))"

fun find_variant :: "tm \<Rightarrow> tm \<Rightarrow> tm option" where
  "find_variant (CPair _ (CPair p vtag fields) rest) variant_tag =
     (if tm_equal vtag variant_tag then Some (CPair p vtag fields) else find_variant rest variant_tag)"
| "find_variant (CPair _ _ rest) variant_tag = find_variant rest variant_tag"
| "find_variant _ variant_tag = None"

definition prim_struct_create_node :: "tm \<Rightarrow> tm \<Rightarrow> tm option" where
  "prim_struct_create_node args registry =
     (case args of
        CPair _ type_tag rest \<Rightarrow>
          if \<not> cell_is_symbol type_tag then
            Some (cell_error ''adt-create type tag must be a symbol'' (Some type_tag))
          else (case rest of
              CPair _ variant_tag vals \<Rightarrow>
                if \<not> cell_is_symbol variant_tag then
                  Some (cell_error ''adt-create variant tag must be a symbol'' (Some variant_tag))
                else (case eval_lookup_type registry type_tag of
                    None \<Rightarrow> Some (cell_error ''adt-create undefined type'' (Some type_tag))
                  | Some schema \<Rightarrow>
                      if \<not> cell_is_pair schema then Some (cell_error ''adt-create invalid schema'' (Some type_tag))
                      else do {
                        variants \<leftarrow> cell_cdr schema;
                        case find_variant variants variant_tag of
                          None \<Rightarrow> Some (cell_error ''adt-create unknown variant'' (Some variant_tag))
                        | Some variant_schema \<Rightarrow> do {
                            field_names \<leftarrow> cell_cdr variant_schema;
                            Some (case build_fields ''adt-create not enough field values''
                                    ''adt-create too many field values'' type_tag field_names vals of
                                Inl e \<Rightarrow> e
                              | Inr fields \<Rightarrow> cell_struct STRUCT_NODE (Some type_tag) (Some variant_tag) (Some fields))
                          }
                      })
            | _ \<Rightarrow> Some (cell_error ''adt-create requires variant tag'' (Some type_tag)))
      | _ \<Rightarrow> Some (cell_error ''adt-create requires type tag'' (Some cell_nil)))"

definition prim_struct_get_node :: "tm \<Rightarrow> tm option" where
  "prim_struct_get_node args = do {
     st \<leftarrow> arg1 args;
     field_name \<leftarrow> arg2 args;
     if \<not> cell_is_struct st then Some (cell_error ''adt-get first arg must be struct'' (Some st))
     else if cell_struct_kind st \<noteq> Some STRUCT_NODE then Some (cell_error ''adt-get requires node structure'' (Some st))
     else if \<not> cell_is_symbol field_name then
       Some (cell_error ''adt-get field name must be symbol'' (Some field_name))
     else do {
       v \<leftarrow> cell_struct_get_field st field_name;
       Some (case v of None \<Rightarrow> cell_error ''adt-get field not found'' (Some field_name) | Some v \<Rightarrow> v)
     }
   }"

definition prim_struct_is_node :: "tm \<Rightarrow> tm option" where
  "prim_struct_is_node args = do {
     v \<leftarrow> arg1 args;
     expected_type \<leftarrow> arg2 args;
     expected_variant \<leftarrow> arg3 args;
     Some (cell_bool (cell_is_struct v \<and> cell_struct_kind v = Some STRUCT_NODE \<and>
       same_tag (cell_struct_type_tag v) expected_type \<and> same_tag (cell_struct_variant v) expected_variant))
   }"

subsection \<open>The registry is a map\<close>

text \<open>A registry whose entries are pairs of a symbol and a schema.\<close>

definition registry_of :: "(string \<times> tm) list \<Rightarrow> tm" where
  "registry_of es = tm_list (map (\<lambda>(n, s). cell_cons (cell_symbol n) s) es)"

lemma lookup_type_cons [simp]:
  "eval_lookup_type (cell_cons (cell_cons (cell_symbol n) s) r) (cell_symbol m) =
    (if n = m then Some s else eval_lookup_type r (cell_symbol m))"
  by (simp add: cell_cons_def cell_symbol_def)

lemma lookup_type_nil [simp]: "eval_lookup_type cell_nil t = None"
  by (simp add: cell_nil_def)

lemma lookup_registry [simp]: "eval_lookup_type (registry_of es) (cell_symbol n) = map_of es n"
  by (induction es) (auto simp: registry_of_def)

lemma remove_loop_registry:
  "remove_loop (registry_of es) (cell_symbol n) (registry_of acc) = registry_of (rev (filter (\<lambda>e. fst e \<noteq> n) es) @ acc)"
proof (induction es arbitrary: acc)
  case Nil
  show ?case by (simp add: registry_of_def cell_nil_def)
next
  case (Cons e es)
  obtain m s where e: "e = (m, s)" by (cases e)
  have "remove_loop (registry_of (e # es)) (cell_symbol n) (registry_of acc) =
      remove_loop (registry_of es) (cell_symbol n) (if m = n then registry_of acc else registry_of (e # acc))"
    by (simp add: registry_of_def e cell_cons_def cell_symbol_def)
  then show ?case using Cons [of acc] Cons [of "e # acc"] e by simp
qed

lemma map_of_filter_neq: "m \<noteq> n \<Longrightarrow> map_of (filter (\<lambda>e. fst e \<noteq> n) es) m = map_of es m"
  by (induction es) auto

lemma map_of_rev_distinct: "distinct (map fst es) \<Longrightarrow> map_of (rev es) = map_of es"
proof
  fix k
  assume d: "distinct (map fst es)"
  then have "distinct (map fst (rev es))" by (simp add: rev_map [symmetric])
  with d have "map_of (rev es) k = Some v \<longleftrightarrow> map_of es k = Some v" for v by simp
  then show "map_of (rev es) k = map_of es k" by (metis not_Some_eq)
qed

lemma register_registry:
  assumes "distinct (map fst es)"
  shows "\<exists>es'. eval_register_type (registry_of es) (cell_symbol n) s = registry_of es' \<and> distinct (map fst es') \<and>
    map_of es' = (map_of es)(n \<mapsto> s)"
proof (cases "map_of es n")
  case None
  then have "eval_register_type (registry_of es) (cell_symbol n) s = registry_of ((n, s) # es)"
    by (simp add: eval_register_type_def) (simp add: registry_of_def)
  moreover have "n \<notin> fst ` set es" using None by (simp add: map_of_eq_None_iff)
  ultimately show ?thesis using assms by (intro exI [of _ "(n, s) # es"]) auto
next
  case (Some old)
  let ?es = "rev (filter (\<lambda>e. fst e \<noteq> n) es)"
  have "eval_register_type (registry_of es) (cell_symbol n) s = registry_of ((n, s) # ?es)"
    using Some remove_loop_registry [of es n "[]"] by (simp add: eval_register_type_def) (simp add: registry_of_def)
  moreover have d: "distinct (map fst (filter (\<lambda>e. fst e \<noteq> n) es))" using assms by (simp add: distinct_map_filter)
  moreover have "distinct (map fst ((n, s) # ?es))" using d by (auto simp: rev_map [symmetric])
  moreover have "map_of ((n, s) # ?es) = (map_of es)(n \<mapsto> s)"
    unfolding map_of.simps map_of_rev_distinct [OF d] by (auto simp: map_of_filter_neq fun_upd_def)
  ultimately show ?thesis by blast
qed

subsection \<open>Fields\<close>

definition fields_of :: "(string \<times> tm) list \<Rightarrow> tm" where
  "fields_of fs = tm_list (map (\<lambda>(n, v). cell_cons (cell_symbol n) v) fs)"

definition leaf_of :: "string \<Rightarrow> (string \<times> tm) list \<Rightarrow> tm" where
  "leaf_of t fs = cell_struct STRUCT_LEAF (Some (cell_symbol t)) None (Some (fields_of fs))"

lemma collect_symbols_list: "collect_symbols (tm_list (map cell_symbol ns)) acc = Inr (rev acc @ map cell_symbol ns)"
  by (induction ns arbitrary: acc) (auto simp: cell_cons_def cell_nil_def cell_symbol_def)

lemma pair_loop_lists:
  "pair_loop (tm_list (map cell_symbol ns)) (tm_list vs) acc =
    (rev (map (\<lambda>(n, v). cell_cons (cell_symbol n) v) (zip ns vs)) @ acc,
     tm_list (map cell_symbol (drop (length vs) ns)), tm_list (drop (length ns) vs))"
proof (induction ns arbitrary: vs acc)
  case Nil
  show ?case by (simp add: cell_nil_def)
next
  case (Cons n ns)
  then show ?case by (cases vs) (simp_all add: cell_cons_def cell_nil_def)
qed

lemma pair_tm_list: "cell_is_pair (tm_list xs) \<longleftrightarrow> xs \<noteq> []"
  by (cases xs) (simp_all add: cell_cons_def cell_nil_def)

lemma build_fields_lists:
  "build_fields few many t (tm_list (map cell_symbol ns)) (tm_list vs) =
    (if length vs < length ns then Inl (cell_error few (Some t))
     else if length ns < length vs then Inl (cell_error many (Some t))
     else Inr (fields_of (zip ns vs)))"
  by (simp add: build_fields_def pair_loop_lists pair_tm_list fields_of_def rev_map)

lemma field_loop_fields: "struct_field_loop (fields_of fs) (cell_symbol n) = Some (map_of fs n)"
  by (induction fs) (auto simp: fields_of_def cell_nil_def cell_cons_def cell_symbol_def)

lemma get_field_leaf:
  "prim_struct_get_field (tm_list [leaf_of t fs, cell_symbol n]) =
    Some (case map_of fs n of Some v \<Rightarrow> v | None \<Rightarrow> cell_error ''struct-get field not found'' (Some (cell_symbol n)))"
  using field_loop_fields [of fs n]
  by (simp add: prim_struct_get_field_def cell_cons_def leaf_of_def cell_struct_def cell_symbol_def cell_struct_get_field_def
      split: option.split)

lemma update_loop_fields:
  "update_loop (fields_of fs) (cell_symbol n) v acc found =
    Some (rev (map (\<lambda>(m, u). cell_cons (cell_symbol m) (if m = n then v else u)) fs) @ acc, found \<or> n \<in> fst ` set fs)"
proof (induction fs arbitrary: acc found)
  case Nil
  show ?case by (simp add: fields_of_def cell_nil_def)
next
  case (Cons f fs)
  obtain m u where f: "f = (m, u)" by (cases f)
  have "update_loop (fields_of (f # fs)) (cell_symbol n) v acc found =
      update_loop (fields_of fs) (cell_symbol n) v (cell_cons (cell_symbol m) (if m = n then v else u) # acc) (found \<or> m = n)"
    by (simp add: fields_of_def f cell_cons_def cell_symbol_def)
  with Cons f show ?case by auto
qed

lemma update_field_leaf:
  assumes "n \<in> fst ` set fs"
  shows "prim_struct_update_field (tm_list [leaf_of t fs, cell_symbol n, v]) =
    Some (leaf_of t (map (\<lambda>(m, u). (m, if m = n then v else u)) fs))"
  using update_loop_fields [of fs n v "[]" False] assms
  by (simp add: prim_struct_update_field_def cell_cons_def leaf_of_def cell_struct_def cell_symbol_def nil_if_null_def
      fields_of_def comp_def case_prod_beta')

lemma map_of_update: "map_of (map (\<lambda>(m, u). (m, if m = n then v else u)) fs) j =
    (if j = n then map_option (\<lambda>_. v) (map_of fs n) else map_of fs j)"
  by (induction fs) auto

subsection \<open>Properties\<close>

text \<open>
  The registry is a map with at most one entry for a tag: registering keeps the tags distinct
  and binds the tag to the new schema, without a change for other tags, also when the rebuilding of
  the list reverses it.
\<close>

theorem registry_is_map:
  assumes "distinct (map fst es)"
  shows "\<exists>es'. eval_register_type (registry_of es) (cell_symbol n) s = registry_of es' \<and> distinct (map fst es') \<and>
    eval_lookup_type (registry_of es') (cell_symbol m) = (if m = n then Some s else eval_lookup_type (registry_of es) (cell_symbol m))"
  using register_registry [OF assms, of n s] by (auto split: if_splits)

theorem registry_is_map_witness:
  "\<exists>es'. eval_register_type (registry_of [(''A'', cell_nil), (''B'', cell_nil)]) (cell_symbol ''A'') (cell_bool True) = registry_of es' \<and>
    eval_lookup_type (registry_of es') (cell_symbol ''B'') = Some cell_nil"
proof -
  have "distinct (map fst [(''A'', cell_nil), (''B'', cell_nil)])" by simp
  from registry_is_map [OF this, of "''A''" "cell_bool True" "''B''"] show ?thesis by auto
qed

definition leaf_registry :: "(string \<times> tm) list \<Rightarrow> string \<Rightarrow> string list \<Rightarrow> tm" where
  "leaf_registry es t fs = snd (prim_struct_define_leaf (tm_list (cell_symbol t # map cell_symbol fs)) (registry_of es))"

text \<open>
  C21. Structures behave as records: after a definition, creating with as many values as fields
  succeeds and with any other number fails with the error that says which, each field reads back
  its value, and an update changes its field and no other.
\<close>

theorem struct_record:
  assumes "distinct (map fst es)" "distinct fs"
  shows "prim_struct_create (tm_list (cell_symbol t # vs)) (leaf_registry es t fs) =
      Some (if length vs < length fs then cell_error ''struct-create not enough field values'' (Some (cell_symbol t))
            else if length fs < length vs then cell_error ''struct-create too many field values'' (Some (cell_symbol t))
            else leaf_of t (zip fs vs)) \<and>
    (length vs = length fs \<and> i < length fs \<and> j < length fs \<longrightarrow>
      prim_struct_get_field (tm_list [leaf_of t (zip fs vs), cell_symbol (fs ! i)]) = Some (vs ! i) \<and>
      (\<exists>s. prim_struct_update_field (tm_list [leaf_of t (zip fs vs), cell_symbol (fs ! i), v]) = Some s \<and>
        prim_struct_get_field (tm_list [s, cell_symbol (fs ! j)]) = Some (if j = i then v else vs ! j)))"
proof
  let ?schema = "cell_cons (cell_symbol '':leaf'') (tm_list (map cell_symbol fs))"
  let ?reg = "leaf_registry es t fs"
  have reg: "?reg = eval_register_type (registry_of es) (cell_symbol t) ?schema"
    using collect_symbols_list [of fs "[]"] unfolding leaf_registry_def prim_struct_define_leaf_def
    by (simp add: cell_cons_def cell_symbol_def)
  from register_registry [OF assms(1), of t ?schema] obtain es' where "?reg = registry_of es'" "map_of es' t = Some ?schema"
    unfolding reg by auto
  then have look: "eval_lookup_type ?reg (CSymbol () t) = Some (CPair () (cell_symbol '':leaf'') (tm_list (map cell_symbol fs)))"
    using lookup_registry [of es' t] by (simp add: cell_symbol_def cell_cons_def)
  show "prim_struct_create (tm_list (cell_symbol t # vs)) ?reg =
      Some (if length vs < length fs then cell_error ''struct-create not enough field values'' (Some (cell_symbol t))
            else if length fs < length vs then cell_error ''struct-create too many field values'' (Some (cell_symbol t))
            else leaf_of t (zip fs vs))"
    unfolding prim_struct_create_def
    by (simp add: cell_cons_def cell_symbol_def [of t] look build_fields_lists leaf_of_def)
  show "length vs = length fs \<and> i < length fs \<and> j < length fs \<longrightarrow>
      prim_struct_get_field (tm_list [leaf_of t (zip fs vs), cell_symbol (fs ! i)]) = Some (vs ! i) \<and>
      (\<exists>s. prim_struct_update_field (tm_list [leaf_of t (zip fs vs), cell_symbol (fs ! i), v]) = Some s \<and>
        prim_struct_get_field (tm_list [s, cell_symbol (fs ! j)]) = Some (if j = i then v else vs ! j))"
  proof (intro impI conjI, goal_cases)
    case 1
    then have "map_of (zip fs vs) (fs ! i) = Some (vs ! i)" using assms(2) by (simp add: map_of_zip_nth)
    then show ?case using get_field_leaf [of t "zip fs vs" "fs ! i"] by simp
  next
    case 2
    then have f: "map_of (zip fs vs) (fs ! k) = Some (vs ! k)" if "k < length fs" for k
      using assms(2) that by (simp add: map_of_zip_nth)
    have "fs ! i \<in> fst ` set (zip fs vs)" using f [of i] 2 by (metis map_of_eq_None_iff option.distinct(1))
    note upd = update_field_leaf [OF this, of t v]
    have "map_of (map (\<lambda>(m, u). (m, if m = fs ! i then v else u)) (zip fs vs)) (fs ! j) = Some (if j = i then v else vs ! j)"
      using f [of i] f [of j] 2 nth_eq_iff_index_eq [OF assms(2), of j i]
      unfolding map_of_update by simp
    then show ?case unfolding upd option.inject ex_simps by (simp only: get_field_leaf simp_thms option.case)
  qed
qed

theorem struct_record_witness:
  "prim_struct_create (tm_list (cell_symbol ''P'' # [cell_nil])) (leaf_registry [] ''P'' [''x'', ''y'']) =
      Some (cell_error ''struct-create not enough field values'' (Some (cell_symbol ''P''))) \<and>
    prim_struct_get_field (tm_list [leaf_of ''P'' (zip [''x'', ''y''] [cell_bool True, cell_nil]), cell_symbol ([''x'', ''y''] ! 0)]) =
      Some (cell_bool True)"
proof -
  have d: "distinct (map fst ([] :: (string \<times> tm) list))" "distinct [''x'', ''y'']" by simp_all
  from struct_record [OF d, of "''P''" "[cell_nil]" 0 0 cell_nil] struct_record [OF d, of "''P''" "[cell_bool True, cell_nil]" 0 0 cell_nil]
  show ?thesis by simp
qed

end
