(* ===== verification/Modules.thy ===== *)
theory Modules
  imports CellOps
begin

section \<open>Modules\<close>

text \<open>
  The module registry of \<open>bootstrap/module.c\<close> and the module primitives of
  \<open>bootstrap/primitives.c\<close>. A string table (\<open>StrTable\<close>) is a map from its keys; its slot order,
  which only the listing of all modules shows, is an argument of that listing. The lists of symbols
  and of dependencies are only built by consing names, so they are lists of strings. A name that
  may be NULL is an option. Changes of the registry and of the bindings of the evaluation context
  are returned. A failed assertion is \<open>None\<close>.
\<close>

type_synonym 'a strtable = "string \<rightharpoonup> 'a"

datatype module_load_state = MODULE_UNLOADED | MODULE_LOADING | MODULE_LOADED

record module_entry =
  mod_name :: string
  symbols :: "string list"
  exports :: "tm option"
  export_set :: "unit strtable option"
  local_env :: "tm strtable option"
  dependencies :: "string list"
  mod_version :: "string option"
  loaded_at :: int
  load_order :: nat
  load_state :: module_load_state
  cached_result :: "tm option"

record module_registry =
  modules :: "module_entry strtable"
  symbol_index :: "string strtable"
  alias_table :: "string strtable"
  module_count :: nat
  load_order_counter :: nat
  current_loading_module :: "string option"

subsection \<open>The registry\<close>

definition module_registry_init :: "module_registry \<Rightarrow> module_registry" where
  "module_registry_init r =
     r\<lparr>modules := Map.empty, symbol_index := Map.empty, alias_table := Map.empty, module_count := 0\<rparr>"

definition get_module :: "module_registry \<Rightarrow> string option \<Rightarrow> module_entry option" where
  "get_module r m = Option.bind m (modules r)"

definition put_module :: "module_registry \<Rightarrow> string option \<Rightarrow> module_entry \<Rightarrow> module_registry" where
  "put_module r m e = (case m of None \<Rightarrow> r | Some n \<Rightarrow> r\<lparr>modules := (modules r)(n \<mapsto> e)\<rparr>)"

definition module_registry_add :: "int \<Rightarrow> string option \<Rightarrow> module_registry \<Rightarrow> module_registry" where
  "module_registry_add now module_name r =
     (case module_name of
        None \<Rightarrow> r
      | Some n \<Rightarrow>
          if modules r n \<noteq> None then r
          else (let entry = \<lparr>mod_name = n, symbols = [], exports = None, export_set = None, local_env = None,
                  dependencies = [], mod_version = None, loaded_at = now, load_order = load_order_counter r + 1,
                  load_state = MODULE_UNLOADED, cached_result = None\<rparr>
                in r\<lparr>load_order_counter := load_order_counter r + 1, modules := (modules r)(n \<mapsto> entry),
                     module_count := module_count r + 1\<rparr>))"

text \<open>A leading colon of a symbol does not count.\<close>

fun normalize :: "string \<Rightarrow> string" where
  "normalize (c # s) = (if c = CHR '':'' then s else c # s)"
| "normalize [] = []"

definition module_registry_add_symbol :: "string option \<Rightarrow> string \<Rightarrow> module_registry \<Rightarrow> module_registry" where
  "module_registry_add_symbol module_name symbol r =
     (case get_module r module_name of
        None \<Rightarrow> r
      | Some entry \<Rightarrow>
          if list_ex (\<lambda>stored. normalize stored = normalize symbol) (symbols entry) then r
          else (put_module r module_name (entry\<lparr>symbols := symbol # symbols entry\<rparr>))
                 \<lparr>symbol_index := (symbol_index r)(normalize symbol \<mapsto> mod_name entry)\<rparr>)"

definition module_registry_list_modules :: "string list \<Rightarrow> module_registry \<Rightarrow> tm" where
  "module_registry_list_modules slot_order r =
     tm_list (rev (map cell_string (filter (\<lambda>n. modules r n \<noteq> None) slot_order)))"

definition module_registry_find_symbol :: "string \<Rightarrow> module_registry \<Rightarrow> string option" where
  "module_registry_find_symbol symbol r = symbol_index r (normalize symbol)"

definition module_registry_list_symbols :: "string option \<Rightarrow> module_registry \<Rightarrow> tm" where
  "module_registry_list_symbols m r =
     (case get_module r m of None \<Rightarrow> cell_nil | Some entry \<Rightarrow> tm_list (map cell_symbol (symbols entry)))"

definition module_registry_has_module :: "string option \<Rightarrow> module_registry \<Rightarrow> bool" where
  "module_registry_has_module m r \<longleftrightarrow> get_module r m \<noteq> None"

definition module_registry_get_entry :: "string option \<Rightarrow> module_registry \<Rightarrow> module_entry option" where
  "module_registry_get_entry m r = get_module r m"

definition module_registry_add_dependency :: "string option \<Rightarrow> string \<Rightarrow> module_registry \<Rightarrow> module_registry" where
  "module_registry_add_dependency module_name dep r =
     (if module_name = Some dep then r
      else case get_module r module_name of
        None \<Rightarrow> r
      | Some entry \<Rightarrow>
          if dep \<in> set (dependencies entry) then r
          else put_module r module_name (entry\<lparr>dependencies := dep # dependencies entry\<rparr>))"

definition deps :: "module_registry \<Rightarrow> string option \<Rightarrow> string list" where
  "deps r m = (case get_module r m of None \<Rightarrow> [] | Some entry \<Rightarrow> dependencies entry)"

definition module_registry_get_dependencies :: "string option \<Rightarrow> module_registry \<Rightarrow> tm" where
  "module_registry_get_dependencies m r = tm_list (map cell_string (deps r m))"

definition module_set_current_loading :: "string option \<Rightarrow> module_registry \<Rightarrow> module_registry" where
  "module_set_current_loading m r = r\<lparr>current_loading_module := m\<rparr>"

definition module_registry_set_version :: "string option \<Rightarrow> string \<Rightarrow> module_registry \<Rightarrow> module_registry" where
  "module_registry_set_version m v r =
     (case get_module r m of None \<Rightarrow> r | Some entry \<Rightarrow> put_module r m (entry\<lparr>mod_version := Some v\<rparr>))"

definition module_registry_get_version :: "string option \<Rightarrow> module_registry \<Rightarrow> string option" where
  "module_registry_get_version m r = Option.bind (get_module r m) mod_version"

text \<open>The exports are any list of cells; only the symbols enter the set.\<close>

fun build_export_set :: "tm \<Rightarrow> unit strtable \<Rightarrow> unit strtable option" where
  "build_export_set (CNil _) t = Some t"
| "build_export_set (CPair _ exp tl_cell) t =
     build_export_set tl_cell (case cell_get_symbol exp of Some s \<Rightarrow> t(normalize s \<mapsto> ()) | None \<Rightarrow> t)"
| "build_export_set _ t = None"

definition module_registry_set_exports :: "string option \<Rightarrow> tm option \<Rightarrow> module_registry \<Rightarrow> module_registry option" where
  "module_registry_set_exports m exps r =
     (case get_module r m of
        None \<Rightarrow> Some r
      | Some entry \<Rightarrow>
          (case exps of
             None \<Rightarrow> Some (put_module r m (entry\<lparr>exports := None, export_set := None\<rparr>))
           | Some l \<Rightarrow> do {
               t \<leftarrow> build_export_set l Map.empty;
               Some (put_module r m (entry\<lparr>exports := Some l, export_set := Some t\<rparr>))
             }))"

definition module_registry_get_exports :: "string option \<Rightarrow> module_registry \<Rightarrow> tm" where
  "module_registry_get_exports m r =
     (case get_module r m of
        None \<Rightarrow> cell_nil
      | Some entry \<Rightarrow> (case exports entry of Some l \<Rightarrow> l | None \<Rightarrow> tm_list (map cell_symbol (symbols entry))))"

definition module_registry_is_exported :: "string option \<Rightarrow> string \<Rightarrow> module_registry \<Rightarrow> bool" where
  "module_registry_is_exported m symbol r =
     (case get_module r m of
        None \<Rightarrow> False
      | Some entry \<Rightarrow> (case export_set entry of None \<Rightarrow> True | Some t \<Rightarrow> t (normalize symbol) \<noteq> None))"

definition module_registry_define :: "string option \<Rightarrow> string \<Rightarrow> tm \<Rightarrow> module_registry \<Rightarrow> module_registry" where
  "module_registry_define m symbol v r =
     (case get_module r m of
        None \<Rightarrow> r
      | Some entry \<Rightarrow>
          (let env = (case local_env entry of None \<Rightarrow> Map.empty | Some t \<Rightarrow> t)
           in put_module r m (entry\<lparr>local_env := Some (env(symbol \<mapsto> v))\<rparr>)))"

definition module_registry_lookup :: "string option \<Rightarrow> string \<Rightarrow> module_registry \<Rightarrow> tm option" where
  "module_registry_lookup m symbol r = do {
     entry \<leftarrow> get_module r m;
     t \<leftarrow> local_env entry;
     t symbol
   }"

definition module_registry_set_alias :: "string \<Rightarrow> string \<Rightarrow> module_registry \<Rightarrow> module_registry" where
  "module_registry_set_alias alias path r = r\<lparr>alias_table := (alias_table r)(alias \<mapsto> path)\<rparr>"

definition module_registry_resolve_alias :: "string \<Rightarrow> module_registry \<Rightarrow> string option" where
  "module_registry_resolve_alias alias r = alias_table r alias"

subsection \<open>Cycle detection\<close>

text \<open>
  \<open>cycles_loop\<close> is the loop of the depth-first search over the dependencies of a module, with the
  recursive call in place; it returns whether a cycle was found, with the lists of visited modules,
  of the modules on the recursion stack and of the cycles.
\<close>

partial_function (option) cycles_loop :: "(string \<Rightarrow> string list) \<Rightarrow> string list \<Rightarrow> string list \<Rightarrow> string list \<Rightarrow>
    string list list \<Rightarrow> (bool \<times> string list \<times> string list \<times> string list list) option" where
  "cycles_loop dep ds visited rec_stack cycles =
     (case ds of
        [] \<Rightarrow> Some (False, visited, rec_stack, cycles)
      | d # ds' \<Rightarrow>
          if d \<in> set rec_stack then Some (True, visited, rec_stack, rev rec_stack # cycles)
          else if d \<in> set visited then cycles_loop dep ds' visited rec_stack cycles
          else do {
            (found, visited, rec_stack, cycles) \<leftarrow> cycles_loop dep (dep d) (d # visited) (d # rec_stack) cycles;
            if found then Some (True, visited, rec_stack, cycles)
            else cycles_loop dep ds' visited (tl rec_stack) cycles
          })"

definition detect_cycles_dfs :: "(string \<Rightarrow> string list) \<Rightarrow> string \<Rightarrow> string list \<Rightarrow> string list \<Rightarrow>
    string list list \<Rightarrow> (bool \<times> string list \<times> string list \<times> string list list) option" where
  "detect_cycles_dfs dep m visited rec_stack cycles = do {
     (found, visited, rec_stack, cycles) \<leftarrow> cycles_loop dep (dep m) (m # visited) (m # rec_stack) cycles;
     Some (found, visited, if found then rec_stack else tl rec_stack, cycles)
   }"

definition module_registry_detect_cycles :: "string \<Rightarrow> module_registry \<Rightarrow> tm option" where
  "module_registry_detect_cycles m r = do {
     (_, _, _, cycles) \<leftarrow> detect_cycles_dfs (\<lambda>n. deps r (Some n)) m [] [] [];
     Some (tm_list (map (\<lambda>c. tm_list (map cell_string c)) cycles))
   }"


subsection \<open>Primitives\<close>

text \<open>
  The order of the slots of the module table is an argument where all modules are listed. A list
  that the caller passes is walked until its end, which must be nil.
\<close>

definition prim_module_info :: "string list \<Rightarrow> tm \<Rightarrow> module_registry \<Rightarrow> tm option" where
  "prim_module_info slot_order args r =
     (if cell_is_nil args then Some (module_registry_list_modules slot_order r)
      else do {
        a \<leftarrow> arg1 args;
        Some (case a of
            CSymbol _ s \<Rightarrow>
              (case module_registry_find_symbol s r of
                 None \<Rightarrow> cell_error ''symbol-not-in-any-module'' (Some a)
               | Some m \<Rightarrow> cell_string m)
          | CString _ m \<Rightarrow> module_registry_list_symbols (Some m) r
          | _ \<Rightarrow> cell_error ''module-info requires nil, symbol, or string'' (Some a))
      })"

fun import_loop :: "tm \<Rightarrow> string list \<Rightarrow> tm option" where
  "import_loop (CNil _) syms = Some (cell_symbol '':ok'')"
| "import_loop (CPair _ requested tl_cell) syms =
     (case cell_get_symbol requested of
        None \<Rightarrow> Some (cell_error ''symbol-list-must-contain-symbols'' (Some requested))
      | Some s \<Rightarrow>
          if list_ex (\<lambda>m. normalize m = normalize s) syms then import_loop tl_cell syms
          else Some (cell_error ''symbol-not-in-module'' (Some requested)))"
| "import_loop _ syms = None"

definition prim_module_import :: "tm \<Rightarrow> module_registry \<Rightarrow> tm option" where
  "prim_module_import args r =
     (if cell_is_nil args then Some (cell_error ''module-import-missing-args'' (Some cell_nil))
      else do {
        path \<leftarrow> arg1 args;
        rest \<leftarrow> cell_cdr args;
        if cell_is_nil rest then Some (cell_error ''module-import-missing-symbols'' (Some path))
        else do {
          syms \<leftarrow> arg1 rest;
          case cell_get_string path of
            None \<Rightarrow> Some (cell_error ''module-path-must-be-string'' (Some path))
          | Some p \<Rightarrow>
              if \<not> cell_is_pair syms \<and> \<not> cell_is_nil syms then
                Some (cell_error ''symbol-list-must-be-list'' (Some syms))
              else (case get_module r (Some p) of
                  None \<Rightarrow> Some (cell_error ''module-not-loaded'' (Some path))
                | Some entry \<Rightarrow> import_loop syms (symbols entry))
        }
      })"

text \<open>The checks that the other module primitives make of their first argument.\<close>

definition with_module :: "string \<Rightarrow> tm \<Rightarrow> module_registry \<Rightarrow> (string \<Rightarrow> (tm \<times> module_registry) option) \<Rightarrow>
    (tm \<times> module_registry) option" where
  "with_module missing args r k =
     (if cell_is_nil args then Some (cell_error missing (Some cell_nil), r)
      else do {
        path \<leftarrow> arg1 args;
        case cell_get_string path of
          None \<Rightarrow> Some (cell_error ''module-path-must-be-string'' (Some path), r)
        | Some p \<Rightarrow>
            if \<not> module_registry_has_module (Some p) r then Some (cell_error ''module-not-loaded'' (Some path), r)
            else k p
      })"

definition prim_module_dependencies :: "tm \<Rightarrow> module_registry \<Rightarrow> (tm \<times> module_registry) option" where
  "prim_module_dependencies args r =
     with_module ''module-deps-missing-args'' args r (\<lambda>p. Some (module_registry_get_dependencies (Some p) r, r))"

definition prim_module_version :: "tm \<Rightarrow> module_registry \<Rightarrow> (tm \<times> module_registry) option" where
  "prim_module_version args r =
     with_module ''module-version-missing-args'' args r (\<lambda>p. do {
       rest \<leftarrow> cell_cdr args;
       if cell_is_nil rest then
         Some (case module_registry_get_version (Some p) r of Some v \<Rightarrow> cell_string v | None \<Rightarrow> cell_nil, r)
       else do {
         v \<leftarrow> arg1 rest;
         case cell_get_string v of
           None \<Rightarrow> Some (cell_error ''version-must-be-string'' (Some v), r)
         | Some s \<Rightarrow> Some (cell_symbol '':ok'', module_registry_set_version (Some p) s r)
       }
     })"

definition prim_module_exports :: "tm \<Rightarrow> module_registry \<Rightarrow> (tm \<times> module_registry) option" where
  "prim_module_exports args r =
     with_module ''module-exports-missing-args'' args r (\<lambda>p. do {
       rest \<leftarrow> cell_cdr args;
       if cell_is_nil rest then Some (module_registry_get_exports (Some p) r, r)
       else do {
         exps \<leftarrow> arg1 rest;
         if \<not> cell_is_pair exps \<and> \<not> cell_is_nil exps then
           Some (cell_error ''exports-must-be-list'' (Some exps), r)
         else do {
           r \<leftarrow> module_registry_set_exports (Some p) (Some exps) r;
           Some (cell_symbol '':ok'', r)
         }
       }
     })"

text \<open>All cycles: the answer of every module with a cycle, for the modules in the order of the listing.\<close>

fun all_cycles_loop :: "string list \<Rightarrow> module_registry \<Rightarrow> tm \<Rightarrow> tm option" where
  "all_cycles_loop [] r all_cycles = Some all_cycles"
| "all_cycles_loop (m # ms) r all_cycles = do {
     cycles \<leftarrow> module_registry_detect_cycles m r;
     all_cycles_loop ms r (if cell_is_nil cycles then all_cycles else cell_cons cycles all_cycles)
   }"

definition prim_module_cycles :: "string list \<Rightarrow> tm \<Rightarrow> module_registry \<Rightarrow> tm option" where
  "prim_module_cycles slot_order args r =
     (if cell_is_nil args then
        all_cycles_loop (rev (filter (\<lambda>n. modules r n \<noteq> None) slot_order)) r cell_nil
      else do {
        path \<leftarrow> arg1 args;
        case cell_get_string path of
          None \<Rightarrow> Some (cell_error ''module-path-must-be-string'' (Some path))
        | Some p \<Rightarrow>
            if \<not> module_registry_has_module (Some p) r then Some (cell_error ''module-not-loaded'' (Some path))
            else module_registry_detect_cycles p r
      })"

fun string_or_symbol :: "tm \<Rightarrow> string option" where
  "string_or_symbol (CString _ s) = Some s"
| "string_or_symbol (CSymbol _ s) = Some s"
| "string_or_symbol _ = None"

definition prim_module_loaded_p :: "tm \<Rightarrow> module_registry \<Rightarrow> tm option" where
  "prim_module_loaded_p args r = do {
     nm \<leftarrow> arg1 args;
     Some (case string_or_symbol nm of
         None \<Rightarrow> cell_error ''module-loaded? requires a string or symbol'' (Some nm)
       | Some m \<Rightarrow> cell_bool (case module_registry_get_entry (Some m) r of
             None \<Rightarrow> False | Some entry \<Rightarrow> load_state entry = MODULE_LOADED))
   }"

text \<open>
  The bindings of the context that \<open>prim_module_define\<close> keeps: every one but those of names that
  the module has bound and does not export. Here the name is compared as it is, with its colon.
\<close>

fun hidden_binding :: "tm strtable \<Rightarrow> unit strtable \<Rightarrow> tm \<Rightarrow> bool" where
  "hidden_binding lenv exps (CPair _ (CSymbol _ var_name) _) \<longleftrightarrow> lenv var_name \<noteq> None \<and> exps var_name = None"
| "hidden_binding lenv exps _ \<longleftrightarrow> False"

definition hide_bindings :: "module_entry option \<Rightarrow> tm \<Rightarrow> tm" where
  "hide_bindings entry env =
     (case entry of
        Some e \<Rightarrow>
          (case (local_env e, export_set e) of
             (Some lenv, Some exps) \<Rightarrow> tm_list (filter (\<lambda>b. \<not> hidden_binding lenv exps b) (list_elems env))
           | _ \<Rightarrow> env)
      | None \<Rightarrow> env)"

definition prim_module_define :: "tm \<Rightarrow> module_registry \<Rightarrow> tm \<Rightarrow> (tm \<times> module_registry \<times> tm) option" where
  "prim_module_define args r env = do {
     nm \<leftarrow> arg1 args;
     export_list \<leftarrow> arg2 args;
     case string_or_symbol nm of
       None \<Rightarrow> Some (cell_error ''module-define requires module name as string or symbol'' (Some nm), r, env)
     | Some n \<Rightarrow> do {
         let target = (case current_loading_module r of Some c \<Rightarrow> Some c | None \<Rightarrow> Some n);
         r \<leftarrow> module_registry_set_exports target (Some export_list) r;
         let env = hide_bindings (module_registry_get_entry target r) env;
         rest \<leftarrow> cell_cdr args;
         rest \<leftarrow> cell_cdr rest;
         let r = (case rest of
             CPair _ (CString _ v) _ \<Rightarrow> module_registry_set_version target v r
           | _ \<Rightarrow> r);
         Some (cell_symbol '':ok'', r, env)
       }
   }"

end
