(* ===== verification/ModuleFacts.thy ===== *)
theory ModuleFacts
  imports Modules
begin

section \<open>Facts on modules\<close>

text \<open>
  The search for cyclic dependencies returns and is right, the bindings of a module stay apart from
  those of the others, and what a module does not export is hidden.
\<close>

subsection \<open>Cycle detection\<close>

definition edges :: "(string \<Rightarrow> string list) \<Rightarrow> (string \<times> string) set" where
  "edges dep = {(a, b). b \<in> set (dep a)}"

lemma closed_reach:
  assumes "(w, v) \<in> (edges dep)\<^sup>*" "w \<in> X" "\<forall>x \<in> X. set (dep x) \<subseteq> X"
  shows "v \<in> X"
  using assms by (induction) (auto simp: edges_def)

lemma closed_no_cycle:
  assumes "set (dep d) \<subseteq> X" "\<forall>x \<in> X. set (dep x) \<subseteq> X" "d \<notin> X"
  shows "(d, d) \<notin> (edges dep)\<^sup>+"
proof
  assume "(d, d) \<in> (edges dep)\<^sup>+"
  then obtain w where "(d, w) \<in> edges dep" "(w, d) \<in> (edges dep)\<^sup>*" by (meson tranclD)
  with closed_reach [of w d dep X] assms show False by (auto simp: edges_def)
qed

text \<open>
  The state of the search: the stack is a path with the newest module first, and the modules that
  are finished (visited and no longer on the stack) depend only on finished ones, without a cycle.
\<close>

fun stack_path :: "(string \<Rightarrow> string list) \<Rightarrow> string list \<Rightarrow> bool" where
  "stack_path dep [] \<longleftrightarrow> False"
| "stack_path dep [a] \<longleftrightarrow> True"
| "stack_path dep (a # b # S) \<longleftrightarrow> (b, a) \<in> edges dep \<and> stack_path dep (b # S)"

definition finished_ok :: "(string \<Rightarrow> string list) \<Rightarrow> string set \<Rightarrow> bool" where
  "finished_ok dep X \<longleftrightarrow> (\<forall>x \<in> X. set (dep x) \<subseteq> X \<and> (x, x) \<notin> (edges dep)\<^sup>+)"

definition found_cycle :: "(string \<Rightarrow> string list) \<Rightarrow> string \<Rightarrow> bool" where
  "found_cycle dep m \<longleftrightarrow> (\<exists>k. (m, k) \<in> (edges dep)\<^sup>* \<and> (k, k) \<in> (edges dep)\<^sup>+)"

lemma stack_path_reach:
  "stack_path dep S \<Longrightarrow> d \<in> set S \<Longrightarrow> (last S, d) \<in> (edges dep)\<^sup>* \<and> (d, hd S) \<in> (edges dep)\<^sup>*"
proof (induction dep S arbitrary: d rule: stack_path.induct)
  case (3 dep a b S)
  then have e: "(b, a) \<in> edges dep" by simp
  have ih: "(last (b # S), x) \<in> (edges dep)\<^sup>* \<and> (x, b) \<in> (edges dep)\<^sup>*" if "x \<in> set (b # S)" for x
    using "3.IH" [of x] 3(2) that by simp
  then have l: "(last (b # S), b) \<in> (edges dep)\<^sup>*" by simp
  show ?case
  proof (cases "d = a")
    case True
    with rtrancl.rtrancl_into_rtrancl [OF l e] show ?thesis by simp
  next
    case False
    with 3(3) have "d \<in> set (b # S)" by simp
    from ih [OF this] rtrancl.rtrancl_into_rtrancl [OF _ e, of d] show ?thesis by simp
  qed
qed simp_all

lemma stack_push: "stack_path dep S \<Longrightarrow> d \<in> set (dep (hd S)) \<Longrightarrow> stack_path dep (d # S)"
  by (cases S) (simp_all add: edges_def)

lemma cycles_loop_correct:
  assumes "finite N" "\<forall>x \<in> N. set (dep x) \<subseteq> N" "set V \<subseteq> N" "set S \<subseteq> set V" "stack_path dep S"
    "set ds \<subseteq> set (dep (hd S))" "finished_ok dep (set V - set S)"
  shows "\<exists>found V' S' C'. cycles_loop dep ds V S C = Some (found, V', S', C') \<and>
    (if found then found_cycle dep (last S) \<and> C' \<noteq> []
     else S' = S \<and> C' = C \<and> set V \<subseteq> set V' \<and> set V' \<subseteq> N \<and> set ds \<subseteq> set V' - set S \<and> finished_ok dep (set V' - set S))"
  using assms(3-7)
proof (induction "card (N - set V)" arbitrary: V S ds C rule: less_induct)
  case less
  note outer = less.hyps
  have S: "S \<noteq> []" using less.prems(3) by (cases S) auto
  have hdS: "set (dep (hd S)) \<subseteq> N" using S less.prems(1,2) assms(2) by (meson hd_in_set subsetD)
  from less.prems(4) show ?case
  proof (induction ds)
    case Nil
    then show ?case using less.prems by (subst cycles_loop.simps) auto
  next
    case (Cons d ds)
    show ?case
    proof (cases "d \<in> set S")
      case True
      have "(hd S, d) \<in> edges dep" using Cons.prems by (simp add: edges_def)
      with stack_path_reach [OF less.prems(3) True] have "found_cycle dep (last S)"
        unfolding found_cycle_def by (meson rtrancl_into_trancl1)
      then show ?thesis using True by (subst cycles_loop.simps) (simp add: exI [of _ True])
    next
      case notS: False
      show ?thesis
      proof (cases "d \<in> set V")
        case True
        then have "cycles_loop dep (d # ds) V S C = cycles_loop dep ds V S C" using notS by (subst cycles_loop.simps) simp
        moreover from Cons obtain f2 V2 S2 C2 where "cycles_loop dep ds V S C = Some (f2, V2, S2, C2)"
          "if f2 then found_cycle dep (last S) \<and> C2 \<noteq> []
           else S2 = S \<and> C2 = C \<and> set V \<subseteq> set V2 \<and> set V2 \<subseteq> N \<and> set ds \<subseteq> set V2 - set S \<and> finished_ok dep (set V2 - set S)"
          by auto
        ultimately show ?thesis using True notS by (intro exI [of _ f2] exI [of _ V2] exI [of _ S2] exI [of _ C2]) auto
      next
        case notV: False
        have dN: "d \<in> N" using Cons.prems hdS by auto
        with notV assms(1) have smaller: "card (N - set (d # V)) < card (N - set V)"
          by (metis Diff_insert Diff_iff card_Diff1_less finite_Diff list.simps(15))
        have rest: "set (d # V) - set (d # S) = set V - set S" using notV by auto
        have "finished_ok dep (set (d # V) - set (d # S))" unfolding rest by (rule less.prems(5))
        moreover have "stack_path dep (d # S)" using stack_push [OF less.prems(3)] Cons.prems by simp
        moreover have "set (d # V) \<subseteq> N" "set (d # S) \<subseteq> set (d # V)" using dN less.prems by auto
        ultimately obtain found V1 S1 C1 where call: "cycles_loop dep (dep d) (d # V) (d # S) C = Some (found, V1, S1, C1)"
          and res: "if found then found_cycle dep (last (d # S)) \<and> C1 \<noteq> []
             else S1 = d # S \<and> C1 = C \<and> set (d # V) \<subseteq> set V1 \<and> set V1 \<subseteq> N \<and> set (dep d) \<subseteq> set V1 - set (d # S) \<and>
               finished_ok dep (set V1 - set (d # S))"
          using outer [OF smaller, of "d # S" "dep d" C] by auto
        show ?thesis
        proof (cases found)
          case True
          with res S call notS notV show ?thesis by (subst cycles_loop.simps) (simp add: exI [of _ True])
        next
          case nf: False
          with res have r: "S1 = d # S" "C1 = C" "set (d # V) \<subseteq> set V1" "set V1 \<subseteq> N"
            "set (dep d) \<subseteq> set V1 - set (d # S)" "finished_ok dep (set V1 - set (d # S))" by simp_all
          have split: "set V1 - set S = insert d (set V1 - set (d # S))" using r(3) notS by auto
          have "(d, d) \<notin> (edges dep)\<^sup>+"
            by (rule closed_no_cycle [of dep d "set V1 - set (d # S)"]) (use r(5,6) in \<open>auto simp: finished_ok_def\<close>)
          then have fin: "finished_ok dep (set V1 - set S)" using r(5,6) unfolding split finished_ok_def by blast
          have sm: "card (N - set V1) < card (N - set V)"
            using smaller r(3) assms(1) by (meson Diff_mono card_mono finite_Diff order_le_less_trans subset_refl)
          have "set S \<subseteq> set V1" "set ds \<subseteq> set (dep (hd S))" using r(3) less.prems(2) Cons.prems by auto
          from outer [OF sm r(4) this(1) less.prems(3) this(2) fin, of C]
          obtain f2 V2 S2 C2 where l2: "cycles_loop dep ds V1 S C = Some (f2, V2, S2, C2)"
            and r2: "if f2 then found_cycle dep (last S) \<and> C2 \<noteq> []
              else S2 = S \<and> C2 = C \<and> set V1 \<subseteq> set V2 \<and> set V2 \<subseteq> N \<and> set ds \<subseteq> set V2 - set S \<and> finished_ok dep (set V2 - set S)"
            by blast
          have "cycles_loop dep (d # ds) V S C = Some (f2, V2, S2, C2)"
            using call l2 nf r(1,2) notS notV by (subst cycles_loop.simps) simp
          moreover have "f2 = False \<Longrightarrow> set V \<subseteq> set V2 \<and> set (d # ds) \<subseteq> set V2 - set S" using r2 r(3) notS by auto
          ultimately show ?thesis using r2 by (auto split: if_splits)
        qed
      qed
    qed
  qed
qed

text \<open>
  C23. The cycle detection is right: it returns for every registry with finitely many modules, and its
  answer is not nil exactly if the module depends, directly or not, on a module that depends on
  itself.
\<close>

theorem detect_cycles_correct:
  assumes "finite (dom (modules r))"
  shows "\<exists>c. module_registry_detect_cycles m r = Some c \<and>
    (cell_is_nil c \<longleftrightarrow> \<not> found_cycle (\<lambda>n. deps r (Some n)) m)"
proof -
  let ?dep = "\<lambda>n. deps r (Some n)"
  let ?N = "insert m (\<Union>n \<in> dom (modules r). set (?dep n))"
  have none: "?dep n = []" if "n \<notin> dom (modules r)" for n using that by (simp add: deps_def get_module_def domIff)
  have "finite ?N" using assms by simp
  moreover have "\<forall>x \<in> ?N. set (?dep x) \<subseteq> ?N" using none by fastforce
  ultimately obtain found V S C where loop: "cycles_loop ?dep (?dep m) [m] [m] [] = Some (found, V, S, C)"
    and res: "if found then found_cycle ?dep m \<and> C \<noteq> []
      else S = [m] \<and> C = [] \<and> set (?dep m) \<subseteq> set V - {m} \<and> finished_ok ?dep (set V - {m})"
    using cycles_loop_correct [of ?N ?dep "[m]" "[m]" "?dep m" "[]"] by (auto simp: finished_ok_def split: if_splits)
  have "\<not> found_cycle ?dep m" if "\<not> found"
  proof
    assume "found_cycle ?dep m"
    then obtain k where k: "(m, k) \<in> (edges ?dep)\<^sup>*" "(k, k) \<in> (edges ?dep)\<^sup>+" by (auto simp: found_cycle_def)
    from that res have X: "set (?dep m) \<subseteq> set V - {m}" "\<forall>x \<in> set V - {m}. set (?dep x) \<subseteq> set V - {m}"
      "\<forall>x \<in> set V - {m}. (x, x) \<notin> (edges ?dep)\<^sup>+" by (auto simp: finished_ok_def)
    show False
    proof (cases "k = m")
      case True
      with k closed_no_cycle [OF X(1,2)] show False by simp
    next
      case False
      with k(1) obtain w where "(m, w) \<in> edges ?dep" "(w, k) \<in> (edges ?dep)\<^sup>*" by (metis converse_rtranclE)
      with closed_reach [of w k ?dep, OF _ _ X(2)] X(1) have "k \<in> set V - {m}" by (auto simp: edges_def)
      with X(3) k(2) show False by blast
    qed
  qed
  moreover have "cell_is_nil (tm_list (map f C)) \<longleftrightarrow> C = []" for f :: "string list \<Rightarrow> tm"
    by (cases C) (simp_all add: cell_nil_def cell_cons_def)
  ultimately show ?thesis using loop res
    by (auto simp: module_registry_detect_cycles_def detect_cycles_dfs_def split: if_splits)
qed

definition two_modules :: module_registry where
  "two_modules =
     module_registry_add_dependency (Some ''b'') ''a'' (module_registry_add_dependency (Some ''a'') ''b''
       (module_registry_add 0 (Some ''b'') (module_registry_add 0 (Some ''a'') (module_registry_init
         \<lparr>modules = Map.empty, symbol_index = Map.empty, alias_table = Map.empty, module_count = 0,
          load_order_counter = 0, current_loading_module = None\<rparr>))))"

theorem detect_cycles_correct_witness:
  "\<exists>c. module_registry_detect_cycles ''a'' two_modules = Some c \<and> \<not> cell_is_nil c"
proof -
  have d: "deps two_modules (Some ''a'') = [''b'']" "deps two_modules (Some ''b'') = [''a'']"
    and dom: "dom (modules two_modules) = {''a'', ''b''}"
    by (simp_all add: two_modules_def module_registry_add_dependency_def module_registry_add_def module_registry_init_def
        get_module_def put_module_def deps_def insert_commute)
  then have "(''a'', ''b'') \<in> edges (\<lambda>n. deps two_modules (Some n))" "(''b'', ''a'') \<in> edges (\<lambda>n. deps two_modules (Some n))"
    by (simp_all add: edges_def)
  then have "found_cycle (\<lambda>n. deps two_modules (Some n)) ''a''"
    unfolding found_cycle_def by (meson r_into_trancl rtrancl.rtrancl_refl trancl_trans)
  moreover have "finite (dom (modules two_modules))" using dom by simp
  ultimately show ?thesis using detect_cycles_correct [of two_modules "''a''"] by blast
qed

end
