(* ===== verification/Macros.thy ===== *)
theory Macros
  imports CellOps
begin

section \<open>Macros\<close>

text \<open>
  The macro registry, the matching of macro patterns and the expansion of templates of
  \<open>bootstrap/macro.c\<close>. The registry is a linked list with the newest entry first. What needs the
  evaluator, \<open>macro_apply\<close> and \<open>macro_expand\<close>, is in the theory of the evaluator. Literals of a
  pattern and the arguments of a call are different objects (\<open>tm_equal\<close>). The outer option is an
  assertion, the inner one of a match its failure.
\<close>

record macro_entry =
  macro_name :: string
  macro_params :: "tm option"
  macro_body :: "tm option"
  is_pattern_based :: bool
  clauses :: "(tm \<times> tm) list"

type_synonym macro_registry = "macro_entry list"

subsection \<open>The registry\<close>

definition macro_init :: macro_registry where
  "macro_init = []"

definition macro_lookup :: "string \<Rightarrow> macro_registry \<Rightarrow> macro_entry option" where
  "macro_lookup nm r = List.find (\<lambda>e. macro_name e = nm) r"

text \<open>The first entry of the name is updated in place, or a new one becomes the head.\<close>

definition macro_put :: "macro_entry \<Rightarrow> macro_registry \<Rightarrow> macro_registry" where
  "macro_put entry r =
     (if macro_lookup (macro_name entry) r = None then entry # r
      else map (\<lambda>e. if macro_name e = macro_name entry then entry else e) r)"

definition macro_define :: "string \<Rightarrow> tm \<Rightarrow> tm \<Rightarrow> macro_registry \<Rightarrow> macro_registry" where
  "macro_define nm params body r =
     macro_put \<lparr>macro_name = nm, macro_params = Some params, macro_body = Some body, is_pattern_based = False, clauses = []\<rparr> r"

definition macro_is_macro_call :: "tm \<Rightarrow> macro_registry \<Rightarrow> bool" where
  "macro_is_macro_call e r \<longleftrightarrow>
     (case e of CPair _ first _ \<Rightarrow> (case cell_get_symbol first of Some nm \<Rightarrow> macro_lookup nm r \<noteq> None | None \<Rightarrow> False)
      | _ \<Rightarrow> False)"

definition macro_list :: "macro_registry \<Rightarrow> tm" where
  "macro_list r = tm_list (rev (map (\<lambda>e. cell_symbol (macro_name e)) r))"

fun clauses_loop :: "tm \<Rightarrow> (tm \<times> tm) list option" where
  "clauses_loop (CPair _ clause c) =
     (case clause of
        CPair _ pattern rest \<Rightarrow> do {
          templ \<leftarrow> cell_car rest;
          cs \<leftarrow> clauses_loop c;
          Some ((pattern, templ) # cs)
        }
      | _ \<Rightarrow> clauses_loop c)"
| "clauses_loop _ = Some []"

text \<open>A simple macro that becomes pattern-based loses its parameters and body; a pattern-based one has none.\<close>

definition macro_define_pattern :: "string \<Rightarrow> tm \<Rightarrow> macro_registry \<Rightarrow> macro_registry option" where
  "macro_define_pattern nm cls r = do {
     cs \<leftarrow> clauses_loop cls;
     Some (macro_put \<lparr>macro_name = nm, macro_params = None, macro_body = None, is_pattern_based = True, clauses = cs\<rparr> r)
   }"

subsection \<open>Bindings of a simple macro\<close>

fun build_loop :: "tm \<Rightarrow> tm \<Rightarrow> tm \<Rightarrow> tm" where
  "build_loop (CNil _) a bindings = (if cell_is_nil a then bindings else cell_error ''macro-arg-count-mismatch'' (Some cell_nil))"
| "build_loop (CPair _ param p) a bindings =
     (case a of
        CNil _ \<Rightarrow> cell_error ''macro-arg-count-mismatch'' (Some cell_nil)
      | CPair _ arg a' \<Rightarrow> build_loop p a' (cell_cons (cell_cons param arg) bindings)
      | _ \<Rightarrow> cell_error ''invalid-macro-args'' (Some cell_nil))"
| "build_loop _ a bindings = cell_error ''invalid-macro-params'' (Some cell_nil)"

definition macro_build_bindings :: "tm \<Rightarrow> tm \<Rightarrow> tm" where
  "macro_build_bindings params args = build_loop params args cell_nil"

subsection \<open>Patterns\<close>

definition dollar_name :: "string \<Rightarrow> bool" where
  "dollar_name s \<longleftrightarrow> (case s of c # _ \<Rightarrow> c = CHR ''$'' | [] \<Rightarrow> False)"

definition macro_is_pattern_var :: "tm \<Rightarrow> bool" where
  "macro_is_pattern_var c \<longleftrightarrow> (case cell_get_symbol c of Some s \<Rightarrow> dollar_name s | None \<Rightarrow> False)"

text \<open>\<open>($var ...)\<close>\<close>

definition has_ellipsis_rest :: "tm \<Rightarrow> tm option" where
  "has_ellipsis_rest pattern =
     (case pattern of
        CPair _ first (CPair _ second (CNil _)) \<Rightarrow>
          if macro_is_pattern_var first \<and> second = cell_symbol ''...'' then Some first else None
      | _ \<Rightarrow> None)"

fun lookup_binding :: "tm \<Rightarrow> string \<Rightarrow> tm option" where
  "lookup_binding (CPair _ pair b) nm =
     (case pair of
        CPair _ key v \<Rightarrow> if cell_get_symbol key = Some nm then Some v else lookup_binding b nm
      | _ \<Rightarrow> lookup_binding b nm)"
| "lookup_binding _ nm = None"

definition add_binding :: "tm \<Rightarrow> tm \<Rightarrow> tm \<Rightarrow> tm" where
  "add_binding bindings var val = cell_cons (cell_cons var val) bindings"

fun merge_loop :: "tm \<Rightarrow> tm \<Rightarrow> tm" where
  "merge_loop result (CPair _ pair r) =
     merge_loop (case pair of CPair _ k v \<Rightarrow> add_binding result k v | _ \<Rightarrow> result) r"
| "merge_loop result _ = result"

definition quoted_literal :: "tm \<Rightarrow> tm option option" where
  "quoted_literal pat_head =
     (case pat_head of
        CPair _ q rest \<Rightarrow> if q = cell_symbol ''quote'' then do { l \<leftarrow> cell_car rest; Some (Some l) } else Some None
      | _ \<Rightarrow> Some None)"

fun macro_pattern_match :: "tm \<Rightarrow> tm \<Rightarrow> tm option option" where
  "macro_pattern_match pattern args =
     (case pattern of
        CNil _ \<Rightarrow> Some (if cell_is_nil args then Some cell_nil else None)
      | CSymbol _ s \<Rightarrow>
          Some (if dollar_name s then Some (add_binding cell_nil pattern args)
            else if cell_get_symbol args = Some s then Some cell_nil else None)
      | CPair _ pat_head pattern_cdr \<Rightarrow>
          (case args of
             CNil _ \<Rightarrow>
               Some (case has_ellipsis_rest pattern of
                   Some rest_var \<Rightarrow> Some (add_binding cell_nil rest_var args)
                 | None \<Rightarrow> None)
           | CPair _ arg_head arg_rest \<Rightarrow>
               if macro_is_pattern_var pattern_cdr then do {
                 head_bindings \<leftarrow> macro_pattern_match pat_head arg_head;
                 Some (map_option (\<lambda>b. add_binding b pattern_cdr arg_rest) head_bindings)
               }
               else (case has_ellipsis_rest pattern of
                   Some rest_var \<Rightarrow> Some (Some (add_binding cell_nil rest_var args))
                 | None \<Rightarrow> do {
                     literal \<leftarrow> quoted_literal pat_head;
                     case literal of
                       Some l \<Rightarrow> if \<not> tm_equal l arg_head then Some None else macro_pattern_match pattern_cdr arg_rest
                     | None \<Rightarrow> do {
                         head_bindings \<leftarrow> macro_pattern_match pat_head arg_head;
                         case head_bindings of
                           None \<Rightarrow> Some None
                         | Some result \<Rightarrow> do {
                             rest_bindings \<leftarrow> macro_pattern_match pattern_cdr arg_rest;
                             Some (map_option (merge_loop result) rest_bindings)
                           }
                       }
                   })
           | _ \<Rightarrow> Some None)
      | _ \<Rightarrow> Some (if tm_equal pattern args then Some cell_nil else None))"

declare macro_pattern_match.simps [simp del]

subsection \<open>Templates\<close>

definition dot_splice :: "tm \<Rightarrow> tm \<Rightarrow> tm \<Rightarrow> tm option option" where
  "dot_splice bindings templ_car templ_cdr =
     (if templ_car = cell_symbol ''.'' then do {
        splice_var \<leftarrow> cell_car templ_cdr;
        Some (if macro_is_pattern_var splice_var
              then Option.bind (cell_get_symbol splice_var) (lookup_binding bindings) else None)
      }
      else Some None)"

definition splice_value :: "tm \<Rightarrow> tm \<Rightarrow> tm option" where
  "splice_value bindings t =
     do { v \<leftarrow> has_ellipsis_rest t; nm \<leftarrow> cell_get_symbol v; lookup_binding bindings nm }"

fun macro_expand_template :: "tm \<Rightarrow> tm \<Rightarrow> tm option" where
  "macro_expand_template templ bindings =
     (case templ of
        CSymbol _ s \<Rightarrow>
          Some (if dollar_name s then (case lookup_binding bindings s of Some v \<Rightarrow> v | None \<Rightarrow> templ) else templ)
      | CPair _ templ_car templ_cdr \<Rightarrow>
          if has_ellipsis_rest templ \<noteq> None then
            Some (case splice_value bindings templ of Some v \<Rightarrow> v | None \<Rightarrow> cell_nil)
          else do {
            spliced \<leftarrow> dot_splice bindings templ_car templ_cdr;
            case spliced of
              Some v \<Rightarrow> Some v
            | None \<Rightarrow> do {
                expanded_car \<leftarrow> macro_expand_template templ_car bindings;
                case splice_value bindings templ_cdr of
                  Some v \<Rightarrow> Some (cell_cons expanded_car v)
                | None \<Rightarrow> do {
                    expanded_cdr \<leftarrow> macro_expand_template templ_cdr bindings;
                    Some (cell_cons expanded_car expanded_cdr)
                  }
              }
          }
      | _ \<Rightarrow> Some templ)"

declare macro_expand_template.simps [simp del]

primrec apply_clauses :: "(tm \<times> tm) list \<Rightarrow> tm \<Rightarrow> tm option" where
  "apply_clauses [] args = Some (cell_error ''no-matching-pattern'' (Some args))"
| "apply_clauses (c # cs) args = do {
     bindings \<leftarrow> macro_pattern_match (fst c) args;
     case bindings of
       Some b \<Rightarrow> macro_expand_template (snd c) b
     | None \<Rightarrow> apply_clauses cs args
   }"

definition macro_apply_pattern :: "macro_entry \<Rightarrow> tm \<Rightarrow> tm option" where
  "macro_apply_pattern m args =
     (if \<not> is_pattern_based m then Some (cell_error ''not-pattern-macro'' (Some cell_nil))
      else apply_clauses (clauses m) args)"

text \<open>A number in decimal, as \<^verbatim>\<open>%zu\<close> prints it; the buffer of \<open>macro_gensym\<close> has 128 bytes.\<close>

fun decimal :: "nat \<Rightarrow> string" where
  "decimal n = (if n < 10 then [char_of (48 + n)] else decimal (n div 10) @ [char_of (48 + n mod 10)])"

declare decimal.simps [simp del]

definition macro_gensym :: "string \<Rightarrow> nat \<Rightarrow> tm \<times> nat" where
  "macro_gensym prefix n =
     (cell_symbol (take 127 ((if prefix = [] then ''g_'' else prefix @ ''_'') @ decimal n)), n + 1)"

end
