(* ===== verification/EvalState.thy ===== *)
theory EvalState
  imports Modules Macros PrimTypes
begin

section \<open>The state of the evaluator\<close>

text \<open>
  The context of \<open>bootstrap/eval.h\<close> together with the global tables that the evaluator reads and
  writes: the bindings by symbol, the type annotations, the modules and the macros. An evaluator
  takes a context, a local environment and an expression; \<open>None\<close> stands for a failed assertion or
  for an evaluation that does not end.
\<close>

record eval_context =
  ctx_env :: tm
  global_env :: tm
  global_table :: "string \<rightharpoonup> tm"
  type_registry :: tm
  effect_registry :: tm
  type_annotations :: annotations
  module_state :: module_registry
  macros :: macro_registry

type_synonym result = "(tm \<times> eval_context) option"
type_synonym evaluator = "eval_context \<Rightarrow> tm \<Rightarrow> tm \<Rightarrow> result"

text \<open>\<open>eval\<close> evaluates in the environment of the context.\<close>

definition eval_in_context :: "evaluator \<Rightarrow> eval_context \<Rightarrow> tm \<Rightarrow> result" where
  "eval_in_context ev ctx e = ev ctx (ctx_env ctx) e"

text \<open>The environment of the context is replaced for one evaluation.\<close>

definition with_env :: "evaluator \<Rightarrow> tm \<Rightarrow> eval_context \<Rightarrow> tm \<Rightarrow> result" where
  "with_env ev env ctx e = do {
     (v, ctx') \<leftarrow> eval_in_context ev (ctx\<lparr>ctx_env := env\<rparr>) e;
     Some (v, ctx'\<lparr>ctx_env := ctx_env ctx\<rparr>)
   }"

end
