(* ===== verification/Patterns.thy ===== *)
theory Patterns
  imports EvalState
begin

section \<open>Pattern matching\<close>

text \<open>
  The \<open>match\<close> form: \<open>bootstrap/pattern.c\<close>, which matches values against patterns and evaluates the
  clause that is chosen, and \<open>bootstrap/pattern_check.c\<close>, which looks for missing and unreachable
  clauses. The result of a match is \<open>None\<close> for a failure and \<open>Some bs\<close> for a success; bindings that are
  NULL are \<open>None\<close>, one binding is a pair, and several are a list of pairs.
\<close>

type_synonym match_result = "(tm option option \<times> eval_context) option"

subsection \<open>Kinds of patterns\<close>

definition is_wildcard :: "tm \<Rightarrow> bool" where
  "is_wildcard pattern \<longleftrightarrow> cell_get_symbol pattern = Some ''_''"

definition is_keyword :: "string \<Rightarrow> bool" where
  "is_keyword s \<longleftrightarrow> (case s of c # _ \<Rightarrow> c = CHR '':'' | [] \<Rightarrow> False)"

definition is_variable_pattern :: "tm \<Rightarrow> bool" where
  "is_variable_pattern pattern \<longleftrightarrow>
     (case cell_get_symbol pattern of Some s \<Rightarrow> \<not> is_keyword s \<and> s \<noteq> ''_'' \<and> s \<noteq> ''nil'' | None \<Rightarrow> False)"

definition symbols_equal :: "tm \<Rightarrow> tm \<Rightarrow> bool" where
  "symbols_equal a b \<longleftrightarrow> cell_get_symbol a \<noteq> None \<and> cell_get_symbol a = cell_get_symbol b"

text \<open>\<open>(a sep b)\<close>, with more elements after it or not: \<open>a\<close> and \<open>b\<close>.\<close>

definition middle :: "string \<Rightarrow> tm \<Rightarrow> (tm \<times> tm) option" where
  "middle sep c =
     (case c of
        CPair _ a (CPair _ s (CPair _ b _)) \<Rightarrow> if s = cell_symbol sep then Some (a, b) else None
      | _ \<Rightarrow> None)"

text \<open>\<open>(head a b)\<close>, with more elements after it or not: \<open>a\<close> and \<open>b\<close>.\<close>

definition headed :: "string \<Rightarrow> tm \<Rightarrow> (tm \<times> tm) option" where
  "headed h c =
     (case c of
        CPair _ s (CPair _ a (CPair _ b _)) \<Rightarrow> if s = cell_symbol h then Some (a, b) else None
      | _ \<Rightarrow> None)"

definition guard_syntax :: "tm \<Rightarrow> (tm \<times> tm) option" where
  "guard_syntax = middle ''|''"

definition as_pattern :: "tm \<Rightarrow> (tm \<times> tm) option" where
  "as_pattern pattern =
     (case middle ''@'' pattern of Some (nm, sub) \<Rightarrow> if is_variable_pattern nm then Some (nm, sub) else None | None \<Rightarrow> None)"

definition view_pattern :: "tm \<Rightarrow> (tm \<times> tm) option" where
  "view_pattern = headed ''->''"

definition or_pattern :: "tm \<Rightarrow> tm option" where
  "or_pattern pattern = (if headed ''or'' pattern = None then None else cell_cdr pattern)"

definition pair_pattern :: "tm \<Rightarrow> (tm \<times> tm) option" where
  "pair_pattern = headed ''cons''"

text \<open>The tags and the field patterns of \<open>(struct-create :type ...)\<close> and \<open>(adt-create :type :variant ...)\<close>.\<close>

definition struct_pattern :: "tm \<Rightarrow> tm option" where
  "struct_pattern c = (case c of CPair _ s rest \<Rightarrow> if s = cell_symbol ''struct-create'' then Some rest else None | _ \<Rightarrow> None)"

definition adt_pattern :: "tm \<Rightarrow> tm option" where
  "adt_pattern c = (case c of CPair _ s rest \<Rightarrow> if s = cell_symbol ''adt-create'' then Some rest else None | _ \<Rightarrow> None)"

lemma pattern_sizes:
  "middle sep c = Some (a, b) \<Longrightarrow> size b < size c"
  "headed h c = Some (a, b) \<Longrightarrow> size a < size c \<and> size b < size c"
  "as_pattern c = Some (a, b) \<Longrightarrow> size b < size c"
  "or_pattern c = Some a \<Longrightarrow> size a < size c"
  "struct_pattern c = Some a \<Longrightarrow> size a < size c"
  "adt_pattern c = Some a \<Longrightarrow> size a < size c"
  by (auto simp: middle_def headed_def as_pattern_def or_pattern_def struct_pattern_def adt_pattern_def
      split: cell.splits if_splits option.splits)

subsection \<open>The variables of a pattern\<close>

text \<open>The tail of a list, if it is one.\<close>

definition skip :: "tm \<Rightarrow> tm" where
  "skip c = (case c of CPair _ _ r \<Rightarrow> r | _ \<Rightarrow> c)"

lemma size_skip: "size (skip c) \<le> size c"
  by (cases c) (simp_all add: skip_def)

function (sequential) extract_pattern_variables :: "tm \<Rightarrow> tm list"
  and fields_variables :: "tm \<Rightarrow> tm list \<Rightarrow> tm list" where
  "extract_pattern_variables pattern =
     (if is_wildcard pattern then []
      else if is_variable_pattern pattern then [pattern]
      else case as_pattern pattern of
        Some (nm, sub) \<Rightarrow> nm # extract_pattern_variables sub
      | None \<Rightarrow>
          (case or_pattern pattern of
             Some alternatives \<Rightarrow> (case alternatives of CPair _ alt _ \<Rightarrow> extract_pattern_variables alt | _ \<Rightarrow> [])
           | None \<Rightarrow>
               (case pair_pattern pattern of
                  Some (p1, p2) \<Rightarrow> rev (extract_pattern_variables p2) @ rev (extract_pattern_variables p1)
                | None \<Rightarrow>
                    (case struct_pattern pattern of
                       Some rest \<Rightarrow> if cell_is_pair rest then fields_variables (skip rest) [] else []
                     | None \<Rightarrow>
                         (case adt_pattern pattern of
                            Some rest \<Rightarrow> if cell_is_pair rest then fields_variables (skip (skip rest)) [] else []
                          | None \<Rightarrow> [])))))"
| "fields_variables (CPair _ field_pat rest) vars =
     fields_variables rest (rev (extract_pattern_variables field_pat) @ vars)"
| "fields_variables _ vars = vars"
  by pat_completeness auto
termination
proof (relation "measure (case_sum size (size \<circ> fst))")
qed (auto dest: pattern_sizes simp: pair_pattern_def intro: le_less_trans [OF size_skip])

declare extract_pattern_variables.simps [simp del]

definition variable_lists_equal :: "tm list \<Rightarrow> tm list \<Rightarrow> bool" where
  "variable_lists_equal vars1 vars2 \<longleftrightarrow> length vars1 = length vars2 \<and> (\<forall>v \<in> set vars1. \<exists>w \<in> set vars2. symbols_equal v w)"

text \<open>The alternatives of an or-pattern bind the same variables as the first.\<close>

definition check_or_pattern_consistency :: "tm \<Rightarrow> bool" where
  "check_or_pattern_consistency alternatives =
     (case list_elems alternatives of
        [] \<Rightarrow> True
      | alt # alts \<Rightarrow>
          list_all (\<lambda>a. variable_lists_equal (extract_pattern_variables alt) (extract_pattern_variables a)) alts)"

subsection \<open>Bindings\<close>

definition is_single_binding :: "tm \<Rightarrow> bool" where
  "is_single_binding c \<longleftrightarrow> (case c of CPair _ first _ \<Rightarrow> cell_is_symbol first | _ \<Rightarrow> False)"

fun append_bindings :: "tm \<Rightarrow> tm \<Rightarrow> tm" where
  "append_bindings (CPair p x nxt) b2 =
     CPair p x (if cell_is_nil nxt then b2 else append_bindings nxt b2)"
| "append_bindings b b2 = b"

definition merge_bindings :: "tm option \<Rightarrow> tm option \<Rightarrow> tm option" where
  "merge_bindings bs1 bs2 =
     (case (bs1, bs2) of
        (None, _) \<Rightarrow> bs2
      | (_, None) \<Rightarrow> bs1
      | (Some b1, Some b2) \<Rightarrow>
          Some (if is_single_binding b1 then
                  (if is_single_binding b2 then cell_cons b1 (cell_cons b2 cell_nil) else cell_cons b1 b2)
                else append_bindings b1 (if is_single_binding b2 then cell_cons b2 cell_nil else b2)))"

fun prepend_loop :: "tm \<Rightarrow> tm \<Rightarrow> tm" where
  "prepend_loop (CPair _ binding r) env =
     prepend_loop r (if cell_is_pair binding then cell_cons binding env else env)"
| "prepend_loop _ env = env"

definition extend_env_with_bindings :: "tm option \<Rightarrow> tm \<Rightarrow> tm option" where
  "extend_env_with_bindings bindings env =
     (case bindings of
        None \<Rightarrow> Some env
      | Some b \<Rightarrow> do {
          first \<leftarrow> cell_car b;
          Some (if cell_is_symbol first then cell_cons b env else prepend_loop b env)
        })"

subsection \<open>Matching\<close>

definition eval_transform :: "evaluator \<Rightarrow> tm \<Rightarrow> tm \<Rightarrow> eval_context \<Rightarrow> result" where
  "eval_transform ev transform value ctx =
     eval_in_context ev ctx (tm_list [transform, tm_list [cell_symbol ''quote'', value]])"

definition match_atom :: "tm \<Rightarrow> tm \<Rightarrow> tm option option" where
  "match_atom value pattern =
     (let test = (\<lambda>b. if b then Some None else None)
      in if pattern = cell_symbol ''nil'' then test (cell_is_nil value)
         else case pattern of
           CNil _ \<Rightarrow> test (cell_is_nil value)
         | CNumber _ n \<Rightarrow> test (case value of CNumber _ m \<Rightarrow> double_eq m n | _ \<Rightarrow> False)
         | CBool _ b \<Rightarrow> test (cell_get_bool value = Some b)
         | CSymbol _ s \<Rightarrow>
             if is_variable_pattern pattern then Some (Some (cell_cons (cell_symbol s) value))
             else test (symbols_equal value pattern)
         | _ \<Rightarrow> None)"

text \<open>The type and variant of a value against the tags of a pattern; the field patterns.\<close>

definition leaf_fields :: "tm \<Rightarrow> tm \<Rightarrow> (tm \<times> tm) option option" where
  "leaf_fields value rest =
     (case (value, rest) of
        (CStruct _ STRUCT_LEAF tag _ flds, CPair _ pattern_type field_patterns) \<Rightarrow>
          if \<not> cell_is_symbol pattern_type then Some None
          else do {
            tag \<leftarrow> tag;
            Some (if symbols_equal tag pattern_type then Some (field_patterns, nil_if_null flds) else None)
          }
      | _ \<Rightarrow> Some None)"

definition node_fields :: "tm \<Rightarrow> tm \<Rightarrow> (tm \<times> tm) option option" where
  "node_fields value rest =
     (case (value, rest) of
        (CStruct _ STRUCT_NODE tag variant flds, CPair _ pattern_type rest2) \<Rightarrow>
          if \<not> cell_is_symbol pattern_type then Some None
          else do {
            tag \<leftarrow> tag;
            if \<not> symbols_equal tag pattern_type then Some None
            else case rest2 of
              CPair _ pattern_variant field_patterns \<Rightarrow>
                if \<not> cell_is_symbol pattern_variant then Some None
                else do {
                  variant \<leftarrow> variant;
                  Some (if symbols_equal variant pattern_variant then Some (field_patterns, nil_if_null flds) else None)
                }
            | _ \<Rightarrow> Some None
          }
      | _ \<Rightarrow> Some None)"

lemma field_sizes:
  "leaf_fields value rest = Some (Some (ps, fs)) \<Longrightarrow> size ps < size rest"
  "node_fields value rest = Some (Some (ps, fs)) \<Longrightarrow> size ps < size rest"
  by (auto simp: leaf_fields_def node_fields_def bind_eq_Some_conv split: cell.splits struct_kind.splits if_splits)

function (sequential) pattern_try_match :: "evaluator \<Rightarrow> tm \<Rightarrow> tm \<Rightarrow> eval_context \<Rightarrow> match_result"
  and match_alternatives :: "evaluator \<Rightarrow> tm \<Rightarrow> tm \<Rightarrow> eval_context \<Rightarrow> match_result"
  and match_fields :: "evaluator \<Rightarrow> tm \<Rightarrow> tm \<Rightarrow> tm option \<Rightarrow> eval_context \<Rightarrow> match_result" where
  "pattern_try_match ev value pattern ctx =
     (if is_wildcard pattern then Some (Some None, ctx)
      else case as_pattern pattern of
        Some (nm, sub) \<Rightarrow> do {
          (r, ctx) \<leftarrow> pattern_try_match ev value sub ctx;
          Some (map_option (merge_bindings (Some (cell_cons nm value))) r, ctx)
        }
      | None \<Rightarrow>
          (case or_pattern pattern of
             Some alternatives \<Rightarrow>
               if \<not> check_or_pattern_consistency alternatives then Some (None, ctx)
               else match_alternatives ev value alternatives ctx
           | None \<Rightarrow>
               (case view_pattern pattern of
                  Some (transform, sub) \<Rightarrow> do {
                    (transformed, ctx) \<leftarrow> eval_transform ev transform value ctx;
                    if cell_is_error transformed then Some (None, ctx) else pattern_try_match ev transformed sub ctx
                  }
                | None \<Rightarrow>
                    (case pair_pattern pattern of
                       Some (pat1, pat2) \<Rightarrow>
                         (case value of
                            CPair _ value_car value_cdr \<Rightarrow> do {
                              (r1, ctx) \<leftarrow> pattern_try_match ev value_car pat1 ctx;
                              case r1 of
                                None \<Rightarrow> Some (None, ctx)
                              | Some b1 \<Rightarrow> do {
                                  (r2, ctx) \<leftarrow> pattern_try_match ev value_cdr pat2 ctx;
                                  Some (map_option (merge_bindings b1) r2, ctx)
                                }
                            }
                          | _ \<Rightarrow> Some (None, ctx))
                     | None \<Rightarrow>
                         (case struct_pattern pattern of
                            Some rest \<Rightarrow> do {
                              f \<leftarrow> leaf_fields value rest;
                              case f of
                                None \<Rightarrow> Some (None, ctx)
                              | Some (field_patterns, value_fields) \<Rightarrow> match_fields ev value_fields field_patterns None ctx
                            }
                          | None \<Rightarrow>
                              (case adt_pattern pattern of
                                 Some rest \<Rightarrow> do {
                                   f \<leftarrow> node_fields value rest;
                                   case f of
                                     None \<Rightarrow> Some (None, ctx)
                                   | Some (field_patterns, value_fields) \<Rightarrow> match_fields ev value_fields field_patterns None ctx
                                 }
                               | None \<Rightarrow> Some (match_atom value pattern, ctx)))))))"
| "match_alternatives ev value (CPair _ alt alts) ctx = do {
     (r, ctx) \<leftarrow> pattern_try_match ev value alt ctx;
     if r = None then match_alternatives ev value alts ctx else Some (r, ctx)
   }"
| "match_alternatives ev value _ ctx = Some (None, ctx)"
| "match_fields ev flds (CPair _ field_pat pats) bindings ctx =
     (case flds of
        CPair _ field_binding fs \<Rightarrow> do {
          field_value \<leftarrow> cell_cdr field_binding;
          (r, ctx) \<leftarrow> pattern_try_match ev field_value field_pat ctx;
          case r of
            None \<Rightarrow> Some (None, ctx)
          | Some b \<Rightarrow> match_fields ev fs pats (merge_bindings bindings b) ctx
        }
      | _ \<Rightarrow> Some (None, ctx))"
| "match_fields ev flds _ bindings ctx = Some (if cell_is_pair flds then None else Some bindings, ctx)"
  by pat_completeness auto
termination
proof (relation "measure (case_sum (\<lambda>(_, _, p, _). size p) (case_sum (\<lambda>(_, _, p, _). size p) (\<lambda>(_, _, p, _, _). size p)))")
qed (auto dest!: pattern_sizes field_sizes simp: pair_pattern_def view_pattern_def)

declare pattern_try_match.simps [simp del]

subsection \<open>The form\<close>

text \<open>
  A clause is \<open>(pattern result)\<close> or \<open>(pattern . result)\<close>, where the pattern may be guarded. The
  transforms of view patterns run in the local environment. The guard and the result are evaluated
  in the environment of the context with the bindings before it, or, when there are no bindings, the
  result in the local environment.
\<close>

definition clause_result :: "tm \<Rightarrow> tm" where
  "clause_result rest = (case rest of CPair _ r _ \<Rightarrow> r | _ \<Rightarrow> rest)"

definition eval_guard :: "evaluator \<Rightarrow> tm option \<Rightarrow> tm option \<Rightarrow> eval_context \<Rightarrow> (bool \<times> eval_context) option" where
  "eval_guard ev bindings guard ctx =
     (case guard of
        None \<Rightarrow> Some (True, ctx)
      | Some g \<Rightarrow> do {
          extended \<leftarrow> extend_env_with_bindings bindings (ctx_env ctx);
          (v, ctx) \<leftarrow> with_env ev extended ctx g;
          Some (cell_get_bool v = Some True, ctx)
        })"

definition eval_result :: "evaluator \<Rightarrow> tm option \<Rightarrow> tm \<Rightarrow> tm \<Rightarrow> eval_context \<Rightarrow> result" where
  "eval_result ev bindings env res ctx =
     (case bindings of
        None \<Rightarrow> with_env ev env ctx res
      | Some b \<Rightarrow> do {
          extended \<leftarrow> extend_env_with_bindings (Some b) (ctx_env ctx);
          with_env ev extended ctx res
        })"

fun match_clauses :: "evaluator \<Rightarrow> tm \<Rightarrow> tm \<Rightarrow> tm \<Rightarrow> eval_context \<Rightarrow> result" where
  "match_clauses ev value env (CPair _ clause rest) ctx =
     (case clause of
        CPair _ pattern_expr r \<Rightarrow> do {
          let (pattern, guard) = (case guard_syntax pattern_expr of
              Some (p, g) \<Rightarrow> (p, Some g)
            | None \<Rightarrow> (pattern_expr, None));
          (m, ctx') \<leftarrow> pattern_try_match ev value pattern (ctx\<lparr>ctx_env := env\<rparr>);
          let ctx = ctx'\<lparr>ctx_env := ctx_env ctx\<rparr>;
          case m of
            None \<Rightarrow> match_clauses ev value env rest ctx
          | Some bindings \<Rightarrow> do {
              (passed, ctx) \<leftarrow> eval_guard ev bindings guard ctx;
              if passed then eval_result ev bindings env (clause_result r) ctx
              else match_clauses ev value env rest ctx
            }
        }
      | _ \<Rightarrow> Some (cell_error ''invalid-clause'' (Some clause), ctx))"
| "match_clauses ev value env _ ctx = Some (cell_error ''no-match'' (Some value), ctx)"

definition pattern_eval_match :: "evaluator \<Rightarrow> tm \<Rightarrow> tm \<Rightarrow> tm \<Rightarrow> eval_context \<Rightarrow> result" where
  "pattern_eval_match ev expr cls env ctx = do {
     (value, ctx) \<leftarrow> ev ctx env expr;
     if cell_is_error value then Some (value, ctx) else match_clauses ev value env cls ctx
   }"

subsection \<open>Coverage\<close>

datatype coverage = COVERAGE_COMPLETE | COVERAGE_PARTIAL | COVERAGE_REDUNDANT

record exhaustiveness =
  status :: coverage
  first_unreachable :: "nat option"
  has_catch_all :: bool

definition is_catch_all :: "tm \<Rightarrow> bool" where
  "is_catch_all pattern \<longleftrightarrow> (case cell_get_symbol pattern of Some s \<Rightarrow> \<not> is_keyword s | None \<Rightarrow> False)"

fun check_loop :: "tm \<Rightarrow> nat \<Rightarrow> bool \<Rightarrow> nat option \<Rightarrow> bool \<times> nat option" where
  "check_loop (CPair _ clause rest) index seen unreachable =
     (case clause of
        CPair _ pattern _ \<Rightarrow>
          check_loop rest (index + 1) (seen \<or> is_catch_all pattern)
            (if seen \<and> unreachable = None then Some index else unreachable)
      | _ \<Rightarrow> check_loop rest (index + 1) seen unreachable)"
| "check_loop _ index seen unreachable = (seen, unreachable)"

definition pattern_check_exhaustiveness :: "tm \<Rightarrow> exhaustiveness" where
  "pattern_check_exhaustiveness cls =
     (let (seen, unreachable) = check_loop cls 0 False None
      in \<lparr>status = (if unreachable \<noteq> None then COVERAGE_REDUNDANT else if seen then COVERAGE_COMPLETE else COVERAGE_PARTIAL),
          first_unreachable = unreachable, has_catch_all = seen\<rparr>)"

end
