(* ===== verification/Eval.thy ===== *)
theory Eval
  imports DeBruijn PrimStructs Patterns
begin

section \<open>The evaluator\<close>

text \<open>
  \<open>eval_internal\<close> of \<open>bootstrap/eval.c\<close> with its lookups and definitions. One pass through its body
  is \<open>eval_step\<close>, in which every recursive call and every jump to \<open>tail_call\<close> is a call of the
  evaluator \<open>ev\<close>; \<open>eval_internal\<close> iterates it with fuel, \<open>None\<close> standing for a failed assertion or
  for too little fuel. The expansion of macros of \<open>bootstrap/macro.c\<close> is here, as it evaluates. The
  context is explicit state.

  Arguments of the model, in the record \<open>interp\<close>: the table of primitives, the source position of an
  expression (positions are not part of a cell here), the trait table, the definition of
  refinements, and the special forms that work with fibers. Not modelled: the budget of reductions that lets the scheduler interrupt an actor
  (it is off here), profiling, coverage, the generation of documentation, and the jit, which is
  off unless it is switched on.
\<close>

record interp =
  prims :: "string \<Rightarrow> (tm \<Rightarrow> eval_context \<Rightarrow> result) option"
  span_lo :: "tm \<Rightarrow> u32"
  trait_type_satisfies :: "string \<Rightarrow> string \<Rightarrow> bool"
  refine_def :: "tm \<Rightarrow> eval_context \<Rightarrow> result"
  other_form :: "string \<Rightarrow> eval_context \<Rightarrow> tm \<Rightarrow> tm \<Rightarrow> result"

subsection \<open>Bindings\<close>

definition primitives_lookup :: "interp \<Rightarrow> string \<Rightarrow> tm option" where
  "primitives_lookup I s = (if prims I s \<noteq> None then Some (CBuiltin () s) else None)"

text \<open>Two alists that are equal as lists are taken to be the same pointer in the first test.\<close>

definition eval_lookup :: "interp \<Rightarrow> eval_context \<Rightarrow> string \<Rightarrow> tm option" where
  "eval_lookup I ctx nm =
     (let global = (case global_table ctx nm of Some v \<Rightarrow> Some v | None \<Rightarrow> primitives_lookup I nm)
      in if ctx_env ctx = global_env ctx then global
         else (case eval_lookup_env (ctx_env ctx) nm of Some v \<Rightarrow> Some v | None \<Rightarrow> global))"

definition eval_define :: "string \<Rightarrow> tm \<Rightarrow> eval_context \<Rightarrow> eval_context" where
  "eval_define nm v ctx =
     (let binding = cell_cons (cell_symbol nm) v;
          (ms, env) =
            (case current_loading_module (module_state ctx) of
               Some m \<Rightarrow>
                 (let ms = module_registry_define (Some m) nm v
                             (module_registry_add_symbol (Some m) nm (module_state ctx))
                  in (ms, if module_registry_is_exported (Some m) nm ms then cell_cons binding (ctx_env ctx)
                          else ctx_env ctx))
             | None \<Rightarrow>
                 (module_registry_add_symbol (Some ''<repl>'') nm (module_state ctx), cell_cons binding (ctx_env ctx)))
      in ctx\<lparr>module_state := ms, ctx_env := env, global_env := env,
             global_table := (global_table ctx)(nm \<mapsto> v)\<rparr>)"

text \<open>\<open>m.sin\<close> is looked up in the module that \<open>m\<close> is an alias of, if it is one; \<open>Inl\<close> is an error.\<close>

definition dot_split :: "string \<Rightarrow> (string \<times> string) option" where
  "dot_split nm =
     (let prefix = takeWhile (\<lambda>c. c \<noteq> CHR ''.'') nm; rest = dropWhile (\<lambda>c. c \<noteq> CHR ''.'') nm
      in if prefix \<noteq> [] \<and> length rest \<ge> 2 then Some (take 255 prefix, tl rest) else None)"

definition eval_symbol :: "interp \<Rightarrow> eval_context \<Rightarrow> string \<Rightarrow> tm" where
  "eval_symbol I ctx nm =
     (let ms = module_state ctx;
          undefined_error = cell_error ''undefined-variable'' (Some (cell_symbol nm));
          normal = (case eval_lookup I ctx nm of Some v \<Rightarrow> v | None \<Rightarrow> undefined_error)
      in if nm \<noteq> [] \<and> hd nm = CHR '':'' then cell_symbol nm
         else (case dot_split nm of
             Some (prefix, suffix) \<Rightarrow>
               (case module_registry_resolve_alias prefix ms of
                  Some path \<Rightarrow>
                    if \<not> module_registry_is_exported (Some path) suffix ms then
                      cell_error ''not-exported'' (Some (cell_symbol nm))
                    else (case module_registry_lookup (Some path) suffix ms of Some v \<Rightarrow> v | None \<Rightarrow> normal)
                | None \<Rightarrow> normal)
           | None \<Rightarrow> normal))"

subsection \<open>Environments as cells\<close>

definition env_of_cell :: "tm \<Rightarrow> env" where
  "env_of_cell c =
     (case c of
        CVector _ xs \<Rightarrow> Vector_env (foldl cell_vector_push (cell_vector_new (length xs)) xs)
      | _ \<Rightarrow> List_env c)"

definition cell_of_env :: "env \<Rightarrow> tm" where
  "cell_of_env e =
     (case e of
        Vector_env v \<Rightarrow> CVector () (map (\<lambda>i. the (vec_buf v ! i)) [0..<cell_vector_size v])
      | List_env c \<Rightarrow> c)"

definition extend_cell_env :: "tm \<Rightarrow> tm \<Rightarrow> tm" where
  "extend_cell_env closure_env args = cell_of_env (extend_env (env_of_cell closure_env) args)"

text \<open>
  A number is the index of a variable if the environment is indexed and the number is a
  non-negative integer with a value there; the cast of a double beyond the range of \<^verbatim>\<open>int\<close> is
  undefined.
\<close>

definition eval_number :: "tm \<Rightarrow> double \<Rightarrow> tm option" where
  "eval_number env num =
     (if env_is_indexed (env_of_cell env) \<and> double_le 0 num then do {
        i \<leftarrow> double_to_int32 num;
        Some (if double_eq num (double_of_int i)
              then (case env_lookup_index (env_of_cell env) (nat i) of Some v \<Rightarrow> v | None \<Rightarrow> cell_number num)
              else cell_number num)
      }
      else Some (cell_number num))"

subsection \<open>Macros\<close>

text \<open>The body of a simple macro is evaluated with the bindings as the environment of the context.\<close>

definition macro_apply :: "evaluator \<Rightarrow> macro_entry \<Rightarrow> tm \<Rightarrow> eval_context \<Rightarrow> result" where
  "macro_apply ev m args ctx =
     (if is_pattern_based m then map_option (\<lambda>r. (r, ctx)) (macro_apply_pattern m args)
      else do {
        params \<leftarrow> macro_params m;
        body \<leftarrow> macro_body m;
        let bindings = macro_build_bindings params args;
        if cell_is_error bindings then Some (bindings, ctx) else with_env ev bindings ctx body
      })"

definition macro_of :: "tm \<Rightarrow> eval_context \<Rightarrow> macro_entry option" where
  "macro_of first ctx = Option.bind (cell_get_symbol first) (\<lambda>nm. macro_lookup nm (macros ctx))"

text \<open>
  Both parts of a pair are expanded as expressions, the tail of a list of arguments and quoted data
  too. The expansion need not end.
\<close>

partial_function (option) macro_expand :: "evaluator \<Rightarrow> tm \<Rightarrow> eval_context \<Rightarrow> result" where
  "macro_expand ev e ctx =
     (case e of
        CPair _ first rest \<Rightarrow>
          (case macro_of first ctx of
             Some m \<Rightarrow> do {
               (expanded, ctx) \<leftarrow> macro_apply ev m rest ctx;
               if cell_is_error expanded then Some (expanded, ctx) else macro_expand ev expanded ctx
             }
           | None \<Rightarrow> do {
               (expanded_car, ctx) \<leftarrow> macro_expand ev first ctx;
               (expanded_cdr, ctx) \<leftarrow> macro_expand ev rest ctx;
               Some (cell_cons expanded_car expanded_cdr, ctx)
             })
      | _ \<Rightarrow> Some (e, ctx))"

definition macro_expand_once :: "evaluator \<Rightarrow> tm \<Rightarrow> eval_context \<Rightarrow> result" where
  "macro_expand_once ev e ctx =
     (case e of
        CPair _ first rest \<Rightarrow>
          (case macro_of first ctx of Some m \<Rightarrow> macro_apply ev m rest ctx | None \<Rightarrow> Some (e, ctx))
      | _ \<Rightarrow> Some (e, ctx))"

definition eval_macro_rules :: "eval_context \<Rightarrow> tm \<Rightarrow> result" where
  "eval_macro_rules ctx rest = do {
     nm \<leftarrow> cell_car rest;
     cls \<leftarrow> cell_cdr rest;
     case cell_get_symbol nm of
       None \<Rightarrow> Some (cell_error ''macro-name-not-symbol'' (Some nm), ctx)
     | Some s \<Rightarrow> do {
         r \<leftarrow> macro_define_pattern s cls (macros ctx);
         Some (nm, ctx\<lparr>macros := r\<rparr>)
       }
   }"

definition eval_macro :: "eval_context \<Rightarrow> tm \<Rightarrow> result" where
  "eval_macro ctx rest = do {
     nm \<leftarrow> arg1 rest;
     params \<leftarrow> arg2 rest;
     body \<leftarrow> arg3 rest;
     case cell_get_symbol nm of
       None \<Rightarrow> Some (cell_error ''macro-name-not-symbol'' (Some nm), ctx)
     | Some s \<Rightarrow> Some (nm, ctx\<lparr>macros := macro_define s params body (macros ctx)\<rparr>)
   }"

subsection \<open>Special forms\<close>

text \<open>The clauses of a match are quoted data, so their expression is evaluated first.\<close>

definition eval_match :: "evaluator \<Rightarrow> eval_context \<Rightarrow> tm \<Rightarrow> tm \<Rightarrow> result" where
  "eval_match ev ctx env rest = do {
     expr_unevaled \<leftarrow> arg1 rest;
     clauses_sexpr \<leftarrow> arg2 rest;
     (clauses_data, ctx) \<leftarrow> ev ctx env clauses_sexpr;
     pattern_eval_match ev expr_unevaled clauses_data env ctx
   }"

definition closure_env :: "tm \<Rightarrow> tm" where
  "closure_env env = (if env_is_indexed (env_of_cell env) then env else cell_nil)"

definition eval_lambda_conv :: "tm \<Rightarrow> tm \<Rightarrow> tm option" where
  "eval_lambda_conv env rest = do {
     params \<leftarrow> arg1 rest;
     converted_body \<leftarrow> arg2 rest;
     Some (CLambda () (closure_env env) converted_body (eval_list_length params) None)
   }"

definition lambda_body_expr :: "tm \<Rightarrow> tm option" where
  "lambda_body_expr body_rest =
     (case body_rest of
        CPair _ b (CPair _ _ _) \<Rightarrow> Some (cell_cons (cell_symbol ''begin'') body_rest)
      | CPair _ b _ \<Rightarrow> Some b
      | _ \<Rightarrow> None)"

definition eval_lambda :: "interp \<Rightarrow> evaluator \<Rightarrow> tm \<Rightarrow> tm \<Rightarrow> tm \<Rightarrow> eval_context \<Rightarrow> result" where
  "eval_lambda I ev expr env rest ctx = do {
     params \<leftarrow> arg1 rest;
     body_rest \<leftarrow> cell_cdr rest;
     body_expr \<leftarrow> lambda_body_expr body_rest;
     (expanded_body, ctx) \<leftarrow> macro_expand ev body_expr ctx;
     if cell_is_error expanded_body then Some (error_stamp_return expanded_body (span_lo I expr), ctx)
     else do {
       (param_names, arity, constraints) \<leftarrow> extract_param_names_with_constraints True params;
       converted_body \<leftarrow> debruijn_convert expanded_body [param_names];
       Some (CLambda () (closure_env env) converted_body arity constraints, ctx)
     }
   }"

definition is_lambda_expr :: "tm \<Rightarrow> bool" where
  "is_lambda_expr e \<longleftrightarrow> (case e of CPair _ (CSymbol _ s) _ \<Rightarrow> s = ''lambda'' | _ \<Rightarrow> False)"

definition eval_define_form :: "evaluator \<Rightarrow> eval_context \<Rightarrow> tm \<Rightarrow> tm \<Rightarrow> result" where
  "eval_define_form ev ctx env rest = do {
     nm \<leftarrow> arg1 rest;
     value_expr \<leftarrow> arg2 rest;
     nm \<leftarrow> cell_get_symbol nm;
     let ctx = (if is_lambda_expr value_expr then eval_define nm cell_nil ctx else ctx);
     (v, ctx) \<leftarrow> ev ctx env value_expr;
     Some (v, eval_define nm v ctx)
   }"

definition eval_if :: "evaluator \<Rightarrow> eval_context \<Rightarrow> tm \<Rightarrow> tm \<Rightarrow> result" where
  "eval_if ev ctx env rest = do {
     cond_expr \<leftarrow> arg1 rest;
     then_expr \<leftarrow> arg2 rest;
     else_expr \<leftarrow> arg3 rest;
     (cond_val, ctx) \<leftarrow> ev ctx env cond_expr;
     ev ctx env (if cell_get_bool cond_val = Some True then then_expr else else_expr)
   }"

fun begin_loop :: "evaluator \<Rightarrow> (tm \<Rightarrow> tm) \<Rightarrow> tm \<Rightarrow> tm \<Rightarrow> eval_context \<Rightarrow> result" where
  "begin_loop ev stamp env (CPair _ e rest) ctx =
     (if \<not> cell_is_pair rest then ev ctx env e
      else do {
        (intermediate, ctx) \<leftarrow> ev ctx env e;
        if cell_is_error intermediate then Some (stamp intermediate, ctx)
        else begin_loop ev stamp env rest ctx
      })"
| "begin_loop ev stamp env _ ctx = None"

definition eval_begin :: "interp \<Rightarrow> evaluator \<Rightarrow> eval_context \<Rightarrow> tm \<Rightarrow> tm \<Rightarrow> tm \<Rightarrow> result" where
  "eval_begin I ev ctx env expr rest =
     (if \<not> cell_is_pair rest then Some (cell_error ''begin requires at least one expression'' (Some expr), ctx)
      else begin_loop ev (\<lambda>e. error_stamp_return e (span_lo I expr)) env rest ctx)"

text \<open>\<open>and\<close> stops at false, \<open>or\<close> at true; both stop at an error.\<close>

definition eval_and_or :: "bool \<Rightarrow> interp \<Rightarrow> evaluator \<Rightarrow> eval_context \<Rightarrow> tm \<Rightarrow> tm \<Rightarrow> tm \<Rightarrow> result" where
  "eval_and_or stop I ev ctx env expr rest = do {
     a_expr \<leftarrow> arg1 rest;
     b_expr \<leftarrow> arg2 rest;
     (a_val, ctx) \<leftarrow> ev ctx env a_expr;
     if cell_is_error a_val then Some (error_stamp_return a_val (span_lo I expr), ctx)
     else if cell_get_bool a_val = Some stop then Some (a_val, ctx)
     else ev ctx env b_expr
   }"

definition call_builtin :: "interp \<Rightarrow> string \<Rightarrow> tm \<Rightarrow> eval_context \<Rightarrow> result" where
  "call_builtin I f args ctx = do { p \<leftarrow> prims I f; p args ctx }"

definition eval_bind :: "interp \<Rightarrow> evaluator \<Rightarrow> eval_context \<Rightarrow> tm \<Rightarrow> tm \<Rightarrow> tm \<Rightarrow> result" where
  "eval_bind I ev ctx env expr rest = do {
     val_expr \<leftarrow> arg1 rest;
     fn_expr \<leftarrow> arg2 rest;
     (val, ctx) \<leftarrow> ev ctx env val_expr;
     if cell_is_error val then Some (error_stamp_return val (span_lo I expr), ctx)
     else do {
       (fn, ctx) \<leftarrow> ev ctx env fn_expr;
       if cell_is_error fn then Some (error_stamp_return fn (span_lo I expr), ctx)
       else (case fn of
           CLambda _ cenv body _ _ \<Rightarrow> ev ctx (extend_cell_env cenv (tm_list [val])) body
         | CBuiltin _ f \<Rightarrow> call_builtin I f (tm_list [val]) ctx
         | _ \<Rightarrow> Some (cell_error ''bind-requires-function'' (Some fn), ctx))
     }
   }"

definition eval_try :: "interp \<Rightarrow> evaluator \<Rightarrow> eval_context \<Rightarrow> tm \<Rightarrow> tm \<Rightarrow> tm \<Rightarrow> result" where
  "eval_try I ev ctx env expr rest = do {
     inner_expr \<leftarrow> arg1 rest;
     (val, ctx) \<leftarrow> ev ctx env inner_expr;
     Some (if cell_is_error val then error_stamp_return val (span_lo I expr) else val, ctx)
   }"

fun eval_quasiquote :: "evaluator \<Rightarrow> eval_context \<Rightarrow> tm \<Rightarrow> tm \<Rightarrow> result" where
  "eval_quasiquote ev ctx env (CPair p first rest) =
     (if first = cell_symbol ''~'' \<or> first = cell_symbol ''unquote'' then
        (case rest of
           CNil _ \<Rightarrow> Some (cell_error ''quasiquote-error'' (Some (cell_symbol ''unquote-requires-argument'')), ctx)
         | CPair _ unquoted_expr _ \<Rightarrow> ev ctx env unquoted_expr
         | _ \<Rightarrow> None)
      else do {
        (new_car, ctx) \<leftarrow> eval_quasiquote ev ctx env first;
        (new_cdr, ctx) \<leftarrow> eval_quasiquote ev ctx env rest;
        Some (cell_cons new_car new_cdr, ctx)
      })"
| "eval_quasiquote ev ctx env expr = Some (expr, ctx)"


subsection \<open>Forms on types, effects and refinements\<close>

definition eval_type_decl :: "interp \<Rightarrow> evaluator \<Rightarrow> eval_context \<Rightarrow> tm \<Rightarrow> tm \<Rightarrow> tm \<Rightarrow> result" where
  "eval_type_decl I ev ctx env expr rest = do {
     nm \<leftarrow> arg1 rest;
     type_expr \<leftarrow> arg2 rest;
     if \<not> cell_is_symbol nm then Some (cell_error ''type-decl requires symbol as first argument'' (Some nm), ctx)
     else do {
       (type, ctx) \<leftarrow> ev ctx env type_expr;
       if cell_is_error type then Some (error_stamp_return type (span_lo I expr), ctx)
       else do {
         (result, anns) \<leftarrow> prim_type_declare (tm_list [nm, type]) (type_annotations ctx);
         Some (result, ctx\<lparr>type_annotations := anns\<rparr>)
       }
     }
   }"

definition eval_type_check :: "eval_context \<Rightarrow> tm \<Rightarrow> result" where
  "eval_type_check ctx rest = do {
     nm \<leftarrow> arg1 rest;
     if \<not> cell_is_symbol nm then Some (cell_error ''type-check requires symbol'' (Some nm), ctx)
     else do {
       result \<leftarrow> prim_type_query (tm_list [nm]) (type_annotations ctx);
       Some (result, ctx)
     }
   }"

definition eval_type_validate :: "interp \<Rightarrow> eval_context \<Rightarrow> tm \<Rightarrow> result" where
  "eval_type_validate I ctx rest = do {
     nm \<leftarrow> arg1 rest;
     if \<not> cell_is_symbol nm then Some (cell_error ''type-validate requires symbol'' (Some nm), ctx)
     else do {
       result \<leftarrow> prim_type_validate (eval_lookup I ctx) (tm_list [nm]) (type_annotations ctx);
       Some (result, ctx)
     }
   }"

text \<open>The type of a symbol: its annotation, or the type inferred from its value.\<close>

definition infer_symbol :: "interp \<Rightarrow> eval_context \<Rightarrow> string \<Rightarrow> tm option" where
  "infer_symbol I ctx s = do {
     declared \<leftarrow> prim_type_query (tm_list [cell_symbol s]) (type_annotations ctx);
     if \<not> cell_is_nil declared then Some declared
     else (case eval_lookup I ctx s of
         Some v \<Rightarrow> prim_type_infer (tm_list [v])
       | None \<Rightarrow> Some (make_type_struct '':any'' cell_nil))
   }"

definition eval_type_infer :: "interp \<Rightarrow> evaluator \<Rightarrow> eval_context \<Rightarrow> tm \<Rightarrow> tm \<Rightarrow> result" where
  "eval_type_infer I ev ctx env rest = do {
     e \<leftarrow> arg1 rest;
     case cell_get_symbol e of
       Some s \<Rightarrow> map_option (\<lambda>t. (t, ctx)) (infer_symbol I ctx s)
     | None \<Rightarrow> do {
         (evaled, ctx) \<leftarrow> ev ctx env e;
         result \<leftarrow> prim_type_infer (tm_list [evaled]);
         Some (result, ctx)
       }
   }"

fun eval_args_loop :: "evaluator \<Rightarrow> (tm \<Rightarrow> tm) \<Rightarrow> tm \<Rightarrow> tm \<Rightarrow> tm list \<Rightarrow> eval_context \<Rightarrow>
    ((tm + tm list) \<times> eval_context) option" where
  "eval_args_loop ev stamp env (CPair _ e rest) acc ctx = do {
     (arg, ctx) \<leftarrow> ev ctx env e;
     if cell_is_error arg then Some (Inl (stamp arg), ctx)
     else eval_args_loop ev stamp env rest (arg # acc) ctx
   }"
| "eval_args_loop ev stamp env _ acc ctx = Some (Inr (rev acc), ctx)"

definition eval_type_assert :: "interp \<Rightarrow> evaluator \<Rightarrow> eval_context \<Rightarrow> tm \<Rightarrow> tm \<Rightarrow> tm \<Rightarrow> result" where
  "eval_type_assert I ev ctx env expr rest = do {
     fn_name \<leftarrow> arg1 rest;
     arg_exprs \<leftarrow> cell_cdr rest;
     if \<not> cell_is_symbol fn_name then Some (cell_error ''type-assert requires symbol as first argument'' (Some fn_name), ctx)
     else do {
       (args, ctx) \<leftarrow> eval_args_loop ev (\<lambda>e. error_stamp_return e (span_lo I expr)) env arg_exprs [] ctx;
       case args of
         Inl err \<Rightarrow> Some (err, ctx)
       | Inr vals \<Rightarrow> do {
           result \<leftarrow> prim_type_check_apply (cell_cons fn_name (tm_list vals)) (type_annotations ctx);
           Some (result, ctx)
         }
     }
   }"

text \<open>
  The type of an expression that is not evaluated. The return type of a function type after as many
  arguments as the application has; \<open>None\<close> inside is a NULL pointer.
\<close>

fun return_type :: "tm option \<Rightarrow> tm \<Rightarrow> tm option option" where
  "return_type current_type (CPair _ _ arg_iter) =
     (case current_type of
        None \<Rightarrow> Some None
      | Some t \<Rightarrow>
          if \<not> is_type_struct (Some t) then Some (Some t)
          else do {
            k \<leftarrow> get_type_kind (Some t);
            if k \<noteq> Some '':func'' then Some (Some t)
            else do {
              c \<leftarrow> cell_struct_get_field t (cell_symbol '':codomain'');
              return_type c arg_iter
            }
          })"
| "return_type current_type _ = Some current_type"

definition infer_if :: "interp \<Rightarrow> evaluator \<Rightarrow> eval_context \<Rightarrow> tm \<Rightarrow> tm \<Rightarrow> tm \<Rightarrow> result" where
  "infer_if I ev ctx env e op_args = do {
     then_expr \<leftarrow> arg2 op_args;
     else_expr \<leftarrow> arg3 op_args;
     (then_type, ctx) \<leftarrow> ev ctx env (tm_list [cell_symbol ''type-infer-all'', then_expr]);
     (else_type, ctx) \<leftarrow> ev ctx env (tm_list [cell_symbol ''type-infer-all'', else_expr]);
     if cell_is_error then_type then Some (error_stamp_return then_type (span_lo I e), ctx)
     else if cell_is_error else_type then Some (error_stamp_return else_type (span_lo I e), ctx)
     else do {
       eq \<leftarrow> types_equal (Some then_type) (Some else_type);
       Some (if eq then then_type else type_fields2 '':union'' '':left'' then_type '':right'' else_type, ctx)
     }
   }"

definition infer_lambda :: "interp \<Rightarrow> evaluator \<Rightarrow> eval_context \<Rightarrow> tm \<Rightarrow> tm \<Rightarrow> tm \<Rightarrow> result" where
  "infer_lambda I ev ctx env e op_args = do {
     params \<leftarrow> arg1 op_args;
     body \<leftarrow> arg2 op_args;
     (body_type, ctx) \<leftarrow> ev ctx env (tm_list [cell_symbol ''type-infer-all'', body]);
     if cell_is_error body_type then Some (error_stamp_return body_type (span_lo I e), ctx)
     else Some ((type_fields2 '':func'' '':domain'' (make_type_struct '':any'' cell_nil) '':codomain'' ^^ eval_list_length params)
                  body_type, ctx)
   }"

text \<open>The name of the operator goes through a buffer of 256 bytes.\<close>

definition infer_application :: "eval_context \<Rightarrow> string \<Rightarrow> tm \<Rightarrow> tm option" where
  "infer_application ctx op_name op_args = do {
     let keyword = (if op_name \<noteq> [] \<and> hd op_name = CHR '':'' then op_name else take 255 (CHR '':'' # op_name));
     sig \<leftarrow> prim_type_prim_sig (tm_list [cell_symbol keyword]);
     from_sig \<leftarrow> (if \<not> cell_is_nil sig \<and> is_type_struct (Some sig) then return_type (Some sig) op_args else Some None);
     case from_sig of
       Some t \<Rightarrow> Some t
     | None \<Rightarrow> do {
         fn_type \<leftarrow> prim_type_query (tm_list [cell_symbol op_name]) (type_annotations ctx);
         from_ann \<leftarrow> (if \<not> cell_is_nil fn_type \<and> is_type_struct (Some fn_type) then return_type (Some fn_type) op_args
                      else Some None);
         Some (case from_ann of Some t \<Rightarrow> t | None \<Rightarrow> make_type_struct '':any'' cell_nil)
       }
   }"

definition eval_type_infer_all :: "interp \<Rightarrow> evaluator \<Rightarrow> eval_context \<Rightarrow> tm \<Rightarrow> tm \<Rightarrow> result" where
  "eval_type_infer_all I ev ctx env rest = do {
     e \<leftarrow> arg1 rest;
     let fallback = do {
           (evaled, ctx) \<leftarrow> ev ctx env e;
           if cell_is_error evaled then Some (error_stamp_return evaled (span_lo I e), ctx)
           else do {
             inferred \<leftarrow> prim_type_infer (tm_list [evaled]);
             Some (inferred, ctx)
           }
         };
     case e of
       CNumber _ _ \<Rightarrow> Some (make_type_struct '':int'' cell_nil, ctx)
     | CBool _ _ \<Rightarrow> Some (make_type_struct '':bool'' cell_nil, ctx)
     | CString _ _ \<Rightarrow> Some (make_type_struct '':string'' cell_nil, ctx)
     | CNil _ \<Rightarrow> Some (make_type_struct '':nil'' cell_nil, ctx)
     | CSymbol _ s \<Rightarrow> map_option (\<lambda>t. (t, ctx)) (infer_symbol I ctx s)
     | CPair _ (CSymbol _ op) op_args \<Rightarrow>
         if op = ''if'' then infer_if I ev ctx env e op_args
         else if op = ''lambda'' then infer_lambda I ev ctx env e op_args
         else map_option (\<lambda>t. (t, ctx)) (infer_application ctx op op_args)
     | _ \<Rightarrow> fallback
   }"

definition eval_refine_def :: "interp \<Rightarrow> evaluator \<Rightarrow> eval_context \<Rightarrow> tm \<Rightarrow> tm \<Rightarrow> tm \<Rightarrow> result" where
  "eval_refine_def I ev ctx env expr rest = do {
     nm \<leftarrow> arg1 rest;
     base_expr \<leftarrow> arg2 rest;
     pred_expr \<leftarrow> arg3 rest;
     if \<not> cell_is_symbol nm then Some (cell_error ''refine-def requires symbol as first argument'' (Some nm), ctx)
     else do {
       (base_type, ctx) \<leftarrow> ev ctx env base_expr;
       if cell_is_error base_type then Some (error_stamp_return base_type (span_lo I expr), ctx)
       else do {
         (predicate, ctx) \<leftarrow> ev ctx env pred_expr;
         if cell_is_error predicate then Some (error_stamp_return predicate (span_lo I expr), ctx)
         else refine_def I (tm_list [nm, base_type, predicate]) ctx
       }
     }
   }"

text \<open>The operations of an effect are collected in reverse order.\<close>

fun effect_ops :: "tm \<Rightarrow> tm list \<Rightarrow> tm + tm list" where
  "effect_ops (CPair _ op rest) ops = (if cell_is_symbol op then effect_ops rest (op # ops) else Inl op)"
| "effect_ops _ ops = Inr ops"

definition eval_effect_def :: "eval_context \<Rightarrow> tm \<Rightarrow> result" where
  "eval_effect_def ctx rest = do {
     nm \<leftarrow> arg1 rest;
     op_rest \<leftarrow> cell_cdr rest;
     Some (case cell_get_symbol nm of
         None \<Rightarrow> (cell_error ''effect-declare-requires-symbol'' (Some nm), ctx)
       | Some effect_name \<Rightarrow>
           (case effect_ops op_rest [] of
              Inl op \<Rightarrow> (cell_error ''effect-op-requires-symbol'' (Some op), ctx)
            | Inr ops \<Rightarrow> (cell_bool True,
                ctx\<lparr>effect_registry := eval_register_effect (effect_registry ctx) effect_name (tm_list ops)\<rparr>)))
   }"

definition eval_effect_q :: "eval_context \<Rightarrow> tm \<Rightarrow> result" where
  "eval_effect_q ctx rest = do {
     nm \<leftarrow> arg1 rest;
     Some (case cell_get_symbol nm of
         None \<Rightarrow> cell_error ''effect-query-requires-symbol'' (Some nm)
       | Some s \<Rightarrow> cell_bool (eval_has_effect (effect_registry ctx) s), ctx)
   }"

definition eval_effect_get :: "eval_context \<Rightarrow> tm \<Rightarrow> result" where
  "eval_effect_get ctx rest = do {
     nm \<leftarrow> arg1 rest;
     Some (case cell_get_symbol nm of
         None \<Rightarrow> cell_error ''effect-ops-requires-symbol'' (Some nm)
       | Some s \<Rightarrow>
           (case eval_lookup_effect (effect_registry ctx) s of
              None \<Rightarrow> cell_error ''undeclared-effect'' (Some nm)
            | Some ops \<Rightarrow> ops), ctx)
   }"

subsection \<open>Application\<close>

fun eval_list :: "evaluator \<Rightarrow> eval_context \<Rightarrow> tm \<Rightarrow> tm \<Rightarrow> result" where
  "eval_list ev ctx env (CNil _) = Some (cell_nil, ctx)"
| "eval_list ev ctx env (CPair _ first rest) = do {
     (first_eval, ctx) \<leftarrow> ev ctx env first;
     (rest_eval, ctx) \<leftarrow> eval_list ev ctx env rest;
     Some (cell_cons first_eval rest_eval, ctx)
   }"
| "eval_list ev ctx env expr = ev ctx env expr"

text \<open>The argument at an index, and the first unsatisfied trait constraint of a type argument.\<close>

fun arg_at :: "nat \<Rightarrow> tm \<Rightarrow> tm option" where
  "arg_at i (CNil p) = Some (CNil p)"
| "arg_at 0 args = Some args"
| "arg_at (Suc i) (CPair _ _ rest) = arg_at i rest"
| "arg_at (Suc i) _ = None"

fun check_constraints :: "(string \<Rightarrow> string \<Rightarrow> bool) \<Rightarrow> tm \<Rightarrow> tm \<Rightarrow> tm option option" where
  "check_constraints sat (CNil _) args = Some None"
| "check_constraints sat (CPair _ cpair clist) args =
     (case cpair of
        CPair _ (CNumber _ d) (CSymbol _ trait) \<Rightarrow> do {
          idx \<leftarrow> double_to_int32 d;
          at \<leftarrow> arg_at (nat idx) args;
          case at of
            CNil _ \<Rightarrow> check_constraints sat clist args
          | CPair _ (CSymbol p type_name) _ \<Rightarrow>
              if sat type_name trait then check_constraints sat clist args
              else Some (Some (cell_error ''trait-constraint-unsatisfied''
                     (Some (cell_cons (CSymbol p type_name) (cell_symbol trait)))))
          | CPair _ _ _ \<Rightarrow> check_constraints sat clist args
          | _ \<Rightarrow> None
        }
      | _ \<Rightarrow> None)"
| "check_constraints sat _ args = None"

definition apply_fn :: "interp \<Rightarrow> evaluator \<Rightarrow> eval_context \<Rightarrow> tm \<Rightarrow> tm \<Rightarrow> result" where
  "apply_fn I ev ctx fn args =
     (case fn of
        CBuiltin _ f \<Rightarrow> call_builtin I f args ctx
      | CLambda _ cenv body arity constraints \<Rightarrow>
          if eval_list_length args \<noteq> arity then
            Some (cell_error ''arity-mismatch''
              (Some (tm_list [cell_number (double_of_int (int arity)), cell_number (double_of_int (int (eval_list_length args)))])), ctx)
          else do {
            violation \<leftarrow> (case constraints of None \<Rightarrow> Some None | Some cl \<Rightarrow> check_constraints (trait_type_satisfies I) cl args);
            case violation of
              Some err \<Rightarrow> Some (err, ctx)
            | None \<Rightarrow> ev ctx (extend_cell_env cenv args) body
          }
      | _ \<Rightarrow> Some (cell_error ''not-a-function'' (Some fn), ctx))"

definition eval_application :: "interp \<Rightarrow> evaluator \<Rightarrow> eval_context \<Rightarrow> tm \<Rightarrow> tm \<Rightarrow> tm \<Rightarrow> result" where
  "eval_application I ev ctx env first rest =
     (if first = cell_symbol ''symbol?'' \<and> eval_lookup I ctx ''symbol?'' = None then do {
        (_, ctx) \<leftarrow> eval_list ev ctx env rest;
        Some (cell_error ''undefined-variable'' (Some (cell_symbol ''symbol?'')), ctx)
      }
      else do {
        (fn, ctx) \<leftarrow> (if first = cell_symbol ''symbol?'' then Some (the (eval_lookup I ctx ''symbol?''), ctx)
                      else ev ctx env first);
        (args, ctx) \<leftarrow> eval_list ev ctx env rest;
        apply_fn I ev ctx fn args
      })"

subsection \<open>The evaluator\<close>

definition outside_forms :: "string list" where
  "outside_forms = [''handle'', ''handle-resume'', ''perform'', ''handle-linear'', ''consume'']"

definition eval_pair :: "interp \<Rightarrow> evaluator \<Rightarrow> eval_context \<Rightarrow> tm \<Rightarrow> tm \<Rightarrow> tm \<Rightarrow> tm \<Rightarrow> result" where
  "eval_pair I ev ctx env expr first rest =
     (let s = (case cell_get_symbol first of Some s \<Rightarrow> s | None \<Rightarrow> [])
      in if s = ''quote'' then map_option (\<lambda>arg. (arg, ctx)) (arg1 rest)
         else if s = ''quasiquote-tilde'' \<or> s = ''quasiquote'' then do { arg \<leftarrow> arg1 rest; eval_quasiquote ev ctx env arg }
         else if s = ''macro-rules'' then eval_macro_rules ctx rest
         else if s = ''macro'' \<and> eval_list_length rest = 3 then eval_macro ctx rest
         else if s = ''match'' then eval_match ev ctx env rest
         else if s \<in> set outside_forms then other_form I s ctx env expr
         else if s = ''define'' then eval_define_form ev ctx env rest
         else if s = ''type-decl'' then eval_type_decl I ev ctx env expr rest
         else if s = ''type-check'' then eval_type_check ctx rest
         else if s = ''type-validate'' then eval_type_validate I ctx rest
         else if s = ''type-infer'' then eval_type_infer I ev ctx env rest
         else if s = ''type-assert'' then eval_type_assert I ev ctx env expr rest
         else if s = ''type-infer-all'' then eval_type_infer_all I ev ctx env rest
         else if s = '':lambda-converted'' then map_option (\<lambda>l. (l, ctx)) (eval_lambda_conv env rest)
         else if s = ''lambda'' then eval_lambda I ev expr env rest ctx
         else if s = ''if'' then eval_if ev ctx env rest
         else if s = ''begin'' then eval_begin I ev ctx env expr rest
         else if s = ''and'' then eval_and_or False I ev ctx env expr rest
         else if s = ''or'' then eval_and_or True I ev ctx env expr rest
         else if s = ''bind'' then eval_bind I ev ctx env expr rest
         else if s = ''try'' then eval_try I ev ctx env expr rest
         else if s = ''refine-def'' then eval_refine_def I ev ctx env expr rest
         else if s = ''effect-def'' then eval_effect_def ctx rest
         else if s = ''effect?'' then eval_effect_q ctx rest
         else if s = ''effect-get'' then eval_effect_get ctx rest
         else eval_application I ev ctx env first rest)"

definition eval_step :: "interp \<Rightarrow> evaluator \<Rightarrow> evaluator" where
  "eval_step I ev ctx env expr =
     (case expr of
        CNumber _ num \<Rightarrow> map_option (\<lambda>v. (v, ctx)) (eval_number env num)
      | CInteger _ _ \<Rightarrow> Some (expr, ctx)
      | CBool _ _ \<Rightarrow> Some (expr, ctx)
      | CNil _ \<Rightarrow> Some (expr, ctx)
      | CString _ _ \<Rightarrow> Some (expr, ctx)
      | CSymbol _ nm \<Rightarrow> Some (eval_symbol I ctx nm, ctx)
      | CPair _ first rest \<Rightarrow>
          if cell_is_symbol first \<and> macro_is_macro_call expr (macros ctx) then do {
            (expanded, ctx) \<leftarrow> macro_expand ev expr ctx;
            if cell_is_error expanded then Some (error_stamp_return expanded (span_lo I expr), ctx)
            else ev ctx env expanded
          }
          else eval_pair I ev ctx env expr first rest
      | _ \<Rightarrow> Some (cell_error ''eval-error'' (Some expr), ctx))"

primrec eval_internal :: "interp \<Rightarrow> nat \<Rightarrow> evaluator" where
  "eval_internal I 0 = (\<lambda>ctx env expr. None)"
| "eval_internal I (Suc n) = eval_step I (eval_internal I n)"

definition eval_top :: "interp \<Rightarrow> nat \<Rightarrow> eval_context \<Rightarrow> tm \<Rightarrow> result" where
  "eval_top I n = eval_in_context (eval_internal I n)"

end
