(* ===== verification/EvalFacts.thy ===== *)
theory EvalFacts
  imports Eval
begin

section \<open>Facts on the evaluator\<close>

text \<open>
  The result of an evaluation does not depend on the fuel once there is enough of it, which holds for
  macros, patterns and the match form too; and definitions inside modules are visible beyond what
  the module exports.
\<close>

subsection \<open>More fuel\<close>

text \<open>
  A result is below another if it is the same or did not come about; an evaluator is below another
  if its results are. The forms are monotone in the evaluator, by the structure of their definition.
\<close>

definition opt_le :: "'a option \<Rightarrow> 'a option \<Rightarrow> bool" where
  "opt_le x y \<longleftrightarrow> (x = None \<or> x = y)"

definition ev_le :: "evaluator \<Rightarrow> evaluator \<Rightarrow> bool" where
  "ev_le ev ev' \<longleftrightarrow> (\<forall>ctx env e. opt_le (ev ctx env e) (ev' ctx env e))"

named_theorems opt_mono

lemma opt_le_bind [opt_mono]:
  assumes "opt_le x x'" "\<And>a. x = Some a \<Longrightarrow> opt_le (f a) (f' a)"
  shows "opt_le (Option.bind x f) (Option.bind x' f')"
  using assms by (cases x) (simp_all add: opt_le_def, fastforce)

lemma opt_le_refl [opt_mono]: "opt_le x x"
  by (simp add: opt_le_def)

lemma opt_le_if [opt_mono]:
  "(c \<Longrightarrow> opt_le a a') \<Longrightarrow> (\<not> c \<Longrightarrow> opt_le b b') \<Longrightarrow> opt_le (if c then a else b) (if c then a' else b')"
  by simp

lemma opt_le_map [opt_mono]: "opt_le x x' \<Longrightarrow> opt_le (map_option f x) (map_option f x')"
  by (auto simp: opt_le_def)

lemma opt_le_prod [opt_mono]: "(\<And>a b. p = (a, b) \<Longrightarrow> opt_le (f a b) (f' a b)) \<Longrightarrow> opt_le (case_prod f p) (case_prod f' p)"
  by (cases p) simp

lemma opt_le_option [opt_mono]:
  "(x = None \<Longrightarrow> opt_le a a') \<Longrightarrow> (\<And>y. x = Some y \<Longrightarrow> opt_le (f y) (f' y)) \<Longrightarrow> opt_le (case_option a f x) (case_option a' f' x)"
  by (cases x) simp_all

lemma opt_le_sum [opt_mono]:
  "(\<And>y. opt_le (f y) (f' y)) \<Longrightarrow> (\<And>y. opt_le (g y) (g' y)) \<Longrightarrow> opt_le (case_sum f g x) (case_sum f' g' x)"
  by (cases x) simp_all

lemma opt_le_cell [opt_mono]:
  "(\<And>a b. opt_le (f0 a b) (f0' a b)) \<Longrightarrow> (\<And>a b. opt_le (f1 a b) (f1' a b)) \<Longrightarrow> (\<And>a b. opt_le (f2 a b) (f2' a b)) \<Longrightarrow> 
   (\<And>a b. opt_le (f3 a b) (f3' a b)) \<Longrightarrow> (\<And>a. opt_le (f4 a) (f4' a)) \<Longrightarrow> (\<And>a b. opt_le (f5 a b) (f5' a b)) \<Longrightarrow> 
   (\<And>a b c. opt_le (f6 a b c) (f6' a b c)) \<Longrightarrow> (\<And>a b c d e f. opt_le (f7 a b c d e f) (f7' a b c d e f)) \<Longrightarrow> 
   (\<And>a b c d e. opt_le (f8 a b c d e) (f8' a b c d e)) \<Longrightarrow> (\<And>a b c d e f g. opt_le (f9 a b c d e f g) (f9' a b c d e f g)) \<Longrightarrow> 
   (\<And>a b. opt_le (f10 a b) (f10' a b)) \<Longrightarrow> (\<And>a b. opt_le (f11 a b) (f11' a b)) \<Longrightarrow> (\<And>a b. opt_le (f12 a b) (f12' a b)) \<Longrightarrow> 
   (\<And>a b. opt_le (f13 a b) (f13' a b)) \<Longrightarrow> (\<And>a b. opt_le (f14 a b) (f14' a b)) \<Longrightarrow> (\<And>a b. opt_le (f15 a b) (f15' a b)) \<Longrightarrow> 
   (\<And>a b c. opt_le (f16 a b c) (f16' a b c)) \<Longrightarrow> (\<And>a b c d e. opt_le (f17 a b c d e) (f17' a b c d e)) \<Longrightarrow> 
   (\<And>a b. opt_le (f18 a b) (f18' a b)) \<Longrightarrow> (\<And>a b. opt_le (f19 a b) (f19' a b)) \<Longrightarrow> 
   opt_le (case_cell f0 f1 f2 f3 f4 f5 f6 f7 f8 f9 f10 f11 f12 f13 f14 f15 f16 f17 f18 f19 c)
     (case_cell f0' f1' f2' f3' f4' f5' f6' f7' f8' f9' f10' f11' f12' f13' f14' f15' f16' f17' f18' f19' c)"
  by (cases c) simp_all

lemma eval_in_context_mono [opt_mono]: "ev_le ev ev' \<Longrightarrow> opt_le (eval_in_context ev ctx e) (eval_in_context ev' ctx e)"
  by (simp add: eval_in_context_def ev_le_def)

lemma with_env_mono [opt_mono]:
  assumes "ev_le ev ev'"
  shows "opt_le (with_env ev env ctx e) (with_env ev' env ctx e)"
  unfolding with_env_def by (intro opt_mono assms)

subsubsection \<open>Macros\<close>

lemma macro_apply_mono [opt_mono]:
  assumes "ev_le ev ev'"
  shows "opt_le (macro_apply ev m args ctx) (macro_apply ev' m args ctx)"
  unfolding macro_apply_def Let_def by (intro opt_mono assms)

lemma opt_le_SomeD: "opt_le x y \<Longrightarrow> x = Some r \<Longrightarrow> y = Some r"
  by (auto simp: opt_le_def)

lemma macro_expand_more:
  assumes "macro_expand ev e ctx = Some r"
  shows "ev_le ev ev' \<longrightarrow> macro_expand ev' e ctx = Some r"
proof (rule macro_expand.raw_induct [where P = "\<lambda>ev e ctx r. ev_le ev ev' \<longrightarrow> macro_expand ev' e ctx = Some r", OF _ assms], rule impI)
  fix f ev e ctx r
  assume IH: "\<And>ev e ctx r. f ev e ctx = Some r \<Longrightarrow> ev_le ev ev' \<longrightarrow> macro_expand ev' e ctx = Some r"
    and le: "ev_le ev ev'"
    and body: "(case e of
        CPair _ first rest \<Rightarrow>
          (case macro_of first ctx of
             None \<Rightarrow> do {
               (expanded_car, ctx) \<leftarrow> f ev first ctx;
               (expanded_cdr, ctx) \<leftarrow> f ev rest ctx;
               Some (cell_cons expanded_car expanded_cdr, ctx)
             }
           | Some m \<Rightarrow> do {
               (expanded, ctx) \<leftarrow> macro_apply ev m rest ctx;
               if cell_is_error expanded then Some (expanded, ctx) else f ev expanded ctx
             })
      | _ \<Rightarrow> Some (e, ctx)) = Some r"
  note IH = IH [of ev, THEN mp, OF _ le]
  show "macro_expand ev' e ctx = Some r"
  proof (cases e)
    case (CPair u first rest)
    show ?thesis
    proof (cases "macro_of first ctx")
      case None
      with body CPair obtain a ctx1 d ctx2 where
        "f ev first ctx = Some (a, ctx1)" "f ev rest ctx1 = Some (d, ctx2)" "r = (cell_cons a d, ctx2)"
        by (auto simp: bind_eq_Some_conv)
      with IH None CPair show ?thesis by (subst macro_expand.simps) simp
    next
      case (Some m)
      with body CPair obtain x ctx1 where x: "macro_apply ev m rest ctx = Some (x, ctx1)"
        "(if cell_is_error x then Some (x, ctx1) else f ev x ctx1) = Some r"
        by (auto simp: bind_eq_Some_conv)
      have "macro_apply ev' m rest ctx = Some (x, ctx1)" using opt_le_SomeD [OF macro_apply_mono [OF le] x(1)] .
      with x(2) IH Some CPair show ?thesis by (subst macro_expand.simps) (auto split: if_splits)
    qed
  qed (use body in \<open>simp_all add: macro_expand.simps\<close>)
qed

lemma macro_expand_mono [opt_mono]: "ev_le ev ev' \<Longrightarrow> opt_le (macro_expand ev e ctx) (macro_expand ev' e ctx)"
  using macro_expand_more [of ev e ctx _ ev'] by (cases "macro_expand ev e ctx") (auto simp: opt_le_def)

lemma eval_lambda_mono [opt_mono]:
  assumes "ev_le ev ev'"
  shows "opt_le (eval_lambda I ev expr env rest ctx) (eval_lambda I ev' expr env rest ctx)"
  unfolding eval_lambda_def by (intro opt_mono assms)

subsubsection \<open>Patterns\<close>

lemma try_match_mono_size:
  assumes le: "ev_le ev ev'"
  shows "size_class.size p \<le> n \<Longrightarrow> opt_le (pattern_try_match ev v p ctx) (pattern_try_match ev' v p ctx) \<and>
    opt_le (match_alternatives ev v p ctx) (match_alternatives ev' v p ctx) \<and>
    opt_le (match_fields ev v p bs ctx) (match_fields ev' v p bs ctx)"
proof (induction n arbitrary: p v ctx bs)
  case 0
  then show ?case by (cases p) simp_all
next
  case (Suc n)
  have R: "opt_le (pattern_try_match ev v q ctx) (pattern_try_match ev' v q ctx)"
    and A: "opt_le (match_alternatives ev v q ctx) (match_alternatives ev' v q ctx)"
    and F: "opt_le (match_fields ev v q bs ctx) (match_fields ev' v q bs ctx)"
    if "size_class.size q < size_class.size p" for v q bs ctx
    using Suc.IH Suc.prems that by simp_all
  have "opt_le (pattern_try_match ev v p ctx) (pattern_try_match ev' v p ctx)"
    unfolding pattern_try_match.simps [of ev v p ctx] pattern_try_match.simps [of ev' v p ctx] eval_transform_def
    by (intro opt_mono le R A F) (auto dest!: pattern_sizes field_sizes simp: pair_pattern_def view_pattern_def)
  moreover have "opt_le (match_alternatives ev v p ctx) (match_alternatives ev' v p ctx)"
    using R A F by (cases p) (auto intro!: opt_mono)
  moreover have "opt_le (match_fields ev v p bs ctx) (match_fields ev' v p bs ctx)"
    using R A F by (cases p) (auto intro!: opt_mono)
  ultimately show ?case by blast
qed

lemma pattern_try_match_mono [opt_mono]:
  "ev_le ev ev' \<Longrightarrow> opt_le (pattern_try_match ev v p ctx) (pattern_try_match ev' v p ctx)"
  using try_match_mono_size [of ev ev' p "size_class.size p"] by blast

lemma match_clauses_mono [opt_mono]:
  "ev_le ev ev' \<Longrightarrow> opt_le (match_clauses ev v env cls ctx) (match_clauses ev' v env cls ctx)"
proof (induction cls arbitrary: ctx)
  case (CPair u clause rest)
  note rest_le = CPair.IH(2) [OF CPair.prems]
  show ?case unfolding match_clauses.simps eval_guard_def eval_result_def Let_def
    by (intro opt_mono CPair.prems rest_le)
qed (simp_all add: opt_le_refl)

lemma eval_match_mono [opt_mono]:
  assumes "ev_le ev ev'"
  shows "opt_le (eval_match ev ctx env rest) (eval_match ev' ctx env rest)"
  unfolding eval_match_def pattern_eval_match_def by (intro opt_mono assms [unfolded ev_le_def, rule_format] assms)

subsubsection \<open>Forms\<close>

lemma eval_if_mono [opt_mono]:
  assumes "ev_le ev ev'"
  shows "opt_le (eval_if ev ctx env rest) (eval_if ev' ctx env rest)"
  unfolding eval_if_def by (intro opt_mono assms [unfolded ev_le_def, rule_format] assms)

lemma eval_define_form_mono [opt_mono]:
  assumes "ev_le ev ev'"
  shows "opt_le (eval_define_form ev ctx env rest) (eval_define_form ev' ctx env rest)"
  unfolding eval_define_form_def Let_def by (intro opt_mono assms [unfolded ev_le_def, rule_format] assms)

lemma begin_loop_mono [opt_mono]: "ev_le ev ev' \<Longrightarrow> opt_le (begin_loop ev st env e ctx) (begin_loop ev' st env e ctx)"
  by (induction ev st env e ctx rule: begin_loop.induct) (auto intro!: opt_mono simp: ev_le_def)

lemma eval_begin_mono [opt_mono]:
  assumes "ev_le ev ev'"
  shows "opt_le (eval_begin I ev ctx env expr rest) (eval_begin I ev' ctx env expr rest)"
  unfolding eval_begin_def by (intro opt_mono assms [unfolded ev_le_def, rule_format] assms)

lemma eval_and_or_mono [opt_mono]:
  assumes "ev_le ev ev'"
  shows "opt_le (eval_and_or st I ev ctx env expr rest) (eval_and_or st I ev' ctx env expr rest)"
  unfolding eval_and_or_def by (intro opt_mono assms [unfolded ev_le_def, rule_format] assms)

lemma eval_bind_mono [opt_mono]:
  assumes "ev_le ev ev'"
  shows "opt_le (eval_bind I ev ctx env expr rest) (eval_bind I ev' ctx env expr rest)"
  unfolding eval_bind_def by (intro opt_mono assms [unfolded ev_le_def, rule_format] assms)

lemma eval_try_mono [opt_mono]:
  assumes "ev_le ev ev'"
  shows "opt_le (eval_try I ev ctx env expr rest) (eval_try I ev' ctx env expr rest)"
  unfolding eval_try_def by (intro opt_mono assms [unfolded ev_le_def, rule_format] assms)

lemma eval_quasiquote_mono [opt_mono]: "ev_le ev ev' \<Longrightarrow> opt_le (eval_quasiquote ev ctx env e) (eval_quasiquote ev' ctx env e)"
  by (induction ev ctx env e rule: eval_quasiquote.induct) (auto intro!: opt_mono simp: ev_le_def)

lemma eval_list_mono [opt_mono]: "ev_le ev ev' \<Longrightarrow> opt_le (eval_list ev ctx env e) (eval_list ev' ctx env e)"
  by (induction ev ctx env e rule: eval_list.induct) (auto intro!: opt_mono simp: ev_le_def)

lemma eval_type_decl_mono [opt_mono]:
  assumes "ev_le ev ev'"
  shows "opt_le (eval_type_decl I ev ctx env expr rest) (eval_type_decl I ev' ctx env expr rest)"
  unfolding eval_type_decl_def by (intro opt_mono assms [unfolded ev_le_def, rule_format] assms)

lemma eval_type_infer_mono [opt_mono]:
  assumes "ev_le ev ev'"
  shows "opt_le (eval_type_infer I ev ctx env rest) (eval_type_infer I ev' ctx env rest)"
  unfolding eval_type_infer_def by (intro opt_mono assms [unfolded ev_le_def, rule_format] assms)

lemma eval_args_loop_mono [opt_mono]: "ev_le ev ev' \<Longrightarrow> opt_le (eval_args_loop ev st env e acc ctx) (eval_args_loop ev' st env e acc ctx)"
  by (induction ev st env e acc ctx rule: eval_args_loop.induct) (auto intro!: opt_mono simp: ev_le_def)

lemma eval_type_assert_mono [opt_mono]:
  assumes "ev_le ev ev'"
  shows "opt_le (eval_type_assert I ev ctx env expr rest) (eval_type_assert I ev' ctx env expr rest)"
  unfolding eval_type_assert_def by (intro opt_mono assms [unfolded ev_le_def, rule_format] assms)

lemma infer_if_mono [opt_mono]:
  assumes "ev_le ev ev'"
  shows "opt_le (infer_if I ev ctx env e ops) (infer_if I ev' ctx env e ops)"
  unfolding infer_if_def by (intro opt_mono assms [unfolded ev_le_def, rule_format] assms)

lemma infer_lambda_mono [opt_mono]:
  assumes "ev_le ev ev'"
  shows "opt_le (infer_lambda I ev ctx env e ops) (infer_lambda I ev' ctx env e ops)"
  unfolding infer_lambda_def by (intro opt_mono assms [unfolded ev_le_def, rule_format] assms)

lemma eval_type_infer_all_mono [opt_mono]:
  assumes "ev_le ev ev'"
  shows "opt_le (eval_type_infer_all I ev ctx env rest) (eval_type_infer_all I ev' ctx env rest)"
  unfolding eval_type_infer_all_def Let_def by (intro opt_mono assms [unfolded ev_le_def, rule_format] assms)

lemma eval_refine_def_mono [opt_mono]:
  assumes "ev_le ev ev'"
  shows "opt_le (eval_refine_def I ev ctx env expr rest) (eval_refine_def I ev' ctx env expr rest)"
  unfolding eval_refine_def_def by (intro opt_mono assms [unfolded ev_le_def, rule_format] assms)

lemma apply_fn_mono [opt_mono]:
  assumes "ev_le ev ev'"
  shows "opt_le (apply_fn I ev ctx fn args) (apply_fn I ev' ctx fn args)"
  unfolding apply_fn_def by (intro opt_mono assms [unfolded ev_le_def, rule_format] assms)

lemma eval_application_mono [opt_mono]:
  assumes "ev_le ev ev'"
  shows "opt_le (eval_application I ev ctx env first rest) (eval_application I ev' ctx env first rest)"
  unfolding eval_application_def by (intro opt_mono assms [unfolded ev_le_def, rule_format] assms)

lemma eval_pair_mono [opt_mono]:
  assumes "ev_le ev ev'"
  shows "opt_le (eval_pair I ev ctx env expr first rest) (eval_pair I ev' ctx env expr first rest)"
  unfolding eval_pair_def Let_def by (intro opt_mono assms [unfolded ev_le_def, rule_format] assms)

lemma eval_step_mono:
  assumes "ev_le ev ev'"
  shows "ev_le (eval_step I ev) (eval_step I ev')"
  unfolding ev_le_def [of "eval_step I ev"] eval_step_def
  by (intro allI opt_mono assms [unfolded ev_le_def, rule_format] assms)

lemma eval_internal_Suc: "ev_le (eval_internal I n) (eval_internal I (Suc n))"
proof (induction n)
  case 0
  show ?case by (simp add: ev_le_def opt_le_def)
next
  case (Suc n)
  then show ?case using eval_step_mono by simp
qed

lemma eval_internal_mono: "m \<le> n \<Longrightarrow> eval_internal I m ctx env e = Some r \<Longrightarrow> eval_internal I n ctx env e = Some r"
proof (induction n rule: dec_induct)
  case (step n)
  then have "eval_internal I n ctx env e = Some r" by simp
  then show ?case using eval_internal_Suc [of I n] unfolding ev_le_def opt_le_def by (metis option.distinct(1))
qed simp

subsection \<open>Definitions and their scope\<close>

text \<open>
  The boundary of a module leaks. A definition made while a module with an export list is loaded,
  under a name that is not in the list, is not promoted to the environment and a qualified access to
  it is refused; but the code stores it in the global table all the same, and so an unqualified
  lookup, from any other module or the top level, finds it. Lookups of other names are not disturbed.
\<close>

theorem private_definition_visible:
  assumes "current_loading_module (module_state ctx) = Some m" "modules (module_state ctx) m = Some entry"
    "export_set entry = Some exported" "exported (normalize nm) = None"
  shows "ctx_env (eval_define nm v ctx) = ctx_env ctx \<and>
    \<not> module_registry_is_exported (Some m) nm (module_state (eval_define nm v ctx)) \<and>
    module_registry_lookup (Some m) nm (module_state (eval_define nm v ctx)) = Some v \<and>
    eval_lookup I (eval_define nm v ctx) nm = Some v \<and>
    (other \<noteq> nm \<longrightarrow> ctx_env ctx = global_env ctx \<longrightarrow> eval_lookup I (eval_define nm v ctx) other = eval_lookup I ctx other)"
  using assms
  by (auto simp: eval_define_def eval_lookup_def Let_def module_registry_add_symbol_def module_registry_define_def
      module_registry_is_exported_def module_registry_lookup_def get_module_def put_module_def)

text \<open>The module \<open>m\<close> exports \<open>f\<close> and defines \<open>secret\<close>.\<close>

definition loading_context :: eval_context where
  "loading_context = \<lparr>ctx_env = cell_nil, global_env = cell_nil, global_table = Map.empty, type_registry = cell_nil,
     effect_registry = cell_nil, type_annotations = None,
     module_state = \<lparr>modules = [''m'' \<mapsto> \<lparr>mod_name = ''m'', symbols = [], exports = Some (tm_list [cell_symbol ''f'']),
         export_set = Some [''f'' \<mapsto> ()], local_env = None, dependencies = [], mod_version = None, loaded_at = 0,
         load_order = 1, load_state = MODULE_UNLOADED, cached_result = None\<rparr>],
       symbol_index = Map.empty, alias_table = Map.empty, module_count = 1,
       load_order_counter = 1, current_loading_module = Some ''m''\<rparr>, macros = []\<rparr>"

theorem private_definition_visible_witness:
  "\<not> module_registry_is_exported (Some ''m'') ''secret'' (module_state (eval_define ''secret'' cell_nil loading_context)) \<and>
   (\<forall>I. eval_lookup I (eval_define ''secret'' cell_nil loading_context) ''secret'' = Some cell_nil)"
  using private_definition_visible [of loading_context "''m''" _ "[''f'' \<mapsto> ()]" "''secret''" cell_nil]
  by (simp add: loading_context_def)

end
