(* ===== verification/EvalRef.thy ===== *)
theory EvalRef
  imports EvalFacts
begin

section \<open>A reference interpreter with names\<close>

text \<open>
  A core of the language with literals, variables, applications of primitives, conditionals and
  functions that are applied where they are written, which bind their parameters in a new scope.
  Its reference interpreter knows names and scopes only. The evaluator, on the converted source in
  the environment of the scopes, gives the same values.
\<close>

datatype core =
    Lit tm
  | Var string
  | Cond core core core
  | Prim string "core list"
  | LetIn "string list" "core list" core

fun source :: "core \<Rightarrow> tm" where
  "source (Lit c) = c"
| "source (Var x) = cell_symbol x"
| "source (Cond a b c) = tm_list [cell_symbol ''if'', source a, source b, source c]"
| "source (Prim f es) = cell_cons (cell_symbol f) (tm_list (map source es))"
| "source (LetIn xs es b) =
     cell_cons (tm_list [cell_symbol ''lambda'', tm_list (map cell_symbol xs), source b]) (tm_list (map source es))"

text \<open>
  The meaning, given the primitives \<open>p\<close> and the values \<open>g\<close> of the symbols that no scope binds.
\<close>

fun meaning :: "(string \<Rightarrow> (tm \<Rightarrow> tm option) option) \<Rightarrow> (string \<Rightarrow> tm) \<Rightarrow> scopes \<Rightarrow> core \<Rightarrow> tm option" where
  "meaning p g sc (Lit c) = Some c"
| "meaning p g sc (Var x) = Some (case named_lookup sc x of Some v \<Rightarrow> v | None \<Rightarrow> g x)"
| "meaning p g sc (Cond a b c) = do {
     v \<leftarrow> meaning p g sc a;
     if cell_get_bool v = Some True then meaning p g sc b else meaning p g sc c
   }"
| "meaning p g sc (Prim f es) = do {
     vs \<leftarrow> those (map (meaning p g sc) es);
     q \<leftarrow> p f;
     q (tm_list vs)
   }"
| "meaning p g sc (LetIn xs es b) = do {
     vs \<leftarrow> those (map (meaning p g sc) es);
     if length vs = length xs then meaning p g ((xs, vs) # sc) b
     else Some (cell_error ''arity-mismatch''
            (Some (tm_list [cell_number (double_of_int (int (length xs))), cell_number (double_of_int (int (length vs)))])))
   }"

text \<open>
  Primitives and the conditional are not shadowed, and parameter lists have no markers.
\<close>

definition special_forms :: "string list" where
  "special_forms = outside_forms @
     [''quote'', ''quasiquote-tilde'', ''quasiquote'', ''macro-rules'', ''macro'', ''match'', ''define'', ''type-decl'', ''type-check'',
      ''type-validate'', ''type-infer'', ''type-assert'', ''type-infer-all'', '':lambda-converted'', ''lambda'', ''if'',
      ''begin'', ''and'', ''or'', ''bind'', ''try'', ''refine-def'', ''effect-def'', ''effect?'', ''effect-get'', ''symbol?'']"

fun literal :: "tm \<Rightarrow> bool" where
  "literal (CNumber _ _) \<longleftrightarrow> True"
| "literal (CInteger _ _) \<longleftrightarrow> True"
| "literal (CBool _ _) \<longleftrightarrow> True"
| "literal (CNil _) \<longleftrightarrow> True"
| "literal (CString _ _) \<longleftrightarrow> True"
| "literal _ \<longleftrightarrow> False"

fun core_ok :: "string set \<Rightarrow> core \<Rightarrow> bool" where
  "core_ok names (Lit c) \<longleftrightarrow> literal c"
| "core_ok names (Var x) \<longleftrightarrow> True"
| "core_ok names (Cond a b c) \<longleftrightarrow> ''if'' \<notin> names \<and> core_ok names a \<and> core_ok names b \<and> core_ok names c"
| "core_ok names (Prim f es) \<longleftrightarrow> f \<notin> names \<and> f \<notin> set special_forms \<and> list_all (core_ok names) es"
| "core_ok names (LetIn xs es b) \<longleftrightarrow> ''generic-param'' \<notin> set xs \<and> '':'' \<notin> set xs \<and>
     list_all (core_ok names) es \<and> core_ok (set xs \<union> names) b"

fun binders :: "core \<Rightarrow> nat" where
  "binders (Cond a b c) = binders a + binders b + binders c"
| "binders (Prim f es) = sum_list (map binders es)"
| "binders (LetIn xs es b) = length xs + sum_list (map binders es) + binders b"
| "binders _ = 0"

fun fuel :: "core \<Rightarrow> nat" where
  "fuel (Cond a b c) = 1 + fuel a + fuel b + fuel c"
| "fuel (Prim f es) = 2 + sum_list (map fuel es)"
| "fuel (LetIn xs es b) = 2 + sum_list (map fuel es) + fuel b"
| "fuel _ = 1"

text \<open>The interpreter has the primitives \<open>p\<close>, the global values \<open>g\<close>, and no macros.\<close>

definition agrees :: "interp \<Rightarrow> eval_context \<Rightarrow> (string \<Rightarrow> (tm \<Rightarrow> tm option) option) \<Rightarrow> (string \<Rightarrow> tm) \<Rightarrow> bool" where
  "agrees I ctx p g \<longleftrightarrow>
     macros ctx = [] \<and> (\<forall>x. eval_symbol I ctx x = g x) \<and>
     (\<forall>f q. p f = Some q \<longrightarrow> g f = CBuiltin () f \<and> prims I f = Some (\<lambda>args c. map_option (\<lambda>v. (v, c)) (q args)))"

subsection \<open>Environments\<close>

definition cell_scopes :: "scopes \<Rightarrow> tm" where
  "cell_scopes sc = (if sc = [] then cell_nil else CVector () (concat (map snd sc)))"

lemma env_of_vector:
  assumes "length xs < 2 ^ 28"
  shows "\<exists>v. env_of_cell (CVector p xs) = Vector_env v \<and> vec_inv v \<and> vec_list v = xs"
proof -
  have "length xs < 2 ^ 28" using assms by simp
  note new = vec_new(1) [OF this, where 'a = tm]
  then show ?thesis using push_values [of "cell_vector_new (length xs)" xs] assms by (auto simp: env_of_cell_def)
qed

lemma cell_of_vector: "vec_inv v \<Longrightarrow> cell_of_env (Vector_env v) = CVector () (vec_list v)"
  by (auto simp: cell_of_env_def cell_vector_size_def nth_vec_buf list_eq_iff_nth_eq)

lemma parent_values_cell_scopes:
  "length (concat (map snd sc)) < 2 ^ 28 \<Longrightarrow> parent_values (env_of_cell (cell_scopes sc)) = concat (map snd sc)"
  using env_of_vector [of "concat (map snd sc)" "()"]
  by (auto simp: cell_scopes_def parent_values_vector) (auto simp: env_of_cell_def parent_values_def cell_nil_def)

lemma extend_cell_scopes:
  assumes "length vs + length (concat (map snd sc)) < 2 ^ 28"
  shows "extend_cell_env (cell_scopes sc) (tm_list vs) = cell_scopes ((xs, vs) # sc)"
  using extend_env_values [of vs "env_of_cell (cell_scopes sc)"] parent_values_cell_scopes [of sc] assms
  by (auto simp: extend_cell_env_def cell_of_vector cell_scopes_def)

lemma indexed_cell_scopes [simp]: "env_is_indexed (env_of_cell (cell_scopes sc))"
  by (simp add: cell_scopes_def env_of_cell_def env_is_indexed_def cell_nil_def)

lemma closure_env_scopes [simp]: "closure_env (cell_scopes sc) = cell_scopes sc"
  by (simp add: closure_env_def)

subsection \<open>Variables\<close>

lemma nonneg_double: "0 \<le> i \<Longrightarrow> i < 2 ^ 53 \<Longrightarrow> double_le 0 (double_of_int i)"
  using double_of_int_not_nan [of i] double_of_int_not_nan [of 0] double_of_int_fields(1) [of i] double_of_int_fields(1) [of 0]
  by (simp add: double_le_def double_key_def)

lemma eval_number_index:
  assumes "j < length (concat (map snd sc))" "length (concat (map snd sc)) < 2 ^ 28"
  shows "eval_number (cell_scopes sc) (double_of_int (int j)) = Some (concat (map snd sc) ! j)"
proof -
  have j: "int j < 2 ^ 28" using assms by simp
  then have b: "\<bar>int j\<bar> < 2 ^ 53" by simp
  have "double_to_int32 (double_of_int (int j)) = Some (int j)"
    using j by (simp add: double_to_int32_def double_of_int_roundtrip [OF b])
  moreover have "double_le 0 (double_of_int (int j))" using nonneg_double [of "int j"] b by simp
  moreover have "double_eq (double_of_int (int j)) (double_of_int (int j))" using double_of_int_not_nan [OF b] by simp
  moreover have "sc \<noteq> []" using assms(1) by auto
  moreover have "env_lookup_index (env_of_cell (cell_scopes sc)) j = Some (concat (map snd sc) ! j)"
    using env_of_vector [OF assms(2), of "()"] \<open>sc \<noteq> []\<close> assms by (auto simp: cell_scopes_def env_lookup_index_def vec_get)
  ultimately show ?thesis by (simp add: eval_number_def)
qed

lemma eval_variable:
  assumes "list_all (\<lambda>(ns, vs). length ns = length vs) sc" "length (concat (map snd sc)) < 2 ^ 28"
  shows "eval_step I ev ctx (cell_scopes sc) (convert_symbol x (map fst sc)) =
    Some (case named_lookup sc x of Some v \<Rightarrow> v | None \<Rightarrow> eval_symbol I ctx x, ctx)"
proof (cases "debruijn_lookup x (map fst sc) < 0")
  case True
  with lookup_loop_flat [OF assms(1), of 0 x] have "named_lookup sc x = None"
    by (simp add: debruijn_lookup_def Let_def)
  with True show ?thesis by (simp add: convert_symbol_def eval_step_def cell_symbol_def)
next
  case False
  with lookup_loop_flat [OF assms(1), of 0 x] obtain j where j: "debruijn_lookup x (map fst sc) = int j"
    "j < length (concat (map snd sc))" "named_lookup sc x = Some (concat (map snd sc) ! j)"
    by (auto simp: debruijn_lookup_def Let_def)
  with eval_number_index [OF j(2) assms(2)] show ?thesis
    by (simp add: convert_symbol_def eval_step_def cell_number_def)
qed

subsection \<open>Conversion of the source\<close>

lemma unbound_symbol:
  assumes "x \<notin> set (concat ctx)"
  shows "convert_symbol x ctx = cell_symbol x"
proof -
  have "debruijn_lookup_loop x ctx d = -1" for d
    using assms by (induction ctx arbitrary: d) (simp_all add: level_lookup_None [THEN iffD2])
  then show ?thesis by (simp add: convert_symbol_def debruijn_lookup_def)
qed

lemma skip_annotation_symbols:
  "'':'' \<notin> set xs \<Longrightarrow> skip_annotation (tm_list (map cell_symbol xs)) = tm_list (map cell_symbol xs)"
  by (cases xs) (auto simp: cell_cons_def cell_symbol_def cell_nil_def)

lemma plain_params:
  "''generic-param'' \<notin> set xs \<Longrightarrow> '':'' \<notin> set xs \<Longrightarrow>
    param_count (tm_list (map cell_symbol xs)) = length xs \<and>
    param_names (length xs) (tm_list (map cell_symbol xs)) = Some xs"
proof (induction xs)
  case (Cons x xs)
  moreover from this have "cell_symbol x \<noteq> generic_param" by (auto simp: generic_param_def cell_symbol_def)
  ultimately show ?case by (simp add: cell_cons_def skip_annotation_symbols) (simp add: cell_symbol_def)
qed (simp add: cell_nil_def)

lemma convert_list:
  "list_all (\<lambda>e. debruijn_convert (h e) ctx = Some (k e)) es \<Longrightarrow>
    debruijn_convert_list (tm_list (map h es)) ctx = Some (tm_list (map k es))"
  by (induction es) (simp_all add: cell_cons_def cell_nil_def)

text \<open>What the conversion makes of the source.\<close>

fun compiled :: "name_context \<Rightarrow> core \<Rightarrow> tm" where
  "compiled ctx (Lit c) = (case c of CNumber _ _ \<Rightarrow> tm_list [cell_symbol ''quote'', c] | _ \<Rightarrow> c)"
| "compiled ctx (Var x) = convert_symbol x ctx"
| "compiled ctx (Cond a b c) = tm_list [cell_symbol ''if'', compiled ctx a, compiled ctx b, compiled ctx c]"
| "compiled ctx (Prim f es) = cell_cons (cell_symbol f) (tm_list (map (compiled ctx) es))"
| "compiled ctx (LetIn xs es b) =
     cell_cons (tm_list [cell_symbol '':lambda-converted'', tm_list (map cell_symbol xs), compiled (xs # ctx) b])
       (tm_list (map (compiled ctx) es))"

lemma convert_pair:
  "a \<noteq> cell_symbol ''lambda'' \<Longrightarrow> debruijn_convert a ctx = Some a' \<Longrightarrow> debruijn_convert_list r ctx = Some r' \<Longrightarrow>
    debruijn_convert (cell_cons a r) ctx = Some (cell_cons a' r')"
  by (simp add: cell_cons_def)

lemma convert_head:
  "f \<notin> set (concat ctx) \<Longrightarrow> debruijn_convert (cell_symbol f) ctx = Some (cell_symbol f)"
  using unbound_symbol [of f ctx] by (simp add: cell_symbol_def)

lemma convert_lambda:
  assumes "''generic-param'' \<notin> set xs" "'':'' \<notin> set xs" "debruijn_convert b (xs # ctx) = Some b'"
  shows "debruijn_convert (tm_list [cell_symbol ''lambda'', tm_list (map cell_symbol xs), b]) ctx =
    Some (tm_list [cell_symbol '':lambda-converted'', tm_list (map cell_symbol xs), b'])"
  using plain_params [OF assms(1,2)] assms(3) by (simp add: cell_cons_def)

lemma convert_core:
  "core_ok (set (concat ctx)) e \<Longrightarrow> debruijn_convert (source e) ctx = Some (compiled ctx e)"
proof (induction e arbitrary: ctx)
  case (Lit c)
  then show ?case by (cases c) (auto simp: cell_cons_def)
next
  case (Var x)
  show ?case by (simp add: cell_symbol_def)
next
  case (Cond a b c)
  then have "debruijn_convert_list (tm_list (map source [a, b, c])) ctx = Some (tm_list (map (compiled ctx) [a, b, c]))"
    by (intro convert_list) simp
  with Cond.prems show ?case
    using convert_pair [OF _ convert_head [of "''if''" ctx]] by (simp add: cell_symbol_def)
next
  case (Prim f es)
  then have "debruijn_convert_list (tm_list (map source es)) ctx = Some (tm_list (map (compiled ctx) es))"
    by (intro convert_list) (auto simp: list_all_iff)
  moreover have "f \<noteq> ''lambda''" using Prim.prems by (auto simp: special_forms_def)
  ultimately show ?case using Prim.prems convert_pair [OF _ convert_head [of f ctx]] by (simp add: cell_symbol_def)
next
  case (LetIn xs es b)
  then have "debruijn_convert_list (tm_list (map source es)) ctx = Some (tm_list (map (compiled ctx) es))"
    by (intro convert_list) (auto simp: list_all_iff)
  moreover have "debruijn_convert (source b) (xs # ctx) = Some (compiled (xs # ctx) b)"
    using LetIn.IH(2) [of "xs # ctx"] LetIn.prems by simp
  then have "debruijn_convert (tm_list [cell_symbol ''lambda'', tm_list (map cell_symbol xs), source b]) ctx =
      Some (tm_list [cell_symbol '':lambda-converted'', tm_list (map cell_symbol xs), compiled (xs # ctx) b])"
    using convert_lambda [of xs "source b" ctx] LetIn.prems by simp
  moreover have "tm_list [cell_symbol ''lambda'', tm_list (map cell_symbol xs), source b] \<noteq> cell_symbol ''lambda''"
    by (simp add: cell_cons_def cell_symbol_def)
  ultimately show ?case using convert_pair by simp
qed

lemma eval_list_all:
  "list_all2 (\<lambda>e v. ev ctx env e = Some (v, ctx)) es vs \<Longrightarrow> eval_list ev ctx env (tm_list es) = Some (tm_list vs, ctx)"
  by (induction rule: list_all2_induct) (simp_all add: cell_cons_def cell_nil_def)

lemma those_map: "those (map f es) = Some vs \<longleftrightarrow> list_all2 (\<lambda>e v. f e = Some v) es vs"
  by (induction es arbitrary: vs) (auto simp: list_all2_Cons1 split: option.splits)

subsection \<open>The evaluator implements the reference\<close>

lemma no_macros: "\<not> macro_is_macro_call e []"
  by (simp add: macro_is_macro_call_def macro_lookup_def split: cell.split option.split)

lemma step_pair:
  assumes "agrees I ctx p g"
  shows "eval_step I ev ctx env (cell_cons first rest) = eval_pair I ev ctx env (cell_cons first rest) first rest"
  using assms by (simp add: agrees_def eval_step_def cell_cons_def no_macros)

lemma eval_literal:
  assumes "agrees I ctx p g" "literal c"
  shows "eval_step I ev ctx env (compiled names (Lit c)) = Some (c, ctx)"
proof (cases "\<exists>d. c = CNumber () d")
  case True
  then obtain d where c: "c = CNumber () d" by blast
  then show ?thesis using step_pair [OF assms(1)]
    by (simp add: eval_pair_def cell_symbol_def)
next
  case False
  with assms show ?thesis by (cases c) (auto simp: eval_step_def)
qed

lemma eval_cond:
  assumes "agrees I ctx p g" "ev ctx env a = Some (v, ctx)"
  shows "eval_step I ev ctx env (tm_list [cell_symbol ''if'', a, b, c]) =
    ev ctx env (if cell_get_bool v = Some True then b else c)"
  using assms(2) step_pair [OF assms(1)]
  by (simp add: eval_pair_def outside_forms_def cell_symbol_def eval_if_def)

lemma eval_prim:
  assumes "agrees I ctx p g" "f \<notin> set special_forms" "p f = Some q" "ev ctx env (cell_symbol f) = Some (g f, ctx)"
    "eval_list ev ctx env args = Some (tm_list vs, ctx)"
  shows "eval_step I ev ctx env (cell_cons (cell_symbol f) args) = map_option (\<lambda>v. (v, ctx)) (q (tm_list vs))"
proof -
  have "eval_pair I ev ctx env e (cell_symbol f) args = eval_application I ev ctx env (cell_symbol f) args" for e
    using assms(2) by (simp add: eval_pair_def special_forms_def cell_symbol_def)
  moreover have "f \<noteq> ''symbol?''" using assms(2) by (auto simp: special_forms_def)
  moreover have "g f = CBuiltin () f" "prims I f = Some (\<lambda>args c. map_option (\<lambda>v. (v, c)) (q args))"
    using assms(1,3) by (auto simp: agrees_def)
  ultimately show ?thesis using assms(4,5) step_pair [OF assms(1)]
    by (simp add: eval_application_def apply_fn_def call_builtin_def) (simp add: cell_symbol_def)
qed

lemma eval_let:
  assumes "agrees I ctx p g" "eval_list ev ctx (cell_scopes sc) args = Some (tm_list vs, ctx)"
    "length vs = length xs \<Longrightarrow> length vs + length (concat (map snd sc)) < 2 ^ 28"
    "\<And>f. ev ctx (cell_scopes sc) f = eval_step I ev' ctx (cell_scopes sc) f"
  shows "eval_step I ev ctx (cell_scopes sc)
      (cell_cons (tm_list [cell_symbol '':lambda-converted'', tm_list (map cell_symbol xs), body]) args) =
    (if length vs = length xs then ev ctx (cell_scopes ((xs, vs) # sc)) body
     else Some (cell_error ''arity-mismatch''
            (Some (tm_list [cell_number (double_of_int (int (length xs))), cell_number (double_of_int (int (length vs)))])), ctx))"
proof -
  let ?l = "tm_list [cell_symbol '':lambda-converted'', tm_list (map cell_symbol xs), body]"
  have "ev ctx (cell_scopes sc) ?l = Some (CLambda () (cell_scopes sc) body (length xs) None, ctx)"
    unfolding assms(4) using step_pair [OF assms(1)]
    by (simp add: eval_pair_def outside_forms_def cell_symbol_def eval_lambda_conv_def del: map_map)
  moreover have "eval_pair I ev ctx env e ?l args = eval_application I ev ctx env ?l args" for env e
    by (simp add: eval_pair_def outside_forms_def cell_cons_def)
  moreover have "?l \<noteq> cell_symbol ''symbol?''" by (simp add: cell_cons_def cell_symbol_def)
  ultimately show ?thesis using assms(2) step_pair [OF assms(1)] extend_cell_scopes [of vs sc xs] assms(3)
    by (simp add: eval_application_def apply_fn_def del: tm_list.simps)
qed

lemma eval_args:
  assumes "\<And>e v. e \<in> set es \<Longrightarrow> meaning p g sc e = Some v \<Longrightarrow>
      eval_internal I (fuel e) ctx (cell_scopes sc) (compiled (map fst sc) e) = Some (v, ctx)"
    "those (map (meaning p g sc) es) = Some vs" "sum_list (map fuel es) \<le> n"
  shows "eval_list (eval_internal I n) ctx (cell_scopes sc) (tm_list (map (compiled (map fst sc)) es)) = Some (tm_list vs, ctx)"
proof (rule eval_list_all)
  have "eval_internal I n ctx (cell_scopes sc) (compiled (map fst sc) e) = Some (v, ctx)"
    if "e \<in> set es" "meaning p g sc e = Some v" for e v
  proof -
    have "fuel e \<le> n" using that(1) assms(3) member_le_sum_list [of "fuel e" "map fuel es"] by simp
    with assms(1) [OF that] eval_internal_mono show ?thesis by blast
  qed
  with assms(2) show "list_all2 (\<lambda>e v. eval_internal I n ctx (cell_scopes sc) e = Some (v, ctx)) (map (compiled (map fst sc)) es) vs"
    unfolding those_map list_all2_map1 by (rule list.rel_mono_strong) simp
qed

lemma eval_core:
  assumes "agrees I ctx p g"
  shows "meaning p g sc e = Some v \<Longrightarrow> core_ok (set (concat (map fst sc))) e \<Longrightarrow>
    list_all (\<lambda>(ns, vs). length ns = length vs) sc \<Longrightarrow> length (concat (map snd sc)) + binders e < 2 ^ 28 \<Longrightarrow>
    eval_internal I (fuel e) ctx (cell_scopes sc) (compiled (map fst sc) e) = Some (v, ctx)"
proof (induction e arbitrary: sc v)
  case (Lit c)
  then show ?case using eval_literal [OF assms, of c] by (simp del: compiled.simps)
next
  case (Var x)
  moreover have "eval_symbol I ctx x = g x" using assms by (simp add: agrees_def)
  ultimately show ?case using eval_variable [of sc I _ ctx x] by (simp cong: option.case_cong)
next
  case (Cond a b c)
  then obtain u where u: "meaning p g sc a = Some u" by (auto simp: bind_eq_Some_conv)
  let ?n = "fuel a + fuel b + fuel c"
  have a: "eval_internal I ?n ctx (cell_scopes sc) (compiled (map fst sc) a) = Some (u, ctx)"
    using Cond.IH(1) [OF u] Cond.prems by (intro eval_internal_mono [of "fuel a" ?n]) simp_all
  have "eval_internal I ?n ctx (cell_scopes sc) (if cell_get_bool u = Some True then compiled (map fst sc) b else compiled (map fst sc) c) = Some (v, ctx)"
    using Cond.IH(2,3) [of sc v] Cond.prems u eval_internal_mono [of "fuel b" ?n] eval_internal_mono [of "fuel c" ?n]
    by (auto split: if_splits)
  with eval_cond [where ev = "eval_internal I ?n", OF assms a] show ?case by (simp del: tm_list.simps)
next
  case (Prim f es)
  then obtain vs q where vs: "those (map (meaning p g sc) es) = Some vs" and q: "p f = Some q" "q (tm_list vs) = Some v"
    by (auto simp: bind_eq_Some_conv)
  let ?n = "Suc (sum_list (map fuel es))"
  have args: "eval_list (eval_internal I ?n) ctx (cell_scopes sc) (tm_list (map (compiled (map fst sc)) es)) = Some (tm_list vs, ctx)"
  proof (rule eval_args [OF _ vs])
    fix e w assume e: "e \<in> set es" "meaning p g sc e = Some w"
    have "binders e \<le> sum_list (map binders es)" using e(1) by (simp add: member_le_sum_list)
    with Prim.prems e show "eval_internal I (fuel e) ctx (cell_scopes sc) (compiled (map fst sc) e) = Some (w, ctx)"
      by (intro Prim.IH) (auto simp: list_all_iff)
  qed simp
  have f: "f \<notin> set special_forms" using Prim.prems(2) by simp
  have "eval_internal I ?n ctx (cell_scopes sc) (cell_symbol f) = Some (g f, ctx)"
    using assms by (simp add: agrees_def eval_step_def cell_symbol_def)
  from eval_prim [where ev = "eval_internal I ?n", OF assms f q(1) this args] q(2) show ?case by simp
next
  case (LetIn xs es b)
  then obtain vs where vs: "those (map (meaning p g sc) es) = Some vs" by (auto simp: bind_eq_Some_conv)
  let ?n = "Suc (sum_list (map fuel es) + fuel b)"
  have args: "eval_list (eval_internal I ?n) ctx (cell_scopes sc) (tm_list (map (compiled (map fst sc)) es)) = Some (tm_list vs, ctx)"
  proof (rule eval_args [OF _ vs])
    fix e w assume e: "e \<in> set es" "meaning p g sc e = Some w"
    have "binders e \<le> sum_list (map binders es)" using e(1) by (simp add: member_le_sum_list)
    with LetIn.prems e show "eval_internal I (fuel e) ctx (cell_scopes sc) (compiled (map fst sc) e) = Some (w, ctx)"
      by (intro LetIn.IH(1)) (auto simp: list_all_iff)
  qed simp
  have step: "eval_internal I (Suc ?n) ctx (cell_scopes sc) (compiled (map fst sc) (LetIn xs es b)) =
    (if length vs = length xs then eval_internal I ?n ctx (cell_scopes ((xs, vs) # sc)) (compiled (xs # map fst sc) b)
     else Some (cell_error ''arity-mismatch''
            (Some (tm_list [cell_number (double_of_int (int (length xs))), cell_number (double_of_int (int (length vs)))])), ctx))"
    unfolding compiled.simps eval_internal.simps(2) [of I ?n]
    by (rule eval_let [where ev = "eval_internal I ?n" and ev' = "eval_internal I (sum_list (map fuel es) + fuel b)", OF assms args])
      (use LetIn.prems in simp_all)
  show ?case
  proof (cases "length vs = length xs")
    case True
    with LetIn.prems vs have "meaning p g ((xs, vs) # sc) b = Some v" by simp
    then have "eval_internal I (fuel b) ctx (cell_scopes ((xs, vs) # sc)) (compiled (xs # map fst sc) b) = Some (v, ctx)"
      using LetIn.IH(2) [of "(xs, vs) # sc" v] LetIn.prems True by simp
    then have "eval_internal I ?n ctx (cell_scopes ((xs, vs) # sc)) (compiled (xs # map fst sc) b) = Some (v, ctx)"
      using eval_internal_mono [of "fuel b" ?n] by simp
    with step True show ?thesis by (simp del: tm_list.simps compiled.simps eval_internal.simps)
  next
    case False
    with step LetIn.prems vs show ?thesis by (simp del: tm_list.simps compiled.simps eval_internal.simps)
  qed
qed

subsection \<open>Properties\<close>

text \<open>
  C22. The conversion and the evaluator together implement named scopes: an expression of the core, in
  scopes that pair names with values, converts, and what the evaluator gives for the result in the
  flat environment of the scopes is what the interpreter with names gives, through conditionals,
  applications of primitives and nested functions with their own and with shadowed parameters;
  arity errors included. The fuel is bounded by the size of the expression, so it returns.
\<close>

theorem evaluator_implements_scopes:
  assumes "agrees I ctx p g" "meaning p g sc e = Some v" "core_ok (set (concat (map fst sc))) e"
    "list_all (\<lambda>(ns, vs). length ns = length vs) sc" "length (concat (map snd sc)) + binders e < 2 ^ 28" "fuel e \<le> n"
  shows "\<exists>e'. debruijn_convert (source e) (map fst sc) = Some e' \<and>
    eval_internal I n ctx (cell_of_env (scope_env sc)) e' = Some (v, ctx)"
proof -
  have "cell_of_env (scope_env sc) = cell_scopes sc"
    using scope_env_values [of sc] assms(5) parent_values_vector
    by (cases "sc = []") (auto simp: cell_of_vector cell_scopes_def, simp add: scope_env_def cell_of_env_def)
  moreover have "debruijn_convert (source e) (map fst sc) = Some (compiled (map fst sc) e)"
    using convert_core [of "map fst sc" e] assms(3) by simp
  ultimately show ?thesis using eval_internal_mono [OF assms(6) eval_core [OF assms(1-5)]] by simp
qed

text \<open>An interpreter with one primitive, and \<open>((lambda (y) (+ x y)) 2)\<close> where \<open>x\<close> is 5.\<close>

definition plus_interp :: interp where
  "plus_interp = \<lparr>prims = (\<lambda>f. if f = ''+'' then Some (\<lambda>args c. map_option (\<lambda>v. (v, c)) (prim_add args)) else None),
     span_lo = \<lambda>_. 0, trait_type_satisfies = \<lambda>_ _. True,
     refine_def = \<lambda>_ _. None, other_form = \<lambda>_ _ _ _. None\<rparr>"

definition fresh_context :: eval_context where
  "fresh_context = \<lparr>ctx_env = cell_nil, global_env = cell_nil, global_table = Map.empty, type_registry = cell_nil,
     effect_registry = cell_nil, type_annotations = None,
     module_state = \<lparr>modules = Map.empty, symbol_index = Map.empty, alias_table = Map.empty, module_count = 0,
       load_order_counter = 0, current_loading_module = None\<rparr>, macros = []\<rparr>"

lemma plus_agrees:
  "agrees plus_interp fresh_context (\<lambda>f. if f = ''+'' then Some prim_add else None) (eval_symbol plus_interp fresh_context)"
  by (auto simp: agrees_def plus_interp_def fresh_context_def eval_symbol_def eval_lookup_def primitives_lookup_def
      module_registry_resolve_alias_def Let_def dot_split_def)

theorem evaluator_implements_scopes_witness:
  "\<exists>e'. debruijn_convert (source (LetIn [''y''] [Lit (cell_integer 2)] (Prim ''+'' [Var ''x'', Var ''y'']))) [[''x'']] = Some e' \<and>
    eval_internal plus_interp 9 fresh_context (cell_of_env (scope_env [([''x''], [cell_integer 5])])) e' =
      Some (cell_integer 7, fresh_context)"
proof -
  let ?e = "LetIn [''y''] [Lit (cell_integer 2)] (Prim ''+'' [Var ''x'', Var ''y''])"
  have "prim_add (tm_list [cell_integer 5, cell_integer 2]) = Some (cell_integer 7)"
    by (simp add: prim_add_def int_or_double_def int64_fits_def) (simp add: cell_integer_def int64_fits_def)
  then have "meaning (\<lambda>f. if f = ''+'' then Some prim_add else None) (eval_symbol plus_interp fresh_context)
      [([''x''], [cell_integer 5])] ?e = Some (cell_integer 7)"
    by simp
  moreover have "core_ok (set (concat (map fst [([''x''], [cell_integer 5])]))) ?e"
    by (simp add: special_forms_def outside_forms_def cell_integer_def)
  ultimately show ?thesis
    using evaluator_implements_scopes [OF plus_agrees, of "[([''x''], [cell_integer 5])]" ?e "cell_integer 7" 9] by simp
qed

end
