(* ===== verification/PrimRefine.thy ===== *)
theory PrimRefine
  imports Eval CellHash
begin

section \<open>Refinement types\<close>

text \<open>
  The refinement types of \<open>bootstrap/primitives.c\<close>: a base type with a predicate, a closure of one
  parameter. Where the body of the closure has the right shape, a tree of constraints is extracted
  from it (tier 1), and a tree of one node is compiled to a template (tier 0); otherwise the closure
  is evaluated (tier 2). \<open>None\<close> is a failed assertion or behaviour that C leaves undefined, such as
  a remainder by zero or a cast of a double that does not fit. The table of definitions has 256
  slots that are probed linearly; a definition is the slot it lives in, also where the list of
  definitions points to it. Interned symbols have identifiers, an argument (\<open>sid\<close>).
\<close>

subsection \<open>Constraints\<close>

datatype rcon =
    RCON_GT double | RCON_GE double | RCON_LT double | RCON_LE double
  | RCON_EQ double | RCON_NE double
  | RCON_AND rcon rcon | RCON_OR rcon rcon | RCON_NOT rcon
  | RCON_MOD_EQ int int
  | RCON_RANGE double double
  | RCON_PRED tm

text \<open>\<^verbatim>\<open>a % b\<close> on \<open>int64_t\<close>\<close>

definition int64_rem :: "int \<Rightarrow> int \<Rightarrow> int option" where
  "int64_rem a b = (if b = 0 \<or> a = - (2 ^ 63) \<and> b = -1 then None else Some (a smod b))"

fun rcon_eval_num :: "rcon \<Rightarrow> double \<Rightarrow> bool option" where
  "rcon_eval_num (RCON_GT k) v = Some (double_lt k v)"
| "rcon_eval_num (RCON_GE k) v = Some (double_le k v)"
| "rcon_eval_num (RCON_LT k) v = Some (double_lt v k)"
| "rcon_eval_num (RCON_LE k) v = Some (double_le v k)"
| "rcon_eval_num (RCON_EQ k) v = Some (double_eq v k)"
| "rcon_eval_num (RCON_NE k) v = Some (\<not> double_eq v k)"
| "rcon_eval_num (RCON_AND l r) v = do { a \<leftarrow> rcon_eval_num l v; if a then rcon_eval_num r v else Some False }"
| "rcon_eval_num (RCON_OR l r) v = do { a \<leftarrow> rcon_eval_num l v; if a then Some True else rcon_eval_num r v }"
| "rcon_eval_num (RCON_NOT c) v = map_option Not (rcon_eval_num c v)"
| "rcon_eval_num (RCON_MOD_EQ d r) v = do { i \<leftarrow> double_to_int v; m \<leftarrow> int64_rem i d; Some (m = r) }"
| "rcon_eval_num (RCON_RANGE lo hi) v = Some (double_le lo v \<and> double_le v hi)"
| "rcon_eval_num (RCON_PRED _) v = Some False"

fun rcon_eval :: "rcon \<Rightarrow> tm \<Rightarrow> bool option" where
  "rcon_eval (RCON_PRED _) val = Some False"
| "rcon_eval (RCON_AND l r) val = do { a \<leftarrow> rcon_eval l val; if a then rcon_eval r val else Some False }"
| "rcon_eval (RCON_OR l r) val = do { a \<leftarrow> rcon_eval l val; if a then Some True else rcon_eval r val }"
| "rcon_eval (RCON_NOT c) val = map_option Not (rcon_eval c val)"
| "rcon_eval c val = (case cell_get_number val of None \<Rightarrow> Some False | Some v \<Rightarrow> rcon_eval_num c v)"

fun rcon_to_cell :: "rcon \<Rightarrow> tm" where
  "rcon_to_cell (RCON_GT k) = tm_list [cell_symbol ''>'', cell_number k]"
| "rcon_to_cell (RCON_GE k) = tm_list [cell_symbol ''>='', cell_number k]"
| "rcon_to_cell (RCON_LT k) = tm_list [cell_symbol ''<'', cell_number k]"
| "rcon_to_cell (RCON_LE k) = tm_list [cell_symbol ''<='', cell_number k]"
| "rcon_to_cell (RCON_EQ k) = tm_list [cell_symbol ''equal?'', cell_number k]"
| "rcon_to_cell (RCON_NE k) = tm_list [cell_symbol ''not-equal?'', cell_number k]"
| "rcon_to_cell (RCON_AND l r) = tm_list [cell_symbol ''and'', rcon_to_cell l, rcon_to_cell r]"
| "rcon_to_cell (RCON_OR l r) = tm_list [cell_symbol ''or'', rcon_to_cell l, rcon_to_cell r]"
| "rcon_to_cell (RCON_NOT c) = tm_list [cell_symbol ''not'', rcon_to_cell c]"
| "rcon_to_cell (RCON_MOD_EQ d r) =
     tm_list [cell_symbol ''%equal?'', cell_number (double_of_int d), cell_number (double_of_int r)]"
| "rcon_to_cell (RCON_RANGE lo hi) = tm_list [cell_symbol ''type-decl[]'', cell_number lo, cell_number hi]"
| "rcon_to_cell (RCON_PRED l) = l"

subsection \<open>Compiled predicates\<close>

datatype template = tpl_gt | tpl_ge | tpl_lt | tpl_le | tpl_eq | tpl_ne | tpl_range | tpl_mod_eq

record compiled_pred =
  tpl :: template
  op1 :: double
  op2 :: double

definition run_template :: "template \<Rightarrow> tm \<Rightarrow> double \<Rightarrow> double \<Rightarrow> bool option" where
  "run_template t v a b =
     (case cell_get_number v of
        None \<Rightarrow> Some False
      | Some n \<Rightarrow>
          (case t of
             tpl_gt \<Rightarrow> Some (double_lt a n)
           | tpl_ge \<Rightarrow> Some (double_le a n)
           | tpl_lt \<Rightarrow> Some (double_lt n a)
           | tpl_le \<Rightarrow> Some (double_le n a)
           | tpl_eq \<Rightarrow> Some (double_eq n a)
           | tpl_ne \<Rightarrow> Some (\<not> double_eq n a)
           | tpl_range \<Rightarrow> Some (double_le a n \<and> double_le n b)
           | tpl_mod_eq \<Rightarrow> do {
               i \<leftarrow> double_to_int n;
               d \<leftarrow> double_to_int a;
               m \<leftarrow> int64_rem i d;
               r \<leftarrow> double_to_int b;
               Some (m = r)
             }))"

fun compiled_pred_try :: "rcon \<Rightarrow> compiled_pred option" where
  "compiled_pred_try (RCON_GT k) = Some \<lparr>tpl = tpl_gt, op1 = k, op2 = 0\<rparr>"
| "compiled_pred_try (RCON_GE k) = Some \<lparr>tpl = tpl_ge, op1 = k, op2 = 0\<rparr>"
| "compiled_pred_try (RCON_LT k) = Some \<lparr>tpl = tpl_lt, op1 = k, op2 = 0\<rparr>"
| "compiled_pred_try (RCON_LE k) = Some \<lparr>tpl = tpl_le, op1 = k, op2 = 0\<rparr>"
| "compiled_pred_try (RCON_EQ k) = Some \<lparr>tpl = tpl_eq, op1 = k, op2 = 0\<rparr>"
| "compiled_pred_try (RCON_NE k) = Some \<lparr>tpl = tpl_ne, op1 = k, op2 = 0\<rparr>"
| "compiled_pred_try (RCON_RANGE lo hi) = Some \<lparr>tpl = tpl_range, op1 = lo, op2 = hi\<rparr>"
| "compiled_pred_try (RCON_MOD_EQ d r) = Some \<lparr>tpl = tpl_mod_eq, op1 = double_of_int d, op2 = double_of_int r\<rparr>"
| "compiled_pred_try _ = None"

subsection \<open>Extraction\<close>

fun is_debruijn_0 :: "tm \<Rightarrow> bool" where
  "is_debruijn_0 (CNumber _ d) \<longleftrightarrow> double_eq d 0"
| "is_debruijn_0 _ \<longleftrightarrow> False"

text \<open>The outer option is the assertion of the accessors, the inner one the answer.\<close>

definition unwrap_quoted_number :: "tm \<Rightarrow> double option option" where
  "unwrap_quoted_number c =
     (case c of
        CPair _ q rest \<Rightarrow>
          if q \<noteq> cell_symbol ''quote'' then Some None else do { val \<leftarrow> cell_car rest; Some (cell_get_number val) }
      | _ \<Rightarrow> Some None)"

text \<open>\<open>(equal? (% x (quote K)) (quote V))\<close>\<close>

definition mod_pattern :: "tm \<Rightarrow> tm \<Rightarrow> rcon option option" where
  "mod_pattern lhs rhs =
     (case lhs of
        CPair _ mod_op (CPair _ mod_param (CPair _ divisor_cell _)) \<Rightarrow>
          if mod_op = cell_symbol ''%'' \<and> is_debruijn_0 mod_param then do {
            d \<leftarrow> unwrap_quoted_number divisor_cell;
            case d of
              None \<Rightarrow> Some None
            | Some d \<Rightarrow> do {
                r \<leftarrow> unwrap_quoted_number rhs;
                case r of
                  None \<Rightarrow> Some None
                | Some r \<Rightarrow> do { d \<leftarrow> double_to_int d; r \<leftarrow> double_to_int r; Some (Some (RCON_MOD_EQ d r)) }
              }
          }
          else Some None
      | _ \<Rightarrow> Some None)"

definition comparison :: "string \<Rightarrow> double \<Rightarrow> rcon option" where
  "comparison op_name k =
     (if op_name = ''>'' then Some (RCON_GT k)
      else if op_name = ''>='' then Some (RCON_GE k)
      else if op_name = ''<'' then Some (RCON_LT k)
      else if op_name = ''<='' then Some (RCON_LE k)
      else if op_name = ''equal?'' then Some (RCON_EQ k)
      else if op_name = ''not-equal?'' then Some (RCON_NE k)
      else None)"

definition extract_comparison :: "string \<Rightarrow> tm \<Rightarrow> tm \<Rightarrow> rcon option option" where
  "extract_comparison op_name lhs rhs = do {
     m \<leftarrow> (if op_name = ''equal?'' then mod_pattern lhs rhs else Some None);
     case m of
       Some c \<Rightarrow> Some (Some c)
     | None \<Rightarrow>
         if \<not> is_debruijn_0 lhs then Some None
         else do { k \<leftarrow> unwrap_quoted_number rhs; Some (Option.bind k (comparison op_name)) }
   }"

definition fuse_and :: "rcon \<Rightarrow> rcon \<Rightarrow> rcon" where
  "fuse_and l r = (case (l, r) of (RCON_GE lo, RCON_LE hi) \<Rightarrow> RCON_RANGE lo hi | _ \<Rightarrow> RCON_AND l r)"

fun extract_constraint :: "tm \<Rightarrow> rcon option option" where
  "extract_constraint (CPair _ op rest) =
     (case (cell_get_symbol op, rest) of
        (Some op_name, CPair _ lhs rhs_list) \<Rightarrow>
          if op_name = ''and'' \<or> op_name = ''or'' then
            (case rhs_list of
               CPair _ rhs _ \<Rightarrow> do {
                 left \<leftarrow> extract_constraint lhs;
                 right \<leftarrow> extract_constraint rhs;
                 Some (case (left, right) of
                     (Some l, Some r) \<Rightarrow> Some (if op_name = ''and'' then fuse_and l r else RCON_OR l r)
                   | _ \<Rightarrow> None)
               }
             | _ \<Rightarrow> Some None)
          else if op_name = ''not'' then do { inner \<leftarrow> extract_constraint lhs; Some (map_option RCON_NOT inner) }
          else (case rhs_list of
              CPair _ rhs _ \<Rightarrow> extract_comparison op_name lhs rhs
            | _ \<Rightarrow> Some None)
      | _ \<Rightarrow> Some None)"
| "extract_constraint _ = Some None"

fun extract_constraint_from_lambda :: "tm \<Rightarrow> rcon option option" where
  "extract_constraint_from_lambda (CLambda _ _ body _ _) = extract_constraint body"
| "extract_constraint_from_lambda _ = Some None"

subsection \<open>Definitions and their table\<close>

record refinement_def =
  r_name :: string
  base_type :: tm
  r_constraint :: "rcon option"
  compiled_fn :: "compiled_pred option"
  r_lambda :: tm
  name_id :: nat
  parent1 :: "tm option"
  parent2 :: "tm option"
  is_and :: bool
  next_def :: "nat option"

record refine_state =
  refine_registry :: "refinement_def option list"
  refine_count :: nat
  refine_list_head :: "nat option"
  pred_cache :: "nat \<Rightarrow> (u64 \<times> bool) option"
  and_counter :: nat
  or_counter :: nat

definition REFINE_REG_CAP :: nat where "REFINE_REG_CAP = 256"

text \<open>A probe of all slots that meets neither the name nor an empty slot never ends (\<open>None\<close>).\<close>

primrec probe_def :: "nat \<Rightarrow> refinement_def option list \<Rightarrow> nat \<Rightarrow> nat \<Rightarrow> nat option option" where
  "probe_def 0 reg nid idx = None"
| "probe_def (Suc n) reg nid idx =
     (case reg ! idx of
        None \<Rightarrow> Some None
      | Some d \<Rightarrow> if name_id d = nid then Some (Some idx) else probe_def n reg nid ((idx + 1) mod REFINE_REG_CAP))"

definition refine_lookup_by_name :: "(string \<Rightarrow> nat) \<Rightarrow> refine_state \<Rightarrow> tm \<Rightarrow> nat option option" where
  "refine_lookup_by_name sid st name_sym =
     (case cell_get_symbol name_sym of
        None \<Rightarrow> Some None
      | Some s \<Rightarrow> probe_def REFINE_REG_CAP (refine_registry st) (sid s) (sid s mod REFINE_REG_CAP))"

definition the_def :: "refine_state \<Rightarrow> nat \<Rightarrow> refinement_def" where
  "the_def st i = the (refine_registry st ! i)"

primrec free_slot :: "nat \<Rightarrow> refinement_def option list \<Rightarrow> nat \<Rightarrow> nat \<Rightarrow> nat option" where
  "free_slot 0 reg nid idx = None"
| "free_slot (Suc n) reg nid idx =
     (case reg ! idx of
        None \<Rightarrow> Some idx
      | Some d \<Rightarrow> if name_id d = nid then Some idx else free_slot n reg nid ((idx + 1) mod REFINE_REG_CAP))"

text \<open>A definition of the same name is overwritten in its slot as a whole, with its link.\<close>

definition refine_register :: "refinement_def \<Rightarrow> refine_state \<Rightarrow> refine_state option" where
  "refine_register d st = do {
     idx \<leftarrow> free_slot REFINE_REG_CAP (refine_registry st) (name_id d) (name_id d mod REFINE_REG_CAP);
     Some (case refine_registry st ! idx of
         Some _ \<Rightarrow> st\<lparr>refine_registry := (refine_registry st)[idx := Some d]\<rparr>
       | None \<Rightarrow> st\<lparr>refine_registry := (refine_registry st)[idx := Some (d\<lparr>next_def := refine_list_head st\<rparr>)],
             refine_list_head := Some idx, refine_count := refine_count st + 1\<rparr>)
   }"

subsection \<open>The cache of results\<close>

definition PRED_CACHE_CAP :: nat where "PRED_CACHE_CAP = 4096"

text \<open>Only values whose hash does not depend on their address are cached.\<close>

definition pred_cache_key :: "u8 list \<Rightarrow> nat \<Rightarrow> tm \<Rightarrow> u64" where
  "pred_cache_key key nid val =
     guage_siphash key (le_bytes 8 (of_nat nid) @ le_bytes 8 (cell_hash key (map_cell (\<lambda>_. 0) val)))"

definition pred_cache_lookup :: "u8 list \<Rightarrow> refine_state \<Rightarrow> nat \<Rightarrow> tm \<Rightarrow> bool option" where
  "pred_cache_lookup key st nid val =
     (let k = pred_cache_key key nid val
      in case pred_cache st (unat k mod PRED_CACHE_CAP) of
        Some (k', r) \<Rightarrow> if k' = k then Some r else None
      | None \<Rightarrow> None)"

definition pred_cache_store :: "u8 list \<Rightarrow> nat \<Rightarrow> tm \<Rightarrow> bool \<Rightarrow> refine_state \<Rightarrow> refine_state" where
  "pred_cache_store key nid val result st =
     (let k = pred_cache_key key nid val
      in st\<lparr>pred_cache := (pred_cache st)(unat k mod PRED_CACHE_CAP \<mapsto> (k, result))\<rparr>)"

subsection \<open>Checks\<close>

text \<open>
  The surroundings of a check: the key of the hash function, the identifiers of symbols and the
  evaluator. There is always a current context, and a predicate is taken not to change the table.
\<close>

record refine_env =
  hash_key :: "u8 list"
  sid :: "string \<Rightarrow> nat"
  refine_ev :: evaluator

definition run_lambda :: "evaluator \<Rightarrow> tm \<Rightarrow> tm \<Rightarrow> eval_context \<Rightarrow> (bool \<times> eval_context) option" where
  "run_lambda ev l val ctx =
     (case l of
        CLambda _ cenv body _ _ \<Rightarrow> do {
          (result, ctx) \<leftarrow> ev ctx (extend_cell_env cenv (tm_list [val])) body;
          Some (case cell_get_bool result of
              Some b \<Rightarrow> b
            | None \<Rightarrow> \<not> cell_is_nil result \<and> \<not> cell_is_error result, ctx)
        }
      | _ \<Rightarrow> Some (False, ctx))"

definition refine_eval_predicate :: "evaluator \<Rightarrow> refinement_def \<Rightarrow> tm \<Rightarrow> eval_context \<Rightarrow> (bool \<times> eval_context) option" where
  "refine_eval_predicate ev d val ctx =
     (case compiled_fn d of
        Some c \<Rightarrow> map_option (\<lambda>b. (b, ctx)) (run_template (tpl c) val (op1 c) (op2 c))
      | None \<Rightarrow>
          (case r_constraint d of
             None \<Rightarrow> run_lambda ev (r_lambda d) val ctx
           | Some (RCON_PRED _) \<Rightarrow> run_lambda ev (r_lambda d) val ctx
           | Some c \<Rightarrow> map_option (\<lambda>b. (b, ctx)) (rcon_eval c val)))"

definition cacheable :: "tm \<Rightarrow> bool" where
  "cacheable val \<longleftrightarrow> cell_is_number val \<or> cell_is_string val \<or> cell_is_bool val \<or> cell_is_symbol val"

partial_function (option) refine_check_value :: "refine_env \<Rightarrow> refinement_def \<Rightarrow> tm \<Rightarrow> refine_state \<Rightarrow> eval_context \<Rightarrow>
    (bool \<times> refine_state \<times> eval_context) option" where
  "refine_check_value R d val st ctx = do {
     matches \<leftarrow> value_matches_type val (Some (base_type d));
     if \<not> matches then Some (False, st, ctx)
     else case (if cacheable val then pred_cache_lookup (hash_key R) st (name_id d) val else None) of
       Some cached \<Rightarrow> Some (cached, st, ctx)
     | None \<Rightarrow> do {
         parents \<leftarrow> (case (parent1 d, parent2 d) of
             (Some p1, Some p2) \<Rightarrow> do {
               d1 \<leftarrow> refine_lookup_by_name (sid R) st p1;
               d2 \<leftarrow> refine_lookup_by_name (sid R) st p2;
               Some (case (d1, d2) of (Some i, Some j) \<Rightarrow> Some (i, j) | _ \<Rightarrow> None)
             }
           | _ \<Rightarrow> Some None);
         (result, st, ctx) \<leftarrow> (case parents of
             Some (i, j) \<Rightarrow> do {
               (r1, st, ctx) \<leftarrow> refine_check_value R (the_def st i) val st ctx;
               (r2, st, ctx) \<leftarrow> refine_check_value R (the_def st j) val st ctx;
               Some (if is_and d then r1 \<and> r2 else r1 \<or> r2, st, ctx)
             }
           | None \<Rightarrow> do {
               (r, ctx) \<leftarrow> refine_eval_predicate (refine_ev R) d val ctx;
               Some (r, st, ctx)
             });
         Some (result, if cacheable val then pred_cache_store (hash_key R) (name_id d) val result st else st, ctx)
       }
   }"

subsection \<open>The primitives\<close>

text \<open>A type constructor without parameters may be given in place of a type.\<close>

definition resolve_type :: "interp \<Rightarrow> tm \<Rightarrow> eval_context \<Rightarrow> result" where
  "resolve_type I t ctx = (case t of CBuiltin _ f \<Rightarrow> call_builtin I f cell_nil ctx | _ \<Rightarrow> Some (t, ctx))"

definition new_def :: "refine_env \<Rightarrow> string \<Rightarrow> tm \<Rightarrow> tm \<Rightarrow> refinement_def" where
  "new_def R nm base l =
     \<lparr>r_name = nm, base_type = base, r_constraint = None, compiled_fn = None, r_lambda = l, name_id = sid R nm,
      parent1 = None, parent2 = None, is_and = False, next_def = None\<rparr>"

definition prim_refine_def :: "interp \<Rightarrow> refine_env \<Rightarrow> tm \<Rightarrow> refine_state \<Rightarrow> eval_context \<Rightarrow>
    (tm \<times> refine_state \<times> eval_context) option" where
  "prim_refine_def I R args st ctx = do {
     nm \<leftarrow> arg1 args;
     base \<leftarrow> arg2 args;
     predicate \<leftarrow> arg3 args;
     case cell_get_symbol nm of
       None \<Rightarrow> Some (cell_error ''refine-def requires symbol as first argument'' (Some nm), st, ctx)
     | Some s \<Rightarrow>
         if \<not> cell_is_lambda predicate then
           Some (cell_error ''refine-def requires lambda as predicate'' (Some predicate), st, ctx)
         else do {
           (base, ctx) \<leftarrow> resolve_type I base ctx;
           c \<leftarrow> extract_constraint_from_lambda predicate;
           st \<leftarrow> refine_register ((new_def R s base predicate)\<lparr>r_constraint := c,
                   compiled_fn := Option.bind c compiled_pred_try\<rparr>) st;
           Some (nm, st, ctx)
         }
   }"

definition prim_refine_check :: "refine_env \<Rightarrow> tm \<Rightarrow> refine_state \<Rightarrow> eval_context \<Rightarrow>
    (tm \<times> refine_state \<times> eval_context) option" where
  "prim_refine_check R args st ctx = do {
     val \<leftarrow> arg1 args;
     nm \<leftarrow> arg2 args;
     if \<not> cell_is_symbol nm then Some (cell_error ''refine-check? requires symbol as second argument'' (Some nm), st, ctx)
     else do {
       i \<leftarrow> refine_lookup_by_name (sid R) st nm;
       case i of
         None \<Rightarrow> Some (cell_error ''refine-check? undefined refinement'' (Some nm), st, ctx)
       | Some i \<Rightarrow> do {
           (r, st, ctx) \<leftarrow> refine_check_value R (the_def st i) val st ctx;
           Some (cell_bool r, st, ctx)
         }
     }
   }"

definition prim_refine_assert :: "refine_env \<Rightarrow> tm \<Rightarrow> refine_state \<Rightarrow> eval_context \<Rightarrow>
    (tm \<times> refine_state \<times> eval_context) option" where
  "prim_refine_assert R args st ctx = do {
     val \<leftarrow> arg1 args;
     nm \<leftarrow> arg2 args;
     if \<not> cell_is_symbol nm then Some (cell_error ''refine-assert! requires symbol as second argument'' (Some nm), st, ctx)
     else do {
       i \<leftarrow> refine_lookup_by_name (sid R) st nm;
       case i of
         None \<Rightarrow> Some (cell_error ''refine-assert! undefined refinement'' (Some nm), st, ctx)
       | Some i \<Rightarrow> do {
           (r, st, ctx) \<leftarrow> refine_check_value R (the_def st i) val st ctx;
           Some (if r then val else cell_error '':refinement-violated'' (Some (tm_list [nm, val])), st, ctx)
         }
     }
   }"

text \<open>The queries on one definition.\<close>

definition query_def :: "string \<Rightarrow> refine_env \<Rightarrow> (refinement_def \<Rightarrow> tm) \<Rightarrow> tm \<Rightarrow> refine_state \<Rightarrow> tm option" where
  "query_def prim R f args st = do {
     nm \<leftarrow> arg1 args;
     if \<not> cell_is_symbol nm then Some (cell_error (prim @ '' requires symbol'') (Some nm))
     else do {
       i \<leftarrow> refine_lookup_by_name (sid R) st nm;
       Some (case i of
           None \<Rightarrow> cell_error (prim @ '' undefined refinement'') (Some nm)
         | Some i \<Rightarrow> f (the_def st i))
     }
   }"

definition prim_refine_base :: "refine_env \<Rightarrow> tm \<Rightarrow> refine_state \<Rightarrow> tm option" where
  "prim_refine_base R = query_def ''refine-base'' R base_type"

definition prim_refine_pred :: "refine_env \<Rightarrow> tm \<Rightarrow> refine_state \<Rightarrow> tm option" where
  "prim_refine_pred R = query_def ''refine-pred'' R r_lambda"

definition prim_refine_constraint :: "refine_env \<Rightarrow> tm \<Rightarrow> refine_state \<Rightarrow> tm option" where
  "prim_refine_constraint R = query_def ''refine-constraint'' R
     (\<lambda>d. case r_constraint d of Some c \<Rightarrow> rcon_to_cell c | None \<Rightarrow> r_lambda d)"

fun rcon_simple :: "rcon \<Rightarrow> bool" where
  "rcon_simple (RCON_PRED _) = False"
| "rcon_simple (RCON_AND _ _) = False"
| "rcon_simple (RCON_OR _ _) = False"
| "rcon_simple (RCON_NOT _) = False"
| "rcon_simple _ = True"

text \<open>
  The two compositions differ in the name, the constructor and the counter. The names are numbered
  by an \<^verbatim>\<open>int\<close>, here without its wrap-around.
\<close>

definition compose_defs :: "string \<Rightarrow> bool \<Rightarrow> refine_env \<Rightarrow> string \<Rightarrow> tm \<Rightarrow> refine_state \<Rightarrow> (tm \<times> refine_state) option" where
  "compose_defs prim both R nm args st = do {
     name1 \<leftarrow> arg1 args;
     name2 \<leftarrow> arg2 args;
     d1 \<leftarrow> refine_lookup_by_name (sid R) st name1;
     d2 \<leftarrow> refine_lookup_by_name (sid R) st name2;
     case (d1, d2) of
       (None, _) \<Rightarrow> Some (cell_error (prim @ '' undefined refinement'') (Some name1), st)
     | (_, None) \<Rightarrow> Some (cell_error (prim @ '' undefined refinement'') (Some name2), st)
     | (Some i, Some j) \<Rightarrow> do {
         let d1 = the_def st i;
         let d2 = the_def st j;
         let c = (case (r_constraint d1, r_constraint d2) of
                 (Some c1, Some c2) \<Rightarrow>
                   if rcon_simple c1 \<and> rcon_simple c2 then Some (if both then RCON_AND c1 c2 else RCON_OR c1 c2) else None
               | _ \<Rightarrow> None);
         let st = (if both then st\<lparr>and_counter := and_counter st + 1\<rparr> else st\<lparr>or_counter := or_counter st + 1\<rparr>);
         st \<leftarrow> refine_register ((new_def R nm (base_type d1) (r_lambda d1))\<lparr>r_constraint := c,
                 parent1 := Some name1, parent2 := Some name2, is_and := both\<rparr>) st;
         Some (cell_symbol nm, st)
       }
   }"

definition prim_refine_intersect :: "refine_env \<Rightarrow> tm \<Rightarrow> refine_state \<Rightarrow> (tm \<times> refine_state) option" where
  "prim_refine_intersect R args st =
     compose_defs ''refine-intersect'' True R ('':__refine_and_'' @ decimal (and_counter st)) args st"

definition prim_refine_union :: "refine_env \<Rightarrow> tm \<Rightarrow> refine_state \<Rightarrow> (tm \<times> refine_state) option" where
  "prim_refine_union R args st =
     compose_defs ''refine-union'' False R ('':__refine_or_'' @ decimal (or_counter st)) args st"

partial_function (option) refine_list_loop :: "refine_state \<Rightarrow> nat option \<Rightarrow> tm \<Rightarrow> tm option" where
  "refine_list_loop st d result =
     (case d of
        None \<Rightarrow> Some result
      | Some i \<Rightarrow>
          refine_list_loop st (next_def (the_def st i))
            (cell_cons (tm_list [cell_symbol (r_name (the_def st i)), base_type (the_def st i),
               case r_constraint (the_def st i) of Some c \<Rightarrow> rcon_to_cell c | None \<Rightarrow> cell_nil]) result))"

definition prim_refine_list :: "refine_state \<Rightarrow> tm option" where
  "prim_refine_list st = refine_list_loop st (refine_list_head st) cell_nil"

partial_function (option) refine_find_loop :: "refine_env \<Rightarrow> tm \<Rightarrow> nat option \<Rightarrow> refine_state \<Rightarrow> eval_context \<Rightarrow>
    (tm \<times> refine_state \<times> eval_context) option" where
  "refine_find_loop R val d st ctx =
     (case d of
        None \<Rightarrow> Some (cell_nil, st, ctx)
      | Some i \<Rightarrow> do {
          (r, st, ctx) \<leftarrow> refine_check_value R (the_def st i) val st ctx;
          if r then Some (cell_symbol (r_name (the_def st i)), st, ctx)
          else refine_find_loop R val (next_def (the_def st i)) st ctx
        })"

definition prim_refine_find :: "refine_env \<Rightarrow> tm \<Rightarrow> refine_state \<Rightarrow> eval_context \<Rightarrow>
    (tm \<times> refine_state \<times> eval_context) option" where
  "prim_refine_find R args st ctx = do {
     val \<leftarrow> arg1 args;
     refine_find_loop R val (refine_list_head st) st ctx
   }"

definition prim_refine_subtype :: "interp \<Rightarrow> refine_env \<Rightarrow> tm \<Rightarrow> refine_state \<Rightarrow> eval_context \<Rightarrow> result" where
  "prim_refine_subtype I R args st ctx = do {
     nm \<leftarrow> arg1 args;
     t \<leftarrow> arg2 args;
     if \<not> cell_is_symbol nm then Some (cell_error ''refine-subtype? requires symbol as first argument'' (Some nm), ctx)
     else do {
       (t, ctx) \<leftarrow> resolve_type I t ctx;
       i \<leftarrow> refine_lookup_by_name (sid R) st nm;
       case i of
         None \<Rightarrow> Some (cell_error ''refine-subtype? undefined refinement'' (Some nm), ctx)
       | Some i \<Rightarrow> do {
           eq \<leftarrow> types_equal (Some (base_type (the_def st i))) (Some t);
           if eq then Some (cell_bool True, ctx)
           else if \<not> is_type_struct (Some t) then Some (cell_bool False, ctx)
           else do {
             kind \<leftarrow> get_type_kind (Some t);
             Some (cell_bool (kind = Some '':any''), ctx)
           }
         }
     }
   }"

end
