(* ===== verification/RefineFacts.thy ===== *)
theory RefineFacts
  imports PrimRefine EvalRef TypeFacts
begin

section \<open>Properties of refinement types\<close>

text \<open>
  The three tiers decide the same predicate where a constraint is extracted faithfully, and a
  definition followed by a check decides it. Where they differ, and what a second definition of a
  name does to the cache and to the list, is shown at the end.
\<close>

subsection \<open>Predicates as they are written\<close>

datatype predicate =
    Compare string double
  | Conj predicate predicate
  | Disj predicate predicate
  | Neg predicate

fun pred_body :: "predicate \<Rightarrow> tm" where
  "pred_body (Compare f k) =
     tm_list [cell_symbol f, cell_number 0, tm_list [cell_symbol ''quote'', cell_number k]]"
| "pred_body (Conj a b) = tm_list [cell_symbol ''and'', pred_body a, pred_body b]"
| "pred_body (Disj a b) = tm_list [cell_symbol ''or'', pred_body a, pred_body b]"
| "pred_body (Neg a) = tm_list [cell_symbol ''not'', pred_body a]"

definition comparisons :: "string list" where
  "comparisons = [''>'', ''>='', ''<'', ''<='', ''equal?'', ''not-equal?'']"

fun pred_ok :: "predicate \<Rightarrow> bool" where
  "pred_ok (Compare f k) \<longleftrightarrow> f \<in> set comparisons"
| "pred_ok (Conj a b) \<longleftrightarrow> pred_ok a \<and> pred_ok b"
| "pred_ok (Disj a b) \<longleftrightarrow> pred_ok a \<and> pred_ok b"
| "pred_ok (Neg a) \<longleftrightarrow> pred_ok a"

text \<open>The meaning of a predicate on a number.\<close>

definition compares :: "string \<Rightarrow> double \<Rightarrow> double \<Rightarrow> bool" where
  "compares f v k \<longleftrightarrow>
     (if f = ''>'' then double_lt k v
      else if f = ''>='' then double_le k v
      else if f = ''<'' then double_lt v k
      else if f = ''<='' then double_le v k
      else if f = ''equal?'' then double_eq v k
      else \<not> double_eq v k)"

fun holds :: "predicate \<Rightarrow> double \<Rightarrow> bool" where
  "holds (Compare f k) v \<longleftrightarrow> compares f v k"
| "holds (Conj a b) v \<longleftrightarrow> holds a v \<and> holds b v"
| "holds (Disj a b) v \<longleftrightarrow> holds a v \<or> holds b v"
| "holds (Neg a) v \<longleftrightarrow> \<not> holds a v"

fun pred_fuel :: "predicate \<Rightarrow> nat" where
  "pred_fuel (Compare f k) = 2"
| "pred_fuel (Conj a b) = 1 + pred_fuel a + pred_fuel b"
| "pred_fuel (Disj a b) = 1 + pred_fuel a + pred_fuel b"
| "pred_fuel (Neg a) = 1 + pred_fuel a"

subsection \<open>Extraction\<close>

lemma fuse_and_eval: "rcon_eval (fuse_and l r) (cell_number v) = rcon_eval (RCON_AND l r) (cell_number v)"
  by (cases l; cases r) (simp_all add: fuse_and_def cell_number_def)

lemma extract_compare:
  assumes "f \<in> set comparisons"
  shows "\<exists>c. comparison f k = Some c \<and> rcon_eval c (cell_number v) = Some (compares f v k)"
  using assms unfolding comparisons_def comparison_def compares_def by (auto simp: cell_number_def)

lemma extract_pred:
  "pred_ok q \<Longrightarrow> \<exists>c. extract_constraint (pred_body q) = Some (Some c) \<and> rcon_eval c (cell_number v) = Some (holds q v)"
proof (induction q)
  case (Compare f k)
  then have f: "f \<in> set comparisons" by simp
  then have "f \<noteq> ''and''" "f \<noteq> ''or''" "f \<noteq> ''not''" unfolding comparisons_def by auto
  moreover have "mod_pattern (CNumber () 0) rhs = Some None" for rhs by (simp add: mod_pattern_def)
  moreover have "\<not> double_is_nan 0" by (simp add: double_is_nan_def double_exp_def)
  moreover obtain c where "comparison f k = Some c" "rcon_eval c (cell_number v) = Some (compares f v k)"
    using extract_compare [OF f] by blast
  ultimately show ?case
    by (simp add: cell_cons_def cell_symbol_def cell_number_def cell_nil_def extract_comparison_def unwrap_quoted_number_def)
next
  case (Conj a b)
  then obtain l r where l: "extract_constraint (pred_body a) = Some (Some l)" "rcon_eval l (cell_number v) = Some (holds a v)"
    and r: "extract_constraint (pred_body b) = Some (Some r)" "rcon_eval r (cell_number v) = Some (holds b v)" by auto
  have "rcon_eval (fuse_and l r) (cell_number v) = Some (holds a v \<and> holds b v)"
    unfolding fuse_and_eval using l(2) r(2) by simp
  with l(1) r(1) show ?case by (simp add: cell_cons_def cell_symbol_def)
next
  case (Disj a b)
  then show ?case by (auto simp: cell_cons_def cell_symbol_def)
next
  case (Neg a)
  then show ?case by (auto simp: cell_cons_def cell_symbol_def)
qed

text \<open>A template runs the constraint that it was compiled from, unless it is a remainder.\<close>

fun tame :: "rcon \<Rightarrow> bool" where
  "tame (RCON_MOD_EQ _ _) \<longleftrightarrow> False"
| "tame (RCON_PRED _) \<longleftrightarrow> False"
| "tame _ \<longleftrightarrow> True"

lemma template_runs:
  "compiled_pred_try c = Some t \<Longrightarrow> tame c \<Longrightarrow> run_template (tpl t) v (op1 t) (op2 t) = rcon_eval c v"
  by (cases c; cases "cell_get_number v") (auto simp: run_template_def)

lemma tier1_runs:
  assumes "compiled_fn d = None" "r_constraint d = Some c" "tame c"
  shows "refine_eval_predicate ev d v ctx = map_option (\<lambda>b. (b, ctx)) (rcon_eval c v)"
  using assms by (cases c) (simp_all add: refine_eval_predicate_def del: rcon_eval.simps)

lemma fuse_and_tame: "tame (fuse_and l r)"
  by (cases l; cases r) (simp_all add: fuse_and_def)

lemma extract_and_or:
  assumes "extract_constraint (tm_list [cell_symbol f, a, b]) = Some (Some c)" "f = ''and'' \<or> f = ''or''"
  shows "\<exists>l r. c = fuse_and l r \<or> c = RCON_OR l r"
proof -
  have e: "extract_constraint (tm_list [cell_symbol f, a, b]) = do {
      left \<leftarrow> extract_constraint a;
      right \<leftarrow> extract_constraint b;
      Some (do { l \<leftarrow> left; r \<leftarrow> right; Some (if f = ''and'' then fuse_and l r else RCON_OR l r) })
    }"
    using assms(2) by (cases "extract_constraint a"; cases "extract_constraint b")
      (auto simp: cell_cons_def cell_symbol_def split: option.split)
  from assms(1) [unfolded e] obtain l r where "c = (if f = ''and'' then fuse_and l r else RCON_OR l r)"
    by (auto simp: bind_eq_Some_conv)
  then show ?thesis by (intro exI [of _ l] exI [of _ r]) auto
qed

lemma extract_tame: "pred_ok q \<Longrightarrow> extract_constraint (pred_body q) = Some (Some c) \<Longrightarrow> tame c"
proof (induction q arbitrary: c)
  case (Compare f k)
  then have f: "f \<in> set comparisons" by simp
  then have "f \<noteq> ''and''" "f \<noteq> ''or''" "f \<noteq> ''not''" unfolding comparisons_def by auto
  moreover have "mod_pattern (CNumber () 0) rhs = Some None" for rhs by (simp add: mod_pattern_def)
  moreover have "\<not> double_is_nan 0" by (simp add: double_is_nan_def double_exp_def)
  ultimately have "comparison f k = Some c" using Compare.prems(2)
    by (simp add: cell_cons_def cell_symbol_def cell_number_def cell_nil_def extract_comparison_def unwrap_quoted_number_def
        split: if_splits)
  then show ?case by (auto simp: comparison_def split: if_splits)
next
  case (Conj a b)
  from extract_and_or [OF Conj.prems(2) [unfolded pred_body.simps]] show ?case using fuse_and_tame by auto
next
  case (Disj a b)
  from extract_and_or [OF Disj.prems(2) [unfolded pred_body.simps]] show ?case using fuse_and_tame by auto
next
  case (Neg a)
  then show ?case by (auto simp: cell_cons_def cell_symbol_def bind_eq_Some_conv split: option.splits)
qed

subsection \<open>Evaluation\<close>

text \<open>
  The two equalities compare addresses first. The value that is checked and the literal of the
  predicate are different objects, so they are given different addresses.
\<close>

definition on_two_objects :: "(bool cell \<Rightarrow> tm option) \<Rightarrow> tm \<Rightarrow> tm option" where
  "on_two_objects prim args = do {
     a \<leftarrow> arg1 args;
     b \<leftarrow> arg2 args;
     prim (CPair False (map_cell (\<lambda>_. False) a) (CPair False (map_cell (\<lambda>_. True) b) (CNil False)))
   }"

definition pred_prims :: "(string \<Rightarrow> (tm \<Rightarrow> tm option) option) \<Rightarrow> bool" where
  "pred_prims p \<longleftrightarrow> p ''>'' = Some prim_gt \<and> p ''>='' = Some prim_ge \<and> p ''<'' = Some prim_lt \<and> p ''<='' = Some prim_le \<and>
     p ''equal?'' = Some (on_two_objects prim_equal) \<and> p ''not-equal?'' = Some (on_two_objects prim_not_equal) \<and> p ''not'' = Some prim_not"

lemma compare_prim:
  assumes "pred_prims p" "f \<in> set comparisons"
  shows "\<exists>q. p f = Some q \<and> q (tm_list [cell_number v, cell_number k]) = Some (cell_bool (compares f v k))"
proof -
  from assms(2) consider "f = ''>''" | "f = ''>=''" | "f = ''<''" | "f = ''<=''" | "f = ''equal?''" | "f = ''not-equal?''"
    unfolding comparisons_def by auto
  then show ?thesis
    using assms(1)
    by cases (simp_all add: pred_prims_def compares_def prim_gt_def prim_ge_def prim_lt_def prim_le_def prim_equal_def
        prim_not_equal_def compare_with_def on_two_objects_def, simp_all add: cell_number_def cell_bool_def cell_equal.simps arg1_def arg2_def)
qed

lemma eval_and_or_step:
  assumes "agrees I ctx p g" "s = (if stop then ''or'' else ''and'')" "ev ctx env a = Some (cell_bool u, ctx)"
  shows "eval_step I ev ctx env (tm_list [cell_symbol s, a, b]) = (if u = stop then Some (cell_bool u, ctx) else ev ctx env b)"
  using assms step_pair [OF assms(1)]
  by (simp add: eval_pair_def outside_forms_def cell_symbol_def eval_and_or_def) (simp add: cell_bool_def)

lemma eval_parameter:
  assumes "length (concat (map snd sc)) + 1 < 2 ^ 28"
  shows "eval_step I ev ctx (cell_scopes (([x], [v]) # sc)) (cell_number 0) = Some (v, ctx)"
  using eval_number_index [of 0 "([x], [v]) # sc"] assms by (simp add: eval_step_def cell_number_def)

lemma eval_quoted:
  assumes "agrees I ctx p g"
  shows "eval_step I ev ctx env (tm_list [cell_symbol ''quote'', c]) = Some (c, ctx)"
  using step_pair [OF assms] by (simp add: eval_pair_def cell_symbol_def)

lemma eval_pred:
  assumes "agrees I ctx p g" "pred_prims p" "length (concat (map snd sc)) + 1 < 2 ^ 28"
  shows "pred_ok q \<Longrightarrow> eval_internal I (pred_fuel q) ctx (cell_scopes (([x], [cell_number v]) # sc)) (pred_body q) =
    Some (cell_bool (holds q v), ctx)"
proof (induction q)
  case (Compare f k)
  then have f: "f \<in> set comparisons" by simp
  then obtain r where r: "p f = Some r" "r (tm_list [cell_number v, cell_number k]) = Some (cell_bool (compares f v k))"
    using compare_prim [OF assms(2)] by blast
  let ?env = "cell_scopes (([x], [cell_number v]) # sc)"
  let ?ev = "eval_internal I (Suc 0)"
  have 1: "?ev ctx ?env (cell_number 0) = Some (cell_number v, ctx)"
    using eval_parameter [OF assms(3)] by simp
  have 2: "?ev ctx ?env (tm_list [cell_symbol ''quote'', cell_number k]) = Some (cell_number k, ctx)"
    using eval_quoted [OF assms(1)] by simp
  have args: "eval_list ?ev ctx ?env (tm_list [cell_number 0, tm_list [cell_symbol ''quote'', cell_number k]]) =
      Some (tm_list [cell_number v, cell_number k], ctx)"
    by (rule eval_list_all) (use 1 2 in simp)
  have sym: "?ev ctx ?env (cell_symbol f) = Some (g f, ctx)"
    using assms(1) by (simp add: agrees_def eval_step_def cell_symbol_def)
  have "f \<notin> set special_forms" using f unfolding comparisons_def special_forms_def outside_forms_def by auto
  from eval_prim [where ev = ?ev, OF assms(1) this r(1) sym args] r(2)
  show ?case unfolding pred_body.simps tm_list.simps(2) [of "cell_symbol f"] pred_fuel.simps numeral_2_eq_2 eval_internal.simps(2) [of _ "Suc 0"]
    by simp
next
  case (Conj a b)
  let ?n = "pred_fuel a + pred_fuel b"
  have "eval_internal I ?n ctx (cell_scopes (([x], [cell_number v]) # sc)) (pred_body a) = Some (cell_bool (holds a v), ctx)"
    "eval_internal I ?n ctx (cell_scopes (([x], [cell_number v]) # sc)) (pred_body b) = Some (cell_bool (holds b v), ctx)"
    using Conj eval_internal_mono [of "pred_fuel a" ?n] eval_internal_mono [of "pred_fuel b" ?n] by simp_all
  with eval_and_or_step [where ev = "eval_internal I ?n", OF assms(1) refl this(1), of False] show ?case
    by (simp del: tm_list.simps)
next
  case (Disj a b)
  let ?n = "pred_fuel a + pred_fuel b"
  have "eval_internal I ?n ctx (cell_scopes (([x], [cell_number v]) # sc)) (pred_body a) = Some (cell_bool (holds a v), ctx)"
    "eval_internal I ?n ctx (cell_scopes (([x], [cell_number v]) # sc)) (pred_body b) = Some (cell_bool (holds b v), ctx)"
    using Disj eval_internal_mono [of "pred_fuel a" ?n] eval_internal_mono [of "pred_fuel b" ?n] by simp_all
  with eval_and_or_step [where ev = "eval_internal I ?n", OF assms(1) refl this(1), of True] show ?case
    by (simp del: tm_list.simps)
next
  case (Neg a)
  let ?env = "cell_scopes (([x], [cell_number v]) # sc)"
  let ?ev = "eval_internal I (pred_fuel a)"
  obtain m where m: "pred_fuel a = Suc m" by (cases a) auto
  have args: "eval_list ?ev ctx ?env (tm_list [pred_body a]) = Some (tm_list [cell_bool (holds a v)], ctx)"
    by (rule eval_list_all) (use Neg in simp)
  have sym: "?ev ctx ?env (cell_symbol ''not'') = Some (g ''not'', ctx)"
    using assms(1) unfolding m by (simp add: agrees_def eval_step_def cell_symbol_def)
  have n: "''not'' \<notin> set special_forms" by (simp add: special_forms_def outside_forms_def)
  have p: "p ''not'' = Some prim_not" using assms(2) by (simp add: pred_prims_def)
  have "prim_not (tm_list [cell_bool (holds a v)]) = Some (cell_bool (\<not> holds a v))"
    by (simp add: prim_not_def) (simp add: cell_bool_def)
  with eval_prim [where ev = ?ev, OF assms(1) n p sym args] show ?case by simp
qed

lemma run_pred:
  assumes "agrees I ctx p g" "pred_prims p" "length (concat (map snd sc)) + 1 < 2 ^ 28" "pred_ok q" "pred_fuel q \<le> n"
  shows "run_lambda (eval_internal I n) (CLambda () (cell_scopes sc) (pred_body q) 1 None) (cell_number v) ctx = Some (holds q v, ctx)"
proof -
  have "extend_cell_env (cell_scopes sc) (tm_list [cell_number v]) = cell_scopes (([''x''], [cell_number v]) # sc)"
    by (rule extend_cell_scopes) (use assms(3) in simp)
  moreover have "eval_internal I n ctx (cell_scopes (([''x''], [cell_number v]) # sc)) (pred_body q) = Some (cell_bool (holds q v), ctx)"
    by (rule eval_internal_mono [OF assms(5) eval_pred [OF assms(1-4)]])
  ultimately show ?thesis by (simp add: run_lambda_def del: tm_list.simps) (simp add: cell_bool_def)
qed

subsection \<open>The table\<close>

definition table_ok :: "refine_state \<Rightarrow> bool" where
  "table_ok st \<longleftrightarrow> length (refine_registry st) = REFINE_REG_CAP"

lemma free_slot_then_probe:
  assumes "free_slot n reg nid idx = Some i" "name_id d = nid" "length reg = REFINE_REG_CAP" "idx < REFINE_REG_CAP"
  shows "i < REFINE_REG_CAP \<and> probe_def n (reg[i := Some d]) nid idx = Some (Some i)"
  using assms
proof (induction n arbitrary: idx)
  case (Suc n)
  let ?next = "(idx + 1) mod REFINE_REG_CAP"
  have next_less: "?next < REFINE_REG_CAP" by (simp add: REFINE_REG_CAP_def)
  show ?case
  proof (cases "reg ! idx")
    case None
    with Suc.prems show ?thesis by simp
  next
    case (Some e)
    show ?thesis
    proof (cases "name_id e = nid")
      case True
      with Some Suc.prems show ?thesis by simp
    next
      case False
      with Some Suc.prems have "free_slot n reg nid ?next = Some i" by simp
      from Suc.IH [OF this Suc.prems(2,3) next_less] Some False Suc.prems show ?thesis
        by (cases "i = idx") simp_all
    qed
  qed
qed simp

lemma registered_lookup:
  assumes "refine_register d st = Some st'" "table_ok st" "name_id d = sid R s"
  shows "\<exists>i l. refine_lookup_by_name (sid R) st' (cell_symbol s) = Some (Some i) \<and> the_def st' i = d\<lparr>next_def := l\<rparr> \<and>
    pred_cache st' = pred_cache st \<and> table_ok st' \<and> i < REFINE_REG_CAP"
proof -
  have mod: "sid R s mod REFINE_REG_CAP < REFINE_REG_CAP" by (simp add: REFINE_REG_CAP_def)
  from assms(1) obtain i where i: "free_slot REFINE_REG_CAP (refine_registry st) (sid R s) (sid R s mod REFINE_REG_CAP) = Some i"
    using assms(3) by (auto simp: refine_register_def bind_eq_Some_conv)
  note slot = free_slot_then_probe [OF i _ assms(2) [unfolded table_ok_def] mod]
  show ?thesis
  proof (cases "refine_registry st ! i")
    case None
    with assms(1,3) i have "st' = st\<lparr>refine_registry := (refine_registry st)[i := Some (d\<lparr>next_def := refine_list_head st\<rparr>)],
             refine_list_head := Some i, refine_count := refine_count st + 1\<rparr>"
      by (simp add: refine_register_def)
    with slot [of "d\<lparr>next_def := refine_list_head st\<rparr>"] assms(2,3) show ?thesis
      by (auto simp: refine_lookup_by_name_def cell_symbol_def the_def_def table_ok_def)
  next
    case (Some e)
    with assms(1,3) i have "st' = st\<lparr>refine_registry := (refine_registry st)[i := Some d]\<rparr>"
      by (simp add: refine_register_def)
    moreover have "d\<lparr>next_def := next_def d\<rparr> = d" by simp
    ultimately show ?thesis using slot [of d] assms(2,3)
      by (intro exI [of _ i] exI [of _ "next_def d"]) (auto simp: refine_lookup_by_name_def cell_symbol_def the_def_def table_ok_def)
  qed
qed

subsection \<open>Properties\<close>

text \<open>The definition of a refinement by a closure on a type that is a structure.\<close>

lemma refine_def_register:
  assumes "is_type_struct (Some base)" "extract_constraint body = Some c"
  shows "prim_refine_def I R (tm_list [cell_symbol nm, base, CLambda a cenv body ar cs]) st ctx =
    map_option (\<lambda>st. (cell_symbol nm, st, ctx))
      (refine_register ((new_def R nm base (CLambda a cenv body ar cs))\<lparr>r_constraint := c, compiled_fn := Option.bind c compiled_pred_try\<rparr>) st)"
proof -
  have "resolve_type I base ctx = Some (base, ctx)" using assms(1) by (cases base) (auto simp: resolve_type_def)
  moreover have "cell_get_symbol (cell_symbol nm) = Some nm" by (simp add: cell_symbol_def)
  moreover have "cell_is_lambda (CLambda a cenv body ar cs)" by (simp add: cell_is_lambda_def)
  ultimately show ?thesis using assms(2) by (simp add: prim_refine_def_def option.map_comp o_def) (simp add: map_conv_bind_option o_def)
qed

lemma pred_cache_store_lookup:
  "pred_cache_lookup key (pred_cache_store key nid v r st) nid v = Some r"
  by (simp add: pred_cache_lookup_def pred_cache_store_def Let_def)

lemma pred_cache_store_frame:
  "slot \<noteq> unat (pred_cache_key key nid v) mod PRED_CACHE_CAP \<Longrightarrow>
    pred_cache (pred_cache_store key nid v r st) slot = pred_cache st slot"
  "refine_registry (pred_cache_store key nid v r st) = refine_registry st"
  by (simp_all add: pred_cache_store_def Let_def)

lemma lookup_by_registry:
  "refine_registry st' = refine_registry st \<Longrightarrow> refine_lookup_by_name s st' nm = refine_lookup_by_name s st nm"
  "refine_registry st' = refine_registry st \<Longrightarrow> the_def st' i = the_def st i"
  by (simp_all add: refine_lookup_by_name_def the_def_def cong: option.case_cong)

text \<open>A check without parents that is answered from the cache, and one that is not.\<close>

lemma check_from_cache:
  assumes "value_matches_type val (Some (base_type d)) = Some b" "cacheable val"
    "b \<Longrightarrow> pred_cache_lookup (hash_key R) st (name_id d) val = Some r"
  shows "refine_check_value R d val st ctx = Some (b \<and> r, st, ctx)"
  by (subst refine_check_value.simps) (use assms in auto)

lemma check_evaluated:
  assumes "value_matches_type val (Some (base_type d)) = Some True" "cacheable val"
    "pred_cache_lookup (hash_key R) st (name_id d) val = None" "parent1 d = None"
    "refine_eval_predicate (refine_ev R) d val ctx = Some (r, ctx)"
  shows "refine_check_value R d val st ctx = Some (r, pred_cache_store (hash_key R) (name_id d) val r st, ctx)"
  by (subst refine_check_value.simps) (use assms in auto)

text \<open>
  C24. A refinement means its predicate. Defining a refinement over a type by a closure whose body is
  built from comparisons of the parameter with literals, \<open>and\<close>, \<open>or\<close> and \<open>not\<close> succeeds when the
  table has a slot. A check of a number under that name then gives whether the number is of the type
  and the predicate holds of it, which is what evaluating the closure gives, unless the cache holds
  an answer for this name and number: a definition does not clear the cache, and that answer is
  given instead for a number of the type. A number that is not of the type leaves the cache alone; otherwise the
  answer is in the cache afterwards, no other slot has changed, and a second check gives the same
  answer and changes nothing.
\<close>

theorem refinement_decides_predicate:
  assumes "agrees I ctx p g" "pred_prims p" "pred_ok q" "length (concat (map snd sc)) + 1 < 2 ^ 28" "pred_fuel q \<le> n"
    "is_type_struct (Some base)" "value_matches_type (cell_number v) (Some base) = Some b" "table_ok st"
    "free_slot REFINE_REG_CAP (refine_registry st) (sid R nm) (sid R nm mod REFINE_REG_CAP) \<noteq> None"
    "old = pred_cache_lookup (hash_key R) st (sid R nm) (cell_number v)"
    "answer = (b \<and> (case old of None \<Rightarrow> holds q v | Some r \<Rightarrow> r))"
  shows "\<exists>st' st''. prim_refine_def I R (tm_list [cell_symbol nm, base, CLambda () (cell_scopes sc) (pred_body q) 1 None]) st ctx =
      Some (cell_symbol nm, st', ctx) \<and>
    prim_refine_check R (tm_list [cell_number v, cell_symbol nm]) st' ctx = Some (cell_bool answer, st'', ctx) \<and>
    prim_refine_check R (tm_list [cell_number v, cell_symbol nm]) st'' ctx = Some (cell_bool answer, st'', ctx) \<and>
    (if b then pred_cache_lookup (hash_key R) st'' (sid R nm) (cell_number v) = Some answer
     else pred_cache st'' = pred_cache st) \<and>
    (\<forall>slot. slot \<noteq> unat (pred_cache_key (hash_key R) (sid R nm) (cell_number v)) mod PRED_CACHE_CAP \<longrightarrow>
      pred_cache st'' slot = pred_cache st slot) \<and>
    run_lambda (eval_internal I n) (CLambda () (cell_scopes sc) (pred_body q) 1 None) (cell_number v) ctx = Some (holds q v, ctx)"
proof -
  let ?l = "CLambda () (cell_scopes sc) (pred_body q) 1 None" and ?v = "cell_number v :: tm"
  from extract_pred [OF assms(3)] obtain c where c: "extract_constraint (pred_body q) = Some (Some c)" by blast
  with extract_pred [OF assms(3), of v] have ev: "rcon_eval c ?v = Some (holds q v)" by auto
  let ?d = "(new_def R nm base ?l)\<lparr>r_constraint := Some c, compiled_fn := compiled_pred_try c\<rparr>"
  obtain st' where st': "refine_register ?d st = Some st'"
    using assms(9) by (auto simp: refine_register_def new_def_def split: option.split)
  have "name_id ?d = sid R nm" by (simp add: new_def_def)
  from registered_lookup [OF st' assms(8) this] obtain i l where
    look: "refine_lookup_by_name (sid R) st' (cell_symbol nm) = Some (Some i)" "the_def st' i = ?d\<lparr>next_def := l\<rparr>"
    "pred_cache st' = pred_cache st" by blast
  have old: "pred_cache_lookup (hash_key R) st' (sid R nm) ?v = old"
    using assms(10) by (simp add: pred_cache_lookup_def look(3))
  have run: "refine_eval_predicate (refine_ev R) (the_def st' i) ?v ctx = Some (holds q v, ctx)"
  proof (cases "compiled_pred_try c")
    case None
    then show ?thesis using tier1_runs [of "the_def st' i" c] extract_tame [OF assms(3) c] ev by (simp add: look(2))
  next
    case (Some t)
    with template_runs [OF Some extract_tame [OF assms(3) c], of ?v] ev show ?thesis
      by (simp add: refine_eval_predicate_def look(2))
  qed
  have d: "base_type (the_def st' i) = base" "name_id (the_def st' i) = sid R nm" "parent1 (the_def st' i) = None"
    by (simp_all add: look(2) new_def_def)
  have cache: "cacheable ?v" unfolding cacheable_def by (simp add: cell_number_def)
  note typed = assms(7) [folded d(1)]
  define st'' where "st'' = (if b \<and> old = None then pred_cache_store (hash_key R) (sid R nm) ?v answer st' else st')"
  have first: "refine_check_value R (the_def st' i) ?v st' ctx = Some (answer, st'', ctx)"
  proof (cases "b \<and> old = None")
    case True
    then have "answer = holds q v" using assms(11) by simp
    with True check_evaluated [OF _ cache _ d(3) run, of st'] typed old show ?thesis by (simp add: d(2) st''_def)
  next
    case False
    then have "answer = (b \<and> the old)" using assms(11) by auto
    with False check_from_cache [OF typed cache, where st = st' and r = "the old" and R = R] old show ?thesis
      by (auto simp: d(2) st''_def)
  qed
  have stored: "b \<Longrightarrow> pred_cache_lookup (hash_key R) st'' (sid R nm) ?v = Some answer"
    using old assms(11) by (auto simp: st''_def pred_cache_store_lookup split: option.splits)
  have second: "refine_check_value R (the_def st' i) ?v st'' ctx = Some (answer, st'', ctx)"
    using check_from_cache [OF typed cache, where st = st'' and r = answer and R = R] stored assms(11) by (auto simp: d(2))
  have reg: "refine_registry st'' = refine_registry st'" by (simp add: st''_def pred_cache_store_frame)
  have frame: "pred_cache st'' slot = pred_cache st slot"
    if "slot \<noteq> unat (pred_cache_key (hash_key R) (sid R nm) ?v) mod PRED_CACHE_CAP" for slot
    using pred_cache_store_frame(1) [OF that] look(3) by (simp add: st''_def)
  have check: "prim_refine_check R (tm_list [?v, cell_symbol nm]) s ctx = Some (cell_bool answer, st'', ctx)"
    if "refine_registry s = refine_registry st'" "refine_check_value R (the_def st' i) ?v s ctx = Some (answer, st'', ctx)" for s
    using that(2) look(1) lookup_by_registry [OF that(1)]
    by (simp add: prim_refine_check_def) (simp add: cell_symbol_def)
  have "prim_refine_def I R (tm_list [cell_symbol nm, base, ?l]) st ctx = Some (cell_symbol nm, st', ctx)"
    using refine_def_register [OF assms(6) c] st' by simp
  moreover have "\<not> b \<longrightarrow> pred_cache st'' = pred_cache st" by (simp add: st''_def look(3))
  ultimately show ?thesis
    using run_pred [OF assms(1,2,4,3,5)] check [OF refl first] check [OF reg second] stored frame
    by (intro exI [of _ st'] exI [of _ st'']) simp
qed

text \<open>An interpreter with the primitives of predicates, and \<open>(lambda (x) (and (<= x 0) (not (< x 0))))\<close>.\<close>

definition pred_prim :: "string \<Rightarrow> (tm \<Rightarrow> tm option) option" where
  "pred_prim f =
     (if f = ''>'' then Some prim_gt else if f = ''>='' then Some prim_ge else if f = ''<'' then Some prim_lt
      else if f = ''<='' then Some prim_le else if f = ''equal?'' then Some (on_two_objects prim_equal)
      else if f = ''not-equal?'' then Some (on_two_objects prim_not_equal) else if f = ''not'' then Some prim_not else None)"

definition pred_interp :: interp where
  "pred_interp = plus_interp\<lparr>prims := \<lambda>f. map_option (\<lambda>q args c. map_option (\<lambda>v. (v, c)) (q args)) (pred_prim f)\<rparr>"

definition some_refine_env :: refine_env where
  "some_refine_env = \<lparr>hash_key = replicate 16 0, sid = \<lambda>s. length s, refine_ev = eval_internal pred_interp 4\<rparr>"

definition no_refinements :: refine_state where
  "no_refinements = \<lparr>refine_registry = replicate 256 None, refine_count = 0, refine_list_head = None,
     pred_cache = Map.empty, and_counter = 0, or_counter = 0\<rparr>"

lemma pred_agrees: "agrees pred_interp fresh_context pred_prim (eval_symbol pred_interp fresh_context)"
  by (auto simp: agrees_def pred_interp_def plus_interp_def fresh_context_def eval_symbol_def eval_lookup_def
      primitives_lookup_def module_registry_resolve_alias_def Let_def dot_split_def pred_prim_def)

lemma pred_prims_pred_prim: "pred_prims pred_prim"
  by (simp add: pred_prims_def pred_prim_def)

theorem refinement_decides_predicate_witness:
  "\<exists>st' st''. prim_refine_def pred_interp some_refine_env (tm_list [cell_symbol '':Zero'', make_type_struct '':int'' cell_nil,
      CLambda () cell_nil (pred_body (Conj (Compare ''<='' 0) (Neg (Compare ''<'' 0)))) 1 None]) no_refinements fresh_context =
      Some (cell_symbol '':Zero'', st', fresh_context) \<and>
    prim_refine_check some_refine_env (tm_list [cell_number 0, cell_symbol '':Zero'']) st' fresh_context =
      Some (cell_bool True, st'', fresh_context) \<and>
    pred_cache_lookup (hash_key some_refine_env) st'' (sid some_refine_env '':Zero'') (cell_number 0) = Some True"
proof -
  let ?q = "Conj (Compare ''<='' 0) (Neg (Compare ''<'' 0))"
  have holds: "holds ?q 0" by (simp add: compares_def double_le_def double_is_nan_def double_exp_def)
  have ok: "pred_ok ?q" by (simp add: comparisons_def)
  have matches: "value_matches_type (cell_number 0) (Some (make_type_struct '':int'' cell_nil)) = Some True"
    by simp (simp add: cell_number_def)
  have table: "table_ok no_refinements" by (simp add: table_ok_def no_refinements_def REFINE_REG_CAP_def)
  have free: "free_slot (Suc n) reg nid i = Some i" if "reg ! i = None" for n reg nid i using that by simp
  have "sid some_refine_env '':Zero'' = 5" by (simp add: some_refine_env_def)
  then have slot: "free_slot REFINE_REG_CAP (refine_registry no_refinements) (sid some_refine_env '':Zero'')
      (sid some_refine_env '':Zero'' mod REFINE_REG_CAP) \<noteq> None"
    using free [of "replicate 256 None" 5 255 5] by (simp add: REFINE_REG_CAP_def no_refinements_def)
  have miss: "pred_cache_lookup (hash_key some_refine_env) no_refinements n v = None" for n v
    by (simp add: no_refinements_def pred_cache_lookup_def Let_def)
  have "length (concat (map snd [])) + 1 < 2 ^ 28" "pred_fuel ?q \<le> 6" by simp_all
  from refinement_decides_predicate [OF pred_agrees pred_prims_pred_prim ok this type_struct_simps(1) matches table slot refl refl, unfolded miss] holds
  show ?thesis by (simp only: cell_scopes_def if_True refl simp_thms option.case) blast
qed

text \<open>
  A redefinition keeps the old answers. The cache of results is keyed by the identifier of the
  name and the value, and registering a definition does not clear it: whatever the new predicate is,
  a value whose check was answered before gets the same answer again.
\<close>

theorem redefinition_keeps_answers:
  assumes "is_type_struct (Some base)" "value_matches_type val (Some base) = Some True" "cacheable val" "table_ok st"
    "pred_cache_lookup (hash_key R) st (sid R nm) val = Some r" "extract_constraint body = Some c"
    "prim_refine_def I R (tm_list [cell_symbol nm, base, CLambda () cenv body ar cs]) st ctx = Some (res, st', ctx')"
  shows "prim_refine_check R (tm_list [val, cell_symbol nm]) st' ctx' = Some (cell_bool r, st', ctx')"
proof -
  let ?d = "(new_def R nm base (CLambda () cenv body ar cs))\<lparr>r_constraint := c, compiled_fn := Option.bind c compiled_pred_try\<rparr>"
  have st': "refine_register ?d st = Some st'"
    using assms(7) unfolding refine_def_register [OF assms(1,6)] by auto
  have "name_id ?d = sid R nm" by (simp add: new_def_def)
  from registered_lookup [OF st' assms(4) this] obtain i l where
    look: "refine_lookup_by_name (sid R) st' (cell_symbol nm) = Some (Some i)" "the_def st' i = ?d\<lparr>next_def := l\<rparr>"
    "pred_cache st' = pred_cache st" by blast
  have "pred_cache_lookup (hash_key R) st' (sid R nm) val = Some r"
    using assms(5) by (simp add: pred_cache_lookup_def look(3))
  then have "refine_check_value R (the_def st' i) val st' ctx' = Some (r, st', ctx')"
    by (subst refine_check_value.simps) (use assms(2,3) in \<open>simp add: look(2) new_def_def\<close>)
  then show ?thesis using look(1) by (simp add: prim_refine_check_def) (simp add: cell_symbol_def)
qed

text \<open>Zero was accepted under the name \<open>:Zero\<close>, which is then redefined as \<open>(< x 0)\<close>.\<close>

definition zero_accepted :: refine_state where
  "zero_accepted = pred_cache_store (replicate 16 0) 5 (cell_number 0) True no_refinements"

lemma zero_slot: "free_slot REFINE_REG_CAP (replicate 256 None) 5 (5 mod REFINE_REG_CAP) = Some 5"
proof -
  have free: "free_slot (Suc n) reg nid i = Some i" if "reg ! i = None" for n reg nid i using that by simp
  show ?thesis using free [of "replicate 256 None" 5 255 5] by (simp add: REFINE_REG_CAP_def)
qed

theorem redefinition_keeps_answers_witness:
  "\<exists>st'. prim_refine_def pred_interp some_refine_env (tm_list [cell_symbol '':Zero'', make_type_struct '':int'' cell_nil,
      CLambda () cell_nil (pred_body (Compare ''<'' 0)) 1 None]) zero_accepted fresh_context =
      Some (cell_symbol '':Zero'', st', fresh_context) \<and>
    prim_refine_check some_refine_env (tm_list [cell_number 0, cell_symbol '':Zero'']) st' fresh_context =
      Some (cell_bool True, st', fresh_context) \<and> \<not> holds (Compare ''<'' 0) 0"
proof -
  let ?body = "pred_body (Compare ''<'' 0)"
  have "pred_ok (Compare ''<'' 0)" by (simp add: comparisons_def)
  then obtain c where c: "extract_constraint ?body = Some (Some c)" using extract_pred by blast
  have matches: "value_matches_type (cell_number 0) (Some (make_type_struct '':int'' cell_nil)) = Some True"
    and cacheable: "cacheable (cell_number 0)"
    unfolding cacheable_def by simp_all (simp_all add: cell_number_def)
  have table: "table_ok zero_accepted" and reg: "refine_registry zero_accepted = replicate 256 None"
    by (simp_all add: table_ok_def zero_accepted_def pred_cache_store_def no_refinements_def REFINE_REG_CAP_def Let_def)
  have nid: "sid some_refine_env '':Zero'' = 5" and key: "hash_key some_refine_env = replicate 16 0"
    by (simp_all add: some_refine_env_def)
  have hit: "pred_cache_lookup (hash_key some_refine_env) zero_accepted (sid some_refine_env '':Zero'') (cell_number 0) = Some True"
    unfolding nid key by (simp add: zero_accepted_def pred_cache_store_def pred_cache_lookup_def Let_def)
  obtain st' where st': "prim_refine_def pred_interp some_refine_env (tm_list [cell_symbol '':Zero'', make_type_struct '':int'' cell_nil,
      CLambda () cell_nil ?body 1 None]) zero_accepted fresh_context = Some (cell_symbol '':Zero'', st', fresh_context)"
    using refine_def_register [OF type_struct_simps(1) c] zero_slot nid
    by (auto simp: refine_register_def new_def_def reg split: option.split)
  have "\<not> holds (Compare ''<'' 0) 0" by (simp add: compares_def)
  with st' redefinition_keeps_answers [OF type_struct_simps(1) matches cacheable table hit c st'] show ?thesis by blast
qed

lemma probe_then_free_slot:
  "probe_def n reg nid idx = Some (Some i) \<Longrightarrow> free_slot n reg nid idx = Some i \<and> reg ! i \<noteq> None"
  by (induction n arbitrary: idx) (auto split: option.splits if_splits)

text \<open>
  A redefinition loses the other definitions. When the definition made last is redefined, its
  slot is overwritten together with the link to the definitions before it: the list then consists of
  the new definition only, although the count still includes the others.
\<close>

theorem redefinition_truncates_list:
  assumes "is_type_struct (Some base)" "extract_constraint body = Some c" "table_ok st" "refine_list_head st = Some i"
    "refine_lookup_by_name (sid R) st (cell_symbol nm) = Some (Some i)" "i < REFINE_REG_CAP"
  shows "\<exists>st'. prim_refine_def I R (tm_list [cell_symbol nm, base, CLambda () cenv body ar cs]) st ctx =
      Some (cell_symbol nm, st', ctx) \<and>
    prim_refine_list st' = Some (tm_list [tm_list [cell_symbol nm, base, case c of Some c \<Rightarrow> rcon_to_cell c | None \<Rightarrow> cell_nil]]) \<and>
    refine_count st' = refine_count st"
proof -
  let ?d = "(new_def R nm base (CLambda () cenv body ar cs))\<lparr>r_constraint := c, compiled_fn := Option.bind c compiled_pred_try\<rparr>"
  let ?st = "st\<lparr>refine_registry := (refine_registry st)[i := Some ?d]\<rparr>"
  have "probe_def REFINE_REG_CAP (refine_registry st) (sid R nm) (sid R nm mod REFINE_REG_CAP) = Some (Some i)"
    using assms(5) by (simp add: refine_lookup_by_name_def cell_symbol_def)
  from probe_then_free_slot [OF this] have "refine_register ?d st = Some ?st"
    by (auto simp: refine_register_def new_def_def)
  moreover have "prim_refine_list ?st =
      Some (tm_list [tm_list [cell_symbol nm, base, case c of Some c \<Rightarrow> rcon_to_cell c | None \<Rightarrow> cell_nil]])"
    unfolding prim_refine_list_def using assms(3,4,6)
    by (subst refine_list_loop.simps) (simp add: the_def_def table_ok_def new_def_def, simp add: refine_list_loop.simps cell_cons_def)
  ultimately show ?thesis unfolding refine_def_register [OF assms(1,2)] by (intro exI [of _ ?st]) simp
qed

text \<open>Of the two definitions \<open>:A\<close> and \<open>:Zero\<close>, the second is redefined.\<close>

definition two_refinements :: refine_state where
  "two_refinements = no_refinements\<lparr>refine_registry := (replicate 256 None)
      [2 := Some (new_def some_refine_env '':A'' cell_nil cell_nil),
       5 := Some ((new_def some_refine_env '':Zero'' cell_nil cell_nil)\<lparr>next_def := Some 2\<rparr>)],
     refine_list_head := Some 5, refine_count := 2\<rparr>"

theorem redefinition_truncates_list_witness:
  "\<exists>st'. prim_refine_def pred_interp some_refine_env (tm_list [cell_symbol '':Zero'', make_type_struct '':int'' cell_nil,
      CLambda () cell_nil cell_nil 1 None]) two_refinements fresh_context = Some (cell_symbol '':Zero'', st', fresh_context) \<and>
    prim_refine_list st' = Some (tm_list [tm_list [cell_symbol '':Zero'', make_type_struct '':int'' cell_nil, cell_nil]]) \<and>
    refine_count st' = 2"
proof -
  have probe: "probe_def (Suc n) reg nid j = Some (Some j)" if "reg ! j = Some d" "name_id d = nid" for n reg nid j d
    using that by simp
  have c: "extract_constraint cell_nil = Some None" by (simp add: cell_nil_def)
  have table: "table_ok two_refinements" by (simp add: table_ok_def two_refinements_def REFINE_REG_CAP_def)
  have head: "refine_list_head two_refinements = Some 5" by (simp add: two_refinements_def)
  have reg: "refine_registry two_refinements ! 5 = Some ((new_def some_refine_env '':Zero'' cell_nil cell_nil)\<lparr>next_def := Some 2\<rparr>)"
    by (simp add: two_refinements_def)
  have "sid some_refine_env '':Zero'' = 5" by (simp add: some_refine_env_def)
  then have look: "refine_lookup_by_name (sid some_refine_env) two_refinements (cell_symbol '':Zero'') = Some (Some 5)"
    using probe [OF reg, of 5 255] by (simp add: refine_lookup_by_name_def cell_symbol_def REFINE_REG_CAP_def new_def_def)
  have "(5 :: nat) < REFINE_REG_CAP" "refine_count two_refinements = 2" by (simp_all add: REFINE_REG_CAP_def two_refinements_def)
  with redefinition_truncates_list [OF type_struct_simps(1) c table head look this(1), of pred_interp "'':int''" cell_nil cell_nil 1 None fresh_context]
  show ?thesis by simp
qed

lemma double_of_int_two: "double_of_int 2 = 0x4000000000000000"
  by (simp add: double_of_int_def double_of_nat_def nat_log2.simps)

lemma two_and_half:
  "double_mag 0x4004000000000000 = 5 * 2 ^ 1073" "double_mag 0x4000000000000000 = 4 * 2 ^ 1073"
  "double_mag 0x3FE0000000000000 = 2 ^ 1073" "\<not> double_neg 0x4004000000000000" "\<not> double_neg 0x3FE0000000000000"
  "double_finite 0x3FE0000000000000" "double_finite 0x4004000000000000" "double_finite 0x4000000000000000"
  by (simp_all add: double_mag_def double_exp_def double_frac_def double_neg_def double_finite_def)

text \<open>
  An extracted constraint is not always the predicate. It rejects every integer cell, of which the
  comparison primitives decide as of the number, and it truncates a fraction before a remainder,
  where the primitive takes the remainder of doubles: for \<open>(>= x 0)\<close> on the integer 1, and
  \<open>(equal? (% x 2) 0)\<close> on 2.5.
\<close>

theorem constraint_differs:
  "extract_constraint (pred_body (Compare ''>='' 0)) = Some (Some (RCON_GE 0)) \<and>
   rcon_eval (RCON_GE 0) (cell_integer 1) = Some False \<and>
   prim_ge (tm_list [cell_integer 1, cell_number 0]) = Some (cell_bool True) \<and>
   extract_constraint (tm_list [cell_symbol ''equal?'',
     tm_list [cell_symbol ''%'', cell_number 0, tm_list [cell_symbol ''quote'', cell_number (double_of_int 2)]],
     tm_list [cell_symbol ''quote'', cell_number 0]]) = Some (Some (RCON_MOD_EQ 2 0)) \<and>
   rcon_eval (RCON_MOD_EQ 2 0) (cell_number 0x4004000000000000) = Some True \<and>
   prim_mod (tm_list [cell_number 0x4004000000000000, cell_number (double_of_int 2)]) = Some (cell_number 0x3FE0000000000000)"
proof -
  have cmp: "extract_constraint (pred_body (Compare ''>='' 0)) = Some (Some (RCON_GE 0))"
    by (simp add: cell_cons_def cell_symbol_def cell_number_def cell_nil_def extract_comparison_def unwrap_quoted_number_def
        comparison_def mod_pattern_def double_is_nan_def double_exp_def)
  have int: "rcon_eval (RCON_GE 0) (cell_integer 1) = Some False" by (simp add: cell_integer_def)
  have "double_le 0 (double_of_int 1)" using nonneg_double [of 1] by simp
  then have ge: "prim_ge (tm_list [cell_integer 1, cell_number 0]) = Some (cell_bool True)"
    by (simp add: prim_ge_def compare_with_def) (simp add: cell_integer_def cell_number_def)
  have two: "double_to_int (double_of_int 2) = Some 2" by (rule double_of_int_roundtrip) simp
  have m: "extract_constraint (tm_list [cell_symbol ''equal?'',
     tm_list [cell_symbol ''%'', cell_number 0, tm_list [cell_symbol ''quote'', cell_number (double_of_int 2)]],
     tm_list [cell_symbol ''quote'', cell_number 0]]) = Some (Some (RCON_MOD_EQ 2 0))"
    using two zero_to_int
    by (simp add: cell_cons_def cell_symbol_def cell_number_def cell_nil_def extract_comparison_def unwrap_quoted_number_def
        mod_pattern_def double_is_nan_def double_exp_def)
  have "double_to_int 0x4004000000000000 = Some 2"
    by (simp add: double_to_int_def double_exp_def double_trunc_def double_frac_def double_neg_def)
  then have even: "rcon_eval (RCON_MOD_EQ 2 0) (cell_number 0x4004000000000000) = Some True"
    by (simp add: cell_number_def int64_rem_def signed_modulo_int_def)
  have nonzero: "\<not> double_eq (double_of_int 2) 0" using double_of_int_eq_iff [of 2 0] by simp
  have "double_fmod 0x4004000000000000 (double_of_int 2) = 0x3FE0000000000000"
    using double_pack_mag [of "0x3FE0000000000000"] finite_not_special [of "0x4004000000000000"]
      finite_not_special [of "0x4000000000000000"]
    by (simp add: double_fmod_def two_and_half double_of_int_two)
  with nonzero have "prim_mod (tm_list [cell_number 0x4004000000000000, cell_number (double_of_int 2)]) = Some (cell_number 0x3FE0000000000000)"
    by (simp add: prim_mod_def) (simp add: cell_number_def)
  with cmp int ge m even show ?thesis by blast
qed

end
