(* ===== verification/MacroFacts.thy ===== *)
theory MacroFacts
  imports Macros
begin

section \<open>Matching and instantiation\<close>

text \<open>
  Matching a macro pattern and instantiating it as a template are inverse: a list of arguments
  matches a linear pattern exactly if it is an instance of it, and the bindings are the ones that
  make it so. Literals of a pattern are symbols, strings, booleans and the empty list, on which
  \<open>cell_equal\<close> is identity.
\<close>

subsection \<open>Patterns\<close>

fun pvars :: "tm \<Rightarrow> string list" where
  "pvars (CSymbol _ s) = (if dollar_name s then [s] else [])"
| "pvars (CPair _ a b) = pvars a @ pvars b"
| "pvars _ = []"

definition is_quoted :: "tm \<Rightarrow> bool" where
  "is_quoted c \<longleftrightarrow> (case c of CPair _ q _ \<Rightarrow> q = cell_symbol ''quote'' | _ \<Rightarrow> False)"

fun plain :: "tm \<Rightarrow> bool" where
  "plain (CSymbol _ s) \<longleftrightarrow> s \<noteq> ''.''"
| "plain (CPair _ a b) \<longleftrightarrow> plain a \<and> plain b \<and> \<not> is_quoted a"
| "plain (CNil _) \<longleftrightarrow> True"
| "plain (CBool _ _) \<longleftrightarrow> True"
| "plain (CString _ _) \<longleftrightarrow> True"
| "plain _ \<longleftrightarrow> False"

text \<open>Variables under an ellipsis stand for lists.\<close>

fun rest_vars :: "tm \<Rightarrow> string list" where
  "rest_vars (CPair p a b) =
     (case has_ellipsis_rest (CPair p a b) of
        Some v \<Rightarrow> pvars v
      | None \<Rightarrow> rest_vars a @ rest_vars b)"
| "rest_vars _ = []"

fun listish :: "tm \<Rightarrow> bool" where
  "listish (CPair _ _ _) \<longleftrightarrow> True"
| "listish (CNil _) \<longleftrightarrow> True"
| "listish _ \<longleftrightarrow> False"

subsection \<open>Bindings\<close>

fun alist :: "(string \<times> tm) list \<Rightarrow> tm" where
  "alist [] = cell_nil"
| "alist (kv # r) = cell_cons (cell_cons (cell_symbol (fst kv)) (snd kv)) (alist r)"

lemma lookup_alist: "lookup_binding (alist kvs) x = map_of kvs x"
  by (induction kvs) (auto simp: cell_cons_def cell_nil_def cell_symbol_def)

lemma merge_alist: "merge_loop (alist xs) (alist ys) = alist (rev ys @ xs)"
proof (induction ys arbitrary: xs)
  case (Cons y ys)
  from Cons [of "y # xs"] show ?case by (simp add: cell_cons_def cell_symbol_def add_binding_def)
qed (simp add: cell_nil_def)

lemma add_alist: "add_binding (alist kvs) (CSymbol () s) v = alist ((s, v) # kvs)"
  by (simp add: add_binding_def cell_symbol_def)

lemma map_of_two:
  assumes "distinct (map fst xs @ map fst ys)"
  shows "x \<in> fst ` set xs \<Longrightarrow> map_of (rev ys @ xs) x = map_of xs x"
    "x \<in> fst ` set ys \<Longrightarrow> map_of (rev ys @ xs) x = map_of ys x"
proof -
  show "map_of (rev ys @ xs) x = map_of xs x" if "x \<in> fst ` set xs"
  proof -
    have "x \<notin> fst ` set ys" using that assms by auto
    then have "map_of (rev ys) x = None" by (simp add: map_of_eq_None_iff)
    then show ?thesis by (simp add: map_add_def)
  qed
  show "map_of (rev ys @ xs) x = map_of ys x" if "x \<in> fst ` set ys"
  proof -
    have "distinct (map fst ys)" using assms by simp
    then have "map_of (rev ys) = map_of ys" by (intro map_of_inject_set [THEN iffD2]) (simp_all add: rev_map [symmetric])
    moreover have "map_of ys x \<noteq> None" using that by (simp add: map_of_eq_None_iff)
    ultimately show ?thesis by (auto simp: map_add_def)
  qed
qed

subsection \<open>Shapes\<close>

lemma ellipsis_shape:
  "has_ellipsis_rest c = Some v \<Longrightarrow> \<exists>s. v = CSymbol () s \<and> dollar_name s \<and> c = tm_list [v, cell_symbol ''...'']"
  by (auto simp: has_ellipsis_rest_def macro_is_pattern_var_def cell_cons_def cell_nil_def
      split: cell.splits if_splits option.splits) (auto elim!: cell_get_symbol.elims)

lemma pattern_var_shape: "macro_is_pattern_var c \<Longrightarrow> \<exists>s. c = CSymbol () s \<and> dollar_name s"
  by (cases c) (auto simp: macro_is_pattern_var_def)

lemma quoted_literal_plain: "\<not> is_quoted c \<Longrightarrow> quoted_literal c = Some None"
  by (auto simp: is_quoted_def quoted_literal_def split: cell.splits)

lemma dot_splice_plain: "plain c \<Longrightarrow> dot_splice b c d = Some None"
  by (auto simp: dot_splice_def cell_symbol_def)

lemma dots_not_dollar: "\<not> dollar_name ''...''"
  by (simp add: dollar_name_def)

subsection \<open>What a match binds\<close>

definition binds :: "tm \<Rightarrow> tm \<Rightarrow> (string \<times> tm) list \<Rightarrow> bool" where
  "binds p a kvs \<longleftrightarrow> distinct (map fst kvs) \<and> set (map fst kvs) = set (pvars p) \<and>
     (\<forall>x \<in> set (rest_vars p). \<forall>v. map_of kvs x = Some v \<longrightarrow> listish v) \<and>
     (\<forall>b. (\<forall>x \<in> set (pvars p). lookup_binding b x = map_of kvs x) \<longrightarrow> macro_expand_template p b = Some a)"

lemma expand_ellipsis:
  assumes "has_ellipsis_rest p = Some v"
  obtains s where "v = CSymbol () s" "dollar_name s" "p = tm_list [v, cell_symbol ''...'']" "pvars p = [s]" "rest_vars p = [s]"
    "\<And>b. macro_expand_template p b = Some (case lookup_binding b s of Some v \<Rightarrow> v | None \<Rightarrow> cell_nil)"
proof -
  from ellipsis_shape [OF assms] obtain s where s: "v = CSymbol () s" "dollar_name s" "p = tm_list [v, cell_symbol ''...'']" by blast
  have "pvars p = [s]" using s dots_not_dollar by (simp add: cell_cons_def cell_symbol_def cell_nil_def)
  moreover have "rest_vars p = [s]" using assms s by (simp add: cell_cons_def)
  moreover have "macro_expand_template p b = Some (case lookup_binding b s of Some v \<Rightarrow> v | None \<Rightarrow> cell_nil)" for b
    using assms s by (subst macro_expand_template.simps) (simp add: cell_cons_def splice_value_def)
  ultimately show thesis using s that by blast
qed

lemma rest_vars_subset: "set (rest_vars p) \<subseteq> set (pvars p)"
proof (induction p)
  case (CPair u h t)
  show ?case
  proof (cases "has_ellipsis_rest (CPair u h t)")
    case None
    with CPair show ?thesis by auto
  next
    case (Some v)
    show ?thesis by (rule expand_ellipsis [OF Some]) (simp del: pvars.simps rest_vars.simps)
  qed
qed simp_all

lemma binds_ellipsis:
  assumes "has_ellipsis_rest p = Some v" "listish a"
  shows "\<exists>kvs. add_binding cell_nil v a = alist kvs \<and> binds p a kvs"
proof (rule expand_ellipsis [OF assms(1)])
  fix s
  assume s: "v = CSymbol () s" "pvars p = [s]" "rest_vars p = [s]"
    "\<And>b. macro_expand_template p b = Some (case lookup_binding b s of Some v \<Rightarrow> v | None \<Rightarrow> cell_nil)"
  have "add_binding cell_nil v a = alist [(s, a)]" by (simp add: s(1) add_binding_def cell_symbol_def)
  with s assms(2) show ?thesis by (intro exI [of _ "[(s, a)]"]) (simp add: binds_def)
qed

lemma binds_pair:
  assumes "binds h a1 xs" "binds t a2 ys" "distinct (pvars h @ pvars t)" "plain h" "plain t"
    "has_ellipsis_rest (CPair () h t) = None"
  shows "binds (CPair () h t) (CPair () a1 a2) (rev ys @ xs)"
proof -
  have keys: "set (map fst xs) = set (pvars h)" "set (map fst ys) = set (pvars t)" "distinct (map fst xs)" "distinct (map fst ys)"
    using assms(1,2) by (simp_all add: binds_def)
  have dist: "distinct (map fst xs @ map fst ys)" using keys assms(3) by auto
  have "macro_expand_template (CPair () h t) b = Some (CPair () a1 a2)"
    if b: "\<forall>x \<in> set (pvars (CPair () h t)). lookup_binding b x = map_of (rev ys @ xs) x" for b
  proof -
    have "\<forall>x \<in> set (pvars h). lookup_binding b x = map_of xs x"
      using b map_of_two(1) [OF dist] keys(1) by (simp add: set_map)
    with assms(1) have h: "macro_expand_template h b = Some a1" by (simp add: binds_def)
    have "\<forall>x \<in> set (pvars t). lookup_binding b x = map_of ys x"
      using b map_of_two(2) [OF dist] keys(2) by (simp add: set_map)
    with assms(2) have t: "macro_expand_template t b = Some a2" by (simp add: binds_def)
    have splice: "v = a2" if v: "splice_value b t = Some v" for v
    proof -
      from v obtain w where w: "has_ellipsis_rest t = Some w" by (auto simp: splice_value_def bind_eq_Some_conv)
      from ellipsis_shape [OF this] obtain s where "t = tm_list [w, cell_symbol ''...'']" by blast
      then have "macro_expand_template t b = Some v" using w v
        by (subst macro_expand_template.simps) (simp add: cell_cons_def)
      with t show ?thesis by simp
    qed
    show ?thesis
      using assms(4,6) h t splice dot_splice_plain [of h b t]
      by (subst macro_expand_template.simps) (auto simp: cell_cons_def split: option.split)
  qed
  moreover have "listish v" if "x \<in> set (rest_vars (CPair () h t))" "map_of (rev ys @ xs) x = Some v" for x v
  proof -
    from that(1) assms(6) consider "x \<in> set (rest_vars h)" | "x \<in> set (rest_vars t)" by auto
    then show ?thesis
    proof cases
      case 1
      then have "x \<in> fst ` set xs" using rest_vars_subset keys(1) by auto
      with map_of_two(1) [OF dist] that(2) assms(1) 1 show ?thesis by (simp add: binds_def)
    next
      case 2
      then have "x \<in> fst ` set ys" using rest_vars_subset keys(2) by auto
      with map_of_two(2) [OF dist] that(2) assms(2) 2 show ?thesis by (simp add: binds_def)
    qed
  qed
  ultimately show ?thesis using dist keys by (auto simp: binds_def rev_map [symmetric])
qed

lemma binds_var: "dollar_name s \<Longrightarrow> binds (CSymbol () s) a [(s, a)]"
  by (simp add: binds_def macro_expand_template.simps)

lemma binds_literal: "plain p \<Longrightarrow> pvars p = [] \<Longrightarrow> \<not> cell_is_pair p \<Longrightarrow> binds p p []"
  by (cases p) (auto simp: binds_def macro_expand_template.simps split: if_splits)

lemma literal_equal: "plain p \<Longrightarrow> tm_equal p a \<Longrightarrow> p \<in> {CBool () x, CString () y, CNil ()} \<Longrightarrow> a = p"
  by (cases p; cases a) (auto simp: tm_equal_def cell_equal.simps)

lemma match_pair:
  assumes "macro_pattern_match (CPair () h t) a = Some (Some b)" "has_ellipsis_rest (CPair () h t) = None" "\<not> is_quoted h"
  obtains a1 a2 b1 where "a = CPair () a1 a2" "macro_pattern_match h a1 = Some (Some b1)"
    "macro_is_pattern_var t \<Longrightarrow> b = add_binding b1 t a2"
    "\<not> macro_is_pattern_var t \<Longrightarrow> \<exists>b2. macro_pattern_match t a2 = Some (Some b2) \<and> b = merge_loop b1 b2"
proof -
  from assms(1,2) obtain a1 a2 where a: "a = CPair () a1 a2"
    by (subst (asm) macro_pattern_match.simps) (auto split: cell.splits)
  note m = assms(1) [unfolded a macro_pattern_match.simps [of "CPair () h t"]]
  show thesis
  proof (cases "macro_is_pattern_var t")
    case True
    with m obtain b1 where "macro_pattern_match h a1 = Some (Some b1)" "b = add_binding b1 t a2"
      by (auto simp: bind_eq_Some_conv)
    with a True that show thesis by blast
  next
    case False
    with m assms(2,3) obtain b1 b2 where "macro_pattern_match h a1 = Some (Some b1)" "macro_pattern_match t a2 = Some (Some b2)"
      "b = merge_loop b1 b2"
      by (auto simp: bind_eq_Some_conv quoted_literal_plain split: option.splits)
    with a False that show thesis by blast
  qed
qed

lemma match_ellipsis:
  assumes "macro_pattern_match (CPair () h t) a = Some (Some b)" "has_ellipsis_rest (CPair () h t) = Some v"
  shows "b = add_binding cell_nil v a \<and> listish a"
proof -
  have "\<not> macro_is_pattern_var t" using ellipsis_shape [OF assms(2)] by (auto simp: cell_cons_def macro_is_pattern_var_def)
  with assms show ?thesis by (subst (asm) macro_pattern_match.simps) (auto split: cell.splits)
qed

lemma match_binds:
  "macro_pattern_match p a = Some (Some b) \<Longrightarrow> plain p \<Longrightarrow> distinct (pvars p) \<Longrightarrow> \<exists>kvs. b = alist kvs \<and> binds p a kvs"
proof (induction p arbitrary: a b)
  case (CSymbol u s)
  show ?case
  proof (cases "dollar_name s")
    case True
    with CSymbol have "b = alist [(s, a)]"
      by (simp add: macro_pattern_match.simps add_binding_def cell_symbol_def)
    with True binds_var show ?thesis by fastforce
  next
    case False
    with CSymbol have "b = alist []" "a = CSymbol () s"
      by (auto simp: macro_pattern_match.simps split: if_splits elim!: cell_get_symbol.elims)
    with False CSymbol binds_literal [of "CSymbol () s"] show ?thesis by fastforce
  qed
next
  case (CPair u h t)
  have plain: "plain h" "plain t" "\<not> is_quoted h" using CPair.prems by auto
  have dist: "distinct (pvars h @ pvars t)" "distinct (pvars h)" "distinct (pvars t)" using CPair.prems by auto
  show ?case
  proof (cases "has_ellipsis_rest (CPair () h t)")
    case (Some v)
    with match_ellipsis [of h t a b v] CPair.prems(1) binds_ellipsis [OF Some, of a] show ?thesis by simp
  next
    case None
    from match_pair [OF _ None plain(3)] CPair.prems(1) obtain a1 a2 b1 where
      a: "a = CPair () a1 a2" "macro_pattern_match h a1 = Some (Some b1)"
      "macro_is_pattern_var t \<Longrightarrow> b = add_binding b1 t a2"
      "\<not> macro_is_pattern_var t \<Longrightarrow> \<exists>b2. macro_pattern_match t a2 = Some (Some b2) \<and> b = merge_loop b1 b2"
      by (metis (full_types) old.unit.exhaust)
    from CPair.IH(1) [OF a(2) plain(1) dist(2)] obtain xs where xs: "b1 = alist xs" "binds h a1 xs" by blast
    show ?thesis
    proof (cases "macro_is_pattern_var t")
      case True
      then obtain s where s: "t = CSymbol () s" "dollar_name s" using pattern_var_shape by blast
      with a(3) [OF True] xs have "b = alist (rev [(s, a2)] @ xs)" by (simp add: add_alist)
      with binds_pair [OF xs(2) binds_var [OF s(2)] dist(1) [unfolded s(1)] plain(1) plain(2) [unfolded s(1)] None [unfolded s(1)]] a(1) s(1)
      show ?thesis by (intro exI [of _ "(s, a2) # xs"]) simp
    next
      case False
      then obtain b2 where b2: "macro_pattern_match t a2 = Some (Some b2)" "b = merge_loop b1 b2" using a(4) by blast
      from CPair.IH(2) [OF b2(1) plain(2) dist(3)] obtain ys where ys: "b2 = alist ys" "binds t a2 ys" by blast
      with b2(2) xs(1) have "b = alist (rev ys @ xs)" by (simp add: merge_alist)
      with binds_pair [OF xs(2) ys(2) dist(1) plain(1,2) None] a(1) show ?thesis by auto
    qed
  qed
next
  case (CNil u)
  then have "b = alist []" "a = CNil ()" by (auto simp: macro_pattern_match.simps split: if_splits elim!: cell_is_nil.elims)
  with binds_literal [of "CNil ()"] show ?case by fastforce
next
  case (CBool u x)
  then have "b = alist []" "a = CBool () x"
    using literal_equal [of "CBool () x" a x] by (auto simp: macro_pattern_match.simps split: if_splits)
  with binds_literal [of "CBool () x"] show ?case by fastforce
next
  case (CString u x)
  then have "b = alist []" "a = CString () x"
    using literal_equal [of "CString () x" a _ x] by (auto simp: macro_pattern_match.simps split: if_splits)
  with binds_literal [of "CString () x"] show ?case by fastforce
qed simp_all

subsection \<open>Instances match\<close>

definition covers :: "tm \<Rightarrow> tm \<Rightarrow> bool" where
  "covers b p \<longleftrightarrow> (\<forall>x \<in> set (pvars p). lookup_binding b x \<noteq> None) \<and>
     (\<forall>x \<in> set (rest_vars p). \<forall>v. lookup_binding b x = Some v \<longrightarrow> listish v)"

lemma covers_pair:
  assumes "covers b (CPair () h t)" "has_ellipsis_rest (CPair () h t) = None"
  shows "covers b h \<and> covers b t"
  using assms by (auto simp: covers_def)

lemma instance_matches:
  "macro_expand_template p b = Some a \<Longrightarrow> plain p \<Longrightarrow> covers b p \<Longrightarrow> \<exists>b'. macro_pattern_match p a = Some (Some b')"
proof (induction p arbitrary: a)
  case (CPair u h t)
  have plain: "plain h" "plain t" "\<not> is_quoted h" using CPair.prems by auto
  show ?case
  proof (cases "has_ellipsis_rest (CPair () h t)")
    case (Some v)
    from expand_ellipsis [OF this] obtain s where s: "CPair () h t = tm_list [v, cell_symbol ''...'']"
      "pvars (CPair () h t) = [s]" "rest_vars (CPair () h t) = [s]"
      "\<And>b. macro_expand_template (CPair () h t) b = Some (case lookup_binding b s of Some v \<Rightarrow> v | None \<Rightarrow> cell_nil)"
      by metis
    with CPair.prems(3) obtain w where w: "lookup_binding b s = Some w" "listish w" by (auto simp: covers_def)
    have "macro_expand_template (CPair () h t) b = Some w" using s(4) w by simp
    with CPair.prems(1) have a: "a = w" by simp
    have "\<not> macro_is_pattern_var t" using s(1) by (auto simp: cell_cons_def macro_is_pattern_var_def)
    with Some w(2) show ?thesis unfolding a by (subst macro_pattern_match.simps) (cases w; simp)
  next
    case None
    have c: "covers b h" "covers b t" using covers_pair [OF _ None] CPair.prems(3) by simp_all
    note e = CPair.prems(1) [unfolded macro_expand_template.simps [of "CPair u h t"]]
    from e None dot_splice_plain [OF plain(1)] obtain a1 where a1: "macro_expand_template h b = Some a1"
      by (auto simp: bind_eq_Some_conv)
    from CPair.IH(1) [OF a1 plain(1) c(1)] obtain b1 where b1: "macro_pattern_match h a1 = Some (Some b1)" by blast
    have "\<exists>a2. a = CPair () a1 a2 \<and> macro_expand_template t b = Some a2"
    proof (cases "splice_value b t")
      case None2: None
      with e None a1 dot_splice_plain [OF plain(1)] show ?thesis by (auto simp: bind_eq_Some_conv cell_cons_def)
    next
      case (Some w)
      then obtain v where "has_ellipsis_rest t = Some v" by (auto simp: splice_value_def bind_eq_Some_conv)
      moreover from ellipsis_shape [OF this] obtain s where "t = tm_list [v, cell_symbol ''...'']" by blast
      ultimately have "macro_expand_template t b = Some w" using Some
        by (subst macro_expand_template.simps) (simp add: cell_cons_def)
      moreover have "a = CPair () a1 w" using e None a1 Some dot_splice_plain [OF plain(1)] by (auto simp: cell_cons_def)
      ultimately show ?thesis by blast
    qed
    then obtain a2 where a2: "a = CPair () a1 a2" "macro_expand_template t b = Some a2" by blast
    from CPair.IH(2) [OF a2(2) plain(2) c(2)] obtain b2 where b2: "macro_pattern_match t a2 = Some (Some b2)" by blast
    show ?thesis unfolding a2(1)
      using None b1 b2 quoted_literal_plain [OF plain(3)]
      by (subst macro_pattern_match.simps) (simp add: bind_eq_Some_conv)
  qed
next
  case (CSymbol u s)
  then show ?case by (auto simp: macro_expand_template.simps macro_pattern_match.simps covers_def split: if_splits)
next
  case (CNil u)
  then show ?case by (simp add: macro_expand_template.simps macro_pattern_match.simps) (auto)
next
  case (CBool u x)
  then show ?case by (auto simp: macro_expand_template.simps macro_pattern_match.simps)
next
  case (CString u x)
  then show ?case by (auto simp: macro_expand_template.simps macro_pattern_match.simps)
qed simp_all

subsection \<open>Properties\<close>

lemma match_returns: "plain p \<Longrightarrow> \<exists>r. macro_pattern_match p a = Some r"
proof (induction p arbitrary: a)
  case (CPair u h t)
  have q: "quoted_literal h = Some None" using CPair.prems by (simp add: quoted_literal_plain)
  show ?case
  proof (cases "listish a \<and> cell_is_pair a")
    case True
    then obtain a1 a2 where a: "a = CPair () a1 a2" by (cases a) auto
    from CPair obtain r1 r2 where r: "macro_pattern_match h a1 = Some r1" "macro_pattern_match t a2 = Some r2"
      by (metis plain.simps(2))
    show ?thesis unfolding a macro_pattern_match.simps [of "CPair u h t"] using q r by (simp split: option.split)
  next
    case False
    then show ?thesis unfolding macro_pattern_match.simps [of "CPair u h t"] by (cases a) simp_all
  qed
qed (simp_all add: macro_pattern_match.simps)

lemma binds_covers:
  assumes "binds p a kvs"
  shows "covers (alist kvs) p \<and> macro_expand_template p (alist kvs) = Some a"
proof -
  have "map_of kvs x \<noteq> None" if "x \<in> set (pvars p)" for x
    using assms that by (simp add: binds_def map_of_eq_None_iff)
  with assms show ?thesis by (auto simp: covers_def binds_def lookup_alist)
qed

text \<open>
  C26. Matching decides instances. For a linear macro pattern with its literals, dotted rests and
  ellipses, matching never fails an assertion; if it succeeds, expanding the pattern itself as a
  template under the bindings gives back the arguments; and arguments that arise by instantiating the
  pattern with any bindings of its variables, lists for the variables under an ellipsis, match.
\<close>

theorem match_decides_instance:
  assumes "plain p" "distinct (pvars p)"
  shows "(\<exists>r. macro_pattern_match p a = Some r) \<and>
    (macro_pattern_match p a = Some (Some b) \<longrightarrow> macro_expand_template p b = Some a) \<and>
    ((\<exists>b. macro_pattern_match p a = Some (Some b)) \<longleftrightarrow> (\<exists>b. covers b p \<and> macro_expand_template p b = Some a))"
  using match_returns [OF assms(1), of a] match_binds [OF _ assms, of a] binds_covers [of p a] instance_matches [OF _ assms(1), of _ a]
  by metis

text \<open>\<open>(while $c $body ...)\<close> on \<open>(while #t 1 2)\<close>.\<close>

definition while_pattern :: tm where
  "while_pattern = tm_list [cell_symbol ''while'', cell_symbol ''$c'', cell_symbol ''$body'', cell_symbol ''...'']"

definition while_call :: tm where
  "while_call = tm_list [cell_symbol ''while'', cell_bool True, cell_integer 1, cell_integer 2]"

theorem match_decides_instance_witness:
  "\<exists>b. macro_pattern_match while_pattern while_call = Some (Some b) \<and> macro_expand_template while_pattern b = Some while_call"
proof -
  have p: "plain while_pattern" "distinct (pvars while_pattern)"
    by (simp_all add: while_pattern_def cell_cons_def cell_symbol_def cell_nil_def is_quoted_def dollar_name_def)
  let ?b = "alist [(''$body'', tm_list [cell_integer 1, cell_integer 2]), (''$c'', cell_bool True)]"
  have "macro_expand_template while_pattern ?b = Some while_call"
    by (simp add: while_pattern_def while_call_def cell_cons_def cell_symbol_def cell_nil_def macro_expand_template.simps
        has_ellipsis_rest_def macro_is_pattern_var_def dollar_name_def dot_splice_def splice_value_def)
  moreover have "covers ?b while_pattern"
    by (simp add: while_pattern_def cell_cons_def cell_symbol_def cell_nil_def covers_def dollar_name_def
        has_ellipsis_rest_def macro_is_pattern_var_def)
  ultimately show ?thesis using match_decides_instance [OF p, of while_call] by blast
qed

end
