(* ===== verification/PatternFacts.thy ===== *)
theory PatternFacts
  imports MacroFacts EvalRef
begin

section \<open>Pattern matching as specified\<close>

text \<open>
  Patterns as a datatype with a reference matcher on values, which returns the bindings in order.
  The code on the cells of a pattern gives the bindings of the reference, and the match form chooses
  the first clause that matches. The coverage check is right about the clauses behind a catch-all,
  except that it takes the pattern \<open>nil\<close> for a variable.
\<close>

subsection \<open>Patterns and their cells\<close>

datatype pat =
    PWild
  | PVar string
  | PNil
  | PNum double
  | PBool bool
  | PKey string
  | PCons pat pat
  | PAs string pat
  | POr "pat list"
  | PLeaf string "pat list"
  | PNode string string "pat list"

fun pat_cell :: "pat \<Rightarrow> tm" where
  "pat_cell PWild = cell_symbol ''_''"
| "pat_cell (PVar x) = cell_symbol x"
| "pat_cell PNil = cell_symbol ''nil''"
| "pat_cell (PNum n) = cell_number n"
| "pat_cell (PBool b) = cell_bool b"
| "pat_cell (PKey k) = cell_symbol k"
| "pat_cell (PCons p q) = tm_list [cell_symbol ''cons'', pat_cell p, pat_cell q]"
| "pat_cell (PAs x p) = tm_list [cell_symbol x, cell_symbol ''@'', pat_cell p]"
| "pat_cell (POr ps) = cell_cons (cell_symbol ''or'') (tm_list (map pat_cell ps))"
| "pat_cell (PLeaf t ps) = cell_cons (cell_symbol ''struct-create'') (cell_cons (cell_symbol t) (tm_list (map pat_cell ps)))"
| "pat_cell (PNode t v ps) =
     cell_cons (cell_symbol ''adt-create'') (cell_cons (cell_symbol t) (cell_cons (cell_symbol v) (tm_list (map pat_cell ps))))"

definition var_name :: "string \<Rightarrow> bool" where
  "var_name x \<longleftrightarrow> \<not> is_keyword x \<and> x \<notin> {''_'', ''nil''}"

text \<open>The separators of the syntax are not names.\<close>

abbreviation separators :: "string set" where "separators \<equiv> {''@'', ''|''}"

fun pat_ok :: "pat \<Rightarrow> bool" where
  "pat_ok (PVar x) \<longleftrightarrow> var_name x \<and> x \<notin> separators"
| "pat_ok (PKey k) \<longleftrightarrow> is_keyword k"
| "pat_ok (PCons p q) \<longleftrightarrow> pat_ok p \<and> pat_ok q"
| "pat_ok (PAs x p) \<longleftrightarrow> var_name x \<and> x \<notin> separators \<and> pat_ok p"
| "pat_ok (POr ps) \<longleftrightarrow> 2 \<le> length ps \<and> list_all pat_ok ps"
| "pat_ok (PLeaf t ps) \<longleftrightarrow> t \<notin> separators \<and> list_all pat_ok ps"
| "pat_ok (PNode t v ps) \<longleftrightarrow> t \<notin> separators \<and> list_all pat_ok ps"
| "pat_ok _ \<longleftrightarrow> True"

subsection \<open>The reference matcher\<close>

fun pat_vars :: "pat \<Rightarrow> string list" where
  "pat_vars (PVar x) = [x]"
| "pat_vars (PCons p q) = pat_vars p @ pat_vars q"
| "pat_vars (PAs x p) = x # pat_vars p"
| "pat_vars (POr ps) = (case ps of [] \<Rightarrow> [] | p # _ \<Rightarrow> pat_vars p)"
| "pat_vars (PLeaf t ps) = concat (map pat_vars ps)"
| "pat_vars (PNode t v ps) = concat (map pat_vars ps)"
| "pat_vars _ = []"

text \<open>The alternatives have as many variables as the first, and all of its variables.\<close>

definition consistent :: "pat list \<Rightarrow> bool" where
  "consistent ps \<longleftrightarrow>
     (case ps of [] \<Rightarrow> True
      | p # qs \<Rightarrow> \<forall>q \<in> set qs. length (pat_vars q) = length (pat_vars p) \<and> set (pat_vars p) \<subseteq> set (pat_vars q))"

fun pair_values :: "tm \<Rightarrow> tm list" where
  "pair_values (CPair _ (CPair _ _ v) r) = v # pair_values r"
| "pair_values _ = []"

definition leaf_values :: "string \<Rightarrow> tm \<Rightarrow> tm list option" where
  "leaf_values t val =
     (case val of
        CStruct _ STRUCT_LEAF (Some tag) _ flds \<Rightarrow>
          if tag = cell_symbol t then Some (pair_values (nil_if_null flds)) else None
      | _ \<Rightarrow> None)"

definition node_values :: "string \<Rightarrow> string \<Rightarrow> tm \<Rightarrow> tm list option" where
  "node_values t v val =
     (case val of
        CStruct _ STRUCT_NODE (Some tag) (Some variant) flds \<Rightarrow>
          if tag = cell_symbol t \<and> variant = cell_symbol v then Some (pair_values (nil_if_null flds)) else None
      | _ \<Rightarrow> None)"

fun pat_match :: "pat \<Rightarrow> tm \<Rightarrow> (string \<times> tm) list option"
  and pats_match :: "pat list \<Rightarrow> tm list \<Rightarrow> (string \<times> tm) list option"
  and first_match :: "pat list \<Rightarrow> tm \<Rightarrow> (string \<times> tm) list option" where
  "pat_match PWild v = Some []"
| "pat_match (PVar x) v = Some [(x, v)]"
| "pat_match PNil v = (if cell_is_nil v then Some [] else None)"
| "pat_match (PNum n) v = (case v of CNumber _ m \<Rightarrow> if double_eq m n then Some [] else None | _ \<Rightarrow> None)"
| "pat_match (PBool b) v = (if v = CBool () b then Some [] else None)"
| "pat_match (PKey k) v = (if v = CSymbol () k then Some [] else None)"
| "pat_match (PCons p q) v =
     (case v of CPair _ a d \<Rightarrow> do { xs \<leftarrow> pat_match p a; ys \<leftarrow> pat_match q d; Some (xs @ ys) } | _ \<Rightarrow> None)"
| "pat_match (PAs x p) v = map_option (\<lambda>xs. (x, v) # xs) (pat_match p v)"
| "pat_match (POr ps) v = (if consistent ps then first_match ps v else None)"
| "pat_match (PLeaf t ps) v = do { vs \<leftarrow> leaf_values t v; pats_match ps vs }"
| "pat_match (PNode t c ps) v = do { vs \<leftarrow> node_values t c v; pats_match ps vs }"
| "pats_match [] vs = (if vs = [] then Some [] else None)"
| "pats_match (p # ps) vs =
     (case vs of [] \<Rightarrow> None | v # vs \<Rightarrow> do { xs \<leftarrow> pat_match p v; ys \<leftarrow> pats_match ps vs; Some (xs @ ys) })"
| "first_match [] v = None"
| "first_match (p # ps) v = (case pat_match p v of Some xs \<Rightarrow> Some xs | None \<Rightarrow> first_match ps v)"

text \<open>Values whose structures have symbols as tags and lists of pairs as fields.\<close>

fun pairs_list :: "tm \<Rightarrow> bool" where
  "pairs_list (CPair _ b r) \<longleftrightarrow> cell_is_pair b \<and> pairs_list r"
| "pairs_list (CNil _) \<longleftrightarrow> True"
| "pairs_list _ \<longleftrightarrow> False"

definition tag_ok :: "tm option \<Rightarrow> bool" where
  "tag_ok t \<longleftrightarrow> (case t of Some c \<Rightarrow> cell_is_symbol c | None \<Rightarrow> False)"

fun wf_value :: "tm \<Rightarrow> bool" where
  "wf_value (CPair _ a b) \<longleftrightarrow> wf_value a \<and> wf_value b"
| "wf_value (CStruct _ k t v f) \<longleftrightarrow> tag_ok t \<and> (k = STRUCT_NODE \<longrightarrow> tag_ok v) \<and>
     (case f of None \<Rightarrow> True | Some c \<Rightarrow> pairs_list c \<and> wf_value c)"
| "wf_value _ \<longleftrightarrow> True"

subsection \<open>The kinds of the cells\<close>

lemma symbol_simps:
  "is_wildcard (cell_symbol s) \<longleftrightarrow> s = ''_''" "cell_get_symbol (cell_symbol s) = Some s"
  "is_variable_pattern (cell_symbol s) \<longleftrightarrow> var_name s"
  "cell_symbol s = cell_symbol t \<longleftrightarrow> s = t" "cell_is_symbol (cell_symbol s)" "\<not> cell_is_pair (cell_symbol s)"
  by (auto simp: is_wildcard_def is_variable_pattern_def var_name_def cell_symbol_def)

lemma not_compound:
  assumes "\<not> cell_is_pair c"
  shows "middle sep c = None" "headed h c = None" "as_pattern c = None" "or_pattern c = None" "view_pattern c = None"
    "pair_pattern c = None" "struct_pattern c = None" "adt_pattern c = None" "guard_syntax c = None"
  using assms by (cases c; simp add: middle_def headed_def as_pattern_def or_pattern_def view_pattern_def pair_pattern_def
      struct_pattern_def adt_pattern_def guard_syntax_def)+

lemma pair_not_atom:
  "\<not> is_wildcard (CPair u a b)" "\<not> is_variable_pattern (CPair u a b)"
  by (simp_all add: is_wildcard_def is_variable_pattern_def)

lemmas kind_defs = middle_def headed_def as_pattern_def or_pattern_def view_pattern_def pair_pattern_def
  struct_pattern_def adt_pattern_def guard_syntax_def symbol_simps pair_not_atom

lemma pat_cell_not_separator: "pat_ok p \<Longrightarrow> s \<in> separators \<Longrightarrow> pat_cell p \<noteq> cell_symbol s"
  by (cases p) (auto simp: cell_symbol_def cell_cons_def cell_number_def cell_bool_def is_keyword_def var_name_def)

lemma no_guard: "pat_ok p \<Longrightarrow> guard_syntax (pat_cell p) = None"
proof (cases p)
  case (POr ps)
  assume ok: "pat_ok p"
  then obtain q r qs where ps: "ps = q # r # qs" "pat_ok q" using POr by (cases ps; cases "tl ps") auto
  with pat_cell_not_separator [of q "''|''"] show ?thesis
    by (simp add: POr kind_defs cell_cons_def split: cell.split)
next
  case (PCons q r)
  assume ok: "pat_ok p"
  with pat_cell_not_separator [of q "''|''"] show ?thesis by (simp add: PCons kind_defs cell_cons_def cell_nil_def)
next
  case (PLeaf t ps)
  assume ok: "pat_ok p"
  then show ?thesis by (auto simp: PLeaf kind_defs cell_cons_def split: cell.split)
next
  case (PNode t v ps)
  assume ok: "pat_ok p"
  then show ?thesis by (auto simp: PNode kind_defs cell_cons_def split: cell.split)
qed (auto simp: kind_defs cell_cons_def cell_number_def cell_bool_def cell_nil_def cell_symbol_def)

subsection \<open>Variables\<close>

lemma extract_atom:
  "\<not> cell_is_pair c \<Longrightarrow> extract_pattern_variables c = (if is_variable_pattern c then [c] else [])"
  by (subst extract_pattern_variables.simps) (auto simp: not_compound is_wildcard_def is_variable_pattern_def)

lemma atom_kinds:
  "\<not> cell_is_pair (cell_number n)" "\<not> cell_is_pair (cell_bool b)" "\<not> is_variable_pattern (cell_number n)"
  "\<not> is_variable_pattern (cell_bool b)" "\<not> is_wildcard (cell_number n)" "\<not> is_wildcard (cell_bool b)"
  by (simp_all add: cell_number_def cell_bool_def is_variable_pattern_def is_wildcard_def)

lemma extract_cons:
  assumes "a \<noteq> cell_symbol ''@''"
  shows "extract_pattern_variables (tm_list [cell_symbol ''cons'', a, b]) =
    rev (extract_pattern_variables b) @ rev (extract_pattern_variables a)"
  using assms by (subst extract_pattern_variables.simps) (simp add: kind_defs cell_cons_def)

lemma extract_as:
  assumes "var_name x"
  shows "extract_pattern_variables (tm_list [cell_symbol x, cell_symbol ''@'', p]) = cell_symbol x # extract_pattern_variables p"
  using assms by (subst extract_pattern_variables.simps) (simp add: kind_defs cell_cons_def)

lemma extract_or:
  assumes "a \<noteq> cell_symbol ''@''"
  shows "extract_pattern_variables (cell_cons (cell_symbol ''or'') (cell_cons a (cell_cons b r))) = extract_pattern_variables a"
  using assms by (subst extract_pattern_variables.simps) (simp add: kind_defs cell_cons_def)

lemma extract_leaf:
  assumes "t \<noteq> ''@''"
  shows "extract_pattern_variables (cell_cons (cell_symbol ''struct-create'') (cell_cons (cell_symbol t) ps)) = fields_variables ps []"
  using assms by (subst extract_pattern_variables.simps) (simp add: kind_defs cell_cons_def skip_def split: cell.split)

lemma extract_node:
  assumes "t \<noteq> ''@''"
  shows "extract_pattern_variables (cell_cons (cell_symbol ''adt-create'') (cell_cons (cell_symbol t) (cell_cons v ps))) =
    fields_variables ps []"
  using assms by (subst extract_pattern_variables.simps) (simp add: kind_defs cell_cons_def skip_def split: cell.split)

lemma fields_variables_list:
  "fields_variables (tm_list cs) vs = rev (concat (map extract_pattern_variables cs)) @ vs"
  by (induction cs arbitrary: vs) (simp_all add: cell_cons_def cell_nil_def)

lemma extract_vars:
  "pat_ok p \<Longrightarrow> length (extract_pattern_variables (pat_cell p)) = length (pat_vars p) \<and>
    set (extract_pattern_variables (pat_cell p)) = cell_symbol ` set (pat_vars p)"
proof (induction p)
  case (PCons p q)
  then show ?case using pat_cell_not_separator [of p "''@''"] by (simp add: extract_cons Un_commute image_Un del: tm_list.simps)
next
  case (PAs x p)
  then show ?case by (simp add: extract_as del: tm_list.simps)
next
  case (POr ps)
  then obtain q r qs where ps: "ps = q # r # qs" by (cases ps; cases "tl ps") auto
  with POr have "pat_ok q" by simp
  with POr.IH [of q] show ?case using pat_cell_not_separator [of q "''@''"] by (simp add: ps extract_or)
next
  case (PLeaf t ps)
  then have "\<forall>q \<in> set ps. length (extract_pattern_variables (pat_cell q)) = length (pat_vars q) \<and>
    set (extract_pattern_variables (pat_cell q)) = cell_symbol ` set (pat_vars q)" by (auto simp: list_all_iff)
  then show ?case using PLeaf.prems
    by (auto simp: extract_leaf fields_variables_list length_concat o_def intro!: arg_cong [where f = sum_list] map_cong)
next
  case (PNode t v ps)
  then have "\<forall>q \<in> set ps. length (extract_pattern_variables (pat_cell q)) = length (pat_vars q) \<and>
    set (extract_pattern_variables (pat_cell q)) = cell_symbol ` set (pat_vars q)" by (auto simp: list_all_iff)
  then show ?case using PNode.prems
    by (auto simp: extract_node fields_variables_list length_concat o_def intro!: arg_cong [where f = sum_list] map_cong)
qed (auto simp: extract_atom symbol_simps atom_kinds var_name_def is_keyword_def split: list.splits)

lemma consistent_code:
  assumes "list_all pat_ok ps"
  shows "check_or_pattern_consistency (tm_list (map pat_cell ps)) \<longleftrightarrow> consistent ps"
proof -
  have e: "variable_lists_equal (extract_pattern_variables (pat_cell p)) (extract_pattern_variables (pat_cell q)) \<longleftrightarrow>
      length (pat_vars q) = length (pat_vars p) \<and> set (pat_vars p) \<subseteq> set (pat_vars q)" if "pat_ok p" "pat_ok q" for p q
    using extract_vars [OF that(1)] extract_vars [OF that(2)]
    by (auto simp: variable_lists_equal_def symbols_equal_def symbol_simps)
  have elems: "list_elems (tm_list cs) = cs" for cs by (induction cs) (simp_all add: cell_cons_def cell_nil_def)
  show ?thesis using assms e
    unfolding check_or_pattern_consistency_def consistent_def elems by (cases ps) (simp_all add: list_all_iff)
qed

subsection \<open>One step of the matcher\<close>

lemma try_atom:
  assumes "\<not> cell_is_pair c"
  shows "pattern_try_match ev v c ctx = Some (if is_wildcard c then Some None else match_atom v c, ctx)"
  using assms by (subst pattern_try_match.simps) (simp add: not_compound)

lemma try_cons:
  assumes "a \<noteq> cell_symbol ''@''"
  shows "pattern_try_match ev v (tm_list [cell_symbol ''cons'', a, b]) ctx =
    (case v of
       CPair _ value_car value_cdr \<Rightarrow> do {
         (r1, ctx) \<leftarrow> pattern_try_match ev value_car a ctx;
         case r1 of
           None \<Rightarrow> Some (None, ctx)
         | Some b1 \<Rightarrow> do {
             (r2, ctx) \<leftarrow> pattern_try_match ev value_cdr b ctx;
             Some (map_option (merge_bindings b1) r2, ctx)
           }
       }
     | _ \<Rightarrow> Some (None, ctx))"
  using assms by (subst pattern_try_match.simps) (simp add: kind_defs cell_cons_def)

lemma try_as:
  assumes "var_name x"
  shows "pattern_try_match ev v (tm_list [cell_symbol x, cell_symbol ''@'', p]) ctx = do {
      (r, ctx) \<leftarrow> pattern_try_match ev v p ctx;
      Some (map_option (merge_bindings (Some (cell_cons (cell_symbol x) v))) r, ctx)
    }"
  using assms by (subst pattern_try_match.simps) (simp add: kind_defs cell_cons_def)

lemma try_or:
  assumes "a \<noteq> cell_symbol ''@''"
  shows "pattern_try_match ev v (cell_cons (cell_symbol ''or'') (cell_cons a (cell_cons b r))) ctx =
    (if \<not> check_or_pattern_consistency (cell_cons a (cell_cons b r)) then Some (None, ctx)
     else match_alternatives ev v (cell_cons a (cell_cons b r)) ctx)"
  using assms by (subst pattern_try_match.simps) (simp add: kind_defs cell_cons_def)

lemma try_leaf:
  assumes "t \<noteq> ''@''"
  shows "pattern_try_match ev v (cell_cons (cell_symbol ''struct-create'') (cell_cons (cell_symbol t) ps)) ctx = do {
      f \<leftarrow> leaf_fields v (cell_cons (cell_symbol t) ps);
      case f of None \<Rightarrow> Some (None, ctx) | Some (fp, vf) \<Rightarrow> match_fields ev vf fp None ctx
    }"
  using assms by (subst pattern_try_match.simps) (simp add: kind_defs cell_cons_def split: cell.split)

lemma try_node:
  assumes "t \<noteq> ''@''"
  shows "pattern_try_match ev v (cell_cons (cell_symbol ''adt-create'') (cell_cons (cell_symbol t) ps)) ctx = do {
      f \<leftarrow> node_fields v (cell_cons (cell_symbol t) ps);
      case f of None \<Rightarrow> Some (None, ctx) | Some (fp, vf) \<Rightarrow> match_fields ev vf fp None ctx
    }"
  using assms by (subst pattern_try_match.simps) (simp add: kind_defs cell_cons_def split: cell.split)

subsection \<open>Bindings\<close>

definition bind_cell :: "string \<times> tm \<Rightarrow> tm" where
  "bind_cell kv = cell_cons (cell_symbol (fst kv)) (snd kv)"

text \<open>No binding is NULL, one is a pair, several are a list.\<close>

definition enc :: "(string \<times> tm) list \<Rightarrow> tm option" where
  "enc kvs = (case kvs of [] \<Rightarrow> None | [kv] \<Rightarrow> Some (bind_cell kv) | _ \<Rightarrow> Some (alist kvs))"

lemma enc_Nil [simp]: "enc [] = None"
  by (simp add: enc_def)

lemma alist_append: "xs \<noteq> [] \<Longrightarrow> append_bindings (alist xs) (alist ys) = alist (xs @ ys)"
proof (induction xs)
  case (Cons x xs)
  show ?case
  proof (cases xs)
    case Nil
    then show ?thesis by (simp add: cell_cons_def) (simp add: cell_nil_def)
  next
    case (Cons x' xs')
    with Cons.IH show ?thesis by (simp add: cell_cons_def)
  qed
qed simp

lemma single_simps:
  "is_single_binding (bind_cell kv)" "\<not> is_single_binding (cell_cons (cell_cons a b) c)"
  by (simp_all add: is_single_binding_def bind_cell_def cell_cons_def cell_symbol_def)

lemma merge_enc: "merge_bindings (enc xs) (enc ys) = enc (xs @ ys)"
proof -
  consider "xs = []" | "ys = []" | x y where "xs = [x]" "ys = [y]" | x y y' ys' where "xs = [x]" "ys = y # y' # ys'"
    | x x' xs' y where "xs = x # x' # xs'" "ys = [y]" | x x' xs' y y' ys' where "xs = x # x' # xs'" "ys = y # y' # ys'"
    by (cases xs; cases "tl xs"; cases ys; cases "tl ys") auto
  then show ?thesis
  proof cases
    case (5 x x' xs' y)
    moreover have "cell_cons (bind_cell y) cell_nil = alist [y]" by (simp add: bind_cell_def)
    ultimately show ?thesis
      using alist_append [of xs "[y]"] single_simps by (simp add: enc_def merge_bindings_def)
  next
    case (6 x x' xs' y y' ys')
    then show ?thesis using alist_append [of xs ys] single_simps by (simp add: enc_def merge_bindings_def)
  qed (use single_simps in \<open>auto simp: enc_def merge_bindings_def bind_cell_def split: list.splits\<close>)
qed

lemma enc_single: "Some (cell_cons (cell_symbol x) v) = enc [(x, v)]"
  by (simp add: enc_def bind_cell_def)

subsection \<open>The matcher implements the reference\<close>

lemma fields_code:
  assumes "\<And>p v. p \<in> set ps \<Longrightarrow> wf_value v \<Longrightarrow> pattern_try_match ev v (pat_cell p) ctx = Some (map_option enc (pat_match p v), ctx)"
    "pairs_list flds" "wf_value flds"
  shows "match_fields ev flds (tm_list (map pat_cell ps)) (enc xs) ctx =
    Some (map_option (\<lambda>ys. enc (xs @ ys)) (pats_match ps (pair_values flds)), ctx)"
  using assms
proof (induction ps arbitrary: flds xs)
  case Nil
  then show ?case by (cases flds) (auto simp: cell_nil_def elim!: cell_is_pair.elims)
next
  case (Cons p ps)
  show ?case
  proof (cases flds)
    case (CPair u b r)
    with Cons.prems obtain nm v where b: "b = CPair () nm v" "wf_value v" "pairs_list r" "wf_value r"
      by (auto elim!: cell_is_pair.elims)
    have p: "pattern_try_match ev v (pat_cell p) ctx = Some (map_option enc (pat_match p v), ctx)"
      using Cons.prems(1) [of p] b(2) by simp
    show ?thesis
    proof (cases "pat_match p v")
      case None
      with p show ?thesis by (simp add: CPair b(1) cell_cons_def)
    next
      case (Some ys)
      have "match_fields ev r (tm_list (map pat_cell ps)) (enc (xs @ ys)) ctx =
          Some (map_option (\<lambda>zs. enc ((xs @ ys) @ zs)) (pats_match ps (pair_values r)), ctx)"
        using Cons.IH [of r "xs @ ys"] Cons.prems(1) b(3,4) by simp
      with Some p show ?thesis
        by (cases "pats_match ps (pair_values r)") (simp_all add: CPair b(1) cell_cons_def merge_enc)
    qed
  next
    case (CNil u)
    then show ?thesis by (simp add: cell_cons_def)
  qed (use Cons.prems(2) in simp_all)
qed

lemma alternatives_code:
  assumes "\<And>p. p \<in> set ps \<Longrightarrow> pattern_try_match ev v (pat_cell p) ctx = Some (map_option enc (pat_match p v), ctx)"
  shows "match_alternatives ev v (tm_list (map pat_cell ps)) ctx = Some (map_option enc (first_match ps v), ctx)"
  using assms
proof (induction ps)
  case (Cons p ps)
  then show ?case by (cases "pat_match p v") (simp_all add: cell_cons_def)
qed (simp add: cell_nil_def)

lemma leaf_fields_values:
  assumes "wf_value v"
  obtains "leaf_fields v (cell_cons (cell_symbol t) ps) = Some None" "leaf_values t v = None"
  | flds where "leaf_fields v (cell_cons (cell_symbol t) ps) = Some (Some (ps, flds))" "leaf_values t v = Some (pair_values flds)"
      "pairs_list flds" "wf_value flds"
proof (cases v)
  case (CStruct u k tag var f)
  with assms obtain c where c: "tag = Some c" "cell_is_symbol c" by (auto simp: tag_ok_def split: option.splits)
  then obtain s where s: "c = CSymbol () s" by (cases c) auto
  have "pairs_list (nil_if_null f) \<and> wf_value (nil_if_null f)" using assms CStruct
    by (cases f) (auto simp: nil_if_null_def cell_nil_def)
  with CStruct c s that show thesis
    by (cases k; cases "s = t") (auto simp: leaf_fields_def leaf_values_def cell_cons_def symbols_equal_def symbol_simps, simp_all add: cell_symbol_def)
qed (auto simp: leaf_fields_def leaf_values_def that)

lemma node_fields_values:
  assumes "wf_value v"
  obtains "node_fields v (cell_cons (cell_symbol t) (cell_cons (cell_symbol w) ps)) = Some None" "node_values t w v = None"
  | flds where "node_fields v (cell_cons (cell_symbol t) (cell_cons (cell_symbol w) ps)) = Some (Some (ps, flds))"
      "node_values t w v = Some (pair_values flds)" "pairs_list flds" "wf_value flds"
proof (cases v)
  case (CStruct u k tag var f)
  show thesis
  proof (cases "k = STRUCT_NODE")
    case True
    with assms CStruct obtain c d where c: "tag = Some c" "cell_is_symbol c" "var = Some d" "cell_is_symbol d"
      by (auto simp: tag_ok_def split: option.splits)
    then obtain s r where s: "c = CSymbol () s" "d = CSymbol () r" by (cases c; cases d) auto
    have "pairs_list (nil_if_null f) \<and> wf_value (nil_if_null f)" using assms CStruct
      by (cases f) (auto simp: nil_if_null_def cell_nil_def)
    with CStruct c s that True show thesis
      by (cases "s = t"; cases "r = w") (auto simp: node_fields_def node_values_def cell_cons_def symbols_equal_def symbol_simps, simp_all add: cell_symbol_def)
  next
    case False
    then show thesis using CStruct that by (cases k) (auto simp: node_fields_def node_values_def)
  qed
qed (auto simp: node_fields_def node_values_def that)

lemma match_code:
  "pat_ok p \<Longrightarrow> wf_value v \<Longrightarrow> pattern_try_match ev v (pat_cell p) ctx = Some (map_option enc (pat_match p v), ctx)"
proof (induction p arbitrary: v)
  case (PCons p q)
  have a: "pat_cell p \<noteq> cell_symbol ''@''" using PCons.prems pat_cell_not_separator by simp
  show ?case
  proof (cases v)
    case (CPair u x y)
    with PCons.prems have w: "wf_value x" "wf_value y" "pat_ok p" "pat_ok q" by simp_all
    show ?thesis
      using PCons.IH(1) [OF w(3,1)] PCons.IH(2) [OF w(4,2)] unfolding pat_cell.simps try_cons [OF a]
      by (cases "pat_match p x"; cases "pat_match q y") (simp_all add: CPair merge_enc)
  qed (simp_all only: pat_cell.simps try_cons [OF a], simp_all)
next
  case (PAs x p)
  then have "var_name x" "pattern_try_match ev v (pat_cell p) ctx = Some (map_option enc (pat_match p v), ctx)" by simp_all
  then show ?case unfolding pat_cell.simps
    by (cases "pat_match p v") (simp_all add: try_as enc_single merge_enc del: tm_list.simps)
next
  case (POr ps)
  then obtain q r qs where ps: "ps = q # r # qs" by (cases ps; cases "tl ps") auto
  have a: "pat_cell q \<noteq> cell_symbol ''@''" using POr.prems pat_cell_not_separator by (simp add: ps)
  have "match_alternatives ev v (tm_list (map pat_cell ps)) ctx = Some (map_option enc (first_match ps v), ctx)"
    by (rule alternatives_code) (use POr in \<open>simp add: list_all_iff\<close>)
  moreover have "check_or_pattern_consistency (tm_list (map pat_cell ps)) \<longleftrightarrow> consistent ps"
    by (rule consistent_code) (use POr.prems in simp)
  ultimately show ?case using try_or [OF a] by (simp add: ps)
next
  case (PLeaf t ps)
  have t: "t \<noteq> ''@''" using PLeaf.prems by simp
  have f: "match_fields ev flds (tm_list (map pat_cell ps)) None ctx = Some (map_option enc (pats_match ps (pair_values flds)), ctx)"
    if "pairs_list flds" "wf_value flds" for flds
    using fields_code [OF _ that, of ps ev ctx "[]"] PLeaf by (simp add: list_all_iff enc_Nil)
  show ?case unfolding pat_cell.simps try_leaf [OF t]
    by (rule leaf_fields_values [OF PLeaf.prems(2), of t "tm_list (map pat_cell ps)"]) (simp_all add: f)
next
  case (PNode t w ps)
  have t: "t \<noteq> ''@''" using PNode.prems by simp
  have f: "match_fields ev flds (tm_list (map pat_cell ps)) None ctx = Some (map_option enc (pats_match ps (pair_values flds)), ctx)"
    if "pairs_list flds" "wf_value flds" for flds
    using fields_code [OF _ that, of ps ev ctx "[]"] PNode by (simp add: list_all_iff enc_Nil)
  show ?case unfolding pat_cell.simps try_node [OF t]
    by (rule node_fields_values [OF PNode.prems(2), of t w "tm_list (map pat_cell ps)"]) (simp_all add: f)
next
  case (PVar x)
  then show ?case
    by (auto simp: try_atom symbol_simps match_atom_def Let_def enc_single var_name_def) (auto simp: cell_symbol_def is_variable_pattern_def enc_def bind_cell_def)
next
  case (PKey k)
  then show ?case
    by (cases v) (auto simp: try_atom symbol_simps match_atom_def Let_def enc_def is_keyword_def symbols_equal_def cell_symbol_def
        is_variable_pattern_def is_wildcard_def split: list.splits)
next
  case (PNum n)
  show ?case
    by (cases v) (auto simp: try_atom atom_kinds match_atom_def Let_def enc_def, auto simp: cell_number_def cell_symbol_def)
next
  case (PBool b)
  show ?case
    by (cases v) (auto simp: try_atom atom_kinds match_atom_def Let_def enc_def, auto simp: cell_bool_def cell_symbol_def)
qed (auto simp: try_atom symbol_simps match_atom_def Let_def enc_def)

subsection \<open>The form\<close>

definition clause_cell :: "pat \<times> tm \<Rightarrow> tm" where
  "clause_cell c = tm_list [pat_cell (fst c), snd c]"

primrec first_clause :: "(pat \<times> tm) list \<Rightarrow> tm \<Rightarrow> ((string \<times> tm) list \<times> tm) option" where
  "first_clause [] v = None"
| "first_clause (c # cs) v = (case pat_match (fst c) v of Some bs \<Rightarrow> Some (bs, snd c) | None \<Rightarrow> first_clause cs v)"

text \<open>The bindings in front of an environment, the last one first.\<close>

definition env_with :: "(string \<times> tm) list \<Rightarrow> tm \<Rightarrow> tm" where
  "env_with bs env = foldl (\<lambda>e kv. cell_cons (bind_cell kv) e) env bs"

lemma prepend_alist: "prepend_loop (alist bs) env = env_with bs env"
  by (induction bs arbitrary: env) (simp_all add: env_with_def cell_cons_def cell_nil_def bind_cell_def)

lemma extend_enc: "bs \<noteq> [] \<Longrightarrow> extend_env_with_bindings (enc bs) env = Some (env_with bs env)"
proof (cases bs)
  case (Cons kv r)
  then show ?thesis
  proof (cases r)
    case Nil
    with Cons show ?thesis
      by (simp add: enc_def extend_env_with_bindings_def env_with_def bind_cell_def cell_cons_def cell_symbol_def)
  next
    case (Cons kv' r')
    with \<open>bs = kv # r\<close> prepend_alist [of bs env] show ?thesis
      by (simp add: enc_def extend_env_with_bindings_def) (simp add: cell_cons_def)
  qed
qed simp

lemma lookup_env_with: "eval_lookup_env (env_with bs env) x = (case map_of (rev bs) x of Some v \<Rightarrow> Some v | None \<Rightarrow> eval_lookup_env env x)"
proof (induction bs arbitrary: env)
  case (Cons kv bs)
  have e: "env_with (kv # bs) env = env_with bs (cell_cons (bind_cell kv) env)" by (simp add: env_with_def)
  show ?case unfolding e Cons [of "cell_cons (bind_cell kv) env"]
    by (auto simp: map_add_def bind_cell_def cell_cons_def cell_symbol_def split: option.split)
qed (simp add: env_with_def)

lemma match_clauses_step:
  assumes "pat_ok p" "wf_value v"
  shows "match_clauses ev v env (cell_cons (clause_cell (p, r)) rest) ctx =
    (case pat_match p v of
       None \<Rightarrow> match_clauses ev v env rest ctx
     | Some bs \<Rightarrow> if bs = [] then with_env ev env ctx r else with_env ev (env_with bs (ctx_env ctx)) ctx r)"
proof -
  have enc_some: "\<exists>b. enc bs = Some b" if "bs \<noteq> []" for bs using that by (auto simp: enc_def split: list.split)
  show ?thesis
    using match_code [OF assms, of ev "ctx\<lparr>ctx_env := env\<rparr>"] no_guard [OF assms(1)] extend_enc [of "the (pat_match p v)" "ctx_env ctx"]
      enc_some [of "the (pat_match p v)"]
    by (cases "pat_match p v") (auto simp: cell_cons_def clause_cell_def clause_result_def eval_guard_def eval_result_def)
qed

subsection \<open>Properties\<close>

text \<open>
  C25. The match form implements patterns. For clauses whose patterns are built from wildcards,
  variables, literals, pairs, named patterns, alternatives and structures, and any value, the clause
  that is evaluated is the first whose pattern matches by the reference, in an environment in which
  each variable has the value that the reference binds to it, later bindings first, and any other
  name the value it had; without a matching clause the result is the error \<open>no-match\<close>.
\<close>

theorem match_takes_first_clause:
  assumes "list_all (\<lambda>c. pat_ok (fst c)) cs" "wf_value v"
  shows "match_clauses ev v env (tm_list (map clause_cell cs)) ctx =
    (case first_clause cs v of
       None \<Rightarrow> Some (cell_error ''no-match'' (Some v), ctx)
     | Some (bs, r) \<Rightarrow> if bs = [] then with_env ev env ctx r else with_env ev (env_with bs (ctx_env ctx)) ctx r) \<and>
    eval_lookup_env (env_with bs (ctx_env ctx)) x =
      (case map_of (rev bs) x of Some w \<Rightarrow> Some w | None \<Rightarrow> eval_lookup_env (ctx_env ctx) x)"
proof -
  have "match_clauses ev v env (tm_list (map clause_cell cs)) ctx =
    (case first_clause cs v of
       None \<Rightarrow> Some (cell_error ''no-match'' (Some v), ctx)
     | Some (bs, r) \<Rightarrow> if bs = [] then with_env ev env ctx r else with_env ev (env_with bs (ctx_env ctx)) ctx r)"
    using assms(1)
  proof (induction cs)
    case (Cons c cs)
    then have "pat_ok (fst c)" by simp
    from match_clauses_step [OF this assms(2), of ev env "snd c" "tm_list (map clause_cell cs)" ctx] Cons show ?case
      by (cases "pat_match (fst c) v") simp_all
  qed (simp add: cell_nil_def)
  with lookup_env_with show ?thesis by blast
qed

text \<open>\<open>(match 7 ((0 a) ((x @ (or 3 7)) b)))\<close>\<close>

theorem match_takes_first_clause_witness:
  "match_clauses (\<lambda>ctx env e. Some (e, ctx)) (cell_number (double_of_int 7)) cell_nil
     (tm_list (map clause_cell [(PNum 0, cell_symbol ''a''), (PAs ''x'' (POr [PNum 3, PNum (double_of_int 7)]), cell_symbol ''b'')]))
     fresh_context = Some (cell_symbol ''b'', fresh_context)"
proof -
  let ?v = "cell_number (double_of_int 7)"
  let ?cs = "[(PNum 0, cell_symbol ''a''), (PAs ''x'' (POr [PNum 3, PNum (double_of_int 7)]), cell_symbol ''b'')]"
  have ok: "list_all (\<lambda>c. pat_ok (fst c)) ?cs" by (simp add: var_name_def is_keyword_def)
  have wf: "wf_value ?v" by (simp add: cell_number_def)
  have "\<not> double_eq (double_of_int 7) 0" using double_of_int_eq_iff [of 7 0] by simp
  moreover have "\<not> double_is_nan (double_of_int 7)" by (rule double_of_int_not_nan) simp
  ultimately have "first_clause ?cs ?v = Some ([(''x'', ?v)], cell_symbol ''b'')"
    by (simp add: cell_number_def consistent_def split: option.split)
  with match_takes_first_clause [OF ok wf, of "\<lambda>ctx env e. Some (e, ctx)" cell_nil fresh_context] show ?thesis
    by (simp add: with_env_def eval_in_context_def del: tm_list.simps)
qed

subsection \<open>Coverage\<close>

definition catches :: "tm \<Rightarrow> bool" where
  "catches c \<longleftrightarrow> (case c of CPair _ p _ \<Rightarrow> is_catch_all p | _ \<Rightarrow> False)"

lemma check_loop_kept: "snd (check_loop c k seen (Some i)) = Some i"
  by (induction c k seen "Some i" rule: check_loop.induct) (auto split: cell.split)

lemma check_loop_list:
  "check_loop (tm_list cls) k seen None = (s, u) \<Longrightarrow>
    (s \<longrightarrow> seen \<or> (\<exists>j < length cls. catches (cls ! j))) \<and>
    (\<forall>i. u = Some i \<longrightarrow> k \<le> i \<and> i < k + length cls \<and> (seen \<or> (\<exists>j < length cls. k + j < i \<and> catches (cls ! j))))"
proof (induction cls arbitrary: k seen)
  case Nil
  then show ?case by (simp add: cell_nil_def)
next
  case (Cons c cls)
  have lift: "(\<exists>j < length (c # cls). k + j < i \<and> catches ((c # cls) ! j)) \<longleftrightarrow>
      k < i \<and> catches c \<or> (\<exists>j < length cls. Suc k + j < i \<and> catches (cls ! j))" for i k
    by (auto simp: less_Suc_eq_0_disj)
  have lift0: "(\<exists>j < length (c # cls). catches ((c # cls) ! j)) \<longleftrightarrow> catches c \<or> (\<exists>j < length cls. catches (cls ! j))"
    by (auto simp: less_Suc_eq_0_disj)
  show ?case
  proof (cases c)
    case (CPair x p r)
    show ?thesis
    proof (cases seen)
      case True
      with Cons.prems CPair have "check_loop (tm_list cls) (Suc k) True (Some k) = (s, u)" by (simp add: cell_cons_def)
      with check_loop_kept [of "tm_list cls" "Suc k" True k] have "u = Some k" by simp
      with True show ?thesis by simp
    next
      case False
      with Cons.prems CPair have "check_loop (tm_list cls) (Suc k) (is_catch_all p) None = (s, u)" by (simp add: cell_cons_def)
      from Cons.IH [OF this] show ?thesis unfolding lift lift0 by (fastforce simp: CPair catches_def)
    qed
  qed (use Cons.prems Cons.IH [of "Suc k" seen] lift lift0 in \<open>auto simp: cell_cons_def catches_def\<close>)
qed

lemma catch_stops:
  assumes "catches c" "cell_car c \<noteq> Some (cell_symbol ''nil'')"
  shows "match_clauses ev v env (cell_cons c rest) ctx = match_clauses ev v env (cell_cons c cell_nil) ctx"
proof -
  from assms(1) obtain p r where c: "c = CPair () p r" "is_catch_all p" by (cases c) (auto simp: catches_def)
  then obtain s where s: "p = cell_symbol s" "\<not> is_keyword s" by (cases p) (auto simp: is_catch_all_def cell_symbol_def)
  with assms(2) c have "s \<noteq> ''nil''" by auto
  then have "pattern_try_match ev v p (ctx\<lparr>ctx_env := env\<rparr>) =
      Some (Some (if s = ''_'' then None else Some (cell_cons p v)), ctx\<lparr>ctx_env := env\<rparr>)"
    using s by (auto simp: try_atom symbol_simps match_atom_def Let_def var_name_def) (auto simp: cell_symbol_def is_variable_pattern_def)
  moreover have "guard_syntax p = None" using s by (simp add: not_compound symbol_simps)
  ultimately show ?thesis by (simp add: c(1) cell_cons_def eval_guard_def)
qed

lemma match_prefix:
  assumes "catches c" "cell_car c \<noteq> Some (cell_symbol ''nil'')"
  shows "match_clauses ev v env (tm_list (xs @ c # ys)) ctx = match_clauses ev v env (tm_list (xs @ [c])) ctx"
proof (induction xs arbitrary: ctx)
  case Nil
  from catch_stops [OF assms] show ?case by simp
next
  case (Cons x xs)
  then have "match_clauses ev v env (tm_list (xs @ c # ys)) = match_clauses ev v env (tm_list (xs @ [c]))" by blast
  then show ?case by (simp only: append_Cons tm_list.simps cell_cons_def match_clauses.simps)
qed

text \<open>
  C27. The coverage check is sound, for clauses without the pattern \<open>nil\<close>. If it reports the clauses
  from a position on as unreachable, the match never depends on them, and if it reports complete
  coverage, the match never falls through to what follows, whatever the value.
\<close>

theorem coverage_sound:
  assumes "status (pattern_check_exhaustiveness (tm_list cls)) \<noteq> COVERAGE_PARTIAL"
    "\<forall>c \<in> set cls. cell_car c \<noteq> Some (cell_symbol ''nil'')"
  shows "match_clauses ev v env
      (tm_list (take (case first_unreachable (pattern_check_exhaustiveness (tm_list cls)) of Some i \<Rightarrow> i | None \<Rightarrow> length cls) cls @ other)) ctx =
    match_clauses ev v env (tm_list cls) ctx"
proof -
  obtain s u where check: "check_loop (tm_list cls) 0 False None = (s, u)" by force
  define n where "n = (case u of Some i \<Rightarrow> i | None \<Rightarrow> length cls)"
  have n: "(case first_unreachable (pattern_check_exhaustiveness (tm_list cls)) of Some i \<Rightarrow> i | None \<Rightarrow> length cls) = n"
    by (simp add: pattern_check_exhaustiveness_def check n_def)
  from assms(1) have "u \<noteq> None \<or> s" by (auto simp: pattern_check_exhaustiveness_def check split: if_splits)
  with check_loop_list [OF check] obtain j where j: "j < n" "n \<le> length cls" "catches (cls ! j)"
    by (cases u) (auto simp: n_def)
  let ?c = "cls ! j"
  have no_nil: "cell_car ?c \<noteq> Some (cell_symbol ''nil'')" using assms(2) j by simp
  have "cls = take j cls @ ?c # drop (Suc j) cls" using j by (simp add: id_take_nth_drop)
  then have all: "match_clauses ev v env (tm_list cls) ctx = match_clauses ev v env (tm_list (take j cls @ [?c])) ctx"
    using match_prefix [OF j(3) no_nil] by metis
  have "take n cls = take j cls @ ?c # drop (Suc j) (take n cls)"
    using j id_take_nth_drop [of j "take n cls"] by simp
  then have kept: "take n cls @ other = take j cls @ ?c # (drop (Suc j) (take n cls) @ other)"
    by (metis append_Cons append_assoc)
  show ?thesis
    unfolding n kept match_prefix [OF j(3) no_nil, of ev v env "take j cls" "drop (Suc j) (take n cls) @ other" ctx] all ..
qed

text \<open>\<open>((x a) (0 b))\<close>: the second clause is unreachable.\<close>

theorem coverage_sound_witness:
  "match_clauses (\<lambda>ctx env e. Some (e, ctx)) cell_nil cell_nil
     (tm_list (take 1 [tm_list [cell_symbol ''x'', cell_symbol ''a''], tm_list [cell_number 0, cell_symbol ''b'']] @ [cell_nil])) fresh_context =
   match_clauses (\<lambda>ctx env e. Some (e, ctx)) cell_nil cell_nil
     (tm_list [tm_list [cell_symbol ''x'', cell_symbol ''a''], tm_list [cell_number 0, cell_symbol ''b'']]) fresh_context"
proof -
  let ?cls = "[tm_list [cell_symbol ''x'', cell_symbol ''a''], tm_list [cell_number 0, cell_symbol ''b'']]"
  have "check_loop (tm_list ?cls) 0 False None = (True, Some 1)"
    by (simp add: cell_cons_def cell_nil_def is_catch_all_def cell_symbol_def cell_number_def is_keyword_def)
  then have "pattern_check_exhaustiveness (tm_list ?cls) = \<lparr>status = COVERAGE_REDUNDANT, first_unreachable = Some 1, has_catch_all = True\<rparr>"
    by (simp add: pattern_check_exhaustiveness_def del: tm_list.simps)
  moreover have "\<forall>c \<in> set ?cls. cell_car c \<noteq> Some (cell_symbol ''nil'')"
    by (simp add: cell_cons_def cell_symbol_def cell_number_def)
  ultimately show ?thesis
    using coverage_sound [of ?cls "\<lambda>ctx env e. Some (e, ctx)" cell_nil cell_nil "[cell_nil]" fresh_context]
    by (simp del: tm_list.simps append_Cons take_Suc_Cons)
qed

text \<open>
  C28. Two defects of the match form. The coverage check takes the pattern \<open>nil\<close>, which matches the
  empty list only, for a variable, and so calls a clause behind it unreachable that a number reaches.
  And a clause that binds a variable is evaluated without the local environment: there the index of
  a parameter of the enclosing function denotes the number itself, whereas under a wildcard it
  denotes the parameter.
\<close>

theorem match_defects:
  "first_unreachable (pattern_check_exhaustiveness
      (tm_list [tm_list [cell_symbol ''nil'', a], tm_list [cell_symbol ''_'', b]])) = Some 1 \<and>
   match_clauses ev (cell_number n) env (tm_list [tm_list [cell_symbol ''nil'', a], tm_list [cell_symbol ''_'', b]]) ctx =
     with_env ev env ctx b \<and>
   match_clauses (eval_internal I 1) (cell_number n) (CVector () [parameter])
     (tm_list [tm_list [cell_symbol ''_'', cell_number 0]]) fresh_context = Some (parameter, fresh_context) \<and>
   match_clauses (eval_internal I 1) (cell_number n) (CVector () [parameter])
     (tm_list [tm_list [cell_symbol ''x'', cell_number 0]]) fresh_context = Some (cell_number 0, fresh_context)"
proof -
  have 1: "first_unreachable (pattern_check_exhaustiveness
      (tm_list [tm_list [cell_symbol ''nil'', a], tm_list [cell_symbol ''_'', b]])) = Some 1"
    by (simp add: pattern_check_exhaustiveness_def cell_cons_def cell_nil_def is_catch_all_def cell_symbol_def is_keyword_def)
  have cs: "[tm_list [cell_symbol ''nil'', a], tm_list [cell_symbol ''_'', b]] = map clause_cell [(PNil, a), (PWild, b)]"
    "[tm_list [cell_symbol ''_'', cell_number 0]] = map clause_cell [(PWild, cell_number 0)]"
    "[tm_list [cell_symbol ''x'', cell_number 0]] = map clause_cell [(PVar ''x'', cell_number 0)]"
    by (simp_all add: clause_cell_def)
  have 2: "match_clauses ev (cell_number n) env (tm_list (map clause_cell [(PNil, a), (PWild, b)])) ctx = with_env ev env ctx b"
    using match_clauses_step [of PNil "cell_number n" ev env a "tm_list (map clause_cell [(PWild, b)])" ctx]
      match_clauses_step [of PWild "cell_number n" ev env b cell_nil ctx]
    by (simp add: cell_number_def)
  have idx: "eval_number (CVector () [parameter]) 0 = Some parameter"
    using eval_number_index [of 0 "[([''p''], [parameter])]"] by (simp add: cell_scopes_def)
  have num: "eval_internal I 1 ctx env (cell_number 0) = map_option (\<lambda>v. (v, ctx)) (eval_number env 0)" for ctx env
    by (simp add: eval_step_def cell_number_def)
  have wf_n: "wf_value (cell_number n)" by (simp add: cell_number_def)
  have 3: "match_clauses (eval_internal I 1) (cell_number n) (CVector () [parameter])
     (tm_list (map clause_cell [(PWild, cell_number 0)])) fresh_context = Some (parameter, fresh_context)"
    using match_clauses_step [of PWild "cell_number n" "eval_internal I 1" "CVector () [parameter]" "cell_number 0" cell_nil fresh_context]
    by (simp add: with_env_def eval_in_context_def num idx wf_n fresh_context_def del: eval_internal.simps One_nat_def)
  have named: "\<not> env_is_indexed (env_of_cell (env_with [(''x'', cell_number n)] (ctx_env fresh_context)))"
    by (simp add: env_with_def env_is_indexed_def env_of_cell_def bind_cell_def cell_cons_def cell_symbol_def cell_nil_def fresh_context_def is_marker_def)
  have 4: "match_clauses (eval_internal I 1) (cell_number n) (CVector () [parameter])
     (tm_list (map clause_cell [(PVar ''x'', cell_number 0)])) fresh_context = Some (cell_number 0, fresh_context)"
    using match_clauses_step [of "PVar ''x''" "cell_number n" "eval_internal I 1" "CVector () [parameter]" "cell_number 0" cell_nil fresh_context] named
    by (simp add: with_env_def eval_in_context_def num eval_number_def var_name_def is_keyword_def wf_n fresh_context_def del: eval_internal.simps One_nat_def)
  show ?thesis unfolding cs using 1 2 3 4 unfolding cs by blast
qed

end
