(* ===== verification/Channel.thy ===== *)
theory Channel
  imports CellOps
begin

section \<open>Channels\<close>

text \<open>
  The bounded queues between actors of \<open>bootstrap/channel.c\<close>. Several threads send and receive at
  once, so an operation is a program counter with its local variables, and \<open>chan_step\<close> executes its
  next atomic access to the shared fields. Steps of different threads interleave in any order, which
  is what the acquire and release orders of the source give for the fields that they protect. The
  tracing of events is left out; waking an actor is an output of the step.
\<close>

record slot =
  slot_seq :: u64
  slot_value :: "tm option"

record channel =
  chan_id :: int
  chan_capacity :: u32
  chan_mask :: u32
  closed :: bool
  enqueue_pos :: u64
  dequeue_pos :: u64
  chan_buffer :: "slot list"
  chan_count :: u32
  recv_waiter :: int
  send_waiter :: int

record channel_table =
  g_channels :: "channel option list"
  g_next_channel_id :: int

definition MAX_CHANNELS :: nat where "MAX_CHANNELS = 256"
definition DEFAULT_CHANNEL_CAPACITY :: int where "DEFAULT_CHANNEL_CAPACITY = 64"

subsection \<open>Creation and the registry\<close>

definition next_pow2 :: "u32 \<Rightarrow> u32" where
  "next_pow2 v =
     (let v = v - 1;
          v = v OR drop_bit 1 v;
          v = v OR drop_bit 2 v;
          v = v OR drop_bit 4 v;
          v = v OR drop_bit 8 v;
          v = v OR drop_bit 16 v;
          v = v + 1
      in if v < 2 then 2 else v)"

definition new_channel :: "int \<Rightarrow> int \<Rightarrow> channel" where
  "new_channel i capacity =
     (let cap = next_pow2 (of_int (if capacity \<le> 0 then DEFAULT_CHANNEL_CAPACITY else capacity))
      in \<lparr>chan_id = i, chan_capacity = cap, chan_mask = cap - 1, closed = False, enqueue_pos = 0, dequeue_pos = 0,
          chan_buffer = map (\<lambda>i. \<lparr>slot_seq = of_nat i, slot_value = None\<rparr>) [0..<unat cap],
          chan_count = 0, recv_waiter = -1, send_waiter = -1\<rparr>)"

definition channel_create :: "int \<Rightarrow> channel_table \<Rightarrow> channel option \<times> channel_table" where
  "channel_create capacity tbl =
     (if MAX_CHANNELS \<le> length (g_channels tbl) then (None, tbl)
      else let chan = new_channel (g_next_channel_id tbl) capacity
        in (Some chan, \<lparr>g_channels = g_channels tbl @ [Some chan], g_next_channel_id = g_next_channel_id tbl + 1\<rparr>))"

definition channel_lookup :: "int \<Rightarrow> channel_table \<Rightarrow> channel option" where
  "channel_lookup i tbl =
     (case find (\<lambda>c. case c of Some chan \<Rightarrow> chan_id chan = i | None \<Rightarrow> False) (g_channels tbl) of
        Some c \<Rightarrow> c
      | None \<Rightarrow> None)"

definition channel_reset_all :: "channel_table \<Rightarrow> channel_table" where
  "channel_reset_all tbl = \<lparr>g_channels = [], g_next_channel_id = 1\<rparr>"

subsection \<open>Atomic steps\<close>

datatype pc =
    Idle
  | Send_check tm
  | Send_pos tm
  | Send_seq tm u64
  | Send_cas tm u64
  | Send_value tm u64
  | Send_publish u64
  | Send_count
  | Send_wake
  | Send_done bool
  | Recv_pos
  | Recv_seq u64
  | Recv_cas u64
  | Recv_value u64
  | Recv_clear u64 "tm option"
  | Recv_release u64 "tm option"
  | Recv_count "tm option"
  | Recv_wake "tm option"
  | Recv_done "tm option"
  | Close_flag
  | Close_recv
  | Close_send
  | Close_done

definition slot_index :: "channel \<Rightarrow> u64 \<Rightarrow> nat" where
  "slot_index c pos = unat (pos AND ucast (chan_mask c))"

definition slot_at :: "channel \<Rightarrow> u64 \<Rightarrow> slot" where
  "slot_at c pos = chan_buffer c ! slot_index c pos"

definition set_value :: "u64 \<Rightarrow> tm option \<Rightarrow> channel \<Rightarrow> channel" where
  "set_value pos v c = c\<lparr>chan_buffer := (chan_buffer c)[slot_index c pos := (slot_at c pos)\<lparr>slot_value := v\<rparr>]\<rparr>"

definition set_seq :: "u64 \<Rightarrow> u64 \<Rightarrow> channel \<Rightarrow> channel" where
  "set_seq pos q c = c\<lparr>chan_buffer := (chan_buffer c)[slot_index c pos := (slot_at c pos)\<lparr>slot_seq := q\<rparr>]\<rparr>"

definition waiter :: "int \<Rightarrow> int option" where
  "waiter w = (if 0 \<le> w then Some w else None)"

text \<open>
  The steps of \<open>channel_try_send\<close>, \<open>channel_try_recv\<close> and \<open>channel_close\<close>. The flag says that a weak
  compare-and-exchange fails although the values agree. A failed exchange continues the loop with the
  value it found.
\<close>

definition seq_diff :: "channel \<Rightarrow> u64 \<Rightarrow> u64 \<Rightarrow> int" where
  "seq_diff c pos expected = sint (slot_seq (slot_at c pos)) - sint expected"

definition close_step :: "pc \<Rightarrow> channel \<Rightarrow> (pc \<times> channel \<times> int option) option" where
  "close_step p c =
     (case p of
        Close_flag \<Rightarrow> Some (Close_recv, c\<lparr>closed := True\<rparr>, None)
      | Close_recv \<Rightarrow> Some (Close_send, c\<lparr>recv_waiter := -1\<rparr>, waiter (recv_waiter c))
      | Close_send \<Rightarrow> Some (Close_done, c\<lparr>send_waiter := -1\<rparr>, waiter (send_waiter c))
      | _ \<Rightarrow> None)"

definition chan_step :: "bool \<Rightarrow> pc \<Rightarrow> channel \<Rightarrow> (pc \<times> channel \<times> int option) option" where
  "chan_step spurious p c =
     (case p of
        Send_check v \<Rightarrow> Some (if closed c then Send_done False else Send_pos v, c, None)
      | Send_pos v \<Rightarrow> Some (Send_seq v (enqueue_pos c), c, None)
      | Send_seq v pos \<Rightarrow>
          let diff = seq_diff c pos pos
          in Some (if diff = 0 then Send_cas v pos else if diff < 0 then Send_done False else Send_pos v, c, None)
      | Send_cas v pos \<Rightarrow>
          if \<not> spurious \<and> enqueue_pos c = pos then Some (Send_value v pos, c\<lparr>enqueue_pos := pos + 1\<rparr>, None)
          else Some (Send_seq v (enqueue_pos c), c, None)
      | Send_value v pos \<Rightarrow> Some (Send_publish pos, set_value pos (Some v) c, None)
      | Send_publish pos \<Rightarrow> Some (Send_count, set_seq pos (pos + 1) c, None)
      | Send_count \<Rightarrow> Some (Send_wake, c\<lparr>chan_count := chan_count c + 1\<rparr>, None)
      | Send_wake \<Rightarrow> Some (Send_done True, c\<lparr>recv_waiter := -1\<rparr>, waiter (recv_waiter c))
      | Recv_pos \<Rightarrow> Some (Recv_seq (dequeue_pos c), c, None)
      | Recv_seq pos \<Rightarrow>
          let diff = seq_diff c pos (pos + 1)
          in Some (if diff = 0 then Recv_cas pos else if diff < 0 then Recv_done None else Recv_pos, c, None)
      | Recv_cas pos \<Rightarrow>
          if \<not> spurious \<and> dequeue_pos c = pos then Some (Recv_value pos, c\<lparr>dequeue_pos := pos + 1\<rparr>, None)
          else Some (Recv_seq (dequeue_pos c), c, None)
      | Recv_value pos \<Rightarrow> Some (Recv_clear pos (slot_value (slot_at c pos)), c, None)
      | Recv_clear pos v \<Rightarrow> Some (Recv_release pos v, set_value pos None c, None)
      | Recv_release pos v \<Rightarrow> Some (Recv_count v, set_seq pos (pos + ucast (chan_capacity c)) c, None)
      | Recv_count v \<Rightarrow> Some (Recv_wake v, c\<lparr>chan_count := chan_count c - 1\<rparr>, None)
      | Recv_wake v \<Rightarrow> Some (Recv_done v, c\<lparr>send_waiter := -1\<rparr>, waiter (send_waiter c))
      | _ \<Rightarrow> close_step p c)"

text \<open>An operation that no other thread disturbs: at most \<open>n\<close> steps to its end.\<close>

primrec alone :: "nat \<Rightarrow> pc \<Rightarrow> channel \<Rightarrow> pc \<times> channel" where
  "alone 0 p c = (p, c)"
| "alone (Suc n) p c = (case chan_step False p c of Some (p', c', _) \<Rightarrow> alone n p' c' | None \<Rightarrow> (p, c))"

text \<open>Waking an actor that is blocked with its flag set takes the flag and puts the actor in the queue of its scheduler.\<close>

definition channel_wake_actor :: "int \<Rightarrow> (int \<rightharpoonup> bool \<times> int) \<Rightarrow> (int \<rightharpoonup> bool \<times> int) \<times> bool" where
  "channel_wake_actor i actors =
     (if i < 0 then (actors, False)
      else case actors i of
        Some (alive, wait_flag) \<Rightarrow>
          if alive then (actors(i \<mapsto> (alive, 0)), wait_flag = 1) else (actors, False)
      | None \<Rightarrow> (actors, False))"

subsection \<open>Threads\<close>

text \<open>
  The system is the channel with one program counter per thread. The remaining fields record what has
  happened and no step reads them: the values in the order in which their senders claimed a position,
  the number of positions that receivers have claimed, the positions whose value is published and
  those whose slot is free again, and what the receivers found at which position.
\<close>

record system =
  chan :: channel
  pcs :: "nat \<Rightarrow> pc"
  sent :: "tm list"
  taken :: nat
  published :: "nat set"
  released :: "nat set"
  got :: "(nat \<times> tm option) list"

definition note_step :: "pc \<Rightarrow> pc \<Rightarrow> system \<Rightarrow> system" where
  "note_step p p' s =
     (case (p, p') of
        (Send_cas v pos, Send_value _ _) \<Rightarrow> s\<lparr>sent := sent s @ [v]\<rparr>
      | (Send_publish pos, _) \<Rightarrow> s\<lparr>published := insert (unat pos) (published s)\<rparr>
      | (Recv_cas pos, Recv_value _) \<Rightarrow> s\<lparr>taken := taken s + 1\<rparr>
      | (Recv_value pos, Recv_clear _ v) \<Rightarrow> s\<lparr>got := got s @ [(unat pos, v)]\<rparr>
      | (Recv_release pos v, _) \<Rightarrow> s\<lparr>released := insert (unat pos) (released s)\<rparr>
      | _ \<Rightarrow> s)"

definition starts :: "pc \<Rightarrow> bool" where
  "starts p \<longleftrightarrow> (case p of Send_check _ \<Rightarrow> True | Recv_pos \<Rightarrow> True | Close_flag \<Rightarrow> True | _ \<Rightarrow> False)"

definition finished :: "pc \<Rightarrow> bool" where
  "finished p \<longleftrightarrow> (case p of Send_done _ \<Rightarrow> True | Recv_done _ \<Rightarrow> True | Close_done \<Rightarrow> True | _ \<Rightarrow> False)"

inductive sys_step :: "system \<Rightarrow> system \<Rightarrow> bool" where
  call: "pcs s t = Idle \<Longrightarrow> starts p \<Longrightarrow> sys_step s (s\<lparr>pcs := (pcs s)(t := p)\<rparr>)"
| move: "pcs s t = p \<Longrightarrow> chan_step spurious p (chan s) = Some (p', c', w) \<Longrightarrow>
    sys_step s (note_step p p' (s\<lparr>chan := c', pcs := (pcs s)(t := p')\<rparr>))"
| return: "finished (pcs s t) \<Longrightarrow> sys_step s (s\<lparr>pcs := (pcs s)(t := Idle)\<rparr>)"

definition init_system :: "channel \<Rightarrow> system" where
  "init_system c = \<lparr>chan = c, pcs = (\<lambda>_. Idle), sent = [], taken = 0, published = {}, released = {}, got = []\<rparr>"

inductive reachable :: "int \<Rightarrow> system \<Rightarrow> bool" for capacity where
  init: "reachable capacity (init_system (new_channel i capacity))"
| step: "reachable capacity s \<Longrightarrow> sys_step s s' \<Longrightarrow> reachable capacity s'"

end
