(* ===== verification/ChannelFacts.thy ===== *)
theory ChannelFacts
  imports Channel
begin

section \<open>Channels are first-in first-out under any interleaving\<close>

text \<open>
  A position in the order of claims is a ticket. The invariant says of every slot which ticket owns
  it and how far that ticket is, of every thread inside an operation that its ticket is its own, and
  of what the receivers read that it is what was sent under the same ticket. Positions are 64-bit
  words that the code compares as signed numbers, so everything is claimed for fewer than \<open>2 ^ 62\<close>
  sends.
\<close>

subsection \<open>The capacity\<close>

lemma bit_smear: "bit (v OR drop_bit n v :: u32) i \<longleftrightarrow> bit v i \<or> bit v (i + n)"
  by (simp add: bit_simps add.commute)

lemma smeared_mask:
  fixes v w :: u32
  assumes smear: "\<And>i. bit w i \<longleftrightarrow> (\<exists>d < 32. bit v (i + d))" and n: "take_bit n v = v"
  shows "\<exists>m \<le> n. w = mask m"
proof (cases "v = 0")
  case True
  then have "w = mask 0" using smear by (intro bit_eqI) simp
  then show ?thesis by blast
next
  case False
  define t where "t = (GREATEST j. bit v j)"
  have j32: "j < 32" if "bit v j" for j using bit_imp_le_length [OF that] by simp
  from False obtain j0 where "bit v j0" by (auto simp: bit_eq_iff)
  then have t: "bit v t" and top: "\<And>j. bit v j \<Longrightarrow> j \<le> t"
    unfolding t_def using GreatestI_nat [of "bit v" j0 32] Greatest_le_nat [of "bit v" _ 32] j32 by (meson less_imp_le)+
  have "bit w i \<longleftrightarrow> i \<le> t" for i
  proof
    assume "bit w i"
    with smear top show "i \<le> t" by force
  next
    assume "i \<le> t"
    then have "bit v (i + (t - i)) \<and> t - i < 32" using t j32 [OF t] by simp
    with smear show "bit w i" by blast
  qed
  then have "w = mask (Suc t)" by (intro bit_eqI) (simp add: bit_simps less_Suc_eq_le)
  moreover have "t < n" using t n by (metis bit_take_bit_iff)
  ultimately show ?thesis by (intro exI [of _ "Suc t"]) simp
qed

definition covers_bits :: "nat \<Rightarrow> u32 \<Rightarrow> u32 \<Rightarrow> bool" where
  "covers_bits n v w \<longleftrightarrow> (\<forall>i. bit w i \<longleftrightarrow> (\<exists>d < n. bit v (i + d)))"

lemma covers_double:
  assumes "covers_bits n v w"
  shows "covers_bits (2 * n) v (w OR drop_bit n w)"
proof -
  have "(\<exists>d < 2 * n. bit v (i + d)) \<longleftrightarrow> (\<exists>d < n. bit v (i + d)) \<or> (\<exists>d < n. bit v (i + n + d))" for i
  proof
    assume "\<exists>d < 2 * n. bit v (i + d)"
    then obtain d where d: "d < 2 * n" "bit v (i + d)" by blast
    then show "(\<exists>d < n. bit v (i + d)) \<or> (\<exists>d < n. bit v (i + n + d))"
      by (cases "d < n") (auto intro: exI [of _ "d - n"])
  next
    assume "(\<exists>d < n. bit v (i + d)) \<or> (\<exists>d < n. bit v (i + n + d))"
    then show "\<exists>d < 2 * n. bit v (i + d)"
      by (metis add.assoc add_less_cancel_left mult_2 trans_less_add1)
  qed
  with assms show ?thesis by (simp add: covers_bits_def bit_smear)
qed

lemma next_pow2_is_pow2:
  assumes "0 < v" "v \<le> 2 ^ 31"
  shows "\<exists>m. 0 < m \<and> m \<le> 31 \<and> unat (next_pow2 v) = 2 ^ m"
proof -
  define w where "w = (let v = v - 1; v = v OR drop_bit 1 v; v = v OR drop_bit 2 v; v = v OR drop_bit 4 v;
    v = v OR drop_bit 8 v in v OR drop_bit 16 v)"
  have "covers_bits 1 (v - 1) (v - 1)" by (simp add: covers_bits_def)
  from covers_double [OF covers_double [OF covers_double [OF covers_double [OF covers_double [OF this]]]]]
  have "covers_bits 32 (v - 1) w" by (simp add: w_def Let_def)
  moreover have "take_bit 31 (v - 1) = v - 1"
  proof -
    have "unat (v - 1) < 2 ^ 31" using assms by (simp add: unat_minus_one word_gt_0 word_le_nat_alt)
    then show ?thesis by (simp add: word_unat_eq_iff unsigned_take_bit_eq take_bit_nat_eq_self)
  qed
  ultimately obtain m where m: "m \<le> 31" "w = mask m"
    using smeared_mask [of w "v - 1" 31] by (auto simp: covers_bits_def)
  have res: "next_pow2 v = (if w + 1 < 2 then 2 else w + 1)" by (simp add: next_pow2_def w_def Let_def)
  have "w + 1 = 2 ^ m" using m by (simp add: mask_eq_exp_minus_1)
  moreover have "unat (2 ^ m :: u32) = 2 ^ m"
  proof -
    have "(2 :: nat) ^ m < 2 ^ 32" using m by (intro power_strict_increasing) simp_all
    from unat_of_nat_u32 [OF this] show ?thesis by simp
  qed
  ultimately show ?thesis using m res
    by (cases "m = 0") (auto intro!: exI [of _ m] exI [of _ 1] simp: word_less_nat_alt)
qed


subsection \<open>The invariant\<close>

definition geometry :: "nat \<Rightarrow> channel \<Rightarrow> bool" where
  "geometry k c \<longleftrightarrow> is_pow2 k \<and> 2 \<le> k \<and> k \<le> 2 ^ 31 \<and> unat (chan_capacity c) = k \<and> chan_mask c = chan_capacity c - 1 \<and>
     length (chan_buffer c) = k"

definition seq_of :: "channel \<Rightarrow> nat \<Rightarrow> u64" where
  "seq_of c i = slot_seq (chan_buffer c ! i)"

definition val_of :: "channel \<Rightarrow> nat \<Rightarrow> tm option" where
  "val_of c i = slot_value (chan_buffer c ! i)"

definition counters :: "nat \<Rightarrow> system \<Rightarrow> bool" where
  "counters k s \<longleftrightarrow> enqueue_pos (chan s) = of_nat (length (sent s)) \<and> dequeue_pos (chan s) = of_nat (taken s) \<and>
     taken s \<le> length (sent s) \<and> published s \<subseteq> {..<length (sent s)} \<and> released s \<subseteq> {..<taken s} \<and>
     {..<taken s} \<subseteq> published s \<and> (\<forall>n. n + k < length (sent s) \<longrightarrow> n \<in> released s)"

definition sequences :: "nat \<Rightarrow> system \<Rightarrow> bool" where
  "sequences k s \<longleftrightarrow> (\<forall>i < k. length (sent s) \<le> i \<longrightarrow> seq_of (chan s) i = of_nat i) \<and>
     (\<forall>n < length (sent s). length (sent s) \<le> n + k \<longrightarrow>
       seq_of (chan s) (n mod k) =
         of_nat (if n \<notin> published s then n else if n \<notin> released s then n + 1 else n + k))"

definition receipts :: "system \<Rightarrow> bool" where
  "receipts s \<longleftrightarrow> distinct (map fst (got s)) \<and> (\<forall>(n, v) \<in> set (got s). n < taken s \<and> v = Some (sent s ! n))"

definition free_ticket :: "nat \<Rightarrow> system \<Rightarrow> nat \<Rightarrow> bool" where
  "free_ticket k s n \<longleftrightarrow> n < k \<or> n - k \<in> released s"

definition thread_ok :: "nat \<Rightarrow> system \<Rightarrow> pc \<Rightarrow> bool" where
  "thread_ok k s p =
     (case p of
        Send_seq v pos \<Rightarrow> unat pos \<le> length (sent s)
      | Send_cas v pos \<Rightarrow> unat pos < length (sent s) \<or> unat pos = length (sent s) \<and> free_ticket k s (unat pos)
      | Send_value v pos \<Rightarrow> unat pos < length (sent s) \<and> unat pos \<notin> published s \<and> sent s ! unat pos = v
      | Send_publish pos \<Rightarrow> unat pos < length (sent s) \<and> unat pos \<notin> published s \<and>
          val_of (chan s) (unat pos mod k) = Some (sent s ! unat pos)
      | Recv_seq pos \<Rightarrow> unat pos \<le> taken s
      | Recv_cas pos \<Rightarrow> unat pos < taken s \<or> unat pos = taken s \<and> unat pos \<in> published s
      | Recv_value pos \<Rightarrow> unat pos < taken s \<and> unat pos \<notin> released s \<and> unat pos \<notin> fst ` set (got s) \<and>
          val_of (chan s) (unat pos mod k) = Some (sent s ! unat pos)
      | Recv_clear pos v \<Rightarrow> unat pos < taken s \<and> unat pos \<notin> released s
      | Recv_release pos v \<Rightarrow> unat pos < taken s \<and> unat pos \<notin> released s
      | _ \<Rightarrow> True)"

definition waiting :: "nat \<Rightarrow> system \<Rightarrow> bool" where
  "waiting k s \<longleftrightarrow> (\<forall>n \<in> published s. taken s \<le> n \<longrightarrow> val_of (chan s) (n mod k) = Some (sent s ! n))"

definition send_ticket :: "pc \<Rightarrow> u64 option" where
  "send_ticket p = (case p of Send_value _ pos \<Rightarrow> Some pos | Send_publish pos \<Rightarrow> Some pos | _ \<Rightarrow> None)"

definition recv_ticket :: "pc \<Rightarrow> u64 option" where
  "recv_ticket p = (case p of Recv_value pos \<Rightarrow> Some pos | Recv_clear pos _ \<Rightarrow> Some pos | Recv_release pos _ \<Rightarrow> Some pos | _ \<Rightarrow> None)"

definition owners :: "(nat \<Rightarrow> pc) \<Rightarrow> bool" where
  "owners f \<longleftrightarrow> (\<forall>t t' pos. send_ticket (f t) = Some pos \<and> send_ticket (f t') = Some pos \<longrightarrow> t = t') \<and>
     (\<forall>t t' pos. recv_ticket (f t) = Some pos \<and> recv_ticket (f t') = Some pos \<longrightarrow> t = t')"

definition chan_inv :: "nat \<Rightarrow> system \<Rightarrow> bool" where
  "chan_inv k s \<longleftrightarrow> geometry k (chan s) \<and> counters k s \<and> sequences k s \<and> receipts s \<and> waiting k s \<and> owners (pcs s) \<and>
     (\<forall>t. thread_ok k s (pcs s t))"

subsection \<open>Slots\<close>

lemma slot_index_ticket:
  assumes "geometry k c"
  shows "slot_index c pos = unat pos mod k"
proof -
  from assms obtain j where j: "k = 2 ^ j" by (auto simp: geometry_def is_pow2_def)
  have "uint (ucast (chan_mask c) :: u64) = uint (chan_mask c)" by (rule uint_up_ucast) (simp add: is_up)
  then have "unat (ucast (chan_mask c) :: u64) = unat (chan_mask c)" by (metis nat_uint_eq)
  moreover have "unat (chan_mask c) = k - 1"
  proof -
    have "chan_capacity c \<noteq> 0" using assms by (auto simp: geometry_def)
    then have "unat (chan_capacity c - 1) = unat (chan_capacity c) - 1" by (rule unat_minus_one)
    then show ?thesis using assms by (simp add: geometry_def)
  qed
  ultimately show ?thesis using j by (simp add: slot_index_def unsigned_and_eq)
qed

lemma geometry_set [simp]:
  "geometry k (set_value pos v c) = geometry k c" "geometry k (set_seq pos q c) = geometry k c"
  by (simp_all add: geometry_def set_value_def set_seq_def)

lemma set_fields [simp]:
  "enqueue_pos (set_value pos v c) = enqueue_pos c" "dequeue_pos (set_value pos v c) = dequeue_pos c"
  "enqueue_pos (set_seq pos q c) = enqueue_pos c" "dequeue_pos (set_seq pos q c) = dequeue_pos c"
  by (simp_all add: set_value_def set_seq_def)

lemma slots_set:
  assumes "geometry k c" "i < k"
  shows "seq_of (set_value pos v c) i = seq_of c i"
    "val_of (set_value pos v c) i = (if i = unat pos mod k then v else val_of c i)"
    "val_of (set_seq pos q c) i = val_of c i"
    "seq_of (set_seq pos q c) i = (if i = unat pos mod k then q else seq_of c i)"
  using assms
  by (auto simp: seq_of_def val_of_def set_value_def set_seq_def slot_at_def slot_index_ticket geometry_def nth_list_update)

lemma slot_at_ticket:
  assumes "geometry k c"
  shows "slot_seq (slot_at c pos) = seq_of c (unat pos mod k)" "slot_value (slot_at c pos) = val_of c (unat pos mod k)"
  by (simp_all add: slot_at_def slot_index_ticket [OF assms] seq_of_def val_of_def)

text \<open>A claimed ticket whose slot is not free again is the last one of its slot.\<close>

lemma congruent_gap:
  fixes m n k :: nat
  assumes "m mod k = n mod k" "m < n"
  shows "m + k \<le> n"
proof -
  from assms have "k dvd n - m" by (metis mod_eq_dvd_iff_nat less_imp_le)
  with assms(2) have "k \<le> n - m" by (intro dvd_imp_le) simp_all
  with assms(2) show ?thesis by simp
qed

lemma ticket_of_slot:
  assumes "counters k s" "n \<notin> released s" "n < length (sent s)" "n' < length (sent s)" "n mod k = n' mod k"
  shows "n' \<le> n"
  using congruent_gap [OF assms(5)] assms by (force simp: counters_def)

lemma last_ticket:
  assumes "counters k s" "n \<notin> released s"
  shows "length (sent s) \<le> n + k"
  using assms by (force simp: counters_def)

lemma sint_small:
  assumes "unat (x :: u64) < 2 ^ 63"
  shows "sint x = int (unat x)"
proof -
  have "int (unat x) < int (2 ^ 63)" using assms by (simp only: of_nat_less_iff)
  then have "uint x < 2 ^ 63" by simp
  moreover have "- (2 ^ 63) \<le> uint x" by (rule order_trans [OF _ uint_u64(1)]) simp
  ultimately show ?thesis by (simp add: sint_uint signed_take_bit_int_eq_self)
qed

lemma unat_u64: "n < 2 ^ 64 \<Longrightarrow> unat (of_nat n :: u64) = n"
  by (simp add: unat_of_nat)

lemma sint_of_nat_u64:
  assumes "n < 2 ^ 63"
  shows "sint (of_nat n :: u64) = int n"
proof -
  have "n < 2 ^ 64" using assms by simp
  from unat_u64 [OF this] sint_small [of "of_nat n"] assms show ?thesis by argo
qed

lemma of_nat_u64_eq: "m < 2 ^ 64 \<Longrightarrow> n < 2 ^ 64 \<Longrightarrow> (of_nat m :: u64) = of_nat n \<longleftrightarrow> m = n"
  by (metis unat_u64)

lemma seq_diff_zero: "seq_diff c pos q = 0 \<longleftrightarrow> slot_seq (slot_at c pos) = q"
  by (auto simp: seq_diff_def intro: signed_word_eqI)

text \<open>The sequence number at the next tickets of either side.\<close>

lemma next_free:
  assumes inv: "geometry k (chan s)" "counters k s" "sequences k s" "length (sent s) < 2 ^ 62"
    and seq: "seq_of (chan s) (length (sent s) mod k) = of_nat (length (sent s))"
  shows "free_ticket k s (length (sent s))"
proof (cases "length (sent s) < k")
  case False
  define n where "n = length (sent s) - k"
  have k: "2 \<le> k" using inv(1) by (simp add: geometry_def)
  then have n: "n < length (sent s)" "length (sent s) = n + k" using False by (auto simp: n_def)
  then have "seq_of (chan s) (n mod k) = of_nat (if n \<notin> published s then n else if n \<notin> released s then n + 1 else n + k)"
    using inv(3) by (simp add: sequences_def)
  with seq n have "(of_nat (if n \<notin> published s then n else if n \<notin> released s then n + 1 else n + k) :: u64) = of_nat (n + k)"
    by simp
  then have "(if n \<notin> published s then n else if n \<notin> released s then n + 1 else n + k) = n + k"
    using inv(4) n by (subst (asm) of_nat_u64_eq) auto
  with k show ?thesis by (auto simp: free_ticket_def n_def split: if_splits)
qed (simp add: free_ticket_def)

lemma next_published:
  assumes inv: "geometry k (chan s)" "counters k s" "sequences k s" "length (sent s) < 2 ^ 62"
    and seq: "seq_of (chan s) (taken s mod k) = of_nat (taken s + 1)"
  shows "taken s \<in> published s"
proof -
  have k: "2 \<le> k" "k \<le> 2 ^ 31" using inv(1) by (simp_all add: geometry_def)
  have le: "taken s \<le> length (sent s)" "length (sent s) \<le> taken s + k"
    using inv(2) last_ticket [OF inv(2), of "taken s"] by (auto simp: counters_def)
  show ?thesis
  proof (cases "taken s < length (sent s)")
    case True
    with le inv(3) have "seq_of (chan s) (taken s mod k) =
      of_nat (if taken s \<notin> published s then taken s else if taken s \<notin> released s then taken s + 1 else taken s + k)"
      by (simp add: sequences_def)
    with seq have "(of_nat (taken s + 1) :: u64) =
      of_nat (if taken s \<notin> published s then taken s else if taken s \<notin> released s then taken s + 1 else taken s + k)" by simp
    then have "taken s + 1 = (if taken s \<notin> published s then taken s else if taken s \<notin> released s then taken s + 1 else taken s + k)"
      using inv(4) le k by (subst (asm) of_nat_u64_eq) auto
    then show ?thesis by (auto split: if_splits)
  next
    case False
    with le have e: "taken s = length (sent s)" by simp
    show ?thesis
    proof (cases "taken s < k")
      case True
      with e inv(3) have "seq_of (chan s) (taken s mod k) = of_nat (taken s)" by (simp add: sequences_def)
      with seq have "(of_nat (taken s + 1) :: u64) = of_nat (taken s)" by simp
      then have "taken s + 1 = taken s" using inv(4) e by (subst (asm) of_nat_u64_eq) auto
      then show ?thesis by simp
    next
      case F: False
      define n where "n = taken s - k"
      then have n: "n < length (sent s)" "taken s = n + k" using k F e by auto
      then have "seq_of (chan s) (n mod k) = of_nat (if n \<notin> published s then n else if n \<notin> released s then n + 1 else n + k)"
        using inv(3) e by (simp add: sequences_def)
      with seq n have "(of_nat (if n \<notin> published s then n else if n \<notin> released s then n + 1 else n + k) :: u64) = of_nat (n + k + 1)"
        by simp
      then have "(if n \<notin> published s then n else if n \<notin> released s then n + 1 else n + k) = n + k + 1"
        using inv(4) n e k by (subst (asm) of_nat_u64_eq) auto
      then show ?thesis using k by (auto split: if_splits)
    qed
  qed
qed


subsection \<open>Every step keeps the invariant\<close>

lemma tickets_unique:
  assumes "owners f" "t \<noteq> u"
  shows "send_ticket (f t) = Some p \<Longrightarrow> send_ticket (f u) = Some q \<Longrightarrow> unat p \<noteq> unat q"
    "recv_ticket (f t) = Some p \<Longrightarrow> recv_ticket (f u) = Some q \<Longrightarrow> unat p \<noteq> unat q"
  using assms unfolding owners_def by (metis unsigned_word_eqI)+

lemma owners_update:
  assumes "owners f" "\<And>u. u \<noteq> t \<Longrightarrow> send_ticket p' = None \<or> send_ticket (f u) \<noteq> send_ticket p'"
    "\<And>u. u \<noteq> t \<Longrightarrow> recv_ticket p' = None \<or> recv_ticket (f u) \<noteq> recv_ticket p'"
  shows "owners (f(t := p'))"
  using assms by (fastforce simp: owners_def)

lemma owners_keep:
  assumes "owners f" "send_ticket p' = None \<or> send_ticket p' = send_ticket (f t)" "recv_ticket p' = None \<or> recv_ticket p' = recv_ticket (f t)"
  shows "owners (f(t := p'))"
  by (rule owners_update [OF assms(1)]) (use assms in \<open>metis option.exhaust owners_def\<close>)+

definition same_queue :: "channel \<Rightarrow> channel \<Rightarrow> bool" where
  "same_queue c c' \<longleftrightarrow> chan_capacity c' = chan_capacity c \<and> chan_mask c' = chan_mask c \<and> chan_buffer c' = chan_buffer c \<and>
     enqueue_pos c' = enqueue_pos c \<and> dequeue_pos c' = dequeue_pos c"

lemma inv_frame:
  assumes "chan_inv k s" "same_queue (chan s) c'" "thread_ok k s p'"
    "send_ticket p' = None \<or> send_ticket p' = send_ticket (pcs s t)" "recv_ticket p' = None \<or> recv_ticket p' = recv_ticket (pcs s t)"
  shows "chan_inv k (s\<lparr>chan := c', pcs := (pcs s)(t := p')\<rparr>)"
proof -
  have same: "val_of c' = val_of (chan s)" "seq_of c' = seq_of (chan s)"
    using assms(2) by (auto simp: same_queue_def val_of_def seq_of_def)
  have "thread_ok k (s\<lparr>chan := c', pcs := q\<rparr>) p = thread_ok k s p" for q p
    by (simp add: thread_ok_def same free_ticket_def split: pc.split)
  with assms owners_keep [of "pcs s" p' t] show ?thesis
    by (simp add: chan_inv_def geometry_def counters_def sequences_def receipts_def waiting_def same_queue_def same)
qed

lemma others_ok:
  assumes "\<And>u. u \<noteq> t \<Longrightarrow> thread_ok k s' (pcs s u)" "thread_ok k s' p'" "pcs s' = (pcs s)(t := p')"
  shows "\<forall>u. thread_ok k s' (pcs s' u)"
  using assms by simp

lemma free_seq:
  assumes "geometry k (chan s)" "counters k s" "sequences k s" "free_ticket k s (length (sent s))"
  shows "seq_of (chan s) (length (sent s) mod k) = of_nat (length (sent s))"
proof (cases "length (sent s) < k")
  case True
  with assms(3) show ?thesis by (simp add: sequences_def)
next
  case False
  define n where "n = length (sent s) - k"
  have "0 < k" using assms(1) by (simp add: geometry_def)
  then have n: "n < length (sent s)" "length (sent s) = n + k" using False by (auto simp: n_def)
  then have "n \<in> released s" using assms(4) \<open>0 < k\<close> by (auto simp: free_ticket_def)
  moreover from this have "n \<in> published s" using assms(2) by (auto simp: counters_def)
  moreover have "length (sent s) \<le> n + k" "length (sent s) mod k = n mod k" using n by simp_all
  ultimately have "seq_of (chan s) (length (sent s) mod k) = of_nat (n + k)"
    using assms(3) n(1) unfolding sequences_def by presburger
  with n(2) show ?thesis by metis
qed

lemma inv_send_cas:
  assumes inv: "chan_inv k s" and B: "length (sent s) < 2 ^ 62"
    and p: "pcs s t = Send_cas v pos" "enqueue_pos (chan s) = pos"
  shows "chan_inv k (s\<lparr>chan := (chan s)\<lparr>enqueue_pos := pos + 1\<rparr>, pcs := (pcs s)(t := Send_value v pos), sent := sent s @ [v]\<rparr>)"
proof -
  let ?s = "s\<lparr>chan := (chan s)\<lparr>enqueue_pos := pos + 1\<rparr>, pcs := (pcs s)(t := Send_value v pos), sent := sent s @ [v]\<rparr>"
  from inv have I: "geometry k (chan s)" "counters k s" "sequences k s" "receipts s" "waiting k s" "owners (pcs s)" "\<And>u. thread_ok k s (pcs s u)"
    by (auto simp: chan_inv_def)
  have pos: "unat pos = length (sent s)" using I(2) p B by (simp add: counters_def unat_u64)
  have free: "free_ticket k s (length (sent s))" using I(7) [of t] p pos by (simp add: thread_ok_def)
  have k: "2 \<le> k" using I(1) by (simp add: geometry_def)
  have same: "val_of ((chan s)\<lparr>enqueue_pos := pos + 1\<rparr>) = val_of (chan s)"
    "seq_of ((chan s)\<lparr>enqueue_pos := pos + 1\<rparr>) = seq_of (chan s)" by (auto simp: val_of_def seq_of_def)
  have "geometry k (chan ?s)" using I(1) by (simp add: geometry_def)
  moreover have "counters k ?s"
    using I(2) free p k by (auto simp: counters_def free_ticket_def less_Suc_eq) (metis diff_add_inverse2)
  moreover have "sequences k ?s"
  proof -
    have "seq_of (chan s) (length (sent s) mod k) = of_nat (length (sent s))"
      by (rule free_seq [OF I(1-3) free])
    moreover have "length (sent s) \<notin> published s" using I(2) by (auto simp: counters_def)
    ultimately show ?thesis using I(3) by (auto simp: sequences_def same less_Suc_eq)
  qed
  moreover have "receipts ?s"
    using I(2,4) by (fastforce simp: receipts_def counters_def nth_append)
  moreover have "waiting k ?s"
    using I(2,5) by (auto simp: waiting_def counters_def same nth_append)
  moreover have "owners (pcs ?s)"
  proof -
    have "send_ticket (pcs s u) \<noteq> Some pos" for u
      using I(7) [of u] pos by (auto simp: thread_ok_def send_ticket_def split: pc.splits)
    with owners_update [OF I(6), of t "Send_value v pos"] show ?thesis by (simp add: send_ticket_def recv_ticket_def)
  qed
  moreover have "\<forall>u. thread_ok k ?s (pcs ?s u)"
  proof (rule others_ok)
    fix u
    show "thread_ok k ?s (pcs s u)"
      using I(7) [of u] I(2) by (auto simp: thread_ok_def same nth_append free_ticket_def counters_def split: pc.splits)
    show "thread_ok k ?s (Send_value v pos)"
      using I(2) pos by (auto simp: thread_ok_def counters_def nth_append)
  qed simp
  ultimately show ?thesis by (simp add: chan_inv_def)
qed


lemma same_slot:
  assumes "counters k s" "n < length (sent s)" "n' < length (sent s)" "n \<notin> released s" "n' \<notin> released s" "n mod k = n' mod k"
  shows "n = n'"
  using ticket_of_slot [OF assms(1,4,2,3,6)] ticket_of_slot [OF assms(1,5,3,2)] assms(6) by simp

lemma inv_send_value:
  assumes inv: "chan_inv k s" and p: "pcs s t = Send_value v pos"
  shows "chan_inv k (s\<lparr>chan := set_value pos (Some v) (chan s), pcs := (pcs s)(t := Send_publish pos)\<rparr>)"
proof -
  let ?s = "s\<lparr>chan := set_value pos (Some v) (chan s), pcs := (pcs s)(t := Send_publish pos)\<rparr>"
  from inv have I: "geometry k (chan s)" "counters k s" "sequences k s" "receipts s" "waiting k s" "owners (pcs s)" "\<And>u. thread_ok k s (pcs s u)"
    by (auto simp: chan_inv_def)
  have k: "0 < k" using I(1) by (simp add: geometry_def)
  have pos: "unat pos < length (sent s)" "unat pos \<notin> published s" "sent s ! unat pos = v" "unat pos \<notin> released s"
    using I(2) I(7) [of t] p by (auto simp: thread_ok_def counters_def)
  have val: "val_of (set_value pos (Some v) (chan s)) (n mod k) = (if n mod k = unat pos mod k then Some v else val_of (chan s) (n mod k))" for n
    using I(1) k by (simp add: slots_set)
  have "geometry k (chan ?s)" "counters k ?s" "receipts ?s" using I(1,2,4) by (simp_all add: counters_def receipts_def)
  moreover have "sequences k ?s" using I(1,3) k by (simp add: sequences_def slots_set)
  moreover have "waiting k ?s"
    unfolding waiting_def
  proof (intro ballI impI)
    fix n assume n: "n \<in> published ?s" "taken ?s \<le> n"
    then have "n \<noteq> unat pos" "n < length (sent s)" "n \<notin> released s" using I(2) pos(2) by (auto simp: counters_def)
    with same_slot [OF I(2) _ pos(1) _ pos(4)] have "n mod k \<noteq> unat pos mod k" by blast
    with I(5) n show "val_of (chan ?s) (n mod k) = Some (sent ?s ! n)" by (simp add: waiting_def val)
  qed
  moreover have "owners (pcs ?s)"
    using owners_keep [OF I(6), of "Send_publish pos" t] p by (simp add: send_ticket_def recv_ticket_def)
  moreover have "\<forall>u. thread_ok k ?s (pcs ?s u)"
  proof (rule others_ok)
    fix u assume "u \<noteq> t"
    with tickets_unique(1) [OF I(6) this, of _ pos] p
    have own: "send_ticket (pcs s u) = Some q \<Longrightarrow> unat q \<noteq> unat pos" for q by (simp add: send_ticket_def)
    have same: "n < length (sent s) \<Longrightarrow> n \<notin> released s \<Longrightarrow> n mod k = unat pos mod k \<Longrightarrow> n = unat pos" for n
      using same_slot [OF I(2) _ pos(1) _ pos(4)] .
    show "thread_ok k ?s (pcs s u)"
    proof (cases "pcs s u")
      case (Send_publish q)
      then show ?thesis using I(7) [of u] I(2) own [of q] same [of "unat q"]
        by (auto simp: thread_ok_def val send_ticket_def counters_def)
    next
      case (Recv_value q)
      then show ?thesis using I(7) [of u] I(2) pos same [of "unat q"]
        by (auto simp: thread_ok_def val counters_def)
    qed (use I(7) [of u] in \<open>simp_all add: thread_ok_def free_ticket_def\<close>)
  next
    show "thread_ok k ?s (Send_publish pos)" using pos by (simp add: thread_ok_def val)
  qed simp
  ultimately show ?thesis by (simp add: chan_inv_def)
qed


lemma slot_window:
  assumes "geometry k (chan s)" "counters k s" "unat pos < length (sent s)" "unat pos \<notin> released s"
  shows "n < length (sent s) \<Longrightarrow> length (sent s) \<le> n + k \<Longrightarrow>
      seq_of (set_seq pos q (chan s)) (n mod k) = (if n = unat pos then q else seq_of (chan s) (n mod k))"
    "i < k \<Longrightarrow> length (sent s) \<le> i \<Longrightarrow> seq_of (set_seq pos q (chan s)) i = seq_of (chan s) i"
proof -
  have k: "0 < k" using assms(1) by (simp add: geometry_def)
  assume n: "n < length (sent s)" "length (sent s) \<le> n + k"
  have "n = unat pos" if e: "n mod k = unat pos mod k"
  proof (rule ccontr)
    assume "n \<noteq> unat pos"
    then consider "n < unat pos" | "unat pos < n" by linarith
    then show False
      using congruent_gap [OF e] congruent_gap [OF e [symmetric]] last_ticket [OF assms(2,4)] n assms(3) by cases linarith+
  qed
  with assms(1) k show "seq_of (set_seq pos q (chan s)) (n mod k) = (if n = unat pos then q else seq_of (chan s) (n mod k))"
    by (auto simp: slots_set)
next
  assume "i < k" "length (sent s) \<le> i"
  moreover from this have "unat pos mod k = unat pos" using assms(3) by simp
  ultimately show "seq_of (set_seq pos q (chan s)) i = seq_of (chan s) i" using assms(1,3) by (simp add: slots_set)
qed

lemma inv_send_publish:
  assumes inv: "chan_inv k s" and p: "pcs s t = Send_publish pos"
  shows "chan_inv k (s\<lparr>chan := set_seq pos (pos + 1) (chan s), pcs := (pcs s)(t := Send_count),
    published := insert (unat pos) (published s)\<rparr>)"
proof -
  let ?c = "set_seq pos (pos + 1) (chan s)"
  let ?s = "s\<lparr>chan := ?c, pcs := (pcs s)(t := Send_count), published := insert (unat pos) (published s)\<rparr>"
  from inv have I: "geometry k (chan s)" "counters k s" "sequences k s" "receipts s" "waiting k s" "owners (pcs s)" "\<And>u. thread_ok k s (pcs s u)"
    by (auto simp: chan_inv_def)
  have k: "0 < k" using I(1) by (simp add: geometry_def)
  have pos: "unat pos < length (sent s)" "unat pos \<notin> published s" "val_of (chan s) (unat pos mod k) = Some (sent s ! unat pos)"
    "unat pos \<notin> released s"
    using I(2) I(7) [of t] p by (auto simp: thread_ok_def counters_def)
  have val: "val_of ?c (n mod k) = val_of (chan s) (n mod k)" for n using I(1) k by (simp add: slots_set)
  have "geometry k ?c" "counters k ?s" "receipts ?s" using I(1,2,4) pos by (auto simp: counters_def receipts_def)
  moreover have "sequences k ?s"
    using I(3) pos slot_window [OF I(1,2) pos(1,4)] unfolding sequences_def by simp
  moreover have "waiting k ?s" using I(5) pos(3) by (simp add: waiting_def val)
  moreover have "owners (pcs ?s)"
    using owners_keep [OF I(6), of Send_count t] by (simp add: send_ticket_def recv_ticket_def)
  moreover have "\<forall>u. thread_ok k ?s (pcs ?s u)"
  proof (rule others_ok)
    fix u assume "u \<noteq> t"
    with tickets_unique(1) [OF I(6) this, of _ pos] p
    have own: "send_ticket (pcs s u) = Some q \<Longrightarrow> unat q \<noteq> unat pos" for q by (simp add: send_ticket_def)
    show "thread_ok k ?s (pcs s u)"
      using I(7) [of u] own by (auto simp: thread_ok_def val send_ticket_def free_ticket_def split: pc.splits)
  qed (simp_all add: thread_ok_def)
  ultimately show ?thesis by (simp add: chan_inv_def)
qed


lemma inv_recv_cas:
  assumes inv: "chan_inv k s" and B: "length (sent s) < 2 ^ 62"
    and p: "pcs s t = Recv_cas pos" "dequeue_pos (chan s) = pos"
  shows "chan_inv k (s\<lparr>chan := (chan s)\<lparr>dequeue_pos := pos + 1\<rparr>, pcs := (pcs s)(t := Recv_value pos), taken := taken s + 1\<rparr>)"
proof -
  let ?c = "(chan s)\<lparr>dequeue_pos := pos + 1\<rparr>"
  let ?s = "s\<lparr>chan := ?c, pcs := (pcs s)(t := Recv_value pos), taken := taken s + 1\<rparr>"
  from inv have I: "geometry k (chan s)" "counters k s" "sequences k s" "receipts s" "waiting k s" "owners (pcs s)" "\<And>u. thread_ok k s (pcs s u)"
    by (auto simp: chan_inv_def)
  have pos: "unat pos = taken s" using I(2) p B by (simp add: counters_def unat_u64)
  have pub: "taken s \<in> published s" using I(7) [of t] p pos by (simp add: thread_ok_def)
  then have lt: "taken s < length (sent s)" using I(2) by (auto simp: counters_def)
  have same: "val_of ?c = val_of (chan s)" "seq_of ?c = seq_of (chan s)" by (auto simp: val_of_def seq_of_def)
  have "geometry k ?c" using I(1) by (simp add: geometry_def)
  moreover have "counters k ?s" using I(2) pub lt p by (auto simp: counters_def less_Suc_eq)
  moreover have "sequences k ?s" using I(3) by (simp add: sequences_def same)
  moreover have "receipts ?s" using I(4) by (force simp: receipts_def)
  moreover have "waiting k ?s" using I(5) by (simp add: waiting_def same)
  moreover have "owners (pcs ?s)"
  proof -
    have "recv_ticket (pcs s u) \<noteq> Some pos" for u
      using I(7) [of u] pos by (auto simp: thread_ok_def recv_ticket_def split: pc.splits)
    with owners_update [OF I(6), of t "Recv_value pos"] show ?thesis by (simp add: send_ticket_def recv_ticket_def)
  qed
  moreover have "\<forall>u. thread_ok k ?s (pcs ?s u)"
  proof (rule others_ok)
    fix u
    show "thread_ok k ?s (pcs s u)"
      using I(7) [of u] by (auto simp: thread_ok_def same free_ticket_def split: pc.splits)
  next
    have "taken s \<notin> fst ` set (got s)" using I(4) by (auto simp: receipts_def)
    moreover have "taken s \<notin> released s" using I(2) by (auto simp: counters_def)
    ultimately show "thread_ok k ?s (Recv_value pos)"
      using I(5) pos pub by (simp add: thread_ok_def same waiting_def)
  qed simp
  ultimately show ?thesis by (simp add: chan_inv_def)
qed

lemma inv_recv_value:
  assumes inv: "chan_inv k s" and p: "pcs s t = Recv_value pos"
  defines "v \<equiv> slot_value (slot_at (chan s) pos)"
  shows "chan_inv k (s\<lparr>pcs := (pcs s)(t := Recv_clear pos v), got := got s @ [(unat pos, v)]\<rparr>)"
proof -
  let ?s = "s\<lparr>pcs := (pcs s)(t := Recv_clear pos v), got := got s @ [(unat pos, v)]\<rparr>"
  from inv have I: "geometry k (chan s)" "counters k s" "sequences k s" "receipts s" "waiting k s" "owners (pcs s)" "\<And>u. thread_ok k s (pcs s u)"
    by (auto simp: chan_inv_def)
  have pos: "unat pos < taken s" "unat pos \<notin> released s" "unat pos \<notin> fst ` set (got s)" "v = Some (sent s ! unat pos)"
    using I(7) [of t] p by (simp_all add: thread_ok_def v_def slot_at_ticket [OF I(1)])
  have "counters k ?s" "sequences k ?s" "waiting k ?s" using I by (simp_all add: counters_def sequences_def waiting_def)
  moreover have "receipts ?s" using I(4) pos by (auto simp: receipts_def)
  moreover have "owners (pcs ?s)"
    using owners_keep [OF I(6), of "Recv_clear pos v" t] p by (simp add: send_ticket_def recv_ticket_def)
  moreover have "\<forall>u. thread_ok k ?s (pcs ?s u)"
  proof (rule others_ok)
    fix u assume "u \<noteq> t"
    with tickets_unique(2) [OF I(6) this, of _ pos] p
    have own: "recv_ticket (pcs s u) = Some q \<Longrightarrow> unat q \<noteq> unat pos" for q by (simp add: recv_ticket_def)
    show "thread_ok k ?s (pcs s u)"
      using I(7) [of u] own by (auto simp: thread_ok_def recv_ticket_def free_ticket_def split: pc.splits)
  next
    show "thread_ok k ?s (Recv_clear pos v)" using pos by (simp add: thread_ok_def)
  qed simp
  ultimately show ?thesis using I(1) by (simp add: chan_inv_def)
qed

lemma inv_recv_clear:
  assumes inv: "chan_inv k s" and p: "pcs s t = Recv_clear pos v"
  shows "chan_inv k (s\<lparr>chan := set_value pos None (chan s), pcs := (pcs s)(t := Recv_release pos v)\<rparr>)"
proof -
  let ?c = "set_value pos None (chan s)"
  let ?s = "s\<lparr>chan := ?c, pcs := (pcs s)(t := Recv_release pos v)\<rparr>"
  from inv have I: "geometry k (chan s)" "counters k s" "sequences k s" "receipts s" "waiting k s" "owners (pcs s)" "\<And>u. thread_ok k s (pcs s u)"
    by (auto simp: chan_inv_def)
  have k: "0 < k" using I(1) by (simp add: geometry_def)
  have pos: "unat pos < taken s" "unat pos \<notin> released s" "unat pos < length (sent s)" "unat pos \<in> published s"
    using I(2) I(7) [of t] p by (auto simp: thread_ok_def counters_def)
  have val: "val_of ?c (n mod k) = (if n mod k = unat pos mod k then None else val_of (chan s) (n mod k))" for n
    using I(1) k by (simp add: slots_set)
  have same: "n < length (sent s) \<Longrightarrow> n \<notin> released s \<Longrightarrow> n mod k = unat pos mod k \<Longrightarrow> n = unat pos" for n
    using same_slot [OF I(2) _ pos(3) _ pos(2)] .
  have "geometry k ?c" "counters k ?s" "receipts ?s" using I(1,2,4) by (simp_all add: counters_def receipts_def)
  moreover have "sequences k ?s" using I(1,3) k by (simp add: sequences_def slots_set)
  moreover have "waiting k ?s"
    unfolding waiting_def
  proof (intro ballI impI)
    fix n assume n: "n \<in> published ?s" "taken ?s \<le> n"
    then have "n \<noteq> unat pos" "n < length (sent s)" "n \<notin> released s" using I(2) pos(1) by (auto simp: counters_def)
    with same have "n mod k \<noteq> unat pos mod k" by blast
    with I(5) n show "val_of (chan ?s) (n mod k) = Some (sent ?s ! n)" by (simp add: waiting_def val)
  qed
  moreover have "owners (pcs ?s)"
    using owners_keep [OF I(6), of "Recv_release pos v" t] p by (simp add: send_ticket_def recv_ticket_def)
  moreover have "\<forall>u. thread_ok k ?s (pcs ?s u)"
  proof (rule others_ok)
    fix u assume "u \<noteq> t"
    with tickets_unique(2) [OF I(6) this, of _ pos] p
    have own: "recv_ticket (pcs s u) = Some q \<Longrightarrow> unat q \<noteq> unat pos" for q by (simp add: recv_ticket_def)
    show "thread_ok k ?s (pcs s u)"
    proof (cases "pcs s u")
      case (Send_publish q)
      moreover have "unat q \<notin> published s \<Longrightarrow> unat q \<notin> released s" using I(2) by (auto simp: counters_def)
      ultimately show ?thesis using I(7) [of u] pos same [of "unat q"] by (auto simp: thread_ok_def val)
    next
      case (Recv_value q)
      then show ?thesis using I(7) [of u] I(2) own [of q] same [of "unat q"]
        by (auto simp: thread_ok_def val recv_ticket_def counters_def)
    qed (use I(7) [of u] in \<open>simp_all add: thread_ok_def free_ticket_def\<close>)
  next
    show "thread_ok k ?s (Recv_release pos v)" using pos by (simp add: thread_ok_def)
  qed simp
  ultimately show ?thesis by (simp add: chan_inv_def)
qed

lemma inv_recv_release:
  assumes inv: "chan_inv k s" and p: "pcs s t = Recv_release pos v"
  shows "chan_inv k (s\<lparr>chan := set_seq pos (pos + ucast (chan_capacity (chan s))) (chan s), pcs := (pcs s)(t := Recv_count v),
    released := insert (unat pos) (released s)\<rparr>)"
proof -
  let ?c = "set_seq pos (pos + ucast (chan_capacity (chan s))) (chan s)"
  let ?s = "s\<lparr>chan := ?c, pcs := (pcs s)(t := Recv_count v), released := insert (unat pos) (released s)\<rparr>"
  from inv have I: "geometry k (chan s)" "counters k s" "sequences k s" "receipts s" "waiting k s" "owners (pcs s)" "\<And>u. thread_ok k s (pcs s u)"
    by (auto simp: chan_inv_def)
  have k: "0 < k" using I(1) by (simp add: geometry_def)
  have pos: "unat pos < taken s" "unat pos \<notin> released s" "unat pos < length (sent s)" "unat pos \<in> published s"
    using I(2) I(7) [of t] p by (auto simp: thread_ok_def counters_def)
  have val: "val_of ?c (n mod k) = val_of (chan s) (n mod k)" for n using I(1) k by (simp add: slots_set)
  have cap: "(ucast (chan_capacity (chan s)) :: u64) = of_nat k" using I(1) by (auto simp: geometry_def)
  have "geometry k ?c" "counters k ?s" "receipts ?s" using I(1,2,4) pos by (auto simp: counters_def receipts_def)
  moreover have "sequences k ?s"
    using I(3) pos slot_window [OF I(1,2) pos(3,2)] unfolding sequences_def by (simp add: cap)
  moreover have "waiting k ?s" using I(5) by (simp add: waiting_def val)
  moreover have "owners (pcs ?s)"
    using owners_keep [OF I(6), of "Recv_count v" t] by (simp add: send_ticket_def recv_ticket_def)
  moreover have "\<forall>u. thread_ok k ?s (pcs ?s u)"
  proof (rule others_ok)
    fix u assume "u \<noteq> t"
    with tickets_unique(2) [OF I(6) this, of _ pos] p
    have own: "recv_ticket (pcs s u) = Some q \<Longrightarrow> unat q \<noteq> unat pos" for q by (simp add: recv_ticket_def)
    show "thread_ok k ?s (pcs s u)"
      using I(7) [of u] own by (auto simp: thread_ok_def val recv_ticket_def free_ticket_def split: pc.splits)
  qed (simp_all add: thread_ok_def)
  ultimately show ?thesis by (simp add: chan_inv_def)
qed


lemma inv_move:
  assumes inv: "chan_inv k s" and B: "length (sent s) < 2 ^ 62"
    and step: "chan_step spurious (pcs s t) (chan s) = Some (p', c', w)"
  shows "chan_inv k (note_step (pcs s t) p' (s\<lparr>chan := c', pcs := (pcs s)(t := p')\<rparr>))"
proof -
  from inv have I: "geometry k (chan s)" "counters k s" "sequences k s" "thread_ok k s (pcs s t)"
    by (auto simp: chan_inv_def)
  have enq: "unat (enqueue_pos (chan s)) = length (sent s)" and deq: "unat (dequeue_pos (chan s)) = taken s"
    using I(2) B by (auto simp: counters_def unat_u64)
  note simps = chan_step_def close_step_def note_step_def same_queue_def send_ticket_def recv_ticket_def Let_def
  show ?thesis
  proof (cases "pcs s t")
    case (Send_seq v pos)
    have "unat pos < length (sent s) \<or> unat pos = length (sent s) \<and> free_ticket k s (unat pos)"
      if "unat pos \<le> length (sent s)" "seq_diff (chan s) pos pos = 0"
    proof -
      have "pos = of_nat (length (sent s))" if "unat pos = length (sent s)" unfolding that [symmetric] by simp
      with that next_free [OF I(1-3) B] show ?thesis
        unfolding seq_diff_zero slot_at_ticket [OF I(1)] by (metis le_neq_implies_less)
    qed
    with Send_seq step I(4) inv_frame [OF inv, of c' p' t] show ?thesis
      by (auto simp: simps thread_ok_def split: if_splits)
  next
    case (Send_cas v pos)
    with step inv_frame [OF inv, of c' p' t] inv_send_cas [OF inv B Send_cas] show ?thesis
      by (auto simp: simps thread_ok_def enq split: if_splits)
  next
    case (Send_value v pos)
    with step inv_send_value [OF inv Send_value] show ?thesis by (auto simp: simps)
  next
    case (Send_publish pos)
    with step inv_send_publish [OF inv Send_publish] show ?thesis by (auto simp: simps)
  next
    case (Recv_seq pos)
    have "unat pos < taken s \<or> unat pos = taken s \<and> unat pos \<in> published s"
      if "unat pos \<le> taken s" "seq_diff (chan s) pos (pos + 1) = 0"
    proof -
      have "pos = of_nat (taken s)" if "unat pos = taken s" unfolding that [symmetric] by simp
      with that next_published [OF I(1-3) B] show ?thesis
        unfolding seq_diff_zero slot_at_ticket [OF I(1)] by (metis le_neq_implies_less of_nat_1 of_nat_add)
    qed
    with Recv_seq step I(4) inv_frame [OF inv, of c' p' t] show ?thesis
      by (auto simp: simps thread_ok_def split: if_splits)
  next
    case (Recv_cas pos)
    with step inv_frame [OF inv, of c' p' t] inv_recv_cas [OF inv B Recv_cas] show ?thesis
      by (auto simp: simps thread_ok_def deq split: if_splits)
  next
    case (Recv_value pos)
    with step inv_recv_value [OF inv Recv_value] show ?thesis by (auto simp: simps)
  next
    case (Recv_clear pos v)
    with step inv_recv_clear [OF inv Recv_clear] show ?thesis by (auto simp: simps)
  next
    case (Recv_release pos v)
    with step inv_recv_release [OF inv Recv_release] show ?thesis by (auto simp: simps)
  qed (use step inv_frame [OF inv, of c' p' t] in \<open>auto simp: simps thread_ok_def enq deq split: if_splits\<close>)
qed

lemma inv_other:
  assumes "chan_inv k s" "starts p \<or> p = Idle"
  shows "chan_inv k (s\<lparr>pcs := (pcs s)(t := p)\<rparr>)"
proof -
  have "thread_ok k s p" "send_ticket p = None" "recv_ticket p = None"
    using assms(2) by (auto simp: starts_def thread_ok_def send_ticket_def recv_ticket_def split: pc.splits)
  with inv_frame [OF assms(1), of "chan s" p t] show ?thesis by (simp add: same_queue_def)
qed

lemma sent_mono: "sys_step s s' \<Longrightarrow> length (sent s) \<le> length (sent s')"
  by (induction rule: sys_step.induct) (auto simp: note_step_def split: pc.split)

lemma inv_step:
  assumes "sys_step s s'" "chan_inv k s" "length (sent s') < 2 ^ 62"
  shows "chan_inv k s'"
  using assms
proof (induction rule: sys_step.induct)
  case (call s t p)
  then show ?case by (intro inv_other) simp_all
next
  case (move s t p spurious p' c' w)
  have "length (sent s) < 2 ^ 62" using sent_mono [OF sys_step.move [OF move(1,2)]] move(4) by simp
  with move inv_move [of k s spurious t p' c' w] show ?case by simp
next
  case (return s t)
  then show ?case by (intro inv_other) simp_all
qed

lemma new_channel_geometry:
  assumes "capacity < 2 ^ 31"
  shows "geometry (unat (chan_capacity (new_channel i capacity))) (new_channel i capacity)"
proof -
  define w where "w = (of_int (if capacity \<le> 0 then DEFAULT_CHANNEL_CAPACITY else capacity) :: u32)"
  have "\<exists>n. 0 < n \<and> n < 2 ^ 31 \<and> w = of_nat n"
    using assms by (intro exI [of _ "nat (if capacity \<le> 0 then DEFAULT_CHANNEL_CAPACITY else capacity)"])
      (auto simp: w_def DEFAULT_CHANNEL_CAPACITY_def)
  then obtain n where "0 < n" "n < 2 ^ 31" "unat w = n" by (auto simp: unat_of_nat)
  then have "0 < w" "w \<le> 2 ^ 31" by (auto simp: word_less_nat_alt word_le_nat_alt)
  from next_pow2_is_pow2 [OF this] obtain m where m: "0 < m" "m \<le> 31" "unat (next_pow2 w) = 2 ^ m" by blast
  have "2 \<le> (2 :: nat) ^ m" "(2 :: nat) ^ m \<le> 2 ^ 31"
    using m power_increasing [of 1 m "2 :: nat"] power_increasing [of m 31 "2 :: nat"] by simp_all
  with m show ?thesis by (auto simp: geometry_def new_channel_def Let_def is_pow2_def w_def)
qed

lemma init_inv:
  assumes "capacity < 2 ^ 31"
  shows "chan_inv (unat (chan_capacity (new_channel i capacity))) (init_system (new_channel i capacity))"
proof -
  note g = new_channel_geometry [OF assms, of i]
  have "sequences (unat (chan_capacity (new_channel i capacity))) (init_system (new_channel i capacity))"
    by (simp add: sequences_def init_system_def seq_of_def new_channel_def Let_def)
  with g show ?thesis
    by (simp add: chan_inv_def init_system_def counters_def receipts_def waiting_def owners_def send_ticket_def
        thread_ok_def recv_ticket_def) (simp add: new_channel_def Let_def)
qed

definition capacity_of :: "system \<Rightarrow> nat" where
  "capacity_of s = unat (chan_capacity (chan s))"

lemma reachable_inv:
  assumes "reachable capacity s" "capacity < 2 ^ 31" "length (sent s) < 2 ^ 62"
  shows "chan_inv (capacity_of s) s"
proof -
  have "\<exists>k. chan_inv k s" using assms
  proof (induction rule: reachable.induct)
    case (init i)
    then show ?case using init_inv by blast
  next
    case (step s s')
    then show ?case using inv_step sent_mono by (meson le_less_trans)
  qed
  then obtain k where "chan_inv k s" ..
  moreover from this have "k = capacity_of s" by (simp add: chan_inv_def geometry_def capacity_of_def)
  ultimately show ?thesis by simp
qed


subsection \<open>Nothing is lost\<close>

definition val_ticket :: "pc \<Rightarrow> u64 option" where
  "val_ticket p = (case p of Recv_value pos \<Rightarrow> Some pos | _ \<Rightarrow> None)"

definition one_ticket :: "u64 option \<Rightarrow> nat set" where
  "one_ticket x = (case x of Some pos \<Rightarrow> {unat pos} | None \<Rightarrow> {})"

lemma one_ticket_simps [simp]: "one_ticket None = {}" "one_ticket (Some pos) = {unat pos}"
  by (simp_all add: one_ticket_def)

definition other_tickets :: "nat \<Rightarrow> (pc \<Rightarrow> u64 option) \<Rightarrow> (nat \<Rightarrow> pc) \<Rightarrow> nat set" where
  "other_tickets t g f = (\<Union>u \<in> - {t}. one_ticket (g (f u)))"

definition tickets :: "(pc \<Rightarrow> u64 option) \<Rightarrow> (nat \<Rightarrow> pc) \<Rightarrow> nat set" where
  "tickets g f = (\<Union>t. one_ticket (g (f t)))"

lemma tickets_split: "tickets g f = one_ticket (g (f t)) \<union> other_tickets t g f"
  by (auto simp: tickets_def other_tickets_def)

lemma other_tickets_update [simp]: "other_tickets t g (f(t := p)) = other_tickets t g f"
  by (auto simp: other_tickets_def)

definition accounted :: "system \<Rightarrow> bool" where
  "accounted s \<longleftrightarrow> {..<length (sent s)} \<subseteq> published s \<union> tickets send_ticket (pcs s) \<and>
     {..<taken s} \<subseteq> released s \<union> tickets recv_ticket (pcs s) \<and>
     {..<taken s} \<subseteq> fst ` set (got s) \<union> tickets val_ticket (pcs s)"

lemma accounted_update:
  assumes "accounted s" "pcs s' = (pcs s)(t := p')"
    "{..<length (sent s')} \<subseteq> {..<length (sent s)} \<union> one_ticket (send_ticket p')"
    "{..<taken s'} \<subseteq> {..<taken s} \<union> one_ticket (recv_ticket p')" "{..<taken s'} \<subseteq> {..<taken s} \<union> one_ticket (val_ticket p')"
    "published s \<union> one_ticket (send_ticket (pcs s t)) \<subseteq> published s' \<union> one_ticket (send_ticket p')"
    "released s \<union> one_ticket (recv_ticket (pcs s t)) \<subseteq> released s' \<union> one_ticket (recv_ticket p')"
    "fst ` set (got s) \<union> one_ticket (val_ticket (pcs s t)) \<subseteq> fst ` set (got s') \<union> one_ticket (val_ticket p')"
  shows "accounted s'"
proof -
  have part: "A \<subseteq> P \<union> (Q \<union> R) \<Longrightarrow> A' \<subseteq> A \<union> N \<Longrightarrow> P \<union> Q \<subseteq> P' \<union> N \<Longrightarrow> A' \<subseteq> P' \<union> (N \<union> R)" for A A' P P' Q N R :: "nat set"
    by blast
  show ?thesis
    using assms(1) part [OF _ assms(3,6)] part [OF _ assms(4,7)] part [OF _ assms(5,8)]
    unfolding accounted_def assms(2) tickets_split [of _ _ t] fun_upd_same other_tickets_update by metis
qed

lemma accounted_step:
  assumes "sys_step s s'" "accounted s" "chan_inv k s" "length (sent s') < 2 ^ 62"
  shows "accounted s'"
  using assms
proof (induction rule: sys_step.induct)
  case (call s t p)
  then show ?case
    by (simp add: accounted_def tickets_split [of _ _ t] send_ticket_def recv_ticket_def val_ticket_def) blast
next
  case (move s t p spurious p' c' w)
  have B: "length (sent s) < 2 ^ 62" using sent_mono [OF sys_step.move [OF move(1,2)]] move(5) by simp
  from move(4) have "counters k s" by (simp add: chan_inv_def)
  with B have enq: "unat (enqueue_pos (chan s)) = length (sent s)" and deq: "unat (dequeue_pos (chan s)) = taken s"
    by (auto simp: counters_def unat_u64)
  note simps = chan_step_def close_step_def note_step_def send_ticket_def recv_ticket_def val_ticket_def Let_def
  show ?case
    by (rule accounted_update [OF move(3), of _ t p'])
      (use move(1,2) enq deq in \<open>cases p; auto simp: simps lessThan_Suc split: if_splits\<close>)+
next
  case (return s t)
  then show ?case
    by (auto simp: accounted_def tickets_split [of _ _ t] send_ticket_def recv_ticket_def val_ticket_def finished_def split: pc.splits)
qed

subsection \<open>A channel that no operation is using\<close>

definition chan_holds :: "nat \<Rightarrow> channel \<Rightarrow> tm list \<Rightarrow> bool" where
  "chan_holds b c q \<longleftrightarrow> (\<exists>d k. b = d + length q \<and> k = unat (chan_capacity c) \<and> geometry k c \<and> length q \<le> k \<and>
     dequeue_pos c = of_nat d \<and> enqueue_pos c = of_nat b \<and>
     (\<forall>j < length q. seq_of c ((d + j) mod k) = of_nat (d + j + 1) \<and> val_of c ((d + j) mod k) = Some (q ! j)) \<and>
     (\<forall>j. length q \<le> j \<and> j < k \<longrightarrow> seq_of c ((d + j) mod k) = of_nat (d + j)))"

definition idle :: "system \<Rightarrow> bool" where
  "idle s \<longleftrightarrow> (\<forall>t. pcs s t = Idle \<or> finished (pcs s t))"

lemma idle_tickets: "idle s \<Longrightarrow> tickets send_ticket (pcs s) = {} \<and> tickets recv_ticket (pcs s) = {} \<and> tickets val_ticket (pcs s) = {}"
proof -
  assume "idle s"
  then have "send_ticket (pcs s t) = None \<and> recv_ticket (pcs s t) = None \<and> val_ticket (pcs s t) = None" for t
    by (cases "pcs s t") (auto simp: idle_def finished_def send_ticket_def recv_ticket_def val_ticket_def dest: spec [of _ t])
  then show ?thesis by (simp add: tickets_def)
qed

lemma reachable_accounted:
  assumes "reachable capacity s" "capacity < 2 ^ 31" "length (sent s) < 2 ^ 62"
  shows "accounted s"
  using assms
proof (induction rule: reachable.induct)
  case (init i)
  then show ?case by (simp add: accounted_def init_system_def)
next
  case (step s s')
  have "length (sent s) < 2 ^ 62" using sent_mono [OF step.hyps(2)] step.prems by simp
  with step accounted_step [OF step.hyps(2) _ reachable_inv [OF step.hyps(1)]] show ?case by simp
qed

lemma idle_holds:
  assumes "chan_inv k s" "accounted s" "idle s" "k = capacity_of s"
  shows "chan_holds (length (sent s)) (chan s) (drop (taken s) (sent s))"
proof -
  from assms(1) have I: "geometry k (chan s)" "counters k s" "sequences k s" "waiting k s" by (auto simp: chan_inv_def)
  let ?E = "length (sent s)" and ?D = "taken s"
  have pub: "published s = {..<?E}" and rel: "released s = {..<?D}"
    using assms(2) I(2) idle_tickets [OF assms(3)] by (auto simp: accounted_def counters_def)
  have le: "?D \<le> ?E" "?E \<le> ?D + k" using I(2) last_ticket [OF I(2), of ?D] by (auto simp: counters_def rel)
  have k: "2 \<le> k" using I(1) by (simp add: geometry_def)
  have used: "seq_of (chan s) ((?D + j) mod k) = of_nat (?D + j + 1) \<and> val_of (chan s) ((?D + j) mod k) = Some (drop ?D (sent s) ! j)"
    if "j < ?E - ?D" for j
    using I(3,4) that le unfolding sequences_def waiting_def pub rel by (auto simp: dest: spec [of _ "?D + j"])
  have free: "seq_of (chan s) ((?D + j) mod k) = of_nat (?D + j)" if "?E - ?D \<le> j" "j < k" for j
  proof (cases "?D + j < k")
    case True
    with I(3) that show ?thesis by (simp add: sequences_def)
  next
    case False
    define n where "n = ?D + j - k"
    have n: "?D + j = n + k" "n < ?D" "?E \<le> n + k" using False that by (simp_all add: n_def)
    then have "seq_of (chan s) (n mod k) = of_nat (n + k)"
      using I(3) le unfolding sequences_def pub rel by (auto dest: spec [of _ n])
    with n(1) show ?thesis by simp
  qed
  show ?thesis
    unfolding chan_holds_def
    by (rule exI [of _ ?D], rule exI [of _ k]) (use I(1,2) le used free assms(4) in \<open>simp add: counters_def capacity_of_def\<close>)
qed

lemma slots_other [simp]:
  "seq_of (c\<lparr>enqueue_pos := x\<rparr>) = seq_of c" "val_of (c\<lparr>enqueue_pos := x\<rparr>) = val_of c"
  "seq_of (c\<lparr>dequeue_pos := x\<rparr>) = seq_of c" "val_of (c\<lparr>dequeue_pos := x\<rparr>) = val_of c"
  "seq_of (c\<lparr>chan_count := n\<rparr>) = seq_of c" "val_of (c\<lparr>chan_count := n\<rparr>) = val_of c"
  "seq_of (c\<lparr>recv_waiter := w\<rparr>) = seq_of c" "val_of (c\<lparr>recv_waiter := w\<rparr>) = val_of c"
  "seq_of (c\<lparr>send_waiter := w\<rparr>) = seq_of c" "val_of (c\<lparr>send_waiter := w\<rparr>) = val_of c"
  "geometry k (c\<lparr>enqueue_pos := x\<rparr>) = geometry k c" "geometry k (c\<lparr>dequeue_pos := x\<rparr>) = geometry k c"
  "geometry k (c\<lparr>chan_count := n\<rparr>) = geometry k c" "geometry k (c\<lparr>recv_waiter := w\<rparr>) = geometry k c"
  "geometry k (c\<lparr>send_waiter := w\<rparr>) = geometry k c"
  by (auto simp: seq_of_def val_of_def geometry_def)

lemma same_fields [simp]:
  "chan_capacity (set_value p v c) = chan_capacity c" "chan_capacity (set_seq p q c) = chan_capacity c"
  "closed (set_value p v c) = closed c" "closed (set_seq p q c) = closed c"
  by (simp_all add: set_value_def set_seq_def)

lemma mod_window:
  fixes a b k :: nat
  assumes "a < k" "b < k"
  shows "(d + a) mod k = (d + b) mod k \<longleftrightarrow> a = b"
  using mod_add_inj [OF assms] by auto

lemma alone_send:
  assumes "chan_holds b c q" "b < 2 ^ 62"
  shows "if closed c \<or> length q = unat (chan_capacity c) then alone 8 (Send_check v) c = (Send_done False, c)
    else \<exists>c'. alone 8 (Send_check v) c = (Send_done True, c') \<and> chan_holds (b + 1) c' (q @ [v]) \<and> closed c' = closed c"
proof -
  from assms(1) obtain d k where h: "b = d + length q" "k = unat (chan_capacity c)" "geometry k c" "length q \<le> k"
    "dequeue_pos c = of_nat d" "enqueue_pos c = of_nat b"
    and used: "\<And>j. j < length q \<Longrightarrow> seq_of c ((d + j) mod k) = of_nat (d + j + 1) \<and> val_of c ((d + j) mod k) = Some (q ! j)"
    and free: "\<And>j. length q \<le> j \<Longrightarrow> j < k \<Longrightarrow> seq_of c ((d + j) mod k) = of_nat (d + j)"
    unfolding chan_holds_def by blast
  have k: "2 \<le> k" "k \<le> 2 ^ 31" using h(3) by (simp_all add: geometry_def)
  have ub: "unat (of_nat b :: u64) = b" using assms(2) by (intro unat_u64) simp
  have alone8: "alone 8 p c = alone (Suc (Suc (Suc (Suc (Suc (Suc (Suc (Suc 0)))))))) p c" for p by (simp add: eval_nat_numeral)
  show ?thesis
  proof (cases "closed c")
    case True
    then show ?thesis by (simp add: alone8 chan_step_def close_step_def)
  next
    case op: False
    show ?thesis
    proof (cases "length q = k")
      case True
      then have "seq_of c (d mod k) = of_nat (d + 1)" using used [of 0] k by simp
      moreover have "b mod k = d mod k" using h(1) True by simp
      ultimately have full: "seq_of c (b mod k) = of_nat (d + 1)" by simp
      have "d + 1 < 2 ^ 63" "b < 2 ^ 63" using h(1) True k assms(2) by simp_all
      note sint = sint_of_nat_u64 [OF this(1)] sint_of_nat_u64 [OF this(2)]
      have "seq_diff c (of_nat b) (of_nat b) < 0"
        unfolding seq_diff_def slot_at_ticket [OF h(3)] ub full sint using h(1) True k by simp
      with op True h(2,6) show ?thesis by (simp add: alone8 chan_step_def close_step_def)
    next
      case False
      with h(4) have room: "length q < k" by simp
      have "seq_of c (b mod k) = of_nat b" using free [of "length q"] room h(1) by simp
      then have zero: "seq_diff c (of_nat b) (of_nat b) = 0" by (simp add: seq_diff_def slot_at_ticket [OF h(3)] ub)
      define c' where "c' = (set_seq (of_nat b) (of_nat b + 1) (set_value (of_nat b) (Some v) (c\<lparr>enqueue_pos := of_nat b + 1\<rparr>)))
        \<lparr>chan_count := chan_count c + 1, recv_waiter := -1\<rparr>"
      have count: "chan_count (set_seq (of_nat b) (of_nat b + 1) (set_value (of_nat b) (Some v) (c\<lparr>enqueue_pos := of_nat b + 1\<rparr>))) = chan_count c"
        by (simp add: set_seq_def set_value_def)
      have "alone 8 (Send_check v) c = (Send_done True, c')"
        using op zero h(6) by (simp add: alone8 chan_step_def close_step_def Let_def c'_def count)
      moreover have "chan_holds (b + 1) c' (q @ [v])"
        unfolding chan_holds_def
      proof (rule exI [of _ d], rule exI [of _ k], intro conjI)
        have g: "geometry k (c\<lparr>enqueue_pos := of_nat b + 1\<rparr>)" "geometry k (set_value (of_nat b) (Some v) (c\<lparr>enqueue_pos := of_nat b + 1\<rparr>))"
          using h(3) by simp_all
        have slot: "seq_of c' ((d + j) mod k) = (if j = length q then of_nat b + 1 else seq_of c ((d + j) mod k))"
          "val_of c' ((d + j) mod k) = (if j = length q then Some v else val_of c ((d + j) mod k))" if "j < k" for j
        proof -
          have "(d + j) mod k = b mod k \<longleftrightarrow> j = length q" using mod_window [OF that room, of d] h(1) by simp
          moreover have "(d + j) mod k < k" using k by simp
          ultimately show "seq_of c' ((d + j) mod k) = (if j = length q then of_nat b + 1 else seq_of c ((d + j) mod k))"
            "val_of c' ((d + j) mod k) = (if j = length q then Some v else val_of c ((d + j) mod k))"
            by (simp_all add: c'_def ub slots_set [OF g(1)] slots_set [OF g(2)])
        qed
        show "\<forall>j < length (q @ [v]). seq_of c' ((d + j) mod k) = of_nat (d + j + 1) \<and> val_of c' ((d + j) mod k) = Some ((q @ [v]) ! j)"
          using used room h(1) by (auto simp: slot less_Suc_eq nth_append)
        show "\<forall>j. length (q @ [v]) \<le> j \<and> j < k \<longrightarrow> seq_of c' ((d + j) mod k) = of_nat (d + j)"
          using free by (auto simp: slot)
      qed (use h room in \<open>simp_all add: c'_def\<close>)
      moreover have "closed c' = closed c" by (simp add: c'_def)
      ultimately show ?thesis using op False h(2) by auto
    qed
  qed
qed


lemma alone_recv:
  assumes "chan_holds b c q" "b < 2 ^ 62"
  shows "case q of
      [] \<Rightarrow> alone 9 Recv_pos c = (Recv_done None, c)
    | x # xs \<Rightarrow> \<exists>c'. alone 9 Recv_pos c = (Recv_done (Some x), c') \<and> chan_holds b c' xs \<and> closed c' = closed c"
proof -
  from assms(1) obtain d k where h: "b = d + length q" "k = unat (chan_capacity c)" "geometry k c" "length q \<le> k"
    "dequeue_pos c = of_nat d" "enqueue_pos c = of_nat b"
    and used: "\<And>j. j < length q \<Longrightarrow> seq_of c ((d + j) mod k) = of_nat (d + j + 1) \<and> val_of c ((d + j) mod k) = Some (q ! j)"
    and free: "\<And>j. length q \<le> j \<Longrightarrow> j < k \<Longrightarrow> seq_of c ((d + j) mod k) = of_nat (d + j)"
    unfolding chan_holds_def by blast
  have k: "2 \<le> k" "0 < k" using h(3) by (simp_all add: geometry_def)
  have ub: "unat (of_nat d :: u64) = d" using assms(2) h(1) by (intro unat_u64) simp
  have alone9: "alone 9 p c = alone (Suc (Suc (Suc (Suc (Suc (Suc (Suc (Suc (Suc 0))))))))) p c" for p by (simp add: eval_nat_numeral)
  have sd: "d + 1 < 2 ^ 63" "d < 2 ^ 63" using h(1) assms(2) by simp_all
  have sint_next: "sint (of_nat d + 1 :: u64) = int (d + 1)" using sint_of_nat_u64 [OF sd(1)] by (simp add: add.commute)
  show ?thesis
  proof (cases q)
    case Nil
    then have "seq_of c (d mod k) = of_nat d" using free [of 0] k by simp
    then have "seq_diff c (of_nat d) (of_nat d + 1) < 0"
      by (simp only: seq_diff_def slot_at_ticket [OF h(3)] ub sint_next sint_of_nat_u64 [OF sd(2)])
    with Nil h(5) show ?thesis by (simp add: alone9 chan_step_def close_step_def)
  next
    case (Cons x xs)
    then have head: "seq_of c (d mod k) = of_nat d + 1" "val_of c (d mod k) = Some x" using used [of 0] by (simp_all add: add.commute)
    then have zero: "seq_diff c (of_nat d) (of_nat d + 1) = 0" by (simp add: seq_diff_def slot_at_ticket [OF h(3)] ub)
    define c1 where "c1 = c\<lparr>dequeue_pos := of_nat d + 1\<rparr>"
    define c2 where "c2 = set_value (of_nat d) None c1"
    define c3 where "c3 = set_seq (of_nat d) (of_nat d + ucast (chan_capacity c)) c2"
    define c' where "c' = c3\<lparr>chan_count := chan_count c - 1, send_waiter := -1\<rparr>"
    have g: "geometry k c1" "geometry k c2" using h(3) by (simp_all add: c1_def c2_def)
    have fields: "slot_value (slot_at c1 (of_nat d)) = Some x" "chan_capacity c2 = chan_capacity c" "chan_count c3 = chan_count c"
      using head slot_at_ticket(2) [OF g(1)]
      by (simp_all add: c1_def c2_def c3_def ub) (simp add: set_seq_def set_value_def)
    have cap: "(ucast (chan_capacity c) :: u64) = of_nat k" using h(2) by simp
    have "alone 9 Recv_pos c = (Recv_done (Some x), c')"
      using zero h(5) fields by (simp add: alone9 chan_step_def close_step_def Let_def c'_def c3_def c2_def flip: c1_def)
    moreover have "chan_holds b c' xs"
      unfolding chan_holds_def
    proof (rule exI [of _ "d + 1"], rule exI [of _ k], intro conjI)
      have slot: "seq_of c' ((d + j) mod k) = (if j = 0 then of_nat (d + k) else seq_of c ((d + j) mod k))"
        "val_of c' ((d + j) mod k) = (if j = 0 then None else val_of c ((d + j) mod k))" if "j < k" for j
        using slots_set [OF g(1)] slots_set [OF g(2)] k that mod_window [OF that k(2), of d]
        by (simp_all add: c'_def c3_def c2_def c1_def ub cap)
      show "\<forall>j < length xs. seq_of c' ((d + 1 + j) mod k) = of_nat (d + 1 + j + 1) \<and> val_of c' ((d + 1 + j) mod k) = Some (xs ! j)"
      proof (intro allI impI)
        fix j assume "j < length xs"
        with used [of "Suc j"] slot [of "Suc j"] h(4) Cons
        show "seq_of c' ((d + 1 + j) mod k) = of_nat (d + 1 + j + 1) \<and> val_of c' ((d + 1 + j) mod k) = Some (xs ! j)" by simp
      qed
      show "\<forall>j. length xs \<le> j \<and> j < k \<longrightarrow> seq_of c' ((d + 1 + j) mod k) = of_nat (d + 1 + j)"
      proof (intro allI impI)
        fix j assume j: "length xs \<le> j \<and> j < k"
        show "seq_of c' ((d + 1 + j) mod k) = of_nat (d + 1 + j)"
        proof (cases "Suc j = k")
          case True
          with slot [of 0] k have "seq_of c' (d mod k) = of_nat (d + k)" by simp
          moreover have "d + 1 + j = d + k" using True by simp
          ultimately show ?thesis by (metis mod_add_self2)
        next
          case False
          with j free [of "Suc j"] slot [of "Suc j"] Cons show ?thesis by simp
        qed
      qed
    qed (use h Cons k in \<open>simp_all add: c'_def c3_def c2_def c1_def\<close>)
    moreover have "closed c' = closed c" by (simp add: c'_def c3_def c2_def c1_def)
    ultimately show ?thesis using Cons by auto
  qed
qed


subsection \<open>Properties\<close>

text \<open>
  C29. First in, first out under any interleaving of any number of threads. In every reachable state
  with fewer than \<open>2 ^ 62\<close> sends, every receiver that has read a value read it at a ticket that no
  other receiver has, and the value is the one that was sent under this ticket, so nothing is
  duplicated, invented or reordered. At most as many tickets as the channel has slots are claimed
  by senders and not given back by receivers, so no value is overwritten.
\<close>

theorem channel_fifo:
  assumes "reachable capacity s" "capacity < 2 ^ 31" "length (sent s) < 2 ^ 62"
  shows "distinct (map fst (got s)) \<and>
    (\<forall>(n, v) \<in> set (got s). n < taken s \<and> v = Some (sent s ! n)) \<and>
    taken s \<le> length (sent s) \<and> length (sent s) \<le> card (released s) + capacity_of s"
proof -
  from reachable_inv [OF assms] have I: "counters (capacity_of s) s" "receipts s" by (auto simp: chan_inv_def)
  have "{..<length (sent s) - capacity_of s} \<subseteq> released s" "finite (released s)"
    using I(1) by (auto simp: counters_def intro: finite_subset [OF _ finite_lessThan])
  from card_mono [OF this(2,1)] have "length (sent s) \<le> card (released s) + capacity_of s" by simp
  with I show ?thesis by (auto simp: counters_def receipts_def)
qed

text \<open>A schedule: at each step a thread starts an operation or goes on.\<close>

primrec play :: "(nat \<times> pc option) list \<Rightarrow> system \<Rightarrow> system" where
  "play [] s = s"
| "play (e # es) s = play es
     (case e of
        (t, Some p) \<Rightarrow> if pcs s t = Idle \<and> starts p then s\<lparr>pcs := (pcs s)(t := p)\<rparr> else s
      | (t, None) \<Rightarrow>
          (case chan_step False (pcs s t) (chan s) of
             Some (p', c', w) \<Rightarrow> note_step (pcs s t) p' (s\<lparr>chan := c', pcs := (pcs s)(t := p')\<rparr>)
           | None \<Rightarrow> s))"

lemma play_reachable: "reachable capacity s \<Longrightarrow> reachable capacity (play es s)"
proof (induction es arbitrary: s)
  case (Cons e es)
  have "reachable capacity (s\<lparr>pcs := (pcs s)(t := p)\<rparr>)" if "pcs s t = Idle \<and> starts p" for t p
    using Cons.prems that by (auto intro: reachable.step sys_step.call)
  moreover have "reachable capacity (note_step (pcs s t) p' (s\<lparr>chan := c', pcs := (pcs s)(t := p')\<rparr>))"
    if "chan_step False (pcs s t) (chan s) = Some (p', c', w)" for t p' c' w
    using Cons.prems that by (auto intro: reachable.step sys_step.move)
  ultimately show ?case using Cons.prems by (auto intro!: Cons.IH split: prod.split option.split)
qed simp

text \<open>
  Two senders claim the tickets 0 and 1, the second one publishes first; a receiver then waits for
  the first one and gets its value.
\<close>

definition overtaking :: "(nat \<times> pc option) list" where
  "overtaking =
     [(0, Some (Send_check (cell_bool True))), (0, None), (0, None), (0, None), (0, None),
      (1, Some (Send_check (cell_bool False))), (1, None), (1, None), (1, None), (1, None), (1, None), (1, None),
      (0, None), (0, None),
      (2, Some Recv_pos), (2, None), (2, None), (2, None), (2, None)]"

theorem channel_fifo_witness:
  "let s = play overtaking (init_system (new_channel 1 2))
   in got s = [(0, Some (cell_bool True))] \<and> sent s ! 0 = cell_bool True"
proof -
  let ?s = "play overtaking (init_system (new_channel 1 2))"
  have s: "got ?s = [(0, Some (cell_bool True))]" "length (sent ?s) = 2"
    by (simp_all add: overtaking_def init_system_def new_channel_def next_pow2_def Let_def chan_step_def close_step_def note_step_def starts_def
        seq_diff_def slot_at_def slot_index_def set_value_def set_seq_def)
  have "reachable 2 ?s" by (rule play_reachable) (rule reachable.init)
  from channel_fifo [OF this] s show ?thesis by (simp add: Let_def)
qed

text \<open>
  C30. A channel that no other thread uses is a bounded queue. In a reachable state in which all
  operations are finished, it holds the values sent and not yet received, in the order of their
  tickets; a send that runs alone is refused exactly if the channel is closed or holds as many values
  as it has slots, and otherwise adds its value at the end; a receive that runs alone reports an empty
  channel or takes the first value. Both end within nine steps.
\<close>

theorem channel_alone:
  assumes "reachable capacity s" "capacity < 2 ^ 31" "length (sent s) < 2 ^ 62" "idle s"
    and q: "q = drop (taken s) (sent s)"
  shows "chan_holds (length (sent s)) (chan s) q \<and>
    (if closed (chan s) \<or> length q = capacity_of s then alone 8 (Send_check v) (chan s) = (Send_done False, chan s)
     else \<exists>c'. alone 8 (Send_check v) (chan s) = (Send_done True, c') \<and> chan_holds (length (sent s) + 1) c' (q @ [v])) \<and>
    (case q of
       [] \<Rightarrow> alone 9 Recv_pos (chan s) = (Recv_done None, chan s)
     | x # xs \<Rightarrow> \<exists>c'. alone 9 Recv_pos (chan s) = (Recv_done (Some x), c') \<and> chan_holds (length (sent s)) c' xs)"
proof -
  have holds: "chan_holds (length (sent s)) (chan s) q"
    unfolding q by (rule idle_holds [OF reachable_inv [OF assms(1-3)] reachable_accounted [OF assms(1-3)] assms(4) refl])
  from alone_send [OF this assms(3), of v] alone_recv [OF this assms(3)] holds show ?thesis
    by (auto simp: capacity_of_def split: list.splits if_splits)
qed

text \<open>A fresh channel of two slots, and one after a send.\<close>

theorem channel_alone_witness:
  "\<exists>c'. alone 8 (Send_check (cell_bool True)) (new_channel 1 2) = (Send_done True, c') \<and> chan_holds 1 c' [cell_bool True]"
proof -
  let ?s = "init_system (new_channel 1 2)"
  have "idle ?s" by (simp add: idle_def init_system_def)
  moreover have "\<not> closed (new_channel 1 2)" "capacity_of ?s \<noteq> 0"
    by (simp_all add: new_channel_def next_pow2_def Let_def init_system_def capacity_of_def)
  ultimately show ?thesis
    using channel_alone [OF reachable.init [of 2 1], of "[]" "cell_bool True"] by (simp add: init_system_def)
qed

end
