(* ===== verification/ActorTables.thy ===== *)
theory ActorTables
  imports Contracts CellOps
begin

section \<open>The tables around the actors\<close>

text \<open>
  The shared tables of \<open>bootstrap/actor.c\<close> that know actors by number only: term storage,
  applications, agents, stages and flows with their registry. Every operation holds the lock of its
  table from beginning to end, so it is one step here. Arrays with a count are lists; removal moves
  the last entry into the gap. Numbers are results as in the source: 0 for success, negative codes
  for failures. The key equality \<open>cell_equal\<close> is an argument, as in the hash tables.
\<close>

definition swap_remove :: "nat \<Rightarrow> 'a list \<Rightarrow> 'a list" where
  "swap_remove i xs = (let ys = butlast xs in if i < length ys then ys[i := last xs] else ys)"

text \<open>The position of the first entry with a property.\<close>

definition position :: "('a \<Rightarrow> bool) \<Rightarrow> 'a list \<Rightarrow> nat option" where
  "position P xs = find (\<lambda>i. P (xs ! i)) [0..<length xs]"

subsection \<open>Entries\<close>

definition entry_get :: "('k \<Rightarrow> 'k \<Rightarrow> bool) \<Rightarrow> 'k \<Rightarrow> ('k \<times> 'v) list \<Rightarrow> 'v option" where
  "entry_get eq k es = map_option snd (find (\<lambda>e. eq (fst e) k) es)"

definition entry_put :: "('k \<Rightarrow> 'k \<Rightarrow> bool) \<Rightarrow> nat \<Rightarrow> 'k \<Rightarrow> 'v \<Rightarrow> ('k \<times> 'v) list \<Rightarrow> ('k \<times> 'v) list option" where
  "entry_put eq limit k v es =
     (case position (\<lambda>e. eq (fst e) k) es of
        Some i \<Rightarrow> Some (es[i := (fst (es ! i), v)])
      | None \<Rightarrow> if limit \<le> length es then None else Some (es @ [(k, v)]))"

subsection \<open>Term storage\<close>

definition MAX_ETS_TABLES :: nat where "MAX_ETS_TABLES = 64"
definition MAX_ETS_ENTRIES :: nat where "MAX_ETS_ENTRIES = 1024"

record ('k, 'v) ets_table =
  ets_name :: string
  ets_owner :: int
  ets_entries :: "('k \<times> 'v) list"
  ets_active :: bool

type_synonym ('k, 'v) ets = "('k, 'v) ets_table list"

definition ets_find :: "string \<Rightarrow> ('k, 'v) ets \<Rightarrow> nat option" where
  "ets_find nm ts = position (\<lambda>t. ets_active t \<and> ets_name t = nm) ts"

definition ets_create :: "string \<Rightarrow> int \<Rightarrow> ('k, 'v) ets \<Rightarrow> int \<times> ('k, 'v) ets" where
  "ets_create nm owner ts =
     (if ets_find nm ts \<noteq> None then (-1, ts)
      else if MAX_ETS_TABLES \<le> length ts then (-2, ts)
      else (0, ts @ [\<lparr>ets_name = nm, ets_owner = owner, ets_entries = [], ets_active = True\<rparr>]))"

definition ets_insert :: "('k \<Rightarrow> 'k \<Rightarrow> bool) \<Rightarrow> string \<Rightarrow> 'k \<Rightarrow> 'v \<Rightarrow> ('k, 'v) ets \<Rightarrow> int \<times> ('k, 'v) ets" where
  "ets_insert eq nm k v ts =
     (case ets_find nm ts of
        None \<Rightarrow> (-1, ts)
      | Some i \<Rightarrow>
          (case entry_put eq MAX_ETS_ENTRIES k v (ets_entries (ts ! i)) of
             None \<Rightarrow> (-2, ts)
           | Some es \<Rightarrow> (0, ts[i := (ts ! i)\<lparr>ets_entries := es\<rparr>])))"

definition ets_lookup :: "('k \<Rightarrow> 'k \<Rightarrow> bool) \<Rightarrow> string \<Rightarrow> 'k \<Rightarrow> ('k, 'v) ets \<Rightarrow> 'v option" where
  "ets_lookup eq nm k ts =
     (case ets_find nm ts of
        None \<Rightarrow> None
      | Some i \<Rightarrow> entry_get eq k (ets_entries (ts ! i)))"

definition ets_delete_key :: "('k \<Rightarrow> 'k \<Rightarrow> bool) \<Rightarrow> string \<Rightarrow> 'k \<Rightarrow> ('k, 'v) ets \<Rightarrow> int \<times> ('k, 'v) ets" where
  "ets_delete_key eq nm k ts =
     (case ets_find nm ts of
        None \<Rightarrow> (-1, ts)
      | Some i \<Rightarrow>
          (case position (\<lambda>e. eq (fst e) k) (ets_entries (ts ! i)) of
             None \<Rightarrow> (-2, ts)
           | Some j \<Rightarrow> (0, ts[i := (ts ! i)\<lparr>ets_entries := swap_remove j (ets_entries (ts ! i))\<rparr>])))"

definition ets_destroy_table :: "('k, 'v) ets_table \<Rightarrow> ('k, 'v) ets_table" where
  "ets_destroy_table t = t\<lparr>ets_name := [], ets_entries := [], ets_active := False\<rparr>"

definition ets_delete_table :: "string \<Rightarrow> ('k, 'v) ets \<Rightarrow> int \<times> ('k, 'v) ets" where
  "ets_delete_table nm ts =
     (case ets_find nm ts of
        None \<Rightarrow> (-1, ts)
      | Some i \<Rightarrow> (0, ts[i := ets_destroy_table (ts ! i)]))"

definition ets_size :: "string \<Rightarrow> ('k, 'v) ets \<Rightarrow> int" where
  "ets_size nm ts = (case ets_find nm ts of None \<Rightarrow> -1 | Some i \<Rightarrow> int (length (ets_entries (ts ! i))))"

definition ets_all :: "string \<Rightarrow> (tm, tm) ets \<Rightarrow> tm option" where
  "ets_all nm ts =
     map_option (\<lambda>i. tm_list (map (\<lambda>(k, v). cell_cons k v) (ets_entries (ts ! i)))) (ets_find nm ts)"

definition ets_destroy_by_owner :: "int \<Rightarrow> ('k, 'v) ets \<Rightarrow> ('k, 'v) ets" where
  "ets_destroy_by_owner actor_id ts =
     map (\<lambda>t. if ets_active t \<and> ets_owner t = actor_id then ets_destroy_table t else t) ts"

definition ets_reset_all :: "('k, 'v) ets \<Rightarrow> ('k, 'v) ets" where
  "ets_reset_all ts = []"

subsection \<open>Applications\<close>

definition MAX_APPLICATIONS :: nat where "MAX_APPLICATIONS = 16"
definition MAX_APP_ENV :: nat where "MAX_APP_ENV = 64"

record ('k, 'v) application =
  app_name :: string
  app_supervisor :: int
  app_stop_fn :: "'v option"
  app_env :: "('k \<times> 'v) list"
  app_running :: bool

type_synonym ('k, 'v) applications = "('k, 'v) application list"

definition app_find :: "string \<Rightarrow> ('k, 'v) applications \<Rightarrow> nat option" where
  "app_find nm apps = position (\<lambda>a. app_running a \<and> app_name a = nm) apps"

definition app_start :: "string \<Rightarrow> int \<Rightarrow> 'v option \<Rightarrow> ('k, 'v) applications \<Rightarrow> int \<times> ('k, 'v) applications" where
  "app_start nm supervisor_id stop_fn apps =
     (if app_find nm apps \<noteq> None then (-1, apps)
      else if MAX_APPLICATIONS \<le> length apps then (-2, apps)
      else (0, apps @ [\<lparr>app_name = nm, app_supervisor = supervisor_id, app_stop_fn = stop_fn, app_env = [], app_running = True\<rparr>]))"

definition app_stop :: "string \<Rightarrow> ('k, 'v) applications \<Rightarrow> int \<times> ('k, 'v) applications" where
  "app_stop nm apps =
     (case app_find nm apps of
        None \<Rightarrow> (-1, apps)
      | Some i \<Rightarrow> (0, apps[i := (apps ! i)\<lparr>app_stop_fn := None, app_env := [], app_running := False\<rparr>]))"

definition app_lookup :: "string \<Rightarrow> ('k, 'v) applications \<Rightarrow> ('k, 'v) application option" where
  "app_lookup nm apps = map_option (\<lambda>i. apps ! i) (app_find nm apps)"

definition app_which :: "(tm, tm) applications \<Rightarrow> tm" where
  "app_which apps = tm_list (map (\<lambda>a. cell_symbol (app_name a)) (filter app_running apps))"

definition app_get_env :: "('k \<Rightarrow> 'k \<Rightarrow> bool) \<Rightarrow> string \<Rightarrow> 'k \<Rightarrow> ('k, 'v) applications \<Rightarrow> 'v option" where
  "app_get_env eq nm k apps =
     (case app_find nm apps of
        None \<Rightarrow> None
      | Some i \<Rightarrow> entry_get eq k (app_env (apps ! i)))"

definition app_set_env :: "('k \<Rightarrow> 'k \<Rightarrow> bool) \<Rightarrow> string \<Rightarrow> 'k \<Rightarrow> 'v \<Rightarrow> ('k, 'v) applications \<Rightarrow> int \<times> ('k, 'v) applications" where
  "app_set_env eq nm k v apps =
     (case app_find nm apps of
        None \<Rightarrow> (-1, apps)
      | Some i \<Rightarrow>
          (case entry_put eq MAX_APP_ENV k v (app_env (apps ! i)) of
             None \<Rightarrow> (-2, apps)
           | Some es \<Rightarrow> (0, apps[i := (apps ! i)\<lparr>app_env := es\<rparr>])))"

definition app_reset_all :: "('k, 'v) applications \<Rightarrow> ('k, 'v) applications" where
  "app_reset_all apps = []"

subsection \<open>Agents\<close>

text \<open>
  Agents, stages and flows live in arrays of 64 slots that are reused. A slot in use holds a number
  and a value; the numbers go on counting.
\<close>

definition MAX_AGENTS :: nat where "MAX_AGENTS = 64"

record 'a slots =
  slot_array :: "(int \<times> 'a) option list"
  slot_count :: nat
  next_slot_id :: int

definition no_slots :: "nat \<Rightarrow> 'a slots" where
  "no_slots n = \<lparr>slot_array = replicate n None, slot_count = 0, next_slot_id = 0\<rparr>"

definition slot_start :: "nat \<Rightarrow> 'a \<Rightarrow> 'a slots \<Rightarrow> int \<times> 'a slots" where
  "slot_start limit x s =
     (if limit \<le> slot_count s then (-1, s)
      else case position (\<lambda>e. e = None) (slot_array s) of
        None \<Rightarrow> (-1, s)
      | Some i \<Rightarrow>
          (next_slot_id s,
           \<lparr>slot_array = (slot_array s)[i := Some (next_slot_id s, x)], slot_count = slot_count s + 1,
            next_slot_id = next_slot_id s + 1\<rparr>))"

definition slot_find :: "int \<Rightarrow> 'a slots \<Rightarrow> nat option" where
  "slot_find i s = position (\<lambda>e. case e of Some (j, _) \<Rightarrow> j = i | None \<Rightarrow> False) (slot_array s)"

definition slot_lookup :: "int \<Rightarrow> 'a slots \<Rightarrow> 'a option" where
  "slot_lookup i s = Option.bind (slot_find i s) (\<lambda>j. map_option snd (slot_array s ! j))"

definition slot_set :: "int \<Rightarrow> 'a \<Rightarrow> 'a slots \<Rightarrow> int \<times> 'a slots" where
  "slot_set i x s =
     (case slot_find i s of
        None \<Rightarrow> (-1, s)
      | Some j \<Rightarrow> (0, s\<lparr>slot_array := (slot_array s)[j := Some (i, x)]\<rparr>))"

definition slot_stop :: "int \<Rightarrow> 'a slots \<Rightarrow> int \<times> 'a slots" where
  "slot_stop i s =
     (case slot_find i s of
        None \<Rightarrow> (-1, s)
      | Some j \<Rightarrow> (0, s\<lparr>slot_array := (slot_array s)[j := None], slot_count := slot_count s - 1\<rparr>))"

definition agent_start :: "tm \<Rightarrow> tm slots \<Rightarrow> int \<times> tm slots" where
  "agent_start = slot_start MAX_AGENTS"

definition agent_get_state :: "int \<Rightarrow> tm slots \<Rightarrow> tm option" where
  "agent_get_state = slot_lookup"

definition agent_set_state :: "int \<Rightarrow> tm \<Rightarrow> tm slots \<Rightarrow> int \<times> tm slots" where
  "agent_set_state = slot_set"

definition agent_stop :: "int \<Rightarrow> tm slots \<Rightarrow> int \<times> tm slots" where
  "agent_stop = slot_stop"

definition agent_reset_all :: "tm slots \<Rightarrow> tm slots" where
  "agent_reset_all s = no_slots MAX_AGENTS"

subsection \<open>Stages\<close>

definition MAX_STAGES :: nat where "MAX_STAGES = 64"
definition MAX_STAGE_SUBSCRIBERS :: nat where "MAX_STAGE_SUBSCRIBERS = 16"

datatype stage_mode = STAGE_PRODUCER | STAGE_CONSUMER | STAGE_PRODUCER_CONSUMER

record gen_stage =
  stage_mode :: stage_mode
  stage_handler :: tm
  stage_state :: tm
  subscribers :: "int list"

definition stage_create :: "stage_mode \<Rightarrow> tm \<Rightarrow> tm \<Rightarrow> gen_stage slots \<Rightarrow> int \<times> gen_stage slots" where
  "stage_create mode handler st =
     slot_start MAX_STAGES \<lparr>stage_mode = mode, stage_handler = handler, stage_state = st, subscribers = []\<rparr>"

definition stage_lookup :: "int \<Rightarrow> gen_stage slots \<Rightarrow> gen_stage option" where
  "stage_lookup = slot_lookup"

definition stage_subscribe :: "int \<Rightarrow> int \<Rightarrow> gen_stage slots \<Rightarrow> int \<times> gen_stage slots" where
  "stage_subscribe consumer_id producer_id s =
     (case (stage_lookup producer_id s, stage_lookup consumer_id s) of
        (Some producer, Some _) \<Rightarrow>
          if MAX_STAGE_SUBSCRIBERS \<le> length (subscribers producer) then (-2, s)
          else (0, snd (slot_set producer_id (producer\<lparr>subscribers := subscribers producer @ [consumer_id]\<rparr>) s))
      | _ \<Rightarrow> (-1, s))"

definition stage_stop :: "int \<Rightarrow> gen_stage slots \<Rightarrow> int \<times> gen_stage slots" where
  "stage_stop = slot_stop"

definition stage_reset_all :: "gen_stage slots \<Rightarrow> gen_stage slots" where
  "stage_reset_all s = no_slots MAX_STAGES"

subsection \<open>Flows\<close>

definition MAX_FLOWS :: nat where "MAX_FLOWS = 64"
definition MAX_FLOW_STEPS :: nat where "MAX_FLOW_STEPS = 32"
definition MAX_FLOW_REGISTRY :: nat where "MAX_FLOW_REGISTRY = 256"

datatype flow_step_type = FLOW_MAP | FLOW_FILTER | FLOW_REDUCE | FLOW_EACH

record flow_step =
  step_type :: flow_step_type
  step_fn :: tm
  step_init :: "tm option"

record flow =
  flow_source :: tm
  flow_steps :: "flow_step list"

definition flow_create :: "tm \<Rightarrow> flow slots \<Rightarrow> int \<times> flow slots" where
  "flow_create source = slot_start MAX_FLOWS \<lparr>flow_source = source, flow_steps = []\<rparr>"

definition flow_lookup :: "int \<Rightarrow> flow slots \<Rightarrow> flow option" where
  "flow_lookup = slot_lookup"

definition flow_add_step :: "int \<Rightarrow> flow_step_type \<Rightarrow> tm \<Rightarrow> tm option \<Rightarrow> flow slots \<Rightarrow> int \<times> flow slots" where
  "flow_add_step i ty fn ini s =
     (case flow_lookup i s of
        None \<Rightarrow> (-1, s)
      | Some f \<Rightarrow>
          if MAX_FLOW_STEPS \<le> length (flow_steps f) then (-2, s)
          else (0, snd (slot_set i (f\<lparr>flow_steps := flow_steps f @ [\<lparr>step_type = ty, step_fn = fn, step_init = ini\<rparr>]\<rparr>) s)))"

definition flow_reset_all :: "flow slots \<Rightarrow> flow slots" where
  "flow_reset_all s = no_slots MAX_FLOWS"

subsection \<open>Names\<close>

text \<open>
  Two parallel arrays of names and numbers, for actors and for flows. \<open>valid\<close> says that the number
  exists.
\<close>

type_synonym names = "(string \<times> int) list"

definition names_register :: "nat \<Rightarrow> (int \<Rightarrow> bool) \<Rightarrow> string \<Rightarrow> int \<Rightarrow> names \<Rightarrow> int \<times> names" where
  "names_register limit valid nm i reg =
     (if limit \<le> length reg then (-3, reg)
      else if \<not> valid i then (-4, reg)
      else case find (\<lambda>e. fst e = nm \<or> snd e = i) reg of
        Some e \<Rightarrow> (if fst e = nm then -1 else -2, reg)
      | None \<Rightarrow> (0, reg @ [(nm, i)]))"

definition names_lookup :: "string \<Rightarrow> names \<Rightarrow> int" where
  "names_lookup nm reg = (case find (\<lambda>e. fst e = nm) reg of Some e \<Rightarrow> snd e | None \<Rightarrow> -1)"

definition names_unregister_name :: "string \<Rightarrow> names \<Rightarrow> int \<times> names" where
  "names_unregister_name nm reg =
     (case position (\<lambda>e. fst e = nm) reg of
        Some i \<Rightarrow> (0, swap_remove i reg)
      | None \<Rightarrow> (-1, reg))"

definition names_unregister_id :: "int \<Rightarrow> names \<Rightarrow> names" where
  "names_unregister_id actor_id reg =
     (case position (\<lambda>e. snd e = actor_id) reg of Some i \<Rightarrow> swap_remove i reg | None \<Rightarrow> reg)"

definition names_list :: "names \<Rightarrow> tm" where
  "names_list reg = tm_list (map (\<lambda>e. cell_symbol (fst e)) reg)"

definition flow_registry_register :: "string \<Rightarrow> int \<Rightarrow> flow slots \<Rightarrow> names \<Rightarrow> int \<times> names" where
  "flow_registry_register nm i flows = names_register MAX_FLOW_REGISTRY (\<lambda>i. flow_lookup i flows \<noteq> None) nm i"

definition flow_registry_lookup :: "string \<Rightarrow> names \<Rightarrow> int" where
  "flow_registry_lookup = names_lookup"

definition flow_registry_unregister_name :: "string \<Rightarrow> names \<Rightarrow> int \<times> names" where
  "flow_registry_unregister_name = names_unregister_name"

definition flow_registry_list :: "names \<Rightarrow> tm" where
  "flow_registry_list = names_list"

definition flow_registry_reset :: "names \<Rightarrow> names" where
  "flow_registry_reset reg = []"

end
