(* ===== verification/Mailbox.thy ===== *)
theory Mailbox
  imports Channel Contracts
begin

section \<open>Mailboxes\<close>

text \<open>
  The mailbox of an actor in \<open>bootstrap/actor.c\<close> is a ring of the same kind as a channel, without
  close and waiters. Here an operation runs to its end without another thread in between; how the
  accesses of several threads interleave on such a ring is in \<open>Channel\<close>. A mailbox implements the
  contract of a bounded queue, on which the theory of the actors rests.
\<close>

subsection \<open>The contract\<close>

text \<open>
  A sequence of operations and its outcomes, on any queue and on a list with a bound. \<open>enq\<close> returns
  whether there was room, \<open>deq\<close> the first entry; \<open>None\<close> stands for an operation that waits for
  another thread.
\<close>

datatype 'a queue_op = Enq 'a | Deq

datatype 'a queue_outcome = Accepted bool | Got "'a option"

fun run_ops :: "('a \<Rightarrow> 'q \<Rightarrow> (bool \<times> 'q) option) \<Rightarrow> ('q \<Rightarrow> ('a option \<times> 'q) option) \<Rightarrow>
    'a queue_op list \<Rightarrow> 'q \<Rightarrow> 'a queue_outcome list option" where
  "run_ops enq deq [] q = Some []"
| "run_ops enq deq (Enq x # ops) q =
     Option.bind (enq x q) (\<lambda>(sent, q'). map_option ((#) (Accepted sent)) (run_ops enq deq ops q'))"
| "run_ops enq deq (Deq # ops) q =
     Option.bind (deq q) (\<lambda>(r, q'). map_option ((#) (Got r)) (run_ops enq deq ops q'))"

fun queue_run :: "nat \<Rightarrow> 'a queue_op list \<Rightarrow> 'a list \<Rightarrow> 'a queue_outcome list" where
  "queue_run limit [] q = []"
| "queue_run limit (Enq x # ops) q =
     (if length q < limit then Accepted True # queue_run limit ops (q @ [x])
      else Accepted False # queue_run limit ops q)"
| "queue_run limit (Deq # ops) q =
     (case q of [] \<Rightarrow> Got None # queue_run limit ops [] | x # q' \<Rightarrow> Got (Some x) # queue_run limit ops q')"

locale bounded_queue =
  fixes ok :: "'q \<Rightarrow> bool" and content :: "'q \<Rightarrow> 'a list" and limit :: nat
    and enq :: "'a \<Rightarrow> 'q \<Rightarrow> (bool \<times> 'q) option" and deq :: "'q \<Rightarrow> ('a option \<times> 'q) option"
  assumes enq_law: "ok q \<Longrightarrow> \<exists>q'. enq x q = Some (length (content q) < limit, q') \<and> ok q' \<and>
      content q' = (if length (content q) < limit then content q @ [x] else content q)"
    and deq_law: "ok q \<Longrightarrow> \<exists>q'. deq q = Some (case content q of [] \<Rightarrow> None | x # _ \<Rightarrow> Some x, q') \<and>
      ok q' \<and> content q' = tl (content q)"
begin

lemma run_ops_content: "ok q \<Longrightarrow> run_ops enq deq ops q = Some (queue_run limit ops (content q))"
proof (induction ops arbitrary: q)
  case (Cons op ops)
  show ?case
  proof (cases op)
    case (Enq x)
    from enq_law [OF Cons.prems, of x] Cons.IH Enq show ?thesis
      by (cases "length (content q) < limit") auto
  next
    case Deq
    from deq_law [OF Cons.prems] Cons.IH Deq show ?thesis by (cases "content q") auto
  qed
qed simp

end

subsection \<open>The ring\<close>

definition MAILBOX_DEFAULT_CAP :: u32 where "MAILBOX_DEFAULT_CAP = 256"

record mailbox =
  mb_capacity :: u32
  mb_mask :: u32
  mb_enqueue_pos :: u64
  mb_dequeue_pos :: u64
  mb_count :: "32 word"
  mb_slots :: "slot list"

definition mailbox_init :: "u32 \<Rightarrow> mailbox" where
  "mailbox_init capacity =
     \<lparr>mb_capacity = capacity, mb_mask = capacity - 1, mb_enqueue_pos = 0, mb_dequeue_pos = 0, mb_count = 0,
      mb_slots = map (\<lambda>i. \<lparr>slot_seq = of_nat i, slot_value = None\<rparr>) [0..<unat capacity]\<rparr>"

definition mb_index :: "mailbox \<Rightarrow> u64 \<Rightarrow> nat" where
  "mb_index mb pos = unat (pos AND ucast (mb_mask mb))"

text \<open>
  The loops reload the position when its slot is ahead of it; without another thread they read the
  same position for ever, which is the result \<open>None\<close>. The difference of the numbers is here the one of
  two's complement arithmetic. The code subtracts signed numbers, which is undefined where it
  overflows; \<open>defined_send\<close> and \<open>defined_receive\<close> below have no result there, and agree with these
  two as long as the positions are below \<open>2 ^ 63\<close>.
\<close>

definition mailbox_send :: "tm \<Rightarrow> mailbox \<Rightarrow> (bool \<times> mailbox) option" where
  "mailbox_send message mb =
     (let pos = mb_enqueue_pos mb;
          i = mb_index mb pos;
          diff = sint (slot_seq (mb_slots mb ! i) - pos)
      in if diff = 0 then
           Some (True, mb\<lparr>mb_enqueue_pos := pos + 1,
                          mb_slots := (mb_slots mb)[i := \<lparr>slot_seq = pos + 1, slot_value = Some message\<rparr>],
                          mb_count := mb_count mb + 1\<rparr>)
         else if diff < 0 then Some (False, mb)
         else None)"

definition actor_receive_from :: "mailbox \<Rightarrow> (tm option \<times> mailbox) option" where
  "actor_receive_from mb =
     (if sint (mb_count mb) \<le> 0 then Some (None, mb)
      else let pos = mb_dequeue_pos mb;
               i = mb_index mb pos;
               diff = sint (slot_seq (mb_slots mb ! i) - (pos + 1))
        in if diff = 0 then
             Some (slot_value (mb_slots mb ! i),
                   mb\<lparr>mb_dequeue_pos := pos + 1,
                      mb_slots := (mb_slots mb)[i := \<lparr>slot_seq = pos + ucast (mb_capacity mb), slot_value = None\<rparr>],
                      mb_count := mb_count mb - 1\<rparr>)
           else if diff < 0 then Some (None, mb)
           else None)"

text \<open>The operations with the subtraction of the code, where an overflow has no result.\<close>

definition int64 :: "int \<Rightarrow> bool" where
  "int64 d \<longleftrightarrow> - (2 ^ 63) \<le> d \<and> d < 2 ^ 63"

definition defined_send :: "tm \<Rightarrow> mailbox \<Rightarrow> (bool \<times> mailbox) option" where
  "defined_send message mb =
     (let pos = mb_enqueue_pos mb
      in if int64 (sint (slot_seq (mb_slots mb ! mb_index mb pos)) - sint pos) then mailbox_send message mb else None)"

definition defined_receive :: "mailbox \<Rightarrow> (tm option \<times> mailbox) option" where
  "defined_receive mb =
     (let pos = mb_dequeue_pos mb
      in if sint (mb_count mb) \<le> 0 \<or> int64 (sint (slot_seq (mb_slots mb ! mb_index mb pos)) - sint (pos + 1))
         then actor_receive_from mb else None)"

subsection \<open>The queue in the ring\<close>

definition mb_size :: "mailbox \<Rightarrow> nat" where
  "mb_size mb = unat (mb_enqueue_pos mb - mb_dequeue_pos mb)"

definition mb_slot :: "mailbox \<Rightarrow> nat \<Rightarrow> slot" where
  "mb_slot mb i = mb_slots mb ! mb_index mb (mb_dequeue_pos mb + of_nat i)"

definition mb_list :: "mailbox \<Rightarrow> tm list" where
  "mb_list mb = map (\<lambda>i. the (slot_value (mb_slot mb i))) [0..<mb_size mb]"

definition mb_ok :: "mailbox \<Rightarrow> bool" where
  "mb_ok mb \<longleftrightarrow> mb_capacity mb = 256 \<and> mb_mask mb = 255 \<and> length (mb_slots mb) = 256 \<and> mb_size mb \<le> 256 \<and>
     sint (mb_count mb) = int (mb_size mb) \<and>
     (\<forall>i < 256. slot_seq (mb_slot mb i) = mb_dequeue_pos mb + of_nat i + (if i < mb_size mb then 1 else 0)) \<and>
     (\<forall>i < mb_size mb. slot_value (mb_slot mb i) \<noteq> None)"

lemma length_mb_list [simp]: "length (mb_list mb) = mb_size mb"
  by (simp add: mb_list_def)

lemma mb_index_mod:
  assumes "mb_mask mb = 255"
  shows "mb_index mb pos = unat pos mod 256"
proof -
  have "unat (pos AND ucast (255 :: u32)) = unat (take_bit 8 pos)"
    by (simp add: take_bit_eq_mask mask_eq_exp_minus_1)
  also have "\<dots> = unat pos mod 2 ^ 8" by (simp add: take_bit_eq_mod unat_mod)
  finally show ?thesis by (simp add: mb_index_def assms)
qed

lemma unat_plus_mod: "unat (p + of_nat i :: u64) mod 256 = (unat p + i) mod 256"
proof -
  have "unat (p + of_nat i :: u64) = (unat p + i) mod 2 ^ 64"
    by (simp add: unat_word_ariths unat_of_nat mod_add_right_eq)
  moreover have "(256 :: nat) dvd 2 ^ 64" by simp
  ultimately show ?thesis by (simp add: mod_mod_cancel)
qed

lemma mb_index_plus:
  "mb_mask mb = 255 \<Longrightarrow> mb_index mb (p + of_nat i) = (unat p + i) mod 256"
  by (simp add: mb_index_mod unat_plus_mod)

lemma ring_index_inj:
  assumes "i < (256 :: nat)" "j < 256"
  shows "(d + i) mod 256 = (d + j) mod 256 \<longleftrightarrow> i = j"
  using mod_add_inj [OF assms, of d] by blast

lemma mb_size_le: "mb_ok mb \<Longrightarrow> mb_size mb \<le> 256"
  by (simp add: mb_ok_def)

lemma mb_enqueue_pos_eq: "mb_enqueue_pos mb = mb_dequeue_pos mb + of_nat (mb_size mb)"
  by (simp add: mb_size_def)

lemma mailbox_init_ok: "mb_ok (mailbox_init MAILBOX_DEFAULT_CAP)" "mb_list (mailbox_init MAILBOX_DEFAULT_CAP) = []"
  by (auto simp: mb_ok_def mailbox_init_def MAILBOX_DEFAULT_CAP_def mb_size_def mb_list_def mb_slot_def
      mb_index_mod unat_of_nat)

text \<open>The slot of the \<open>i\<close>-th place counted from the head, after the slot of the \<open>j\<close>-th is changed.\<close>

lemma slot_update:
  assumes "mb_mask mb = 255" "length (mb_slots mb) = 256" "i < 256" "j < 256"
  shows "(mb_slots mb)[(unat d + j) mod 256 := x] ! ((unat d + i) mod 256) =
    (if i = j then x else mb_slots mb ! ((unat d + i) mod 256))"
  using assms by (simp add: nth_list_update ring_index_inj)

lemma sint_of_small_nat: "m < 2 ^ 31 \<Longrightarrow> sint (of_nat m :: 32 word) = int m"
  by (simp add: signed_of_nat signed_take_bit_int_eq_self)

lemma sint_small_word: "sint (c :: 32 word) = int n \<Longrightarrow> c = of_nat n"
  by (metis of_int_of_nat_eq of_int_sint scast_id)

lemma mailbox_send_room:
  assumes ok: "mb_ok mb" and room: "mb_size mb < 256"
  obtains mb' where "mailbox_send m mb = Some (True, mb')" "mb_ok mb'" "mb_list mb' = mb_list mb @ [m]"
proof -
  define n d where "n = mb_size mb" and "d = mb_dequeue_pos mb"
  note pos = mb_enqueue_pos_eq [of mb, folded n_def d_def]
  from ok have mask: "mb_mask mb = 255" and len: "length (mb_slots mb) = 256" by (auto simp: mb_ok_def)
  have seq: "slot_seq (mb_slots mb ! ((unat d + i) mod 256)) = d + of_nat i + (if i < n then 1 else 0)"
    and val: "i < n \<Longrightarrow> slot_value (mb_slots mb ! ((unat d + i) mod 256)) \<noteq> None" if "i < 256" for i
    using ok that room by (auto simp: mb_ok_def mb_slot_def n_def d_def mb_index_plus [OF mask])
  define j where "j = (unat d + n) mod 256"
  have idx: "mb_index mb (d + of_nat n) = j"
    unfolding j_def by (rule mb_index_plus [OF mask])
  define mb' where "mb' = mb\<lparr>mb_enqueue_pos := d + of_nat n + 1,
      mb_slots := (mb_slots mb)[j := \<lparr>slot_seq = d + of_nat n + 1, slot_value = Some m\<rparr>], mb_count := mb_count mb + 1\<rparr>"
  have "slot_seq (mb_slots mb ! j) = d + of_nat n"
    using seq [of n] room by (simp add: j_def n_def)
  then have "mailbox_send m mb = Some (True, mb')"
    by (simp add: mailbox_send_def Let_def pos idx mb'_def)
  moreover have size': "mb_size mb' = n + 1"
  proof -
    have "mb_size mb' = unat (of_nat (n + 1) :: u64)" by (simp add: mb_size_def mb'_def d_def add.commute)
    then show ?thesis using room by (simp only: unat_of_nat n_def) simp
  qed
  moreover have slot': "mb_slot mb' i = (if i = n then \<lparr>slot_seq = d + of_nat n + 1, slot_value = Some m\<rparr>
      else mb_slots mb ! ((unat d + i) mod 256))" if "i < 256" for i
  proof -
    have "mb_slot mb' i = mb_slots mb' ! ((unat d + i) mod 256)"
      by (simp add: mb_slot_def mb_index_plus mb'_def mask d_def)
    then show ?thesis using slot_update [OF mask len that, of n d] room by (simp add: mb'_def j_def n_def)
  qed
  moreover have count': "sint (mb_count mb') = int (n + 1)"
  proof -
    have "sint (mb_count mb) = int n" using ok by (simp add: mb_ok_def n_def)
    from sint_small_word [OF this] have "mb_count mb' = of_nat (n + 1)" by (simp add: mb'_def)
    then show ?thesis using room sint_of_small_nat [of "n + 1"] unfolding n_def by simp
  qed
  moreover have "mb_list mb' = mb_list mb @ [m]"
    using room slot' by (simp add: mb_list_def size' mb_slot_def mb_index_plus [OF mask] n_def [symmetric] d_def [symmetric])
  moreover have "mb_ok mb'"
    unfolding mb_ok_def
  proof (intro conjI allI impI)
    show "mb_capacity mb' = 256" "mb_mask mb' = 255" "length (mb_slots mb') = 256"
      using ok by (simp_all add: mb_ok_def mb'_def)
    show "mb_size mb' \<le> 256" using size' room by (simp add: n_def)
    show "sint (mb_count mb') = int (mb_size mb')" using count' size' by simp
    fix i :: nat assume i: "i < 256"
    show "slot_seq (mb_slot mb' i) = mb_dequeue_pos mb' + of_nat i + (if i < mb_size mb' then 1 else 0)"
    proof -
      have "mb_dequeue_pos mb' = d" by (simp add: mb'_def d_def)
      then show ?thesis using slot' [OF i] seq [OF i] by (auto simp: size')
    qed
  next
    fix i assume i: "i < mb_size mb'"
    then have "i < 256" using size' room by (simp add: n_def)
    from slot' [OF this] val [OF this] i size' show "slot_value (mb_slot mb' i) \<noteq> None" by auto
  qed
  ultimately show ?thesis using that by blast
qed

lemma mailbox_send_full:
  assumes ok: "mb_ok mb" and full: "mb_size mb = 256"
  shows "mailbox_send m mb = Some (False, mb)"
proof -
  define d where "d = mb_dequeue_pos mb"
  note pos = mb_enqueue_pos_eq [of mb, folded d_def, unfolded full]
  from ok have mask: "mb_mask mb = 255" by (simp add: mb_ok_def)
  have "mb_index mb (d + of_nat 256) = mb_index mb (d + of_nat 0)"
    by (simp only: mb_index_plus [OF mask]) simp
  moreover have "slot_seq (mb_slots mb ! mb_index mb (d + of_nat 0)) = d + 1"
  proof -
    have "\<forall>i < 256. slot_seq (mb_slot mb i) = d + of_nat i + 1" using ok full by (simp add: mb_ok_def d_def)
    then have "slot_seq (mb_slot mb 0) = d + of_nat 0 + 1" by (rule allE [of _ 0]) simp
    then show ?thesis by (simp add: mb_slot_def d_def)
  qed
  ultimately have "slot_seq (mb_slots mb ! mb_index mb (mb_enqueue_pos mb)) - mb_enqueue_pos mb = - 255"
    by (simp add: pos)
  then show ?thesis by (simp add: mailbox_send_def Let_def)
qed

lemma mailbox_receive_empty:
  assumes "mb_ok mb" "mb_size mb = 0"
  shows "actor_receive_from mb = Some (None, mb)"
  using assms by (simp add: actor_receive_from_def mb_ok_def)

lemma mailbox_receive_some:
  assumes ok: "mb_ok mb" and ne: "0 < mb_size mb"
  obtains mb' where "actor_receive_from mb = Some (Some (hd (mb_list mb)), mb')" "mb_ok mb'" "mb_list mb' = tl (mb_list mb)"
proof -
  define n d where "n = mb_size mb - 1" and "d = mb_dequeue_pos mb"
  have size: "mb_size mb = n + 1" and n: "n < 256" using ne mb_size_le [OF ok] by (auto simp: n_def)
  note pos = mb_enqueue_pos_eq [of mb, folded d_def, unfolded size]
  from ok have mask: "mb_mask mb = 255" and len: "length (mb_slots mb) = 256" and cap: "mb_capacity mb = 256"
    by (auto simp: mb_ok_def)
  have seq: "slot_seq (mb_slots mb ! ((unat d + i) mod 256)) = d + of_nat i + (if i < n + 1 then 1 else 0)"
    and val: "i < n + 1 \<Longrightarrow> slot_value (mb_slots mb ! ((unat d + i) mod 256)) \<noteq> None" if "i < 256" for i
    using ok that by (auto simp: mb_ok_def mb_slot_def size d_def mb_index_plus [OF mask])
  define j where "j = (unat d + 0) mod 256"
  have idx: "mb_index mb d = j"
    using mb_index_plus [OF mask, of d 0] by (simp add: j_def)
  define mb' where "mb' = mb\<lparr>mb_dequeue_pos := d + 1,
      mb_slots := (mb_slots mb)[j := \<lparr>slot_seq = d + ucast (mb_capacity mb), slot_value = None\<rparr>], mb_count := mb_count mb - 1\<rparr>"
  have count: "sint (mb_count mb) = int (n + 1)" using ok size by (simp add: mb_ok_def)
  have "mb_count mb' = of_nat n" using sint_small_word [OF count] by (simp add: mb'_def)
  then have count': "sint (mb_count mb') = int n" using n sint_of_small_nat [of n] by simp
  have "slot_seq (mb_slots mb ! j) = d + 1" using seq [of 0] by (simp add: j_def)
  then have "actor_receive_from mb = Some (slot_value (mb_slots mb ! j), mb')"
    using count by (simp add: actor_receive_from_def Let_def idx mb'_def d_def [symmetric])
  moreover have "slot_value (mb_slots mb ! j) = Some (hd (mb_list mb))"
  proof -
    obtain v where v: "slot_value (mb_slots mb ! j) = Some v" using val [of 0] by (auto simp: j_def)
    have "mb_list mb = map (\<lambda>i. the (slot_value (mb_slot mb i))) (0 # [1..<n + 1])"
      by (simp only: mb_list_def size upt_rec [of 0]) simp
    then show ?thesis using v by (simp add: mb_slot_def d_def [symmetric] idx)
  qed
  moreover have size': "mb_size mb' = n"
  proof -
    have "mb_size mb' = unat (of_nat n :: u64)" by (simp add: mb_size_def mb'_def pos)
    then show ?thesis using n by (simp only: unat_of_nat) simp
  qed
  moreover have slot': "mb_slot mb' i = (if i = 255 then \<lparr>slot_seq = d + 256, slot_value = None\<rparr>
      else mb_slots mb ! ((unat d + Suc i) mod 256))" if i: "i < 256" for i
  proof -
    have idx': "mb_index mb' (d + 1 + of_nat i) = (unat d + Suc i) mod 256"
      using mb_index_plus [of mb' d "Suc i"] mask by (simp add: mb'_def add.assoc)
    show ?thesis
    proof (cases "i = 255")
      case True
      then have "(unat d + Suc i) mod 256 = j" by (simp add: j_def)
      with True idx' show ?thesis by (simp add: mb_slot_def mb'_def len j_def cap)
    next
      case False
      with i have "Suc i < 256" by simp
      from slot_update [OF mask len this, of 0 d] idx' False show ?thesis
        by (simp add: mb_slot_def mb'_def j_def)
    qed
  qed
  moreover have "mb_list mb' = tl (mb_list mb)"
  proof -
    have "tl (mb_list mb) = map (\<lambda>i. the (slot_value (mb_slot mb (Suc i)))) [0..<n]"
      by (simp add: mb_list_def size map_tl [symmetric] map_Suc_upt [symmetric] comp_def del: upt_Suc)
    also have "\<dots> = mb_list mb'"
      using slot' n by (auto simp: mb_list_def size' mb_slot_def mb_index_plus [OF mask] d_def [symmetric] simp del: of_nat_Suc)
    finally show ?thesis by simp
  qed
  moreover have "mb_ok mb'"
    unfolding mb_ok_def
  proof (intro conjI allI impI)
    show "mb_capacity mb' = 256" "mb_mask mb' = 255" "length (mb_slots mb') = 256"
      using ok by (simp_all add: mb_ok_def mb'_def)
    show "mb_size mb' \<le> 256" using size' n by simp
    show "sint (mb_count mb') = int (mb_size mb')" using count' size' by simp
    fix i :: nat assume i: "i < 256"
    show "slot_seq (mb_slot mb' i) = mb_dequeue_pos mb' + of_nat i + (if i < mb_size mb' then 1 else 0)"
    proof -
      have "mb_dequeue_pos mb' = d + 1" by (simp add: mb'_def)
      moreover have "d + 1 + (255 :: u64) = d + 256" by simp
      ultimately show ?thesis using slot' [OF i] seq [of "Suc i"] i n by (auto simp: size' add.assoc)
    qed
  next
    fix i assume i: "i < mb_size mb'"
    then have "i < 255" "i < n" using size' n by auto
    with slot' [of i] val [of "Suc i"] show "slot_value (mb_slot mb' i) \<noteq> None" by auto
  qed
  ultimately show ?thesis using that by auto
qed

interpretation mbox: bounded_queue mb_ok mb_list 256 mailbox_send actor_receive_from
proof
  fix mb :: mailbox and m
  assume ok: "mb_ok mb"
  show "\<exists>mb'. mailbox_send m mb = Some (length (mb_list mb) < 256, mb') \<and> mb_ok mb' \<and>
      mb_list mb' = (if length (mb_list mb) < 256 then mb_list mb @ [m] else mb_list mb)"
  proof (cases "mb_size mb < 256")
    case True
    then show ?thesis using mailbox_send_room [OF ok, of m] by auto
  next
    case False
    then have "mb_size mb = 256" using mb_size_le [OF ok] by simp
    then show ?thesis using mailbox_send_full [OF ok] ok by simp
  qed
next
  fix mb :: mailbox
  assume ok: "mb_ok mb"
  show "\<exists>mb'. actor_receive_from mb = Some (case mb_list mb of [] \<Rightarrow> None | x # _ \<Rightarrow> Some x, mb') \<and>
      mb_ok mb' \<and> mb_list mb' = tl (mb_list mb)"
  proof (cases "mb_list mb")
    case Nil
    then have "mb_size mb = 0" by (metis length_mb_list list.size(3))
    then show ?thesis using mailbox_receive_empty [OF ok] ok Nil by simp
  next
    case (Cons x xs)
    then have "0 < mb_size mb" by (metis length_mb_list length_Cons zero_less_Suc)
    from mailbox_receive_some [OF ok this] Cons show ?thesis by (metis list.sel(1) list.simps(5))
  qed
qed

subsection \<open>Below the overflow\<close>

text \<open>The positions of a mailbox on which fewer than \<open>2 ^ 62\<close> operations have been run.\<close>

definition below :: "nat \<Rightarrow> mailbox \<Rightarrow> bool" where
  "below k mb \<longleftrightarrow> mb_ok mb \<and> unat (mb_dequeue_pos mb) \<le> unat (mb_enqueue_pos mb) \<and> unat (mb_enqueue_pos mb) \<le> k"

lemma int64_diff:
  assumes "unat (x :: u64) < 2 ^ 63" "unat (y :: u64) < 2 ^ 63"
  shows "int64 (sint x - sint y)"
proof -
  have "0 \<le> sint z \<and> sint z < 2 ^ 63" if "unat (z :: u64) < 2 ^ 63" for z
  proof -
    have "int (unat z) < int (2 ^ 63)" using that by (simp only: of_nat_less_iff)
    then have less: "uint z < 2 ^ 63" by simp
    have "- (2 ^ 63) \<le> (0 :: int)" by simp
    also have "0 \<le> uint z" by simp
    finally have "sint z = uint z" unfolding sint_uint using less by (intro signed_take_bit_int_eq_self) simp_all
    with less show ?thesis by simp
  qed
  from this [OF assms(1)] this [OF assms(2)] show ?thesis by (simp add: int64_def)
qed

lemma unat_Suc_word: "unat (x :: u64) < 2 ^ 63 \<Longrightarrow> unat (x + 1) = unat x + 1"
  by (simp add: unat_word_ariths)

lemma below_size:
  assumes "below k mb" "k < 2 ^ 62"
  shows "unat (mb_enqueue_pos mb) = unat (mb_dequeue_pos mb) + mb_size mb"
  using assms by (simp add: below_def mb_size_def unat_sub word_le_nat_alt)

lemma below_seq:
  assumes "below k mb" "k < 2 ^ 62" "i < 256"
  shows "unat (slot_seq (mb_slots mb ! mb_index mb (mb_dequeue_pos mb + of_nat i))) < 2 ^ 63"
proof -
  define m where "m = i + (if i < mb_size mb then 1 else 0)"
  have "slot_seq (mb_slots mb ! mb_index mb (mb_dequeue_pos mb + of_nat i)) = mb_dequeue_pos mb + of_nat m"
    using assms(1,3) by (auto simp: below_def mb_ok_def mb_slot_def m_def)
  moreover have "m \<le> 256" using assms(3) by (simp add: m_def)
  then have "unat (mb_dequeue_pos mb + of_nat m) = unat (mb_dequeue_pos mb) + m"
    using assms by (simp add: below_def unat_word_ariths unsigned_of_nat take_bit_nat_eq_self)
  ultimately show ?thesis using assms \<open>m \<le> 256\<close> by (simp add: below_def)
qed

lemma below_send:
  assumes "below k mb" "k < 2 ^ 62"
  obtains mb' where "defined_send m mb = Some (length (mb_list mb) < 256, mb')" "below (Suc k) mb'"
    "mb_list mb' = (if length (mb_list mb) < 256 then mb_list mb @ [m] else mb_list mb)"
proof -
  have ok: "mb_ok mb" using assms(1) by (simp add: below_def)
  have "\<exists>i < 256. mb_index mb (mb_enqueue_pos mb) = mb_index mb (mb_dequeue_pos mb + of_nat i)"
  proof (cases "mb_size mb < 256")
    case True
    then show ?thesis using mb_enqueue_pos_eq [of mb] by (intro exI [of _ "mb_size mb"]) simp
  next
    case False
    with mb_size_le [OF ok] have "mb_size mb = 256" by simp
    then have e: "mb_enqueue_pos mb = mb_dequeue_pos mb + of_nat 256" using mb_enqueue_pos_eq [of mb] by metis
    have mask: "mb_mask mb = 255" using ok by (simp add: mb_ok_def)
    show ?thesis unfolding e mb_index_plus [OF mask] by (intro exI [of _ 0]) simp
  qed
  then have "unat (slot_seq (mb_slots mb ! mb_index mb (mb_enqueue_pos mb))) < 2 ^ 63"
    using below_seq [OF assms] by auto
  moreover have "unat (mb_enqueue_pos mb) < 2 ^ 63" using assms by (simp add: below_def)
  ultimately have same: "defined_send m mb = mailbox_send m mb"
    using int64_diff by (simp add: defined_send_def)
  obtain mb' where mb': "mailbox_send m mb = Some (length (mb_list mb) < 256, mb')" "mb_ok mb'"
    "mb_list mb' = (if length (mb_list mb) < 256 then mb_list mb @ [m] else mb_list mb)"
    using mbox.enq_law [OF ok, of m] by blast
  have "mb_dequeue_pos mb' = mb_dequeue_pos mb \<and>
      (mb_enqueue_pos mb' = mb_enqueue_pos mb \<or> mb_enqueue_pos mb' = mb_enqueue_pos mb + 1)"
    using mb'(1) by (auto simp: mailbox_send_def Let_def split: if_splits)
  moreover have "unat (mb_enqueue_pos mb + 1) = unat (mb_enqueue_pos mb) + 1"
    using assms by (intro unat_Suc_word) (simp add: below_def)
  ultimately have "below (Suc k) mb'" using assms(1) mb'(2) by (auto simp: below_def)
  with mb' same show ?thesis using that by simp
qed

lemma below_receive:
  assumes "below k mb" "k < 2 ^ 62"
  obtains mb' where "defined_receive mb = Some (case mb_list mb of [] \<Rightarrow> None | x # _ \<Rightarrow> Some x, mb')" "below (Suc k) mb'"
    "mb_list mb' = tl (mb_list mb)"
proof -
  have ok: "mb_ok mb" using assms(1) by (simp add: below_def)
  have pos: "unat (mb_dequeue_pos mb + 1) = unat (mb_dequeue_pos mb) + 1"
    using assms by (intro unat_Suc_word) (simp add: below_def)
  have "unat (slot_seq (mb_slots mb ! mb_index mb (mb_dequeue_pos mb))) < 2 ^ 63"
    using below_seq [OF assms, of 0] by simp
  moreover have "unat (mb_dequeue_pos mb + 1) < 2 ^ 63" unfolding pos using assms by (simp add: below_def)
  ultimately have same: "defined_receive mb = actor_receive_from mb"
    using int64_diff by (simp add: defined_receive_def)
  obtain mb' where mb': "actor_receive_from mb = Some (case mb_list mb of [] \<Rightarrow> None | x # _ \<Rightarrow> Some x, mb')"
    "mb_ok mb'" "mb_list mb' = tl (mb_list mb)"
    using mbox.deq_law [OF ok] by blast
  have "mb_enqueue_pos mb' = mb_enqueue_pos mb \<and>
      (mb_dequeue_pos mb' = mb_dequeue_pos mb \<or> 0 < mb_size mb \<and> mb_dequeue_pos mb' = mb_dequeue_pos mb + 1)"
    using mb'(1) ok by (auto simp: actor_receive_from_def mb_ok_def Let_def split: if_splits)
  then have "below (Suc k) mb'"
    using assms(1) mb'(2) pos below_size [OF assms] by (auto simp: below_def)
  with mb' same show ?thesis using that by simp
qed

lemma run_ops_below:
  "below k mb \<Longrightarrow> k + length ops \<le> 2 ^ 62 \<Longrightarrow>
    run_ops defined_send defined_receive ops mb = Some (queue_run 256 ops (mb_list mb))"
proof (induction ops arbitrary: k mb)
  case (Cons op ops)
  then have k: "k < 2 ^ 62" "Suc k + length ops \<le> 2 ^ 62" by simp_all
  show ?case
  proof (cases op)
    case (Enq m)
    obtain mb' where "defined_send m mb = Some (length (mb_list mb) < 256, mb')" "below (Suc k) mb'"
      "mb_list mb' = (if length (mb_list mb) < 256 then mb_list mb @ [m] else mb_list mb)"
      by (rule below_send [OF Cons.prems(1) k(1)])
    with Cons.IH [OF _ k(2)] Enq show ?thesis by (cases "length (mb_list mb) < 256") auto
  next
    case Deq
    obtain mb' where "defined_receive mb = Some (case mb_list mb of [] \<Rightarrow> None | x # _ \<Rightarrow> Some x, mb')"
      "below (Suc k) mb'" "mb_list mb' = tl (mb_list mb)"
      by (rule below_receive [OF Cons.prems(1) k(1)])
    with Cons.IH [OF _ k(2)] Deq show ?thesis by (cases "mb_list mb") auto
  qed
qed simp

text \<open>
  C31. A mailbox is a bounded queue: for any sequence of at most \<open>2 ^ 62\<close> sends and receives on a new
  mailbox, with the signed subtractions of the code, none of which overflows, every send is delivered
  exactly if fewer than 256 messages wait, and every receive returns the message that has waited
  longest, as a list of messages would; the slots of the ring are reused as often as it takes.
\<close>

theorem mailbox_is_queue:
  assumes "length ops \<le> 2 ^ 62"
  shows "run_ops defined_send defined_receive ops (mailbox_init MAILBOX_DEFAULT_CAP) = Some (queue_run 256 ops [])"
proof -
  have "below 0 (mailbox_init MAILBOX_DEFAULT_CAP)"
    unfolding below_def using mailbox_init_ok(1) by (simp add: mailbox_init_def)
  from run_ops_below [OF this, of ops] assms show ?thesis by (simp add: mailbox_init_ok)
qed

theorem mailbox_is_queue_witness:
  "run_ops defined_send defined_receive [Deq, Enq (cell_number 1), Enq (cell_number 2), Deq, Deq, Deq]
      (mailbox_init MAILBOX_DEFAULT_CAP) =
    Some [Got None, Accepted True, Accepted True, Got (Some (cell_number 1)), Got (Some (cell_number 2)), Got None]"
  using mailbox_is_queue [of "[Deq, Enq (cell_number 1), Enq (cell_number 2), Deq, Deq, Deq]"] by simp

end
