(* ===== verification/Actors.thy ===== *)
theory Actors
  imports ActorTables Mailbox Eval
begin

section \<open>Actors\<close>

text \<open>
  The actors of \<open>bootstrap/actor.c\<close>: creation, messages, links, monitors, exit signals, supervisors,
  names and timers. A pointer to an actor or a supervisor is its number; nothing is freed before
  \<open>actor_reset_all\<close>, so a number finds what the pointer points to. An operation runs to its end without
  another thread in between. The switch to the stack of a fiber and the tracing of events are left
  out; putting an actor into the queue of its scheduler appends it to \<open>run_queue\<close>.
\<close>

subsection \<open>State\<close>

definition MAX_ACTORS :: nat where "MAX_ACTORS = 256"
definition MAX_LINKS :: nat where "MAX_LINKS = 32"
definition MAX_MONITORS :: nat where "MAX_MONITORS = 32"
definition MAX_SUPERVISORS :: nat where "MAX_SUPERVISORS = 64"
definition MAX_SUP_CHILDREN :: nat where "MAX_SUP_CHILDREN = 32"
definition SUP_MAX_RESTARTS :: nat where "SUP_MAX_RESTARTS = 5"
definition MAX_REGISTRY :: nat where "MAX_REGISTRY = 256"
definition MAX_TIMERS :: nat where "MAX_TIMERS = 256"
definition MAX_DICT_ENTRIES :: nat where "MAX_DICT_ENTRIES = 256"

datatype FiberState = FIBER_READY | FIBER_RUNNING | FIBER_SUSPENDED | FIBER_FINISHED

datatype SuspendReason =
    SUSPEND_GENERAL | SUSPEND_MAILBOX | SUSPEND_CHAN_RECV | SUSPEND_CHAN_SEND | SUSPEND_SELECT
  | SUSPEND_TASK_AWAIT | SUSPEND_REDUCTION

record fiber =
  fiber_state :: FiberState
  resume_value :: "tm option"
  fiber_result :: "tm option"
  suspend_reason :: SuspendReason
  suspend_channel_id :: int
  suspend_send_value :: "tm option"
  suspend_select_ids :: "int list"
  suspend_await_actor_id :: int
  select_round :: nat
  fiber_body :: tm
  body_env :: tm

record actor =
  actor_id :: int
  actor_fiber :: fiber
  actor_mailbox :: mailbox
  alive :: bool
  actor_result :: "tm option"
  links :: "int list"
  monitors :: "int list"
  trap_exit :: bool
  actor_dict :: "(tm \<times> tm) list"
  home_scheduler :: int
  wait_flag :: int

datatype SupervisorStrategy = SUP_ONE_FOR_ONE | SUP_ONE_FOR_ALL | SUP_REST_FOR_ONE

datatype ChildRestartType = CHILD_PERMANENT | CHILD_TRANSIENT | CHILD_TEMPORARY

text \<open>
  The lists of behaviours and children have the length \<open>child_count\<close>; \<open>child_restart\<close> is the whole
  array, since not every operation moves its entries with those of the other two.
\<close>

record supervisor =
  sup_id :: int
  strategy :: SupervisorStrategy
  child_specs :: "tm list"
  child_ids :: "int list"
  child_restart :: "ChildRestartType list"
  restart_count :: nat
  is_dynamic :: bool

record timer =
  timer_id :: int
  target_actor_id :: int
  remaining_ticks :: int
  timer_message :: "tm option"
  timer_active_flag :: bool

record world =
  actors :: "actor list"
  next_actor_id :: int
  alive_actors :: int
  current_actor :: "int option"
  supervisors :: "supervisor list"
  next_supervisor_id :: int
  registry :: names
  timers :: "timer list"
  next_timer_id :: int
  ets_tables :: "(tm, tm) ets"
  applications :: "(tm, tm) applications"
  agents :: "tm slots"
  stages :: "gen_stage slots"
  flows :: "flow slots"
  flow_registry :: names
  chan_table :: channel_table
  run_queue :: "int list"
  sched_running :: bool
  tls_scheduler_id :: int
  static_counters :: "string \<Rightarrow> int"
  world_ctx :: eval_context

subsection \<open>Creation and lookup\<close>

definition cell_actor :: "int \<Rightarrow> tm" where "cell_actor i = CActor () i"
definition cell_channel :: "int \<Rightarrow> tm" where "cell_channel i = CChannel () i"

definition actor_lookup :: "int \<Rightarrow> world \<Rightarrow> actor option" where
  "actor_lookup i w = find (\<lambda>a. actor_id a = i) (actors w)"

definition actor_lookup_by_index :: "int \<Rightarrow> world \<Rightarrow> actor option" where
  "actor_lookup_by_index i w =
     (if i < 0 \<or> int (length (actors w)) \<le> i then None else Some (actors w ! nat i))"

text \<open>A change of the actor that a pointer points to.\<close>

definition upd_actor :: "int \<Rightarrow> (actor \<Rightarrow> actor) \<Rightarrow> world \<Rightarrow> world" where
  "upd_actor i f w = w\<lparr>actors := map (\<lambda>a. if actor_id a = i then f a else a) (actors w)\<rparr>"

definition fiber_create :: "tm \<Rightarrow> tm \<Rightarrow> fiber" where
  "fiber_create body env =
     \<lparr>fiber_state = FIBER_READY, resume_value = None, fiber_result = None, suspend_reason = SUSPEND_GENERAL,
      suspend_channel_id = 0, suspend_send_value = None, suspend_select_ids = [], suspend_await_actor_id = 0,
      select_round = 0, fiber_body = body, body_env = env\<rparr>"

definition actor_create :: "tm \<Rightarrow> tm \<Rightarrow> world \<Rightarrow> int option \<times> world" where
  "actor_create behavior env w =
     (if MAX_ACTORS \<le> length (actors w) then (None, w)
      else let actor = \<lparr>actor_id = next_actor_id w, actor_fiber = fiber_create behavior env,
              actor_mailbox = mailbox_init MAILBOX_DEFAULT_CAP, alive = True, actor_result = None, links = [],
              monitors = [], trap_exit = False, actor_dict = [], home_scheduler = tls_scheduler_id w, wait_flag = 0\<rparr>
        in (Some (next_actor_id w),
            w\<lparr>actors := actors w @ [actor], next_actor_id := next_actor_id w + 1, alive_actors := alive_actors w + 1\<rparr>))"

subsection \<open>Messages\<close>

text \<open>
  An actor that is woken is taken over by its scheduler: the flag goes to 0, and if it was 1 the actor
  is put into the queue.
\<close>

definition wake_actor :: "int \<Rightarrow> world \<Rightarrow> world" where
  "wake_actor i w =
     (case actor_lookup i w of
        None \<Rightarrow> w
      | Some a \<Rightarrow>
          (let w = upd_actor i (\<lambda>a. a\<lparr>wait_flag := 0\<rparr>) w
           in if wait_flag a = 1 then w\<lparr>run_queue := run_queue w @ [i]\<rparr> else w))"

definition actor_send :: "int \<Rightarrow> tm \<Rightarrow> world \<Rightarrow> world option" where
  "actor_send i message w =
     (case actor_lookup i w of
        None \<Rightarrow> Some w
      | Some a \<Rightarrow>
          if \<not> alive a then Some w
          else do {
            (sent, mb) \<leftarrow> mailbox_send message (actor_mailbox a);
            let w = upd_actor i (\<lambda>a. a\<lparr>actor_mailbox := mb\<rparr>) w;
            Some (if sent then wake_actor i w else w)
          })"

definition actor_receive :: "int \<Rightarrow> world \<Rightarrow> (tm option \<times> world) option" where
  "actor_receive i w =
     (case actor_lookup i w of
        None \<Rightarrow> None
      | Some a \<Rightarrow> do {
          (message, mb) \<leftarrow> actor_receive_from (actor_mailbox a);
          Some (message, upd_actor i (\<lambda>a. a\<lparr>actor_mailbox := mb\<rparr>) w)
        })"

subsection \<open>Links and monitors\<close>

definition add_link :: "int \<Rightarrow> actor \<Rightarrow> actor" where
  "add_link j a = (if j \<notin> set (links a) \<and> length (links a) < MAX_LINKS then a\<lparr>links := links a @ [j]\<rparr> else a)"

definition remove_link :: "int \<Rightarrow> actor \<Rightarrow> actor" where
  "remove_link j a =
     (case position (\<lambda>k. k = j) (links a) of Some p \<Rightarrow> a\<lparr>links := swap_remove p (links a)\<rparr> | None \<Rightarrow> a)"

definition actor_link :: "int \<Rightarrow> int \<Rightarrow> world \<Rightarrow> world" where
  "actor_link a b w = upd_actor b (add_link a) (upd_actor a (add_link b) w)"

definition actor_unlink :: "int \<Rightarrow> int \<Rightarrow> world \<Rightarrow> world" where
  "actor_unlink a b w = upd_actor b (remove_link a) (upd_actor a (remove_link b) w)"

definition actor_add_monitor :: "int \<Rightarrow> int \<Rightarrow> world \<Rightarrow> bool \<times> world" where
  "actor_add_monitor target watcher w =
     (case actor_lookup target w of
        None \<Rightarrow> (False, w)
      | Some a \<Rightarrow>
          if \<not> alive a then (False, w)
          else (True,
                if length (monitors a) < MAX_MONITORS
                then upd_actor target (\<lambda>a. a\<lparr>monitors := monitors a @ [watcher]\<rparr>) w else w))"

subsection \<open>Supervisors\<close>

definition supervisor_lookup :: "int \<Rightarrow> world \<Rightarrow> supervisor option" where
  "supervisor_lookup i w = find (\<lambda>s. sup_id s = i) (supervisors w)"

definition supervisor_find_for_child :: "int \<Rightarrow> world \<Rightarrow> supervisor option" where
  "supervisor_find_for_child child w = find (\<lambda>s. child \<in> set (child_ids s)) (supervisors w)"

definition upd_sup :: "int \<Rightarrow> (supervisor \<Rightarrow> supervisor) \<Rightarrow> world \<Rightarrow> world" where
  "upd_sup i f w = w\<lparr>supervisors := map (\<lambda>s. if sup_id s = i then f s else s) (supervisors w)\<rparr>"

definition supervisor_create :: "SupervisorStrategy \<Rightarrow> tm \<Rightarrow> world \<Rightarrow> int option \<times> world" where
  "supervisor_create strat specs w =
     (if MAX_SUPERVISORS \<le> length (supervisors w) then (None, w)
      else let specs = take MAX_SUP_CHILDREN (list_elems specs);
               sv = \<lparr>sup_id = next_supervisor_id w, strategy = strat, child_specs = specs,
                      child_ids = map (\<lambda>_. 0) specs, child_restart = replicate MAX_SUP_CHILDREN CHILD_PERMANENT,
                      restart_count = 0, is_dynamic = False\<rparr>
        in (Some (next_supervisor_id w),
            w\<lparr>supervisors := supervisors w @ [sv], next_supervisor_id := next_supervisor_id w + 1\<rparr>))"

text \<open>
  A new actor gets two definitions, of its behaviour and of itself, and a body that applies the one to
  the other.
\<close>

definition spawn_body :: "int \<Rightarrow> tm" where
  "spawn_body i = cell_cons (cell_symbol (''__actor_fn_'' @ decimal (nat i)))
     (cell_cons (cell_symbol (''__actor_self_'' @ decimal (nat i))) cell_nil)"

definition spawn_actor :: "tm \<Rightarrow> world \<Rightarrow> int option \<times> world" where
  "spawn_actor behavior w =
     (case actor_create cell_nil (ctx_env (world_ctx w)) w of
        (None, w) \<Rightarrow> (None, w)
      | (Some i, w) \<Rightarrow>
          (let ctx = eval_define (''__actor_fn_'' @ decimal (nat i)) behavior (world_ctx w);
               ctx = eval_define (''__actor_self_'' @ decimal (nat i)) (cell_actor i) ctx
           in (Some i, upd_actor i (\<lambda>a. a\<lparr>actor_fiber := (actor_fiber a)\<lparr>fiber_body := spawn_body i\<rparr>\<rparr>)
                         (w\<lparr>world_ctx := ctx\<rparr>))))"

definition supervisor_spawn_child :: "int \<Rightarrow> nat \<Rightarrow> world \<Rightarrow> int \<times> world" where
  "supervisor_spawn_child s i w =
     (case supervisor_lookup s w of
        None \<Rightarrow> (0, w)
      | Some sv \<Rightarrow>
          if length (child_ids sv) \<le> i then (0, w)
          else case spawn_actor (child_specs sv ! i) w of
            (None, w) \<Rightarrow> (0, w)
          | (Some c, w) \<Rightarrow> (c, upd_sup s (\<lambda>sv. sv\<lparr>child_ids := (child_ids sv)[i := c]\<rparr>) w))"

text \<open>The entries above a place of an array move down, as far as \<open>n\<close> entries are in use.\<close>

definition shift_down :: "nat \<Rightarrow> nat \<Rightarrow> 'a list \<Rightarrow> 'a list" where
  "shift_down i n xs = take i xs @ take (n - 1 - i) (drop (i + 1) xs) @ drop (n - 1) xs"

definition drop_child :: "nat \<Rightarrow> supervisor \<Rightarrow> supervisor" where
  "drop_child i sv =
     sv\<lparr>child_specs := take i (child_specs sv) @ drop (i + 1) (child_specs sv),
         child_ids := take i (child_ids sv) @ drop (i + 1) (child_ids sv)\<rparr>"

definition dynsup_remove_child_at :: "nat \<Rightarrow> supervisor \<Rightarrow> supervisor" where
  "dynsup_remove_child_at i sv =
     (drop_child i sv)\<lparr>child_restart := shift_down i (length (child_ids sv)) (child_restart sv)\<rparr>"

subsection \<open>Exit\<close>

definition is_error_result :: "tm option \<Rightarrow> bool" where
  "is_error_result r = (case r of Some c \<Rightarrow> cell_is_error c | None \<Rightarrow> False)"

definition mark_dead :: "int \<Rightarrow> tm option \<Rightarrow> world \<Rightarrow> world" where
  "mark_dead i r w =
     (upd_actor i (\<lambda>a. a\<lparr>alive := False, actor_result := r\<rparr>) w)\<lparr>alive_actors := alive_actors w - 1\<rparr>"

definition exit_message :: "int \<Rightarrow> tm \<Rightarrow> tm" where
  "exit_message i reason =
     cell_cons (cell_symbol '':EXIT'') (cell_cons (cell_number (double_of_int i)) (cell_cons reason cell_nil))"

definition down_message :: "int \<Rightarrow> tm \<Rightarrow> tm" where
  "down_message i reason =
     cell_cons (cell_symbol '':DOWN'') (cell_cons (cell_number (double_of_int i)) (cell_cons reason cell_nil))"

text \<open>
  The exit of an actor reaches others, which exit in turn. The operations below take the notification
  of an exit as an argument; \<open>notify_exit\<close> ties the knot with a bound on the depth.
\<close>

type_synonym notifier = "int \<Rightarrow> tm option \<Rightarrow> world \<Rightarrow> world option"

definition exit_signal :: "notifier \<Rightarrow> int \<Rightarrow> int \<Rightarrow> tm \<Rightarrow> world \<Rightarrow> world option" where
  "exit_signal notify target sender reason w =
     (case actor_lookup target w of
        None \<Rightarrow> Some w
      | Some a \<Rightarrow>
          if \<not> alive a then Some w
          else if trap_exit a then actor_send target (exit_message sender reason) w
          else notify target (Some reason) (mark_dead target (Some reason) w))"

definition kill_child :: "notifier \<Rightarrow> int \<Rightarrow> nat \<Rightarrow> world \<Rightarrow> world option" where
  "kill_child notify s i w =
     (case supervisor_lookup s w of
        None \<Rightarrow> Some w
      | Some sv \<Rightarrow>
          if length (child_ids sv) \<le> i then Some w
          else let c = child_ids sv ! i
            in case actor_lookup c w of
              None \<Rightarrow> Some w
            | Some a \<Rightarrow>
                if alive a then let r = Some (cell_symbol '':shutdown'') in notify c r (mark_dead c r w)
                else Some w)"

definition respawn_from :: "int \<Rightarrow> nat \<Rightarrow> world \<Rightarrow> world" where
  "respawn_from s a w =
     (case supervisor_lookup s w of
        None \<Rightarrow> w
      | Some sv \<Rightarrow> fold (\<lambda>i w. snd (supervisor_spawn_child s i w)) [a..<length (child_ids sv)] w)"

text \<open>
  The loops over the children read \<open>child_count\<close> again each time; a place beyond it is passed over
  (\<open>kill_child\<close>), so they go over all the places of the array.
\<close>

definition supervisor_handle_exit :: "notifier \<Rightarrow> int \<Rightarrow> int \<Rightarrow> world \<Rightarrow> world option" where
  "supervisor_handle_exit notify s dead_id w =
     (case supervisor_lookup s w of
        None \<Rightarrow> Some w
      | Some sv \<Rightarrow>
          if SUP_MAX_RESTARTS \<le> restart_count sv then Some w
          else case position (\<lambda>c. c = dead_id) (child_ids sv) of
            None \<Rightarrow> Some w
          | Some d \<Rightarrow>
              if is_dynamic sv \<and> child_restart sv ! d = CHILD_TEMPORARY
              then Some (upd_sup s (dynsup_remove_child_at d) w)
              else
                let w = upd_sup s (\<lambda>sv. sv\<lparr>restart_count := restart_count sv + 1\<rparr>) w
                in case strategy sv of
                  SUP_ONE_FOR_ONE \<Rightarrow> Some (snd (supervisor_spawn_child s d w))
                | SUP_ONE_FOR_ALL \<Rightarrow>
                    map_option (respawn_from s 0)
                      (ofold (kill_child notify s) (filter (\<lambda>i. i \<noteq> d) [0..<MAX_SUP_CHILDREN]) w)
                | SUP_REST_FOR_ONE \<Rightarrow>
                    map_option (respawn_from s d) (ofold (kill_child notify s) [d + 1..<MAX_SUP_CHILDREN] w))"

definition notify_supervisor :: "notifier \<Rightarrow> int \<Rightarrow> tm option \<Rightarrow> world \<Rightarrow> world option" where
  "notify_supervisor notify i reason w =
     (case supervisor_find_for_child i w of
        None \<Rightarrow> Some w
      | Some sv \<Rightarrow>
          if is_error_result reason then supervisor_handle_exit notify (sup_id sv) i w
          else if is_dynamic sv then
            (case position (\<lambda>c. c = i) (child_ids sv) of
               None \<Rightarrow> Some w
             | Some d \<Rightarrow>
                 Some (if child_restart sv ! d = CHILD_TEMPORARY \<or> child_restart sv ! d = CHILD_TRANSIENT
                       then upd_sup (sup_id sv) (dynsup_remove_child_at d) w else w))
          else Some w)"

definition notify_monitor :: "int \<Rightarrow> tm option \<Rightarrow> int \<Rightarrow> world \<Rightarrow> world option" where
  "notify_monitor i reason watcher w =
     (case actor_lookup watcher w of
        None \<Rightarrow> Some w
      | Some a \<Rightarrow>
          if alive a
          then actor_send watcher
                 (down_message i (if is_error_result reason then the reason else cell_symbol '':normal'')) w
          else Some w)"

definition notify_link :: "notifier \<Rightarrow> int \<Rightarrow> tm option \<Rightarrow> int \<Rightarrow> world \<Rightarrow> world option" where
  "notify_link notify i reason linked w =
     (case actor_lookup linked w of
        None \<Rightarrow> Some w
      | Some a \<Rightarrow>
          if \<not> alive a then Some w
          else if is_error_result reason then exit_signal notify linked i (the reason) w
          else if trap_exit a then actor_send linked (exit_message i (cell_symbol '':normal'')) w
          else Some w)"

definition notify_exit_body :: "notifier \<Rightarrow> notifier" where
  "notify_exit_body notify i reason w = do {
     w \<leftarrow> notify_supervisor notify i reason
            (w\<lparr>ets_tables := ets_destroy_by_owner i (ets_tables w), registry := names_unregister_id i (registry w)\<rparr>);
     case actor_lookup i w of
       None \<Rightarrow> Some w
     | Some a \<Rightarrow> do {
         w \<leftarrow> ofold (notify_monitor i reason) (monitors a) (upd_actor i (\<lambda>a. a\<lparr>monitors := [], links := []\<rparr>) w);
         ofold (notify_link notify i reason) (links a) w
       }
   }"

primrec notify_exit :: "nat \<Rightarrow> notifier" where
  "notify_exit 0 i reason w = None"
| "notify_exit (Suc n) i reason w = notify_exit_body (notify_exit n) i reason w"

text \<open>
  An exit is notified for an actor that has just been marked dead. Each of the 64 supervisors restarts
  at most five times and starts at most 32 actors each time, so this depth is never reached.
\<close>

definition EXIT_DEPTH :: nat where
  "EXIT_DEPTH = (MAX_SUP_CHILDREN + 1) * SUP_MAX_RESTARTS * MAX_SUPERVISORS + MAX_ACTORS + 1"

definition actor_notify_exit :: notifier where
  "actor_notify_exit = notify_exit EXIT_DEPTH"

definition actor_exit_signal :: "int \<Rightarrow> int option \<Rightarrow> tm \<Rightarrow> world \<Rightarrow> world option" where
  "actor_exit_signal target sender reason w =
     exit_signal actor_notify_exit target (case sender of Some i \<Rightarrow> i | None \<Rightarrow> 0) reason w"

text \<open>Actors that wait for the result of \<open>i\<close> are woken.\<close>

definition wake_awaiting :: "int \<Rightarrow> int \<Rightarrow> world \<Rightarrow> world" where
  "wake_awaiting i j w =
     (case actor_lookup j w of
        None \<Rightarrow> w
      | Some a \<Rightarrow>
          if alive a \<and> fiber_state (actor_fiber a) = FIBER_SUSPENDED \<and>
             suspend_reason (actor_fiber a) = SUSPEND_TASK_AWAIT \<and> suspend_await_actor_id (actor_fiber a) = i
          then wake_actor j w else w)"

definition actor_finish :: "int \<Rightarrow> tm option \<Rightarrow> world \<Rightarrow> (bool \<times> world) option" where
  "actor_finish i r w =
     (case actor_lookup i w of
        None \<Rightarrow> None
      | Some a \<Rightarrow>
          if \<not> alive a then Some (False, w)
          else do {
            w \<leftarrow> actor_notify_exit i r
                   (upd_actor i (\<lambda>a. a\<lparr>actor_fiber := (actor_fiber a)\<lparr>fiber_result := None\<rparr>\<rparr>) (mark_dead i r w));
            Some (True, fold (wake_awaiting i) (map actor_id (actors w)) w)
          })"

subsection \<open>Names\<close>

definition actor_registry_register :: "string \<Rightarrow> int \<Rightarrow> world \<Rightarrow> int \<times> world" where
  "actor_registry_register nm i w =
     (let (r, reg) = names_register MAX_REGISTRY (\<lambda>i. case actor_lookup i w of Some a \<Rightarrow> alive a | None \<Rightarrow> False)
                       nm i (registry w)
      in (r, w\<lparr>registry := reg\<rparr>))"

definition actor_registry_lookup :: "string \<Rightarrow> world \<Rightarrow> int" where
  "actor_registry_lookup nm w = names_lookup nm (registry w)"

definition actor_registry_unregister_name :: "string \<Rightarrow> world \<Rightarrow> int \<times> world" where
  "actor_registry_unregister_name nm w =
     (let (r, reg) = names_unregister_name nm (registry w) in (r, w\<lparr>registry := reg\<rparr>))"

definition actor_registry_unregister_actor :: "int \<Rightarrow> world \<Rightarrow> world" where
  "actor_registry_unregister_actor i w = w\<lparr>registry := names_unregister_id i (registry w)\<rparr>"

definition actor_registry_list :: "world \<Rightarrow> tm" where
  "actor_registry_list w = names_list (registry w)"

subsection \<open>Timers\<close>

definition timer_create :: "int \<Rightarrow> int \<Rightarrow> tm option \<Rightarrow> world \<Rightarrow> int \<times> world" where
  "timer_create target ticks message w =
     (if MAX_TIMERS \<le> length (timers w) then (-1, w)
      else (next_timer_id w,
            w\<lparr>timers := timers w @ [\<lparr>timer_id = next_timer_id w, target_actor_id = target, remaining_ticks = ticks,
                timer_message = message, timer_active_flag = True\<rparr>],
              next_timer_id := next_timer_id w + 1\<rparr>))"

definition stop_timer :: "timer \<Rightarrow> timer" where
  "stop_timer t = t\<lparr>timer_active_flag := False, timer_message := None\<rparr>"

definition timer_cancel :: "int \<Rightarrow> world \<Rightarrow> int \<times> world" where
  "timer_cancel i w =
     (case position (\<lambda>t. timer_id t = i \<and> timer_active_flag t) (timers w) of
        None \<Rightarrow> (-1, w)
      | Some k \<Rightarrow> (0, w\<lparr>timers := (timers w)[k := stop_timer (timers w ! k)]\<rparr>))"

definition timer_active :: "int \<Rightarrow> world \<Rightarrow> bool" where
  "timer_active i w = (case find (\<lambda>t. timer_id t = i) (timers w) of Some t \<Rightarrow> timer_active_flag t | None \<Rightarrow> False)"

definition timer_tick :: "nat \<Rightarrow> bool \<times> world \<Rightarrow> (bool \<times> world) option" where
  "timer_tick k s =
     (case s of (fired, w) \<Rightarrow>
        let t = timers w ! k
        in if \<not> timer_active_flag t then Some (fired, w)
           else if 0 < remaining_ticks t
           then Some (fired, w\<lparr>timers := (timers w)[k := t\<lparr>remaining_ticks := remaining_ticks t - 1\<rparr>]\<rparr>)
           else do {
             w \<leftarrow> (case timer_message t of None \<Rightarrow> Some w | Some m \<Rightarrow> actor_send (target_actor_id t) m w);
             Some (True, w\<lparr>timers := (timers w)[k := stop_timer t]\<rparr>)
           })"

definition timer_tick_all :: "world \<Rightarrow> (bool \<times> world) option" where
  "timer_tick_all w = ofold timer_tick [0..<length (timers w)] (False, w)"

definition timer_any_pending :: "world \<Rightarrow> bool" where
  "timer_any_pending w \<longleftrightarrow> list_ex timer_active_flag (timers w)"

definition timer_reset_all :: "world \<Rightarrow> world" where
  "timer_reset_all w = w\<lparr>timers := [], next_timer_id := 1\<rparr>"

subsection \<open>Reset\<close>

definition actor_reset_all :: "world \<Rightarrow> world" where
  "actor_reset_all w =
     (timer_reset_all w)\<lparr>ets_tables := ets_reset_all (ets_tables w), registry := [], supervisors := [],
       next_supervisor_id := 1, actors := [], next_actor_id := 1, current_actor := None, alive_actors := 0,
       chan_table := channel_reset_all (chan_table w), applications := app_reset_all (applications w),
       agents := agent_reset_all (agents w), stages := stage_reset_all (stages w), flows := flow_reset_all (flows w),
       flow_registry := flow_registry_reset (flow_registry w)\<rparr>"

text \<open>The globals at the start of the program.\<close>

definition initial_world :: "eval_context \<Rightarrow> world" where
  "initial_world ctx =
     \<lparr>actors = [], next_actor_id = 1, alive_actors = 0, current_actor = None, supervisors = [],
      next_supervisor_id = 1, registry = [], timers = [], next_timer_id = 1, ets_tables = [], applications = [],
      agents = no_slots MAX_AGENTS, stages = no_slots MAX_STAGES, flows = no_slots MAX_FLOWS, flow_registry = [],
      chan_table = \<lparr>g_channels = [], g_next_channel_id = 1\<rparr>, run_queue = [], sched_running = False,
      tls_scheduler_id = 0, static_counters = (\<lambda>_. 0), world_ctx = ctx\<rparr>"

end
