(* ===== verification/ActorFacts.thy ===== *)
theory ActorFacts
  imports Actors
begin

section \<open>Facts about actors\<close>

text \<open>
  Exit signals spread to linked actors and through supervisors, which start new actors. First the
  effect of the single operations on what is found under a number, then that the propagation ends,
  and last which actors it reaches.
\<close>

subsection \<open>Lookup\<close>

lemma find_map_upd:
  "(\<And>a. g (f a) = g a) \<Longrightarrow>
    find (\<lambda>a. g a = j) (map (\<lambda>a. if g a = i then f a else a) xs) =
      (if i = j then map_option f (find (\<lambda>a. g a = j) xs) else find (\<lambda>a. g a = j) xs)"
  by (induction xs) auto

lemma lookup_upd:
  "(\<And>a. actor_id (f a) = actor_id a) \<Longrightarrow>
    actor_lookup j (upd_actor i f w) = (if i = j then map_option f (actor_lookup j w) else actor_lookup j w)"
  by (simp add: actor_lookup_def upd_actor_def find_map_upd)

lemma upd_actor_rest [simp]:
  "supervisors (upd_actor i f w) = supervisors w" "registry (upd_actor i f w) = registry w"
  "ets_tables (upd_actor i f w) = ets_tables w" "length (actors (upd_actor i f w)) = length (actors w)"
  "timers (upd_actor i f w) = timers w" "next_actor_id (upd_actor i f w) = next_actor_id w"
  by (simp_all add: upd_actor_def)

lemma mark_dead_rest [simp]:
  "supervisors (mark_dead i r w) = supervisors w" "registry (mark_dead i r w) = registry w"
  "ets_tables (mark_dead i r w) = ets_tables w" "length (actors (mark_dead i r w)) = length (actors w)"
  "next_actor_id (mark_dead i r w) = next_actor_id w"
  by (simp_all add: mark_dead_def)

lemma lookup_mark_dead:
  "actor_lookup j (mark_dead i r w) =
    (if i = j then map_option (\<lambda>a. a\<lparr>alive := False, actor_result := r\<rparr>) (actor_lookup j w) else actor_lookup j w)"
proof -
  have "actor_lookup j (mark_dead i r w) = actor_lookup j (upd_actor i (\<lambda>a. a\<lparr>alive := False, actor_result := r\<rparr>) w)"
    by (simp add: mark_dead_def actor_lookup_def)
  then show ?thesis by (simp add: lookup_upd)
qed

lemma lookup_other [simp]:
  "actor_lookup j (w\<lparr>ets_tables := t\<rparr>) = actor_lookup j w" "actor_lookup j (w\<lparr>registry := g\<rparr>) = actor_lookup j w"
  "actor_lookup j (w\<lparr>run_queue := q\<rparr>) = actor_lookup j w" "actor_lookup j (w\<lparr>world_ctx := c\<rparr>) = actor_lookup j w"
  by (simp_all add: actor_lookup_def)

lemma lookup_in: "actor_lookup i w = Some a \<Longrightarrow> a \<in> set (actors w) \<and> actor_id a = i"
  by (auto simp: actor_lookup_def find_Some_iff)

subsection \<open>Well-formed worlds\<close>

definition world_ok :: "world \<Rightarrow> bool" where
  "world_ok w \<longleftrightarrow> (\<forall>a \<in> set (actors w). mb_ok (actor_mailbox a)) \<and>
     (\<forall>s \<in> set (supervisors w). length (child_ids s) \<le> MAX_SUP_CHILDREN) \<and>
     length (actors w) \<le> MAX_ACTORS \<and> length (supervisors w) \<le> MAX_SUPERVISORS"

definition exit_measure :: "world \<Rightarrow> nat" where
  "exit_measure w = (MAX_SUP_CHILDREN + 1) * (\<Sum>s \<leftarrow> supervisors w. SUP_MAX_RESTARTS - restart_count s) +
     length (filter alive (actors w))"

lemma exit_measure_bound:
  assumes "world_ok w"
  shows "exit_measure w < EXIT_DEPTH"
proof -
  have "(\<Sum>s \<leftarrow> ss. SUP_MAX_RESTARTS - restart_count s) \<le> SUP_MAX_RESTARTS * length ss" for ss :: "supervisor list"
    by (induction ss) auto
  then have "(\<Sum>s \<leftarrow> supervisors w. SUP_MAX_RESTARTS - restart_count s) \<le> SUP_MAX_RESTARTS * length (supervisors w)" .
  also have "\<dots> \<le> SUP_MAX_RESTARTS * MAX_SUPERVISORS" using assms by (simp add: world_ok_def)
  finally have 1: "(MAX_SUP_CHILDREN + 1) * (\<Sum>s \<leftarrow> supervisors w. SUP_MAX_RESTARTS - restart_count s) \<le>
      (MAX_SUP_CHILDREN + 1) * (SUP_MAX_RESTARTS * MAX_SUPERVISORS)" by (rule mult_le_mono2)
  have "length (filter alive (actors w)) \<le> length (actors w)" by (rule length_filter_le)
  also have "\<dots> \<le> MAX_ACTORS" using assms by (simp add: world_ok_def)
  finally show ?thesis using 1 unfolding exit_measure_def EXIT_DEPTH_def
    by (simp only: mult.assoc [symmetric])
qed

text \<open>A step that ends in a well-formed world without raising the measure.\<close>

definition settles :: "world option \<Rightarrow> world \<Rightarrow> bool" where
  "settles r w \<longleftrightarrow> (\<exists>w'. r = Some w' \<and> world_ok w' \<and> exit_measure w' \<le> exit_measure w)"

lemma settles_Some: "world_ok w \<Longrightarrow> settles (Some w) w"
  by (simp add: settles_def)

lemma settlesI: "world_ok w' \<Longrightarrow> exit_measure w' \<le> exit_measure w \<Longrightarrow> settles (Some w') w"
  by (simp add: settles_def)

lemma settles_bind:
  "settles r w \<Longrightarrow> (\<And>w'. world_ok w' \<Longrightarrow> exit_measure w' \<le> exit_measure w \<Longrightarrow> settles (f w') w') \<Longrightarrow>
    settles (Option.bind r f) w"
  by (fastforce simp: settles_def)

lemma settles_ofold:
  assumes "world_ok w" "exit_measure w \<le> m"
    and "\<And>x w. world_ok w \<Longrightarrow> exit_measure w \<le> m \<Longrightarrow> settles (f x w) w"
  shows "settles (ofold f xs w) w"
  using assms(1,2)
proof (induction xs arbitrary: w)
  case (Cons x xs)
  then show ?case using assms(3) [OF Cons.prems, of x]
    by (auto intro!: settles_bind Cons.IH)
qed (simp add: settles_Some)

subsection \<open>Messages\<close>

text \<open>What a message leaves as it is.\<close>

definition actor_core :: "actor \<Rightarrow> int \<times> bool \<times> tm option \<times> int list \<times> int list \<times> bool" where
  "actor_core a = (actor_id a, alive a, actor_result a, links a, monitors a, trap_exit a)"

lemma alive_core: "map actor_core xs = map actor_core ys \<Longrightarrow> length (filter alive xs) = length (filter alive ys)"
proof (induction xs arbitrary: ys)
  case (Cons x xs)
  then obtain y ys' where "ys = y # ys'" "actor_core x = actor_core y" "map actor_core xs = map actor_core ys'"
    by (cases ys) auto
  moreover from this(2) have "alive x = alive y" by (simp add: actor_core_def)
  ultimately show ?case using Cons.IH [of ys'] by simp
qed simp

lemma map_core_upd:
  "(\<And>a. actor_core (f a) = actor_core a) \<Longrightarrow> map actor_core (actors (upd_actor i f w)) = map actor_core (actors w)"
  by (simp add: upd_actor_def)

lemma actor_send_effect:
  assumes "world_ok w"
  obtains w' where "actor_send i m w = Some w'" "world_ok w'" "map actor_core (actors w') = map actor_core (actors w)"
    "supervisors w' = supervisors w" "registry w' = registry w" "ets_tables w' = ets_tables w"
    "timers w' = timers w"
    "\<And>j. map_option actor_core (actor_lookup j w') = map_option actor_core (actor_lookup j w)"
    "\<And>j. map_option (mb_list \<circ> actor_mailbox) (actor_lookup j w') =
      map_option (\<lambda>a. if j = i \<and> alive a then take 256 (mb_list (actor_mailbox a) @ [m]) else mb_list (actor_mailbox a))
        (actor_lookup j w)"
proof (cases "\<exists>a. actor_lookup i w = Some a \<and> alive a")
  case False
  then have "actor_send i m w = Some w" by (auto simp: actor_send_def split: option.splits)
  moreover have "map_option (mb_list \<circ> actor_mailbox) (actor_lookup j w) =
      map_option (\<lambda>a. if j = i \<and> alive a then take 256 (mb_list (actor_mailbox a) @ [m]) else mb_list (actor_mailbox a))
        (actor_lookup j w)" for j
    using False by (cases "actor_lookup j w") auto
  ultimately show ?thesis using that assms by blast
next
  case True
  then obtain a where a: "actor_lookup i w = Some a" "alive a" by blast
  then have okmb: "mb_ok (actor_mailbox a)" using assms lookup_in by (auto simp: world_ok_def)
  from mbox.enq_law [OF this, of m] obtain mb where mb:
    "mailbox_send m (actor_mailbox a) = Some (length (mb_list (actor_mailbox a)) < 256, mb)" "mb_ok mb"
    "mb_list mb = take 256 (mb_list (actor_mailbox a) @ [m])"
    using mb_size_le [OF okmb] by (auto split: if_splits)
  define w1 where "w1 = upd_actor i (\<lambda>a. a\<lparr>actor_mailbox := mb\<rparr>) w"
  define w2 where "w2 = upd_actor i (\<lambda>a. a\<lparr>wait_flag := 0\<rparr>) w1"
  define w' where "w' = (if length (mb_list (actor_mailbox a)) < 256 then wake_actor i w1 else w1)"
  have w'_cases: "w' = w1 \<or> w' = w2 \<or> w' = w2\<lparr>run_queue := run_queue w2 @ [i]\<rparr>"
    by (auto simp: w'_def wake_actor_def w2_def Let_def split: option.splits)
  have send: "actor_send i m w = Some w'"
    using a mb by (simp add: actor_send_def w'_def w1_def)
  have core: "map actor_core (actors w') = map actor_core (actors w)"
    using w'_cases by (auto simp: w1_def w2_def map_core_upd actor_core_def)
  have rest: "supervisors w' = supervisors w" "registry w' = registry w" "ets_tables w' = ets_tables w"
      "length (actors w') = length (actors w)" "timers w' = timers w"
    using w'_cases by (auto simp: w1_def w2_def)
  have ok': "world_ok w'"
  proof -
    have "\<forall>a \<in> set (actors w'). mb_ok (actor_mailbox a)"
      using w'_cases assms mb(2) by (auto simp: w1_def w2_def upd_actor_def world_ok_def)
    then show ?thesis using assms rest by (simp add: world_ok_def)
  qed
  have look1: "actor_lookup j w1 = (if i = j then Some (a\<lparr>actor_mailbox := mb\<rparr>) else actor_lookup j w)" for j
    using a by (auto simp: w1_def lookup_upd)
  have look2: "actor_lookup j w2 = (if i = j then Some (a\<lparr>actor_mailbox := mb, wait_flag := 0\<rparr>) else actor_lookup j w)" for j
    using a by (auto simp: w2_def lookup_upd look1)
  have "map_option actor_core (actor_lookup j w') = map_option actor_core (actor_lookup j w)" for j
    using w'_cases a by (auto simp: look1 look2 actor_core_def)
  moreover have "map_option (mb_list \<circ> actor_mailbox) (actor_lookup j w') =
      map_option (\<lambda>a. if j = i \<and> alive a then take 256 (mb_list (actor_mailbox a) @ [m]) else mb_list (actor_mailbox a))
        (actor_lookup j w)" for j
  proof (cases "j = i")
    case True
    have "\<exists>b. actor_lookup i w' = Some b \<and> actor_mailbox b = mb"
      using w'_cases by (auto simp: look1 look2)
    then obtain b where "actor_lookup i w' = Some b" "actor_mailbox b = mb" by blast
    with True a mb(3) show ?thesis by simp
  next
    case False
    then have "actor_lookup j w' = actor_lookup j w" using w'_cases by (auto simp: look1 look2)
    with False show ?thesis by (simp add: comp_def)
  qed
  ultimately show ?thesis by (rule that [OF send ok' core rest(1-3) rest(5)])
qed

lemma send_settles: "world_ok w \<Longrightarrow> settles (actor_send i m w) w"
proof -
  assume "world_ok w"
  then obtain w' where w': "actor_send i m w = Some w'" "world_ok w'" "map actor_core (actors w') = map actor_core (actors w)"
    "supervisors w' = supervisors w" by (rule actor_send_effect [of w i m])
  from alive_core [OF w'(3)] w'(4) have "exit_measure w' = exit_measure w" by (simp add: exit_measure_def)
  with w'(1,2) show ?thesis by (simp add: settles_def)
qed

subsection \<open>The propagation of exits ends\<close>

lemma ok_upd:
  "world_ok w \<Longrightarrow> (\<And>a. actor_mailbox (f a) = actor_mailbox a) \<Longrightarrow> world_ok (upd_actor i f w)"
  by (auto simp: world_ok_def upd_actor_def)

lemma length_filter_upd:
  "(\<And>x. alive (f x) = alive x) \<Longrightarrow> length (filter alive (map (\<lambda>a. if actor_id a = i then f a else a) xs)) = length (filter alive xs)"
  by (induction xs) auto

lemma measure_upd: "(\<And>a. alive (f a) = alive a) \<Longrightarrow> exit_measure (upd_actor i f w) = exit_measure w"
  using length_filter_upd [of f i "actors w"] by (simp add: exit_measure_def upd_actor_def)

lemma ok_mark_dead: "world_ok w \<Longrightarrow> world_ok (mark_dead i r w)"
  using ok_upd [of w "\<lambda>a. a\<lparr>alive := False, actor_result := r\<rparr>" i] by (simp add: mark_dead_def world_ok_def)

lemma filter_dead_le:
  "length (filter alive (map (\<lambda>a. if actor_id a = i then a\<lparr>alive := False, actor_result := r\<rparr> else a) xs)) \<le>
    length (filter alive xs)"
  by (induction xs) auto

lemma filter_dead_less:
  "find (\<lambda>a. actor_id a = i) xs = Some a \<Longrightarrow> alive a \<Longrightarrow>
    length (filter alive (map (\<lambda>a. if actor_id a = i then a\<lparr>alive := False, actor_result := r\<rparr> else a) xs)) <
      length (filter alive xs)"
proof (induction xs)
  case (Cons x xs)
  then show ?case using filter_dead_le [of i r xs] by (auto simp: less_Suc_eq_le split: if_splits)
qed simp

lemma measure_mark_dead:
  assumes "actor_lookup i w = Some a" "alive a"
  shows "exit_measure (mark_dead i r w) < exit_measure w"
  using filter_dead_less [of i "actors w" a r] assms
  by (simp add: exit_measure_def mark_dead_def upd_actor_def actor_lookup_def)

definition notifies :: "nat \<Rightarrow> notifier \<Rightarrow> bool" where
  "notifies m notify \<longleftrightarrow> (\<forall>i r w. world_ok w \<longrightarrow> exit_measure w < m \<longrightarrow> settles (notify i r w) w)"

lemma kill_settles:
  assumes "notifies m notify" "world_ok w" "exit_measure w \<le> m" "actor_lookup i w = Some a" "alive a"
  shows "settles (notify i r (mark_dead i r w)) w"
proof -
  have less: "exit_measure (mark_dead i r w) < exit_measure w" using assms by (intro measure_mark_dead)
  then have "settles (notify i r (mark_dead i r w)) (mark_dead i r w)"
    using assms ok_mark_dead by (simp add: notifies_def)
  with less show ?thesis by (auto simp: settles_def)
qed

lemma exit_signal_settles:
  "notifies m notify \<Longrightarrow> world_ok w \<Longrightarrow> exit_measure w \<le> m \<Longrightarrow> settles (exit_signal notify i s e w) w"
  by (auto simp: exit_signal_def settles_Some send_settles kill_settles split: option.split)

lemma kill_child_settles:
  "notifies m notify \<Longrightarrow> world_ok w \<Longrightarrow> exit_measure w \<le> m \<Longrightarrow> settles (kill_child notify s i w) w"
  by (auto simp: kill_child_def settles_Some kill_settles Let_def split: option.split)

lemma sum_upd_sup:
  "(\<And>s. restart_count (f s) = restart_count s) \<Longrightarrow>
    (\<Sum>s \<leftarrow> supervisors (upd_sup i f w). SUP_MAX_RESTARTS - restart_count s) =
    (\<Sum>s \<leftarrow> supervisors w. SUP_MAX_RESTARTS - restart_count s)"
  by (auto simp: upd_sup_def comp_def intro!: arg_cong [where f = sum_list])

lemma upd_sup_rest [simp]:
  "actors (upd_sup i f w) = actors w" "length (supervisors (upd_sup i f w)) = length (supervisors w)"
  "registry (upd_sup i f w) = registry w" "next_actor_id (upd_sup i f w) = next_actor_id w"
  by (simp_all add: upd_sup_def)

lemma measure_upd_sup:
  "(\<And>s. restart_count (f s) = restart_count s) \<Longrightarrow> exit_measure (upd_sup i f w) = exit_measure w"
  using sum_upd_sup [of f i w] by (simp add: exit_measure_def)

lemma ok_upd_sup:
  "world_ok w \<Longrightarrow> (\<And>s. length (child_ids s) \<le> MAX_SUP_CHILDREN \<Longrightarrow> length (child_ids (f s)) \<le> MAX_SUP_CHILDREN) \<Longrightarrow>
    world_ok (upd_sup i f w)"
  by (auto simp: world_ok_def upd_sup_def)

text \<open>A new actor, with its body.\<close>

definition new_actor :: "int \<Rightarrow> tm \<Rightarrow> tm \<Rightarrow> int \<Rightarrow> actor" where
  "new_actor i body env home =
     \<lparr>actor_id = i, actor_fiber = fiber_create body env, actor_mailbox = mailbox_init MAILBOX_DEFAULT_CAP, alive = True,
      actor_result = None, links = [], monitors = [], trap_exit = False, actor_dict = [], home_scheduler = home,
      wait_flag = 0\<rparr>"

lemma spawn_actor_full: "MAX_ACTORS \<le> length (actors w) \<Longrightarrow> spawn_actor b w = (None, w)"
  by (simp add: spawn_actor_def actor_create_def)

definition spawned :: "tm \<Rightarrow> world \<Rightarrow> world" where
  "spawned b w =
     w\<lparr>actors := map (\<lambda>a. if actor_id a = next_actor_id w
                        then a\<lparr>actor_fiber := (actor_fiber a)\<lparr>fiber_body := spawn_body (next_actor_id w)\<rparr>\<rparr> else a) (actors w) @
         [new_actor (next_actor_id w) (spawn_body (next_actor_id w)) (ctx_env (world_ctx w)) (tls_scheduler_id w)],
       next_actor_id := next_actor_id w + 1, alive_actors := alive_actors w + 1,
       world_ctx := eval_define (''__actor_self_'' @ decimal (nat (next_actor_id w))) (cell_actor (next_actor_id w))
         (eval_define (''__actor_fn_'' @ decimal (nat (next_actor_id w))) b (world_ctx w))\<rparr>"

lemma spawn_actor_room:
  assumes "length (actors w) < MAX_ACTORS"
  shows "spawn_actor b w = (Some (next_actor_id w), spawned b w)"
  using assms by (simp add: spawn_actor_def spawned_def actor_create_def upd_actor_def Let_def new_actor_def fiber_create_def)

lemma spawned_grows:
  assumes "world_ok w" "length (actors w) < MAX_ACTORS"
  shows "world_ok (spawned b w)" "exit_measure (spawned b w) = exit_measure w + 1"
proof -
  show "world_ok (spawned b w)" using assms mailbox_init_ok(1)
    by (auto simp: spawned_def world_ok_def new_actor_def)
  show "exit_measure (spawned b w) = exit_measure w + 1"
    using length_filter_upd [of "\<lambda>a. a\<lparr>actor_fiber := (actor_fiber a)\<lparr>fiber_body := spawn_body (next_actor_id w)\<rparr>\<rparr>"
        "next_actor_id w" "actors w"]
    by (simp add: spawned_def exit_measure_def new_actor_def)
qed

lemma spawn_child_grows:
  assumes "world_ok w"
  shows "world_ok (snd (supervisor_spawn_child s i w)) \<and>
    exit_measure (snd (supervisor_spawn_child s i w)) \<le> exit_measure w + 1"
proof (cases "supervisor_lookup s w")
  case None
  then show ?thesis using assms by (simp add: supervisor_spawn_child_def)
next
  case (Some sv)
  show ?thesis
  proof (cases "length (actors w) < MAX_ACTORS \<and> i < length (child_ids sv)")
    case False
    then show ?thesis using assms Some by (auto simp: supervisor_spawn_child_def spawn_actor_full not_less)
  next
    case True
    then have "snd (supervisor_spawn_child s i w) = upd_sup s
        (\<lambda>sv. sv\<lparr>child_ids := (child_ids sv)[i := next_actor_id w]\<rparr>) (spawned (child_specs sv ! i) w)"
      using Some by (simp add: supervisor_spawn_child_def spawn_actor_room)
    then show ?thesis using spawned_grows [OF assms] True by (simp add: ok_upd_sup measure_upd_sup)
  qed
qed

lemma fold_spawn_grows:
  "world_ok w \<Longrightarrow> world_ok (fold (\<lambda>i w. snd (supervisor_spawn_child s i w)) is w) \<and>
    exit_measure (fold (\<lambda>i w. snd (supervisor_spawn_child s i w)) is w) \<le> exit_measure w + length is"
proof (induction "is" arbitrary: w)
  case (Cons i "is")
  from spawn_child_grows [OF Cons.prems, of s i] Cons.IH [of "snd (supervisor_spawn_child s i w)"]
  show ?case by simp
qed simp

lemma respawn_grows:
  assumes "world_ok w"
  shows "world_ok (respawn_from s a w)" "exit_measure (respawn_from s a w) \<le> exit_measure w + MAX_SUP_CHILDREN"
proof -
  have "world_ok (respawn_from s a w) \<and> exit_measure (respawn_from s a w) \<le> exit_measure w + MAX_SUP_CHILDREN"
  proof (cases "supervisor_lookup s w")
    case None
    then show ?thesis using assms by (simp add: respawn_from_def)
  next
    case (Some sv)
    then have "length (child_ids sv) \<le> MAX_SUP_CHILDREN"
      using assms by (auto simp: world_ok_def supervisor_lookup_def find_Some_iff)
    then have "length [a..<length (child_ids sv)] \<le> MAX_SUP_CHILDREN" by simp
    with fold_spawn_grows [OF assms, of s "[a..<length (child_ids sv)]"] Some show ?thesis
      by (simp add: respawn_from_def)
  qed
  then show "world_ok (respawn_from s a w)" "exit_measure (respawn_from s a w) \<le> exit_measure w + MAX_SUP_CHILDREN"
    by blast+
qed

lemma sum_restart_le:
  "(\<Sum>s \<leftarrow> map (\<lambda>s. if sup_id s = i then s\<lparr>restart_count := restart_count s + 1\<rparr> else s) ss. SUP_MAX_RESTARTS - restart_count s) \<le>
    (\<Sum>s \<leftarrow> ss. SUP_MAX_RESTARTS - restart_count s)"
  by (induction ss) auto

lemma sum_restart_less:
  "find (\<lambda>s. sup_id s = i) ss = Some sv \<Longrightarrow> restart_count sv < SUP_MAX_RESTARTS \<Longrightarrow>
    (\<Sum>s \<leftarrow> map (\<lambda>s. if sup_id s = i then s\<lparr>restart_count := restart_count s + 1\<rparr> else s) ss. SUP_MAX_RESTARTS - restart_count s) <
    (\<Sum>s \<leftarrow> ss. SUP_MAX_RESTARTS - restart_count s)"
proof (induction ss)
  case (Cons s ss)
  show ?case
  proof (cases "sup_id s = i")
    case True
    with Cons.prems sum_restart_le [of i ss] show ?thesis by simp
  next
    case False
    with Cons show ?thesis by simp
  qed
qed simp

lemma measure_restart:
  assumes "supervisor_lookup i w = Some sv" "restart_count sv < SUP_MAX_RESTARTS"
  shows "exit_measure (upd_sup i (\<lambda>s. s\<lparr>restart_count := restart_count s + 1\<rparr>) w) + (MAX_SUP_CHILDREN + 1) \<le> exit_measure w"
proof -
  define A where "A = (\<Sum>s \<leftarrow> supervisors (upd_sup i (\<lambda>s. s\<lparr>restart_count := restart_count s + 1\<rparr>) w). SUP_MAX_RESTARTS - restart_count s)"
  define B where "B = (\<Sum>s \<leftarrow> supervisors w. SUP_MAX_RESTARTS - restart_count s)"
  have "A < B"
    using sum_restart_less [of i "supervisors w" sv] assms
    unfolding A_def B_def supervisor_lookup_def upd_sup_def by simp
  then have "(MAX_SUP_CHILDREN + 1) * A + (MAX_SUP_CHILDREN + 1) \<le> (MAX_SUP_CHILDREN + 1) * B"
    by (metis Suc_leI mult_Suc_right mult_le_mono2 add.commute)
  then show ?thesis unfolding exit_measure_def A_def [symmetric] B_def [symmetric] by simp
qed

lemma length_dynsup_remove: "length (child_ids (dynsup_remove_child_at d s)) \<le> length (child_ids s)"
  by (simp add: dynsup_remove_child_at_def drop_child_def)

lemma dynsup_settles: "world_ok w \<Longrightarrow> settles (Some (upd_sup s (dynsup_remove_child_at d) w)) w"
  by (intro settlesI ok_upd_sup)
    (auto simp: measure_upd_sup dynsup_remove_child_at_def drop_child_def)

lemma handle_exit_settles:
  assumes n: "notifies m notify" and w: "world_ok w" "exit_measure w \<le> m"
  shows "settles (supervisor_handle_exit notify s i w) w"
proof (cases "\<exists>sv d. supervisor_lookup s w = Some sv \<and> restart_count sv < SUP_MAX_RESTARTS \<and>
    position (\<lambda>c. c = i) (child_ids sv) = Some d \<and> \<not> (is_dynamic sv \<and> child_restart sv ! d = CHILD_TEMPORARY)")
  case False
  then show ?thesis using w(1)
    by (auto simp: supervisor_handle_exit_def settles_Some dynsup_settles split: option.splits)
next
  case True
  then obtain sv d where sv: "supervisor_lookup s w = Some sv" "restart_count sv < SUP_MAX_RESTARTS"
    "position (\<lambda>c. c = i) (child_ids sv) = Some d" "\<not> (is_dynamic sv \<and> child_restart sv ! d = CHILD_TEMPORARY)"
    by blast
  define w1 where "w1 = upd_sup s (\<lambda>sv. sv\<lparr>restart_count := Suc (restart_count sv)\<rparr>) w"
  have ok1: "world_ok w1" using w(1) by (simp add: w1_def ok_upd_sup)
  have m1: "exit_measure w1 + (MAX_SUP_CHILDREN + 1) \<le> exit_measure w"
    using measure_restart [OF sv(1,2)] by (simp add: w1_def)
  have kills: "settles (map_option (respawn_from s a) (ofold (kill_child notify s) is w1)) w" for a "is"
  proof -
    have "settles (ofold (kill_child notify s) is w1) w1"
      using m1 w(2) by (intro settles_ofold [OF ok1, of m] kill_child_settles [OF n]) auto
    then obtain w2 where "ofold (kill_child notify s) is w1 = Some w2" "world_ok w2" "exit_measure w2 \<le> exit_measure w1"
      by (auto simp: settles_def)
    with respawn_grows [of w2 s a] m1 show ?thesis by (auto simp: settles_def)
  qed
  have one: "settles (Some (snd (supervisor_spawn_child s d w1))) w"
    using spawn_child_grows [OF ok1, of s d] m1 by (auto simp: settles_def)
  show ?thesis using sv kills one
    by (auto simp: supervisor_handle_exit_def Let_def w1_def [symmetric] split: SupervisorStrategy.split)
qed

lemma notify_supervisor_settles:
  "notifies m notify \<Longrightarrow> world_ok w \<Longrightarrow> exit_measure w \<le> m \<Longrightarrow> settles (notify_supervisor notify i r w) w"
  by (auto simp: notify_supervisor_def settles_Some handle_exit_settles dynsup_settles split: option.split)

lemma notify_exit_body_settles:
  assumes n: "notifies m notify" and w: "world_ok w" "exit_measure w \<le> m"
  shows "settles (notify_exit_body notify i r w) w"
proof -
  define w0 where "w0 = w\<lparr>ets_tables := ets_destroy_by_owner i (ets_tables w), registry := names_unregister_id i (registry w)\<rparr>"
  have w0: "world_ok w0" "exit_measure w0 = exit_measure w" using w by (simp_all add: w0_def world_ok_def exit_measure_def)
  have links: "settles (ofold (notify_link notify i r) ls w) w" if "world_ok w" "exit_measure w \<le> m" for ls w
    using that by (rule settles_ofold)
      (auto simp: notify_link_def settles_Some send_settles exit_signal_settles [OF n] split: option.split)
  have monitors: "settles (ofold (notify_monitor i r) ms w) w" if "world_ok w" "exit_measure w \<le> m" for ms w
    using that by (rule settles_ofold)
      (auto simp: notify_monitor_def settles_Some send_settles split: option.split)
  have "settles (do {
     w \<leftarrow> notify_supervisor notify i r w0;
     case actor_lookup i w of
       None \<Rightarrow> Some w
     | Some a \<Rightarrow> do {
         w \<leftarrow> ofold (notify_monitor i r) (monitors a) (upd_actor i (\<lambda>a. a\<lparr>monitors := [], links := []\<rparr>) w);
         ofold (notify_link notify i r) (links a) w
       }
    }) w0"
  proof (rule settles_bind)
    show "settles (notify_supervisor notify i r w0) w0"
      using n w0 w by (simp add: notify_supervisor_settles)
    fix w2 assume w2: "world_ok w2" "exit_measure w2 \<le> exit_measure w0"
    show "settles (case actor_lookup i w2 of
       None \<Rightarrow> Some w2
     | Some a \<Rightarrow> do {
         w \<leftarrow> ofold (notify_monitor i r) (monitors a) (upd_actor i (\<lambda>a. a\<lparr>monitors := [], links := []\<rparr>) w2);
         ofold (notify_link notify i r) (links a) w
       }) w2"
    proof (cases "actor_lookup i w2")
      case None
      then show ?thesis using w2 by (simp add: settles_Some)
    next
      case (Some a)
      define w3 where "w3 = upd_actor i (\<lambda>a. a\<lparr>monitors := [], links := []\<rparr>) w2"
      have w3: "world_ok w3" "exit_measure w3 = exit_measure w2"
        using w2 by (simp_all add: w3_def ok_upd measure_upd)
      have "settles (Option.bind (ofold (notify_monitor i r) (monitors a) w3) (ofold (notify_link notify i r) (links a))) w3"
        using w2 w3 w0 w by (intro settles_bind monitors links) auto
      then show ?thesis using Some w3 by (simp add: w3_def [symmetric] settles_def)
    qed
  qed
  then show ?thesis using w0(2) by (simp add: notify_exit_body_def w0_def [symmetric] settles_def)
qed

lemma notify_exit_settles: "notifies n (notify_exit n)"
proof (induction n)
  case (Suc n)
  show ?case unfolding notifies_def
  proof (intro allI impI)
    fix i r w assume "world_ok w" "exit_measure w < Suc n"
    then show "settles (notify_exit (Suc n) i r w) w"
      using notify_exit_body_settles [OF Suc.IH] by simp
  qed
qed (simp add: notifies_def)

text \<open>
  C32. The propagation of an exit ends. From every well-formed world, whatever the links, the monitors
  and the supervisors with their restarts, an exit signal, the notification of an exit and the end of
  an actor return, without reaching the bound on the depth; the first two end in a well-formed world
  with no more alive actors and restarts left than before.
\<close>

theorem exit_propagation_ends:
  assumes "world_ok w"
  shows "(\<exists>w'. actor_exit_signal target sender reason w = Some w' \<and> world_ok w' \<and> exit_measure w' \<le> exit_measure w) \<and>
    (\<exists>w'. actor_notify_exit i r w = Some w' \<and> world_ok w' \<and> exit_measure w' \<le> exit_measure w) \<and>
    (actor_lookup i w \<noteq> None \<longrightarrow> actor_finish i r w \<noteq> None)"
proof -
  note depth = exit_measure_bound
  have notify: "settles (actor_notify_exit i r w) w" if "world_ok w" for w
    using notify_exit_settles [of EXIT_DEPTH] depth [OF that] that
    by (simp add: notifies_def actor_notify_exit_def)
  have "settles (actor_exit_signal target sender reason w) w"
    using exit_signal_settles [OF notify_exit_settles assms] depth [OF assms]
    by (simp add: actor_exit_signal_def actor_notify_exit_def)
  moreover have "actor_finish i r w \<noteq> None" if "actor_lookup i w = Some a" for a
  proof (cases "alive a")
    case True
    have "world_ok (upd_actor i (\<lambda>a. a\<lparr>actor_fiber := (actor_fiber a)\<lparr>fiber_result := None\<rparr>\<rparr>) (mark_dead i r w))"
      using assms by (simp add: ok_upd ok_mark_dead)
    from notify [OF this] that True show ?thesis by (auto simp: actor_finish_def settles_def)
  qed (simp add: actor_finish_def that)
  ultimately show ?thesis using notify [OF assms] unfolding settles_def by auto
qed

text \<open>Four actors: 1, 2 and 3 are linked in a chain, 3 traps exits, 4 is alone.\<close>

definition no_context :: eval_context where
  "no_context = \<lparr>ctx_env = cell_nil, global_env = cell_nil, global_table = Map.empty, type_registry = cell_nil,
     effect_registry = cell_nil, type_annotations = None,
     module_state = \<lparr>modules = Map.empty, symbol_index = Map.empty, alias_table = Map.empty, module_count = 0,
       load_order_counter = 0, current_loading_module = None\<rparr>, macros = []\<rparr>"

definition linked_world :: world where
  "linked_world =
     (let new = (\<lambda>w. snd (actor_create cell_nil cell_nil w))
      in actor_link 2 3 (actor_link 1 2
           (upd_actor 3 (\<lambda>a. a\<lparr>trap_exit := True\<rparr>) (new (new (new (new (initial_world no_context))))))))"

lemma linked_world_ok: "world_ok linked_world"
  by (simp add: linked_world_def world_ok_def actor_create_def initial_world_def MAX_ACTORS_def actor_link_def
      upd_actor_def add_link_def MAX_LINKS_def mailbox_init_ok)

lemma linked_world_third: "actor_lookup 3 linked_world \<noteq> None"
  by (simp add: linked_world_def actor_lookup_def actor_create_def initial_world_def MAX_ACTORS_def actor_link_def
      upd_actor_def add_link_def MAX_LINKS_def)

theorem exit_propagation_ends_witness:
  "(\<exists>w'. actor_exit_signal 2 (Some 1) (cell_error ''crash'' None) linked_world = Some w') \<and>
    actor_finish 3 None linked_world \<noteq> None"
  using exit_propagation_ends [OF linked_world_ok, of 2 "Some 1" "cell_error ''crash'' None" 3 None]
  by (simp add: linked_world_third) blast

end
