(* ===== verification/TableFacts.thy ===== *)
theory TableFacts
  imports ActorTables CellTables
begin

section \<open>Facts about the tables around the actors\<close>

text \<open>
  Removal by moving the last entry into the gap, the registries of names, term storage as a map, and
  the slots of agents, stages and flows.
\<close>

lemma mset_swap_remove:
  assumes "i < length xs"
  shows "mset (swap_remove i xs) = mset (take i xs @ drop (Suc i) xs)"
proof -
  obtain ys y where xs: "xs = ys @ [y]" using assms by (cases xs rule: rev_cases) auto
  show ?thesis
  proof (cases "i < length ys")
    case True
    then have "swap_remove i xs = take i ys @ y # drop (Suc i) ys" by (simp add: swap_remove_def xs upd_conv_take_nth_drop)
    with True xs show ?thesis by simp
  next
    case False
    with assms xs show ?thesis by (simp add: swap_remove_def)
  qed
qed

lemma position_Some: "position P xs = Some i \<longleftrightarrow> i < length xs \<and> P (xs ! i) \<and> (\<forall>j < i. \<not> P (xs ! j))"
  by (auto simp: position_def find_Some_iff)

lemma position_None: "position P xs = None \<longleftrightarrow> (\<forall>x \<in> set xs. \<not> P x)"
  by (simp add: position_def find_None_iff) (metis in_set_conv_nth)

subsection \<open>Names\<close>

lemma swap_remove_distinct:
  assumes "i < length xs" "distinct (map f xs)"
  shows "distinct (map f (swap_remove i xs))" "f ` set (swap_remove i xs) = f ` set xs - {f (xs ! i)}"
proof -
  define ys where "ys = take i xs @ drop (Suc i) xs"
  have m: "mset (swap_remove i xs) = mset ys" using mset_swap_remove [OF assms(1)] by (simp add: ys_def)
  have split: "map f xs = map f (take i xs) @ f (xs ! i) # map f (drop (Suc i) xs)"
    by (metis assms(1) id_take_nth_drop list.simps(9) map_append)
  have "distinct (map f ys)" "f ` set ys = f ` set xs - {f (xs ! i)}"
  proof -
    show "distinct (map f ys)" using assms(2) unfolding split by (simp add: ys_def)
    have "f ` set xs = set (map f xs)" by simp
    then show "f ` set ys = f ` set xs - {f (xs ! i)}"
      using assms(2) unfolding split by (auto simp: ys_def)
  qed
  moreover have "mset (map f (swap_remove i xs)) = mset (map f ys)" using m by simp
  ultimately show "distinct (map f (swap_remove i xs))" "f ` set (swap_remove i xs) = f ` set xs - {f (xs ! i)}"
    using mset_eq_imp_distinct_iff mset_eq_setD [OF m] by (blast, simp)
qed

lemma swap_remove_subset: "i < length xs \<Longrightarrow> set (swap_remove i xs) \<subseteq> set xs"
  using mset_eq_setD [OF mset_swap_remove, of i xs] set_take_subset [of i xs] set_drop_subset [of "Suc i" xs] by auto

lemma unregister_id:
  assumes "distinct (map snd reg)"
  shows "distinct (map snd (names_unregister_id i reg))" "snd ` set (names_unregister_id i reg) = snd ` set reg - {i}"
proof -
  have "distinct (map snd (names_unregister_id i reg)) \<and> snd ` set (names_unregister_id i reg) = snd ` set reg - {i}"
  proof (cases "position (\<lambda>e. snd e = i) reg")
    case None
    then have "\<forall>e \<in> set reg. snd e \<noteq> i" by (simp only: position_None)
    with None show ?thesis using assms by (auto simp: names_unregister_id_def)
  next
    case (Some p)
    then have "p < length reg" "snd (reg ! p) = i" by (simp_all only: position_Some)
    with Some show ?thesis using swap_remove_distinct [OF _ assms] by (simp add: names_unregister_id_def)
  qed
  then show "distinct (map snd (names_unregister_id i reg))" "snd ` set (names_unregister_id i reg) = snd ` set reg - {i}"
    by blast+
qed

lemma unregister_id_subset: "set (names_unregister_id i reg) \<subseteq> set reg"
  by (auto simp: names_unregister_id_def position_Some split: option.splits dest!: subsetD [OF swap_remove_subset, rotated])

lemma destroyed_tables:
  "t \<in> set (ets_destroy_by_owner i ts) \<Longrightarrow> ets_active t \<Longrightarrow> t \<in> set ts \<and> ets_owner t \<noteq> i"
  by (auto simp: ets_destroy_by_owner_def ets_destroy_table_def split: if_splits)

subsection \<open>Entries\<close>

lemma map_swap_remove: "xs \<noteq> [] \<Longrightarrow> map f (swap_remove i xs) = swap_remove i (map f xs)"
  by (simp add: swap_remove_def Let_def map_butlast map_update last_map)

lemma map_of_entry_update:
  "distinct (map fst xs) \<Longrightarrow> i < length xs \<Longrightarrow> map_of (xs[i := (fst (xs ! i), v)]) = (map_of xs)(fst (xs ! i) \<mapsto> v)"
proof (induction xs arbitrary: i)
  case (Cons x xs)
  show ?case
  proof (cases i)
    case 0
    then show ?thesis by (cases x) (auto intro!: ext)
  next
    case (Suc j)
    with Cons show ?thesis by (cases x) (auto intro!: ext)
  qed
qed simp

lemma map_of_swap_remove:
  assumes "distinct (map fst xs)" "i < length xs"
  shows "map_of (swap_remove i xs) = (map_of xs)(fst (xs ! i) := None)"
proof
  fix k
  have m: "set (swap_remove i xs) = set (take i xs) \<union> set (drop (Suc i) xs)"
    using mset_eq_setD [OF mset_swap_remove [OF assms(2)]] by simp
  have xs: "xs = take i xs @ xs ! i # drop (Suc i) xs" using assms(2) by (simp add: id_take_nth_drop [symmetric])
  have fresh: "fst (xs ! i) \<notin> fst ` (set (take i xs) \<union> set (drop (Suc i) xs))"
    using assms(1) by (subst (asm) xs) auto
  have all: "set xs = insert (xs ! i) (set (take i xs) \<union> set (drop (Suc i) xs))"
    by (subst xs) auto
  have "map_of (swap_remove i xs) k = Some v \<longleftrightarrow> ((map_of xs)(fst (xs ! i) := None)) k = Some v" for v
  proof (cases "k = fst (xs ! i)")
    case True
    with fresh have "(k, v) \<notin> set (swap_remove i xs)" unfolding m by (metis fst_conv image_eqI)
    then have "map_of (swap_remove i xs) k \<noteq> Some v" using map_of_SomeD by fastforce
    with True show ?thesis by simp
  next
    case False
    then have "(k, v) \<noteq> xs ! i" by (metis fst_conv)
    then have "(k, v) \<in> set (swap_remove i xs) \<longleftrightarrow> (k, v) \<in> set xs" unfolding m all by blast
    with False show ?thesis using swap_remove_distinct(1) [OF assms(2,1)] assms(1)
      by (simp add: map_of_eq_Some_iff)
  qed
  then show "map_of (swap_remove i xs) k = ((map_of xs)(fst (xs ! i) := None)) k" by (metis option.exhaust)
qed

context hash_keys
begin

text \<open>Equal keys have the same class, and entries are a map from classes.\<close>

definition class_of :: "'k \<Rightarrow> 'k set" where "class_of k = {j \<in> K. eq k j}"

lemma class_eq: "j \<in> K \<Longrightarrow> k \<in> K \<Longrightarrow> class_of j = class_of k \<longleftrightarrow> eq j k"
  unfolding class_of_def by (auto intro: eq_refl eq_sym eq_trans)

definition ent_map :: "('k \<times> 'v) list \<Rightarrow> ('k set \<times> 'v) list" where
  "ent_map es = map (\<lambda>e. (class_of (fst e), snd e)) es"

definition ent_inv :: "('k \<times> 'v) list \<Rightarrow> bool" where
  "ent_inv es \<longleftrightarrow> fst ` set es \<subseteq> K \<and> distinct (map fst (ent_map es))"

definition ent_lookup :: "('k \<times> 'v) list \<Rightarrow> 'k \<Rightarrow> 'v option" where
  "ent_lookup es k = map_of (ent_map es) (class_of k)"

lemma ent_get: "fst ` set es \<subseteq> K \<Longrightarrow> k \<in> K \<Longrightarrow> entry_get eq k es = ent_lookup es k"
proof (induction es)
  case (Cons e es)
  obtain a b where e: "e = (a, b)" by (cases e)
  from Cons.prems e have "class_of k = class_of a \<longleftrightarrow> eq a k" using class_eq [of a k] by auto
  with Cons show ?case by (simp add: e entry_get_def ent_lookup_def ent_map_def)
qed (simp add: entry_get_def ent_lookup_def ent_map_def)

lemma ent_found:
  "ent_inv es \<Longrightarrow> k \<in> K \<Longrightarrow> position (\<lambda>e. eq (fst e) k) es = Some i \<Longrightarrow>
    i < length es \<and> class_of (fst (es ! i)) = class_of k"
  by (subst class_eq) (auto simp: position_Some ent_inv_def)

lemma ent_missing:
  assumes "ent_inv es" "k \<in> K" "position (\<lambda>e. eq (fst e) k) es = None"
  shows "class_of k \<notin> class_of ` fst ` set es" "ent_lookup es k = None"
proof -
  have "\<forall>e \<in> set es. \<not> eq (fst e) k" using assms(3) by (simp only: position_None)
  then have "class_of (fst e) \<noteq> class_of k" if "e \<in> set es" for e
    using that assms(1,2) class_eq [of "fst e" k] by (auto simp: ent_inv_def)
  then show m: "class_of k \<notin> class_of ` fst ` set es" by auto
  have "fst ` set (ent_map es) = class_of ` fst ` set es" by (auto simp: ent_map_def image_image)
  with m show "ent_lookup es k = None" by (simp only: ent_lookup_def map_of_eq_None_iff not_False_eq_True)
qed

lemma ent_put:
  assumes inv: "ent_inv es" and k: "k \<in> K" and room: "length es < limit \<or> ent_lookup es k \<noteq> None"
  shows "\<exists>es'. entry_put eq limit k v es = Some es' \<and> ent_inv es' \<and>
    length es' = length es + (if ent_lookup es k = None then 1 else 0) \<and>
    (\<forall>j \<in> K. ent_lookup es' j = (if eq k j then Some v else ent_lookup es j))"
proof (cases "position (\<lambda>e. eq (fst e) k) es")
  case None
  note miss = ent_missing [OF inv k None]
  have "entry_put eq limit k v es = Some (es @ [(k, v)])" using None room miss by (simp add: entry_put_def)
  moreover have "ent_inv (es @ [(k, v)])" using inv k miss(1) by (auto simp: ent_inv_def ent_map_def image_image)
  moreover have "ent_lookup (es @ [(k, v)]) j = (if eq k j then Some v else ent_lookup es j)" if "j \<in> K" for j
  proof (cases "eq k j")
    case True
    then have "class_of j = class_of k" using class_eq that k by blast
    then show ?thesis using miss True by (simp add: ent_lookup_def ent_map_def map_add_Some_iff map_add_def)
  next
    case False
    then have "class_of j \<noteq> class_of k" using class_eq that k by blast
    then show ?thesis using False by (simp add: ent_lookup_def ent_map_def map_add_def split: option.split)
  qed
  ultimately show ?thesis using miss by simp
next
  case (Some i)
  note found = ent_found [OF inv k Some]
  let ?es = "es[i := (fst (es ! i), v)]"
  have put: "entry_put eq limit k v es = Some ?es" using Some by (simp add: entry_put_def)
  have m: "ent_map ?es = (ent_map es)[i := (fst (ent_map es ! i), v)]"
    using found by (simp add: ent_map_def map_update)
  have fk: "fst (ent_map es ! i) = class_of k" using found by (simp add: ent_map_def)
  have d: "distinct (map fst (ent_map es))" "i < length (ent_map es)" using inv found by (auto simp: ent_inv_def ent_map_def)
  have mo: "map_of (ent_map ?es) = (map_of (ent_map es))(class_of k \<mapsto> v)"
    unfolding m using map_of_entry_update [OF d] fk by simp
  have "map fst (ent_map ?es) = map fst (ent_map es)"
    unfolding m using d(2) by (metis fst_conv list_update_id map_update)
  moreover have "fst ` set ?es \<subseteq> K"
    using inv found set_update_subset_insert [of es i "(fst (es ! i), v)"] by (fastforce simp: ent_inv_def)
  ultimately have "ent_inv ?es" using inv by (simp add: ent_inv_def)
  moreover have "ent_lookup ?es j = (if eq k j then Some v else ent_lookup es j)" if "j \<in> K" for j
    using class_eq [OF k that] by (auto simp: ent_lookup_def mo)
  moreover have "ent_lookup es k \<noteq> None"
    using d(2) fk by (auto simp: ent_lookup_def map_of_eq_None_iff)
  ultimately show ?thesis using put by simp
qed

lemma ent_remove:
  assumes inv: "ent_inv es" and k: "k \<in> K" and p: "position (\<lambda>e. eq (fst e) k) es = Some i"
  shows "ent_inv (swap_remove i es)" "j \<in> K \<Longrightarrow> ent_lookup (swap_remove i es) j = (if eq k j then None else ent_lookup es j)"
proof -
  note found = ent_found [OF inv k p]
  have ne: "es \<noteq> []" using found by auto
  have m: "ent_map (swap_remove i es) = swap_remove i (ent_map es)" unfolding ent_map_def by (rule map_swap_remove [OF ne])
  have d: "distinct (map fst (ent_map es))" "i < length (ent_map es)" using inv found by (auto simp: ent_inv_def ent_map_def)
  have "fst (ent_map es ! i) = class_of k" using found by (simp add: ent_map_def)
  then have mo: "map_of (ent_map (swap_remove i es)) = (map_of (ent_map es))(class_of k := None)"
    unfolding m using map_of_swap_remove [OF d] by simp
  show "ent_inv (swap_remove i es)"
    using inv found swap_remove_subset [of i es] swap_remove_distinct(1) [OF d(2,1)] by (auto simp: ent_inv_def m)
  show "j \<in> K \<Longrightarrow> ent_lookup (swap_remove i es) j = (if eq k j then None else ent_lookup es j)"
    using class_eq [OF k] by (auto simp: ent_lookup_def mo)
qed

lemma ent_absent: "ent_inv es \<Longrightarrow> k \<in> K \<Longrightarrow> position (\<lambda>e. eq (fst e) k) es = None \<longleftrightarrow> ent_lookup es k = None"
proof
  assume a: "ent_inv es" "k \<in> K" "ent_lookup es k = None"
  show "position (\<lambda>e. eq (fst e) k) es = None"
  proof (rule ccontr)
    assume "position (\<lambda>e. eq (fst e) k) es \<noteq> None"
    then obtain i where i: "position (\<lambda>e. eq (fst e) k) es = Some i" by blast
    from ent_found [OF a(1,2) i] have "(class_of k, snd (es ! i)) \<in> set (ent_map es)"
      by (auto simp: ent_map_def image_iff)
    with a(3) show False by (force simp: ent_lookup_def map_of_eq_None_iff)
  qed
qed (rule ent_missing(2))

end

subsection \<open>Term storage\<close>

context hash_keys
begin

text \<open>At most one table in use has a given name, and the entries of every table are a map.\<close>

definition ets_inv :: "('k, 'v) ets \<Rightarrow> bool" where
  "ets_inv ts \<longleftrightarrow> (\<forall>i < length ts. \<forall>j < length ts.
       ets_active (ts ! i) \<and> ets_active (ts ! j) \<and> ets_name (ts ! i) = ets_name (ts ! j) \<longrightarrow> i = j) \<and>
     (\<forall>t \<in> set ts. ent_inv (ets_entries t))"

lemma ets_lookup_table:
  "ets_inv ts \<Longrightarrow> k \<in> K \<Longrightarrow> ets_lookup eq nm k ts =
    (case ets_find nm ts of None \<Rightarrow> None | Some i \<Rightarrow> ent_lookup (ets_entries (ts ! i)) k)"
proof (cases "ets_find nm ts")
  case (Some i)
  assume "ets_inv ts" "k \<in> K"
  moreover from Some have "i < length ts" by (auto simp: ets_find_def position_Some)
  ultimately show ?thesis using Some by (simp add: ets_lookup_def ets_inv_def ent_get ent_inv_def)
qed (simp add: ets_lookup_def)

text \<open>A change of the entries of one table.\<close>

lemma ets_find_update:
  "ets_find nm (ts[i := (ts ! i)\<lparr>ets_entries := es\<rparr>]) = ets_find nm ts"
proof -
  have "ets_active ((ts[i := (ts ! i)\<lparr>ets_entries := es\<rparr>]) ! j) = ets_active (ts ! j)"
    "ets_name ((ts[i := (ts ! i)\<lparr>ets_entries := es\<rparr>]) ! j) = ets_name (ts ! j)" if "j < length ts" for j
    using that by (auto simp: nth_list_update_if)
  then show ?thesis unfolding ets_find_def position_def length_list_update by (intro find_cong_set) auto
qed

lemma ets_update:
  assumes inv: "ets_inv ts" and i: "ets_find nm ts = Some i" and es: "ent_inv es"
  shows "ets_inv (ts[i := (ts ! i)\<lparr>ets_entries := es\<rparr>])"
    and "j \<in> K \<Longrightarrow> ets_lookup eq nm' j (ts[i := (ts ! i)\<lparr>ets_entries := es\<rparr>]) =
      (if nm' = nm then ent_lookup es j else ets_lookup eq nm' j ts)"
proof -
  let ?ts = "ts[i := (ts ! i)\<lparr>ets_entries := es\<rparr>]"
  have il: "i < length ts" "ets_name (ts ! i) = nm" using i by (auto simp: ets_find_def position_Some)
  have same: "ets_active (?ts ! j) = ets_active (ts ! j)" "ets_name (?ts ! j) = ets_name (ts ! j)" if "j < length ts" for j
    using that by (auto simp: nth_list_update_if)
  have "\<forall>t \<in> set ?ts. ent_inv (ets_entries t)"
    using inv es set_update_subset_insert [of ts i "(ts ! i)\<lparr>ets_entries := es\<rparr>"] by (fastforce simp: ets_inv_def)
  then show inv': "ets_inv ?ts" using inv same by (simp add: ets_inv_def)
  show "ets_lookup eq nm' j ?ts = (if nm' = nm then ent_lookup es j else ets_lookup eq nm' j ts)" if "j \<in> K"
  proof (cases "nm' = nm")
    case True
    then show ?thesis using ets_lookup_table [OF inv' that] i il by (simp add: ets_find_update)
  next
    case False
    have "k \<noteq> i" if "ets_find nm' ts = Some k" for k
      using that il False by (auto simp: ets_find_def position_Some)
    then show ?thesis using ets_lookup_table [OF inv' that] ets_lookup_table [OF inv that] False
      by (auto simp: ets_find_update split: option.split)
  qed
qed

lemma ets_create_new:
  fixes ts :: "('k, 'v) ets"
  assumes inv: "ets_inv ts" and new: "ets_find nm ts = None" "length ts < MAX_ETS_TABLES"
  shows "\<exists>ts'. ets_create nm owner ts = (0, ts') \<and> ets_inv ts' \<and> ets_find nm ts' \<noteq> None \<and>
    (\<forall>nm'. \<forall>j \<in> K. ets_lookup eq nm' j ts' = ets_lookup eq nm' j ts)"
proof -
  define t :: "('k, 'v) ets_table" where "t = \<lparr>ets_name = nm, ets_owner = owner, ets_entries = [], ets_active = True\<rparr>"
  have none: "\<not> (ets_active (ts ! j) \<and> ets_name (ts ! j) = nm)" if "j < length ts" for j
    using new(1) that by (auto simp: ets_find_def position_None)
  have f: "ets_find nm' (ts @ [t]) = (if nm' = nm then Some (length ts) else ets_find nm' ts)" for nm'
  proof (cases "nm' = nm")
    case True
    then show ?thesis using none by (auto simp: ets_find_def position_Some nth_append t_def)
  next
    case False
    then show ?thesis
    proof (cases "ets_find nm' ts")
      case None
      then have "\<forall>u \<in> set ts. \<not> (ets_active u \<and> ets_name u = nm')" by (simp only: ets_find_def position_None)
      then have "\<forall>u \<in> set (ts @ [t]). \<not> (ets_active u \<and> ets_name u = nm')" using False by (simp add: t_def)
      then have "ets_find nm' (ts @ [t]) = None" by (simp only: ets_find_def position_None)
      then show ?thesis using None False by simp
    next
      case (Some k)
      then have "ets_find nm' (ts @ [t]) = Some k" by (auto simp: ets_find_def position_Some nth_append)
      then show ?thesis using Some False by simp
    qed
  qed
  have inv': "ets_inv (ts @ [t])"
    using inv none by (auto simp: ets_inv_def nth_append t_def ent_inv_def ent_map_def less_Suc_eq)
  have "ets_lookup eq nm' j (ts @ [t]) = ets_lookup eq nm' j ts" if "j \<in> K" for nm' j
  proof -
    have "ets_find nm' ts = Some k \<Longrightarrow> k < length ts" for k by (auto simp: ets_find_def position_Some)
    then show ?thesis unfolding ets_lookup_table [OF inv' that] ets_lookup_table [OF inv that] f
      using new(1) by (auto simp: nth_append t_def ent_lookup_def ent_map_def split: option.split)
  qed
  moreover have "ets_create nm owner ts = (0, ts @ [t])" using new by (simp add: ets_create_def t_def)
  ultimately show ?thesis using inv' f by simp
qed

text \<open>Insertion and removal act on the named table as on a map.\<close>

lemma ets_insert_put:
  assumes inv: "ets_inv ts" and k: "k \<in> K" and i: "ets_find nm ts = Some i"
    and room: "length (ets_entries (ts ! i)) < MAX_ETS_ENTRIES \<or> ets_lookup eq nm k ts \<noteq> None"
  shows "\<exists>ts'. ets_insert eq nm k v ts = (0, ts') \<and> ets_inv ts' \<and>
    (\<forall>nm'. \<forall>j \<in> K. ets_lookup eq nm' j ts' = (if nm' = nm \<and> eq k j then Some v else ets_lookup eq nm' j ts))"
proof -
  have e: "ent_inv (ets_entries (ts ! i))"
    using inv i by (auto simp: ets_inv_def ets_find_def position_Some)
  have look: "ets_lookup eq nm j ts = ent_lookup (ets_entries (ts ! i)) j" if "j \<in> K" for j
    using ets_lookup_table [OF inv that] i by simp
  from ent_put [OF e k, of MAX_ETS_ENTRIES v] room look [OF k] obtain es where
    es: "entry_put eq MAX_ETS_ENTRIES k v (ets_entries (ts ! i)) = Some es" "ent_inv es"
    "\<forall>j \<in> K. ent_lookup es j = (if eq k j then Some v else ent_lookup (ets_entries (ts ! i)) j)" by auto
  then have "ets_insert eq nm k v ts = (0, ts[i := (ts ! i)\<lparr>ets_entries := es\<rparr>])"
    using i by (simp add: ets_insert_def)
  moreover note ets_update [OF inv i es(2)]
  ultimately show ?thesis using es(3) look by auto
qed

lemma ets_delete_removes:
  assumes inv: "ets_inv ts" and k: "k \<in> K" and i: "ets_find nm ts = Some i"
  shows "\<exists>ts'. ets_delete_key eq nm k ts = (if ets_lookup eq nm k ts = None then -2 else 0, ts') \<and> ets_inv ts' \<and>
    (\<forall>nm'. \<forall>j \<in> K. ets_lookup eq nm' j ts' = (if nm' = nm \<and> eq k j then None else ets_lookup eq nm' j ts))"
proof -
  have e: "ent_inv (ets_entries (ts ! i))"
    using inv i by (auto simp: ets_inv_def ets_find_def position_Some)
  have look: "ets_lookup eq nm j ts = ent_lookup (ets_entries (ts ! i)) j" if "j \<in> K" for j
    using ets_lookup_table [OF inv that] i by simp
  show ?thesis
  proof (cases "position (\<lambda>e. eq (fst e) k) (ets_entries (ts ! i))")
    case None
    then have none: "ets_lookup eq nm k ts = None" using ent_missing(2) [OF e k] look [OF k] by simp
    have "ets_lookup eq nm j ts = None" if "j \<in> K" "eq k j" for j
      using none look [OF that(1)] look [OF k] class_eq [OF k that(1)] that(2) by (simp add: ent_lookup_def)
    then show ?thesis using None none i inv by (auto simp: ets_delete_key_def)
  next
    case (Some p)
    have "ets_lookup eq nm k ts \<noteq> None" using ent_absent [OF e k] Some look [OF k] by simp
    moreover have "ets_delete_key eq nm k ts = (0, ts[i := (ts ! i)\<lparr>ets_entries := swap_remove p (ets_entries (ts ! i))\<rparr>])"
      using i Some by (simp add: ets_delete_key_def)
    moreover note ets_update [OF inv i ent_remove(1) [OF e k Some]]
    ultimately show ?thesis using ent_remove(2) [OF e k Some] look by auto
  qed
qed

end

subsection \<open>The theorems\<close>

abbreviation storage_ok :: "u64 cell set \<Rightarrow> (u64 cell, 'v) ets \<Rightarrow> bool" where
  "storage_ok H \<equiv> hash_keys.ets_inv (heap_keys H) cell_equal"

text \<open>
  C35. Term storage is a family of maps. Inserting under a usable key into an existing table that has
  room or holds the key already succeeds, deleting the key succeeds exactly if the table holds it, and
  both change what is found under the equal keys of that table and nothing else, in no other table.
\<close>

theorem term_storage_maps:
  assumes "storage_ok H ts" "k \<in> heap_keys H" "ets_find nm ts = Some i"
    "length (ets_entries (ts ! i)) < MAX_ETS_ENTRIES \<or> ets_lookup cell_equal nm k ts \<noteq> None"
  shows "\<exists>ts' ts''. ets_insert cell_equal nm k v ts = (0, ts') \<and> storage_ok H ts' \<and>
      ets_delete_key cell_equal nm k ts = (if ets_lookup cell_equal nm k ts = None then -2 else 0, ts'') \<and> storage_ok H ts'' \<and>
      (\<forall>nm'. \<forall>j \<in> heap_keys H. ets_lookup cell_equal nm' j ts' =
         (if nm' = nm \<and> cell_equal k j then Some v else ets_lookup cell_equal nm' j ts)) \<and>
      (\<forall>nm'. \<forall>j \<in> heap_keys H. ets_lookup cell_equal nm' j ts'' =
         (if nm' = nm \<and> cell_equal k j then None else ets_lookup cell_equal nm' j ts))"
  using cell_keys.ets_insert_put [OF assms, of v] cell_keys.ets_delete_removes [OF assms(1-3)] by blast

lemma one_table: "storage_ok H (snd (ets_create nm owner []))" "ets_find nm (snd (ets_create nm owner [])) = Some 0"
  by (auto simp: ets_create_def ets_find_def position_def MAX_ETS_TABLES_def cell_keys.ets_inv_def cell_keys.ent_inv_def
      cell_keys.ent_map_def)

theorem term_storage_maps_witness:
  "\<exists>ts' :: (u64 cell, bool) ets. ets_insert cell_equal ''t'' (CInteger 1 7) True (snd (ets_create ''t'' 5 [])) = (0, ts') \<and>
     ets_lookup cell_equal ''t'' (CNumber 2 (double_of_int 7)) ts' = Some True \<and>
     ets_lookup cell_equal ''t'' (CString 0 ''k'') ts' = None"
proof -
  let ?ts = "snd (ets_create ''t'' 5 []) :: (u64 cell, bool) ets"
  have "length (ets_entries (?ts ! 0)) < MAX_ETS_ENTRIES \<or> ets_lookup cell_equal ''t'' (CInteger 1 7) ?ts \<noteq> None"
    by (simp add: ets_create_def ets_find_def position_def MAX_ETS_TABLES_def MAX_ETS_ENTRIES_def)
  from term_storage_maps [OF one_table(1) two_keys(2) one_table(2) this, of True] obtain ts' where
    ts': "ets_insert cell_equal ''t'' (CInteger 1 7) True ?ts = (0, ts')"
    "\<forall>nm'. \<forall>j \<in> heap_keys two_keys. ets_lookup cell_equal nm' j ts' =
         (if nm' = ''t'' \<and> cell_equal (CInteger 1 7) j then Some True else ets_lookup cell_equal nm' j ?ts)" by blast
  have "ets_lookup cell_equal ''t'' (CString 0 ''k'') ?ts = None"
    by (simp add: ets_lookup_def ets_create_def ets_find_def position_def MAX_ETS_TABLES_def entry_get_def)
  moreover have "cell_equal (CInteger (1 :: u64) 7) (CNumber 2 (double_of_int 7))" "\<not> cell_equal (CInteger (1 :: u64) 7) (CString 0 ''k'')"
    using heap_keys_equal [OF two_keys(2,3)] heap_keys_equal [OF two_keys(2,1)] by (simp_all add: number_shape_def seven)
  ultimately show ?thesis using ts' two_keys by auto
qed

subsection \<open>Slots\<close>

text \<open>Creating a table and deleting it uses up a slot for good.\<close>

definition create_delete :: "string \<Rightarrow> ('k, 'v) ets \<Rightarrow> ('k, 'v) ets" where
  "create_delete nm ts = snd (ets_delete_table nm (snd (ets_create nm 0 ts)))"

lemma create_delete_uses_slot:
  assumes "\<forall>t \<in> set ts. \<not> ets_active t" "length ts \<le> MAX_ETS_TABLES"
  shows "(\<forall>t \<in> set (create_delete nm ts). \<not> ets_active t) \<and>
    length (create_delete nm ts) = min MAX_ETS_TABLES (length ts + 1)"
proof -
  have none: "ets_find nm ts = None" using assms(1) by (auto simp: ets_find_def position_None)
  show ?thesis
  proof (cases "length ts < MAX_ETS_TABLES")
    case True
    let ?t = "\<lparr>ets_name = nm, ets_owner = 0, ets_entries = [], ets_active = True\<rparr>"
    have "ets_find nm (ts @ [?t]) = Some (length ts)"
      using assms(1) by (auto simp: ets_find_def position_Some nth_append)
    then have "create_delete nm ts = ts @ [ets_destroy_table ?t]"
      using True none by (simp add: create_delete_def ets_create_def ets_delete_table_def)
    then show ?thesis using True assms by (auto simp: ets_destroy_table_def)
  next
    case False
    then have "create_delete nm ts = ts" using none by (simp add: create_delete_def ets_create_def ets_delete_table_def)
    then show ?thesis using False assms by simp
  qed
qed

lemma create_delete_iterated:
  "(\<forall>t \<in> set ((create_delete nm ^^ n) ([] :: ('k, 'v) ets)). \<not> ets_active t) \<and>
    length ((create_delete nm ^^ n) ([] :: ('k, 'v) ets)) = min MAX_ETS_TABLES n"
proof (induction n)
  case (Suc n)
  define ts where "ts = (create_delete nm ^^ n) ([] :: ('k, 'v) ets)"
  from Suc have off: "\<forall>t \<in> set ts. \<not> ets_active t" and len: "length ts = min MAX_ETS_TABLES n" by (simp_all add: ts_def)
  from create_delete_uses_slot [OF off, of nm] len show ?case
    by (simp add: ts_def [symmetric] min_def MAX_ETS_TABLES_def split: if_splits)
qed simp

text \<open>
  C36. The slots of deleted tables are not used again. A program that creates and deletes a table over
  and over, under whatever name, can create the next one only sixty-four times, although no table is
  in use in between.
\<close>

theorem ets_slots_run_out:
  "list_all (\<lambda>t. \<not> ets_active t) ((create_delete nm ^^ n) ([] :: ('k, 'v) ets)) \<and>
    fst (ets_create nm' owner ((create_delete nm ^^ n) ([] :: ('k, 'v) ets))) = (if n < 64 then 0 else -2)"
proof -
  note slots = create_delete_iterated [where 'k = 'k and 'v = 'v and n = n and nm = nm]
  then have "ets_find nm' ((create_delete nm ^^ n) ([] :: ('k, 'v) ets)) = None"
    by (auto simp: ets_find_def position_None)
  with slots show ?thesis
    by (simp add: list_all_iff ets_create_def MAX_ETS_TABLES_def min_def)
qed

end
