(* ===== verification/ExitFacts.thy ===== *)
theory ExitFacts
  imports ActorFacts TableFacts
begin

section \<open>Where an error exit arrives\<close>

text \<open>
  Without supervisors an error exit kills exactly the actors that do not trap exits and are linked to
  its target in a chain; every link of a dead actor is dead or has been told.
\<close>

subsection \<open>What an exit changes\<close>

text \<open>What is found under a number, where nothing is found in the default.\<close>

definition is_alive :: "world \<Rightarrow> int \<Rightarrow> bool" where
  "is_alive w i = (case actor_lookup i w of Some a \<Rightarrow> alive a | None \<Rightarrow> False)"

definition traps :: "world \<Rightarrow> int \<Rightarrow> bool" where
  "traps w i = (case actor_lookup i w of Some a \<Rightarrow> trap_exit a | None \<Rightarrow> False)"

definition links_of :: "world \<Rightarrow> int \<Rightarrow> int list" where
  "links_of w i = (case actor_lookup i w of Some a \<Rightarrow> links a | None \<Rightarrow> [])"

definition result_of :: "world \<Rightarrow> int \<Rightarrow> tm option" where
  "result_of w i = (case actor_lookup i w of Some a \<Rightarrow> actor_result a | None \<Rightarrow> None)"

definition messages_of :: "world \<Rightarrow> int \<Rightarrow> tm list" where
  "messages_of w i = (case actor_lookup i w of Some a \<Rightarrow> mb_list (actor_mailbox a) | None \<Rightarrow> [])"

definition susceptible :: "world \<Rightarrow> int \<Rightarrow> bool" where
  "susceptible w i \<longleftrightarrow> is_alive w i \<and> \<not> traps w i"

text \<open>The actors that an exit signal to \<open>i\<close> kills: those that do not trap exits and are linked in a chain.\<close>

inductive exit_reaches :: "world \<Rightarrow> int \<Rightarrow> int \<Rightarrow> bool" for w i where
  self: "susceptible w i \<Longrightarrow> exit_reaches w i i"
| link: "exit_reaches w i k \<Longrightarrow> l \<in> set (links_of w k) \<Longrightarrow> susceptible w l \<Longrightarrow> exit_reaches w i l"

lemma exit_reaches_susceptible: "exit_reaches w i j \<Longrightarrow> susceptible w i \<and> susceptible w j"
  by (induction rule: exit_reaches.induct) auto

lemma exit_reaches_trans:
  "exit_reaches w k j \<Longrightarrow> exit_reaches w i l \<Longrightarrow> k \<in> set (links_of w l) \<Longrightarrow> exit_reaches w i j"
  by (induction rule: exit_reaches.induct) (auto intro: exit_reaches.intros)

lemma exit_reaches_mono:
  assumes "exit_reaches w1 i j" "\<And>k. susceptible w1 k \<Longrightarrow> susceptible w k \<and> links_of w1 k = links_of w k"
  shows "exit_reaches w i j"
  using assms(1)
proof (induction rule: exit_reaches.induct)
  case (link k l)
  with assms(2) exit_reaches_susceptible [of w1 i k] show ?case by (metis exit_reaches.link)
qed (use assms(2) in \<open>auto intro: exit_reaches.self\<close>)

text \<open>Nothing of an actor is left in the tables of names and of term storage.\<close>

definition cleaned :: "world \<Rightarrow> int \<Rightarrow> bool" where
  "cleaned w i \<longleftrightarrow> i \<notin> snd ` set (registry w) \<and> (\<forall>t \<in> set (ets_tables w). ets_active t \<longrightarrow> ets_owner t \<noteq> i)"

definition killed :: "world \<Rightarrow> world \<Rightarrow> int \<Rightarrow> bool" where
  "killed w w' j \<longleftrightarrow> is_alive w j \<and> \<not> is_alive w' j"

text \<open>
  From one world to another the error \<open>e\<close> has spread from the actors of \<open>X\<close>: the actors that died are
  reached from there, have \<open>e\<close> as result, are cleaned up and have notified their links. \<open>N\<close> holds
  further notifications, of a link by an actor: the link is dead, or traps exits and has
  got a message as far as its mailbox had room.
\<close>

definition spread :: "tm \<Rightarrow> int set \<Rightarrow> (int \<times> int) set \<Rightarrow> world \<Rightarrow> world \<Rightarrow> bool" where
  "spread e X N w w' \<longleftrightarrow>
     world_ok w' \<and> supervisors w' = supervisors w \<and> (distinct (map snd (registry w)) \<longrightarrow> distinct (map snd (registry w'))) \<and>
     (\<forall>j. traps w' j = traps w j) \<and>
     (\<forall>j. is_alive w' j \<longrightarrow> is_alive w j \<and> links_of w' j = links_of w j) \<and>
     (\<forall>j. \<not> killed w w' j \<longrightarrow> result_of w' j = result_of w j) \<and>
     (\<forall>j. cleaned w j \<longrightarrow> cleaned w' j) \<and>
     (\<forall>j. killed w w' j \<longrightarrow> (\<exists>x \<in> X. exit_reaches w x j) \<and> result_of w' j = Some e \<and>
        (distinct (map snd (registry w)) \<longrightarrow> cleaned w' j)) \<and>
     (\<exists>ms. (\<forall>j. messages_of w' j = take 256 (messages_of w j @ ms j)) \<and>
       (\<forall>k l. (k, l) \<in> N \<or> killed w w' k \<and> l \<in> set (links_of w k) \<longrightarrow>
         \<not> susceptible w' l \<and> (is_alive w' l \<longrightarrow> exit_message k e \<in> set (ms l))))"

lemma spread_reach: "spread e X N w w' \<Longrightarrow> killed w w' j \<Longrightarrow> \<exists>x \<in> X. exit_reaches w x j"
  by (simp add: spread_def)

lemma spread_world: "spread e X N w w' \<Longrightarrow> world_ok w' \<and> supervisors w' = supervisors w"
  by (simp add: spread_def)

lemma spread_dead: "spread e X N w w' \<Longrightarrow> \<not> is_alive w j \<Longrightarrow> \<not> is_alive w' j"
  by (auto simp: spread_def)

lemma spread_cleaned: "spread e X N w w' \<Longrightarrow> cleaned w j \<Longrightarrow> cleaned w' j"
  by (simp add: spread_def)

lemma spread_messages:
  "spread e X N w w' \<Longrightarrow> \<exists>ms. (\<forall>j. messages_of w' j = take 256 (messages_of w j @ ms j)) \<and>
       (\<forall>k l. (k, l) \<in> N \<or> killed w w' k \<and> l \<in> set (links_of w k) \<longrightarrow>
         \<not> susceptible w' l \<and> (is_alive w' l \<longrightarrow> exit_message k e \<in> set (ms l)))"
  by (simp add: spread_def)

lemma take_take_append: "take n (take n (xs @ ys) @ zs) = take n (xs @ ys @ zs)"
  by (simp add: min_def)

lemma spread_trans:
  assumes 1: "spread e X N w w1" and 2: "spread e Y M w1 w2"
  shows "spread e (X \<union> Y) (N \<union> M) w w2"
proof -
  have alive1: "is_alive w1 j \<Longrightarrow> is_alive w j \<and> links_of w1 j = links_of w j"
    and alive2: "is_alive w2 j \<Longrightarrow> is_alive w1 j \<and> links_of w2 j = links_of w1 j"
    and traps: "traps w1 j = traps w j" "traps w2 j = traps w1 j" for j
    using 1 2 by (auto simp: spread_def)
  have sus: "susceptible w1 k \<Longrightarrow> susceptible w k \<and> links_of w1 k = links_of w k"
    "susceptible w2 k \<Longrightarrow> susceptible w1 k" for k
    using alive1 alive2 traps by (auto simp: susceptible_def)
  have cases: "killed w w2 j \<longleftrightarrow> killed w w1 j \<or> killed w1 w2 j" for j
    using alive1 alive2 by (auto simp: killed_def)
  have not_both: "killed w w1 j \<Longrightarrow> \<not> killed w1 w2 j" for j by (simp add: killed_def)
  obtain ms where ms: "\<And>j. messages_of w1 j = take 256 (messages_of w j @ ms j)"
    "\<And>k l. (k, l) \<in> N \<or> killed w w1 k \<and> l \<in> set (links_of w k) \<Longrightarrow>
         \<not> susceptible w1 l \<and> (is_alive w1 l \<longrightarrow> exit_message k e \<in> set (ms l))"
    using 1 unfolding spread_def by blast
  obtain ns where ns: "\<And>j. messages_of w2 j = take 256 (messages_of w1 j @ ns j)"
    "\<And>k l. (k, l) \<in> M \<or> killed w1 w2 k \<and> l \<in> set (links_of w1 k) \<Longrightarrow>
         \<not> susceptible w2 l \<and> (is_alive w2 l \<longrightarrow> exit_message k e \<in> set (ns l))"
    using 2 unfolding spread_def by blast
  have msg: "messages_of w2 j = take 256 (messages_of w j @ ms j @ ns j)" for j
    unfolding ns ms by (rule take_take_append)
  have announced: "\<not> susceptible w2 l \<and> (is_alive w2 l \<longrightarrow> exit_message k e \<in> set (ms l @ ns l))"
    if "(k, l) \<in> N \<union> M \<or> killed w w2 k \<and> l \<in> set (links_of w k)" for k l
  proof (cases "(k, l) \<in> N \<or> killed w w1 k \<and> l \<in> set (links_of w k)")
    case True
    from ms(2) [OF this] alive2 sus(2) show ?thesis by auto
  next
    case False
    with that have "(k, l) \<in> M \<or> killed w1 w2 k \<and> l \<in> set (links_of w1 k)"
      using alive1 [of k] by (auto simp: cases killed_def)
    from ns(2) [OF this] show ?thesis by auto
  qed
  have reach: "\<exists>x \<in> X \<union> Y. exit_reaches w x j" if "killed w w2 j" for j
  proof (cases "killed w w1 j")
    case True
    then show ?thesis using 1 unfolding spread_def by blast
  next
    case False
    then have "killed w1 w2 j" using that by (simp add: cases)
    from spread_reach [OF 2 this] obtain y where "y \<in> Y" "exit_reaches w1 y j" by blast
    moreover from exit_reaches_mono [OF this(2) sus(1)] have "exit_reaches w y j" by blast
    ultimately show ?thesis by blast
  qed
  have res: "result_of w2 j = (if killed w w2 j then Some e else result_of w j)" for j
  proof -
    have "result_of w1 j = (if killed w w1 j then Some e else result_of w j)"
      "result_of w2 j = (if killed w1 w2 j then Some e else result_of w1 j)"
      using 1 2 unfolding spread_def by auto
    then show ?thesis using not_both [of j] by (simp add: cases)
  qed
  have clean: "cleaned w2 j" if "killed w w2 j" "distinct (map snd (registry w))" for j
  proof -
    from that 1 have "distinct (map snd (registry w1))" unfolding spread_def by blast
    with that 1 2 show ?thesis unfolding spread_def cases by blast
  qed
  have keep: "world_ok w2 \<and> supervisors w2 = supervisors w \<and>
      (distinct (map snd (registry w)) \<longrightarrow> distinct (map snd (registry w2))) \<and> (\<forall>j. cleaned w j \<longrightarrow> cleaned w2 j)"
    using 1 2 unfolding spread_def by auto
  have live: "is_alive w2 j \<longrightarrow> is_alive w j \<and> links_of w2 j = links_of w j" for j
    using alive1 alive2 by auto
  show ?thesis
    unfolding spread_def
    by (intro conjI allI impI exI [of _ "\<lambda>j. ms j @ ns j"])
      (use keep live traps res reach clean msg announced in auto)
qed

lemma spread_quiet:
  assumes "world_ok w'" "supervisors w' = supervisors w"
    "distinct (map snd (registry w)) \<Longrightarrow> distinct (map snd (registry w'))"
    "\<And>j. traps w' j = traps w j" "\<And>j. is_alive w' j = is_alive w j" "\<And>j. is_alive w j \<Longrightarrow> links_of w' j = links_of w j"
    "\<And>j. result_of w' j = result_of w j" "\<And>j. cleaned w j \<Longrightarrow> cleaned w' j"
    "\<And>j. messages_of w' j = take 256 (messages_of w j @ ms j)"
    "\<And>k l. (k, l) \<in> N \<Longrightarrow> \<not> susceptible w l \<and> (is_alive w l \<longrightarrow> exit_message k e \<in> set (ms l))"
  shows "spread e X N w w'"
proof -
  have "\<not> killed w w' j" for j using assms(5) by (simp add: killed_def)
  moreover have "susceptible w' l = susceptible w l" for l using assms(4,5) by (simp add: susceptible_def)
  ultimately show ?thesis unfolding spread_def using assms by (auto intro!: exI [of _ ms])
qed

lemma messages_short: "world_ok w \<Longrightarrow> take 256 (messages_of w j) = messages_of w j"
proof (cases "actor_lookup j w")
  case (Some a)
  assume "world_ok w"
  with Some have "mb_ok (actor_mailbox a)" using lookup_in by (auto simp: world_ok_def)
  with Some show ?thesis using mb_size_le by (simp add: messages_of_def)
qed (simp add: messages_of_def)

lemma spread_send:
  assumes ok: "world_ok w" and send: "actor_send l m w = Some w'"
    and N: "\<And>k l'. (k, l') \<in> N \<Longrightarrow> l' = l \<and> m = exit_message k e \<and> traps w l"
  shows "spread e X N w w'"
proof -
  obtain w1 where w1: "actor_send l m w = Some w1" "world_ok w1" "map actor_core (actors w1) = map actor_core (actors w)"
    "supervisors w1 = supervisors w" "registry w1 = registry w" "ets_tables w1 = ets_tables w" "timers w1 = timers w"
    "\<And>j. map_option actor_core (actor_lookup j w1) = map_option actor_core (actor_lookup j w)"
    "\<And>j. map_option (mb_list \<circ> actor_mailbox) (actor_lookup j w1) =
      map_option (\<lambda>a. if j = l \<and> alive a then take 256 (mb_list (actor_mailbox a) @ [m]) else mb_list (actor_mailbox a))
        (actor_lookup j w)"
    by (rule actor_send_effect [OF ok, of l m]) (rule that, assumption+)
  then have [simp]: "w1 = w'" using send by simp
  define ms where "ms = (\<lambda>j. if j = l \<and> is_alive w l then [m] else [])"
  have f: "traps w' j = traps w j" "is_alive w' j = is_alive w j" "links_of w' j = links_of w j"
    "result_of w' j = result_of w j" for j
    using w1(8) [of j] by (auto simp: traps_def is_alive_def links_of_def result_of_def actor_core_def split: option.splits)
  have "messages_of w' j = take 256 (messages_of w j @ ms j)" for j
  proof (cases "actor_lookup j w")
    case None
    then show ?thesis using w1(9) [of j] by (auto simp: messages_of_def ms_def is_alive_def)
  next
    case (Some a)
    with w1(9) [of j] have "messages_of w' j = (if j = l \<and> alive a then take 256 (messages_of w j @ [m]) else messages_of w j)"
      by (auto simp: messages_of_def)
    then show ?thesis using Some messages_short [OF ok, of j] by (auto simp: ms_def is_alive_def)
  qed
  moreover have "\<not> susceptible w b \<and> (is_alive w b \<longrightarrow> exit_message k e \<in> set (ms b))" if "(k, b) \<in> N" for k b
    using N [OF that] by (simp add: susceptible_def ms_def)
  ultimately show ?thesis
    using w1(2,4-6) f by (intro spread_quiet [where ms = ms]) (simp_all add: cleaned_def)
qed

lemma spread_refl:
  assumes "world_ok w" "\<And>k l. (k, l) \<in> N \<Longrightarrow> \<not> is_alive w l"
  shows "spread e X N w w"
  using assms messages_short [OF assms(1)]
  by (intro spread_quiet [where ms = "\<lambda>_. []"]) (auto simp: susceptible_def)

lemma spread_weaken: "spread e X N w w' \<Longrightarrow> X \<subseteq> Y \<Longrightarrow> spread e Y N w w'"
  unfolding spread_def by blast

text \<open>A loop: every step spreads from its own sources.\<close>

lemma spread_ofold:
  assumes "world_ok w" "supervisors w = []" "ofold f xs w = Some w'"
    and "\<And>x w w'. x \<in> set xs \<Longrightarrow> world_ok w \<Longrightarrow> supervisors w = [] \<Longrightarrow> P w \<Longrightarrow> f x w = Some w' \<Longrightarrow> spread e (X x) (N x) w w'"
    and "P w" and P: "\<And>w w' X N. P w \<Longrightarrow> spread e X N w w' \<Longrightarrow> P w'"
  shows "spread e (\<Union>x \<in> set xs. X x) (\<Union>x \<in> set xs. N x) w w'"
  using assms(1-5)
proof (induction xs arbitrary: w)
  case Nil
  then have "w' = w" by simp
  with Nil spread_refl [of w "{}" e "{}"] show ?case by simp
next
  case (Cons x xs)
  then obtain w1 where w1: "f x w = Some w1" "ofold f xs w1 = Some w'" by (auto simp: bind_eq_Some_conv)
  have 1: "spread e (X x) (N x) w w1" using w1(1) Cons.prems(1,2,5) by (intro Cons.prems(4)) auto
  then have "world_ok w1" "supervisors w1 = []" using Cons.prems(2) by (simp_all add: spread_def)
  moreover have "P w1" using Cons.prems(5) 1 by (rule P)
  ultimately have "spread e (\<Union>x \<in> set xs. X x) (\<Union>x \<in> set xs. N x) w1 w'"
    using Cons.prems(4) w1(2) by (intro Cons.IH) auto
  from spread_trans [OF 1 this] show ?case by simp
qed

definition announces :: "tm \<Rightarrow> notifier \<Rightarrow> bool" where
  "announces e notify \<longleftrightarrow>
     (\<forall>i w w'. world_ok w \<longrightarrow> supervisors w = [] \<longrightarrow> \<not> is_alive w i \<longrightarrow> notify i (Some e) w = Some w' \<longrightarrow>
        spread e (set (links_of w i)) ({i} \<times> set (links_of w i)) w w' \<and>
        (distinct (map snd (registry w)) \<longrightarrow> cleaned w' i))"

lemma dead_facts:
  "is_alive (mark_dead i r w) j \<longleftrightarrow> is_alive w j \<and> j \<noteq> i"
  "traps (mark_dead i r w) j = traps w j" "links_of (mark_dead i r w) j = links_of w j"
  "messages_of (mark_dead i r w) j = messages_of w j"
  "result_of (mark_dead i r w) j = (if j = i \<and> actor_lookup i w \<noteq> None then r else result_of w j)"
  "cleaned (mark_dead i r w) j = cleaned w j"
  by (auto simp: is_alive_def traps_def links_of_def messages_of_def result_of_def cleaned_def lookup_mark_dead
      split: option.splits)

lemma exit_signal_spreads:
  assumes a: "announces e notify" and w: "world_ok w" "supervisors w = []"
    and run: "exit_signal notify l k e w = Some w'"
  shows "spread e {l} {(k, l)} w w'"
proof (cases "susceptible w l")
  case False
  show ?thesis
  proof (cases "is_alive w l")
    case True
    with False have "actor_send l (exit_message k e) w = Some w'" "traps w l"
      using run by (auto simp: susceptible_def is_alive_def traps_def exit_signal_def split: option.splits)
    then show ?thesis using w by (intro spread_send) auto
  next
    case dead: False
    then have "w' = w" using run by (auto simp: is_alive_def exit_signal_def split: option.splits)
    then show ?thesis using dead w spread_refl [of w "{(k, l)}" e "{l}"] by simp
  qed
next
  case True
  then have alive: "is_alive w l" by (simp add: susceptible_def)
  define w1 where "w1 = mark_dead l (Some e) w"
  have run1: "notify l (Some e) w1 = Some w'"
    using True run by (auto simp: susceptible_def is_alive_def traps_def exit_signal_def w1_def split: option.splits)
  have w1: "world_ok w1" "supervisors w1 = []" "\<not> is_alive w1 l" "registry w1 = registry w"
    using w ok_mark_dead by (simp_all add: w1_def dead_facts)
  have s: "spread e (set (links_of w l)) ({l} \<times> set (links_of w l)) w1 w'"
    and clean: "distinct (map snd (registry w)) \<Longrightarrow> cleaned w' l"
  proof -
    from a w1(1-3) run1 have "spread e (set (links_of w1 l)) ({l} \<times> set (links_of w1 l)) w1 w' \<and>
        (distinct (map snd (registry w1)) \<longrightarrow> cleaned w' l)" unfolding announces_def by blast
    moreover have "links_of w1 l = links_of w l" by (simp add: w1_def dead_facts)
    ultimately show "spread e (set (links_of w l)) ({l} \<times> set (links_of w l)) w1 w'"
      "distinct (map snd (registry w)) \<Longrightarrow> cleaned w' l" using w1(4) by simp_all
  qed
  have killed: "killed w w' j \<longleftrightarrow> j = l \<or> killed w1 w' j" for j
    using s alive by (auto simp: killed_def spread_def w1_def dead_facts)
  have l1: "\<not> killed w1 w' l" using w1(3) by (simp add: killed_def)
  have sus: "susceptible w1 k \<Longrightarrow> susceptible w k \<and> links_of w1 k = links_of w k" for k
    by (auto simp: susceptible_def w1_def dead_facts)
  have reach: "exit_reaches w l j" if "killed w w' j" for j
  proof (cases "j = l")
    case False
    then have "killed w1 w' j" using that by (simp add: killed)
    from spread_reach [OF s this] obtain x where x: "x \<in> set (links_of w l)" "exit_reaches w1 x j" by blast
    from exit_reaches_mono [OF x(2) sus] have "exit_reaches w x j" by blast
    from exit_reaches_trans [OF this exit_reaches.self [OF True] x(1)] show ?thesis .
  qed (simp add: exit_reaches.self True)
  have res: "result_of w' j = (if killed w w' j then Some e else result_of w j)" for j
  proof -
    have "result_of w' j = (if killed w1 w' j then Some e else result_of w1 j)"
      using s unfolding spread_def by auto
    then show ?thesis using l1 alive
      by (auto simp: killed w1_def dead_facts is_alive_def split: option.splits)
  qed
  have fw1: "messages_of w1 = messages_of w" "links_of w1 = links_of w"
    by (auto simp: w1_def dead_facts)
  from spread_messages [OF s] obtain ms where "(\<forall>j. messages_of w' j = take 256 (messages_of w1 j @ ms j)) \<and>
       (\<forall>k' l'. (k', l') \<in> {l} \<times> set (links_of w l) \<or> killed w1 w' k' \<and> l' \<in> set (links_of w1 k') \<longrightarrow>
         \<not> susceptible w' l' \<and> (is_alive w' l' \<longrightarrow> exit_message k' e \<in> set (ms l')))"
    by (rule exE)
  then have ms: "\<And>j. messages_of w' j = take 256 (messages_of w j @ ms j)"
    "\<And>k' l'. (k', l') \<in> {l} \<times> set (links_of w l) \<or> killed w1 w' k' \<and> l' \<in> set (links_of w k') \<Longrightarrow>
         \<not> susceptible w' l' \<and> (is_alive w' l' \<longrightarrow> exit_message k' e \<in> set (ms l'))"
    unfolding fw1 by blast+
  have gone: "\<not> is_alive w' l" using s w1(3) by (auto simp: spread_def)
  have live: "is_alive w' j \<longrightarrow> is_alive w j \<and> links_of w' j = links_of w j" "traps w' j = traps w j"
    "cleaned w j \<longrightarrow> cleaned w' j" "killed w1 w' j \<longrightarrow> distinct (map snd (registry w)) \<longrightarrow> cleaned w' j" for j
    using s unfolding spread_def by (auto simp: w1_def dead_facts)
  have keep: "world_ok w' \<and> supervisors w' = supervisors w \<and>
      (distinct (map snd (registry w)) \<longrightarrow> distinct (map snd (registry w')))"
    using s w w1 unfolding spread_def by simp
  have announced: "\<not> susceptible w' l' \<and> (is_alive w' l' \<longrightarrow> exit_message k' e \<in> set (ms l'))"
    if "(k', l') \<in> {(k, l)} \<or> killed w w' k' \<and> l' \<in> set (links_of w k')" for k' l'
    using that ms(2) [of k' l'] gone by (auto simp: killed susceptible_def)
  show ?thesis
    unfolding spread_def
    by (intro conjI allI impI exI [of _ ms])
      (use keep live res reach clean ms(1) announced in \<open>auto simp: killed\<close>)
qed

lemma dead_facts_clear:
  assumes "\<not> is_alive w i"
  shows "world_ok w \<Longrightarrow> spread e {} {} w (upd_actor i (\<lambda>a. a\<lparr>monitors := [], links := []\<rparr>) w)"
proof -
  assume ok: "world_ok w"
  define w' where "w' = upd_actor i (\<lambda>a. a\<lparr>monitors := [], links := []\<rparr>) w"
  have look: "actor_lookup j w' = (if i = j then map_option (\<lambda>a. a\<lparr>monitors := [], links := []\<rparr>) (actor_lookup j w) else actor_lookup j w)" for j
    by (simp add: w'_def lookup_upd)
  have "traps w' j = traps w j" "is_alive w' j = is_alive w j" "result_of w' j = result_of w j"
    "messages_of w' j = messages_of w j" for j
    by (auto simp: look traps_def is_alive_def result_of_def messages_of_def split: option.splits)
  moreover have "links_of w' j = links_of w j" if "is_alive w j" for j
    using that assms by (auto simp: look links_of_def)
  moreover have "world_ok w'" using ok by (simp add: w'_def ok_upd)
  ultimately have "spread e {} {} w w'"
    using messages_short [OF ok]
    by (intro spread_quiet [where ms = "\<lambda>_. []"]) (simp_all add: w'_def cleaned_def)
  then show ?thesis by (simp add: w'_def)
qed

lemma spread_tables:
  assumes "world_ok w"
  shows "spread e {} {} w (w\<lparr>ets_tables := ets_destroy_by_owner i (ets_tables w), registry := names_unregister_id i (registry w)\<rparr>)"
    (is "spread e {} {} w ?w'")
proof -
  have "cleaned ?w' j" if "cleaned w j" for j
    using that unregister_id_subset [of i "registry w"] destroyed_tables [of _ i "ets_tables w"]
    by (auto simp: cleaned_def)
  moreover have "traps ?w' j = traps w j" "is_alive ?w' j = is_alive w j" "result_of ?w' j = result_of w j"
    "messages_of ?w' j = messages_of w j" "links_of ?w' j = links_of w j" for j
    by (simp_all add: traps_def is_alive_def result_of_def messages_of_def links_of_def)
  moreover have "world_ok ?w'" using assms by (simp add: world_ok_def)
  ultimately show ?thesis
    using messages_short [OF assms] unregister_id(1) [of "registry w" i]
    by (intro spread_quiet [where ms = "\<lambda>_. []"]) simp_all
qed

lemma cleaned_tables:
  "distinct (map snd (registry w)) \<Longrightarrow>
    cleaned (w\<lparr>ets_tables := ets_destroy_by_owner i (ets_tables w), registry := names_unregister_id i (registry w)\<rparr>) i"
  using unregister_id(2) [of "registry w" i] destroyed_tables [of _ i "ets_tables w"]
  by (auto simp: cleaned_def)

lemma notify_monitor_spreads:
  "world_ok w \<Longrightarrow> notify_monitor i r m w = Some w' \<Longrightarrow> spread e {} {} w w'"
  using spread_refl [of w "{}" e "{}"] spread_send [of w m _ w' "{}" e "{}"]
  by (auto simp: notify_monitor_def split: option.splits if_splits)

lemma notify_exit_body_announces:
  assumes a: "announces e notify" and e: "cell_is_error e"
  shows "announces e (notify_exit_body notify)"
  unfolding announces_def
proof (intro allI impI)
  fix i w w'
  assume w: "world_ok w" "supervisors w = []" "\<not> is_alive w i" and run: "notify_exit_body notify i (Some e) w = Some w'"
  define w0 where "w0 = w\<lparr>ets_tables := ets_destroy_by_owner i (ets_tables w), registry := names_unregister_id i (registry w)\<rparr>"
  have s0: "spread e {} {} w w0" unfolding w0_def by (rule spread_tables [OF w(1)])
  have w0: "supervisors w0 = []" "\<not> is_alive w0 i" using w spread_world [OF s0] spread_dead [OF s0] by simp_all
  have links: "links_of w0 i = links_of w i" by (simp add: w0_def links_of_def)
  have clean: "distinct (map snd (registry w)) \<Longrightarrow> cleaned w0 i" unfolding w0_def by (rule cleaned_tables)
  have sup: "notify_supervisor notify i (Some e) w0 = Some w0"
    using w0 by (simp add: notify_supervisor_def supervisor_find_for_child_def)
  show "spread e (set (links_of w i)) ({i} \<times> set (links_of w i)) w w' \<and> (distinct (map snd (registry w)) \<longrightarrow> cleaned w' i)"
  proof (cases "actor_lookup i w0")
    case None
    then have "w' = w0" using run sup by (simp add: notify_exit_body_def w0_def [symmetric])
    moreover have "links_of w i = []" using None links by (simp add: links_of_def)
    ultimately show ?thesis using s0 clean by simp
  next
    case (Some b)
    define w1 where "w1 = upd_actor i (\<lambda>a. a\<lparr>monitors := [], links := []\<rparr>) w0"
    have b: "links b = links_of w i" using Some links by (simp add: links_of_def)
    obtain w2 where w2: "ofold (notify_monitor i (Some e)) (monitors b) w1 = Some w2"
      "ofold (notify_link notify i (Some e)) (links b) w2 = Some w'"
      using run sup Some by (auto simp: notify_exit_body_def w0_def [symmetric] w1_def bind_eq_Some_conv)
    have s1: "spread e {} {} w0 w1" unfolding w1_def
      using dead_facts_clear [OF w0(2)] spread_world [OF s0] by blast
    have "spread e (\<Union>x \<in> set (monitors b). {}) (\<Union>x \<in> set (monitors b). {}) w1 w2"
      using spread_world [OF s1] w0(1)
      by (intro spread_ofold [where P = "\<lambda>_. True", OF _ _ w2(1)] notify_monitor_spreads) auto
    then have s2: "spread e {} {} w1 w2" by simp
    have dead2: "\<not> is_alive w2 i"
      using spread_dead [OF s2] spread_dead [OF s1] w0(2) by blast
    have step: "spread e {l} {(i, l)} v v'"
      if "world_ok v" "supervisors v = []" "notify_link notify i (Some e) l v = Some v'" for l v v'
    proof (cases "is_alive v l")
      case True
      then have "exit_signal notify l i e v = Some v'"
        using that(3) e by (auto simp: notify_link_def is_alive_def is_error_result_def split: option.splits)
      then show ?thesis by (rule exit_signal_spreads [OF a that(1,2)])
    next
      case False
      then have "v' = v" using that(3) by (auto simp: notify_link_def is_alive_def split: option.splits)
      then show ?thesis using False that(1) spread_refl [of v "{(i, l)}" e "{l}"] by simp
    qed
    have "spread e (\<Union>l \<in> set (links b). {l}) (\<Union>l \<in> set (links b). {(i, l)}) w2 w'"
      using spread_world [OF s2] spread_world [OF s1] w0(1)
      by (intro spread_ofold [where P = "\<lambda>_. True", OF _ _ w2(2)] step) auto
    moreover have "(\<Union>l \<in> set (links b). {l}) = set (links_of w i)"
      "(\<Union>l \<in> set (links b). {(i, l)}) = {i} \<times> set (links_of w i)" by (auto simp: b)
    ultimately have s3: "spread e (set (links_of w i)) ({i} \<times> set (links_of w i)) w2 w'" by (simp only:)
    have "spread e (set (links_of w i)) ({i} \<times> set (links_of w i)) w w'"
      using spread_trans [OF s0 spread_trans [OF s1 spread_trans [OF s2 s3]]] by (simp only: Un_empty_left)
    moreover have "cleaned w' i" if "distinct (map snd (registry w))"
      by (rule spread_cleaned [OF s3 spread_cleaned [OF s2 spread_cleaned [OF s1 clean [OF that]]]])
    ultimately show ?thesis by blast
  qed
qed

lemma notify_exit_announces: "cell_is_error e \<Longrightarrow> announces e (notify_exit n)"
proof (induction n)
  case (Suc n)
  have "notify_exit (Suc n) = notify_exit_body (notify_exit n)" by (intro ext) simp
  with notify_exit_body_announces [OF Suc.IH [OF Suc.prems] Suc.prems] show ?case by simp
qed (simp add: announces_def)

subsection \<open>The theorem\<close>

text \<open>
  C33. An error exit without supervisors kills exactly the actors that do not trap exits and are linked
  in a chain to its target. Each of them has the error as its result, its name and its tables are gone,
  and every actor linked to it that is still alive traps exits and has got the message about it, as far
  as its mailbox had room; no other actor gets or loses anything but messages at the end of its mailbox.
\<close>

theorem exit_reaches_links:
  assumes "world_ok w" "supervisors w = []" "distinct (map snd (registry w))" "cell_is_error e"
  shows "\<exists>w' ms. actor_exit_signal target sender e w = Some w' \<and>
    (\<forall>j. is_alive w' j \<longleftrightarrow> is_alive w j \<and> \<not> exit_reaches w target j) \<and>
    (\<forall>j. result_of w' j = (if exit_reaches w target j then Some e else result_of w j)) \<and>
    (\<forall>j. exit_reaches w target j \<longrightarrow> cleaned w' j) \<and>
    (\<forall>j. messages_of w' j = take 256 (messages_of w j @ ms j)) \<and>
    (\<forall>k l. exit_reaches w target k \<and> l \<in> set (links_of w k) \<and> is_alive w' l \<longrightarrow>
       traps w l \<and> exit_message k e \<in> set (ms l)) \<and>
    (is_alive w target \<and> traps w target \<longrightarrow>
       exit_message (case sender of Some i \<Rightarrow> i | None \<Rightarrow> 0) e \<in> set (ms target))"
proof -
  define k where "k = (case sender of Some i \<Rightarrow> i | None \<Rightarrow> (0 :: int))"
  have "settles (exit_signal (notify_exit EXIT_DEPTH) target k e w) w"
    using exit_signal_settles [OF notify_exit_settles assms(1)] exit_measure_bound [OF assms(1)] by simp
  then obtain w' where w': "exit_signal (notify_exit EXIT_DEPTH) target k e w = Some w'" by (auto simp: settles_def)
  have s: "spread e {target} {(k, target)} w w'"
    by (rule exit_signal_spreads [OF notify_exit_announces [OF assms(4)] assms(1,2) w'])
  from spread_messages [OF s] obtain ms where ms: "\<And>j. messages_of w' j = take 256 (messages_of w j @ ms j)"
    "\<And>i l. (i, l) \<in> {(k, target)} \<or> killed w w' i \<and> l \<in> set (links_of w i) \<Longrightarrow>
       \<not> susceptible w' l \<and> (is_alive w' l \<longrightarrow> exit_message i e \<in> set (ms l))" by blast
  have alive: "is_alive w' j \<Longrightarrow> is_alive w j" and traps: "traps w' j = traps w j"
    and res: "result_of w' j = (if killed w w' j then Some e else result_of w j)"
    and clean: "killed w w' j \<Longrightarrow> cleaned w' j" for j
    using s assms(3) by (auto simp: spread_def)
  have gone: "killed w w' l" if "\<not> susceptible w' l" "susceptible w l" for l
    using that traps [of l] by (auto simp: susceptible_def killed_def)
  have killed: "killed w w' j \<longleftrightarrow> exit_reaches w target j" for j
  proof
    assume "killed w w' j"
    from spread_reach [OF s this] show "exit_reaches w target j" by simp
  next
    assume "exit_reaches w target j"
    then show "killed w w' j"
    proof (induction rule: exit_reaches.induct)
      case self
      then show ?case using gone ms(2) [of k target] by simp
    next
      case (link i l)
      then show ?case using gone ms(2) [of i l] by simp
    qed
  qed
  have "is_alive w' j \<longleftrightarrow> is_alive w j \<and> \<not> exit_reaches w target j" for j
    using alive [of j] killed [of j] by (auto simp: killed_def)
  moreover have "traps w l \<and> exit_message i e \<in> set (ms l)"
    if "exit_reaches w target i" "l \<in> set (links_of w i)" "is_alive w' l" for i l
    using that ms(2) [of i l] traps [of l] by (auto simp: killed susceptible_def)
  moreover have "exit_message k e \<in> set (ms target)" if "is_alive w target" "traps w target"
  proof -
    have "\<not> killed w w' target" using that killed exit_reaches_susceptible by (auto simp: susceptible_def)
    then show ?thesis using ms(2) [of k target] that by (simp add: killed_def)
  qed
  moreover have "actor_exit_signal target sender e w = Some w'"
    using w' by (simp add: actor_exit_signal_def actor_notify_exit_def k_def)
  ultimately show ?thesis using ms(1) res clean unfolding killed k_def by blast
qed

theorem exit_reaches_links_witness:
  "\<exists>w' (ms :: int \<Rightarrow> tm list). actor_exit_signal 1 None (cell_error ''crash'' None) linked_world = Some w' \<and>
     \<not> is_alive w' 1 \<and> \<not> is_alive w' 2 \<and> is_alive w' 3 \<and> is_alive w' 4 \<and>
     result_of w' 2 = Some (cell_error ''crash'' None) \<and> cleaned w' 2 \<and>
     messages_of w' 3 = take 256 (ms 3) \<and> exit_message 2 (cell_error ''crash'' None) \<in> set (ms 3)"
proof -
  let ?e = "cell_error ''crash'' None" let ?w = linked_world
  note facts = linked_world_def is_alive_def traps_def links_of_def messages_of_def susceptible_def actor_lookup_def
    actor_create_def initial_world_def MAX_ACTORS_def actor_link_def upd_actor_def add_link_def MAX_LINKS_def
  have sus: "susceptible ?w 1" "susceptible ?w 2" "\<not> susceptible ?w 3" by (simp_all add: facts)
  have lnk: "set (links_of ?w 1) = {2}" "set (links_of ?w 2) = {1, 3}" by (auto simp: facts)
  have alv: "is_alive ?w 3" "is_alive ?w 4" by (simp_all add: facts)
  have msg: "messages_of ?w 3 = []" by (simp add: facts mailbox_init_ok)
  have r1: "exit_reaches ?w 1 1" by (rule exit_reaches.self [OF sus(1)])
  have r2: "exit_reaches ?w 1 2" by (rule exit_reaches.link [OF r1]) (use lnk sus in auto)
  have only: "j = 1 \<or> j = 2" if "exit_reaches ?w 1 j" for j
    using that by (induction rule: exit_reaches.induct) (use lnk sus in auto)
  have n3: "\<not> exit_reaches ?w 1 3" and n4: "\<not> exit_reaches ?w 1 4" using only by force+
  have "supervisors ?w = []" "distinct (map snd (registry ?w))" "cell_is_error ?e"
    by (simp_all add: facts cell_error_def)
  from exit_reaches_links [OF linked_world_ok this, of 1 None] obtain w' ms where
    "actor_exit_signal 1 None ?e ?w = Some w'"
    and f: "\<And>j. is_alive w' j \<longleftrightarrow> is_alive ?w j \<and> \<not> exit_reaches ?w 1 j"
    "\<And>j. result_of w' j = (if exit_reaches ?w 1 j then Some ?e else result_of ?w j)"
    "\<And>j. exit_reaches ?w 1 j \<Longrightarrow> cleaned w' j"
    "\<And>j. messages_of w' j = take 256 (messages_of ?w j @ ms j)"
    "\<And>k l. exit_reaches ?w 1 k \<and> l \<in> set (links_of ?w k) \<and> is_alive w' l \<Longrightarrow>
       traps ?w l \<and> exit_message k ?e \<in> set (ms l)" by blast
  moreover have "exit_message 2 ?e \<in> set (ms 3)" using f(5) [of 2 3] f(1) [of 3] r2 n3 alv lnk by simp
  ultimately show ?thesis using r1 r2 n3 n4 alv msg f(4) [of 3]
    by (intro exI [of _ w'] exI [of _ ms]) (simp add: f)
qed

end
