(* ===== verification/SupFacts.thy ===== *)
theory SupFacts
  imports ExitFacts
begin

section \<open>What a supervisor restarts\<close>

text \<open>
  The three strategies differ in the part of the list of children that is replaced: the child that
  died, all, or the child that died and those after it.
\<close>

subsection \<open>Exits without error\<close>











subsection \<open>Killing children\<close>





subsection \<open>Starting children\<close>

definition fresh_ids :: "world \<Rightarrow> bool" where
  "fresh_ids w \<longleftrightarrow> (\<forall>a \<in> set (actors w). actor_id a < next_actor_id w)"



lemma alive_upd_sup [simp]: "is_alive (upd_sup i f w) j = is_alive w j" "fresh_ids (upd_sup i f w) = fresh_ids w"
  by (simp_all add: is_alive_def actor_lookup_def upd_sup_def fresh_ids_def)


subsection \<open>The strategies\<close>











end
