(* ===== verification/TimerFacts.thy ===== *)
theory TimerFacts
  imports ExitFacts
begin

section \<open>Timers\<close>

text \<open>What one round of the timers does to the timers and to the mailboxes.\<close>

definition fires :: "timer \<Rightarrow> bool" where
  "fires t \<longleftrightarrow> timer_active_flag t \<and> remaining_ticks t \<le> 0"

definition advance :: "timer \<Rightarrow> timer" where
  "advance t = (if \<not> timer_active_flag t then t
     else if 0 < remaining_ticks t then t\<lparr>remaining_ticks := remaining_ticks t - 1\<rparr> else stop_timer t)"

definition due :: "timer list \<Rightarrow> int \<Rightarrow> tm list" where
  "due ts j = List.map_filter (\<lambda>t. if fires t \<and> target_actor_id t = j then timer_message t else None) ts"

lemma due_snoc: "due (ts @ [t]) j = due ts j @
    (if fires t \<and> target_actor_id t = j then case timer_message t of Some m \<Rightarrow> [m] | None \<Rightarrow> [] else [])"
  by (simp add: due_def List.map_filter_def split: option.split)

lemma send_messages:
  assumes "world_ok w"
  obtains w' where "actor_send i m w = Some w'" "world_ok w'" "timers w' = timers w"
    "\<And>j. is_alive w' j = is_alive w j"
    "\<And>j. messages_of w' j = (if j = i \<and> is_alive w j then take 256 (messages_of w j @ [m]) else messages_of w j)"
proof -
  obtain w' where w': "actor_send i m w = Some w'" "world_ok w'" "timers w' = timers w"
    "\<And>j. map_option actor_core (actor_lookup j w') = map_option actor_core (actor_lookup j w)"
    "\<And>j. map_option (mb_list \<circ> actor_mailbox) (actor_lookup j w') =
      map_option (\<lambda>a. if j = i \<and> alive a then take 256 (mb_list (actor_mailbox a) @ [m]) else mb_list (actor_mailbox a))
        (actor_lookup j w)"
    by (rule actor_send_effect [OF assms, of i m]) (rule that, assumption+)
  have "is_alive w' j = is_alive w j" for j
    using w'(4) [of j] by (auto simp: is_alive_def actor_core_def split: option.splits)
  moreover have "messages_of w' j = (if j = i \<and> is_alive w j then take 256 (messages_of w j @ [m]) else messages_of w j)" for j
  proof (cases "actor_lookup j w")
    case None
    then show ?thesis using w'(5) [of j] by (auto simp: messages_of_def is_alive_def)
  next
    case (Some a)
    then show ?thesis using w'(5) [of j] by (auto simp: messages_of_def is_alive_def)
  qed
  ultimately show ?thesis by (intro that [OF w'(1-3)])
qed

lemma set_timers [simp]:
  "world_ok (w\<lparr>timers := ts\<rparr>) = world_ok w" "is_alive (w\<lparr>timers := ts\<rparr>) j = is_alive w j"
  "messages_of (w\<lparr>timers := ts\<rparr>) j = messages_of w j"
  by (simp_all add: world_ok_def is_alive_def messages_of_def actor_lookup_def)

text \<open>The state when the first \<open>k\<close> timers have been looked at.\<close>

definition ticked :: "world \<Rightarrow> nat \<Rightarrow> bool \<times> world \<Rightarrow> bool" where
  "ticked w k s \<longleftrightarrow> world_ok (snd s) \<and> fst s = list_ex fires (take k (timers w)) \<and>
     timers (snd s) = map advance (take k (timers w)) @ drop k (timers w) \<and>
     (\<forall>j. is_alive (snd s) j = is_alive w j) \<and>
     (\<forall>j. messages_of (snd s) j = (if is_alive w j then take 256 (messages_of w j @ due (take k (timers w)) j) else messages_of w j))"

lemma timer_tick_step:
  assumes k: "k < length (timers w)" and s: "ticked w k s"
  shows "\<exists>s'. timer_tick k s = Some s' \<and> ticked w (Suc k) s'"
proof -
  obtain fired v where sv: "s = (fired, v)" by (cases s)
  define t where "t = timers w ! k"
  have v: "world_ok v" "fired = list_ex fires (take k (timers w))" "timers v = map advance (take k (timers w)) @ drop k (timers w)"
    "\<And>j. is_alive v j = is_alive w j"
    "\<And>j. messages_of v j = (if is_alive w j then take 256 (messages_of w j @ due (take k (timers w)) j) else messages_of w j)"
    using s by (simp_all add: ticked_def sv)
  have tk: "take (Suc k) (timers w) = take k (timers w) @ [t]" "timers v ! k = t"
    using k by (simp_all add: take_Suc_conv_app_nth t_def v(3) nth_append)
  have upd: "(timers v)[k := advance t] = map advance (take (Suc k) (timers w)) @ drop (Suc k) (timers w)"
    using k by (simp add: v(3) tk list_update_append Cons_nth_drop_Suc [symmetric])
  consider (off) "\<not> timer_active_flag t" | (wait) "timer_active_flag t" "0 < remaining_ticks t" | (fire) "fires t"
    by (metis fires_def not_le)
  then show ?thesis
  proof cases
    case off
    then have "advance t = t" "\<not> fires t" by (simp_all add: advance_def fires_def)
    moreover from this have "timers v = (timers v)[k := advance t]" using tk(2) by (metis list_update_id)
    ultimately show ?thesis using off v upd tk
      by (simp add: timer_tick_def sv ticked_def due_snoc)
  next
    case wait
    then have "advance t = t\<lparr>remaining_ticks := remaining_ticks t - 1\<rparr>" "\<not> fires t" by (simp_all add: advance_def fires_def)
    then show ?thesis using wait v upd tk
      by (simp add: timer_tick_def sv ticked_def due_snoc)
  next
    case fire
    then have f: "advance t = stop_timer t" "timer_active_flag t" "\<not> 0 < remaining_ticks t" by (simp_all add: advance_def fires_def)
    show ?thesis
    proof (cases "timer_message t")
      case None
      then show ?thesis using fire f v upd tk by (simp add: timer_tick_def sv ticked_def due_snoc)
    next
      case (Some m)
      from send_messages [OF v(1), of "target_actor_id t" m] obtain v' where v':
        "actor_send (target_actor_id t) m v = Some v'" "world_ok v'" "timers v' = timers v" "\<And>j. is_alive v' j = is_alive v j"
        "\<And>j. messages_of v' j = (if j = target_actor_id t \<and> is_alive v j then take 256 (messages_of v j @ [m]) else messages_of v j)"
        by blast
      have "timer_tick k s = Some (True, v'\<lparr>timers := (timers v)[k := advance t]\<rparr>)"
        using f tk(2) Some v' by (simp add: timer_tick_def sv)
      moreover have "messages_of v' j = (if is_alive w j then take 256 (messages_of w j @ due (take (Suc k) (timers w)) j) else messages_of w j)" for j
        using Some fire unfolding v' v(4,5) tk(1) due_snoc by (auto simp: take_take_append simp del: take_append)
      ultimately show ?thesis using fire v v' upd tk(1) by (simp add: ticked_def)
    qed
  qed
qed

text \<open>
  C37. A round of the timers returns, counts down the timers that still have ticks left, and stops
  exactly those that have none; every actor that is alive gets the messages of its timers that stopped,
  in the order in which they were created, as far as its mailbox has room, and nobody else
  gets a message. The result says whether a timer has stopped.
\<close>

theorem timer_tick_delivers:
  assumes "world_ok w"
  shows "\<exists>w'. timer_tick_all w = Some (list_ex fires (timers w), w') \<and> world_ok w' \<and>
    timers w' = map advance (timers w) \<and>
    (\<forall>j. messages_of w' j = (if is_alive w j then take 256 (messages_of w j @ due (timers w) j) else messages_of w j))"
proof -
  have "ticked w 0 (False, w)"
    using assms messages_short [OF assms] by (simp add: ticked_def due_def List.map_filter_def)
  then have "\<exists>s. ofold timer_tick [0..<length (timers w)] (False, w) = Some s \<and> ticked w (length [0..<length (timers w)]) s"
    by (rule ofold_rule) (simp only: length_upt nth_upt diff_zero add_0 timer_tick_step)
  then obtain s where s: "timer_tick_all w = Some s" "ticked w (length (timers w)) s"
    by (auto simp: timer_tick_all_def)
  then have "s = (list_ex fires (timers w), snd s)" by (cases s) (simp add: ticked_def)
  with s show ?thesis by (auto simp: ticked_def)
qed

text \<open>One actor with a timer of no ticks and one of two.\<close>

definition timed_world :: world where
  "timed_world = snd (timer_create 1 2 (Some (cell_symbol ''later'')) (snd (timer_create 1 0 (Some (cell_symbol ''now''))
     (snd (actor_create cell_nil cell_nil (initial_world no_context))))))"

theorem timer_tick_delivers_witness:
  "\<exists>w'. timer_tick_all timed_world = Some (True, w') \<and> messages_of w' 1 = [cell_symbol ''now''] \<and>
     map remaining_ticks (timers w') = [0, 1] \<and> map timer_active_flag (timers w') = [False, True]"
proof -
  note facts = timed_world_def timer_create_def MAX_TIMERS_def actor_create_def initial_world_def MAX_ACTORS_def
  have ok: "world_ok timed_world" by (simp add: facts world_ok_def mailbox_init_ok)
  have alive: "is_alive timed_world 1" "messages_of timed_world 1 = []"
    by (simp_all add: facts is_alive_def messages_of_def actor_lookup_def mailbox_init_ok)
  have ts: "timers timed_world = [\<lparr>timer_id = 1, target_actor_id = 1, remaining_ticks = 0,
      timer_message = Some (cell_symbol ''now''), timer_active_flag = True\<rparr>,
    \<lparr>timer_id = 2, target_actor_id = 1, remaining_ticks = 2, timer_message = Some (cell_symbol ''later''), timer_active_flag = True\<rparr>]"
    by (simp add: facts)
  from timer_tick_delivers [OF ok] alive show ?thesis
    by (auto simp: ts fires_def advance_def stop_timer_def due_def List.map_filter_def)
qed

end
