(* ===== verification/ActorPrims.thy ===== *)
theory ActorPrims
  imports Actors
begin

section \<open>The primitives of actors\<close>

text \<open>
  The primitives of \<open>bootstrap/primitives.c\<close> on actors, supervisors, names, timers, the dictionary of
  an actor, term storage, applications and tasks. A primitive takes its argument list and the world;
  \<open>None\<close> stands for a failed assertion or an operation that does not return. A primitive that may
  suspend its actor returns \<open>Suspends\<close> then: the fiber goes on with the value that it is resumed with.
\<close>

type_synonym effect = "world \<Rightarrow> (tm \<times> world) option"

datatype outcome = Returns tm | Suspends

type_synonym suspendable = "world \<Rightarrow> (outcome \<times> world) option"

definition answer :: "tm \<Rightarrow> effect" where
  "answer c w = Some (c, w)"

definition failure :: "string \<Rightarrow> tm \<Rightarrow> effect" where
  "failure msg c = answer (cell_error msg (Some c))"

definition number :: "int \<Rightarrow> tm" where
  "number i = cell_number (double_of_int i)"

definition returns :: "effect \<Rightarrow> suspendable" where
  "returns f w = map_option (\<lambda>(c, w). (Returns c, w)) (f w)"

text \<open>\<^verbatim>\<open>(int)cell_get_number(c)\<close>, undefined outside the range of \<^verbatim>\<open>int\<close>.\<close>

definition int_of_number :: "tm \<Rightarrow> int option" where
  "int_of_number c = do {
     d \<leftarrow> cell_get_number c;
     i \<leftarrow> double_to_int d;
     if - (2 ^ 31) \<le> i \<and> i < 2 ^ 31 then Some i else None
   }"

fun actor_id_of :: "tm \<Rightarrow> int option" where
  "actor_id_of (CActor _ i) = Some i"
| "actor_id_of _ = None"

fun channel_id_of :: "tm \<Rightarrow> int option" where
  "channel_id_of (CChannel _ i) = Some i"
| "channel_id_of _ = None"

text \<open>The checks of the kind of an argument, with the error that is returned otherwise.\<close>

definition with_number :: "string \<Rightarrow> tm \<Rightarrow> (int \<Rightarrow> effect) \<Rightarrow> effect" where
  "with_number msg c f w = (if cell_get_number c = None then failure msg c w else Option.bind (int_of_number c) (\<lambda>i. f i w))"

definition with_symbol :: "string \<Rightarrow> tm \<Rightarrow> (string \<Rightarrow> effect) \<Rightarrow> effect" where
  "with_symbol msg c f w = (case cell_get_symbol c of None \<Rightarrow> failure msg c w | Some s \<Rightarrow> f s w)"

definition with_actor :: "string \<Rightarrow> tm \<Rightarrow> (int \<Rightarrow> effect) \<Rightarrow> effect" where
  "with_actor msg c f w = (case actor_id_of c of None \<Rightarrow> failure msg c w | Some i \<Rightarrow> f i w)"

definition with_current :: "string \<Rightarrow> (int \<Rightarrow> effect) \<Rightarrow> effect" where
  "with_current msg f w = (case current_actor w of None \<Rightarrow> failure msg cell_nil w | Some i \<Rightarrow> f i w)"

text \<open>An argument of a primitive that checks for its presence, with the rest of the list.\<close>

definition next_arg :: "string \<Rightarrow> tm \<Rightarrow> (tm \<Rightarrow> tm \<Rightarrow> effect) \<Rightarrow> effect" where
  "next_arg msg args f w =
     (if cell_is_nil args then failure msg cell_nil w
      else do { a \<leftarrow> cell_car args; rest \<leftarrow> cell_cdr args; f a rest w })"

subsection \<open>Spawning and messages\<close>

definition sched_enqueue_new_actor :: "int \<Rightarrow> world \<Rightarrow> world" where
  "sched_enqueue_new_actor i w = (if sched_running w then w\<lparr>run_queue := run_queue w @ [i]\<rparr> else w)"

definition prim_spawn :: "tm \<Rightarrow> effect" where
  "prim_spawn args w = do {
     behavior \<leftarrow> arg1 args;
     if \<not> cell_is_lambda behavior then failure ''spawn-not-lambda'' behavior w
     else case spawn_actor behavior w of
       (None, w) \<Rightarrow> failure ''max-actors-exceeded'' cell_nil w
     | (Some i, w) \<Rightarrow> answer (cell_actor i) (sched_enqueue_new_actor i w)
   }"

definition is_live :: "int \<Rightarrow> world \<Rightarrow> bool" where
  "is_live i w = (case actor_lookup i w of Some a \<Rightarrow> alive a | None \<Rightarrow> False)"

definition prim_send :: "tm \<Rightarrow> effect" where
  "prim_send args w = do {
     target \<leftarrow> arg1 args;
     message \<leftarrow> arg2 args;
     with_actor ''send-not-actor'' target (\<lambda>i w.
       if \<not> is_live i w then failure ''dead-actor'' target w
       else do { w \<leftarrow> actor_send i message w; answer cell_nil w }) w
   }"

text \<open>The second look at the mailbox is taken with the flag set already, against a lost wake-up.\<close>

definition set_wait :: "int \<Rightarrow> int \<Rightarrow> SuspendReason \<Rightarrow> world \<Rightarrow> world" where
  "set_wait i flag reason =
     upd_actor i (\<lambda>a. a\<lparr>actor_fiber := (actor_fiber a)\<lparr>suspend_reason := reason\<rparr>, wait_flag := flag\<rparr>)"

definition set_suspended :: "int \<Rightarrow> world \<Rightarrow> world" where
  "set_suspended i = upd_actor i (\<lambda>a. a\<lparr>actor_fiber := (actor_fiber a)\<lparr>fiber_state := FIBER_SUSPENDED\<rparr>\<rparr>)"

definition prim_receive :: "tm \<Rightarrow> suspendable" where
  "prim_receive args w =
     (case current_actor w of
        None \<Rightarrow> returns (failure ''receive-no-actor'' cell_nil) w
      | Some i \<Rightarrow> do {
          (message, w) \<leftarrow> actor_receive i w;
          case message of
            Some m \<Rightarrow> Some (Returns m, w)
          | None \<Rightarrow> do {
              (message, w) \<leftarrow> actor_receive i (set_wait i 1 SUSPEND_MAILBOX w);
              Some (case message of
                Some m \<Rightarrow> (Returns m, set_wait i 0 SUSPEND_GENERAL w)
              | None \<Rightarrow> (Suspends, set_suspended i w))
            }
        })"

text \<open>What a suspended primitive returns when its fiber goes on.\<close>

definition resumed_value :: "int \<Rightarrow> tm \<Rightarrow> world \<Rightarrow> tm" where
  "resumed_value i dflt w =
     (case actor_lookup i w of
        Some a \<Rightarrow> (case resume_value (actor_fiber a) of Some v \<Rightarrow> v | None \<Rightarrow> dflt)
      | None \<Rightarrow> dflt)"

definition prim_actor_alive :: "tm \<Rightarrow> effect" where
  "prim_actor_alive args w = do {
     target \<leftarrow> arg1 args;
     with_actor ''alive-not-actor'' target (\<lambda>i w. answer (cell_bool (is_live i w)) w) w
   }"

definition prim_actor_result :: "tm \<Rightarrow> effect" where
  "prim_actor_result args w = do {
     target \<leftarrow> arg1 args;
     with_actor ''result-not-actor'' target (\<lambda>i w.
       case actor_lookup i w of
         None \<Rightarrow> failure ''actor-not-found'' target w
       | Some a \<Rightarrow>
           if alive a then failure ''actor-still-running'' target w
           else answer (case actor_result a of Some r \<Rightarrow> r | None \<Rightarrow> cell_nil) w) w
   }"

definition prim_actor_wait_flag :: "tm \<Rightarrow> effect" where
  "prim_actor_wait_flag args w = do {
     target \<leftarrow> arg1 args;
     with_actor ''wait-flag-not-actor'' target (\<lambda>i w.
       case actor_lookup i w of
         None \<Rightarrow> failure ''actor-not-found'' target w
       | Some a \<Rightarrow> answer (number (wait_flag a)) w) w
   }"

definition prim_actor_reset :: "tm \<Rightarrow> effect" where
  "prim_actor_reset args w = answer cell_nil (actor_reset_all w)"

subsection \<open>Links, monitors and exits\<close>

definition prim_actor_link :: "tm \<Rightarrow> effect" where
  "prim_actor_link args w = do {
     target \<leftarrow> arg1 args;
     with_actor ''link-not-actor'' target (\<lambda>i. with_current ''link-no-actor'' (\<lambda>j w.
       case actor_lookup i w of
         None \<Rightarrow> failure ''link-not-found'' target w
       | Some other \<Rightarrow>
           if alive other then answer cell_nil (actor_link j i w)
           else do {
             w \<leftarrow> (if is_error_result (actor_result other)
                   then actor_exit_signal j (Some i) (the (actor_result other)) w
                   else case actor_lookup j w of
                     Some a \<Rightarrow> if trap_exit a then actor_send j (exit_message i (cell_symbol '':normal'')) w else Some w
                   | None \<Rightarrow> None);
             answer cell_nil w
           })) w
   }"

definition prim_actor_unlink :: "tm \<Rightarrow> effect" where
  "prim_actor_unlink args w = do {
     target \<leftarrow> arg1 args;
     with_actor ''unlink-not-actor'' target (\<lambda>i. with_current ''unlink-no-actor'' (\<lambda>j w.
       answer cell_nil (if actor_lookup i w = None then w else actor_unlink j i w))) w
   }"

definition prim_actor_monitor :: "tm \<Rightarrow> effect" where
  "prim_actor_monitor args w = do {
     target \<leftarrow> arg1 args;
     with_actor ''monitor-not-actor'' target (\<lambda>i. with_current ''monitor-no-actor'' (\<lambda>j w.
       case actor_lookup i w of
         None \<Rightarrow> failure ''monitor-not-found'' target w
       | Some other \<Rightarrow>
           (let (added, w) = actor_add_monitor i j w
            in do {
              w \<leftarrow> (if added then Some w
                    else actor_send j (down_message i (if is_error_result (actor_result other)
                           then the (actor_result other) else cell_symbol '':normal'')) w);
              answer cell_nil w
            }))) w
   }"

definition prim_actor_trap_exit :: "tm \<Rightarrow> effect" where
  "prim_actor_trap_exit args w = do {
     flag \<leftarrow> arg1 args;
     with_current ''trap-exit-no-actor'' (\<lambda>j w.
       answer cell_nil (upd_actor j (\<lambda>a. a\<lparr>trap_exit := (cell_get_bool flag = Some True)\<rparr>) w)) w
   }"

definition prim_actor_exit :: "tm \<Rightarrow> effect" where
  "prim_actor_exit args w = do {
     target \<leftarrow> arg1 args;
     reason \<leftarrow> arg2 args;
     with_actor ''exit-not-actor'' target (\<lambda>i w.
       if \<not> is_live i w then answer cell_nil w
       else do { w \<leftarrow> actor_exit_signal i (current_actor w) reason w; answer cell_nil w }) w
   }"

subsection \<open>Supervisors\<close>

definition parse_strategy :: "string \<Rightarrow> SupervisorStrategy option" where
  "parse_strategy s =
     (if s = '':one-for-one'' then Some SUP_ONE_FOR_ONE
      else if s = '':one-for-all'' then Some SUP_ONE_FOR_ALL
      else if s = '':rest-for-one'' then Some SUP_REST_FOR_ONE
      else None)"

text \<open>The children are started one after the other up to the first that cannot be.\<close>

primrec start_children :: "int \<Rightarrow> nat list \<Rightarrow> world \<Rightarrow> nat option \<times> world" where
  "start_children s [] w = (None, w)"
| "start_children s (i # is) w =
     (let (c, w) = supervisor_spawn_child s i w
      in if c = 0 then (Some i, w) else start_children s is w)"

definition prim_sup_start :: "tm \<Rightarrow> effect" where
  "prim_sup_start args w = do {
     strategy_sym \<leftarrow> arg1 args;
     specs \<leftarrow> arg2 args;
     with_symbol ''sup-strategy-not-symbol'' strategy_sym (\<lambda>s w.
       case parse_strategy s of
         None \<Rightarrow> failure ''sup-unknown-strategy'' strategy_sym w
       | Some strat \<Rightarrow>
           (case supervisor_create strat specs w of
              (None, w) \<Rightarrow> failure ''sup-max-exceeded'' cell_nil w
            | (Some s, w) \<Rightarrow>
                (let n = (case supervisor_lookup s w of Some sv \<Rightarrow> length (child_ids sv) | None \<Rightarrow> 0)
                 in case start_children s [0..<n] w of
                   (Some i, w) \<Rightarrow> failure ''sup-spawn-failed'' (number (int i)) w
                 | (None, w) \<Rightarrow> answer (number s) w))) w
   }"

definition with_supervisor :: "string \<Rightarrow> tm \<Rightarrow> (supervisor \<Rightarrow> effect) \<Rightarrow> effect" where
  "with_supervisor msg c f = with_number msg c (\<lambda>i w.
     case supervisor_lookup i w of
       None \<Rightarrow> failure ''sup-not-found'' c w
     | Some sv \<Rightarrow> f sv w)"

definition prim_sup_children :: "tm \<Rightarrow> effect" where
  "prim_sup_children args w = do {
     c \<leftarrow> arg1 args;
     with_supervisor ''sup-children-not-number'' c (\<lambda>sv. answer (tm_list (map cell_actor (child_ids sv)))) w
   }"

definition prim_sup_restart_count :: "tm \<Rightarrow> effect" where
  "prim_sup_restart_count args w = do {
     c \<leftarrow> arg1 args;
     with_supervisor ''sup-count-not-number'' c (\<lambda>sv. answer (number (int (restart_count sv)))) w
   }"

definition add_child :: "tm \<Rightarrow> ChildRestartType option \<Rightarrow> supervisor \<Rightarrow> supervisor" where
  "add_child behavior rt sv =
     sv\<lparr>child_specs := child_specs sv @ [behavior], child_ids := child_ids sv @ [0],
        child_restart := (case rt of Some r \<Rightarrow> (child_restart sv)[length (child_ids sv) := r] | None \<Rightarrow> child_restart sv)\<rparr>"

definition undo_child :: "supervisor \<Rightarrow> supervisor" where
  "undo_child sv = sv\<lparr>child_specs := butlast (child_specs sv), child_ids := butlast (child_ids sv)\<rparr>"

definition start_child :: "string \<Rightarrow> supervisor \<Rightarrow> tm \<Rightarrow> ChildRestartType option \<Rightarrow> (int \<Rightarrow> tm) \<Rightarrow> effect" where
  "start_child msg sv behavior rt result w =
     (let i = length (child_ids sv);
          (c, w) = supervisor_spawn_child (sup_id sv) i (upd_sup (sup_id sv) (add_child behavior rt) w)
      in if c = 0 then failure msg (number (int i)) (upd_sup (sup_id sv) undo_child w) else answer (result c) w)"

definition prim_sup_add_child :: "tm \<Rightarrow> effect" where
  "prim_sup_add_child args w = do {
     c \<leftarrow> arg1 args;
     behavior \<leftarrow> arg2 args;
     with_supervisor ''sup-add-not-number'' c (\<lambda>sv w.
       if MAX_SUP_CHILDREN \<le> length (child_ids sv) then failure ''sup-max-children'' (number (int MAX_SUP_CHILDREN)) w
       else start_child ''sup-spawn-failed'' sv behavior None number w) w
   }"

text \<open>A child is given by its actor or by the number of the actor.\<close>

definition with_child :: "string \<Rightarrow> tm \<Rightarrow> (int \<Rightarrow> effect) \<Rightarrow> effect" where
  "with_child msg c f w =
     (case actor_id_of c of
        Some i \<Rightarrow> f i w
      | None \<Rightarrow> with_number msg c f w)"

definition shut_down :: "int \<Rightarrow> world \<Rightarrow> world" where
  "shut_down i w =
     (if is_live i w then upd_actor i (\<lambda>a. a\<lparr>alive := False, actor_result := Some (cell_symbol '':shutdown'')\<rparr>) w else w)"

definition prim_sup_remove_child :: "tm \<Rightarrow> effect" where
  "prim_sup_remove_child args w = do {
     c \<leftarrow> arg1 args;
     child \<leftarrow> arg2 args;
     with_supervisor ''sup-remove-not-number'' c (\<lambda>sv. with_child ''sup-remove-bad-child'' child (\<lambda>i w.
       case position (\<lambda>k. k = i) (child_ids sv) of
         None \<Rightarrow> failure ''sup-child-not-found'' child w
       | Some d \<Rightarrow> answer (cell_bool True) (upd_sup (sup_id sv) (drop_child d) (shut_down i w)))) w
   }"

definition prim_dynsup_start :: "tm \<Rightarrow> effect" where
  "prim_dynsup_start args w =
     (case supervisor_create SUP_ONE_FOR_ONE cell_nil w of
        (None, w) \<Rightarrow> failure ''dynsup-max-exceeded'' cell_nil w
      | (Some s, w) \<Rightarrow> answer (number s) (upd_sup s (\<lambda>sv. sv\<lparr>is_dynamic := True\<rparr>) w))"

definition with_dynsup :: "tm \<Rightarrow> (supervisor \<Rightarrow> effect) \<Rightarrow> effect" where
  "with_dynsup c f = with_number ''dynsup-not-number'' c (\<lambda>i w.
     case supervisor_lookup i w of
       None \<Rightarrow> failure ''dynsup-not-found'' c w
     | Some sv \<Rightarrow> if is_dynamic sv then f sv w else failure ''dynsup-not-found'' c w)"

definition parse_restart :: "tm \<Rightarrow> ChildRestartType option" where
  "parse_restart c =
     (case cell_get_symbol c of
        None \<Rightarrow> Some CHILD_PERMANENT
      | Some s \<Rightarrow>
          if s = '':permanent'' then Some CHILD_PERMANENT
          else if s = '':transient'' then Some CHILD_TRANSIENT
          else if s = '':temporary'' then Some CHILD_TEMPORARY
          else None)"

definition prim_dynsup_start_child :: "tm \<Rightarrow> effect" where
  "prim_dynsup_start_child args w = do {
     c \<leftarrow> arg1 args;
     behavior \<leftarrow> arg2 args;
     restart_sym \<leftarrow> arg3 args;
     with_dynsup c (\<lambda>sv w.
       if MAX_SUP_CHILDREN \<le> length (child_ids sv) then failure ''dynsup-max-children'' (number (int MAX_SUP_CHILDREN)) w
       else case parse_restart restart_sym of
         None \<Rightarrow> failure ''dynsup-bad-restart-type'' restart_sym w
       | Some rt \<Rightarrow> start_child ''dynsup-spawn-failed'' sv behavior (Some rt) cell_actor w) w
   }"

definition prim_dynsup_terminate_child :: "tm \<Rightarrow> effect" where
  "prim_dynsup_terminate_child args w = do {
     c \<leftarrow> arg1 args;
     child \<leftarrow> arg2 args;
     with_dynsup c (\<lambda>sv. with_child ''dynsup-bad-child'' child (\<lambda>i w.
       case position (\<lambda>k. k = i) (child_ids sv) of
         None \<Rightarrow> failure ''dynsup-child-not-found'' child w
       | Some d \<Rightarrow> answer (cell_bool True) (upd_sup (sup_id sv) (dynsup_remove_child_at d) (shut_down i w)))) w
   }"

definition restart_name :: "ChildRestartType \<Rightarrow> string" where
  "restart_name rt =
     (case rt of CHILD_PERMANENT \<Rightarrow> '':permanent'' | CHILD_TRANSIENT \<Rightarrow> '':transient'' | CHILD_TEMPORARY \<Rightarrow> '':temporary'')"

definition prim_dynsup_which_children :: "tm \<Rightarrow> effect" where
  "prim_dynsup_which_children args w = do {
     c \<leftarrow> arg1 args;
     with_dynsup c (\<lambda>sv. answer (tm_list (map (\<lambda>(i, rt). cell_cons (cell_actor i) (cell_symbol (restart_name rt)))
       (zip (child_ids sv) (child_restart sv))))) w
   }"

definition prim_dynsup_count :: "tm \<Rightarrow> effect" where
  "prim_dynsup_count args w = do {
     c \<leftarrow> arg1 args;
     with_dynsup c (\<lambda>sv. answer (number (int (length (child_ids sv))))) w
   }"

end
