(* ===== verification/ServicePrims.thy ===== *)
theory ServicePrims
  imports ActorPrims
begin

section \<open>The primitives around the actors\<close>

text \<open>
  The primitives of \<open>bootstrap/primitives.c\<close> on names, calls, timers, the dictionary of an actor, term
  storage, applications and tasks. Two things are arguments: \<open>eq\<close>, the equality \<open>cell_equal\<close> of keys,
  as in the tables, and for the start of an application the evaluator \<open>ev\<close> and the call \<open>bi\<close> of a
  builtin, which may change the whole world and call every primitive of it.
\<close>

text \<open>The answer for a result code, with the codes below 0 as errors.\<close>

definition coded :: "(int \<times> string \<times> tm) list \<Rightarrow> tm \<Rightarrow> int \<times> world \<Rightarrow> (tm \<times> world) option" where
  "coded errs c r =
     (case r of (rc, w) \<Rightarrow>
        (case map_of errs rc of
           Some (msg, dat) \<Rightarrow> failure msg dat w
         | None \<Rightarrow> answer c w))"

subsection \<open>Names\<close>

definition prim_registry_register :: "tm \<Rightarrow> effect" where
  "prim_registry_register args w = do {
     name_cell \<leftarrow> arg1 args;
     actor_cell \<leftarrow> arg2 args;
     with_symbol ''register-not-symbol'' name_cell (\<lambda>nm. with_actor ''register-not-actor'' actor_cell (\<lambda>i w.
       coded [(-1, ''register-name-taken'', name_cell), (-2, ''register-actor-already-registered'', actor_cell),
              (-3, ''register-registry-full'', cell_nil), (-4, ''register-dead-actor'', actor_cell)]
         (cell_bool True) (actor_registry_register nm i w))) w
   }"

definition prim_registry_unregister :: "tm \<Rightarrow> effect" where
  "prim_registry_unregister args w = do {
     name_cell \<leftarrow> arg1 args;
     with_symbol ''unregister-not-symbol'' name_cell (\<lambda>nm w.
       coded [(-1, ''unregister-not-found'', name_cell)] (cell_bool True) (actor_registry_unregister_name nm w)) w
   }"

definition prim_registry_whereis :: "tm \<Rightarrow> effect" where
  "prim_registry_whereis args w = do {
     name_cell \<leftarrow> arg1 args;
     with_symbol ''whereis-not-symbol'' name_cell (\<lambda>nm w.
       let i = actor_registry_lookup nm w in answer (if i < 0 then cell_nil else cell_actor i) w) w
   }"

definition prim_registry_list :: "tm \<Rightarrow> effect" where
  "prim_registry_list args w = answer (actor_registry_list w) w"

subsection \<open>Calls\<close>

definition call_message :: "int \<Rightarrow> tm \<Rightarrow> tm" where
  "call_message caller request =
     cell_cons (cell_symbol '':call'') (cell_cons (cell_actor caller) (cell_cons request cell_nil))"

text \<open>The first message that waits in the mailbox of the caller is the reply, whatever it is.\<close>

definition prim_call :: "tm \<Rightarrow> suspendable" where
  "prim_call args w = do {
     target \<leftarrow> arg1 args;
     request \<leftarrow> arg2 args;
     case (actor_id_of target, current_actor w) of
       (None, _) \<Rightarrow> returns (failure ''call-not-actor'' target) w
     | (Some i, None) \<Rightarrow> returns (failure ''call-no-actor'' cell_nil) w
     | (Some i, Some caller) \<Rightarrow>
         if \<not> is_live i w then returns (failure ''call-dead-actor'' target) w
         else do {
           w \<leftarrow> actor_send i (call_message caller request) w;
           (reply, w) \<leftarrow> actor_receive caller w;
           Some (case reply of
             Some r \<Rightarrow> (Returns r, w)
           | None \<Rightarrow> (Suspends, set_suspended caller (set_wait caller 1 SUSPEND_MAILBOX w)))
         }
   }"

definition prim_reply :: "tm \<Rightarrow> effect" where
  "prim_reply args w = do {
     caller_cell \<leftarrow> arg1 args;
     response \<leftarrow> arg2 args;
     with_actor ''reply-not-actor'' caller_cell (\<lambda>i w.
       if \<not> is_live i w then failure ''reply-dead-actor'' caller_cell w
       else do { w \<leftarrow> actor_send i response w; answer cell_nil w }) w
   }"

subsection \<open>Timers\<close>

definition prim_timer_send_after :: "tm \<Rightarrow> effect" where
  "prim_timer_send_after args =
     next_arg ''timer-args'' args (\<lambda>ticks_cell rest.
       next_arg ''timer-args'' rest (\<lambda>target_cell rest.
         next_arg ''timer-args'' rest (\<lambda>message _.
           with_number ''timer-ticks-not-number'' ticks_cell (\<lambda>ticks.
             with_actor ''timer-target-not-actor'' target_cell (\<lambda>target w.
               case timer_create target (max 0 ticks) (Some message) w of
                 (tid, w) \<Rightarrow> if tid < 0 then failure ''timer-limit'' cell_nil w else answer (number tid) w)))))"

definition prim_timer_cancel :: "tm \<Rightarrow> effect" where
  "prim_timer_cancel args =
     next_arg ''timer-cancel-args'' args (\<lambda>id_cell _.
       with_number ''timer-cancel-not-number'' id_cell (\<lambda>tid w.
         coded [(-1, ''timer-not-found'', id_cell)] (cell_bool True) (timer_cancel tid w)))"

definition prim_timer_active :: "tm \<Rightarrow> effect" where
  "prim_timer_active args =
     next_arg ''timer-active-args'' args (\<lambda>id_cell _.
       with_number ''timer-active-not-number'' id_cell (\<lambda>tid w. answer (cell_bool (timer_active tid w)) w))"

subsection \<open>The dictionary of an actor\<close>

definition set_dict :: "int \<Rightarrow> (tm \<times> tm) list \<Rightarrow> world \<Rightarrow> world" where
  "set_dict i es = upd_actor i (\<lambda>a. a\<lparr>actor_dict := es\<rparr>)"

definition with_dict :: "(int \<Rightarrow> (tm \<times> tm) list \<Rightarrow> effect) \<Rightarrow> effect" where
  "with_dict f = with_current ''not-in-actor'' (\<lambda>i w. do { a \<leftarrow> actor_lookup i w; f i (actor_dict a) w })"

definition or_nil :: "tm option \<Rightarrow> tm" where
  "or_nil v = (case v of Some x \<Rightarrow> x | None \<Rightarrow> cell_nil)"

definition prim_proc_dict_put :: "(tm \<Rightarrow> tm \<Rightarrow> bool) \<Rightarrow> tm \<Rightarrow> effect" where
  "prim_proc_dict_put eq args = with_dict (\<lambda>i d.
     next_arg ''proc-dict-put-args'' args (\<lambda>k rest.
       next_arg ''proc-dict-put-no-value'' rest (\<lambda>v _ w.
         case entry_put eq MAX_DICT_ENTRIES k v d of
           None \<Rightarrow> failure ''proc-dict-full'' cell_nil w
         | Some d' \<Rightarrow> answer (or_nil (entry_get eq k d)) (set_dict i d' w))))"

definition prim_proc_dict_get :: "(tm \<Rightarrow> tm \<Rightarrow> bool) \<Rightarrow> tm \<Rightarrow> effect" where
  "prim_proc_dict_get eq args = with_dict (\<lambda>i d.
     next_arg ''proc-dict-get-args'' args (\<lambda>k _. answer (or_nil (entry_get eq k d))))"

definition prim_proc_dict_erase :: "(tm \<Rightarrow> tm \<Rightarrow> bool) \<Rightarrow> tm \<Rightarrow> effect" where
  "prim_proc_dict_erase eq args = with_dict (\<lambda>i d.
     next_arg ''proc-dict-erase-args'' args (\<lambda>k _ w.
       case position (\<lambda>e. eq (fst e) k) d of
         Some j \<Rightarrow> answer (snd (d ! j)) (set_dict i (swap_remove j d) w)
       | None \<Rightarrow> answer cell_nil w))"

definition prim_proc_dict_all :: "tm \<Rightarrow> effect" where
  "prim_proc_dict_all args =
     with_dict (\<lambda>i d. answer (tm_list (map (\<lambda>(k, v). cell_cons k v) d)))"

subsection \<open>Term storage\<close>

definition on_ets :: "((tm, tm) ets \<Rightarrow> int \<times> (tm, tm) ets) \<Rightarrow> world \<Rightarrow> int \<times> world" where
  "on_ets f w = (let (rc, ts) = f (ets_tables w) in (rc, w\<lparr>ets_tables := ts\<rparr>))"

definition prim_ets_new :: "tm \<Rightarrow> effect" where
  "prim_ets_new args =
     next_arg ''ets-new-args'' args (\<lambda>name_cell _. with_symbol ''ets-new-not-symbol'' name_cell (\<lambda>nm w.
       coded [(-1, ''ets-duplicate-name'', name_cell), (-2, ''ets-full'', cell_nil)] name_cell
         (on_ets (ets_create nm (case current_actor w of Some i \<Rightarrow> i | None \<Rightarrow> -1)) w)))"

definition prim_ets_insert :: "(tm \<Rightarrow> tm \<Rightarrow> bool) \<Rightarrow> tm \<Rightarrow> effect" where
  "prim_ets_insert eq args =
     next_arg ''ets-insert-args'' args (\<lambda>name_cell rest. with_symbol ''ets-insert-not-symbol'' name_cell (\<lambda>nm.
       next_arg ''ets-insert-no-key'' rest (\<lambda>k rest.
         next_arg ''ets-insert-no-value'' rest (\<lambda>v _ w.
           coded [(-1, ''ets-table-not-found'', name_cell), (-2, ''ets-table-full'', name_cell)] (cell_bool True)
             (on_ets (ets_insert eq nm k v) w)))))"

definition prim_ets_lookup :: "(tm \<Rightarrow> tm \<Rightarrow> bool) \<Rightarrow> tm \<Rightarrow> effect" where
  "prim_ets_lookup eq args =
     next_arg ''ets-lookup-args'' args (\<lambda>name_cell rest. with_symbol ''ets-lookup-not-symbol'' name_cell (\<lambda>nm.
       next_arg ''ets-lookup-no-key'' rest (\<lambda>k _ w.
         if ets_size nm (ets_tables w) < 0 then failure ''ets-table-not-found'' name_cell w
         else answer (or_nil (ets_lookup eq nm k (ets_tables w))) w)))"

definition prim_ets_delete_key :: "(tm \<Rightarrow> tm \<Rightarrow> bool) \<Rightarrow> tm \<Rightarrow> effect" where
  "prim_ets_delete_key eq args =
     next_arg ''ets-delete-args'' args (\<lambda>name_cell rest. with_symbol ''ets-delete-not-symbol'' name_cell (\<lambda>nm.
       next_arg ''ets-delete-no-key'' rest (\<lambda>k _ w.
         coded [(-1, ''ets-table-not-found'', name_cell)] (cell_bool True) (on_ets (ets_delete_key eq nm k) w))))"

definition prim_ets_delete_table :: "tm \<Rightarrow> effect" where
  "prim_ets_delete_table args =
     next_arg ''ets-delete-table-args'' args (\<lambda>name_cell _. with_symbol ''ets-delete-table-not-symbol'' name_cell (\<lambda>nm w.
       coded [(-1, ''ets-table-not-found'', name_cell)] (cell_bool True) (on_ets (ets_delete_table nm) w)))"

definition prim_ets_size :: "tm \<Rightarrow> effect" where
  "prim_ets_size args =
     next_arg ''ets-size-args'' args (\<lambda>name_cell _. with_symbol ''ets-size-not-symbol'' name_cell (\<lambda>nm w.
       let sz = ets_size nm (ets_tables w)
       in if sz < 0 then failure ''ets-table-not-found'' name_cell w else answer (number sz) w))"

definition prim_ets_all :: "tm \<Rightarrow> effect" where
  "prim_ets_all args =
     next_arg ''ets-all-args'' args (\<lambda>name_cell _. with_symbol ''ets-all-not-symbol'' name_cell (\<lambda>nm w.
       case ets_all nm (ets_tables w) of
         None \<Rightarrow> failure ''ets-table-not-found'' name_cell w
       | Some c \<Rightarrow> answer c w))"

subsection \<open>Applications\<close>

definition on_apps :: "((tm, tm) applications \<Rightarrow> int \<times> (tm, tm) applications) \<Rightarrow> world \<Rightarrow> int \<times> world" where
  "on_apps f w = (let (rc, apps) = f (applications w) in (rc, w\<lparr>applications := apps\<rparr>))"

definition call_start_fn :: "(tm \<Rightarrow> tm \<Rightarrow> effect) \<Rightarrow> (string \<Rightarrow> tm \<Rightarrow> effect) \<Rightarrow> tm \<Rightarrow> world \<Rightarrow> (tm \<times> world) option option" where
  "call_start_fn ev bi start_fn w =
     (case start_fn of
        CLambda _ env body _ _ \<Rightarrow> Some (ev env body w)
      | CBuiltin _ b \<Rightarrow> Some (bi b cell_nil w)
      | _ \<Rightarrow> None)"

definition prim_app_start :: "(tm \<Rightarrow> tm \<Rightarrow> effect) \<Rightarrow> (string \<Rightarrow> tm \<Rightarrow> effect) \<Rightarrow> tm \<Rightarrow> effect" where
  "prim_app_start ev bi args =
     next_arg ''app-start-args'' args (\<lambda>name_cell rest. with_symbol ''app-start-not-symbol'' name_cell (\<lambda>nm.
       next_arg ''app-start-no-fn'' rest (\<lambda>start_fn rest2 w.
         case call_start_fn ev bi start_fn w of
           None \<Rightarrow> failure ''app-start-not-fn'' start_fn w
         | Some r \<Rightarrow> do {
             stop_fn \<leftarrow> (if cell_is_nil rest2 then Some None else map_option Some (cell_car rest2));
             (sup_result, w) \<leftarrow> r;
             if cell_is_error sup_result then answer sup_result w
             else do {
               s \<leftarrow> (if cell_is_number sup_result then int_of_number sup_result else Some 0);
               coded [(-1, ''app-duplicate-name'', name_cell), (-2, ''app-full'', cell_nil)] name_cell
                 (on_apps (app_start nm s stop_fn) w)
             }
           })))"

definition prim_app_stop :: "tm \<Rightarrow> effect" where
  "prim_app_stop args =
     next_arg ''app-stop-args'' args (\<lambda>name_cell _. with_symbol ''app-stop-not-symbol'' name_cell (\<lambda>nm w.
       coded [(-1, ''app-not-found'', name_cell)] (cell_bool True) (on_apps (app_stop nm) w)))"

definition prim_app_info :: "tm \<Rightarrow> effect" where
  "prim_app_info args =
     next_arg ''app-info-args'' args (\<lambda>name_cell _. with_symbol ''app-info-not-symbol'' name_cell (\<lambda>nm w.
       answer (case app_lookup nm (applications w) of
           None \<Rightarrow> cell_nil
         | Some app \<Rightarrow> tm_list [cell_symbol (app_name app), number (app_supervisor app)]) w))"

definition prim_app_which :: "tm \<Rightarrow> effect" where
  "prim_app_which args w = answer (app_which (applications w)) w"

definition prim_app_get_env :: "(tm \<Rightarrow> tm \<Rightarrow> bool) \<Rightarrow> tm \<Rightarrow> effect" where
  "prim_app_get_env eq args =
     next_arg ''app-get-env-args'' args (\<lambda>name_cell rest. with_symbol ''app-get-env-not-symbol'' name_cell (\<lambda>nm.
       next_arg ''app-get-env-no-key'' rest (\<lambda>k _ w.
         if app_lookup nm (applications w) = None then failure ''app-not-found'' name_cell w
         else answer (or_nil (app_get_env eq nm k (applications w))) w)))"

definition prim_app_set_env :: "(tm \<Rightarrow> tm \<Rightarrow> bool) \<Rightarrow> tm \<Rightarrow> effect" where
  "prim_app_set_env eq args =
     next_arg ''app-set-env-args'' args (\<lambda>name_cell rest. with_symbol ''app-set-env-not-symbol'' name_cell (\<lambda>nm.
       next_arg ''app-set-env-no-key'' rest (\<lambda>k rest.
         next_arg ''app-set-env-no-value'' rest (\<lambda>v _ w.
           coded [(-1, ''app-not-found'', name_cell), (-2, ''app-env-full'', name_cell)] (cell_bool True)
             (on_apps (app_set_env eq nm k v) w)))))"

subsection \<open>Tasks\<close>

definition prim_task_async :: "tm \<Rightarrow> effect" where
  "prim_task_async args w = do {
     fn \<leftarrow> arg1 args;
     if \<not> cell_is_lambda fn then failure ''task-not-lambda'' fn w
     else case actor_create cell_nil (ctx_env (world_ctx w)) w of
       (None, w) \<Rightarrow> failure ''max-actors-exceeded'' cell_nil w
     | (Some i, w) \<Rightarrow>
         (let fn_name = ''__task_fn_'' @ decimal (nat i);
              w = w\<lparr>world_ctx := eval_define fn_name fn (world_ctx w)\<rparr>;
              body = cell_cons (cell_symbol fn_name) cell_nil;
              w = upd_actor i (\<lambda>a. a\<lparr>actor_fiber := (actor_fiber a)\<lparr>fiber_body := body\<rparr>\<rparr>) w
          in answer (cell_actor i) (sched_enqueue_new_actor i w))
   }"

definition prim_task_await :: "tm \<Rightarrow> suspendable" where
  "prim_task_await args w = do {
     target_cell \<leftarrow> arg1 args;
     case actor_id_of target_cell of
       None \<Rightarrow> returns (failure ''await-not-actor'' target_cell) w
     | Some i \<Rightarrow>
         (case (actor_lookup i w, current_actor w) of
            (None, _) \<Rightarrow> returns (failure ''await-not-found'' target_cell) w
          | (Some target, cur) \<Rightarrow>
              if \<not> alive target then returns (answer (or_nil (actor_result target))) w
              else case cur of
                None \<Rightarrow> returns (failure ''await-no-actor'' cell_nil) w
              | Some j \<Rightarrow>
                  Some (Suspends, set_suspended j (upd_actor j (\<lambda>a. a\<lparr>actor_fiber :=
                    (actor_fiber a)\<lparr>suspend_await_actor_id := i\<rparr>\<rparr>) (set_wait j 1 SUSPEND_TASK_AWAIT w))))
   }"

definition prim_task_yield :: "tm \<Rightarrow> effect" where
  "prim_task_yield args w = do {
     target_cell \<leftarrow> arg1 args;
     with_actor ''yield-not-actor'' target_cell (\<lambda>i w.
       case actor_lookup i w of
         None \<Rightarrow> failure ''yield-not-found'' target_cell w
       | Some target \<Rightarrow> answer (if alive target then cell_nil else or_nil (actor_result target)) w) w
   }"

end
