(* ===== verification/ChannelPrims.thy ===== *)
theory ChannelPrims
  imports ServicePrims Channel
begin

section \<open>The primitives of channels\<close>

text \<open>
  The primitives of \<open>bootstrap/primitives.c\<close> on channels, in a world in which no other thread is inside
  of a channel: an operation runs all its steps of \<open>chan_step\<close>, and the actors that it wakes are put
  into the queue.
\<close>

subsection \<open>Undisturbed operations\<close>

primrec undisturbed :: "nat \<Rightarrow> pc \<Rightarrow> channel \<Rightarrow> pc \<times> channel \<times> int list" where
  "undisturbed 0 p c = (p, c, [])"
| "undisturbed (Suc n) p c =
     (case chan_step False p c of
        Some (p', c', wake) \<Rightarrow>
          (let (q, d, ws) = undisturbed n p' c' in (q, d, (case wake of Some i \<Rightarrow> i # ws | None \<Rightarrow> ws)))
      | None \<Rightarrow> (p, c, []))"

definition wake_waiter :: "int \<Rightarrow> world \<Rightarrow> world" where
  "wake_waiter i w = (if is_live i w then wake_actor i w else w)"

definition store_channel :: "int \<Rightarrow> channel \<Rightarrow> world \<Rightarrow> world" where
  "store_channel i c w = w\<lparr>chan_table := (chan_table w)\<lparr>g_channels :=
     map (map_option (\<lambda>d. if chan_id d = i then c else d)) (g_channels (chan_table w))\<rparr>\<rparr>"

definition on_channel :: "int \<Rightarrow> pc \<Rightarrow> world \<Rightarrow> (pc \<times> world) option" where
  "on_channel i p w = do {
     c \<leftarrow> channel_lookup i (chan_table w);
     let (q, d, ws) = undisturbed 9 p c;
     Some (q, fold wake_waiter ws (store_channel i d w))
   }"

definition channel_try_send :: "int \<Rightarrow> tm \<Rightarrow> world \<Rightarrow> (bool \<times> world) option" where
  "channel_try_send i v w = do {
     (q, w) \<leftarrow> on_channel i (Send_check v) w;
     (case q of Send_done b \<Rightarrow> Some (b, w) | _ \<Rightarrow> None)
   }"

definition channel_try_recv :: "int \<Rightarrow> world \<Rightarrow> (tm option \<times> world) option" where
  "channel_try_recv i w = do {
     (q, w) \<leftarrow> on_channel i Recv_pos w;
     (case q of Recv_done v \<Rightarrow> Some (v, w) | _ \<Rightarrow> None)
   }"

definition channel_close :: "int \<Rightarrow> world \<Rightarrow> world option" where
  "channel_close i w = map_option snd (on_channel i Close_flag w)"

definition find_channel :: "int \<Rightarrow> world \<Rightarrow> channel option" where
  "find_channel i w = channel_lookup i (chan_table w)"

subsection \<open>Sending and receiving\<close>

definition with_channel :: "string \<Rightarrow> tm \<Rightarrow> (int \<Rightarrow> suspendable) \<Rightarrow> suspendable" where
  "with_channel msg c f w = (case channel_id_of c of None \<Rightarrow> returns (failure msg c) w | Some i \<Rightarrow> f i w)"

definition prim_chan_create :: "tm \<Rightarrow> effect" where
  "prim_chan_create args w = do {
     capacity \<leftarrow> (case cell_car args of
         Some c \<Rightarrow> if cell_is_number c then int_of_number c else Some DEFAULT_CHANNEL_CAPACITY
       | None \<Rightarrow> if cell_is_nil args then Some DEFAULT_CHANNEL_CAPACITY else None);
     let (ch, tbl) = channel_create (if capacity \<le> 0 then DEFAULT_CHANNEL_CAPACITY else capacity) (chan_table w);
     let w = w\<lparr>chan_table := tbl\<rparr>;
     case ch of None \<Rightarrow> failure ''channel-limit'' cell_nil w | Some c \<Rightarrow> answer (cell_channel (chan_id c)) w
   }"

text \<open>An actor registers as the waiter of a channel unless another one has.\<close>

definition register_receiver :: "int \<Rightarrow> int \<Rightarrow> world \<Rightarrow> world" where
  "register_receiver i a w =
     (case find_channel i w of
        Some c \<Rightarrow> if recv_waiter c = -1 then store_channel i (c\<lparr>recv_waiter := a\<rparr>) w else w
      | None \<Rightarrow> w)"

definition register_sender :: "int \<Rightarrow> int \<Rightarrow> world \<Rightarrow> world" where
  "register_sender i a w =
     (case find_channel i w of
        Some c \<Rightarrow> if send_waiter c = -1 then store_channel i (c\<lparr>send_waiter := a\<rparr>) w else w
      | None \<Rightarrow> w)"

definition upd_fiber :: "int \<Rightarrow> (fiber \<Rightarrow> fiber) \<Rightarrow> world \<Rightarrow> world" where
  "upd_fiber a f = upd_actor a (\<lambda>x. x\<lparr>actor_fiber := f (actor_fiber x)\<rparr>)"

definition prim_chan_send :: "tm \<Rightarrow> suspendable" where
  "prim_chan_send args w =
     (if cell_is_nil args then returns (failure ''chan-send-args'' cell_nil) w
      else do {
        chan_cell \<leftarrow> cell_car args;
        rest \<leftarrow> cell_cdr args;
        with_channel ''chan-send-not-channel'' chan_cell (\<lambda>i w.
          if cell_is_nil rest then returns (failure ''chan-send-no-value'' cell_nil) w
          else do {
            value \<leftarrow> cell_car rest;
            case find_channel i w of
              None \<Rightarrow> returns (failure ''chan-send-invalid'' cell_nil) w
            | Some c \<Rightarrow>
                if closed c then returns (failure ''chan-send-closed'' cell_nil) w
                else do {
                  (sent, w) \<leftarrow> channel_try_send i value w;
                  if sent then returns (answer cell_nil) w
                  else case current_actor w of
                    None \<Rightarrow> returns (failure ''chan-send-full'' cell_nil) w
                  | Some a \<Rightarrow>
                      (let w = upd_fiber a (\<lambda>f. f\<lparr>suspend_channel_id := i, suspend_send_value := Some value\<rparr>) w
                       in Some (Suspends, set_suspended a (set_wait a 1 SUSPEND_CHAN_SEND (register_sender i a w))))
                }
          }) w
      })"

definition prim_chan_recv :: "tm \<Rightarrow> suspendable" where
  "prim_chan_recv args w =
     (if cell_is_nil args then returns (failure ''chan-recv-args'' cell_nil) w
      else do {
        chan_cell \<leftarrow> cell_car args;
        with_channel ''chan-recv-not-channel'' chan_cell (\<lambda>i w.
          case find_channel i w of
            None \<Rightarrow> returns (failure ''chan-recv-invalid'' cell_nil) w
          | Some _ \<Rightarrow> do {
              (value, w) \<leftarrow> channel_try_recv i w;
              c \<leftarrow> find_channel i w;
              case value of
                Some v \<Rightarrow> returns (answer v) w
              | None \<Rightarrow>
                  if closed c then returns (failure ''chan-recv-closed'' cell_nil) w
                  else case current_actor w of
                    None \<Rightarrow> returns (failure ''chan-recv-empty'' cell_nil) w
                  | Some a \<Rightarrow>
                      (let w = upd_fiber a (\<lambda>f. f\<lparr>suspend_channel_id := i\<rparr>) w
                       in Some (Suspends, set_suspended a (set_wait a 1 SUSPEND_CHAN_RECV (register_receiver i a w))))
            }) w
      })"

definition prim_chan_close :: "tm \<Rightarrow> suspendable" where
  "prim_chan_close args w =
     (if cell_is_nil args then returns (failure ''chan-close-args'' cell_nil) w
      else do {
        chan_cell \<leftarrow> cell_car args;
        with_channel ''chan-close-not-channel'' chan_cell (\<lambda>i w.
          case find_channel i w of
            None \<Rightarrow> returns (failure ''chan-close-invalid'' cell_nil) w
          | Some _ \<Rightarrow> do { w \<leftarrow> channel_close i w; returns (answer cell_nil) w }) w
      })"

definition prim_chan_reset :: "tm \<Rightarrow> effect" where
  "prim_chan_reset args w = answer cell_nil (w\<lparr>chan_table := channel_reset_all (chan_table w)\<rparr>)"

subsection \<open>Selecting\<close>

definition MAX_SELECT_CHANNELS :: nat where "MAX_SELECT_CHANNELS = 16"

text \<open>The channels among the arguments; \<open>Inl\<close> is the first argument that is none.\<close>

primrec channel_ids :: "tm list \<Rightarrow> tm + int list" where
  "channel_ids [] = Inr []"
| "channel_ids (c # cs) =
     (case channel_id_of c of
        None \<Rightarrow> Inl c
      | Some i \<Rightarrow> (case channel_ids cs of Inl e \<Rightarrow> Inl e | Inr is \<Rightarrow> Inr (i # is)))"

datatype select_result = Selected int tm | All_closed | Nothing_ready

text \<open>
  One look at each channel in the order given; \<open>n\<close> of them have been closed and empty. The count of a
  channel is read apart from the attempt to receive.
\<close>

primrec select_pass :: "int list \<Rightarrow> nat \<Rightarrow> nat \<Rightarrow> world \<Rightarrow> (select_result \<times> world) option" where
  "select_pass [] m n w = Some (if n = m then All_closed else Nothing_ready, w)"
| "select_pass (i # is) m n w =
     (if (case find_channel i w of None \<Rightarrow> True | Some c \<Rightarrow> closed c \<and> chan_count c = 0)
      then select_pass is m (n + 1) w
      else do {
        (value, w) \<leftarrow> channel_try_recv i w;
        case value of Some v \<Rightarrow> Some (Selected i v, w) | None \<Rightarrow> select_pass is m n w
      })"

text \<open>
  The static counter is an atomic \<^verbatim>\<open>int\<close>, which wraps around, and \<^verbatim>\<open>%\<close> rounds to zero: from a
  negative counter on, the first index may be negative, and the array is read before its start.
\<close>

definition wrap_int :: "int \<Rightarrow> int" where
  "wrap_int i = sint (of_int i :: 32 word)"

definition select_start :: "string \<Rightarrow> nat \<Rightarrow> world \<Rightarrow> int \<times> world" where
  "select_start counter n w =
     (let k = static_counters w counter
      in (sgn k * (\<bar>k\<bar> mod int n), w\<lparr>static_counters := (static_counters w)(counter := wrap_int (k + 1))\<rparr>))"

definition select_ready :: "string \<Rightarrow> int list \<Rightarrow> world \<Rightarrow> (select_result \<times> world) option" where
  "select_ready counter is w =
     (let (start, w) = select_start counter (length is) w
      in if start < 0 then None else select_pass (rotate (nat start) is) (length is) 0 w)"

definition select_value :: "int \<Rightarrow> tm \<Rightarrow> tm" where
  "select_value i v = cell_cons (cell_channel i) v"

definition with_select :: "tm \<Rightarrow> (int list \<Rightarrow> suspendable) \<Rightarrow> suspendable" where
  "with_select args f w =
     (if cell_is_nil args then returns (failure ''select-no-args'' cell_nil) w
      else case channel_ids (take MAX_SELECT_CHANNELS (list_elems args)) of
        Inl c \<Rightarrow> returns (failure ''select-not-channel'' c) w
      | Inr is \<Rightarrow> f is w)"

definition prim_chan_select :: "tm \<Rightarrow> suspendable" where
  "prim_chan_select args = with_select args (\<lambda>is w. do {
     (r, w) \<leftarrow> select_ready ''select'' is w;
     case r of
       Selected i v \<Rightarrow> returns (answer (select_value i v)) w
     | All_closed \<Rightarrow> returns (failure ''select-all-closed'' cell_nil) w
     | Nothing_ready \<Rightarrow>
         (case current_actor w of
            None \<Rightarrow> returns (failure ''select-no-actor'' cell_nil) w
          | Some a \<Rightarrow>
              (let w = fold (\<lambda>i. register_receiver i a) is (upd_fiber a (\<lambda>f. f\<lparr>suspend_select_ids := is\<rparr>) w)
               in Some (Suspends, set_suspended a (set_wait a 1 SUSPEND_SELECT w))))
   })"

definition prim_chan_select_try :: "tm \<Rightarrow> suspendable" where
  "prim_chan_select_try args = with_select args (\<lambda>is w. do {
     (r, w) \<leftarrow> select_ready ''select_try'' is w;
     case r of
       Selected i v \<Rightarrow> returns (answer (select_value i v)) w
     | All_closed \<Rightarrow> returns (failure ''select-all-closed'' cell_nil) w
     | Nothing_ready \<Rightarrow> returns (answer cell_nil) w
   })"

end
