(* ===== verification/Scheduler.thy ===== *)
theory Scheduler
  imports ChannelPrims
begin

section \<open>Running the actors\<close>

text \<open>
  The choice of the actors that may run, and what they are resumed with, of \<open>bootstrap/scheduler.c\<close>, and
  the loop \<open>actor_run_all\<close> of \<open>bootstrap/actor.c\<close>. The jump to the stack of a fiber is an argument
  \<open>switch\<close>: it runs the code of the actor from where it stands to its next suspension or its end, with
  the world as it leaves it. Not modelled: the threads of the schedulers with their queues, the budget
  of reductions, saved continuations and tracing.
\<close>

type_synonym switch = "int \<Rightarrow> world \<Rightarrow> world option"

subsection \<open>Suspended actors\<close>

definition sched_actor_runnable :: "actor \<Rightarrow> world \<Rightarrow> bool" where
  "sched_actor_runnable a w =
     (let f = actor_fiber a
      in if fiber_state f \<noteq> FIBER_SUSPENDED then True
         else case suspend_reason f of
           SUSPEND_MAILBOX \<Rightarrow> 0 < sint (mb_count (actor_mailbox a))
         | SUSPEND_CHAN_RECV \<Rightarrow>
             (case find_channel (suspend_channel_id f) w of
                None \<Rightarrow> True
              | Some c \<Rightarrow> 0 < chan_count c \<or> closed c)
         | SUSPEND_CHAN_SEND \<Rightarrow>
             (case find_channel (suspend_channel_id f) w of
                None \<Rightarrow> True
              | Some c \<Rightarrow> chan_count c < chan_capacity c)
         | SUSPEND_SELECT \<Rightarrow>
             list_ex (\<lambda>i. case find_channel i w of None \<Rightarrow> False | Some c \<Rightarrow> 0 < chan_count c \<or> closed c)
               (suspend_select_ids f)
         | SUSPEND_TASK_AWAIT \<Rightarrow> \<not> is_live (suspend_await_actor_id f) w
         | SUSPEND_GENERAL \<Rightarrow> False
         | SUSPEND_REDUCTION \<Rightarrow> True)"

definition resume_recv :: "int \<Rightarrow> effect" where
  "resume_recv i w =
     (case find_channel i w of
        None \<Rightarrow> failure ''chan-recv-invalid'' cell_nil w
      | Some _ \<Rightarrow> do {
          (value, w) \<leftarrow> channel_try_recv i w;
          c \<leftarrow> find_channel i w;
          case value of
            Some v \<Rightarrow> answer v w
          | None \<Rightarrow> if closed c then failure ''chan-recv-closed'' cell_nil w else answer cell_nil w
        })"

text \<open>The answer of \<open>channel_try_send\<close> is not looked at.\<close>

definition resume_send :: "int \<Rightarrow> fiber \<Rightarrow> effect" where
  "resume_send a f w =
     (case (find_channel (suspend_channel_id f) w, suspend_send_value f) of
        (Some _, Some v) \<Rightarrow> do {
          (sent, w) \<leftarrow> channel_try_send (suspend_channel_id f) v w;
          answer cell_nil (upd_fiber a (\<lambda>f. f\<lparr>suspend_send_value := None\<rparr>) w)
        }
      | _ \<Rightarrow> answer cell_nil w)"

text \<open>A select of no channel divides by zero.\<close>

definition resume_select :: "int \<Rightarrow> fiber \<Rightarrow> effect" where
  "resume_select a f w =
     (let is = suspend_select_ids f; n = length is
      in if n = 0 then None
         else do {
           (r, w) \<leftarrow> select_pass (rotate (select_round f mod n) is) n 0
                       (upd_fiber a (\<lambda>f. f\<lparr>select_round := select_round f + 1\<rparr>) w);
           case r of
             Selected i v \<Rightarrow> answer (select_value i v) w
           | All_closed \<Rightarrow> failure ''select-all-closed'' cell_nil w
           | Nothing_ready \<Rightarrow> answer cell_nil w
         })"

definition sched_prepare_resume :: "int \<Rightarrow> effect" where
  "sched_prepare_resume i w = do {
     a \<leftarrow> actor_lookup i w;
     let f = actor_fiber a;
     case suspend_reason f of
       SUSPEND_MAILBOX \<Rightarrow> do { (message, w) \<leftarrow> actor_receive i w; answer (or_nil message) w }
     | SUSPEND_CHAN_RECV \<Rightarrow> resume_recv (suspend_channel_id f) w
     | SUSPEND_CHAN_SEND \<Rightarrow> resume_send i f w
     | SUSPEND_SELECT \<Rightarrow> resume_select i f w
     | SUSPEND_TASK_AWAIT \<Rightarrow>
         answer (or_nil (Option.bind (actor_lookup (suspend_await_actor_id f) w) actor_result)) w
     | SUSPEND_GENERAL \<Rightarrow> answer cell_nil w
     | SUSPEND_REDUCTION \<Rightarrow> answer cell_nil w
   }"

subsection \<open>One quantum\<close>

definition unregister_receiver :: "int \<Rightarrow> int \<Rightarrow> world \<Rightarrow> world" where
  "unregister_receiver i a w =
     (case find_channel i w of
        Some c \<Rightarrow> if recv_waiter c = a then store_channel i (c\<lparr>recv_waiter := -1\<rparr>) w else w
      | None \<Rightarrow> w)"

definition fiber_start :: "int \<Rightarrow> world \<Rightarrow> world" where
  "fiber_start i = upd_fiber i (\<lambda>f. f\<lparr>fiber_state := FIBER_RUNNING\<rparr>)"

definition fiber_resume :: "tm \<Rightarrow> int \<Rightarrow> world \<Rightarrow> world" where
  "fiber_resume v i = upd_fiber i (\<lambda>f. f\<lparr>resume_value := Some v, fiber_state := FIBER_RUNNING\<rparr>)"

definition clear_suspend :: "fiber \<Rightarrow> fiber" where
  "clear_suspend f = f\<lparr>suspend_channel_id := -1, suspend_await_actor_id := -1, suspend_select_ids := [],
     suspend_reason := SUSPEND_GENERAL\<rparr>"

text \<open>The world at the jump to the fiber.\<close>

definition resume_suspended :: "int \<Rightarrow> world \<Rightarrow> world option" where
  "resume_suspended i w = do {
     let w = upd_actor i (\<lambda>a. a\<lparr>wait_flag := 0\<rparr>) w;
     a \<leftarrow> actor_lookup i w;
     let w = (if suspend_reason (actor_fiber a) = SUSPEND_SELECT
              then fold (\<lambda>j. unregister_receiver j i) (suspend_select_ids (actor_fiber a)) w else w);
     (v, w) \<leftarrow> sched_prepare_resume i w;
     Some (fiber_resume v i (upd_fiber i clear_suspend w))
   }"

definition enter_fiber :: "int \<Rightarrow> world \<Rightarrow> world option" where
  "enter_fiber i w = do {
     a \<leftarrow> actor_lookup i w;
     let w = w\<lparr>current_actor := Some i\<rparr>;
     if fiber_state (actor_fiber a) = FIBER_READY then Some (fiber_start i w) else resume_suspended i w
   }"

text \<open>What follows the jump: the end of an actor whose fiber has finished.\<close>

definition leave_fiber :: "int \<Rightarrow> int option \<Rightarrow> world \<Rightarrow> world option" where
  "leave_fiber i prev w = do {
     a \<leftarrow> actor_lookup i w;
     w \<leftarrow> (if fiber_state (actor_fiber a) = FIBER_FINISHED
           then map_option snd (actor_finish i (fiber_result (actor_fiber a)) w) else Some w);
     Some (w\<lparr>current_actor := prev\<rparr>)
   }"

definition runs_fiber :: "fiber \<Rightarrow> bool" where
  "runs_fiber f \<longleftrightarrow> fiber_state f = FIBER_READY \<or> fiber_state f = FIBER_SUSPENDED"

text \<open>The part that \<open>sched_run_one_quantum\<close> and \<open>actor_run_all\<close> have in common.\<close>

definition run_fiber :: "switch \<Rightarrow> switch" where
  "run_fiber switch i w = do {
     a \<leftarrow> actor_lookup i w;
     w' \<leftarrow> (if runs_fiber (actor_fiber a) then Option.bind (enter_fiber i w) (switch i) else Some w);
     leave_fiber i (current_actor w) w'
   }"

definition quantum_result :: "int \<Rightarrow> world \<Rightarrow> (int \<times> world) option" where
  "quantum_result i w = do {
     a \<leftarrow> actor_lookup i w;
     let f = actor_fiber a;
     Some (if fiber_state f = FIBER_FINISHED then 0
           else if fiber_state f = FIBER_SUSPENDED \<and> suspend_reason f \<noteq> SUSPEND_REDUCTION then -1
           else 1, w)
   }"

text \<open>1 for an actor that goes on, 0 for one that is dead and -1 for one that waits.\<close>

definition sched_run_one_quantum :: "switch \<Rightarrow> int \<Rightarrow> world \<Rightarrow> (int \<times> world) option" where
  "sched_run_one_quantum switch i w = do {
     a \<leftarrow> actor_lookup i w;
     if \<not> alive a then Some (0, w)
     else if fiber_state (actor_fiber a) = FIBER_SUSPENDED \<and> \<not> sched_actor_runnable a w then Some (-1, w)
     else do {
       w \<leftarrow> run_fiber switch i w;
       quantum_result i w
     }
   }"

subsection \<open>The loop over all actors\<close>

text \<open>The actors that the loop skips, by a switch of its own.\<close>

definition still_waits :: "actor \<Rightarrow> world \<Rightarrow> bool" where
  "still_waits a w =
     (let f = actor_fiber a
      in fiber_state f = FIBER_SUSPENDED \<and>
         (case suspend_reason f of
            SUSPEND_MAILBOX \<Rightarrow> mb_count (actor_mailbox a) = 0
          | SUSPEND_CHAN_RECV \<Rightarrow>
              (case find_channel (suspend_channel_id f) w of
                 None \<Rightarrow> False
               | Some c \<Rightarrow> chan_count c = 0 \<and> \<not> closed c)
          | SUSPEND_CHAN_SEND \<Rightarrow>
              (case find_channel (suspend_channel_id f) w of
                 None \<Rightarrow> False
               | Some c \<Rightarrow> chan_capacity c \<le> chan_count c)
          | SUSPEND_SELECT \<Rightarrow>
              \<not> list_ex (\<lambda>i. case find_channel i w of None \<Rightarrow> False | Some c \<Rightarrow> 0 < chan_count c \<or> closed c)
                (suspend_select_ids f)
          | SUSPEND_TASK_AWAIT \<Rightarrow> is_live (suspend_await_actor_id f) w
          | SUSPEND_GENERAL \<Rightarrow> True
          | SUSPEND_REDUCTION \<Rightarrow> False))"

text \<open>
  One actor of a round. The number of actors is read again for each of them, since they may spawn
  others; it does not exceed \<open>MAX_ACTORS\<close>. The flags are \<open>any_alive\<close> and \<open>any_ran\<close>.
\<close>

definition run_actor_at :: "switch \<Rightarrow> nat \<Rightarrow> bool \<times> bool \<times> world \<Rightarrow> (bool \<times> bool \<times> world) option" where
  "run_actor_at switch k s =
     (case s of (any_alive, any_ran, w) \<Rightarrow>
        (case actor_lookup_by_index (int k) w of
           None \<Rightarrow> Some s
         | Some a \<Rightarrow>
             if \<not> alive a then Some s
             else if still_waits a w then Some (True, any_ran, w)
             else do {
               w \<leftarrow> run_fiber switch (actor_id a) w;
               Some (True, any_ran \<or> runs_fiber (actor_fiber a), w)
             }))"

definition run_round :: "switch \<Rightarrow> world \<Rightarrow> (bool \<times> bool \<times> bool \<times> world) option" where
  "run_round switch w = do {
     (any_alive, any_ran, w) \<leftarrow> ofold (run_actor_at switch) [0..<MAX_ACTORS] (False, False, w);
     (timer_fired, w) \<leftarrow> timer_tick_all w;
     Some (any_alive, any_ran, timer_fired, w)
   }"

primrec run_rounds :: "switch \<Rightarrow> nat \<Rightarrow> nat \<Rightarrow> world \<Rightarrow> (nat \<times> world) option" where
  "run_rounds switch 0 ticks w = Some (ticks, w)"
| "run_rounds switch (Suc n) ticks w = do {
     (any_alive, any_ran, timer_fired, w) \<leftarrow> run_round switch w;
     let ticks = (if any_ran \<or> timer_fired then ticks + 1 else ticks);
     if \<not> any_alive \<or> \<not> any_ran \<and> \<not> timer_fired \<and> \<not> timer_any_pending w then Some (ticks, w)
     else run_rounds switch n ticks w
   }"

definition actor_run_all :: "switch \<Rightarrow> int \<Rightarrow> world \<Rightarrow> (nat \<times> world) option" where
  "actor_run_all switch max_ticks w = run_rounds switch (nat max_ticks) 0 w"

text \<open>With one scheduler \<open>sched_run_all\<close> is this loop.\<close>

definition prim_actor_run :: "switch \<Rightarrow> tm \<Rightarrow> effect" where
  "prim_actor_run switch args w = do {
     max_cell \<leftarrow> arg1 args;
     with_number ''run-not-number'' max_cell (\<lambda>n w.
       map_option (\<lambda>(ran, w). (number (int ran), w)) (actor_run_all switch n w)) w
   }"

end
