(* ===== verification/SchedFacts.thy ===== *)
theory SchedFacts
  imports Scheduler ActorFacts
begin

section \<open>Facts about suspension\<close>

text \<open>
  What becomes of an actor that waits: a message for an actor in \<open>receive\<close> puts it into the queue and is
  what its call returns, and a value that waits for room in a channel is lost when the channel is closed.
  The two loops over actors choose the same actors.
\<close>

subsection \<open>One actor\<close>

lemma lookup_ctx [simp]: "actor_lookup j (w\<lparr>current_actor := c\<rparr>) = actor_lookup j w"
  "actor_lookup j (w\<lparr>chan_table := t\<rparr>) = actor_lookup j w"
  by (simp_all add: actor_lookup_def)

lemma upd_actor_more [simp]:
  "run_queue (upd_actor i f w) = run_queue w" "current_actor (upd_actor i f w) = current_actor w"
  "chan_table (upd_actor i f w) = chan_table w"
  by (simp_all add: upd_actor_def)

lemma lookup_set_wait:
  "actor_lookup j (set_wait i f r w) = (if i = j then map_option (\<lambda>a. a\<lparr>actor_fiber := (actor_fiber a)\<lparr>suspend_reason := r\<rparr>, wait_flag := f\<rparr>)
     (actor_lookup j w) else actor_lookup j w)"
  by (simp add: set_wait_def lookup_upd)

lemma lookup_set_suspended:
  "actor_lookup j (set_suspended i w) = (if i = j then map_option (\<lambda>a. a\<lparr>actor_fiber := (actor_fiber a)\<lparr>fiber_state := FIBER_SUSPENDED\<rparr>\<rparr>)
     (actor_lookup j w) else actor_lookup j w)"
  by (simp add: set_suspended_def lookup_upd)

lemma lookup_upd_fiber:
  "actor_lookup j (upd_fiber i f w) = (if i = j then map_option (\<lambda>a. a\<lparr>actor_fiber := f (actor_fiber a)\<rparr>) (actor_lookup j w)
     else actor_lookup j w)"
  by (simp add: upd_fiber_def lookup_upd)

lemmas lookup_suspend = lookup_set_wait lookup_set_suspended lookup_upd_fiber

lemma receive_empty:
  assumes "actor_lookup i w = Some a" "mb_ok (actor_mailbox a)" "mb_list (actor_mailbox a) = []"
  obtains w' where "actor_receive i w = Some (None, w')" "actor_lookup i w' = Some a"
    "current_actor w' = current_actor w"
proof
  have "mb_size (actor_mailbox a) = 0" using assms(3) by (metis length_mb_list list.size(3))
  with assms show "actor_receive i w = Some (None, upd_actor i (\<lambda>x. x\<lparr>actor_mailbox := actor_mailbox a\<rparr>) w)"
    by (simp add: actor_receive_def mailbox_receive_empty)
  show "actor_lookup i (upd_actor i (\<lambda>x. x\<lparr>actor_mailbox := actor_mailbox a\<rparr>) w) = Some a"
    using assms(1) by (simp add: lookup_upd)
qed simp

lemma receive_first:
  assumes "actor_lookup i w = Some a" "mb_ok (actor_mailbox a)" "mb_list (actor_mailbox a) = m # ms"
  obtains w' mb where "actor_receive i w = Some (Some m, w')" "actor_lookup i w' = Some (a\<lparr>actor_mailbox := mb\<rparr>)"
    "mb_list mb = ms" "mb_ok mb" "current_actor w' = current_actor w"
proof -
  have "0 < mb_size (actor_mailbox a)" using assms(3) by (metis length_mb_list length_greater_0_conv list.discI)
  from mailbox_receive_some [OF assms(2) this] obtain mb where mb: "actor_receive_from (actor_mailbox a) = Some (Some m, mb)"
    "mb_ok mb" "mb_list mb = ms" using assms(3) by auto
  show thesis
    by (rule that [of "upd_actor i (\<lambda>x. x\<lparr>actor_mailbox := mb\<rparr>) w" mb])
      (use assms(1) mb in \<open>simp_all add: actor_receive_def lookup_upd\<close>)
qed

lemma send_to_waiting:
  assumes "actor_lookup i w = Some a" "alive a" "mb_ok (actor_mailbox a)" "mb_list (actor_mailbox a) = []"
  obtains w' mb where "actor_send i m w = Some w'" "actor_lookup i w' = Some (a\<lparr>actor_mailbox := mb, wait_flag := 0\<rparr>)"
    "mb_list mb = [m]" "mb_ok mb" "run_queue w' = run_queue w @ (if wait_flag a = 1 then [i] else [])"
    "current_actor w' = current_actor w"
proof -
  have "mb_size (actor_mailbox a) < 256" using assms(4) by (metis length_mb_list list.size(3) zero_less_numeral)
  from mailbox_send_room [OF assms(3) this, of m] obtain mb where mb: "mailbox_send m (actor_mailbox a) = Some (True, mb)"
    "mb_ok mb" "mb_list mb = [m]" using assms(4) by auto
  define w1 where "w1 = upd_actor i (\<lambda>a. a\<lparr>actor_mailbox := mb\<rparr>) w"
  have l: "actor_lookup i w1 = Some (a\<lparr>actor_mailbox := mb\<rparr>)" using assms(1) by (simp add: w1_def lookup_upd)
  have "actor_send i m w = Some (wake_actor i w1)" using assms(1,2) mb(1) by (simp add: actor_send_def w1_def)
  moreover have "actor_lookup i (wake_actor i w1) = Some (a\<lparr>actor_mailbox := mb, wait_flag := 0\<rparr>)"
    using l by (simp add: wake_actor_def Let_def lookup_upd)
  moreover have "run_queue (wake_actor i w1) = run_queue w @ (if wait_flag a = 1 then [i] else [])"
    using l by (simp add: wake_actor_def Let_def) (simp add: w1_def)
  moreover have "current_actor (wake_actor i w1) = current_actor w"
    using l by (simp add: wake_actor_def Let_def) (simp add: w1_def)
  ultimately show thesis using that mb(2,3) by blast
qed

lemma mailbox_count: "mb_ok mb \<Longrightarrow> sint (mb_count mb) = int (length (mb_list mb))"
  by (simp add: mb_ok_def)

text \<open>An actor that has called \<open>receive\<close> without a message.\<close>

definition waits_for_message :: "actor \<Rightarrow> bool" where
  "waits_for_message a \<longleftrightarrow> alive a \<and> mb_ok (actor_mailbox a) \<and> mb_list (actor_mailbox a) = [] \<and> wait_flag a = 1 \<and>
     fiber_state (actor_fiber a) = FIBER_SUSPENDED \<and> suspend_reason (actor_fiber a) = SUSPEND_MAILBOX"

lemma receive_suspends:
  assumes "current_actor w = Some i" "actor_lookup i w = Some a" "alive a" "mb_ok (actor_mailbox a)"
    "mb_list (actor_mailbox a) = []"
  obtains w1 b where "prim_receive args w = Some (Suspends, w1)" "actor_lookup i w1 = Some b" "waits_for_message b"
proof -
  from receive_empty [OF assms(2,4,5)] obtain w0 where w0: "actor_receive i w = Some (None, w0)" "actor_lookup i w0 = Some a" .
  define a1 where "a1 = a\<lparr>actor_fiber := (actor_fiber a)\<lparr>suspend_reason := SUSPEND_MAILBOX\<rparr>, wait_flag := 1\<rparr>"
  have "actor_lookup i (set_wait i 1 SUSPEND_MAILBOX w0) = Some a1" using w0(2) by (simp add: lookup_suspend a1_def)
  moreover have "mb_ok (actor_mailbox a1)" "mb_list (actor_mailbox a1) = []" using assms by (simp_all add: a1_def)
  ultimately obtain w1 where w1: "actor_receive i (set_wait i 1 SUSPEND_MAILBOX w0) = Some (None, w1)" "actor_lookup i w1 = Some a1"
    using receive_empty [of i "set_wait i 1 SUSPEND_MAILBOX w0" a1] by blast
  show thesis
    by (rule that [of "set_suspended i w1" "a1\<lparr>actor_fiber := (actor_fiber a1)\<lparr>fiber_state := FIBER_SUSPENDED\<rparr>\<rparr>"])
      (use w0(1) w1 assms in \<open>simp_all add: prim_receive_def lookup_suspend waits_for_message_def a1_def\<close>)
qed

lemma blocked_quantum:
  assumes "actor_lookup i w = Some a" "alive a" "fiber_state (actor_fiber a) = FIBER_SUSPENDED" "\<not> sched_actor_runnable a w"
  shows "sched_run_one_quantum switch i w = Some (-1, w)"
  using assms by (simp add: sched_run_one_quantum_def)

lemma resumed_quantum:
  assumes "actor_lookup i w = Some a" "alive a" "fiber_state (actor_fiber a) = FIBER_SUSPENDED" "sched_actor_runnable a w"
    and w': "resume_suspended i (w\<lparr>current_actor := Some i\<rparr>) = Some w'"
  shows "sched_run_one_quantum switch i w = do {
    v \<leftarrow> switch i w'; v \<leftarrow> leave_fiber i (current_actor w) v; quantum_result i v }"
  using assms by (simp add: sched_run_one_quantum_def run_fiber_def enter_fiber_def runs_fiber_def Let_def)

lemma resume_with_message:
  assumes "actor_lookup i w = Some a" "suspend_reason (actor_fiber a) = SUSPEND_MAILBOX" "mb_ok (actor_mailbox a)"
    "mb_list (actor_mailbox a) = m # ms"
  obtains w' b where "resume_suspended i w = Some w'" "actor_lookup i w' = Some b" "resume_value (actor_fiber b) = Some m"
    "fiber_state (actor_fiber b) = FIBER_RUNNING" "mb_list (actor_mailbox b) = ms"
proof -
  define v where "v = upd_actor i (\<lambda>a. a\<lparr>wait_flag := 0\<rparr>) w"
  have l: "actor_lookup i v = Some (a\<lparr>wait_flag := 0\<rparr>)" using assms(1) by (simp add: v_def lookup_upd)
  have "mb_ok (actor_mailbox (a\<lparr>wait_flag := 0\<rparr>))" "mb_list (actor_mailbox (a\<lparr>wait_flag := 0\<rparr>)) = m # ms"
    using assms(3,4) by simp_all
  from receive_first [OF l this] obtain u mb where u: "actor_receive i v = Some (Some m, u)"
    "actor_lookup i u = Some (a\<lparr>wait_flag := 0\<rparr>\<lparr>actor_mailbox := mb\<rparr>)" "mb_list mb = ms" by blast
  have prep: "sched_prepare_resume i v = Some (m, u)"
    using l u(1) assms(2) by (simp add: sched_prepare_resume_def or_nil_def answer_def)
  show thesis
  proof (rule that)
    show "resume_suspended i w = Some (fiber_resume m i (upd_fiber i clear_suspend u))"
      using prep l assms(2) by (simp add: resume_suspended_def v_def [symmetric])
    show "actor_lookup i (fiber_resume m i (upd_fiber i clear_suspend u)) =
        Some (a\<lparr>wait_flag := 0, actor_mailbox := mb, actor_fiber := (clear_suspend (actor_fiber a))\<lparr>
          resume_value := Some m, fiber_state := FIBER_RUNNING\<rparr>\<rparr>)"
      using u(2) by (simp add: fiber_resume_def lookup_suspend)
  qed (simp_all add: u(3))
qed

text \<open>
  C0. A message wakes the actor that waits for one. An actor with an empty mailbox that calls \<open>receive\<close>
  suspends, and a quantum given to it before a message has come changes nothing. The next message for it
  puts it into the queue, once; in the quantum that follows its fiber goes on, with this message as the
  value of the call, and the mailbox is empty again.
\<close>

theorem receive_gets_message:
  assumes "current_actor w = Some i" "actor_lookup i w = Some a" "alive a" "mb_ok (actor_mailbox a)"
    "mb_list (actor_mailbox a) = []"
  shows "\<exists>w1 w2 w3 b. prim_receive args w = Some (Suspends, w1) \<and> sched_run_one_quantum switch i w1 = Some (-1, w1) \<and>
    actor_send i m w1 = Some w2 \<and> run_queue w2 = run_queue w1 @ [i] \<and>
    sched_run_one_quantum switch i w2 = do {
      v \<leftarrow> switch i w3; v \<leftarrow> leave_fiber i (current_actor w2) v; quantum_result i v } \<and>
    actor_lookup i w3 = Some b \<and> fiber_state (actor_fiber b) = FIBER_RUNNING \<and> resumed_value i cell_nil w3 = m \<and>
    mb_list (actor_mailbox b) = []"
proof -
  from receive_suspends [OF assms] obtain w1 a1 where w1: "prim_receive args w = Some (Suspends, w1)"
    "actor_lookup i w1 = Some a1" "waits_for_message a1" .
  then have a1: "alive a1" "mb_ok (actor_mailbox a1)" "mb_list (actor_mailbox a1) = []" "wait_flag a1 = 1"
    "fiber_state (actor_fiber a1) = FIBER_SUSPENDED" "suspend_reason (actor_fiber a1) = SUSPEND_MAILBOX"
    by (simp_all add: waits_for_message_def)
  from send_to_waiting [OF w1(2) a1(1-3), of m] obtain w2 mb where w2: "actor_send i m w1 = Some w2"
    "actor_lookup i w2 = Some (a1\<lparr>actor_mailbox := mb, wait_flag := 0\<rparr>)" "mb_list mb = [m]" "mb_ok mb"
    "run_queue w2 = run_queue w1 @ (if wait_flag a1 = 1 then [i] else [])" by blast
  have run: "sched_actor_runnable (a1\<lparr>actor_mailbox := mb, wait_flag := 0\<rparr>) w2"
    using mailbox_count [OF w2(4)] w2(3) a1 by (simp add: sched_actor_runnable_def)
  have "\<not> sched_actor_runnable a1 w1" using mailbox_count [OF a1(2)] a1 by (simp add: sched_actor_runnable_def)
  from blocked_quantum [OF w1(2) a1(1,5) this] have "sched_run_one_quantum switch i w1 = Some (-1, w1)" .
  moreover obtain w3 b where w3: "resume_suspended i (w2\<lparr>current_actor := Some i\<rparr>) = Some w3" "actor_lookup i w3 = Some b"
    "resume_value (actor_fiber b) = Some m" "fiber_state (actor_fiber b) = FIBER_RUNNING" "mb_list (actor_mailbox b) = []"
    using resume_with_message [of i "w2\<lparr>current_actor := Some i\<rparr>" "a1\<lparr>actor_mailbox := mb, wait_flag := 0\<rparr>" m "[]"] w2 a1
    by auto
  moreover note resumed_quantum [OF w2(2) _ _ run w3(1), of switch]
  ultimately show ?thesis using w1(1) w2 a1 by (auto simp: resumed_value_def)
qed

text \<open>The first actor in an empty world calls \<open>receive\<close>.\<close>

definition receiving_world :: world where
  "receiving_world = (snd (actor_create cell_nil cell_nil (initial_world no_context)))\<lparr>current_actor := Some 1\<rparr>"

theorem receive_gets_message_witness:
  "\<exists>w1 w2 w3. prim_receive cell_nil receiving_world = Some (Suspends, w1) \<and>
     actor_send 1 (cell_symbol ''hello'') w1 = Some w2 \<and> run_queue w2 = run_queue w1 @ [1] \<and>
     sched_run_one_quantum (\<lambda>i w. Some w) 1 w2 = do { v \<leftarrow> leave_fiber 1 (current_actor w2) w3; quantum_result 1 v } \<and>
     resumed_value 1 cell_nil w3 = cell_symbol ''hello''"
proof -
  note facts = receiving_world_def actor_create_def initial_world_def MAX_ACTORS_def actor_lookup_def
  obtain a where "current_actor receiving_world = Some 1" "actor_lookup 1 receiving_world = Some a" "alive a"
    "mb_ok (actor_mailbox a)" "mb_list (actor_mailbox a) = []"
    by (simp add: facts mailbox_init_ok)
  from receive_gets_message [OF this, of cell_nil "\<lambda>i w. Some w" "cell_symbol ''hello''"]
  obtain w1 w2 w3 where "prim_receive cell_nil receiving_world = Some (Suspends, w1)"
    "actor_send 1 (cell_symbol ''hello'') w1 = Some w2" "run_queue w2 = run_queue w1 @ [1]"
    "sched_run_one_quantum (\<lambda>i w. Some w) 1 w2 = do { v \<leftarrow> leave_fiber 1 (current_actor w2) w3; quantum_result 1 v }"
    "resumed_value 1 cell_nil w3 = cell_symbol ''hello''" by auto
  then show ?thesis by blast
qed

subsection \<open>Senders that wait for room\<close>

lemma find_in_store:
  assumes "chan_id d = k"
  shows "(case find (\<lambda>c. case c of Some ch \<Rightarrow> chan_id ch = j | None \<Rightarrow> False)
      (map (map_option (\<lambda>e. if chan_id e = k then d else e)) cs) of Some c \<Rightarrow> c | None \<Rightarrow> None) =
    (let r = (case find (\<lambda>c. case c of Some ch \<Rightarrow> chan_id ch = j | None \<Rightarrow> False) cs of Some c \<Rightarrow> c | None \<Rightarrow> None)
     in if j = k \<and> r \<noteq> None then Some d else r)"
  using assms by (induction cs) (auto split: option.splits)

lemma find_store_channel:
  "chan_id d = k \<Longrightarrow>
    find_channel j (store_channel k d w) = (if j = k \<and> find_channel k w \<noteq> None then Some d else find_channel j w)"
  using find_in_store [of d k j "g_channels (chan_table w)"]
  by (auto simp: find_channel_def channel_lookup_def store_channel_def Let_def)

lemma find_channel_id: "find_channel k w = Some c \<Longrightarrow> chan_id c = k"
  by (auto simp: find_channel_def channel_lookup_def find_Some_iff split: option.splits)

lemma find_channel_cong: "chan_table w' = chan_table w \<Longrightarrow> find_channel j w' = find_channel j w"
  by (simp add: find_channel_def)

lemma chan_table_wake: "chan_table (wake_waiter j w) = chan_table w"
  by (auto simp: wake_waiter_def wake_actor_def Let_def split: option.splits)

lemma chan_table_wakes: "chan_table (fold wake_waiter js w) = chan_table w"
  by (induction js arbitrary: w) (simp_all add: chan_table_wake)

lemma find_channel_wakes [simp]: "find_channel j (fold wake_waiter js w) = find_channel j w"
  by (rule find_channel_cong) (rule chan_table_wakes)

text \<open>Waking an actor changes nothing but its flag.\<close>

definition flag_cleared :: "actor \<Rightarrow> actor" where
  "flag_cleared a = a\<lparr>wait_flag := 0\<rparr>"

lemma lookup_wake: "actor_lookup i (wake_waiter j w) = actor_lookup i w \<or>
    actor_lookup i (wake_waiter j w) = map_option flag_cleared (actor_lookup i w)"
  by (auto simp: wake_waiter_def wake_actor_def Let_def lookup_upd flag_cleared_def split: option.splits)

lemma lookup_wakes: "actor_lookup i (fold wake_waiter js w) = actor_lookup i w \<or>
    actor_lookup i (fold wake_waiter js w) = map_option flag_cleared (actor_lookup i w)"
proof (induction js arbitrary: w)
  case (Cons j js)
  have "flag_cleared \<circ> flag_cleared = flag_cleared" by (auto simp: flag_cleared_def)
  with Cons.IH [of "wake_waiter j w"] lookup_wake [of i j w] show ?case
    by (auto simp: option.map_comp)
qed simp

lemma actors_store [simp]: "actor_lookup i (store_channel k d w) = actor_lookup i w"
  by (simp add: store_channel_def)

text \<open>An actor in \<open>chan_send\<close>, after the channel was full.\<close>

definition waits_to_send :: "int \<Rightarrow> tm \<Rightarrow> actor \<Rightarrow> bool" where
  "waits_to_send k v a \<longleftrightarrow> alive a \<and> fiber_state (actor_fiber a) = FIBER_SUSPENDED \<and>
     suspend_reason (actor_fiber a) = SUSPEND_CHAN_SEND \<and> suspend_channel_id (actor_fiber a) = k \<and>
     suspend_send_value (actor_fiber a) = Some v"

lemma close_effect:
  assumes "find_channel k w = Some c"
  obtains w' js c' where "channel_close k w = Some w'" "w' = fold wake_waiter js (store_channel k c' w)" "closed c'"
    "chan_id c' = k" "chan_count c' = chan_count c" "chan_capacity c' = chan_capacity c"
proof -
  have "undisturbed 9 Close_flag c = (Close_done, c\<lparr>closed := True, recv_waiter := -1, send_waiter := -1\<rparr>,
      (case waiter (recv_waiter c) of Some i \<Rightarrow> [i] | None \<Rightarrow> []) @ (case waiter (send_waiter c) of Some i \<Rightarrow> [i] | None \<Rightarrow> []))"
    by (simp add: eval_nat_numeral chan_step_def close_step_def Let_def split: option.splits)
  with assms find_channel_id [OF assms] show thesis
    by (intro that [OF _ refl, of "(case waiter (recv_waiter c) of Some i \<Rightarrow> [i] | None \<Rightarrow> []) @
          (case waiter (send_waiter c) of Some i \<Rightarrow> [i] | None \<Rightarrow> [])" "c\<lparr>closed := True, recv_waiter := -1, send_waiter := -1\<rparr>"])
      (simp_all add: channel_close_def on_channel_def find_channel_def)
qed

lemma refused_send:
  assumes "find_channel k w = Some c" "closed c"
  shows "channel_try_send k v w = Some (False, store_channel k c w)"
proof -
  have "undisturbed 9 (Send_check v) c = (Send_done False, c, [])"
    using assms(2) by (simp add: eval_nat_numeral chan_step_def close_step_def)
  then show ?thesis using assms(1) by (simp add: channel_try_send_def on_channel_def find_channel_def)
qed

lemma full_blocks:
  assumes "actor_lookup i w = Some a" "waits_to_send k v a" "find_channel k w = Some c" "chan_capacity c \<le> chan_count c"
  shows "sched_run_one_quantum switch i w = Some (-1, w)"
  by (rule blocked_quantum [OF assms(1)]) (use assms in \<open>auto simp: waits_to_send_def sched_actor_runnable_def\<close>)

lemma resume_refused:
  assumes "actor_lookup i w = Some a" "waits_to_send k v a" "find_channel k w = Some c" "closed c"
  obtains w' b where "resume_suspended i (w\<lparr>current_actor := Some i\<rparr>) = Some w'" "\<And>j. find_channel j w' = find_channel j w" "actor_lookup i w' = Some b"
    "fiber_state (actor_fiber b) = FIBER_RUNNING" "suspend_send_value (actor_fiber b) = None"
    "resume_value (actor_fiber b) = Some cell_nil"
proof -
  define u where "u = upd_actor i (\<lambda>a. a\<lparr>wait_flag := 0\<rparr>) (w\<lparr>current_actor := Some i\<rparr>)"
  have a: "fiber_state (actor_fiber a) = FIBER_SUSPENDED" "suspend_reason (actor_fiber a) = SUSPEND_CHAN_SEND"
    "suspend_channel_id (actor_fiber a) = k" "suspend_send_value (actor_fiber a) = Some v"
    using assms(2) by (simp_all add: waits_to_send_def)
  have l: "actor_lookup i u = Some (a\<lparr>wait_flag := 0\<rparr>)" using assms(1) by (simp add: u_def lookup_upd)
  have f: "find_channel j u = find_channel j w" for j by (rule find_channel_cong) (simp add: u_def)
  define x where "x = upd_fiber i (\<lambda>f. f\<lparr>suspend_send_value := None\<rparr>) (store_channel k c u)"
  have prep: "sched_prepare_resume i u = Some (cell_nil, x)"
    using l a f [of k] assms(3) refused_send [of k u c v] assms(4)
    by (simp add: sched_prepare_resume_def resume_send_def answer_def x_def)
  have lx: "actor_lookup i x = Some (a\<lparr>wait_flag := 0, actor_fiber := (actor_fiber a)\<lparr>suspend_send_value := None\<rparr>\<rparr>)"
    using l by (simp add: x_def lookup_suspend)
  let ?w' = "fiber_resume cell_nil i (upd_fiber i clear_suspend x)"
  show thesis
  proof (rule that)
    show "resume_suspended i (w\<lparr>current_actor := Some i\<rparr>) = Some ?w'"
      using a l prep by (simp add: resume_suspended_def Let_def u_def [symmetric])
    show "actor_lookup i ?w' = Some (a\<lparr>wait_flag := 0, actor_fiber := (clear_suspend ((actor_fiber a)\<lparr>suspend_send_value := None\<rparr>))\<lparr>
        resume_value := Some cell_nil, fiber_state := FIBER_RUNNING\<rparr>\<rparr>)"
      using lx by (simp add: fiber_resume_def lookup_suspend)
    have "find_channel j ?w' = find_channel j (store_channel k c u)" for j
      by (rule find_channel_cong) (simp add: fiber_resume_def upd_fiber_def x_def)
    then show "find_channel j ?w' = find_channel j w" for j
      using find_channel_id [OF assms(3)] assms(3) f by (simp add: find_store_channel)
  qed (simp_all add: clear_suspend_def)
qed

text \<open>
  C38. Closing a channel fails its senders silently, where the code means to give them an error. An actor
  that waits for room in a full channel is not run after the channel has been closed: the quantum that it
  is given changes nothing. When it does run, because values have been received from the closed channel,
  its value is dropped: at the jump to its fiber no channel has changed, the value is gone, and its call
  is resumed with nil, as after a send that has succeeded.
\<close>

theorem closed_channel_loses_send:
  assumes "actor_lookup i w = Some a" "waits_to_send k v a" "find_channel k w = Some c"
  shows "(chan_capacity c \<le> chan_count c \<longrightarrow>
      (\<exists>w1 c1. channel_close k w = Some w1 \<and> find_channel k w1 = Some c1 \<and> closed c1 \<and>
        sched_run_one_quantum switch i w1 = Some (-1, w1))) \<and>
    (closed c \<and> chan_count c < chan_capacity c \<longrightarrow>
      (\<exists>w2 b. sched_run_one_quantum switch i w = do {
           v \<leftarrow> switch i w2; v \<leftarrow> leave_fiber i (current_actor w) v; quantum_result i v } \<and>
        (\<forall>j. find_channel j w2 = find_channel j w) \<and> actor_lookup i w2 = Some b \<and>
        fiber_state (actor_fiber b) = FIBER_RUNNING \<and> suspend_send_value (actor_fiber b) = None \<and>
        resumed_value i cell_nil w2 = cell_nil))"
proof (intro conjI impI)
  assume full: "chan_capacity c \<le> chan_count c"
  from close_effect [OF assms(3)] obtain w' js c' where w': "channel_close k w = Some w'"
    "w' = fold wake_waiter js (store_channel k c' w)" "closed c'" "chan_id c' = k" "chan_count c' = chan_count c"
    "chan_capacity c' = chan_capacity c" by blast
  then have c': "find_channel k w' = Some c'" using assms(3) by (simp add: find_store_channel)
  obtain a' where "actor_lookup i w' = Some a'" "waits_to_send k v a'"
    using lookup_wakes [of i js "store_channel k c' w"] assms(1,2) w'(2)
    by (auto simp: waits_to_send_def flag_cleared_def)
  from full_blocks [OF this c'] full w'(1,3,5,6) c' show "\<exists>w1 c1. channel_close k w = Some w1 \<and>
      find_channel k w1 = Some c1 \<and> closed c1 \<and> sched_run_one_quantum switch i w1 = Some (-1, w1)"
    by auto
next
  assume c: "closed c \<and> chan_count c < chan_capacity c"
  then have "closed c" by simp
  from resume_refused [OF assms this] obtain w2 b where w2: "resume_suspended i (w\<lparr>current_actor := Some i\<rparr>) = Some w2"
    "\<And>j. find_channel j w2 = find_channel j w" "actor_lookup i w2 = Some b" "fiber_state (actor_fiber b) = FIBER_RUNNING"
    "suspend_send_value (actor_fiber b) = None" "resume_value (actor_fiber b) = Some cell_nil" by blast
  have "alive a" "fiber_state (actor_fiber a) = FIBER_SUSPENDED" "sched_actor_runnable a w"
    using assms(2,3) c by (auto simp: waits_to_send_def sched_actor_runnable_def)
  from resumed_quantum [OF assms(1) this w2(1), of switch] w2 show "\<exists>w2 b. sched_run_one_quantum switch i w = do {
           v \<leftarrow> switch i w2; v \<leftarrow> leave_fiber i (current_actor w) v; quantum_result i v } \<and>
        (\<forall>j. find_channel j w2 = find_channel j w) \<and> actor_lookup i w2 = Some b \<and>
        fiber_state (actor_fiber b) = FIBER_RUNNING \<and> suspend_send_value (actor_fiber b) = None \<and>
        resumed_value i cell_nil w2 = cell_nil"
    by (intro exI [of _ w2] exI [of _ b]) (simp add: resumed_value_def)
qed

text \<open>An actor that waits to send on a channel for two values, which is open and full, or closed and not.\<close>

definition stuck_actor :: actor where
  "stuck_actor = (let a = the (actor_lookup 1 receiving_world)
     in a\<lparr>actor_fiber := (actor_fiber a)\<lparr>fiber_state := FIBER_SUSPENDED, suspend_reason := SUSPEND_CHAN_SEND,
          suspend_channel_id := 1, suspend_send_value := Some (cell_symbol ''lost'')\<rparr>, wait_flag := 1\<rparr>)"

definition stuck_channel :: "bool \<Rightarrow> channel" where
  "stuck_channel b = (new_channel 1 2)\<lparr>closed := b, chan_count := (if b then 1 else 2), send_waiter := 1\<rparr>"

definition stuck_world :: "bool \<Rightarrow> world" where
  "stuck_world b = receiving_world\<lparr>actors := [stuck_actor], current_actor := None,
     chan_table := \<lparr>g_channels = [Some (stuck_channel b)], g_next_channel_id = 2\<rparr>\<rparr>"

theorem closed_channel_loses_send_witness:
  "(\<exists>w1. channel_close 1 (stuck_world False) = Some w1 \<and> sched_run_one_quantum (\<lambda>i w. Some w) 1 w1 = Some (-1, w1)) \<and>
   (\<exists>w2 b. sched_run_one_quantum (\<lambda>i w. Some w) 1 (stuck_world True) =
       do { v \<leftarrow> leave_fiber 1 (current_actor (stuck_world True)) w2; quantum_result 1 v } \<and>
     find_channel 1 w2 = Some (stuck_channel True) \<and> actor_lookup 1 w2 = Some b \<and> suspend_send_value (actor_fiber b) = None)"
proof -
  note facts = stuck_world_def stuck_actor_def receiving_world_def actor_create_def initial_world_def MAX_ACTORS_def
    actor_lookup_def Let_def
  have id: "chan_id (stuck_channel b) = 1" for b by (simp add: stuck_channel_def new_channel_def Let_def)
  have cap: "chan_capacity (stuck_channel False) \<le> chan_count (stuck_channel False)" "closed (stuck_channel True)"
    "chan_count (stuck_channel True) < chan_capacity (stuck_channel True)"
    by (simp_all add: stuck_channel_def new_channel_def next_pow2_def Let_def)
  have a: "actor_lookup 1 (stuck_world b) = Some stuck_actor" for b
    by (simp add: stuck_world_def actor_lookup_def) (simp add: facts)
  have v: "waits_to_send 1 (cell_symbol ''lost'') stuck_actor"
    by (simp add: waits_to_send_def facts)
  have c: "find_channel 1 (stuck_world b) = Some (stuck_channel b)" for b
    by (simp add: find_channel_def channel_lookup_def stuck_world_def id)
  show ?thesis
    using closed_channel_loses_send [OF a [of False] v c [of False], of "\<lambda>i w. Some w"] cap
      closed_channel_loses_send [OF a [of True] v c [of True], of "\<lambda>i w. Some w"] c [of True] by fastforce
qed

end
