(* ===== verification/FlowPrims.thy ===== *)
theory FlowPrims
  imports ServicePrims
begin

section \<open>The primitives of agents, stages and flows\<close>

text \<open>
  The primitives of \<open>bootstrap/primitives.c\<close> that call closures on shared state: agents, stages and
  flows. A closure is called by defining it and its arguments under fresh names and evaluating the
  application of the names; the definitions stay. The evaluator \<open>ev\<close> is an argument, since it calls
  all primitives: it takes an environment and an expression and may change the whole world. The names
  are numbered by static counters, which are taken not to overflow. A handler that stops its own stage
  leaves a pointer to a slot without a stage, and one that resets the actors a flow without steps: that
  is outside of the model (\<open>None\<close>).
\<close>

subsection \<open>Calling closures\<close>

definition next_count :: "string \<Rightarrow> world \<Rightarrow> int \<times> world" where
  "next_count counter w =
     (static_counters w counter, w\<lparr>static_counters := (static_counters w)(counter := static_counters w counter + 1)\<rparr>)"

definition define_in_world :: "string \<times> tm \<Rightarrow> world \<Rightarrow> world" where
  "define_in_world b w = w\<lparr>world_ctx := eval_define (fst b) (snd b) (world_ctx w)\<rparr>"

definition eval_in_world :: "(tm \<Rightarrow> tm \<Rightarrow> effect) \<Rightarrow> tm \<Rightarrow> effect" where
  "eval_in_world ev expr w = ev (ctx_env (world_ctx w)) expr w"

text \<open>A call of the first value on the others, under the given prefixes of names.\<close>

definition call_temporary :: "(tm \<Rightarrow> tm \<Rightarrow> effect) \<Rightarrow> string \<Rightarrow> (string \<times> tm) list \<Rightarrow> effect" where
  "call_temporary ev counter parts w =
     (let (n, w) = next_count counter w;
          bs = map (\<lambda>(prefix, v). (prefix @ decimal (nat n), v)) parts
      in eval_in_world ev (tm_list (map (\<lambda>b. cell_symbol (fst b)) bs)) (fold define_in_world bs w))"

definition agent_call_fn :: "(tm \<Rightarrow> tm \<Rightarrow> effect) \<Rightarrow> tm \<Rightarrow> tm \<Rightarrow> effect" where
  "agent_call_fn ev fn a = call_temporary ev ''agent_call'' [(''__agent_fn_'', fn), (''__agent_arg_'', a)]"

definition agent_call_fn0 :: "(tm \<Rightarrow> tm \<Rightarrow> effect) \<Rightarrow> tm \<Rightarrow> effect" where
  "agent_call_fn0 ev fn = call_temporary ev ''agent_call0'' [(''__agent_fn0_'', fn)]"

definition stage_call_fn2 :: "(tm \<Rightarrow> tm \<Rightarrow> effect) \<Rightarrow> tm \<Rightarrow> tm \<Rightarrow> tm \<Rightarrow> effect" where
  "stage_call_fn2 ev fn a b =
     call_temporary ev ''stage_call'' [(''__stage_fn_'', fn), (''__stage_a1_'', a), (''__stage_a2_'', b)]"

definition flow_call_fn1 :: "(tm \<Rightarrow> tm \<Rightarrow> effect) \<Rightarrow> tm \<Rightarrow> tm \<Rightarrow> effect" where
  "flow_call_fn1 ev fn a = call_temporary ev ''flow_call1'' [(''__flow_fn1_'', fn), (''__flow_a1_'', a)]"

definition flow_call_fn2 :: "(tm \<Rightarrow> tm \<Rightarrow> effect) \<Rightarrow> tm \<Rightarrow> tm \<Rightarrow> tm \<Rightarrow> effect" where
  "flow_call_fn2 ev fn a b =
     call_temporary ev ''flow_call2'' [(''__flow_fn2_'', fn), (''__flow_a2a_'', a), (''__flow_a2b_'', b)]"

text \<open>The checks of the number of an agent, a stage or a flow and of a closure, in their order.\<close>

definition with_id_fn :: "string \<Rightarrow> string \<Rightarrow> tm \<Rightarrow> tm \<Rightarrow> (int \<Rightarrow> effect) \<Rightarrow> effect" where
  "with_id_fn id_msg fn_msg id_cell fn f w =
     (if cell_get_number id_cell = None then failure id_msg id_cell w
      else if \<not> cell_is_lambda fn then failure fn_msg fn w
      else Option.bind (int_of_number id_cell) (\<lambda>i. f i w))"

subsection \<open>Agents\<close>

definition with_agent_fn :: "string \<Rightarrow> tm \<Rightarrow> (int \<Rightarrow> tm \<Rightarrow> tm \<Rightarrow> effect) \<Rightarrow> effect" where
  "with_agent_fn fn_msg args f w = do {
     id_cell \<leftarrow> arg1 args;
     fn \<leftarrow> arg2 args;
     with_id_fn ''agent-id-not-number'' fn_msg id_cell fn (\<lambda>i w.
       case agent_get_state i (agents w) of
         None \<Rightarrow> failure ''agent-not-found'' id_cell w
       | Some st \<Rightarrow> f i fn st w) w
   }"

definition store_agent :: "int \<Rightarrow> tm \<Rightarrow> world \<Rightarrow> world" where
  "store_agent i st w = w\<lparr>agents := snd (agent_set_state i st (agents w))\<rparr>"

definition prim_agent_start :: "(tm \<Rightarrow> tm \<Rightarrow> effect) \<Rightarrow> tm \<Rightarrow> effect" where
  "prim_agent_start ev args w = do {
     init_fn \<leftarrow> arg1 args;
     if \<not> cell_is_lambda init_fn then failure ''agent-not-lambda'' init_fn w
     else do {
       (initial_state, w) \<leftarrow> agent_call_fn0 ev init_fn w;
       let (i, ags) = agent_start initial_state (agents w);
       let w = w\<lparr>agents := ags\<rparr>;
       if i < 0 then failure ''agent-limit'' cell_nil w else answer (number i) w
     }
   }"

definition prim_agent_get :: "(tm \<Rightarrow> tm \<Rightarrow> effect) \<Rightarrow> tm \<Rightarrow> effect" where
  "prim_agent_get ev args = with_agent_fn ''agent-get-not-lambda'' args (\<lambda>i fn st. agent_call_fn ev fn st)"

definition prim_agent_update :: "(tm \<Rightarrow> tm \<Rightarrow> effect) \<Rightarrow> tm \<Rightarrow> effect" where
  "prim_agent_update ev args = with_agent_fn ''agent-update-not-lambda'' args (\<lambda>i fn st w. do {
     (new_state, w) \<leftarrow> agent_call_fn ev fn st w;
     answer (cell_bool True) (store_agent i new_state w)
   })"

definition prim_agent_get_and_update :: "(tm \<Rightarrow> tm \<Rightarrow> effect) \<Rightarrow> tm \<Rightarrow> effect" where
  "prim_agent_get_and_update ev args = with_agent_fn ''agent-gau-not-lambda'' args (\<lambda>i fn st w. do {
     (result, w) \<leftarrow> agent_call_fn ev fn st w;
     case result of
       CPair _ reply new_state \<Rightarrow> answer reply (store_agent i new_state w)
     | _ \<Rightarrow> failure ''agent-gau-not-pair'' cell_nil w
   })"

definition prim_agent_stop :: "tm \<Rightarrow> effect" where
  "prim_agent_stop args w = do {
     id_cell \<leftarrow> arg1 args;
     with_number ''agent-id-not-number'' id_cell (\<lambda>i w.
       case agent_get_state i (agents w) of
         None \<Rightarrow> failure ''agent-not-found'' id_cell w
       | Some st \<Rightarrow> answer st (w\<lparr>agents := snd (agent_stop i (agents w))\<rparr>)) w
   }"

subsection \<open>Stages\<close>

definition parse_mode :: "string \<Rightarrow> stage_mode option" where
  "parse_mode s =
     (if s = '':producer'' then Some STAGE_PRODUCER
      else if s = '':consumer'' then Some STAGE_CONSUMER
      else if s = '':producer-consumer'' then Some STAGE_PRODUCER_CONSUMER
      else None)"

definition mode_name :: "stage_mode \<Rightarrow> string" where
  "mode_name m = (case m of STAGE_PRODUCER \<Rightarrow> '':producer'' | STAGE_CONSUMER \<Rightarrow> '':consumer''
     | STAGE_PRODUCER_CONSUMER \<Rightarrow> '':producer-consumer'')"

definition prim_stage_new :: "tm \<Rightarrow> effect" where
  "prim_stage_new args w = do {
     mode_cell \<leftarrow> arg1 args;
     handler \<leftarrow> arg2 args;
     init_state \<leftarrow> arg3 args;
     with_symbol ''stage-mode-not-symbol'' mode_cell (\<lambda>s w.
       if \<not> cell_is_lambda handler then failure ''stage-handler-not-lambda'' handler w
       else case parse_mode s of
         None \<Rightarrow> failure ''stage-invalid-mode'' mode_cell w
       | Some mode \<Rightarrow>
           (let (i, sts) = stage_create mode handler init_state (stages w);
                w = w\<lparr>stages := sts\<rparr>
            in if i < 0 then failure ''stage-limit'' cell_nil w else answer (number i) w)) w
   }"

definition prim_stage_subscribe :: "tm \<Rightarrow> effect" where
  "prim_stage_subscribe args w = do {
     consumer_cell \<leftarrow> arg1 args;
     producer_cell \<leftarrow> arg2 args;
     if cell_get_number consumer_cell = None then failure ''stage-id-not-number'' consumer_cell w
     else if cell_get_number producer_cell = None then failure ''stage-id-not-number'' producer_cell w
     else do {
       consumer_id \<leftarrow> int_of_number consumer_cell;
       producer_id \<leftarrow> int_of_number producer_cell;
       let (rc, sts) = stage_subscribe consumer_id producer_id (stages w);
       coded [(-1, ''stage-not-found'', cell_nil), (-2, ''stage-subscribers-full'', cell_nil)] (cell_bool True)
         (rc, w\<lparr>stages := sts\<rparr>)
     }
   }"

definition with_stage :: "tm \<Rightarrow> (int \<Rightarrow> gen_stage \<Rightarrow> effect) \<Rightarrow> effect" where
  "with_stage id_cell f = with_number ''stage-id-not-number'' id_cell (\<lambda>i w.
     case stage_lookup i (stages w) of
       None \<Rightarrow> failure ''stage-not-found'' id_cell w
     | Some s \<Rightarrow> f i s w)"

definition store_stage :: "int \<Rightarrow> tm \<Rightarrow> world \<Rightarrow> world option" where
  "store_stage i st w =
     map_option (\<lambda>s. w\<lparr>stages := snd (slot_set i (s\<lparr>stage_state := st\<rparr>) (stages w))\<rparr>) (stage_lookup i (stages w))"

definition prim_stage_ask :: "(tm \<Rightarrow> tm \<Rightarrow> effect) \<Rightarrow> tm \<Rightarrow> effect" where
  "prim_stage_ask ev args w = do {
     id_cell \<leftarrow> arg1 args;
     demand_cell \<leftarrow> arg2 args;
     if cell_get_number id_cell = None then failure ''stage-id-not-number'' id_cell w
     else if cell_get_number demand_cell = None then failure ''stage-demand-not-number'' demand_cell w
     else with_stage id_cell (\<lambda>i s w.
       if stage_mode s = STAGE_CONSUMER then failure ''stage-consumer-no-ask'' id_cell w
       else do {
         (result, w) \<leftarrow> stage_call_fn2 ev (stage_handler s) demand_cell (stage_state s) w;
         case result of
           CPair _ events new_state \<Rightarrow> do { w \<leftarrow> store_stage i new_state w; answer events w }
         | _ \<Rightarrow> failure ''stage-handler-not-pair'' cell_nil w
       }) w
   }"

text \<open>
  The loop of \<open>stage_dispatch_to_subscribers\<close> at the subscriber \<open>k\<close>, after \<open>d\<close> of them have been
  served. It may call itself for ever, so it is a partial function.
\<close>

partial_function (option) dispatch_from ::
  "(tm \<Rightarrow> tm \<Rightarrow> effect) \<Rightarrow> int \<Rightarrow> tm \<Rightarrow> nat \<Rightarrow> nat \<Rightarrow> world \<Rightarrow> (nat \<times> world) option" where
  "dispatch_from ev i events k d w =
     Option.bind (stage_lookup i (stages w)) (\<lambda>s.
       if length (subscribers s) \<le> k then Some (d, w)
       else case stage_lookup (subscribers s ! k) (stages w) of
         None \<Rightarrow> dispatch_from ev i events (k + 1) d w
       | Some sub \<Rightarrow>
           if stage_mode sub = STAGE_PRODUCER then dispatch_from ev i events (k + 1) d w
           else Option.bind (stage_call_fn2 ev (stage_handler sub) events (stage_state sub) w) (\<lambda>(result, w).
             if stage_mode sub = STAGE_CONSUMER
             then Option.bind (store_stage (subscribers s ! k) result w) (dispatch_from ev i events (k + 1) (d + 1))
             else if cell_is_pair result
             then Option.bind (cell_car result) (\<lambda>out_events.
               Option.bind (cell_cdr result) (\<lambda>new_state.
                 Option.bind (store_stage (subscribers s ! k) new_state w) (\<lambda>w.
                   Option.bind (dispatch_from ev (subscribers s ! k) out_events 0 0 w) (\<lambda>(fwd, w).
                     dispatch_from ev i events (k + 1) (d + 1) w))))
             else dispatch_from ev i events (k + 1) (d + 1) w))"

definition stage_dispatch_to_subscribers :: "(tm \<Rightarrow> tm \<Rightarrow> effect) \<Rightarrow> int \<Rightarrow> tm \<Rightarrow> effect" where
  "stage_dispatch_to_subscribers ev i events w =
     map_option (\<lambda>(d, w). (number (int d), w)) (dispatch_from ev i events 0 0 w)"

definition prim_stage_dispatch :: "(tm \<Rightarrow> tm \<Rightarrow> effect) \<Rightarrow> tm \<Rightarrow> effect" where
  "prim_stage_dispatch ev args w = do {
     id_cell \<leftarrow> arg1 args;
     events \<leftarrow> arg2 args;
     with_stage id_cell (\<lambda>i s w.
       case stage_mode s of
         STAGE_PRODUCER \<Rightarrow> stage_dispatch_to_subscribers ev i events w
       | STAGE_CONSUMER \<Rightarrow> do {
           (new_state, w) \<leftarrow> stage_call_fn2 ev (stage_handler s) events (stage_state s) w;
           w \<leftarrow> store_stage i new_state w;
           answer (number 1) w
         }
       | STAGE_PRODUCER_CONSUMER \<Rightarrow> do {
           (result, w) \<leftarrow> stage_call_fn2 ev (stage_handler s) events (stage_state s) w;
           case result of
             CPair _ out_events new_state \<Rightarrow> do {
               w \<leftarrow> store_stage i new_state w;
               stage_dispatch_to_subscribers ev i out_events w
             }
           | _ \<Rightarrow> failure ''stage-handler-not-pair'' cell_nil w
         }) w
   }"

definition prim_stage_info :: "tm \<Rightarrow> effect" where
  "prim_stage_info args w = do {
     id_cell \<leftarrow> arg1 args;
     with_stage id_cell (\<lambda>i s. answer (cell_cons (cell_symbol (mode_name (stage_mode s))) (stage_state s))) w
   }"

definition prim_stage_stop :: "tm \<Rightarrow> effect" where
  "prim_stage_stop args w = do {
     id_cell \<leftarrow> arg1 args;
     with_stage id_cell (\<lambda>i s w. answer (stage_state s) (w\<lparr>stages := snd (stage_stop i (stages w))\<rparr>)) w
   }"

subsection \<open>Flows\<close>

definition prim_flow_from :: "tm \<Rightarrow> effect" where
  "prim_flow_from args w = do {
     source \<leftarrow> arg1 args;
     let (i, fs) = flow_create source (flows w);
     let w = w\<lparr>flows := fs\<rparr>;
     if i < 0 then failure ''flow-limit'' cell_nil w else answer (number i) w
   }"

definition add_flow_step :: "flow_step_type \<Rightarrow> tm \<Rightarrow> tm \<Rightarrow> tm option \<Rightarrow> effect" where
  "add_flow_step ty id_cell fn ini =
     with_id_fn ''flow-id-not-number'' ''flow-fn-not-lambda'' id_cell fn (\<lambda>i w.
       let (rc, fs) = flow_add_step i ty fn ini (flows w)
       in coded [(-1, ''flow-not-found'', id_cell), (-2, ''flow-steps-full'', id_cell)] (number i) (rc, w\<lparr>flows := fs\<rparr>))"

definition prim_flow_map :: "tm \<Rightarrow> effect" where
  "prim_flow_map args w = do { id_cell \<leftarrow> arg1 args; fn \<leftarrow> arg2 args; add_flow_step FLOW_MAP id_cell fn None w }"

definition prim_flow_filter :: "tm \<Rightarrow> effect" where
  "prim_flow_filter args w = do { id_cell \<leftarrow> arg1 args; fn \<leftarrow> arg2 args; add_flow_step FLOW_FILTER id_cell fn None w }"

definition prim_flow_reduce :: "tm \<Rightarrow> effect" where
  "prim_flow_reduce args w = do {
     id_cell \<leftarrow> arg1 args;
     ini \<leftarrow> arg2 args;
     fn \<leftarrow> arg3 args;
     add_flow_step FLOW_REDUCE id_cell fn (Some ini) w
   }"

definition prim_flow_each :: "tm \<Rightarrow> effect" where
  "prim_flow_each args w = do { id_cell \<leftarrow> arg1 args; fn \<leftarrow> arg2 args; add_flow_step FLOW_EACH id_cell fn None w }"

text \<open>A call for every element in turn, with the answers.\<close>

primrec call_each :: "(tm \<Rightarrow> effect) \<Rightarrow> tm list \<Rightarrow> world \<Rightarrow> (tm list \<times> world) option" where
  "call_each f [] w = Some ([], w)"
| "call_each f (x # xs) w = do { (y, w) \<leftarrow> f x w; (ys, w) \<leftarrow> call_each f xs w; Some (y # ys, w) }"

primrec call_fold :: "(tm \<Rightarrow> tm \<Rightarrow> effect) \<Rightarrow> tm list \<Rightarrow> tm \<Rightarrow> effect" where
  "call_fold f [] acc w = Some (acc, w)"
| "call_fold f (x # xs) acc w = do { (acc, w) \<leftarrow> f acc x w; call_fold f xs acc w }"

definition keeps :: "tm \<Rightarrow> bool" where
  "keeps test \<longleftrightarrow> \<not> cell_is_nil test \<and> cell_get_bool test \<noteq> Some False"

definition run_flow_step :: "(tm \<Rightarrow> tm \<Rightarrow> effect) \<Rightarrow> flow_step \<Rightarrow> tm \<Rightarrow> effect" where
  "run_flow_step ev s dat w =
     (case step_type s of
        FLOW_MAP \<Rightarrow> do { (ys, w) \<leftarrow> call_each (flow_call_fn1 ev (step_fn s)) (list_elems dat) w; answer (tm_list ys) w }
      | FLOW_FILTER \<Rightarrow> do {
          (tests, w) \<leftarrow> call_each (flow_call_fn1 ev (step_fn s)) (list_elems dat) w;
          answer (tm_list (map fst (filter (\<lambda>(x, t). keeps t) (zip (list_elems dat) tests)))) w
        }
      | FLOW_REDUCE \<Rightarrow> do { ini \<leftarrow> step_init s; call_fold (flow_call_fn2 ev (step_fn s)) (list_elems dat) ini w }
      | FLOW_EACH \<Rightarrow> do { (ys, w) \<leftarrow> call_each (flow_call_fn1 ev (step_fn s)) (list_elems dat) w; answer cell_nil w })"

text \<open>
  A closure may add steps to the flow that runs, so the number of steps is read before each of them; there
  are never more than \<open>MAX_FLOW_STEPS\<close>.
\<close>

definition flow_step_at :: "(tm \<Rightarrow> tm \<Rightarrow> effect) \<Rightarrow> int \<Rightarrow> nat \<Rightarrow> tm \<times> world \<Rightarrow> (tm \<times> world) option" where
  "flow_step_at ev i k s =
     (case s of (dat, w) \<Rightarrow>
        do {
          f \<leftarrow> flow_lookup i (flows w);
          if k < length (flow_steps f) then run_flow_step ev (flow_steps f ! k) dat w else Some (dat, w)
        })"

definition prim_flow_run :: "(tm \<Rightarrow> tm \<Rightarrow> effect) \<Rightarrow> tm \<Rightarrow> effect" where
  "prim_flow_run ev args w = do {
     id_cell \<leftarrow> arg1 args;
     with_number ''flow-id-not-number'' id_cell (\<lambda>i w.
       case flow_lookup i (flows w) of
         None \<Rightarrow> failure ''flow-not-found'' id_cell w
       | Some f \<Rightarrow> ofold (flow_step_at ev i) [0..<MAX_FLOW_STEPS] (flow_source f, w)) w
   }"

definition prim_flow_registry_register :: "tm \<Rightarrow> effect" where
  "prim_flow_registry_register args w = do {
     name_cell \<leftarrow> arg1 args;
     id_cell \<leftarrow> arg2 args;
     with_symbol ''flow-register-not-symbol'' name_cell (\<lambda>nm.
       with_number ''flow-register-not-number'' id_cell (\<lambda>i w.
         let (rc, reg) = flow_registry_register nm i (flows w) (flow_registry w)
         in coded [(-1, ''flow-register-name-taken'', name_cell), (-2, ''flow-register-flow-already-registered'', id_cell),
                   (-3, ''flow-register-registry-full'', cell_nil), (-4, ''flow-register-flow-not-found'', id_cell)]
              (cell_bool True) (rc, w\<lparr>flow_registry := reg\<rparr>))) w
   }"

definition prim_flow_registry_unregister :: "tm \<Rightarrow> effect" where
  "prim_flow_registry_unregister args w = do {
     name_cell \<leftarrow> arg1 args;
     with_symbol ''flow-unregister-not-symbol'' name_cell (\<lambda>nm w.
       let (rc, reg) = flow_registry_unregister_name nm (flow_registry w)
       in coded [(-1, ''flow-unregister-not-found'', name_cell)] (cell_bool True) (rc, w\<lparr>flow_registry := reg\<rparr>)) w
   }"

definition prim_flow_registry_whereis :: "tm \<Rightarrow> effect" where
  "prim_flow_registry_whereis args w = do {
     name_cell \<leftarrow> arg1 args;
     with_symbol ''flow-whereis-not-symbol'' name_cell (\<lambda>nm w.
       let i = flow_registry_lookup nm (flow_registry w) in answer (if i < 0 then cell_nil else number i) w) w
   }"

definition prim_flow_registry_list :: "tm \<Rightarrow> effect" where
  "prim_flow_registry_list args w = answer (flow_registry_list (flow_registry w)) w"

end
