(* ===== verification/FlowFacts.thy ===== *)
theory FlowFacts
  imports FlowPrims TableFacts ActorFacts EvalRef
begin

section \<open>Facts about flows and stages\<close>

text \<open>
  Calls through temporary names, the pipelines of flows, and the dispatch of events through stages. The
  evaluator is known by what it does with the application of names: \<open>applies\<close>.
\<close>

subsection \<open>Slots\<close>

lemma position_update:
  assumes "p < length xs" "P y = P (xs ! p)"
  shows "position P (xs[p := y]) = position P xs"
  unfolding position_def using assms
  by (intro find_cong) (auto simp: nth_list_update)

lemma slot_find_Some: "slot_find i s = Some p \<Longrightarrow> p < length (slot_array s) \<and> (\<exists>x. slot_array s ! p = Some (i, x))"
  by (auto simp: slot_find_def position_Some split: option.splits prod.splits)

lemma slot_lookup_set:
  "slot_lookup j (snd (slot_set i x s)) = (if j = i \<and> slot_lookup i s \<noteq> None then Some x else slot_lookup j s)"
proof (cases "slot_find i s")
  case None
  then show ?thesis by (simp add: slot_set_def slot_lookup_def)
next
  case (Some p)
  from slot_find_Some [OF this] obtain y where p: "p < length (slot_array s)" "slot_array s ! p = Some (i, y)" by blast
  have find: "slot_find k (s\<lparr>slot_array := (slot_array s)[p := Some (i, x)]\<rparr>) = slot_find k s" for k
    unfolding slot_find_def using p by (simp add: position_update)
  show ?thesis
  proof (cases "j = i")
    case True
    with Some p find show ?thesis by (simp add: slot_set_def slot_lookup_def)
  next
    case False
    have "q \<noteq> p" if "slot_find j s = Some q" for q using slot_find_Some [OF that] p(2) False by auto
    with Some False find show ?thesis
      by (cases "slot_find j s") (auto simp: slot_set_def slot_lookup_def nth_list_update)
  qed
qed

subsection \<open>Numbers and calls\<close>

lemma int_of_number_number [simp]: "- (2 ^ 31) \<le> i \<Longrightarrow> i < 2 ^ 31 \<Longrightarrow> int_of_number (number i) = Some i"
  by (simp add: int_of_number_def number_def cell_number_def double_of_int_roundtrip)


text \<open>
  What the evaluator is taken to do, in contexts with the property \<open>W\<close>, which temporary definitions keep:
  the application of temporary names to a closure of the set \<open>F\<close> and its arguments, in the environment of
  the context, yields a value that depends on the values of the names only, and leaves the flows and the
  stages as they are. Temporary names start with two underscores, and the last definition has made the
  environment of the context the global one.
\<close>

definition temporary :: "string \<Rightarrow> bool" where
  "temporary nm \<longleftrightarrow> take 2 nm = ''__''"

lemma temporary_append: "temporary p \<Longrightarrow> temporary (p @ q)"
  by (cases p; cases "tl p") (auto simp: temporary_def)

definition applies :: "(eval_context \<Rightarrow> bool) \<Rightarrow> (tm \<Rightarrow> tm \<Rightarrow> effect) \<Rightarrow> tm set \<Rightarrow> (tm list \<Rightarrow> tm) \<Rightarrow> bool" where
  "applies W ev F app \<longleftrightarrow>
     (\<forall>nm v c. temporary nm \<and> W c \<longrightarrow> W (eval_define nm v c)) \<and>
     (\<forall>names fn vs w.
        list_all temporary names \<and> map (global_table (world_ctx w)) names = map Some (fn # vs) \<and> fn \<in> F \<and>
        ctx_env (world_ctx w) = global_env (world_ctx w) \<and> W (world_ctx w) \<longrightarrow>
        (\<exists>w'. ev (ctx_env (world_ctx w)) (tm_list (map cell_symbol names)) w = Some (app (fn # vs), w') \<and>
          flows w' = flows w \<and> stages w' = stages w \<and> W (world_ctx w')))"

lemma global_table_define: "global_table (world_ctx (define_in_world b w)) = (global_table (world_ctx w))(fst b \<mapsto> snd b)"
  by (simp add: define_in_world_def eval_define_def Let_def split: prod.splits)

lemma global_table_defines:
  "distinct (map fst bs) \<Longrightarrow>
    map (global_table (world_ctx (fold define_in_world bs w))) (map fst bs) = map Some (map snd bs)"
proof (induction bs rule: rev_induct)
  case (snoc b bs)
  then show ?case
    by (auto simp: global_table_define image_iff)
qed simp

lemma define_rest [simp]:
  "flows (fold define_in_world bs w) = flows w" "stages (fold define_in_world bs w) = stages w"
  by (induction bs arbitrary: w) (simp_all add: define_in_world_def)

lemma env_define: "ctx_env (world_ctx (define_in_world b w)) = global_env (world_ctx (define_in_world b w))"
  by (simp add: define_in_world_def eval_define_def Let_def split: prod.splits)

lemma env_defines:
  "bs \<noteq> [] \<Longrightarrow> ctx_env (world_ctx (fold define_in_world bs w)) = global_env (world_ctx (fold define_in_world bs w))"
  by (cases bs rule: rev_cases) (simp_all add: env_define)

lemma defines_keep:
  assumes "applies W ev F app" "W (world_ctx w)" "list_all temporary (map fst bs)"
  shows "W (world_ctx (fold define_in_world bs w))"
  using assms(2,3)
proof (induction bs arbitrary: w)
  case (Cons b bs)
  then have "W (world_ctx (define_in_world b w))" using assms(1) by (simp add: applies_def define_in_world_def)
  with Cons show ?case by simp
qed simp

lemma call_applies:
  assumes "applies W ev F app" "distinct (map fst ((p, fn) # cs))" "list_all temporary (map fst ((p, fn) # cs))" "fn \<in> F"
    "W (world_ctx w)"
  obtains w' where "call_temporary ev counter ((p, fn) # cs) w = Some (app (fn # map snd cs), w')" "flows w' = flows w"
    "stages w' = stages w" "W (world_ctx w')"
proof -
  define ds where "ds = (p, fn) # cs"
  obtain n w0 where n: "next_count counter w = (n, w0)" "flows w0 = flows w" "stages w0 = stages w" "world_ctx w0 = world_ctx w"
    by (simp add: next_count_def)
  define bs where "bs = map (\<lambda>(prefix, v). (prefix @ decimal (nat n), v)) ds"
  define w1 where "w1 = fold define_in_world bs w0"
  have fst_bs: "map fst bs = map (\<lambda>p. p @ decimal (nat n)) (map fst ds)" and snd_bs: "map snd bs = map snd ds"
    by (auto simp: bs_def)
  have "inj (\<lambda>p. p @ decimal (nat n))" by (simp add: inj_on_def)
  then have "distinct (map fst bs)"
    unfolding fst_bs using assms(2) unfolding ds_def by (subst distinct_map) (auto intro: inj_on_subset)
  from global_table_defines [OF this, of w0]
  have "map (global_table (world_ctx w1)) (map fst bs) = map Some (fn # map snd cs)" by (simp add: w1_def snd_bs ds_def)
  moreover have temps: "list_all temporary (map fst bs)"
    unfolding fst_bs using assms(3) by (auto simp: ds_def list_all_iff temporary_append)
  moreover have "ctx_env (world_ctx w1) = global_env (world_ctx w1)"
    unfolding w1_def by (rule env_defines) (simp add: bs_def ds_def)
  moreover have "W (world_ctx w1)"
    unfolding w1_def by (rule defines_keep [OF assms(1) _ temps]) (simp add: n assms(5))
  ultimately obtain w' where w': "ev (ctx_env (world_ctx w1)) (tm_list (map cell_symbol (map fst bs))) w1 =
      Some (app (fn # map snd cs), w')" "flows w' = flows w1" "stages w' = stages w1" "W (world_ctx w')"
    using assms(1,4) unfolding applies_def by blast
  then have "call_temporary ev counter ds w = Some (app (fn # map snd cs), w')"
    unfolding call_temporary_def n Let_def prod.case bs_def [symmetric] eval_in_world_def
    by (simp add: w1_def comp_def)
  then show thesis using that w'(2-4) by (simp add: w1_def n ds_def)
qed



lemma stage_call2:
  assumes "applies W ev F app" "fn \<in> F" "W (world_ctx w)"
  obtains w' where "stage_call_fn2 ev fn x y w = Some (app [fn, x, y], w')" "stages w' = stages w" "W (world_ctx w')"
  using call_applies [OF assms(1) _ _ assms(2,3), of "''__stage_fn_''" "[(''__stage_a1_'', x), (''__stage_a2_'', y)]" "''stage_call''"]
  by (auto simp: stage_call_fn2_def temporary_def)

subsection \<open>Pipelines\<close>













subsection \<open>The evaluator of the model\<close>

text \<open>
  The evaluator on the context of the world. In a context without macros and aliases, in which the
  primitives \<open>fs\<close> are not redefined, it applies temporary names to closures that return without a change
  of the context.
\<close>

definition world_eval :: "interp \<Rightarrow> nat \<Rightarrow> tm \<Rightarrow> tm \<Rightarrow> effect" where
  "world_eval I n env expr w = map_option (\<lambda>(v, c). (v, w\<lparr>world_ctx := c\<rparr>)) (eval_internal I n (world_ctx w) env expr)"

definition plain_context :: "string set \<Rightarrow> eval_context \<Rightarrow> bool" where
  "plain_context fs c \<longleftrightarrow> macros c = [] \<and> alias_table (module_state c) = Map.empty \<and> ctx_env c = global_env c \<and>
     (\<forall>f \<in> fs. global_table c f = None)"

lemma alias_table_registry [simp]:
  "alias_table (module_registry_add_symbol m nm r) = alias_table r"
  "alias_table (module_registry_define m nm v r) = alias_table r"
  by (auto simp: module_registry_add_symbol_def module_registry_define_def put_module_def Let_def split: option.splits)

lemma plain_define:
  assumes "plain_context fs c" "nm \<notin> fs"
  shows "plain_context fs (eval_define nm v c)"
  using assms by (auto simp: plain_context_def eval_define_def Let_def split: option.splits)

lemma eval_symbol_plain:
  assumes "plain_context fs c" "nm = [] \<or> hd nm \<noteq> CHR '':''" "eval_lookup I c nm = Some v"
  shows "eval_symbol I c nm = v"
  using assms by (auto simp: plain_context_def eval_symbol_def module_registry_resolve_alias_def Let_def split: option.splits prod.splits)

lemma temporary_symbol:
  assumes "plain_context fs c" "temporary nm" "global_table c nm = Some v"
  shows "eval_symbol I c nm = v"
proof (rule eval_symbol_plain [OF assms(1)])
  show "nm = [] \<or> hd nm \<noteq> CHR '':''" using assms(2) by (cases nm) (auto simp: temporary_def)
  show "eval_lookup I c nm = Some v" using assms(1,3) by (simp add: eval_lookup_def plain_context_def)
qed

lemma temporary_no_form: "temporary nm \<Longrightarrow> nm \<notin> set special_forms"
  by (auto simp: temporary_def special_forms_def outside_forms_def)

lemma names_applied:
  assumes "plain_context fs c" "list_all temporary names" "map (global_table c) names = map Some (fn # vs)"
  shows "eval_internal I (Suc (Suc n)) c env (tm_list (map cell_symbol names)) =
    apply_fn I (eval_internal I (Suc n)) c fn (tm_list vs)"
proof -
  let ?ev = "eval_internal I (Suc n)"
  from assms(3) obtain nm ns where names: "names = nm # ns" "global_table c nm = Some fn" "map (global_table c) ns = map Some vs"
    by (cases names) auto
  have sym: "?ev c env (cell_symbol x) = Some (v, c)" if "temporary x" "global_table c x = Some v" for x v
    using temporary_symbol [OF assms(1) that, of I] by (simp add: eval_step_def) (simp add: cell_symbol_def)
  have "list_all2 (\<lambda>e v. ?ev c env e = Some (v, c)) (map cell_symbol ns) vs"
  proof (rule list_all2I)
    show "\<forall>(e, v) \<in> set (zip (map cell_symbol ns) vs). ?ev c env e = Some (v, c)"
    proof clarify
      fix e v assume "(e, v) \<in> set (zip (map cell_symbol ns) vs)"
      then obtain i where i: "i < length ns" "i < length vs" "e = cell_symbol (ns ! i)" "v = vs ! i"
        by (auto simp: set_zip)
      then have "global_table c (ns ! i) = Some v" using names(3) by (metis nth_map)
      moreover have "temporary (ns ! i)" using assms(2) names(1) i(1) by (simp add: list_all_iff)
      ultimately show "?ev c env e = Some (v, c)" using sym i(3) by simp
    qed
    show "length (map cell_symbol ns) = length vs" using names(3) by (metis length_map)
  qed
  from eval_list_all [of ?ev, OF this] have args: "eval_list ?ev c env (tm_list (map cell_symbol ns)) = Some (tm_list vs, c)" .
  have tmp: "temporary nm" using assms(2) names(1) by simp
  note form = temporary_no_form [OF tmp]
  have "eval_step I ?ev c env (cell_cons (cell_symbol nm) r) = eval_pair I ?ev c env (cell_cons (cell_symbol nm) r) (cell_symbol nm) r" for r
    using assms(1) by (simp add: eval_step_def cell_cons_def no_macros plain_context_def)
  moreover have "eval_pair I ?ev c env e (cell_symbol nm) r = eval_application I ?ev c env (cell_symbol nm) r" for e r
    using form by (simp add: eval_pair_def special_forms_def cell_symbol_def)
  moreover have "nm \<noteq> ''symbol?''" using form by (auto simp: special_forms_def)
  then have "cell_symbol nm \<noteq> cell_symbol ''symbol?''" by (simp add: cell_symbol_def)
  then have "eval_application I ?ev c env (cell_symbol nm) (tm_list (map cell_symbol ns)) = apply_fn I ?ev c fn (tm_list vs)"
    using sym [OF tmp names(2)] args by (simp add: eval_application_def del: eval_internal.simps)
  ultimately show ?thesis
    unfolding names(1) list.map tm_list.simps(2) [of "cell_symbol nm"] eval_internal.simps(2) [of I "Suc n"] by simp
qed

lemma world_eval_applies:
  assumes "\<And>fn vs c. fn \<in> F \<Longrightarrow> plain_context fs c \<Longrightarrow>
      apply_fn I (eval_internal I (Suc n)) c fn (tm_list vs) = Some (app (fn # vs), c)"
    and "\<And>f. f \<in> fs \<Longrightarrow> \<not> temporary f"
  shows "applies (plain_context fs) (world_eval I (Suc (Suc n))) F app"
  unfolding applies_def
proof (intro conjI allI impI; elim conjE)
  fix nm v c assume "temporary nm" "plain_context fs c"
  then show "plain_context fs (eval_define nm v c)" using plain_define assms(2) by blast
next
  fix names fn vs and w :: world
  assume "list_all temporary names" "map (global_table (world_ctx w)) names = map Some (fn # vs)" "fn \<in> F" "plain_context fs (world_ctx w)"
  with names_applied [OF this(4,1,2), of I n] assms(1) [OF this(3,4), of vs]
  show "\<exists>w'. world_eval I (Suc (Suc n)) (ctx_env (world_ctx w)) (tm_list (map cell_symbol names)) w = Some (app (fn # vs), w') \<and>
      flows w' = flows w \<and> stages w' = stages w \<and> plain_context fs (world_ctx w')"
    by (simp add: world_eval_def del: eval_internal.simps)
qed

lemma applies_subset: "applies W ev F app \<Longrightarrow> G \<subseteq> F \<Longrightarrow> applies W ev G app"
  unfolding applies_def by blast

text \<open>Closures whose body applies a primitive to two of the parameters.\<close>

definition prim_closure :: "string \<Rightarrow> nat \<Rightarrow> nat \<Rightarrow> nat \<Rightarrow> tm" where
  "prim_closure f i j n =
     CLambda () cell_nil (tm_list [cell_symbol f, cell_number (double_of_int (int i)), cell_number (double_of_int (int j))]) n None"

definition prim_result :: "(tm \<Rightarrow> tm option) \<Rightarrow> nat \<Rightarrow> nat \<Rightarrow> nat \<Rightarrow> tm list \<Rightarrow> tm" where
  "prim_result q i j n vs =
     (if length vs = n then the (q (tm_list [vs ! i, vs ! j]))
      else cell_error ''arity-mismatch''
        (Some (tm_list [cell_number (double_of_int (int n)), cell_number (double_of_int (int (length vs)))])))"

lemma prim_closure_result:
  assumes "plain_context fs c" "f \<in> fs" "f \<notin> set special_forms" "f = [] \<or> hd f \<noteq> CHR '':''"
    and q: "prims I f = Some (\<lambda>args c. map_option (\<lambda>v. (v, c)) (q args))" "\<And>a b. q (tm_list [a, b]) \<noteq> None"
    and n: "i < n" "j < n" "n < 2 ^ 28"
  shows "apply_fn I (eval_internal I 2) c (prim_closure f i j n) (tm_list vs) = Some (prim_result q i j n vs, c)"
proof (cases "length vs = n")
  case False
  then show ?thesis by (simp add: apply_fn_def prim_closure_def prim_result_def)
next
  case True
  let ?env = "cell_scopes [([], vs)]"
  have "extend_cell_env cell_nil (tm_list vs) = ?env"
    using extend_cell_scopes [of vs "[]" "[]"] True n(3) by (simp add: cell_scopes_def)
  moreover have "eval_internal I 2 c ?env
      (tm_list [cell_symbol f, cell_number (double_of_int (int i)), cell_number (double_of_int (int j))]) =
    map_option (\<lambda>v. (v, c)) (q (tm_list [vs ! i, vs ! j]))"
  proof -
    have look: "eval_lookup I c f = Some (CBuiltin () f)"
      using assms(1,2) q(1) by (simp add: eval_lookup_def plain_context_def primitives_lookup_def)
    from eval_symbol_plain [OF assms(1,4) this] have sym: "eval_symbol I c f = CBuiltin () f" .
    have agree: "agrees I c (\<lambda>g. if g = f then Some q else None) (eval_symbol I c)"
      using assms(1) q(1) sym by (simp add: agrees_def plain_context_def)
    have num: "eval_internal I (Suc 0) c ?env (cell_number (double_of_int (int k))) = Some (vs ! k, c)" if "k < n" for k
      using eval_number_index [of k "[([], vs)]"] that True n(3) by (simp add: eval_step_def cell_number_def)
    have "eval_list (eval_internal I (Suc 0)) c ?env
        (tm_list [cell_number (double_of_int (int i)), cell_number (double_of_int (int j))]) = Some (tm_list [vs ! i, vs ! j], c)"
      by (rule eval_list_all) (use num n in \<open>simp del: eval_internal.simps\<close>)
    from eval_prim [where ev = "eval_internal I (Suc 0)", OF agree assms(3) _ _ this, of q] sym show ?thesis
      unfolding numeral_2_eq_2 tm_list.simps(2) [of "cell_symbol f"] eval_internal.simps(2) [of I "Suc 0"]
      by (simp add: eval_step_def [of _ _ _ _ "cell_symbol f"]) (simp add: cell_symbol_def)
  qed
  moreover obtain v where "q (tm_list [vs ! i, vs ! j]) = Some v" using q(2) by blast
  ultimately show ?thesis using True by (simp add: apply_fn_def prim_closure_def prim_result_def del: tm_list.simps)
qed

text \<open>An interpreter with the primitives \<open>+\<close> and \<open>cons\<close>, and closures that double, add and pair.\<close>

definition flow_interp :: interp where
  "flow_interp = plus_interp\<lparr>prims := (\<lambda>f. if f = ''+'' then Some (\<lambda>args c. map_option (\<lambda>v. (v, c)) (prim_add args))
     else if f = ''cons'' then Some (\<lambda>args c. map_option (\<lambda>v. (v, c)) (prim_cons args)) else None)\<rparr>"

definition doubling :: tm where "doubling = prim_closure ''+'' 0 0 1"
definition adding :: tm where "adding = prim_closure ''+'' 0 1 2"
definition pairing :: tm where "pairing = prim_closure ''cons'' 0 1 2"

definition flow_app :: "tm list \<Rightarrow> tm" where
  "flow_app vs =
     (if hd vs = doubling then prim_result prim_add 0 0 1 (tl vs)
      else if hd vs = adding then prim_result prim_add 0 1 2 (tl vs)
      else prim_result prim_cons 0 1 2 (tl vs))"

lemma closures_differ: "doubling \<noteq> adding" "pairing \<noteq> doubling" "pairing \<noteq> adding"
  by (simp_all add: doubling_def adding_def pairing_def prim_closure_def cell_cons_def cell_symbol_def)

lemma prim_add_total: "prim_add (tm_list [a, b]) \<noteq> None"
  by (simp add: prim_add_def int_or_double_def Let_def split: cell.split)

lemma flow_eval_applies:
  "applies (plain_context {''+'', ''cons''}) (world_eval flow_interp 3) {doubling, adding, pairing} flow_app"
proof -
  have plus: "prims flow_interp ''+'' = Some (\<lambda>args c. map_option (\<lambda>v. (v, c)) (prim_add args))"
    and cons: "prims flow_interp ''cons'' = Some (\<lambda>args c. map_option (\<lambda>v. (v, c)) (prim_cons args))"
    by (simp_all add: flow_interp_def)
  have forms: "''+'' \<notin> set special_forms" "''cons'' \<notin> set special_forms" by (simp_all add: special_forms_def outside_forms_def)
  have total: "prim_cons (tm_list [a, b]) \<noteq> None" for a b by (simp add: prim_cons_def)
  note result = prim_closure_result [where I = flow_interp and fs = "{''+'', ''cons''}", OF _ _ _ _ plus prim_add_total]
    prim_closure_result [where I = flow_interp and fs = "{''+'', ''cons''}", OF _ _ _ _ cons total]
  have "apply_fn flow_interp (eval_internal flow_interp (Suc 1)) c fn (tm_list vs) = Some (flow_app (fn # vs), c)"
    if "fn \<in> {doubling, adding, pairing}" "plain_context {''+'', ''cons''} c" for fn vs c
    using that(1) result [OF that(2)] forms closures_differ
    by (auto simp: flow_app_def doubling_def adding_def pairing_def numeral_2_eq_2 [symmetric] simp del: eval_internal.simps)
  then have "applies (plain_context {''+'', ''cons''}) (world_eval flow_interp (Suc (Suc 1))) {doubling, adding, pairing} flow_app"
    by (rule world_eval_applies) (auto simp: temporary_def)
  then show ?thesis by (simp add: numeral_3_eq_3)
qed

lemma plain_initial: "plain_context fs (world_ctx (initial_world fresh_context))"
  by (simp add: plain_context_def initial_world_def fresh_context_def)

text \<open>Slots of which those at the front are taken, under the numbers from 0 on.\<close>

definition slots_of :: "nat \<Rightarrow> 'a list \<Rightarrow> 'a slots" where
  "slots_of n xs = \<lparr>slot_array = map (\<lambda>(i, x). Some (int i, x)) (zip [0..<length xs] xs) @ replicate (n - length xs) None,
     slot_count = length xs, next_slot_id = int (length xs)\<rparr>"

lemma slots_of_nth:
  "p < length (slot_array (slots_of n xs)) \<Longrightarrow>
    slot_array (slots_of n xs) ! p = (if p < length xs then Some (int p, xs ! p) else None)"
  by (auto simp: slots_of_def nth_append)

lemma slots_of_lookup:
  "slot_lookup (int i) (slots_of n xs) = (if i < length xs then Some (xs ! i) else None)"
proof -
  let ?P = "\<lambda>e :: (int \<times> 'a) option. case e of Some (j, _) \<Rightarrow> j = int i | None \<Rightarrow> False"
  have nth: "slot_array (slots_of n xs) ! j = Some (int j, xs ! j)" if "j < length xs" for j
    using that by (simp add: slots_of_def nth_append)
  have none: "slot_array (slots_of n xs) ! j = None" if "length xs \<le> j" "j < length (slot_array (slots_of n xs))" for j
    using that by (auto simp: slots_of_def nth_append)
  show ?thesis
  proof (cases "i < length xs")
    case True
    have "position ?P (slot_array (slots_of n xs)) = Some i"
      unfolding position_Some using True nth by (auto simp: slots_of_def nth_append)
    with True nth show ?thesis by (simp add: slot_lookup_def slot_find_def)
  next
    case False
    have "slot_find (int i) (slots_of n xs) = None"
    proof (rule ccontr)
      assume "slot_find (int i) (slots_of n xs) \<noteq> None"
      then obtain j where j: "slot_find (int i) (slots_of n xs) = Some j" by blast
      from slot_find_Some [OF this] obtain x where "j < length (slot_array (slots_of n xs))" "slot_array (slots_of n xs) ! j = Some (int i, x)"
        by blast
      with nth [of j] none [of j] False show False by (cases "j < length xs") auto
    qed
    with False show ?thesis by (simp add: slot_lookup_def)
  qed
qed





subsection \<open>Dispatch through stages\<close>

text \<open>What a dispatch does not change: the modes, the handlers and the subscriptions.\<close>

type_synonym stage_shape = "int \<Rightarrow> (stage_mode \<times> tm \<times> int list) option"

definition shape :: "world \<Rightarrow> stage_shape" where
  "shape w i = map_option (\<lambda>s. (stage_mode s, stage_handler s, subscribers s)) (stage_lookup i (stages w))"

lemma shape_cong: "stages w' = stages w \<Longrightarrow> shape w' = shape w"
  by (simp add: shape_def fun_eq_iff)

lemma store_stage_shape:
  assumes "shape w i \<noteq> None"
  obtains w' where "store_stage i v w = Some w'" "shape w' = shape w" "world_ctx w' = world_ctx w"
proof -
  from assms obtain s where s: "stage_lookup i (stages w) = Some s" by (auto simp: shape_def)
  then have l: "slot_lookup i (stages w) = Some s" by (simp add: stage_lookup_def)
  show thesis
    by (rule that [of "w\<lparr>stages := snd (slot_set i (s\<lparr>stage_state := v\<rparr>) (stages w))\<rparr>"])
      (simp_all add: store_stage_def s, auto simp: shape_def fun_eq_iff stage_lookup_def slot_lookup_set l)
qed

text \<open>A world with the stages \<open>sh\<close> and a context with the property \<open>W\<close>.\<close>

definition fits :: "(eval_context \<Rightarrow> bool) \<Rightarrow> stage_shape \<Rightarrow> world \<Rightarrow> bool" where
  "fits W sh w \<longleftrightarrow> shape w = sh \<and> W (world_ctx w)"

lemma store_stage_fits:
  assumes "fits W sh w" "sh i = Some x"
  obtains w' where "store_stage i v w = Some w'" "fits W sh w'"
proof -
  from assms have "shape w i \<noteq> None" by (simp add: fits_def)
  from store_stage_shape [OF this, of v] obtain w' where
    "store_stage i v w = Some w'" "shape w' = shape w" "world_ctx w' = world_ctx w" .
  with that assms(1) show thesis by (simp add: fits_def)
qed

lemma stage_call_fits:
  assumes "applies W ev F app" "fn \<in> F" "fits W sh w"
  obtains w' where "stage_call_fn2 ev fn x y w = Some (app [fn, x, y], w')" "fits W sh w'"
  using stage_call2 [OF assms(1,2), of w x y] assms(3) shape_cong unfolding fits_def by metis

lemma shape_stage:
  assumes "shape w i = Some (m, h, subs)"
  obtains s where "stage_lookup i (stages w) = Some s" "stage_mode s = m" "stage_handler s = h" "subscribers s = subs"
  using assms by (auto simp: shape_def)

text \<open>Subscriptions without a cycle of producer-consumers, and with one along the first subscribers.\<close>

definition handlers_in :: "tm set \<Rightarrow> stage_shape \<Rightarrow> bool" where
  "handlers_in F sh \<longleftrightarrow> (\<forall>i m h subs. sh i = Some (m, h, subs) \<longrightarrow> h \<in> F)"

definition ranked :: "(int \<Rightarrow> nat) \<Rightarrow> stage_shape \<Rightarrow> bool" where
  "ranked r sh \<longleftrightarrow> (\<forall>i m h subs j h' subs'. sh i = Some (m, h, subs) \<and> j \<in> set subs \<and>
     sh j = Some (STAGE_PRODUCER_CONSUMER, h', subs') \<longrightarrow> r j < r i)"

definition cyclic :: "int set \<Rightarrow> stage_shape \<Rightarrow> bool" where
  "cyclic S sh \<longleftrightarrow> (\<forall>i \<in> S. \<exists>h j subs. sh i = Some (STAGE_PRODUCER_CONSUMER, h, j # subs) \<and> j \<in> S)"

definition served :: "stage_shape \<Rightarrow> int \<Rightarrow> bool" where
  "served sh j \<longleftrightarrow> (case sh j of Some (m, _, _) \<Rightarrow> m \<noteq> STAGE_PRODUCER | None \<Rightarrow> False)"

lemma dispatch_serves:
  assumes "stage_lookup i (stages w) = Some s" "k < length (subscribers s)"
    "stage_lookup (subscribers s ! k) (stages w) = Some sub" "stage_mode sub \<noteq> STAGE_PRODUCER"
    "stage_call_fn2 ev (stage_handler sub) events (stage_state sub) w = Some (v, w1)"
  shows "dispatch_from ev i events k d w =
    (if stage_mode sub = STAGE_CONSUMER
     then Option.bind (store_stage (subscribers s ! k) v w1) (dispatch_from ev i events (k + 1) (d + 1))
     else if cell_is_pair v
     then Option.bind (cell_car v) (\<lambda>out_events. Option.bind (cell_cdr v) (\<lambda>new_state.
       Option.bind (store_stage (subscribers s ! k) new_state w1) (\<lambda>w.
         Option.bind (dispatch_from ev (subscribers s ! k) out_events 0 0 w) (\<lambda>(fwd, w).
           dispatch_from ev i events (k + 1) (d + 1) w))))
     else dispatch_from ev i events (k + 1) (d + 1) w1)"
  by (subst dispatch_from.simps) (use assms in simp)

lemma dispatch_served:
  assumes ev: "applies W ev F app" and hs: "handlers_in F sh" and r: "ranked r sh"
  shows "fits W sh w \<Longrightarrow> sh i = Some (m, h, subs) \<Longrightarrow>
    \<exists>w'. dispatch_from ev i events k d w = Some (d + length (filter (served sh) (drop k subs)), w') \<and> fits W sh w'"
proof (induction "r i" arbitrary: i m h subs events k d w rule: less_induct)
  case less
  from less.prems(1) show ?case
  proof (induction "length subs - k" arbitrary: k d w)
    case 0
    from 0 have "shape w = sh" by (simp add: fits_def)
    with shape_stage [of w i] less.prems(2) obtain s where "stage_lookup i (stages w) = Some s" "subscribers s = subs" by metis
    with 0 show ?case by (subst dispatch_from.simps) simp
  next
    case (Suc n)
    then have k: "k < length subs" "n = length subs - (k + 1)" by auto
    from Suc.prems have sh: "shape w = sh" by (simp add: fits_def)
    with shape_stage [of w i] less.prems(2) obtain s where
      s: "stage_lookup i (stages w) = Some s" "subscribers s = subs" by metis
    define j where "j = subs ! k"
    have drop_k: "drop k subs = j # drop (k + 1) subs" using k(1) by (simp add: j_def Cons_nth_drop_Suc)
    note rest = Suc.hyps(1) [OF k(2)]
    show ?case
    proof (cases "stage_lookup j (stages w)")
      case None
      then have "\<not> served sh j" using sh by (auto simp: served_def shape_def)
      with rest [of w d] Suc.prems show ?thesis
        by (subst dispatch_from.simps) (use s k(1) None in \<open>simp add: drop_k j_def [symmetric]\<close>)
    next
      case (Some sub)
      then have sh_j: "sh j = Some (stage_mode sub, stage_handler sub, subscribers sub)"
        using sh by (auto simp: shape_def)
      show ?thesis
      proof (cases "stage_mode sub = STAGE_PRODUCER")
        case True
        with sh_j have "\<not> served sh j" by (simp add: served_def)
        with rest [of w d] Suc.prems show ?thesis
          by (subst dispatch_from.simps) (use s k(1) Some True in \<open>simp add: drop_k j_def [symmetric]\<close>)
      next
        case False
        with sh_j have served: "served sh j" by (simp add: served_def)
        have "stage_handler sub \<in> F" using hs sh_j by (auto simp: handlers_in_def)
        from stage_call_fits [OF ev this Suc.prems, of events "stage_state sub"] obtain v w1 where
          call: "stage_call_fn2 ev (stage_handler sub) events (stage_state sub) w = Some (v, w1)" and w1: "fits W sh w1" .
        note unfold = dispatch_serves [of i w s k, folded s(2), unfolded s(2) j_def [symmetric], OF s(1) k(1) Some False call]
        show ?thesis
        proof (cases "stage_mode sub = STAGE_CONSUMER")
          case True
          from store_stage_fits [OF w1 sh_j, of v] obtain w2 where "store_stage j v w1 = Some w2" "fits W sh w2" .
          with rest [of w2 "d + 1"] True served show ?thesis by (simp add: unfold drop_k)
        next
          case other: False
          show ?thesis
          proof (cases "cell_is_pair v")
            case True
            then obtain p out st where v: "v = CPair p out st" by (cases v) auto
            from store_stage_fits [OF w1 sh_j, of st] obtain w2 where w2: "store_stage j st w1 = Some w2" "fits W sh w2" .
            from False other have "stage_mode sub = STAGE_PRODUCER_CONSUMER" by (cases "stage_mode sub") auto
            moreover have "j \<in> set subs" using k(1) by (simp add: j_def)
            ultimately have "r j < r i" using r less.prems(2) sh_j unfolding ranked_def by metis
            from less.hyps [OF this w2(2) sh_j, of out 0 0] obtain w3 c where
              w3: "dispatch_from ev j out 0 0 w2 = Some (c, w3)" "fits W sh w3" by blast
            from rest [OF w3(2), of "d + 1"] v w2 w3 other served True show ?thesis by (simp add: unfold drop_k)
          next
            case False
            with rest [OF w1, of "d + 1"] other served show ?thesis by (simp add: unfold drop_k)
          qed
        qed
      qed
    qed
  qed
qed

lemma dispatch_cyclic:
  assumes ev: "applies W ev F app" and hs: "handlers_in F sh" and c: "cyclic S sh"
    and pairs: "\<And>fn a b. fn \<in> F \<Longrightarrow> cell_is_pair (app [fn, a, b])"
    and some: "dispatch_from e i events k d w = Some y"
  shows "e = ev \<longrightarrow> i \<in> S \<longrightarrow> fits W sh w \<longrightarrow> k \<noteq> 0"
  using some
proof (rule dispatch_from.raw_induct [where P = "\<lambda>e i events (k :: nat) (d :: nat) w y. e = ev \<longrightarrow> i \<in> S \<longrightarrow> fits W sh w \<longrightarrow> k \<noteq> 0", rotated],
    intro impI notI)
  fix g :: "(tm \<Rightarrow> tm \<Rightarrow> effect) \<Rightarrow> int \<Rightarrow> tm \<Rightarrow> nat \<Rightarrow> nat \<Rightarrow> world \<Rightarrow> (nat \<times> world) option"
    and e :: "tm \<Rightarrow> tm \<Rightarrow> effect" and i :: int and events :: tm and k d :: nat and w :: world and y :: "nat \<times> world"
  assume IH: "\<And>e i events (k :: nat) (d :: nat) w y. g e i events k d w = Some y \<Longrightarrow> e = ev \<longrightarrow> i \<in> S \<longrightarrow> fits W sh w \<longrightarrow> k \<noteq> 0"
    and e: "e = ev" and i: "i \<in> S" and w: "fits W sh w" and k: "k = 0"
  assume body: "Option.bind (stage_lookup i (stages w)) (\<lambda>s.
      if length (subscribers s) \<le> k then Some (d, w)
      else case stage_lookup (subscribers s ! k) (stages w) of
        None \<Rightarrow> g e i events (k + 1) d w
      | Some sub \<Rightarrow>
          if stage_mode sub = STAGE_PRODUCER then g e i events (k + 1) d w
          else Option.bind (stage_call_fn2 e (stage_handler sub) events (stage_state sub) w) (\<lambda>(result, w).
            if stage_mode sub = STAGE_CONSUMER
            then Option.bind (store_stage (subscribers s ! k) result w) (g e i events (k + 1) (d + 1))
            else if cell_is_pair result
            then Option.bind (cell_car result) (\<lambda>out_events.
              Option.bind (cell_cdr result) (\<lambda>new_state.
                Option.bind (store_stage (subscribers s ! k) new_state w) (\<lambda>w.
                  Option.bind (g e (subscribers s ! k) out_events 0 0 w) (\<lambda>(fwd, w).
                    g e i events (k + 1) (d + 1) w))))
            else g e i events (k + 1) (d + 1) w)) = Some y"
  from c i obtain h j js where sh_i: "sh i = Some (STAGE_PRODUCER_CONSUMER, h, j # js)" and j: "j \<in> S"
    unfolding cyclic_def by blast
  from c j obtain h' js' where sh_j: "sh j = Some (STAGE_PRODUCER_CONSUMER, h', js')" unfolding cyclic_def by blast
  from w have sh: "shape w = sh" by (simp add: fits_def)
  with shape_stage [of w i] sh_i obtain s where s: "stage_lookup i (stages w) = Some s" "subscribers s = j # js" by metis
  from shape_stage [of w j] sh_j sh obtain sub where
    sub: "stage_lookup j (stages w) = Some sub" "stage_mode sub = STAGE_PRODUCER_CONSUMER" "stage_handler sub = h'" by metis
  have h': "h' \<in> F" using hs sh_j by (auto simp: handlers_in_def)
  from stage_call_fits [OF ev h' w, of events "stage_state sub"] obtain w1 where
    w1: "stage_call_fn2 ev h' events (stage_state sub) w = Some (app [h', events, stage_state sub], w1)" "fits W sh w1" .
  from pairs [OF h', of events "stage_state sub"] obtain p out st where v: "app [h', events, stage_state sub] = CPair p out st"
    by (cases "app [h', events, stage_state sub]") auto
  from store_stage_fits [OF w1(2) sh_j, of st] obtain w2 where
    w2: "store_stage j st w1 = Some w2" "fits W sh w2" .
  from body s sub w1 v w2 k e obtain z where "g ev j out 0 0 w2 = Some z"
    by (auto simp: bind_eq_Some_conv)
  from IH [OF this] j w2(2) show False by simp
qed

text \<open>
  C40. A dispatch of events through stages ends exactly as far as the subscriptions do. If the evaluator
  applies the handlers and the producer-consumers do not subscribe to each other in a cycle, it returns the
  number of subscribers that are consumers or producer-consumers and leaves the modes, the handlers and the
  subscriptions as they are. Stages that are their own first subscribers in a cycle, with handlers that always
  return a pair, are dispatched to for ever: the C function recurses without bound.
\<close>

theorem dispatch_ends_without_cycles:
  assumes "applies W ev F app" "W (world_ctx w)" "handlers_in F (shape w)" "shape w i = Some (m, h, subs)"
  shows "(ranked r (shape w) \<longrightarrow>
      (\<exists>w'. stage_dispatch_to_subscribers ev i events w =
          Some (number (int (length (filter (served (shape w)) subs))), w') \<and> shape w' = shape w)) \<and>
    (cyclic S (shape w) \<and> i \<in> S \<and> (\<forall>fn a b. fn \<in> F \<longrightarrow> cell_is_pair (app [fn, a, b])) \<longrightarrow>
      stage_dispatch_to_subscribers ev i events w = None)"
proof (intro conjI impI)
  assume "ranked r (shape w)"
  from dispatch_served [OF assms(1,3) this _ assms(4), of w events 0 0] assms(2)
  show "\<exists>w'. stage_dispatch_to_subscribers ev i events w =
      Some (number (int (length (filter (served (shape w)) subs))), w') \<and> shape w' = shape w"
    by (auto simp: stage_dispatch_to_subscribers_def fits_def)
next
  assume "cyclic S (shape w) \<and> i \<in> S \<and> (\<forall>fn a b. fn \<in> F \<longrightarrow> cell_is_pair (app [fn, a, b]))"
  then have c: "cyclic S (shape w)" "i \<in> S" "\<And>fn a b. fn \<in> F \<Longrightarrow> cell_is_pair (app [fn, a, b])" by blast+
  have "dispatch_from ev i events 0 0 w \<noteq> Some y" for y
    using dispatch_cyclic [OF assms(1,3) c(1,3), of ev i events 0 0 w y] c(2) assms(2) by (auto simp: fits_def)
  then have "dispatch_from ev i events 0 0 w = None" by (cases "dispatch_from ev i events 0 0 w") auto
  then show "stage_dispatch_to_subscribers ev i events w = None" by (simp add: stage_dispatch_to_subscribers_def)
qed

text \<open>A producer with one consumer, and a producer-consumer that subscribes to itself.\<close>

definition stage_world :: "gen_stage list \<Rightarrow> world" where
  "stage_world ss = (initial_world fresh_context)\<lparr>stages := slots_of MAX_STAGES ss\<rparr>"

definition stage_of :: "stage_mode \<Rightarrow> int list \<Rightarrow> gen_stage" where
  "stage_of m subs = \<lparr>stage_mode = m, stage_handler = pairing, stage_state = cell_nil, subscribers = subs\<rparr>"

lemma stage_world_shape:
  "shape (stage_world ss) (int i) =
    (if i < length ss then Some (stage_mode (ss ! i), stage_handler (ss ! i), subscribers (ss ! i)) else None)"
  by (simp add: shape_def stage_world_def stage_lookup_def slots_of_lookup)

lemma stage_world_handlers:
  assumes "\<forall>s \<in> set ss. stage_handler s \<in> F"
  shows "handlers_in F (shape (stage_world ss))"
proof -
  have "s \<in> set ss" if "stage_lookup i (stages (stage_world ss)) = Some s" for i s
  proof -
    from that have look: "slot_lookup i (slots_of MAX_STAGES ss) = Some s" by (simp add: stage_world_def stage_lookup_def)
    then obtain p where p: "slot_find i (slots_of MAX_STAGES ss) = Some p"
      by (auto simp: slot_lookup_def bind_eq_Some_conv)
    with look slot_find_Some [OF p] slots_of_nth [of p MAX_STAGES ss] show ?thesis
      by (auto simp: slot_lookup_def split: if_splits)
  qed
  with assms show ?thesis by (auto simp: handlers_in_def shape_def)
qed

lemma flow_app_pairing: "cell_is_pair (flow_app [pairing, a, b])"
  using closures_differ by (simp add: flow_app_def prim_result_def prim_cons_def) (simp add: cell_cons_def)

theorem dispatch_ends_without_cycles_witness:
  "(\<exists>w'. stage_dispatch_to_subscribers (world_eval flow_interp 3) 0 cell_nil
      (stage_world [stage_of STAGE_PRODUCER [1], stage_of STAGE_CONSUMER []]) = Some (number 1, w')) \<and>
   stage_dispatch_to_subscribers (world_eval flow_interp 3) 0 cell_nil (stage_world [stage_of STAGE_PRODUCER_CONSUMER [0]]) = None"
proof
  let ?w = "stage_world [stage_of STAGE_PRODUCER [1], stage_of STAGE_CONSUMER []]"
  have sh: "shape ?w 0 = Some (STAGE_PRODUCER, pairing, [1])" "shape ?w 1 = Some (STAGE_CONSUMER, pairing, [])"
    using stage_world_shape [of "[stage_of STAGE_PRODUCER [1], stage_of STAGE_CONSUMER []]" 0]
      stage_world_shape [of "[stage_of STAGE_PRODUCER [1], stage_of STAGE_CONSUMER []]" 1] by (simp_all add: stage_of_def)
  have out: "shape ?w i = None" if "i \<noteq> 0" "i \<noteq> 1" for i
  proof (cases "0 \<le> i")
    case True
    then show ?thesis
      using stage_world_shape [of "[stage_of STAGE_PRODUCER [1], stage_of STAGE_CONSUMER []]" "nat i"] that by auto
  next
    case False
    have "slot_find i (slots_of n xs) \<noteq> Some p" for n p and xs :: "gen_stage list"
      using False slot_find_Some [of i "slots_of n xs" p] slots_of_nth [of p n xs] by (auto split: if_splits)
    then have "slot_find i (slots_of n xs) = None" for n and xs :: "gen_stage list"
      by (cases "slot_find i (slots_of n xs)") auto
    then show ?thesis by (simp add: shape_def stage_world_def stage_lookup_def slot_lookup_def)
  qed
  have ranked: "ranked (\<lambda>_. 0) (shape ?w)"
    unfolding ranked_def by (metis out sh option.inject option.distinct(1) prod.inject stage_mode.distinct)
  have plain: "plain_context {''+'', ''cons''} (world_ctx ?w)" using plain_initial by (simp add: stage_world_def)
  have handlers: "handlers_in {doubling, adding, pairing} (shape ?w)"
    by (rule stage_world_handlers) (simp add: stage_of_def)
  from dispatch_ends_without_cycles [where events = cell_nil and S = "{}" and r = "\<lambda>_. 0",
      OF flow_eval_applies plain handlers sh(1)] ranked sh(2)
  show "\<exists>w'. stage_dispatch_to_subscribers (world_eval flow_interp 3) 0 cell_nil ?w = Some (number 1, w')"
    by (auto simp: served_def)
next
  let ?w = "stage_world [stage_of STAGE_PRODUCER_CONSUMER [0]]"
  have sh: "shape ?w 0 = Some (STAGE_PRODUCER_CONSUMER, pairing, [0])"
    using stage_world_shape [of "[stage_of STAGE_PRODUCER_CONSUMER [0]]" 0] by (simp add: stage_of_def)
  then have cyclic: "cyclic {0} (shape ?w)" by (simp add: cyclic_def)
  have plain: "plain_context {''+'', ''cons''} (world_ctx ?w)" using plain_initial by (simp add: stage_world_def)
  have handlers: "handlers_in {pairing} (shape ?w)"
    by (rule stage_world_handlers) (simp add: stage_of_def)
  have "applies (plain_context {''+'', ''cons''}) (world_eval flow_interp 3) {pairing} flow_app"
    by (rule applies_subset [OF flow_eval_applies]) simp
  from dispatch_ends_without_cycles [where events = cell_nil and S = "{0}", OF this plain handlers sh] cyclic
  show "stage_dispatch_to_subscribers (world_eval flow_interp 3) 0 cell_nil ?w = None"
    by (simp add: flow_app_pairing)
qed

end
