(* ===== verification/Spec2Isabelle.thy ===== *)
theory Spec2Isabelle
  imports Deque Vec CellTables StringFacts ArithFacts Heap4 DeBruijn TypeFacts PrimStructs ModuleFacts EvalRef RefineFacts PatternFacts ChannelFacts
    ActorFacts ExitFacts SupFacts TimerFacts TableFacts SchedFacts FlowFacts
begin

text \<open>
  A model of the bootstrap runtime of the language Guage (\<^verbatim>\<open>src/bootstrap\<close>, C) and what makes
  it correct.

  \<^bold>\<open>The program.\<close> Every value is a \<^verbatim>\<open>Cell\<close>, a tagged union (\<^verbatim>\<open>cell.h\<close>). \<^verbatim>\<open>cell.c\<close> implements the
  containers of the language on top of it, \<^verbatim>\<open>primitives.c\<close> the functions a program can call, and
  \<^verbatim>\<open>eval.c\<close> the evaluator: lambdas are converted to indices when they are evaluated (\<^verbatim>\<open>debruijn.c\<close>),
  macros are expanded first (\<^verbatim>\<open>macro.c\<close>), the form \<^verbatim>\<open>match\<close> compares values with patterns
  (\<^verbatim>\<open>pattern.c\<close>), definitions are recorded in modules (\<^verbatim>\<open>module.c\<close>). Reference counts are not part of
  the model: a cell is a value, and an address where the code compares pointers.

  \<^bold>\<open>Conventions.\<close> Machine integers are words of their width; C strings are strings without their
  final zero; a double is its bit pattern (\<open>Doubles\<close>, \<open>Floats\<close>). \<^verbatim>\<open>None\<close> of an option stands for
  what the C code leaves undefined or ends in a failed assertion (a NULL that is followed, an index
  out of bounds, an overflowing cast); errors of the language are values built by \<open>cell_error\<close>.
  Recursion that the source does not bound has either a termination proof, or is a \<open>partial_function\<close>
  where not returning is \<open>None\<close>, or, for the evaluator, takes fuel. Theorems about those state that
  they return.

  \<^bold>\<open>Foundations.\<close> \<open>Prelude\<close>: masks, probing sequences, lists. \<open>Contracts\<close>: the locales of stacks,
  deques, sets, maps and priority queues over an invariant and an abstraction; the theory of each
  container interprets its locale, and the properties of sequences of calls are lemmas of the locale.

  \<^bold>\<open>Cells\<close> (\<^verbatim>\<open>cell.h\<close>, \<^verbatim>\<open>cell.c\<close>). \<open>Cells\<close>: the datatype, constructors, predicates, \<^verbatim>\<open>cell_equal\<close>.
  \<open>CellHash\<close>: \<^verbatim>\<open>cell_hash\<close> with \<open>SipHash\<close> (\<^verbatim>\<open>siphash.h\<close>). \<open>CellOps\<close>: accessors, errors with their causes
  and their ring of positions, structures, graphs as values, helpers of the primitives.

  \<^bold>\<open>Containers\<close> (\<^verbatim>\<open>cell.c\<close>). \<open>Deque\<close>, \<open>Vec\<close>, \<open>Heap4\<close>: ring buffer, vector with inline slots, 4-ary
  heap, each a record of the fields of its struct, with an invariant and an abstraction to a list or
  multiset. \<open>SwissTable\<close> (\<^verbatim>\<open>swisstable.h\<close>), \<open>HashMap\<close>, \<open>HashSet\<close>: control bytes, probing, growth,
  generic in key equality and hash; \<open>CellTables\<close> instantiates them with those of cells.

  \<^bold>\<open>Primitives\<close> (\<^verbatim>\<open>primitives.c\<close>). \<open>PrimArith\<close>, \<open>ArithFacts\<close>: numbers, comparisons, bits, logic, list
  shrinking. \<open>StrSimd\<close> (\<^verbatim>\<open>str_simd.h\<close>), \<open>PrimStrings\<close>, \<open>StringFacts\<close>: strings. \<open>PrimTypes\<close>,
  \<open>TypeFacts\<close>: types as structures, subtyping, inference. \<open>PrimStructs\<close>: structures and registries.
  \<open>PrimRefine\<close>, \<open>RefineFacts\<close>: refinement types, whose checks run on three tiers (extracted
  constraints, compiled templates, evaluation).

  \<^bold>\<open>Evaluator.\<close> \<open>DeBruijn\<close> (\<^verbatim>\<open>debruijn.c\<close>, \<^verbatim>\<open>eval.c\<close>): conversion and environments. \<open>Modules\<close>,
  \<open>ModuleFacts\<close> (\<^verbatim>\<open>module.c\<close>): the registry and its search for cycles. \<open>Macros\<close>, \<open>MacroFacts\<close>
  (\<^verbatim>\<open>macro.c\<close>). \<open>EvalState\<close>: the context, together with the global registries, is one record that every
  step returns updated. \<open>Patterns\<close>, \<open>PatternFacts\<close> (\<^verbatim>\<open>pattern.c\<close>, \<^verbatim>\<open>pattern_check.c\<close>). \<open>Eval\<close>
  (\<^verbatim>\<open>eval.c\<close>): one pass through the body of \<^verbatim>\<open>eval_internal\<close> is \<open>eval_step\<close>, which takes the evaluator
  of subexpressions as an argument; \<open>eval_internal I n\<close> iterates it \<open>n\<close> times. The record \<open>I\<close> holds the
  primitives by name, the positions of expressions and the forms outside the model. \<open>EvalFacts\<close>: fuel
  is monotone. \<open>EvalRef\<close>: on a core with nested scopes evaluation after conversion agrees with an
  interpreter with names, with fuel given by the size of the expression.

  \<^bold>\<open>Channels and mailboxes.\<close> \<open>Channel\<close> (\<^verbatim>\<open>channel.c\<close>): the bounded queue between threads. A thread inside an
  operation is a program counter \<open>pc\<close>, and \<open>chan_step\<close> makes its next access to the shared fields, so that the
  steps of several threads interleave; the accesses are taken to be sequentially consistent.
  \<open>ChannelFacts\<close>: the step relation of a system of threads, its reachable states by rule induction, and
  tickets, by which every value sent is received once, below \<open>2 ^ 62\<close> sends. \<open>Mailbox\<close> (\<^verbatim>\<open>actor.c\<close>): the
  same kind of ring for the messages of an actor, its operations taken as a whole, with the contract of a
  bounded queue. The differences of positions are those of two's complement; below \<open>2 ^ 63\<close>, where the
  signed subtraction of the code is defined, \<open>defined_send\<close> and \<open>defined_receive\<close> show that they agree.

  \<^bold>\<open>Actors\<close> (\<^verbatim>\<open>actor.c\<close>). \<open>ActorTables\<close>: term storage, applications, agents, stages, flows and names,
  generic in keys and values. \<open>Actors\<close>: the record \<open>world\<close> holds all global tables; creation, messages,
  links, monitors, exits, supervisors, timers. Exits reach other actors, which exit in turn: an operation
  takes the notification of an exit as an argument, and \<open>notify_exit\<close> ties the knot up to the depth
  \<open>EXIT_DEPTH\<close>. \<open>ActorFacts\<close> shows by a measure of living actors and restarts left that this depth is
  never used up; \<open>ExitFacts\<close> which actors an exit kills; \<open>SupFacts\<close> what a supervisor restarts;
  \<open>TimerFacts\<close> a round of the timers; \<open>TableFacts\<close> that term storage is a map, and when its slots run out.

  \<^bold>\<open>Primitives on actors and their execution\<close> (\<^verbatim>\<open>primitives.c\<close>, \<^verbatim>\<open>scheduler.c\<close>, \<^verbatim>\<open>fiber.c\<close>). \<open>ActorPrims\<close>,
  \<open>ServicePrims\<close>, \<open>ChannelPrims\<close>, \<open>FlowPrims\<close>: a primitive maps its arguments and the world to an answer
  and a new world; one that may wait returns \<open>Suspends\<close>. They run in a world in which no other thread is
  inside of a channel or a mailbox. Where they call closures, the evaluator is an argument. \<open>Scheduler\<close>: the
  choice of the actors that may run, what a waiting call is resumed with, a quantum, and the loop over all
  actors; the jump to the stack of a fiber is the argument \<open>switch\<close>. \<open>SchedFacts\<close>: what becomes of an actor
  that waits for a message or for room in a channel. \<open>FlowFacts\<close>: the value of a pipeline, and when the
  dispatch of events through stages ends, for every evaluator that applies the closures, of which the one of
  \<open>Eval\<close> is an instance.

  \<^bold>\<open>What the lemmas show.\<close> For each container an invariant that every operation keeps and a refinement
  of its abstract counterpart; for searches and codes equality with a reference definition; for the
  primitives their result on every branch; for conversion, evaluation, patterns and macros equality
  with a reference semantics; for concurrent rings an invariant of all interleavings; for exits, restarts
  and dispatch that they end, and the state they end in. Where the code does not do what it means to, a
  property shows a state in which it goes wrong. Sizes are bounded where the code is right only below a
  bound: \<open>2 ^ 27\<close> slots of a map, \<open>2 ^ 31\<close> elements of a deque, \<open>2 ^ 28\<close> of a vector, \<open>2 ^ 30\<close> of a heap.

  \<^bold>\<open>Not modelled.\<close> Input and output (the reader, printing, files, the line editor, which is third-party
  code), the sorted map, iterators, the byte buffer and the trie of \<^verbatim>\<open>cell.c\<close>, reference counting and
  freeing, timing, profiling, tracing and documentation records; the threads of the schedulers, work
  stealing, locks and parking; context switches and the machine code emitters; the handler forms of effects,
  which switch fibers; conversions between numbers and text, which are those of the C library; the
  fallbacks of the vector code for other processors.
\<close>

end
